(* ===== verification/Prelude.thy ===== *)
theory Prelude
  imports Main "HOL-Library.Word"
begin

unbundle bit_operations_syntax

section \<open>Prelude: machine types, byte memory, shared lemmas\<close>

text \<open>
  The fixed-width integers of \<open>include/types.h\<close>, the physical memory every kernel component
  reads and writes, and the generic facts on lists, words and loops that the component
  theories share. Memory is a function from 32-bit byte addresses to bytes; 32-bit loads and
  stores are little-endian, as on the x86 the kernel runs on.

  The named collections: \<open>frame_simps\<close> holds the facts that an operation leaves a field of
  the kernel state alone, \<open>state_inv\<close> the facts that an operation keeps an invariant.
\<close>

named_theorems frame_simps "operations that leave a state field unchanged"
named_theorems state_inv "operations that keep an invariant"
named_theorems const_defs "the numeric constants (#define) of the sources"

type_synonym u8 = "8 word"
type_synonym u16 = "16 word"
type_synonym u32 = "32 word"
type_synonym u64 = "64 word"

type_synonym memory = "u32 \<Rightarrow> u8"

text \<open>
  What a C \<open>INT\<close>, 32 bits with sign, keeps of an integer result. Overflow is undefined in C; the
  instructions a compiler emits for it wrap around, and so does this.
\<close>

definition INT32 :: "int \<Rightarrow> int" where
  "INT32 z = sint (word_of_int z :: u32)"

lemma INT32_id: "- 2147483648 \<le> z \<Longrightarrow> z < 2147483648 \<Longrightarrow> INT32 z = z"
  by (simp add: INT32_def signed_of_int signed_take_bit_int_eq_self)

lemma INT32_wraps: "INT32 z = INT32 (z - 4294967296)"
proof -
  have "(word_of_int 4294967296 :: u32) = 0" by simp
  then have "(word_of_int (z - 4294967296) :: u32) = word_of_int z" by (simp only: of_int_diff) simp
  then show ?thesis by (simp only: INT32_def)
qed

lemma INT32_bounds: "- 2147483648 \<le> INT32 z" "INT32 z < 2147483648"
  using sint_ge [of "word_of_int z :: u32"] sint_lt [of "word_of_int z :: u32"] by (simp_all add: INT32_def)

text \<open>The C conversions between unsigned types: truncation or zero extension.\<close>

abbreviation u8_to_u16 :: "u8 \<Rightarrow> u16" where "u8_to_u16 \<equiv> ucast"
abbreviation u8_to_u32 :: "u8 \<Rightarrow> u32" where "u8_to_u32 \<equiv> ucast"
abbreviation u16_to_u8 :: "u16 \<Rightarrow> u8" where "u16_to_u8 \<equiv> ucast"
abbreviation u16_to_u32 :: "u16 \<Rightarrow> u32" where "u16_to_u32 \<equiv> ucast"
abbreviation u32_to_u8 :: "u32 \<Rightarrow> u8" where "u32_to_u8 \<equiv> ucast"
abbreviation u32_to_u16 :: "u32 \<Rightarrow> u16" where "u32_to_u16 \<equiv> ucast"
abbreviation u64_to_u32 :: "u64 \<Rightarrow> u32" where "u64_to_u32 \<equiv> ucast"
abbreviation u32_to_u64 :: "u32 \<Rightarrow> u64" where "u32_to_u64 \<equiv> ucast"

lemma unat_u8_less [simp]: "unat (w :: u8) < 256"
  using unsigned_less [of w] by simp

lemma unat_u16_less [simp]: "unat (w :: u16) < 65536"
  using unsigned_less [of w] by simp

lemma unat_u32_less [simp]: "unat (w :: u32) < 4294967296"
  using unsigned_less [of w] by simp

lemma unat_of_nat_u32: "n < 4294967296 \<Longrightarrow> unat (of_nat n :: u32) = n"
  by (simp add: unat_of_nat take_bit_eq_mod)

lemma unat_drop_bit: "unat (drop_bit k w) = unat w div 2 ^ k" for w :: "'a::len word"
proof -
  have "unat (drop_bit k w) = drop_bit k (take_bit LENGTH('a) (unat w))"
    by (rule unsigned_drop_bit_eq)
  also have "take_bit LENGTH('a) (unat w) = unat w"
    by (rule take_bit_nat_eq_self) (rule unsigned_less)
  finally show ?thesis by (simp add: drop_bit_eq_div)
qed

text \<open>Rounding an address down to a multiple of \<open>2 ^ n\<close> by masking its low bits.\<close>

lemma unat_and_not_mask: "unat (x AND NOT (mask n)) = unat x div 2 ^ n * 2 ^ n" for x :: "'a::len word"
proof -
  have x: "x AND NOT (mask n) = push_bit n (drop_bit n x)"
    by (rule bit_word_eqI) (auto simp: bit_simps)
  have "push_bit n (drop_bit n x) = x - take_bit n x"
    using bits_ident [of n x] by (simp add: eq_diff_eq)
  moreover have take: "unat (take_bit n x) = unat x mod 2 ^ n"
    by (simp only: unsigned_take_bit_eq) (rule take_bit_eq_mod)
  moreover have "take_bit n x \<le> x"
    unfolding word_le_nat_alt take by simp
  ultimately show ?thesis
    unfolding x by (simp add: unat_sub minus_mod_eq_div_mult)
qed

definition page_base :: "u32 \<Rightarrow> u32" where
  "page_base a = a AND NOT 0xFFF"

lemma unat_page_base: "unat (page_base a) = unat a div 4096 * 4096"
proof -
  have "(0xFFF :: u32) = mask 12" by (simp add: mask_eq_exp_minus_1)
  then show ?thesis using unat_and_not_mask [of a 12] by (simp add: page_base_def)
qed

definition word_base :: "u32 \<Rightarrow> u32" where
  "word_base a = a AND NOT 3"

lemma unat_word_base: "unat (word_base a) = unat a div 4 * 4"
proof -
  have "(3 :: u32) = mask 2" by (simp add: mask_eq_exp_minus_1)
  then show ?thesis using unat_and_not_mask [of a 2] by (simp add: word_base_def)
qed

subsection \<open>C characters and strings\<close>

text \<open>
  A C \<open>char\<close> is a HOL \<open>char\<close>; \<open>byte_of\<close> is its value as an unsigned byte. A string argument
  is the list of its characters before the terminating zero byte.
\<close>

definition byte_of :: "char \<Rightarrow> u8" where
  "byte_of c = of_nat (of_char c)"

definition char_at :: "u8 \<Rightarrow> char" where
  "char_at b = char_of (unat b)"

lemma unat_byte_of [simp]: "unat (byte_of c) = of_char c"
  by (simp add: byte_of_def unat_of_nat take_bit_eq_mod)

lemma char_at_byte_of [simp]: "char_at (byte_of c) = c"
  by (simp add: char_at_def)

lemma byte_of_char_at [simp]: "byte_of (char_at b) = b"
proof -
  have "unat b < 256"
    by (rule unat_u8_less)
  then show ?thesis
    by (simp add: byte_of_def char_at_def)
qed

abbreviation NUL :: char where
  "NUL \<equiv> CHR 0x00"

text \<open>The string that a buffer holds: what comes before the first null character.\<close>

definition cstr :: "string \<Rightarrow> string" where
  "cstr buf = takeWhile (\<lambda>c. c \<noteq> NUL) buf"

definition crlf :: string where
  "crlf = [CHR 0x0D, CHR 0x0A]"

definition hex_digits :: string where
  "hex_digits = ''0123456789ABCDEF''"

text \<open>\<open>hex[(v >> s) & 0xF]\<close>, the digit the hex printers of the sources look up.\<close>

definition hex_digit :: "u32 \<Rightarrow> nat \<Rightarrow> char" where
  "hex_digit v s = hex_digits ! unat (drop_bit s v AND 0xF)"

subsection \<open>Little-endian words in memory\<close>

definition load32 :: "memory \<Rightarrow> u32 \<Rightarrow> u32" where
  "load32 m a = u8_to_u32 (m a) OR push_bit 8 (u8_to_u32 (m (a + 1)))
     OR push_bit 16 (u8_to_u32 (m (a + 2))) OR push_bit 24 (u8_to_u32 (m (a + 3)))"

definition store32 :: "memory \<Rightarrow> u32 \<Rightarrow> u32 \<Rightarrow> memory" where
  "store32 m a v = m(a := u32_to_u8 v, a + 1 := u32_to_u8 (drop_bit 8 v),
     a + 2 := u32_to_u8 (drop_bit 16 v), a + 3 := u32_to_u8 (drop_bit 24 v))"

lemma load32_store32 [simp]: "load32 (store32 m a v) a = v"
proof (rule bit_word_eqI)
  fix n assume "n < LENGTH(32)"
  then have "n < 8 \<or> 8 \<le> n \<and> n < 16 \<or> 16 \<le> n \<and> n < 24 \<or> 24 \<le> n \<and> n < 32"
    by auto
  then show "bit (load32 (store32 m a v) a) n = bit v n"
    by (elim disjE) (auto simp: load32_def store32_def bit_simps)
qed

text \<open>Two different word-aligned words do not overlap.\<close>

definition aligned4 :: "u32 \<Rightarrow> bool" where
  "aligned4 a \<longleftrightarrow> 4 dvd unat a"

lemma aligned4_offset_neq:
  assumes "aligned4 a" "aligned4 b" "a \<noteq> b" "i < 4" "j < 4"
  shows "a + of_nat i \<noteq> b + of_nat j"
proof
  assume eq: "a + of_nat i = b + of_nat j"
  have bound: "unat (c + of_nat k) = unat c + k" if "aligned4 c" "k < 4" for c :: u32 and k
  proof -
    have "unat c + k < 4294967296"
      using that unat_u32_less [of c] unfolding aligned4_def by presburger
    with that show ?thesis by (simp add: unat_word_ariths unat_of_nat take_bit_eq_mod)
  qed
  from eq bound assms have "unat a + i = unat b + j" by metis
  with assms have "unat a = unat b" by (simp add: aligned4_def) presburger
  with \<open>a \<noteq> b\<close> show False by (simp add: word_unat_eq_iff)
qed

lemma load32_store32_other:
  assumes "aligned4 a" "aligned4 b" "a \<noteq> b"
  shows "load32 (store32 m a v) b = load32 m b"
proof -
  note neq = aligned4_offset_neq [OF assms]
  have "(store32 m a v) (b + of_nat j) = m (b + of_nat j)" if "j < 4" for j
    using neq [of 0 j] neq [of 1 j] neq [of 2 j] neq [of 3 j] that
    by (auto simp: store32_def)
  from this [of 0] this [of 1] this [of 2] this [of 3] show ?thesis
    by (simp add: load32_def)
qed

subsection \<open>Lists updated by index\<close>

lemma fold_update_length [simp]:
  "length (fold (\<lambda>i xs. xs[f i := g i xs]) is xs) = length xs"
  by (induction "is" arbitrary: xs) auto

text \<open>A loop that writes each index of a range once leaves the value written there.\<close>

lemma fold_update_upt_nth:
  assumes "b \<le> length xs" "k < length xs"
  shows "fold (\<lambda>i xs. xs[i := g i]) [a..<b] xs ! k = (if a \<le> k \<and> k < b then g k else xs ! k)"
  using assms(1)
proof (induction b)
  case 0
  then show ?case by simp
next
  case (Suc b)
  show ?case
  proof (cases "a \<le> b")
    case True
    have "length (fold (\<lambda>i xs. xs[i := g i]) [a..<b] xs) = length xs" by simp
    with True Suc assms(2) show ?thesis by (auto simp: nth_list_update)
  next
    case False
    then show ?thesis by auto
  qed
qed

text \<open>A loop over rows of a loop over columns is one loop over the cells in row-major order.\<close>

lemma upt_block: "[n * w..<(n + 1) * w] = map (\<lambda>x. n * w + x) [0..<w]"
  by (rule nth_equalityI) auto

lemma fold_rows:
  "fold (\<lambda>y. fold (\<lambda>x. f (y * w + x)) [0..<w]) [0..<h] b = fold f [0..<h * w] b"
proof (induction h arbitrary: b)
  case 0
  then show ?case by simp
next
  case (Suc h)
  have "[0..<Suc h * w] = [0..<h * w] @ [h * w..<(h + 1) * w]"
    using upt_add_eq_append [of 0 "h * w" w] by (simp add: add.commute)
  then show ?case
    unfolding upt_block by (simp add: Suc fold_map comp_def)
qed

lemma fold_fill_all:
  "length xs = n \<Longrightarrow> fold (\<lambda>i xs. xs[i := v]) [0..<n] xs = replicate n v"
  by (rule nth_equalityI) (auto simp: fold_update_upt_nth [where g = "\<lambda>_. v"])

subsection \<open>Buffers that are functions of the index\<close>

text \<open>
  Where a store out of range has to show, a buffer is a function of the index. Filling a range of it,
  and moving every element \<open>k\<close> places down from the front: each source is read before it is written.
\<close>

lemma fold_fun_fill:
  "fold (\<lambda>x f. f(n + x := v)) [0..<w] f = (\<lambda>i. if n \<le> i \<and> i < n + w then v else f i)" for n w :: nat
  by (induction w) (auto simp: fun_eq_iff)

lemma fold_fun_fill_0: "fold (\<lambda>i f. f(i := v)) [0..<n] f = (\<lambda>i. if i < n then v else f i)" for n :: nat
  using fold_fun_fill [of 0 v n f] by simp

lemma fold_fun_shift_down:
  "fold (\<lambda>i f. f(i := f (i + k))) [0..<n] f = (\<lambda>i. if i < n then f (i + k) else f i)" for n k :: nat
  by (induction n) (auto simp: fun_eq_iff)

subsection \<open>Counting in blocks\<close>

lemma below_block: "c * (k div c) < k \<longleftrightarrow> k mod c \<noteq> 0" for k c :: nat
  by (metis add.right_neutral less_add_same_cancel1 mult_div_mod_eq neq0_conv)

lemma next_block: 
  fixes j k c :: nat
  assumes "0 < c" shows "c * j < Suc k \<longleftrightarrow> c * j < k \<or> j = k div c"
proof
  assume "c * j < Suc k"
  with assms show "c * j < k \<or> j = k div c" by (cases "c * j = k") auto
next
  assume "c * j < k \<or> j = k div c"
  moreover have "c * (k div c) \<le> k" by simp
  ultimately show "c * j < Suc k" by (elim disjE) (simp, simp only: less_Suc_eq_le)
qed

lemma blocks_upto:
  fixes k c :: nat
  assumes "0 < c"
  shows "(k + (c - 1)) div c = (if k mod c = 0 then k div c else k div c + 1)"
proof (cases "k mod c = 0")
  case True
  then obtain q where "k = c * q" by auto
  moreover have "(c * q + (c - 1)) div c = q + (c - 1) div c" using assms by (intro div_mult_self4) simp
  ultimately show ?thesis using assms by simp
next
  case False
  have "k + (c - 1) = c * (k div c + 1) + (k mod c - 1)"
    using False assms mult_div_mod_eq [of c k] by simp
  moreover have "k mod c - 1 < c" using assms mod_less_divisor [of c k] by linarith
  ultimately have "(k + (c - 1)) div c = k div c + 1" using assms by (metis div_mult_self4 div_less add.right_neutral neq0_conv)
  with False show ?thesis by simp
qed

lemma blocks_next:
  fixes k c :: nat
  assumes "0 < c"
  shows "(Suc k + (c - 1)) div c = k div c + 1"
proof -
  have "Suc k + (c - 1) = k + c" using assms by simp
  then show ?thesis using assms by (simp only: div_add_self2)
qed

lemma page_step: "0 < c \<Longrightarrow> n div c \<noteq> k \<Longrightarrow> n < c * Suc k \<longleftrightarrow> n < c * k" for k c n :: nat
  by (metis div_less_iff_less_mult less_Suc_eq mult.commute)

subsection \<open>Bits of the masks\<close>

lemma bit_mask_literal: "x = mask k \<Longrightarrow> bit x n \<longleftrightarrow> n < k" for x :: int
  by (simp add: bit_mask_iff)

lemma bit_masks:
  "bit (0xF :: int) n \<longleftrightarrow> n < 4" "bit (0xFF :: int) n \<longleftrightarrow> n < 8" "bit (0xFFF :: int) n \<longleftrightarrow> n < 12"
  "bit (0xFFFF :: int) n \<longleftrightarrow> n < 16" "bit (0xFFFFF :: int) n \<longleftrightarrow> n < 20"
  "bit (0xF0 :: int) n \<longleftrightarrow> 4 \<le> n \<and> n < 8"
proof -
  show low: "bit (0xF :: int) n \<longleftrightarrow> n < 4" for n
    by (rule bit_mask_literal) (simp add: mask_eq_exp_minus_1)
  show "bit (0xFF :: int) n \<longleftrightarrow> n < 8"
    by (rule bit_mask_literal) (simp add: mask_eq_exp_minus_1)
  show "bit (0xFFF :: int) n \<longleftrightarrow> n < 12"
    by (rule bit_mask_literal) (simp add: mask_eq_exp_minus_1)
  show "bit (0xFFFF :: int) n \<longleftrightarrow> n < 16"
    by (rule bit_mask_literal) (simp add: mask_eq_exp_minus_1)
  show "bit (0xFFFFF :: int) n \<longleftrightarrow> n < 20"
    by (rule bit_mask_literal) (simp add: mask_eq_exp_minus_1)
  have "(0xF0 :: int) = push_bit 4 0xF" by (simp add: push_bit_eq_mult)
  then have "bit (0xF0 :: int) n \<longleftrightarrow> 4 \<le> n \<and> bit (0xF :: int) (n - 4)"
    by (simp only: bit_push_bit_iff) simp
  then show "bit (0xF0 :: int) n \<longleftrightarrow> 4 \<le> n \<and> n < 8" using low [of "n - 4"] by auto
qed

subsection \<open>Loops whose steps may not return\<close>

primrec fold_opt :: "('i \<Rightarrow> 's \<Rightarrow> 's option) \<Rightarrow> 'i list \<Rightarrow> 's \<Rightarrow> 's option" where
  "fold_opt f [] s = Some s"
| "fold_opt f (i # is) s = Option.bind (f i s) (fold_opt f is)"

lemma fold_opt_total: "(\<And>i s. i \<in> set is \<Longrightarrow> f i s = Some (g i s)) \<Longrightarrow> fold_opt f is s = Some (fold g is s)"
  by (induction "is" arbitrary: s) auto

end
