(* ===== verification/Console.thy ===== *)
theory Console
  imports Prelude
begin

unbundle bit_operations_syntax

section \<open>The kernel's serial log and VGA text screen\<close>

text \<open>
  Models \<open>kernel/screen.c\<close> (the 80x25 text screen at 0xB8000) and the serial output of
  \<open>kernel/interrupt/idt.c\<close>. The state: \<open>serial_out\<close> is every character sent through COM1,
  \<open>vga_text\<close> the text memory by cell (the screen is cells 0 to 1999, a store past them is kept), and \<open>screen_row\<close>, \<open>screen_col\<close>,
  \<open>screen_color\<close> the file's static variables. The wait of \<open>serial_putc\<close> for the UART is the
  hardware's and leaves no trace in the state.

  The locale \<open>text_console\<close> is the contract a character printer owes to the code that prints
  strings: every character keeps the cursor on the screen, and a printable one that does not
  end the line goes to the cursor's cell. It is interpreted below on \<open>screen_putchar\<close>.
\<close>

subsection \<open>The contract of a character printer\<close>

locale text_console =
  fixes put :: "char \<Rightarrow> 's \<Rightarrow> 's"
    and ok :: "'s \<Rightarrow> bool"
    and printable :: "char \<Rightarrow> bool"
    and cells :: "'s \<Rightarrow> nat \<Rightarrow> u16"
    and row :: "'s \<Rightarrow> nat"
    and col :: "'s \<Rightarrow> nat"
    and glyph :: "'s \<Rightarrow> char \<Rightarrow> u16"
    and width :: nat
    and height :: nat
  assumes put_ok: "ok s \<Longrightarrow> ok (put c s)"
    and ok_bounds: "ok s \<Longrightarrow> row s < height \<and> col s < width"
    and put_inside: "ok s \<Longrightarrow> width * height \<le> i \<Longrightarrow> cells (put c s) i = cells s i"
    and put_cells: "ok s \<Longrightarrow> printable c \<Longrightarrow> col s + 1 < width \<Longrightarrow>
      cells (put c s) = (cells s)(row s * width + col s := glyph s c)"
    and put_cursor: "ok s \<Longrightarrow> printable c \<Longrightarrow> col s + 1 < width \<Longrightarrow>
      row (put c s) = row s \<and> col (put c s) = col s + 1"
    and put_glyph: "glyph (put c s) = glyph s"
begin

lemma write_ok: "ok s \<Longrightarrow> ok (fold put str s)"
  by (induction str arbitrary: s) (auto simp: put_ok)

lemma write_inside: "ok s \<Longrightarrow> width * height \<le> i \<Longrightarrow> cells (fold put str s) i = cells s i"
  by (induction str arbitrary: s) (auto simp: put_ok put_inside)

lemma write_line:
  assumes "ok s" "list_all printable str" "col s + length str < width"
  shows "row (fold put str s) = row s \<and> col (fold put str s) = col s + length str
    \<and> cells (fold put str s) = (\<lambda>i. if row s * width + col s \<le> i \<and> i < row s * width + col s + length str
        then glyph s (str ! (i - (row s * width + col s))) else cells s i)"
  using assms
proof (induction str rule: rev_induct)
  case Nil
  then show ?case by (auto simp: fun_eq_iff)
next
  case (snoc c str)
  let ?t = "fold put str s" and ?p = "row s * width + col s"
  from snoc have ih: "row ?t = row s" "col ?t = col s + length str"
    "cells ?t = (\<lambda>i. if ?p \<le> i \<and> i < ?p + length str then glyph s (str ! (i - ?p)) else cells s i)"
    by auto
  have ok: "ok ?t" using snoc.prems by (simp add: write_ok)
  have glyph: "glyph (fold put xs s) = glyph s" for xs
    by (induction xs arbitrary: s) (auto simp: put_glyph)
  have "cells (put c ?t) = (cells ?t)(?p + length str := glyph s c)"
    using put_cells [OF ok, of c] snoc.prems ih(1,2) by (simp add: glyph add.assoc)
  then have "cells (put c ?t) = (\<lambda>i. if ?p \<le> i \<and> i < ?p + length (str @ [c])
      then glyph s ((str @ [c]) ! (i - ?p)) else cells s i)"
    unfolding ih(3) by (auto simp: fun_eq_iff nth_append)
  then show ?case using put_cursor [OF ok, of c] snoc.prems ih(1,2) by simp
qed

end

subsection \<open>State\<close>

record console =
  serial_out :: string
  vga_text :: "nat \<Rightarrow> u16"
  screen_row :: nat
  screen_col :: nat
  screen_color :: u8

definition SCREEN_WIDTH :: nat where [const_defs]: "SCREEN_WIDTH = 80"
definition SCREEN_HEIGHT :: nat where [const_defs]: "SCREEN_HEIGHT = 25"

subsection \<open>Serial output\<close>

definition serial_putc :: "char \<Rightarrow> 'a console_scheme \<Rightarrow> 'a console_scheme" where
  "serial_putc c s = s\<lparr>serial_out := serial_out s @ [c]\<rparr>"

fun serial_puts :: "string \<Rightarrow> 'a console_scheme \<Rightarrow> 'a console_scheme" where
  "serial_puts [] s = s"
| "serial_puts (c # cs) s = serial_puts cs (serial_putc c s)"

lemma serial_puts_eq: "serial_puts str s = s\<lparr>serial_out := serial_out s @ str\<rparr>"
  by (induction str arbitrary: s) (simp_all add: serial_putc_def)

text \<open>The eight digits \<open>serial_print_hex\<close> (and its copies) put in its buffer, high digit first.\<close>

definition hex8 :: "u32 \<Rightarrow> string" where
  "hex8 v = map (\<lambda>i. hex_digit v ((7 - i) * 4)) [0..<8]"

definition serial_print_hex :: "u32 \<Rightarrow> 'a console_scheme \<Rightarrow> 'a console_scheme" where
  "serial_print_hex v s = serial_puts (''0x'' @ hex8 v) s"

subsection \<open>Text screen\<close>

definition vga_entry :: "char \<Rightarrow> u8 \<Rightarrow> u16" where
  "vga_entry uc color = u8_to_u16 (byte_of uc) OR push_bit 8 (u8_to_u16 color)"

definition vga_entry_color :: "u8 \<Rightarrow> u8 \<Rightarrow> u8" where
  "vga_entry_color fg bg = fg OR push_bit 4 bg"

definition screen_init :: "'a console_scheme \<Rightarrow> 'a console_scheme" where
  "screen_init s = s\<lparr>screen_row := 0, screen_col := 0, screen_color := vga_entry_color 7 0\<rparr>"

definition screen_clear :: "'a console_scheme \<Rightarrow> 'a console_scheme" where
  "screen_clear s =
     (let buf = fold (\<lambda>y b. fold (\<lambda>x b. b(y * SCREEN_WIDTH + x := vga_entry (CHR '' '') (screen_color s)))
                  [0..<SCREEN_WIDTH] b) [0..<SCREEN_HEIGHT] (vga_text s)
      in s\<lparr>vga_text := buf, screen_row := 0, screen_col := 0\<rparr>)"

definition screen_set_color :: "u8 \<Rightarrow> u8 \<Rightarrow> 'a console_scheme \<Rightarrow> 'a console_scheme" where
  "screen_set_color fg bg s = s\<lparr>screen_color := vga_entry_color fg bg\<rparr>"

definition scroll_lines :: "(nat \<Rightarrow> u16) \<Rightarrow> nat \<Rightarrow> u16" where
  "scroll_lines buf =
     fold (\<lambda>y b. fold (\<lambda>x b. b(y * SCREEN_WIDTH + x := b ((y + 1) * SCREEN_WIDTH + x)))
        [0..<SCREEN_WIDTH] b) [0..<SCREEN_HEIGHT - 1] buf"

definition clear_last_line :: "u16 \<Rightarrow> (nat \<Rightarrow> u16) \<Rightarrow> nat \<Rightarrow> u16" where
  "clear_last_line blank buf =
     fold (\<lambda>x b. b((SCREEN_HEIGHT - 1) * SCREEN_WIDTH + x := blank)) [0..<SCREEN_WIDTH] buf"

definition screen_scroll :: "'a console_scheme \<Rightarrow> 'a console_scheme" where
  "screen_scroll s =
     s\<lparr>vga_text := clear_last_line (vga_entry (CHR '' '') (screen_color s)) (scroll_lines (vga_text s)),
       screen_row := SCREEN_HEIGHT - 1\<rparr>"

definition screen_putchar :: "char \<Rightarrow> 'a console_scheme \<Rightarrow> 'a console_scheme" where
  "screen_putchar c s =
     (let s = (if c = CHR 0x0A then s\<lparr>screen_col := 0, screen_row := screen_row s + 1\<rparr>
               else s\<lparr>vga_text := (vga_text s)(screen_row s * SCREEN_WIDTH + screen_col s :=
                          vga_entry c (screen_color s)),
                      screen_col := screen_col s + 1\<rparr>);
          s = (if screen_col s \<ge> SCREEN_WIDTH
               then s\<lparr>screen_col := 0, screen_row := screen_row s + 1\<rparr> else s)
      in if screen_row s \<ge> SCREEN_HEIGHT then screen_scroll s else s)"

fun screen_write :: "string \<Rightarrow> 'a console_scheme \<Rightarrow> 'a console_scheme" where
  "screen_write [] s = s"
| "screen_write (c # cs) s = screen_write cs (screen_putchar c s)"

definition screen_writeln :: "string \<Rightarrow> 'a console_scheme \<Rightarrow> 'a console_scheme" where
  "screen_writeln str s = screen_putchar (CHR 0x0A) (screen_write str s)"

subsection \<open>The screen operations in closed form\<close>

lemma scroll_lines_eq: "scroll_lines buf = (\<lambda>i. if i < 1920 then buf (i + 80) else buf i)"
proof -
  have "scroll_lines buf = fold (\<lambda>i b. b(i := b (i + 80))) [0..<24 * 80] buf"
    unfolding scroll_lines_def const_defs
    using fold_rows [of "\<lambda>i b. b(i := b (i + 80))" 80 24 buf] by (simp add: algebra_simps)
  then show ?thesis using fold_fun_shift_down [of 80 1920 buf] by simp
qed

definition blank_screen :: "u16 \<Rightarrow> (nat \<Rightarrow> u16) \<Rightarrow> nat \<Rightarrow> u16" where
  "blank_screen v buf = (\<lambda>i. if i < 2000 then v else buf i)"

lemma blank_screen_loop: "fold (\<lambda>i fb. fb(i := v)) [0..<80 * 25] buf = blank_screen v buf"
  using fold_fun_fill_0 [of v 2000 buf] by (simp add: blank_screen_def)

lemma screen_clear_eq:
  "screen_clear s = s\<lparr>vga_text := blank_screen (vga_entry (CHR '' '') (screen_color s)) (vga_text s),
    screen_row := 0, screen_col := 0\<rparr>"
proof -
  let ?v = "vga_entry (CHR '' '') (screen_color s)"
  have "fold (\<lambda>y b. fold (\<lambda>x b. b(y * SCREEN_WIDTH + x := ?v)) [0..<SCREEN_WIDTH] b) [0..<SCREEN_HEIGHT] (vga_text s)
      = fold (\<lambda>i b. b(i := ?v)) [0..<80 * 25] (vga_text s)"
    unfolding const_defs using fold_rows [of "\<lambda>i b. b(i := ?v)" 80 25 "vga_text s"] by (simp add: mult.commute)
  then show ?thesis unfolding screen_clear_def blank_screen_loop by simp
qed

lemma screen_scroll_eq:
  "screen_scroll s = s\<lparr>vga_text := (\<lambda>i. if i < 1920 then vga_text s (i + 80)
      else if i < 2000 then vga_entry (CHR '' '') (screen_color s) else vga_text s i), screen_row := 24\<rparr>"
proof -
  let ?v = "vga_entry (CHR '' '') (screen_color s)"
  have "clear_last_line ?v (scroll_lines (vga_text s)) = (\<lambda>i. if i < 1920 then vga_text s (i + 80)
      else if i < 2000 then ?v else vga_text s i)"
    unfolding clear_last_line_def const_defs
    using fold_fun_fill [of 1920 ?v 80 "scroll_lines (vga_text s)"] by (auto simp: scroll_lines_eq fun_eq_iff)
  then show ?thesis by (simp add: screen_scroll_def const_defs)
qed

subsection \<open>The screen invariant\<close>

definition screen_ok :: "'a console_scheme \<Rightarrow> bool" where
  "screen_ok s \<longleftrightarrow> screen_row s < 25 \<and> screen_col s < 80"

lemma screen_putchar_ok [state_inv]: "screen_ok s \<Longrightarrow> screen_ok (screen_putchar c s)"
  by (auto simp: screen_ok_def screen_putchar_def Let_def screen_scroll_eq const_defs)

lemma screen_putchar_inside:
  "screen_ok s \<Longrightarrow> 80 * 25 \<le> i \<Longrightarrow> vga_text (screen_putchar c s) i = vga_text s i"
  by (auto simp: screen_ok_def screen_putchar_def Let_def screen_scroll_eq const_defs)

lemma screen_clear_ok [state_inv]: "screen_ok (screen_clear s)"
  by (simp add: screen_ok_def screen_clear_eq)

interpretation ts: text_console screen_putchar screen_ok "\<lambda>c. c \<noteq> CHR 0x0A" vga_text
    screen_row screen_col "\<lambda>s c. vga_entry c (screen_color s)" 80 25
proof unfold_locales
  fix s :: "'a console_scheme" and c
  show "(\<lambda>d. vga_entry d (screen_color (screen_putchar c s))) = (\<lambda>d. vga_entry d (screen_color s))"
    by (auto simp: screen_putchar_def Let_def screen_scroll_def)
qed (auto simp: screen_putchar_ok screen_putchar_inside,
  auto simp: screen_ok_def screen_putchar_def Let_def screen_scroll_eq const_defs)

lemma screen_write_fold: "screen_write str s = fold screen_putchar str s"
  by (induction str arbitrary: s) auto

lemma screen_write_ok [state_inv]: "screen_ok s \<Longrightarrow> screen_ok (screen_write str s)"
  by (simp add: screen_write_fold ts.write_ok)

lemma screen_writeln_ok [state_inv]: "screen_ok s \<Longrightarrow> screen_ok (screen_writeln str s)"
  by (simp add: screen_writeln_def screen_putchar_ok screen_write_ok)

subsection \<open>Hexadecimal output\<close>

fun hex_value :: "string \<Rightarrow> nat \<Rightarrow> nat option" where
  "hex_value [] acc = Some acc"
| "hex_value (c # cs) acc =
     (let k = (of_char c :: nat) in
      if 48 \<le> k \<and> k \<le> 57 then hex_value cs (16 * acc + (k - 48))
      else if 65 \<le> k \<and> k \<le> 70 then hex_value cs (16 * acc + (k - 55))
      else None)"

lemma hex_value_digit:
  assumes "d < 16"
  shows "hex_value (hex_digits ! d # cs) acc = hex_value cs (16 * acc + d)"
proof -
  from assms have "d = 0 \<or> d = 1 \<or> d = 2 \<or> d = 3 \<or> d = 4 \<or> d = 5 \<or> d = 6 \<or> d = 7 \<or>
    d = 8 \<or> d = 9 \<or> d = 10 \<or> d = 11 \<or> d = 12 \<or> d = 13 \<or> d = 14 \<or> d = 15"
    by presburger
  then show ?thesis by (elim disjE) (simp_all add: hex_digits_def Let_def)
qed

lemma unat_nibble: "unat (drop_bit s v AND 0xF :: u32) = unat v div 2 ^ s mod 16"
proof -
  have "drop_bit s v AND 0xF = drop_bit s v mod 16"
    using take_bit_eq_mask [of 4 "drop_bit s v"]
    by (simp add: mask_eq_exp_minus_1 take_bit_eq_mod)
  then show ?thesis
    by (simp add: unat_mod_distrib unat_drop_bit del: drop_bit_eq_div)
qed

lemma hex_value_hex_digit:
  "hex_value (hex_digit v s # cs) (unat v div 2 ^ (s + 4)) = hex_value cs (unat v div 2 ^ s)"
proof -
  have "unat v div 2 ^ (s + 4) = unat v div 2 ^ s div 16"
    by (simp add: power_add div_mult2_eq)
  then have "16 * (unat v div 2 ^ (s + 4)) + unat v div 2 ^ s mod 16 = unat v div 2 ^ s"
    by simp
  then show ?thesis
    by (simp add: hex_digit_def hex_value_digit unat_nibble del: hex_value.simps)
qed

lemma hex8_digits:
  "hex8 v = [hex_digit v 28, hex_digit v 24, hex_digit v 20, hex_digit v 16,
             hex_digit v 12, hex_digit v 8, hex_digit v 4, hex_digit v 0]"
  by (simp add: hex8_def upt_rec)

text \<open>Reading back the eight digits gives the printed value: every bit of the word is shown.\<close>

lemma hex8_value: "hex_value (hex8 v) 0 = Some (unat v)"
proof -
  have "unat v div 2 ^ (28 + 4) = 0" by simp
  then show ?thesis
    using hex_value_hex_digit [of v 28] hex_value_hex_digit [of v 24] hex_value_hex_digit [of v 20]
      hex_value_hex_digit [of v 16] hex_value_hex_digit [of v 12] hex_value_hex_digit [of v 8]
      hex_value_hex_digit [of v 4] hex_value_hex_digit [of v 0]
    by (simp add: hex8_digits del: hex_value.simps) simp
qed

subsection \<open>Properties\<close>

text \<open>The console as loaded: the initial values of the file's statics, a blank text buffer.\<close>

definition console_reset :: console where
  "console_reset = \<lparr>serial_out = [], vga_text = \<lambda>_. 0, screen_row = 0, screen_col = 0, screen_color = 7\<rparr>"

text \<open>
  C29: Printing any string, of any length and with any line breaks, keeps the cursor on the 80x25
  screen and leaves every cell of text memory past the screen's 2000 as it was: no character and no
  scrolling stores outside the screen. It leaves the colour alone.
\<close>

theorem screen_write_stays_on_screen:
  assumes "screen_ok s"
  shows "screen_row (screen_write str s) < SCREEN_HEIGHT \<and> screen_col (screen_write str s) < SCREEN_WIDTH
    \<and> (\<forall>i. vga_text (screen_write str s) (SCREEN_WIDTH * SCREEN_HEIGHT + i) = vga_text s (SCREEN_WIDTH * SCREEN_HEIGHT + i))
    \<and> screen_color (screen_write str s) = screen_color s"
proof -
  have "screen_color (fold screen_putchar xs t) = screen_color t" for xs and t :: "'a console_scheme"
    by (induction xs arbitrary: t) (auto simp: screen_putchar_def Let_def screen_scroll_def)
  then show ?thesis
    using screen_write_ok [OF assms, of str] ts.write_inside [OF assms, of _ str]
    by (simp add: screen_ok_def screen_write_fold const_defs)
qed

theorem screen_write_stays_on_screen_witness:
  "screen_row (screen_write ''ab'' console_reset) < SCREEN_HEIGHT \<and> vga_text (screen_write ''ab'' console_reset) 2000 = 0"
  using screen_write_stays_on_screen [of console_reset "''ab''"]
  by (simp add: screen_ok_def console_reset_def const_defs) (metis add.right_neutral)

text \<open>
  A string without line breaks that fits in the rest of the line appears, in the current
  colour, in the cells from the cursor on; every other cell and the row are unchanged, and the
  cursor ends just after it.
\<close>

theorem screen_write_shows_line:
  assumes "screen_ok s" "list_all (\<lambda>c. c \<noteq> CHR 0x0A) str" "screen_col s + length str < 80"
  shows "screen_row (screen_write str s) = screen_row s
    \<and> screen_col (screen_write str s) = screen_col s + length str
    \<and> vga_text (screen_write str s) = (\<lambda>i.
        if screen_row s * 80 + screen_col s \<le> i \<and> i < screen_row s * 80 + screen_col s + length str
        then vga_entry (str ! (i - (screen_row s * 80 + screen_col s))) (screen_color s) else vga_text s i)"
  using ts.write_line [OF assms] by (simp add: screen_write_fold)

theorem screen_write_shows_line_witness:
  "map (vga_text (screen_write ''ok'' (screen_init console_reset))) [0..<2] = [0x076F, 0x076B]"
proof -
  let ?s = "screen_init console_reset"
  have s: "screen_ok ?s" "screen_row ?s = 0" "screen_col ?s = 0" "screen_color ?s = 7"
    by (simp_all add: screen_ok_def console_reset_def screen_init_def vga_entry_color_def)
  have "vga_entry (CHR ''o'') 7 = 0x076F" "vga_entry (CHR ''k'') 7 = 0x076B"
    by (simp_all add: vga_entry_def byte_of_def)
  then show ?thesis using screen_write_shows_line [of ?s "''ok''"] s by (simp add: upt_conv_Cons)
qed

text \<open>
  The eight hexadecimal digits the kernel's printers emit for a 32-bit value read back as
  that value, so no bit is lost or repeated.
\<close>

theorem serial_print_hex_roundtrip:
  "\<exists>digits. serial_out (serial_print_hex v s) = serial_out s @ ''0x'' @ digits
     \<and> length digits = 8 \<and> hex_value digits 0 = Some (unat v)"
proof (intro exI conjI)
  show "serial_out (serial_print_hex v s) = serial_out s @ ''0x'' @ hex8 v"
    by (simp add: serial_print_hex_def serial_puts_eq)
  show "length (hex8 v) = 8" by (simp add: hex8_def)
  show "hex_value (hex8 v) 0 = Some (unat v)" by (rule hex8_value)
qed

end
