(* ===== verification/Pmm.thy ===== *)
theory Pmm
  imports Console
begin

unbundle bit_operations_syntax

section \<open>Physical memory manager\<close>

text \<open>
  Models \<open>kernel/mm/pmm.c\<close>: the bitmap of 16384 frames of 4096 bytes from 8 MB on, one bit per
  frame, 1 for used. The state is the file's three static variables; the operations are
  \<open>pmm_init\<close>, \<open>pmm_alloc_frame\<close>, \<open>pmm_free_frame\<close> and the two counters' readers.

  The abstract view is the set of free frame numbers, \<open>free_set\<close>. The lemmas show that the
  nested scan of \<open>pmm_alloc_frame\<close> finds the least free frame, that allocation and release are
  removal from and insertion into that set, and when the counters agree with it. The locale
  \<open>frame_allocator\<close> is what the clients (\<open>Vmm\<close>, \<open>Process\<close>) rely on.
\<close>

subsection \<open>State\<close>

definition PAGE_SIZE :: u32 where [const_defs]: "PAGE_SIZE = 4096"
definition MAX_FRAMES :: nat where [const_defs]: "MAX_FRAMES = 16384"
definition BITMAP_SIZE :: nat where [const_defs]: "BITMAP_SIZE = 2048"
definition PMM_FREE_START :: u32 where [const_defs]: "PMM_FREE_START = 0x00800000"
definition PMM_FREE_END :: u32 where [const_defs]: "PMM_FREE_END = 0x04000000"
definition BASE_ADDR :: u32 where [const_defs]: "BASE_ADDR = PMM_FREE_START"

record pmm = console +
  pmm_bitmap :: "u8 list"
  pmm_total_frames :: u32
  pmm_used :: u32

subsection \<open>Bitmap helpers\<close>

definition bitmap_set :: "u32 \<Rightarrow> u8 list \<Rightarrow> u8 list" where
  "bitmap_set frame bm =
     bm[unat (frame div 8) := bm ! unat (frame div 8) OR push_bit (unat (frame mod 8)) 1]"

definition bitmap_clear :: "u32 \<Rightarrow> u8 list \<Rightarrow> u8 list" where
  "bitmap_clear frame bm =
     bm[unat (frame div 8) := bm ! unat (frame div 8) AND NOT (push_bit (unat (frame mod 8)) 1)]"

definition bitmap_test :: "u32 \<Rightarrow> u8 list \<Rightarrow> bool" where
  "bitmap_test frame bm \<longleftrightarrow> drop_bit (unat (frame mod 8)) (bm ! unat (frame div 8)) AND 1 \<noteq> 0"

subsection \<open>Operations\<close>

definition pmm_mem_end :: "u32 \<Rightarrow> u32" where
  "pmm_mem_end mem_upper_kb =
     (let mem_end = (mem_upper_kb + 1024) * 1024
      in if mem_end > PMM_FREE_END then PMM_FREE_END else mem_end)"

definition pmm_end_frame :: "u32 \<Rightarrow> u32" where
  "pmm_end_frame mem_upper_kb =
     (let end_frame = (pmm_mem_end mem_upper_kb - BASE_ADDR) div PAGE_SIZE
      in if end_frame > of_nat MAX_FRAMES then of_nat MAX_FRAMES else end_frame)"

definition pmm_init :: "u32 \<Rightarrow> 'a pmm_scheme \<Rightarrow> 'a pmm_scheme" where
  "pmm_init mem_upper_kb s =
     (let bm = fold (\<lambda>i b. b[i := 0xFF]) [0..<BITMAP_SIZE] (pmm_bitmap s);
          start_frame = (PMM_FREE_START - BASE_ADDR) div PAGE_SIZE;
          end_frame = pmm_end_frame mem_upper_kb;
          bm = fold (\<lambda>i b. bitmap_clear (of_nat i) b) [unat start_frame..<unat end_frame] bm
      in s\<lparr>pmm_bitmap := bm, pmm_total_frames := end_frame - start_frame, pmm_used := 0\<rparr>)"

text \<open>The inner loop of the allocator (\<open>j\<close>) and the outer one (\<open>i\<close>): the first clear bit.\<close>

function scan_byte :: "u8 list \<Rightarrow> nat \<Rightarrow> nat \<Rightarrow> u32 option" where
  "scan_byte bm i j =
     (if j < 8 then
        let frame = of_nat i * 8 + of_nat j in
        if \<not> bitmap_test frame bm then Some frame else scan_byte bm i (Suc j)
      else None)"
  by pat_completeness auto
termination
  by (relation "measure (\<lambda>(bm, i, j). 8 - j)") auto

function scan_bitmap :: "u8 list \<Rightarrow> nat \<Rightarrow> u32 option" where
  "scan_bitmap bm i =
     (if i < BITMAP_SIZE then
        if bm ! i = 0xFF then scan_bitmap bm (Suc i)
        else case scan_byte bm i 0 of
               Some frame \<Rightarrow> Some frame
             | None \<Rightarrow> scan_bitmap bm (Suc i)
      else None)"
  by pat_completeness auto
termination
  by (relation "measure (\<lambda>(bm, i). BITMAP_SIZE - i)") auto

declare scan_byte.simps [simp del] scan_bitmap.simps [simp del]

definition pmm_alloc_frame :: "'a pmm_scheme \<Rightarrow> u32 \<times> 'a pmm_scheme" where
  "pmm_alloc_frame s =
     (case scan_bitmap (pmm_bitmap s) 0 of
        Some frame \<Rightarrow> (BASE_ADDR + frame * PAGE_SIZE,
                       s\<lparr>pmm_bitmap := bitmap_set frame (pmm_bitmap s), pmm_used := pmm_used s + 1\<rparr>)
      | None \<Rightarrow> (0, s))"

definition pmm_free_frame :: "u32 \<Rightarrow> 'a pmm_scheme \<Rightarrow> 'a pmm_scheme" where
  "pmm_free_frame addr s =
     (if addr < BASE_ADDR then s
      else let frame = (addr - BASE_ADDR) div PAGE_SIZE in
        if frame \<ge> of_nat MAX_FRAMES then s
        else if bitmap_test frame (pmm_bitmap s)
        then s\<lparr>pmm_bitmap := bitmap_clear frame (pmm_bitmap s), pmm_used := pmm_used s - 1\<rparr>
        else s)"

definition pmm_free_frames :: "'a pmm_scheme \<Rightarrow> u32" where
  "pmm_free_frames s = pmm_total_frames s - pmm_used s"

definition pmm_used_frames :: "'a pmm_scheme \<Rightarrow> u32" where
  "pmm_used_frames s = pmm_used s"

subsection \<open>The bitmap as a set of frame numbers\<close>

definition used_bit :: "u8 list \<Rightarrow> nat \<Rightarrow> bool" where
  "used_bit bm f \<longleftrightarrow> bit (bm ! (f div 8)) (f mod 8)"

definition free_in :: "u8 list \<Rightarrow> nat set" where
  "free_in bm = {f. f < MAX_FRAMES \<and> \<not> used_bit bm f}"

definition free_set :: "'a pmm_scheme \<Rightarrow> nat set" where
  "free_set s = free_in (pmm_bitmap s)"

definition frame_addr :: "nat \<Rightarrow> u32" where
  "frame_addr f = BASE_ADDR + of_nat f * PAGE_SIZE"

definition pmm_wf :: "'a pmm_scheme \<Rightarrow> bool" where
  "pmm_wf s \<longleftrightarrow> length (pmm_bitmap s) = BITMAP_SIZE"

lemma unat_frame_div [simp]: "f < 16384 \<Longrightarrow> unat (of_nat f div (8 :: u32)) = f div 8"
  by (simp add: unat_div_distrib unat_of_nat take_bit_eq_mod)

lemma unat_frame_mod [simp]: "f < 16384 \<Longrightarrow> unat (of_nat f mod (8 :: u32)) = f mod 8"
  by (simp add: unat_mod_distrib unat_of_nat take_bit_eq_mod)

lemma bitmap_test_used: "f < 16384 \<Longrightarrow> bitmap_test (of_nat f) bm = used_bit bm f"
  by (simp add: bitmap_test_def used_bit_def bit_iff_and_drop_bit_eq_1 and_one_eq odd_iff_mod_2_eq_one)

lemma used_bit_set:
  assumes "f < 16384" "g < 16384" "length bm = 2048"
  shows "used_bit (bitmap_set (of_nat f) bm) g \<longleftrightarrow> used_bit bm g \<or> g = f"
proof -
  have "g div 8 = f div 8 \<Longrightarrow> g mod 8 = f mod 8 \<Longrightarrow> g = f"
    by (metis mult_div_mod_eq)
  moreover have "f div 8 < 2048" "g div 8 < 2048" using assms by auto
  ultimately show ?thesis
    using assms by (auto simp: bitmap_set_def used_bit_def nth_list_update bit_simps)
qed

lemma used_bit_clear:
  assumes "f < 16384" "g < 16384" "length bm = 2048"
  shows "used_bit (bitmap_clear (of_nat f) bm) g \<longleftrightarrow> used_bit bm g \<and> g \<noteq> f"
proof -
  have "g div 8 = f div 8 \<Longrightarrow> g mod 8 = f mod 8 \<Longrightarrow> g = f"
    by (metis mult_div_mod_eq)
  moreover have "f div 8 < 2048" "g div 8 < 2048" using assms by auto
  ultimately show ?thesis
    using assms by (auto simp: bitmap_clear_def used_bit_def nth_list_update bit_simps)
qed

lemma length_bitmap_set [simp]: "length (bitmap_set f bm) = length bm"
  by (simp add: bitmap_set_def)

lemma length_bitmap_clear [simp]: "length (bitmap_clear f bm) = length bm"
  by (simp add: bitmap_clear_def)

subsection \<open>The scan finds the least free frame\<close>

lemma scan_byte_spec:
  assumes "i < 2048"
  shows "case scan_byte bm i j of
      Some fr \<Rightarrow> \<exists>f. fr = of_nat f \<and> i * 8 + j \<le> f \<and> f < i * 8 + 8 \<and> \<not> used_bit bm f
                 \<and> (\<forall>g. i * 8 + j \<le> g \<and> g < f \<longrightarrow> used_bit bm g)
    | None \<Rightarrow> \<forall>g. i * 8 + j \<le> g \<and> g < i * 8 + 8 \<longrightarrow> used_bit bm g"
  using assms
proof (induction bm i j rule: scan_byte.induct)
  case (1 bm i j)
  show ?case
  proof (cases "j < 8")
    case False
    then show ?thesis by (auto simp: scan_byte.simps [of bm i j])
  next
    case True
    have fr: "of_nat i * 8 + of_nat j = (of_nat (i * 8 + j) :: u32)" by simp
    have test: "bitmap_test (of_nat i * 8 + of_nat j) bm = used_bit bm (i * 8 + j)"
      unfolding fr by (rule bitmap_test_used) (use True \<open>i < 2048\<close> in simp)
    show ?thesis
    proof (cases "used_bit bm (i * 8 + j)")
      case False
      then have "scan_byte bm i j = Some (of_nat (i * 8 + j))"
        using True test by (simp add: scan_byte.simps [of bm i j])
      then show ?thesis using False True by (auto intro!: exI [of _ "i * 8 + j"])
    next
      case used: True
      then have eq: "scan_byte bm i j = scan_byte bm i (Suc j)"
        using True test by (simp add: scan_byte.simps [of bm i j])
      have split: "i * 8 + j \<le> g \<longleftrightarrow> g = i * 8 + j \<or> i * 8 + Suc j \<le> g" for g by auto
      from 1 True used test show ?thesis
        unfolding eq split by (auto split: option.splits)
    qed
  qed
qed

lemma full_byte_used:
  assumes "bm ! i = 0xFF" "i * 8 \<le> g" "g < i * 8 + 8"
  shows "used_bit bm g"
proof -
  have "g div 8 = i" by (rule div_nat_eqI) (use assms in auto)
  moreover have "bit (0xFF :: u8) (g mod 8)"
  proof -
    have "g mod 8 < 8" by simp
    moreover have "(0xFF :: u8) = mask 8" by (simp add: mask_eq_exp_minus_1)
    ultimately show ?thesis by (simp only: bit_mask_iff) simp
  qed
  ultimately show ?thesis using assms by (simp add: used_bit_def)
qed

text \<open>What a scan that starts at frame \<open>lo\<close> may return.\<close>

definition scan_result :: "u8 list \<Rightarrow> nat \<Rightarrow> u32 option \<Rightarrow> bool" where
  "scan_result bm lo r \<longleftrightarrow>
     (case r of
        Some fr \<Rightarrow> \<exists>f. fr = of_nat f \<and> lo \<le> f \<and> f < MAX_FRAMES \<and> \<not> used_bit bm f
                   \<and> (\<forall>g. lo \<le> g \<and> g < f \<longrightarrow> used_bit bm g)
      | None \<Rightarrow> \<forall>g. lo \<le> g \<and> g < MAX_FRAMES \<longrightarrow> used_bit bm g)"

lemma scan_result_extend:
  assumes "scan_result bm hi r" "lo \<le> hi" "\<And>g. lo \<le> g \<Longrightarrow> g < hi \<Longrightarrow> used_bit bm g"
  shows "scan_result bm lo r"
proof (cases r)
  case None
  with assms show ?thesis by (auto simp: scan_result_def not_le [symmetric])
next
  case (Some fr)
  with assms(1) obtain f where f: "fr = of_nat f" "hi \<le> f" "f < MAX_FRAMES" "\<not> used_bit bm f"
    "\<forall>g. hi \<le> g \<and> g < f \<longrightarrow> used_bit bm g"
    by (auto simp: scan_result_def)
  then have "used_bit bm g" if "lo \<le> g" "g < f" for g
    using that assms(3) by (cases "g < hi") auto
  with Some f assms(2) show ?thesis by (auto simp: scan_result_def)
qed

lemma scan_bitmap_spec: "scan_result bm (i * 8) (scan_bitmap bm i)"
proof (induction bm i rule: scan_bitmap.induct)
  case (1 bm i)
  show ?case
  proof (cases "i < BITMAP_SIZE")
    case False
    then show ?thesis by (auto simp: scan_bitmap.simps [of bm i] scan_result_def const_defs)
  next
    case True
    then have i: "i < 2048" by (simp add: const_defs)
    show ?thesis
    proof (cases "bm ! i = 0xFF")
      case full: True
      then have "scan_bitmap bm i = scan_bitmap bm (Suc i)"
        using True by (simp add: scan_bitmap.simps [of bm i])
      with scan_result_extend [OF "1"(1) [OF True full], of "i * 8"] full_byte_used [OF full]
      show ?thesis by simp
    next
      case False
      note byte = scan_byte_spec [OF i, where bm = bm and j = 0]
      show ?thesis
      proof (cases "scan_byte bm i 0")
        case None
        then have "scan_bitmap bm i = scan_bitmap bm (Suc i)"
          using True False by (simp add: scan_bitmap.simps [of bm i])
        with scan_result_extend [OF "1"(2) [OF True False None], of "i * 8"] byte None
        show ?thesis by simp
      next
        case (Some fr)
        then have "scan_bitmap bm i = Some fr"
          using True False by (simp add: scan_bitmap.simps [of bm i])
        with byte Some i show ?thesis by (auto simp: scan_result_def const_defs)
      qed
    qed
  qed
qed

lemma finite_free_in [simp]: "finite (free_in bm)"
  by (simp add: free_in_def)

lemma scan_bitmap_Min:
  "scan_bitmap bm 0 = (if free_in bm = {} then None else Some (of_nat (Min (free_in bm))))"
proof (cases "scan_bitmap bm 0")
  case None
  then show ?thesis using scan_bitmap_spec [of bm 0] by (auto simp: free_in_def scan_result_def)
next
  case (Some fr)
  then obtain f where f: "fr = of_nat f" "f < MAX_FRAMES" "\<not> used_bit bm f"
    "\<forall>g<f. used_bit bm g"
    using scan_bitmap_spec [of bm 0] by (auto simp: scan_result_def)
  then have "f \<in> free_in bm" by (simp add: free_in_def)
  moreover have "f \<le> g" if "g \<in> free_in bm" for g
    using f that by (auto simp: free_in_def not_less [symmetric])
  ultimately have "Min (free_in bm) = f" by (intro Min_eqI) auto
  with Some f \<open>f \<in> free_in bm\<close> show ?thesis by auto
qed

subsection \<open>Frame addresses\<close>

lemma unat_frame_addr: "f < 16384 \<Longrightarrow> unat (frame_addr f) = 8388608 + 4096 * f"
proof -
  assume "f < 16384"
  then have "unat (of_nat (8388608 + 4096 * f) :: u32) = 8388608 + 4096 * f"
    by (intro unat_of_nat_u32) simp
  moreover have "frame_addr f = of_nat (8388608 + 4096 * f)"
    by (simp add: frame_addr_def const_defs)
  ultimately show ?thesis by simp
qed

lemma frame_addr_inject:
  "f < 16384 \<Longrightarrow> g < 16384 \<Longrightarrow> frame_addr f = frame_addr g \<longleftrightarrow> f = g"
  by (metis unat_frame_addr add_left_cancel mult_left_cancel zero_neq_numeral)

lemma frame_addr_nonzero: "f < 16384 \<Longrightarrow> frame_addr f \<noteq> 0"
  by (metis unat_frame_addr add_is_0 unsigned_0 zero_neq_numeral)

lemma free_set_less: "f \<in> free_set s \<Longrightarrow> f < 16384"
  by (simp add: free_set_def free_in_def const_defs)

lemma finite_free_set [simp]: "finite (free_set s)"
  by (simp add: free_set_def)

lemma Min_free_set: "free_set s \<noteq> {} \<Longrightarrow> Min (free_set s) \<in> free_set s"
  by (rule Min_in) auto

lemma free_set_more [frame_simps, simp]:
  "free_set (s\<lparr>pmm_total_frames := t\<rparr>) = free_set s"
  "free_set (s\<lparr>pmm_used := u\<rparr>) = free_set s"
  by (simp_all add: free_set_def)

subsection \<open>Allocation and release on the free set\<close>

lemma free_in_set:
  "f < 16384 \<Longrightarrow> length bm = 2048 \<Longrightarrow> free_in (bitmap_set (of_nat f) bm) = free_in bm - {f}"
  by (auto simp: free_in_def used_bit_set const_defs)

lemma free_in_clear:
  "f < 16384 \<Longrightarrow> length bm = 2048 \<Longrightarrow> free_in (bitmap_clear (of_nat f) bm) = insert f (free_in bm)"
  by (auto simp: free_in_def used_bit_clear const_defs)

lemma pmm_alloc_empty: "free_set s = {} \<Longrightarrow> pmm_alloc_frame s = (0, s)"
  by (simp add: pmm_alloc_frame_def scan_bitmap_Min free_set_def)

lemma pmm_alloc_nonempty:
  assumes "pmm_wf s" "free_set s \<noteq> {}"
  shows "fst (pmm_alloc_frame s) = frame_addr (Min (free_set s))"
    and "free_set (snd (pmm_alloc_frame s)) = free_set s - {Min (free_set s)}"
    and "pmm_used (snd (pmm_alloc_frame s)) = pmm_used s + 1"
    and "pmm_wf (snd (pmm_alloc_frame s))"
proof -
  have "Min (free_set s) < 16384" using assms Min_free_set free_set_less by blast
  with assms show "fst (pmm_alloc_frame s) = frame_addr (Min (free_set s))"
    and "free_set (snd (pmm_alloc_frame s)) = free_set s - {Min (free_set s)}"
    and "pmm_used (snd (pmm_alloc_frame s)) = pmm_used s + 1"
    and "pmm_wf (snd (pmm_alloc_frame s))"
    by (simp_all add: pmm_alloc_frame_def scan_bitmap_Min free_set_def frame_addr_def pmm_wf_def
        free_in_set const_defs)
qed

lemma pmm_alloc_wf [state_inv]: "pmm_wf s \<Longrightarrow> pmm_wf (snd (pmm_alloc_frame s))"
  by (cases "free_set s = {}") (auto simp: pmm_alloc_empty pmm_alloc_nonempty)

lemma pmm_alloc_frame_fields [frame_simps, simp]:
  "pmm_total_frames (snd (pmm_alloc_frame s)) = pmm_total_frames s"
  "pmm.more (snd (pmm_alloc_frame s)) = pmm.more s"
  "serial_out (snd (pmm_alloc_frame s)) = serial_out s"
  "vga_text (snd (pmm_alloc_frame s)) = vga_text s"
  "screen_row (snd (pmm_alloc_frame s)) = screen_row s"
  "screen_col (snd (pmm_alloc_frame s)) = screen_col s"
  "screen_color (snd (pmm_alloc_frame s)) = screen_color s"
  by (simp_all add: pmm_alloc_frame_def split: option.split)

lemma pmm_alloc_zero_iff: "pmm_wf s \<Longrightarrow> fst (pmm_alloc_frame s) = 0 \<longleftrightarrow> free_set s = {}"
proof (cases "free_set s = {}")
  case False
  assume "pmm_wf s"
  have "frame_addr (Min (free_set s)) \<noteq> 0"
    using False by (intro frame_addr_nonzero free_set_less) (rule Min_free_set)
  with False \<open>pmm_wf s\<close> show ?thesis by (simp add: pmm_alloc_nonempty)
qed (simp add: pmm_alloc_empty)

lemma pmm_free_frame_in_range:
  assumes "pmm_wf s" "f < 16384"
  shows "pmm_free_frame (frame_addr f) s =
    (if f \<in> free_set s then s
     else s\<lparr>pmm_bitmap := bitmap_clear (of_nat f) (pmm_bitmap s), pmm_used := pmm_used s - 1\<rparr>)"
proof -
  have addr: "unat (frame_addr f) = 8388608 + 4096 * f" using assms by (simp add: unat_frame_addr)
  have "\<not> frame_addr f < BASE_ADDR" using addr by (simp add: word_less_nat_alt const_defs)
  moreover have "(frame_addr f - BASE_ADDR) div PAGE_SIZE = of_nat f"
  proof -
    have sub: "frame_addr f - BASE_ADDR = of_nat (4096 * f)" by (simp add: frame_addr_def const_defs)
    have "unat (of_nat (4096 * f) :: u32) = 4096 * f" "unat (of_nat f :: u32) = f"
      using assms by (intro unat_of_nat_u32; simp)+
    then show ?thesis unfolding sub
      by (simp only: word_unat_eq_iff unat_div_distrib const_defs) simp
  qed
  moreover have "\<not> of_nat f \<ge> (of_nat MAX_FRAMES :: u32)"
    using assms by (simp add: word_le_nat_alt unat_of_nat take_bit_eq_mod const_defs)
  ultimately show ?thesis using assms
    by (simp add: pmm_free_frame_def bitmap_test_used free_set_def free_in_def const_defs)
qed

lemma pmm_free_frame_set:
  "pmm_wf s \<Longrightarrow> f < 16384 \<Longrightarrow> free_set (pmm_free_frame (frame_addr f) s) = insert f (free_set s)"
  by (auto simp: pmm_free_frame_in_range free_in_clear pmm_wf_def const_defs free_set_def)

lemma pmm_free_wf [state_inv]: "pmm_wf s \<Longrightarrow> pmm_wf (pmm_free_frame a s)"
  by (simp add: pmm_wf_def pmm_free_frame_def Let_def)

subsection \<open>Initialisation\<close>

lemma free_in_clear_range:
  assumes "length bm = 2048" "n \<le> 16384"
  shows "free_in (fold (\<lambda>i b. bitmap_clear (of_nat i) b) [0..<n] bm) = free_in bm \<union> {0..<n}
    \<and> length (fold (\<lambda>i b. bitmap_clear (of_nat i) b) [0..<n] bm) = 2048"
  using assms(2)
proof (induction n)
  case 0
  then show ?case using assms by simp
next
  case (Suc n)
  let ?bm = "fold (\<lambda>i b. bitmap_clear (of_nat i) b) [0..<n] bm"
  from Suc have ih: "free_in ?bm = free_in bm \<union> {0..<n}" "length ?bm = 2048" and n: "n < 16384"
    by simp_all
  have "fold (\<lambda>i b. bitmap_clear (of_nat i) b) [0..<Suc n] bm = bitmap_clear (of_nat n) ?bm"
    by simp
  then show ?case
    by (simp only: free_in_clear [OF n ih(2)] ih length_bitmap_clear atLeast0_lessThan_Suc) simp
qed

lemma pmm_end_frame_le: "unat (pmm_end_frame kb) \<le> 16384"
proof -
  have "pmm_end_frame kb \<le> of_nat MAX_FRAMES" by (auto simp: pmm_end_frame_def Let_def not_less)
  then show ?thesis by (simp add: word_le_nat_alt const_defs)
qed

lemma pmm_init_free_set:
  assumes "pmm_wf s"
  shows "free_set (pmm_init kb s) = {0..<unat (pmm_end_frame kb)} \<and> pmm_wf (pmm_init kb s)
    \<and> pmm_total_frames (pmm_init kb s) = pmm_end_frame kb \<and> pmm_used (pmm_init kb s) = 0"
proof -
  have full: "fold (\<lambda>i b. b[i := 0xFF]) [0..<BITMAP_SIZE] (pmm_bitmap s) = replicate 2048 0xFF"
    using fold_fill_all [of "pmm_bitmap s"] assms by (simp add: pmm_wf_def const_defs)
  have "free_in (replicate 2048 0xFF) = {}"
  proof -
    have "used_bit (replicate 2048 0xFF) f" if "f < 16384" for f
      using that by (intro full_byte_used [where i = "f div 8"]) auto
    then show ?thesis by (auto simp: free_in_def const_defs)
  qed
  with free_in_clear_range [of "replicate 2048 0xFF" "unat (pmm_end_frame kb)"] pmm_end_frame_le
  show ?thesis
    by (simp add: pmm_init_def full free_set_def pmm_wf_def Let_def del: upt_conv_Nil)
      (simp add: const_defs)
qed

text \<open>
  For the memory sizes the boot loader may report for a machine with more than 8 MB: the frames
  from 8 MB to the end of RAM, at most to 64 MB. (\<open>mem_upper_kb\<close> counts from 1 MB.)
\<close>

lemma pmm_end_frame_normal:
  assumes "7168 \<le> unat kb" "unat kb + 1024 < 4194304"
  shows "unat (pmm_end_frame kb) = min 14336 ((unat kb - 7168) div 4)"
proof -
  have u1: "unat (kb + 1024) = unat kb + 1024"
    using assms by (simp add: unat_word_ariths)
  have u2: "unat ((kb + 1024) * 1024) = (unat kb + 1024) * 1024"
  proof -
    have "unat (kb + 1024) * unat (1024 :: u32) < 2 ^ LENGTH(32)"
      unfolding u1 using assms by simp
    then have "unat ((kb + 1024) * 1024) = unat (kb + 1024) * unat (1024 :: u32)"
      by (simp only: unat_mult_lem)
    also have "\<dots> = (unat kb + 1024) * 1024" unfolding u1 by simp
    finally show ?thesis .
  qed
  show ?thesis
  proof (cases "(unat kb + 1024) * 1024 > 67108864")
    case True
    then have "(kb + 1024) * 1024 > PMM_FREE_END"
      unfolding word_less_nat_alt u2 const_defs by simp
    with True show ?thesis
      by (simp add: pmm_end_frame_def pmm_mem_end_def const_defs)
  next
    case False
    then have "\<not> (kb + 1024) * 1024 > PMM_FREE_END"
      unfolding word_less_nat_alt u2 const_defs by simp
    then have e: "pmm_mem_end kb = (kb + 1024) * 1024" by (simp add: pmm_mem_end_def)
    have "BASE_ADDR \<le> (kb + 1024) * 1024"
      unfolding word_le_nat_alt u2 const_defs using assms by simp
    then have "unat ((kb + 1024) * 1024 - BASE_ADDR) = (unat kb + 1024) * 1024 - 8388608"
      by (subst unat_sub) (simp_all only: u2 const_defs, simp)
    then have q: "unat (((kb + 1024) * 1024 - BASE_ADDR) div PAGE_SIZE)
        = ((unat kb + 1024) * 1024 - 8388608) div 4096"
      by (simp add: unat_div_distrib const_defs)
    have d: "((unat kb + 1024) * 1024 - 8388608) div 4096 = (unat kb - 7168) div 4"
      by (simp add: diff_mult_distrib)
    have "(unat kb - 7168) div 4 \<le> 14336" using False by simp
    moreover from this have "\<not> ((kb + 1024) * 1024 - BASE_ADDR) div PAGE_SIZE > of_nat MAX_FRAMES"
      unfolding word_less_nat_alt q d by (simp add: const_defs)
    ultimately show ?thesis using q d by (simp add: pmm_end_frame_def e)
  qed
qed

subsection \<open>The counters agree with the bitmap\<close>

text \<open>
  \<open>pmm_used\<close> counts the managed frames that are not free, and only frames of installed memory
  are ever free. Initialisation establishes it, allocation keeps it, and so does releasing a
  frame below \<open>pmm_total_frames\<close>.
\<close>

definition pmm_inv :: "'a pmm_scheme \<Rightarrow> bool" where
  "pmm_inv s \<longleftrightarrow> pmm_wf s \<and> free_set s \<subseteq> {0..<unat (pmm_total_frames s)}
     \<and> unat (pmm_used s) + card (free_set s) = unat (pmm_total_frames s)"

lemma pmm_inv_init: "pmm_wf s \<Longrightarrow> pmm_inv (pmm_init kb s)"
  using pmm_init_free_set [of s kb] by (simp add: pmm_inv_def)

lemma unat_plus_one_less: "unat w < 4294967295 \<Longrightarrow> unat (w + 1) = unat w + 1" for w :: u32
  by (simp add: unat_word_ariths)

lemma unat_minus_one_pos: "0 < unat w \<Longrightarrow> unat (w - 1) = unat w - 1" for w :: u32
  by (metis One_nat_def less_numeral_extra(3) unat_minus_one unsigned_0)

lemma pmm_inv_alloc:
  assumes inv: "pmm_inv s"
  shows "pmm_inv (snd (pmm_alloc_frame s))"
proof (cases "free_set s = {}")
  case True
  with inv show ?thesis by (simp add: pmm_alloc_empty)
next
  case False
  from inv have wf: "pmm_wf s" and count: "unat (pmm_used s) + card (free_set s) = unat (pmm_total_frames s)"
    and sub: "free_set s \<subseteq> {0..<unat (pmm_total_frames s)}" by (auto simp: pmm_inv_def)
  have pos: "0 < card (free_set s)" using False by (simp add: card_gt_0_iff)
  have card: "card (free_set s - {Min (free_set s)}) = card (free_set s) - 1"
    using Min_free_set [OF False] by simp
  have "unat (pmm_used s) < 4294967295"
    using count pos unat_u32_less [of "pmm_total_frames s"] by linarith
  then have "unat (pmm_used s + 1) = unat (pmm_used s) + 1" by (rule unat_plus_one_less)
  with pmm_alloc_nonempty [OF wf False] count pos card sub show ?thesis
    by (auto simp: pmm_inv_def)
qed

lemma pmm_inv_free:
  assumes inv: "pmm_inv s" and f: "f < unat (pmm_total_frames s)" "f < 16384"
  shows "pmm_inv (pmm_free_frame (frame_addr f) s)"
proof (cases "f \<in> free_set s")
  case True
  with inv f show ?thesis by (simp add: pmm_free_frame_in_range pmm_inv_def)
next
  case False
  from inv have wf: "pmm_wf s" and count: "unat (pmm_used s) + card (free_set s) = unat (pmm_total_frames s)"
    and sub: "free_set s \<subseteq> {0..<unat (pmm_total_frames s)}" by (auto simp: pmm_inv_def)
  from sub f False have "card (free_set s) < card {0..<unat (pmm_total_frames s)}"
    by (intro psubset_card_mono) auto
  with count have pos: "0 < unat (pmm_used s)" by simp
  let ?t = "pmm_free_frame (frame_addr f) s"
  have t: "free_set ?t = insert f (free_set s)" "pmm_wf ?t"
    using pmm_free_frame_set [OF wf f(2)] pmm_free_wf [OF wf] by auto
  have "pmm_total_frames ?t = pmm_total_frames s" "pmm_used ?t = pmm_used s - 1"
    using False by (simp_all add: pmm_free_frame_in_range [OF wf f(2)])
  with t count sub f False pos unat_minus_one_pos [OF pos] show ?thesis
    by (auto simp: pmm_inv_def)
qed

lemma pmm_free_frames_card:
  assumes "pmm_inv s"
  shows "unat (pmm_free_frames s) = card (free_set s)"
proof -
  from assms have "pmm_used s \<le> pmm_total_frames s" by (simp add: pmm_inv_def word_le_nat_alt)
  then have "unat (pmm_free_frames s) = unat (pmm_total_frames s) - unat (pmm_used s)"
    unfolding pmm_free_frames_def by (rule unat_sub)
  with assms show ?thesis by (auto simp: pmm_inv_def)
qed

text \<open>Releasing the frame just allocated gives back the free set and the counter.\<close>

lemma pmm_free_alloc:
  assumes "pmm_wf s" "free_set s \<noteq> {}"
  defines "t \<equiv> pmm_free_frame (fst (pmm_alloc_frame s)) (snd (pmm_alloc_frame s))"
  shows "free_set t = free_set s \<and> pmm_used t = pmm_used s"
proof -
  let ?f = "Min (free_set s)" and ?a = "snd (pmm_alloc_frame s)"
  note a = pmm_alloc_nonempty [OF assms(1,2)]
  have f: "?f \<in> free_set s" "?f < 16384"
    using Min_free_set [OF assms(2)] free_set_less by blast+
  have t: "t = pmm_free_frame (frame_addr ?f) ?a" by (simp add: t_def a)
  have "free_set t = insert ?f (free_set ?a)"
    unfolding t by (rule pmm_free_frame_set [OF a(4) f(2)])
  moreover have "pmm_used t = pmm_used s"
    unfolding t pmm_free_frame_in_range [OF a(4) f(2)] by (simp add: a)
  ultimately show ?thesis using a f by auto
qed

subsection \<open>Limits of the code\<close>

text \<open>
  With less than 8 MB of memory \<open>mem_end - BASE_ADDR\<close> wraps around, so the clamp to
  \<open>MAX_FRAMES\<close> hands out all 16384 frames, none of which exists.
\<close>

lemma pmm_end_frame_small:
  assumes "unat kb < 7168"
  shows "pmm_end_frame kb = 16384"
proof -
  have u1: "unat (kb + 1024) = unat kb + 1024" using assms by (simp add: unat_word_ariths)
  have u2: "unat ((kb + 1024) * 1024) = (unat kb + 1024) * 1024"
  proof -
    have "unat (kb + 1024) * unat (1024 :: u32) < 2 ^ LENGTH(32)"
      unfolding u1 using assms by simp
    then have "unat ((kb + 1024) * 1024) = unat (kb + 1024) * unat (1024 :: u32)"
      by (simp only: unat_mult_lem)
    also have "\<dots> = (unat kb + 1024) * 1024" unfolding u1 by simp
    finally show ?thesis .
  qed
  have "\<not> (kb + 1024) * 1024 > PMM_FREE_END"
    unfolding word_less_nat_alt u2 const_defs using assms by simp
  then have e: "pmm_mem_end kb = (kb + 1024) * 1024" by (simp add: pmm_mem_end_def)
  have lt: "(kb + 1024) * 1024 < BASE_ADDR"
    unfolding word_less_nat_alt u2 const_defs using assms by simp
  have "unat ((kb + 1024) * 1024 - BASE_ADDR) = (unat kb + 1024) * 1024 + 4294967296 - 8388608"
  proof -
    have "\<not> unat BASE_ADDR \<le> unat ((kb + 1024) * 1024)"
      using lt by (simp only: word_less_nat_alt not_le)
    then have "unat ((kb + 1024) * 1024 - BASE_ADDR)
        = unat ((kb + 1024) * 1024) + 2 ^ LENGTH(32) - unat BASE_ADDR"
      by (simp only: unat_sub_if' if_False)
    then show ?thesis unfolding u2 by (simp add: const_defs)
  qed
  then have "unat (((kb + 1024) * 1024 - BASE_ADDR) div PAGE_SIZE) \<ge> 1046528"
    by (simp add: unat_div_distrib const_defs)
  then have "((kb + 1024) * 1024 - BASE_ADDR) div PAGE_SIZE > of_nat MAX_FRAMES"
    unfolding word_less_nat_alt by (simp add: const_defs)
  then show ?thesis by (simp add: pmm_end_frame_def e const_defs)
qed

text \<open>
  \<open>pmm_free_frame\<close> checks the frame number against \<open>MAX_FRAMES\<close>, not against the installed
  memory: releasing an address past its end makes a frame that does not exist free, and the
  count of used frames wraps around when none was in use.
\<close>

lemma pmm_free_beyond_memory:
  assumes "pmm_inv s" "pmm_used s = 0" "unat (pmm_total_frames s) \<le> f" "f < 16384"
  shows "f \<in> free_set (pmm_free_frame (frame_addr f) s)
    \<and> pmm_used (pmm_free_frame (frame_addr f) s) = 0xFFFFFFFF"
proof -
  from assms have wf: "pmm_wf s" and "f \<notin> free_set s" by (auto simp: pmm_inv_def)
  with pmm_free_frame_set [OF wf assms(4)] pmm_free_frame_in_range [OF wf assms(4)] assms(2)
  show ?thesis by simp
qed

subsection \<open>The contract of a frame allocator\<close>

definition page_aligned :: "u32 \<Rightarrow> bool" where
  "page_aligned a \<longleftrightarrow> 4096 dvd unat a"

locale frame_allocator =
  fixes alloc :: "'s \<Rightarrow> u32 \<times> 's"
    and ok :: "'s \<Rightarrow> bool"
    and free :: "'s \<Rightarrow> u32 set"
    and region :: "u32 set"
  assumes alloc_ok: "ok s \<Longrightarrow> ok (snd (alloc s))"
    and alloc_member: "ok s \<Longrightarrow> fst (alloc s) \<noteq> 0 \<Longrightarrow> fst (alloc s) \<in> free s"
    and alloc_removes: "ok s \<Longrightarrow> free (snd (alloc s)) = free s - {fst (alloc s)}"
    and alloc_zero: "ok s \<Longrightarrow> fst (alloc s) = 0 \<longleftrightarrow> free s = {}"
    and free_region: "free s \<subseteq> region"
    and region_page: "a \<in> region \<Longrightarrow> page_aligned a"
    and finite_region: "finite region"
begin

text \<open>\<open>allocs n s\<close>: the addresses of \<open>n\<close> calls in a row, and the state after them.\<close>

fun allocs :: "nat \<Rightarrow> 's \<Rightarrow> u32 list \<times> 's" where
  "allocs 0 s = ([], s)"
| "allocs (Suc n) s = (let (a, s1) = alloc s; (as, s2) = allocs n s1 in (a # as, s2))"

lemma allocs_ok: "ok s \<Longrightarrow> ok (snd (allocs n s))"
  by (induction n arbitrary: s) (auto simp: split_beta Let_def alloc_ok)

lemma alloc_aligned: "ok s \<Longrightarrow> fst (alloc s) \<noteq> 0 \<Longrightarrow> page_aligned (fst (alloc s))"
  using alloc_member free_region region_page by blast

lemma allocs_members:
  "ok s \<Longrightarrow> 0 \<notin> set (fst (allocs n s)) \<Longrightarrow>
     set (fst (allocs n s)) \<subseteq> free s \<and> distinct (fst (allocs n s))
     \<and> free (snd (allocs n s)) = free s - set (fst (allocs n s))"
proof (induction n arbitrary: s)
  case 0
  then show ?case by simp
next
  case (Suc n)
  let ?s = "snd (alloc s)"
  have s': "ok ?s" using Suc.prems by (simp add: alloc_ok)
  have nz: "fst (alloc s) \<noteq> 0" "0 \<notin> set (fst (allocs n ?s))"
    using Suc.prems(2) by (auto simp: split_beta Let_def)
  from Suc.IH [OF s' nz(2)] alloc_member [OF Suc.prems(1) nz(1)] alloc_removes [OF Suc.prems(1)]
  show ?case by (auto simp: split_beta Let_def)
qed

lemma finite_free: "finite (free s)"
  using finite_region free_region finite_subset by blast

text \<open>As many calls as there are free frames succeed, and no more.\<close>

lemma allocs_enough: "ok s \<Longrightarrow> 0 \<in> set (fst (allocs n s)) \<longleftrightarrow> card (free s) < n"
proof (induction n arbitrary: s)
  case 0
  then show ?case by simp
next
  case (Suc n)
  let ?s = "snd (alloc s)"
  have s': "ok ?s" using Suc.prems by (simp add: alloc_ok)
  show ?case
  proof (cases "free s = {}")
    case True
    with Suc.prems show ?thesis by (simp add: split_beta Let_def alloc_zero)
  next
    case False
    then have "fst (alloc s) \<noteq> 0" using Suc.prems by (simp add: alloc_zero)
    moreover have "0 < card (free s)" using False finite_free [of s] by (simp add: card_gt_0_iff)
    ultimately show ?thesis using Suc.IH [OF s'] Suc.prems alloc_member [of s] finite_free [of s]
      by (auto simp: split_beta Let_def alloc_removes)
  qed
qed

end

definition free_addrs :: "'a pmm_scheme \<Rightarrow> u32 set" where
  "free_addrs s = frame_addr ` free_set s"

lemma page_aligned_frame_addr: "f < 16384 \<Longrightarrow> page_aligned (frame_addr f)"
proof -
  assume "f < 16384"
  then have "unat (frame_addr f) = 4096 * (2048 + f)" by (simp add: unat_frame_addr)
  then show ?thesis by (simp add: page_aligned_def)
qed

lemma free_addrs_remove: "f \<in> free_set s \<Longrightarrow>
    frame_addr ` (free_set s - {f}) = free_addrs s - {frame_addr f}"
  using free_set_less frame_addr_inject unfolding free_addrs_def by blast

interpretation pmm_alloc: frame_allocator pmm_alloc_frame pmm_wf free_addrs "frame_addr ` {0..<16384}"
proof unfold_locales
  fix s :: "'a pmm_scheme" and a
  assume wf: "pmm_wf s"
  show "pmm_wf (snd (pmm_alloc_frame s))" using wf by (rule pmm_alloc_wf)
  show zero: "fst (pmm_alloc_frame s) = 0 \<longleftrightarrow> free_addrs s = {}"
    by (simp add: pmm_alloc_zero_iff [OF wf] free_addrs_def)
  show "fst (pmm_alloc_frame s) \<in> free_addrs s" if "fst (pmm_alloc_frame s) \<noteq> 0"
  proof -
    have "free_set s \<noteq> {}" using that wf by (simp add: pmm_alloc_zero_iff)
    then show ?thesis
      using Min_free_set [of s] by (simp add: pmm_alloc_nonempty [OF wf] free_addrs_def)
  qed
  show "free_addrs (snd (pmm_alloc_frame s)) = free_addrs s - {fst (pmm_alloc_frame s)}"
  proof (cases "free_set s = {}")
    case True
    then show ?thesis by (simp add: pmm_alloc_empty free_addrs_def)
  next
    case False
    have "free_addrs (snd (pmm_alloc_frame s)) = frame_addr ` (free_set s - {Min (free_set s)})"
      by (simp add: free_addrs_def pmm_alloc_nonempty [OF wf False])
    then show ?thesis
      by (simp add: free_addrs_remove [OF Min_free_set [OF False]] pmm_alloc_nonempty [OF wf False])
  qed
next
  fix s :: "'a pmm_scheme"
  show "free_addrs s \<subseteq> frame_addr ` {0..<16384}"
    using free_set_less unfolding free_addrs_def by fastforce
next
  fix a
  assume "a \<in> frame_addr ` {0..<16384}"
  then show "page_aligned a" using page_aligned_frame_addr by auto
qed simp

subsection \<open>Properties\<close>

definition pmm_reset :: pmm where
  "pmm_reset = console.extend console_reset (pmm.fields (replicate 2048 0) 0 0)"

lemma pmm_reset_wf: "pmm_wf pmm_reset"
  by (simp add: pmm_reset_def pmm.defs console.defs console_reset_def pmm_wf_def const_defs)

lemma free_set_init_16MB: "free_set (pmm_init 15360 pmm_reset) = {0..<2048} \<and> pmm_wf (pmm_init 15360 pmm_reset)"
proof -
  have "unat (pmm_end_frame 15360) = 2048" using pmm_end_frame_normal [of 15360] by simp
  then show ?thesis using pmm_init_free_set [OF pmm_reset_wf, of 15360] by simp
qed

text \<open>
  C22: \<open>pmm_alloc_frame\<close> refines "take the least free frame": with no frame free it returns 0 and
  changes nothing; otherwise it returns the address of the least free frame, that frame is free
  no longer, no other frame's status changes, and the count of used frames goes up by one.
\<close>

theorem pmm_alloc_frame_least_free:
  assumes "pmm_wf s"
  shows "if free_set s = {} then pmm_alloc_frame s = (0, s)
    else fst (pmm_alloc_frame s) = frame_addr (Min (free_set s))
      \<and> free_set (snd (pmm_alloc_frame s)) = free_set s - {Min (free_set s)}
      \<and> pmm_used (snd (pmm_alloc_frame s)) = pmm_used s + 1
      \<and> pmm_wf (snd (pmm_alloc_frame s))"
  using assms by (simp add: pmm_alloc_empty pmm_alloc_nonempty)

theorem pmm_alloc_frame_least_free_witness:
  "fst (pmm_alloc_frame (pmm_init 15360 pmm_reset)) = 0x800000"
proof -
  have "Min {0..<2048} = (0 :: nat)" by (rule Min_eqI) auto
  then show ?thesis
    using pmm_alloc_frame_least_free [of "pmm_init 15360 pmm_reset"] free_set_init_16MB
    by (simp add: frame_addr_def const_defs)
qed

text \<open>
  C26: Frames handed out by any number of consecutive allocations that all succeed are distinct,
  page aligned and were free; and \<open>n\<close> allocations all succeed exactly when at least \<open>n\<close> frames
  are free.
\<close>

theorem pmm_allocations_distinct:
  assumes "pmm_wf s"
  shows "(0 \<notin> set (fst (pmm_alloc.allocs n s)) \<longleftrightarrow> n \<le> card (free_addrs s))
    \<and> (0 \<notin> set (fst (pmm_alloc.allocs n s)) \<longrightarrow>
         distinct (fst (pmm_alloc.allocs n s)) \<and> set (fst (pmm_alloc.allocs n s)) \<subseteq> free_addrs s
         \<and> free_addrs (snd (pmm_alloc.allocs n s)) = free_addrs s - set (fst (pmm_alloc.allocs n s))
         \<and> (\<forall>a \<in> set (fst (pmm_alloc.allocs n s)). page_aligned a))"
proof -
  have "\<forall>a \<in> free_addrs s. page_aligned a"
    using pmm_alloc.free_region [of s] pmm_alloc.region_page by blast
  with pmm_alloc.allocs_members [OF assms, of n] pmm_alloc.allocs_enough [OF assms, of n]
  show ?thesis by (meson not_less subsetD)
qed

theorem pmm_allocations_distinct_witness:
  "distinct (fst (pmm_alloc.allocs 2048 (pmm_init 15360 pmm_reset)))"
proof -
  let ?s = "pmm_init 15360 pmm_reset"
  have "inj_on frame_addr {0..<2048}" by (rule inj_onI) (simp add: frame_addr_inject)
  then have "card (free_addrs ?s) = 2048"
    using free_set_init_16MB by (simp add: free_addrs_def card_image)
  then show ?thesis
    using pmm_allocations_distinct [of ?s 2048] free_set_init_16MB by simp
qed

text \<open>
  C27: The counter \<open>pmm_free_frames\<close> reports is the number of free frames: it is so after
  \<open>pmm_init\<close>, and stays so under every allocation and every release of a managed frame.
\<close>

theorem pmm_counters_exact:
  assumes "pmm_inv s"
  shows "unat (pmm_free_frames s) = card (free_set s)
    \<and> unat (pmm_used_frames s) = unat (pmm_total_frames s) - card (free_set s)
    \<and> pmm_inv (snd (pmm_alloc_frame s)) \<and> pmm_inv (pmm_init kb s)
    \<and> (\<forall>f. f < unat (pmm_total_frames s) \<and> f < 16384 \<longrightarrow> pmm_inv (pmm_free_frame (frame_addr f) s))"
  using pmm_free_frames_card [OF assms] pmm_inv_alloc [OF assms] pmm_inv_free [OF assms] assms
    pmm_inv_init [of s kb]
  by (auto simp: pmm_used_frames_def pmm_inv_def)

theorem pmm_counters_exact_witness:
  "unat (pmm_free_frames (pmm_init 15360 pmm_reset)) = 2048"
  using pmm_counters_exact [of "pmm_init 15360 pmm_reset" 0] free_set_init_16MB
    pmm_inv_init [OF pmm_reset_wf, of 15360] by simp

text \<open>
  On a machine with at least 8 MB (and less than 4 GB) \<open>pmm_init\<close> frees exactly the frames
  from 8 MB up to the end of memory, at most 56 MB of them, and no others.
\<close>

theorem pmm_init_frees_installed_memory:
  assumes "pmm_wf s" "7168 \<le> unat kb" "unat kb + 1024 < 4194304"
  shows "free_set (pmm_init kb s) = {f. f < 14336 \<and> 4 * f + 4 \<le> unat kb - 7168}
    \<and> pmm_used (pmm_init kb s) = 0"
proof -
  have key: "f < (unat kb - 7168) div 4 \<longleftrightarrow> 4 * f + 4 \<le> unat kb - 7168" for f
    using less_eq_div_iff_mult_less_eq [of 4 "Suc f" "unat kb - 7168"]
    by (simp add: Suc_le_eq mult.commute add.commute)
  have "{0..<min 14336 q} = {f. f < 14336 \<and> f < q}" for q :: nat by auto
  then have "free_set (pmm_init kb s) = {f. f < 14336 \<and> f < (unat kb - 7168) div 4}"
    using pmm_init_free_set [OF assms(1), of kb] pmm_end_frame_normal [OF assms(2,3)] by simp
  then show ?thesis
    unfolding key using pmm_init_free_set [OF assms(1), of kb] by blast
qed

theorem pmm_init_frees_installed_memory_witness:
  "free_set (pmm_init 15360 pmm_reset) = {f. f < 14336 \<and> 4 * f + 4 \<le> (8192 :: nat)}"
  using pmm_init_frees_installed_memory [OF pmm_reset_wf, of 15360] by simp

text \<open>
  C27: On a machine with less than 8 MB the end-of-memory computation wraps around: \<open>pmm_init\<close>
  declares all 16384 frames (8 MB to 72 MB) free although none of them is installed, so the
  first allocation returns an address beyond the memory.
\<close>

theorem pmm_init_small_machine:
  assumes "pmm_wf s" "unat kb < 7168"
  shows "free_set (pmm_init kb s) = {0..<16384} \<and> fst (pmm_alloc_frame (pmm_init kb s)) = 0x800000
    \<and> (unat kb + 1024) * 1024 < unat (fst (pmm_alloc_frame (pmm_init kb s)))"
proof -
  have free: "free_set (pmm_init kb s) = {0..<16384}" "pmm_wf (pmm_init kb s)"
    using pmm_init_free_set [OF assms(1), of kb] pmm_end_frame_small [OF assms(2)] by simp_all
  have "Min {0..<16384} = (0 :: nat)" by (rule Min_eqI) auto
  then have "fst (pmm_alloc_frame (pmm_init kb s)) = 0x800000"
    using pmm_alloc_nonempty(1) [OF free(2)] free by (simp add: frame_addr_def const_defs)
  with free assms(2) show ?thesis by simp
qed

theorem pmm_init_small_machine_witness:
  "fst (pmm_alloc_frame (pmm_init 3072 pmm_reset)) = 0x800000"
  using pmm_init_small_machine [OF pmm_reset_wf, of 3072] by simp

end
