(* ===== verification/Kmem.thy ===== *)
theory Kmem
  imports Pmm
begin

unbundle bit_operations_syntax

section \<open>Kernel heap and memory routines\<close>

text \<open>
  Models \<open>lib/memory.c\<close>: the bump allocator behind \<open>malloc\<close> and the byte and string routines.
  The state adds the physical memory itself and the file's two static variables. The address of
  the linker's symbol \<open>_kernel_end\<close> is an argument of \<open>heap_init\<close>; \<open>free\<close> does nothing, as in
  the source. The loops of \<open>strlen\<close>, \<open>strcmp\<close> and \<open>strcpy\<close> end only at a zero byte, so they are
  partial functions and not returning is the value \<open>None\<close>.
\<close>

subsection \<open>State\<close>

record kmem = pmm +
  phys_mem :: memory
  heap_current :: u32
  heap_end :: u32

definition HEAP_SIZE :: u32 where [const_defs]: "HEAP_SIZE = 0x00600000"

definition PAGE_ALIGN_UP :: "u32 \<Rightarrow> u32" where
  "PAGE_ALIGN_UP x = page_base (x + 0xFFF)"

subsection \<open>The bump allocator\<close>

definition heap_init :: "u32 \<Rightarrow> 'a kmem_scheme \<Rightarrow> 'a kmem_scheme" where
  "heap_init kernel_end s =
     (let start = PAGE_ALIGN_UP kernel_end;
          start = (if start < 0x00200000 then 0x00200000 else start)
      in s\<lparr>heap_current := start, heap_end := start + HEAP_SIZE\<rparr>)"

definition malloc :: "u32 \<Rightarrow> 'a kmem_scheme \<Rightarrow> u32 \<times> 'a kmem_scheme" where
  "malloc sz s =
     (if heap_current s = 0 then (0, s)
      else let sz = word_base (sz + 3) in
        if heap_current s + sz > heap_end s then (0, s)
        else (heap_current s, s\<lparr>heap_current := heap_current s + sz\<rparr>))"

definition heap_free :: "u32 \<Rightarrow> 'a kmem_scheme \<Rightarrow> 'a kmem_scheme" where
  "heap_free ptr s = s"

subsection \<open>Byte routines\<close>

definition memset :: "u32 \<Rightarrow> u32 \<Rightarrow> u32 \<Rightarrow> memory \<Rightarrow> memory" where
  "memset ptr v n m =
     (let val = u32_to_u8 v in fold (\<lambda>i m. m(ptr + of_nat i := val)) [0..<unat n] m)"

definition memcpy :: "u32 \<Rightarrow> u32 \<Rightarrow> u32 \<Rightarrow> memory \<Rightarrow> memory" where
  "memcpy dest src n m =
     fold (\<lambda>i m. m(dest + of_nat i := m (src + of_nat i))) [0..<unat n] m"

function memcmp_from :: "memory \<Rightarrow> u32 \<Rightarrow> u32 \<Rightarrow> u32 \<Rightarrow> nat \<Rightarrow> int" where
  "memcmp_from m s1 s2 n i =
     (if i < unat n then
        if m (s1 + of_nat i) \<noteq> m (s2 + of_nat i)
        then uint (m (s1 + of_nat i)) - uint (m (s2 + of_nat i))
        else memcmp_from m s1 s2 n (Suc i)
      else 0)"
  by pat_completeness auto
termination
  by (relation "measure (\<lambda>(m, s1, s2, n, i). unat n - i)") auto

declare memcmp_from.simps [simp del]

definition memcmp :: "memory \<Rightarrow> u32 \<Rightarrow> u32 \<Rightarrow> u32 \<Rightarrow> int" where
  "memcmp m s1 s2 n = memcmp_from m s1 s2 n 0"

subsection \<open>String routines\<close>

partial_function (option) strlen_from :: "memory \<Rightarrow> u32 \<Rightarrow> u32 \<Rightarrow> u32 option" where
  "strlen_from m str len =
     (if m (str + len) \<noteq> 0 then strlen_from m str (len + 1) else Some len)"

definition strlen :: "memory \<Rightarrow> u32 \<Rightarrow> u32 option" where
  "strlen m str = strlen_from m str 0"

text \<open>\<open>char\<close> is signed in this build: the difference of two characters is signed.\<close>

partial_function (option) strcmp_from :: "memory \<Rightarrow> u32 \<Rightarrow> u32 \<Rightarrow> u32 \<Rightarrow> int option" where
  "strcmp_from m s1 s2 i =
     (if m (s1 + i) \<noteq> 0 \<and> m (s2 + i) \<noteq> 0 then
        if m (s1 + i) \<noteq> m (s2 + i) then Some (sint (m (s1 + i)) - sint (m (s2 + i)))
        else strcmp_from m s1 s2 (i + 1)
      else Some (sint (m (s1 + i)) - sint (m (s2 + i))))"

definition strcmp :: "memory \<Rightarrow> u32 \<Rightarrow> u32 \<Rightarrow> int option" where
  "strcmp m s1 s2 = strcmp_from m s1 s2 0"

partial_function (option) strcpy_from :: "u32 \<Rightarrow> u32 \<Rightarrow> u32 \<Rightarrow> memory \<Rightarrow> memory option" where
  "strcpy_from dest src i m =
     (if m (src + i) \<noteq> 0 then strcpy_from dest src (i + 1) (m(dest + i := m (src + i)))
      else Some (m(dest + i := 0)))"

definition strcpy :: "u32 \<Rightarrow> u32 \<Rightarrow> memory \<Rightarrow> memory option" where
  "strcpy dest src m = strcpy_from dest src 0 m"

subsection \<open>Address arithmetic\<close>

lemma addr_offset_eq:
  fixes a p :: u32
  assumes "k < 4294967296"
  shows "a = p + of_nat k \<longleftrightarrow> unat (a - p) = k"
proof
  assume "a = p + of_nat k"
  then show "unat (a - p) = k" using unat_of_nat_u32 [OF assms] by simp
next
  assume "unat (a - p) = k"
  then have "of_nat (unat (a - p)) = (of_nat k :: u32)" by (rule arg_cong)
  then have "a - p = of_nat k" by simp
  then show "a = p + of_nat k" by (metis add.commute diff_add_cancel)
qed

lemma addr_offset: "p + of_nat (unat (a - p)) = a" for a p :: u32
  by simp

subsection \<open>What the byte routines do\<close>

text \<open>\<open>memset\<close> writes the low byte of the value to the \<open>n\<close> addresses from \<open>ptr\<close> on, nothing else.\<close>

lemma memset_upto:
  "k \<le> 4294967296 \<Longrightarrow> fold (\<lambda>i m. m(ptr + of_nat i := val)) [0..<k] m
    = (\<lambda>a. if unat (a - ptr) < k then val else m a)" for ptr :: u32
proof (induction k)
  case 0
  then show ?case by simp
next
  case (Suc k)
  then have "a = ptr + of_nat k \<longleftrightarrow> unat (a - ptr) = k" for a by (intro addr_offset_eq) simp
  with Suc show ?case by (simp add: fun_eq_iff less_Suc_eq)
qed

lemma memset_apply:
  "memset ptr v n m a = (if unat (a - ptr) < unat n then u32_to_u8 v else m a)"
  using memset_upto [of "unat n" ptr "u32_to_u8 v" m] unat_u32_less [of n]
  by (simp add: memset_def)

text \<open>
  \<open>memcpy\<close> copies ascending, so it is right when no source byte is overwritten before it is read:
  the destination does not start inside the source block after its first byte.
\<close>

lemma memcpy_upto:
  fixes dest src n :: u32
  assumes "dest = src \<or> unat n \<le> unat (dest - src)"
  shows "k \<le> unat n \<Longrightarrow> fold (\<lambda>i m. m(dest + of_nat i := m (src + of_nat i))) [0..<k] m
    = (\<lambda>a. if unat (a - dest) < k then m (src + (a - dest)) else m a)"
proof (induction k)
  case 0
  then show ?case by simp
next
  case (Suc k)
  then have kn: "k < unat n" by simp
  then have k: "k < 4294967296" using unat_u32_less [of n] by linarith
  let ?m = "\<lambda>a. if unat (a - dest) < k then m (src + (a - dest)) else m a"
  have read: "?m (src + of_nat k) = m (src + of_nat k)"
  proof (cases "dest = src")
    case True
    then show ?thesis by simp
  next
    case False
    then have d: "k < unat (dest - src)" using assms kn by simp
    have "src + of_nat k - dest = of_nat k - (dest - src)" by simp
    also have "unat (of_nat k - (dest - src)) = k + 4294967296 - unat (dest - src)"
      using d unat_of_nat_u32 [OF k] by (simp add: unat_sub_if')
    finally have "\<not> unat (src + of_nat k - dest) < k"
      using unat_u32_less [of "dest - src"] d by linarith
    then show ?thesis by (simp only: if_False)
  qed
  have eq: "a = dest + of_nat k \<longleftrightarrow> unat (a - dest) = k" for a by (rule addr_offset_eq [OF k])
  let ?F = "fold (\<lambda>i m. m(dest + of_nat i := m (src + of_nat i))) [0..<k] m"
  have ih: "?F = ?m" using Suc.prems by (intro Suc.IH) simp
  have "fold (\<lambda>i m. m(dest + of_nat i := m (src + of_nat i))) [0..<Suc k] m
      = ?F(dest + of_nat k := ?F (src + of_nat k))"
    by simp
  also have "\<dots> = ?m(dest + of_nat k := ?m (src + of_nat k))" unfolding ih ..
  also have "\<dots> = ?m(dest + of_nat k := m (src + of_nat k))" unfolding read ..
  also have "\<dots> = (\<lambda>a. if unat (a - dest) < Suc k then m (src + (a - dest)) else m a)"
    using eq by (auto simp: fun_eq_iff less_Suc_eq)
  finally show ?case .
qed

lemma memcpy_apply:
  assumes "dest = src \<or> unat n \<le> unat (dest - src)"
  shows "memcpy dest src n m a = (if unat (a - dest) < unat n then m (src + (a - dest)) else m a)"
  using memcpy_upto [OF assms order_refl, of m] by (simp add: memcpy_def)

text \<open>\<open>memcmp\<close> is zero exactly on equal blocks; otherwise its sign is that of the first difference.\<close>

lemma memcmp_from_equal:
  assumes "\<And>j. i \<le> j \<Longrightarrow> j < unat n \<Longrightarrow> m (s1 + of_nat j) = m (s2 + of_nat j)"
  shows "memcmp_from m s1 s2 n i = 0"
  using assms
  by (induction m s1 s2 n i rule: memcmp_from.induct) (simp add: memcmp_from.simps)

lemma memcmp_from_first:
  assumes "j < unat n" "i \<le> j" "m (s1 + of_nat j) \<noteq> m (s2 + of_nat j)"
    and "\<And>k. i \<le> k \<Longrightarrow> k < j \<Longrightarrow> m (s1 + of_nat k) = m (s2 + of_nat k)"
  shows "memcmp_from m s1 s2 n i = uint (m (s1 + of_nat j)) - uint (m (s2 + of_nat j))"
  using assms(2,4)
proof (induction "j - i" arbitrary: i)
  case 0
  then have "i = j" by simp
  with assms show ?case by (simp add: memcmp_from.simps)
next
  case (Suc d)
  then have "i < j" by simp
  with Suc.prems(2) [of i] assms(1) have "memcmp_from m s1 s2 n i = memcmp_from m s1 s2 n (Suc i)"
    by (simp add: memcmp_from.simps [of _ _ _ _ i])
  moreover have "memcmp_from m s1 s2 n (Suc i) = uint (m (s1 + of_nat j)) - uint (m (s2 + of_nat j))"
    by (rule Suc.hyps(1)) (use Suc \<open>i < j\<close> in auto)
  ultimately show ?case by simp
qed

lemma memcmp_zero_iff:
  "memcmp m s1 s2 n = 0 \<longleftrightarrow> (\<forall>j < unat n. m (s1 + of_nat j) = m (s2 + of_nat j))"
proof
  assume zero: "memcmp m s1 s2 n = 0"
  show "\<forall>j < unat n. m (s1 + of_nat j) = m (s2 + of_nat j)"
  proof (rule ccontr)
    let ?P = "\<lambda>j. j < unat n \<and> m (s1 + of_nat j) \<noteq> m (s2 + of_nat j)"
    assume "\<not> (\<forall>j < unat n. m (s1 + of_nat j) = m (s2 + of_nat j))"
    then have ex: "\<exists>j. ?P j" by blast
    have first: "?P (LEAST j. ?P j)" by (rule LeastI_ex [OF ex])
    have before: "m (s1 + of_nat k) = m (s2 + of_nat k)" if "k < (LEAST j. ?P j)" for k
      using not_less_Least [OF that] first that by auto
    have "memcmp m s1 s2 n = uint (m (s1 + of_nat (LEAST j. ?P j))) - uint (m (s2 + of_nat (LEAST j. ?P j)))"
      unfolding memcmp_def using first before by (intro memcmp_from_first) auto
    with zero first show False by (simp add: word_uint_eq_iff)
  qed
qed (simp add: memcmp_def memcmp_from_equal)

subsection \<open>What the string routines do\<close>

text \<open>\<open>cstring m p str\<close>: the bytes at \<open>p\<close> are those of \<open>str\<close>, none of them zero, and then a zero.\<close>

definition cstring :: "memory \<Rightarrow> u32 \<Rightarrow> u8 list \<Rightarrow> bool" where
  "cstring m p str \<longleftrightarrow> length str < 4294967296 \<and> 0 \<notin> set str
     \<and> (\<forall>i < length str. m (p + of_nat i) = str ! i) \<and> m (p + of_nat (length str)) = 0"

lemma strlen_from_cstring:
  assumes "cstring m p str" "i \<le> length str"
  shows "strlen_from m p (of_nat i) = Some (of_nat (length str))"
  using assms(2)
proof (induction "length str - i" arbitrary: i)
  case 0
  then have "i = length str" by simp
  with assms(1) show ?case by (subst strlen_from.simps) (simp add: cstring_def)
next
  case (Suc d)
  then have i: "i < length str" by simp
  with assms(1) have "m (p + of_nat i) \<noteq> 0" by (auto simp: cstring_def in_set_conv_nth)
  moreover have "strlen_from m p (of_nat (Suc i)) = Some (of_nat (length str))"
    by (rule Suc.hyps(1)) (use Suc.hyps i in auto)
  ultimately show ?case by (subst strlen_from.simps) (simp add: add.commute)
qed

lemma strlen_cstring: "cstring m p str \<Longrightarrow> strlen m p = Some (of_nat (length str))"
  using strlen_from_cstring [of m p str 0] by (simp add: strlen_def)

lemma cstring_byte: "cstring m p str \<Longrightarrow> i < length str \<Longrightarrow> m (p + of_nat i) = str ! i \<and> str ! i \<noteq> 0"
  by (auto simp: cstring_def in_set_conv_nth)

text \<open>
  \<open>strcmp\<close> compares the shorter string and its terminator: zero exactly on equal strings, and
  on a difference the signed difference of the two characters.
\<close>

lemma strcmp_from_first:
  assumes "i \<le> j" "j < 4294967296"
    and "\<And>k. i \<le> k \<Longrightarrow> k < j \<Longrightarrow> m (s1 + of_nat k) = m (s2 + of_nat k) \<and> m (s1 + of_nat k) \<noteq> 0"
    and "m (s1 + of_nat j) \<noteq> m (s2 + of_nat j) \<or> m (s1 + of_nat j) = 0"
  shows "strcmp_from m s1 s2 (of_nat i)
    = Some (sint (m (s1 + of_nat j)) - sint (m (s2 + of_nat j)))"
  using assms(1,3)
proof (induction "j - i" arbitrary: i)
  case 0
  then have "i = j" by simp
  with assms(4) show ?case by (subst strcmp_from.simps) auto
next
  case (Suc d)
  then have i: "i < j" by simp
  have "strcmp_from m s1 s2 (of_nat (Suc i))
      = Some (sint (m (s1 + of_nat j)) - sint (m (s2 + of_nat j)))"
  proof (rule Suc.hyps(1))
    show "d = j - Suc i" "Suc i \<le> j" using Suc.hyps(2) by auto
    show "m (s1 + of_nat k) = m (s2 + of_nat k) \<and> m (s1 + of_nat k) \<noteq> 0" if "Suc i \<le> k" "k < j" for k
      by (rule Suc.prems(2)) (use that in auto)
  qed
  moreover have "m (s1 + of_nat i) = m (s2 + of_nat i)" "m (s2 + of_nat i) \<noteq> 0"
    using Suc.prems(2) [of i] i by force+
  ultimately show ?case
    by (subst strcmp_from.simps) (simp add: add.commute)
qed

lemma strcmp_cstrings:
  assumes "cstring m p xs" "cstring m q ys"
  shows "\<exists>d. strcmp m p q = Some d \<and> (d = 0 \<longleftrightarrow> xs = ys)"
proof -
  let ?x = "\<lambda>k. m (p + of_nat k)" and ?y = "\<lambda>k. m (q + of_nat k)"
  let ?P = "\<lambda>k. ?x k \<noteq> ?y k \<or> ?x k = 0"
  define j where "j = (LEAST k. ?P k)"
  have nul: "?P (length xs)" using assms(1) by (simp add: cstring_def)
  then have P: "?P j" unfolding j_def by (rule LeastI)
  have jle: "j \<le> length xs" unfolding j_def using nul by (rule Least_le)
  have before: "?x k = ?y k \<and> ?x k \<noteq> 0" if "k < j" for k
    using not_less_Least [of k ?P] that by (auto simp: j_def)
  have "j < 4294967296" using jle assms(1) by (simp add: cstring_def)
  then have "strcmp_from m p q (of_nat 0) = Some (sint (?x j) - sint (?y j))"
    by (intro strcmp_from_first) (use before P in blast)+
  then have "strcmp m p q = Some (sint (?x j) - sint (?y j))" by (simp add: strcmp_def)
  moreover have "sint (?x j) - sint (?y j) = 0 \<longleftrightarrow> ?x j = ?y j"
    by (auto intro: signed_word_eqI)
  moreover have "?x j = ?y j \<longleftrightarrow> xs = ys"
  proof
    assume eq: "?x j = ?y j"
    with P have zero: "?x j = 0" "?y j = 0" by auto
    have len: "length zs = j" if "cstring m r zs" "m (r + of_nat j) = 0"
      "\<And>k. k < j \<Longrightarrow> m (r + of_nat k) \<noteq> 0" for r zs
    proof (rule ccontr)
      assume "length zs \<noteq> j"
      then consider "length zs < j" | "j < length zs" by linarith
      then show False
      proof cases
        case 1
        with that(3) [of "length zs"] that(1) show False by (simp add: cstring_def)
      next
        case 2
        with cstring_byte [OF that(1), of j] that(2) show False by simp
      qed
    qed
    have lens: "length xs = j" "length ys = j"
      using len [OF assms(1)] len [OF assms(2)] zero before by metis+
    then show "xs = ys"
      using before cstring_byte [OF assms(1)] cstring_byte [OF assms(2)]
      by (intro nth_equalityI) metis+
  next
    assume "xs = ys"
    with assms jle show "?x j = ?y j"
      by (cases "j = length xs") (auto simp: cstring_def)
  qed
  ultimately show ?thesis by simp
qed

text \<open>\<open>strcpy\<close> onto memory that does not overlap the source leaves a copy and touches nothing else.\<close>

lemma outside_block:
  fixes src dest :: u32
  assumes "\<And>k. k \<le> n \<Longrightarrow> src + of_nat j \<noteq> dest + of_nat k"
  shows "n < unat (src + of_nat j - dest)"
proof (rule ccontr)
  assume "\<not> n < unat (src + of_nat j - dest)"
  then show False
    using assms [of "unat (src + of_nat j - dest)"] addr_offset [of dest "src + of_nat j"] by simp
qed

lemma strcpy_from_copy:
  assumes str: "cstring m0 src str" and "i \<le> length str"
    and disj: "\<And>j k. j \<le> length str \<Longrightarrow> k \<le> length str \<Longrightarrow> src + of_nat j \<noteq> dest + of_nat k"
    and m: "m = (\<lambda>a. if unat (a - dest) < i then m0 (src + (a - dest)) else m0 a)"
  shows "strcpy_from dest src (of_nat i) m =
    Some (\<lambda>a. if unat (a - dest) \<le> length str then m0 (src + (a - dest)) else m0 a)"
  using assms(2,4)
proof (induction "length str - i" arbitrary: i m)
  case 0
  then have i: "i = length str" by simp
  have n: "length str < 4294967296" using str by (simp add: cstring_def)
  have src: "m (src + of_nat i) = m0 (src + of_nat i)"
  proof -
    have "length str < unat (src + of_nat i - dest)"
      by (rule outside_block) (use disj i in auto)
    then have "\<not> unat (src + of_nat i - dest) < i" using i by simp
    then show ?thesis unfolding "0.prems" by (simp only: if_False)
  qed
  then have "m (src + of_nat i) = 0" using str i by (simp add: cstring_def)
  moreover have "m(dest + of_nat i := 0)
      = (\<lambda>a. if unat (a - dest) \<le> length str then m0 (src + (a - dest)) else m0 a)"
  proof
    fix a
    show "(m(dest + of_nat i := 0)) a
        = (if unat (a - dest) \<le> length str then m0 (src + (a - dest)) else m0 a)"
    proof (cases "a = dest + of_nat i")
      case True
      then have "a - dest = of_nat (length str)" "unat (a - dest) = length str"
        using i unat_of_nat_u32 [OF n] by simp_all
      with True str show ?thesis by (simp add: cstring_def)
    next
      case False
      then have "unat (a - dest) \<noteq> length str" using addr_offset_eq [OF n] i by blast
      with False i show ?thesis unfolding "0.prems" by simp
    qed
  qed
  ultimately show ?case by (subst strcpy_from.simps) simp
next
  case (Suc d)
  then have i: "i < length str" by simp
  then have n: "i < 4294967296" using str by (simp add: cstring_def)
  have src: "m (src + of_nat i) = m0 (src + of_nat i)"
  proof -
    have "length str < unat (src + of_nat i - dest)"
      by (rule outside_block) (use disj i in auto)
    then have "\<not> unat (src + of_nat i - dest) < i" using i by simp
    then show ?thesis unfolding Suc.prems by (simp only: if_False)
  qed
  have nz: "m (src + of_nat i) \<noteq> 0" using src cstring_byte [OF str i] by simp
  let ?m = "m(dest + of_nat i := m (src + of_nat i))"
  have "strcpy_from dest src (of_nat (Suc i)) ?m =
      Some (\<lambda>a. if unat (a - dest) \<le> length str then m0 (src + (a - dest)) else m0 a)"
  proof (rule Suc.hyps(1))
    show "d = length str - Suc i" using Suc.hyps(2) by simp
    show "Suc i \<le> length str" using i by simp
    show "?m = (\<lambda>a. if unat (a - dest) < Suc i then m0 (src + (a - dest)) else m0 a)"
      unfolding src using addr_offset_eq [OF n, of _ dest]
      unfolding Suc.prems by (auto simp: fun_eq_iff less_Suc_eq)
  qed
  then show ?case using nz by (subst strcpy_from.simps) (simp add: add.commute)
qed

subsection \<open>The heap\<close>

definition heap_ok :: "'a kmem_scheme \<Rightarrow> bool" where
  "heap_ok s \<longleftrightarrow> heap_current s \<noteq> 0 \<and> heap_current s \<le> heap_end s
     \<and> aligned4 (heap_current s) \<and> aligned4 (heap_end s)"

lemma unat_add_u32: "unat x + unat y < 4294967296 \<Longrightarrow> unat (x + y) = unat x + unat y" for x y :: u32
  using unat_add_lem [of x y] by simp

lemma heap_init_start:
  assumes "unat kernel_end + 0x601000 < 4294967296"
  shows "heap_ok (heap_init kernel_end s) \<and> page_aligned (heap_current (heap_init kernel_end s))
    \<and> kernel_end \<le> heap_current (heap_init kernel_end s)
    \<and> 0x200000 \<le> heap_current (heap_init kernel_end s)
    \<and> unat (heap_end (heap_init kernel_end s)) = unat (heap_current (heap_init kernel_end s)) + 0x600000"
proof -
  define start where "start = (if PAGE_ALIGN_UP kernel_end < 0x200000 then 0x200000 else PAGE_ALIGN_UP kernel_end)"
  have up: "unat (PAGE_ALIGN_UP kernel_end) = (unat kernel_end + 4095) div 4096 * 4096"
    using assms unat_add_u32 [of kernel_end "0xFFF"] by (simp add: PAGE_ALIGN_UP_def unat_page_base)
  have dvd: "4096 dvd unat start"
    unfolding start_def using up by auto
  have bounds: "unat start + 0x600000 < 4294967296" "unat kernel_end \<le> unat start" "0x200000 \<le> unat start"
    unfolding start_def using up assms by (auto simp: word_less_nat_alt)
  then have e: "unat (start + HEAP_SIZE) = unat start + 0x600000"
    using unat_add_u32 [of start HEAP_SIZE] by (simp add: const_defs)
  have init: "heap_init kernel_end s = s\<lparr>heap_current := start, heap_end := start + HEAP_SIZE\<rparr>"
    by (simp add: heap_init_def start_def Let_def)
  have al: "4 dvd unat start" "4 dvd unat start + 0x600000"
    using dvd by (auto intro: dvd_trans [of 4 4096])
  have "start \<noteq> 0" using bounds(3) by auto
  with bounds dvd al e show ?thesis
    unfolding init by (simp add: heap_ok_def aligned4_def page_aligned_def word_le_nat_alt)
qed

definition round4 :: "nat \<Rightarrow> nat" where
  "round4 n = (n + 3) div 4 * 4"

lemma unat_round4: "unat n < 4294967293 \<Longrightarrow> unat (word_base (n + 3)) = round4 (unat n)" for n :: u32
  using unat_add_u32 [of n 3] by (simp add: unat_word_base round4_def)

lemma round4_ge: "n \<le> round4 n"
  by (simp add: round4_def)

text \<open>A request that does not wrap around: the next block, or \<open>NULL\<close> when it does not fit.\<close>

lemma malloc_no_wrap:
  assumes ok: "heap_ok s" and sz: "unat n < 4294967293"
    and nowrap: "unat (heap_current s) + round4 (unat n) < 4294967296"
  shows "malloc n s =
    (if unat (heap_current s) + round4 (unat n) \<le> unat (heap_end s)
     then (heap_current s, s\<lparr>heap_current := heap_current s + word_base (n + 3)\<rparr>) else (0, s))"
    and "unat (heap_current s + word_base (n + 3)) = unat (heap_current s) + round4 (unat n)"
proof -
  show add: "unat (heap_current s + word_base (n + 3)) = unat (heap_current s) + round4 (unat n)"
    using unat_add_u32 [of "heap_current s" "word_base (n + 3)"] nowrap unat_round4 [OF sz] by simp
  show "malloc n s =
    (if unat (heap_current s) + round4 (unat n) \<le> unat (heap_end s)
     then (heap_current s, s\<lparr>heap_current := heap_current s + word_base (n + 3)\<rparr>) else (0, s))"
    using ok by (simp add: malloc_def Let_def heap_ok_def word_less_nat_alt add not_less)
qed

lemma malloc_heap_ok [state_inv]:
  assumes ok: "heap_ok s" and sz: "unat n < 4294967293"
    and nowrap: "unat (heap_current s) + round4 (unat n) < 4294967296"
  shows "heap_ok (snd (malloc n s))"
proof -
  have "4 dvd round4 (unat n)" by (simp add: round4_def)
  moreover have "0 < unat (heap_current s)" using ok by (simp add: heap_ok_def unat_gt_0)
  ultimately show ?thesis
    using ok malloc_no_wrap [OF assms]
    by (auto simp: heap_ok_def aligned4_def word_le_nat_alt word_unat_eq_iff)
qed

text \<open>
  \<open>mallocs ns s\<close>: the results of a sequence of requests. Every block granted lies in the heap,
  and the blocks lie one after another: no two of them overlap.
\<close>

fun mallocs :: "u32 list \<Rightarrow> 'a kmem_scheme \<Rightarrow> u32 list" where
  "mallocs [] s = []"
| "mallocs (n # ns) s = (let (p, s) = malloc n s in p # mallocs ns s)"

lemma length_mallocs [simp]: "length (mallocs ns s) = length ns"
  by (induction ns arbitrary: s) (auto simp: split_beta Let_def)

lemma mallocs_in_heap:
  assumes "heap_ok s" "unat (heap_end s) \<le> 0xE0000000" "\<forall>n \<in> set ns. unat n \<le> 0x10000000"
    and "i < length ns" "mallocs ns s ! i \<noteq> 0"
  shows "unat (heap_current s) \<le> unat (mallocs ns s ! i) \<and> aligned4 (mallocs ns s ! i)
    \<and> unat (mallocs ns s ! i) + unat (ns ! i) \<le> unat (heap_end s)"
  using assms
proof (induction ns arbitrary: s i)
  case Nil
  then show ?case by simp
next
  case (Cons n ns)
  have "unat n \<le> 0x10000000" using Cons.prems(3) by simp
  then have n: "unat n < 4294967293" "round4 (unat n) \<le> 0x10000000" by (simp_all add: round4_def)
  have "unat (heap_current s) \<le> unat (heap_end s)"
    using Cons.prems(1) by (simp add: heap_ok_def word_le_nat_alt)
  then have nowrap: "unat (heap_current s) + round4 (unat n) < 4294967296"
    using n Cons.prems(2) by linarith
  note m = malloc_no_wrap [OF Cons.prems(1) n(1) nowrap]
  have ok: "heap_ok (snd (malloc n s))" by (rule malloc_heap_ok [OF Cons.prems(1) n(1) nowrap])
  have le: "unat (heap_current s) \<le> unat (heap_current (snd (malloc n s)))"
    and he: "heap_end (snd (malloc n s)) = heap_end s"
    using m by auto
  show ?case
  proof (cases i)
    case 0
    with Cons.prems m round4_ge [of "unat n"] show ?thesis
      by (auto simp: split_beta Let_def heap_ok_def split: if_splits)
  next
    case (Suc k)
    with Cons.prems Cons.IH [OF ok, of k] le he show ?thesis
      by (auto simp: split_beta Let_def)
  qed
qed

lemma mallocs_disjoint:
  assumes "heap_ok s" "unat (heap_end s) \<le> 0xE0000000" "\<forall>n \<in> set ns. unat n \<le> 0x10000000"
    and "i < j" "j < length ns" "mallocs ns s ! i \<noteq> 0" "mallocs ns s ! j \<noteq> 0"
  shows "unat (mallocs ns s ! i) + unat (ns ! i) \<le> unat (mallocs ns s ! j)"
  using assms
proof (induction ns arbitrary: s i j)
  case Nil
  then show ?case by simp
next
  case (Cons n ns)
  have "unat n \<le> 0x10000000" using Cons.prems(3) by simp
  then have n: "unat n < 4294967293" "round4 (unat n) \<le> 0x10000000" by (simp_all add: round4_def)
  have "unat (heap_current s) \<le> unat (heap_end s)"
    using Cons.prems(1) by (simp add: heap_ok_def word_le_nat_alt)
  then have nowrap: "unat (heap_current s) + round4 (unat n) < 4294967296"
    using n Cons.prems(2) by linarith
  note m = malloc_no_wrap [OF Cons.prems(1) n(1) nowrap]
  have ok: "heap_ok (snd (malloc n s))" by (rule malloc_heap_ok [OF Cons.prems(1) n(1) nowrap])
  have he: "heap_end (snd (malloc n s)) = heap_end s" using m by auto
  obtain k where j: "j = Suc k" using Cons.prems(4) by (cases j) auto
  have nth: "mallocs (n # ns) s ! Suc q = mallocs ns (snd (malloc n s)) ! q" for q
    by (simp add: split_beta Let_def)
  show ?case
  proof (cases i)
    case 0
    have "mallocs (n # ns) s ! 0 = fst (malloc n s)" by (simp add: split_beta Let_def)
    moreover have "unat (heap_current (snd (malloc n s))) \<le> unat (mallocs ns (snd (malloc n s)) ! k)"
      using mallocs_in_heap [OF ok, of ns k] Cons.prems j he nth [of k] by simp
    ultimately show ?thesis
      using 0 j nth [of k] m round4_ge [of "unat n"] Cons.prems(6) by (auto split: if_splits)
  next
    case (Suc l)
    with j Cons.IH [OF ok, of l k] Cons.prems he nth [of k] nth [of l] show ?thesis by simp
  qed
qed

text \<open>
  The size check adds before it compares: a request that wraps around the address space passes
  it, returns a pointer and moves the heap pointer back over blocks already handed out.
\<close>

lemma malloc_wrap_succeeds:
  assumes ok: "heap_ok s" and sz: "unat n < 4294967293"
    and wrap: "4294967296 \<le> unat (heap_current s) + round4 (unat n)"
  shows "fst (malloc n s) = heap_current s \<and> heap_current (snd (malloc n s)) < heap_current s"
proof -
  let ?r = "word_base (n + 3)"
  have r: "unat ?r = round4 (unat n)" by (rule unat_round4 [OF sz])
  have "unat (heap_current s + ?r) = unat (heap_current s) + unat ?r - 4294967296"
    using wrap r by (simp add: unat_plus_if_size word_size)
  then have "unat (heap_current s + ?r) < unat (heap_current s)"
    using wrap r unat_u32_less [of ?r] unat_u32_less [of "heap_current s"] by linarith
  then have lt: "heap_current s + ?r < heap_current s" by (simp add: word_less_nat_alt)
  with ok have "\<not> heap_current s + ?r > heap_end s" by (auto simp: heap_ok_def)
  with ok lt show ?thesis by (simp add: malloc_def Let_def heap_ok_def)
qed

subsection \<open>Properties\<close>

definition kmem_reset :: kmem where
  "kmem_reset = pmm.extend pmm_reset (kmem.fields (\<lambda>_. 0) 0 0)"

text \<open>
  C28: Once \<open>heap_init\<close> has run, the blocks \<open>malloc\<close> grants to any sequence of requests of at most
  256 MB lie inside the 6 MB heap, above the kernel image, start at a multiple of 4 and never
  overlap: each ends before every later one begins.
\<close>

theorem malloc_blocks_disjoint:
  assumes "unat kernel_end \<le> 0x80000000" "\<forall>n \<in> set ns. unat n \<le> 0x10000000"
    and "i < j" "j < length ns"
    and "mallocs ns (heap_init kernel_end s) ! i \<noteq> 0" "mallocs ns (heap_init kernel_end s) ! j \<noteq> 0"
  shows "unat kernel_end \<le> unat (mallocs ns (heap_init kernel_end s) ! i)
    \<and> aligned4 (mallocs ns (heap_init kernel_end s) ! i)
    \<and> unat (mallocs ns (heap_init kernel_end s) ! i) + unat (ns ! i)
        \<le> unat (mallocs ns (heap_init kernel_end s) ! j)
    \<and> unat (mallocs ns (heap_init kernel_end s) ! j) + unat (ns ! j)
        \<le> unat (heap_end (heap_init kernel_end s))"
proof -
  let ?s = "heap_init kernel_end s"
  have room: "unat kernel_end + 0x601000 < 4294967296" using assms(1) by simp
  note h = heap_init_start [OF room, of s]
  then have ok: "heap_ok ?s" and le: "unat kernel_end \<le> unat (heap_current ?s)"
    by (auto simp: word_le_nat_alt)
  have "unat (PAGE_ALIGN_UP kernel_end) \<le> 0x80001000"
    using assms(1) unat_add_u32 [of kernel_end "0xFFF"] by (simp add: PAGE_ALIGN_UP_def unat_page_base)
  then have "unat (heap_current ?s) \<le> 0x80001000"
    by (simp add: heap_init_def Let_def)
  then have top: "unat (heap_end ?s) \<le> 0xE0000000" using h by simp
  show ?thesis
    using mallocs_in_heap [OF ok top assms(2), of i] mallocs_in_heap [OF ok top assms(2), of j]
      mallocs_disjoint [OF ok top assms(2-6)] assms(3-6) le by simp
qed

theorem malloc_blocks_disjoint_witness:
  "mallocs [10, 4] (heap_init 0x156000 kmem_reset) = [0x200000, 0x20000C]
   \<and> unat (0x200000 :: u32) + 10 \<le> unat (0x20000C :: u32)"
proof -
  have "mallocs [10, 4] (heap_init 0x156000 kmem_reset) = [0x200000, 0x20000C]"
    by (simp add: heap_init_def PAGE_ALIGN_UP_def page_base_def malloc_def word_base_def const_defs)
  then show ?thesis
    using malloc_blocks_disjoint [of "0x156000" "[10, 4]" 0 1 kmem_reset] by simp
qed

text \<open>
  A request so large that the heap pointer plus its size wraps around the address space is
  granted, and moves the heap pointer back: blocks already handed out will be handed out again.
\<close>

theorem malloc_wraps_around:
  assumes "heap_ok s" "unat n < 4294967293" "4294967296 \<le> unat (heap_current s) + round4 (unat n)"
  shows "fst (malloc n s) \<noteq> 0 \<and> heap_current (snd (malloc n s)) < heap_current s"
  using malloc_wrap_succeeds [OF assms] assms(1) by (simp add: heap_ok_def)

theorem malloc_wraps_around_witness:
  "heap_current (snd (malloc 0xFFF00000 (heap_init 0x156000 kmem_reset))) < 0x200000"
proof -
  let ?s = "heap_init 0x156000 kmem_reset"
  have cur: "heap_current ?s = 0x200000"
    by (simp add: heap_init_def PAGE_ALIGN_UP_def page_base_def)
  have "heap_ok ?s" using heap_init_start [of "0x156000" kmem_reset] by simp
  moreover have "round4 (unat (0xFFF00000 :: u32)) = 0xFFF00000" by (simp add: round4_def)
  ultimately show ?thesis
    using malloc_wraps_around [of ?s "0xFFF00000"] cur by simp
qed

text \<open>
  \<open>memcpy\<close> to a destination that does not start inside the source block copies every byte and
  touches nothing else, \<open>memset\<close> fills exactly its block, and \<open>memcmp\<close> of the copy with the source
  is 0 when the two do not overlap at all.
\<close>

theorem memcpy_copies:
  assumes "unat n \<le> unat (dest - src)" "unat n \<le> unat (src - dest)"
  shows "(\<forall>i < unat n. memcpy dest src n m (dest + of_nat i) = m (src + of_nat i))
    \<and> (\<forall>a. unat n \<le> unat (a - dest) \<longrightarrow> memcpy dest src n m a = m a)
    \<and> memcmp (memcpy dest src n m) dest src n = 0
    \<and> (\<forall>a. memset dest v n m a = (if unat (a - dest) < unat n then u32_to_u8 v else m a))"
proof -
  have cp: "memcpy dest src n m a = (if unat (a - dest) < unat n then m (src + (a - dest)) else m a)" for a
    by (rule memcpy_apply) (use assms(1) in simp)
  have off: "unat (of_nat i :: u32) = i" if "i < unat n" for i
    using that unat_u32_less [of n] by (intro unat_of_nat_u32) linarith
  have in_dest: "memcpy dest src n m (dest + of_nat i) = m (src + of_nat i)" if "i < unat n" for i
    using off [OF that] that by (simp add: cp)
  have in_src: "memcpy dest src n m (src + of_nat i) = m (src + of_nat i)" if i: "i < unat n" for i
  proof -
    have "\<not> unat (src + of_nat i - dest) < unat n"
    proof
      assume lt: "unat (src + of_nat i - dest) < unat n"
      define k where "k = unat (src + of_nat i - dest)"
      have k: "of_nat k = src + of_nat i - dest" "k < unat n" using lt by (simp_all add: k_def)
      have off_k: "unat (of_nat k :: u32) = k" by (rule off [OF k(2)])
      show False
      proof (cases "i \<le> k")
        case True
        have "src - dest = of_nat (k - i)" using k(1) True by (simp add: of_nat_diff)
        moreover have "k - i < unat n" using k(2) by simp
        ultimately show False using assms(2) off [of "k - i"] by simp
      next
        case False
        have "dest - src = of_nat (i - k)" using k(1) False by (simp add: of_nat_diff)
        moreover have "i - k < unat n" using i by simp
        ultimately show False using assms(1) off [of "i - k"] by simp
      qed
    qed
    then show ?thesis by (simp add: cp)
  qed
  show ?thesis
    using in_dest in_src cp by (auto simp: memcmp_zero_iff memset_apply)
qed

theorem memcpy_copies_witness:
  "memcpy 0x2000 0x1000 16 (\<lambda>a. u32_to_u8 a) 0x2003 = 3"
  using memcpy_copies [of 16 "0x2000" "0x1000" "\<lambda>a. u32_to_u8 a" 0] by (auto dest: spec [where x = 3])

text \<open>
  On two zero-terminated strings \<open>strcmp\<close> returns, and it returns 0 exactly when they are
  equal; \<open>strlen\<close> returns the length; \<open>strcpy\<close> to memory apart from the source returns with the
  source's bytes, terminator included, at the destination and nothing else changed.
\<close>

theorem string_routines_correct:
  assumes "cstring m p xs" "cstring m q ys"
  shows "strlen m p = Some (of_nat (length xs))
    \<and> (\<exists>d. strcmp m p q = Some d \<and> (d = 0 \<longleftrightarrow> xs = ys))
    \<and> ((\<forall>j k. j \<le> length xs \<and> k \<le> length xs \<longrightarrow> p + of_nat j \<noteq> dest + of_nat k) \<longrightarrow>
        strcpy dest p m = Some (\<lambda>a. if unat (a - dest) \<le> length xs then m (p + (a - dest)) else m a))"
proof (intro conjI impI)
  show "strlen m p = Some (of_nat (length xs))" by (rule strlen_cstring [OF assms(1)])
  show "\<exists>d. strcmp m p q = Some d \<and> (d = 0 \<longleftrightarrow> xs = ys)" by (rule strcmp_cstrings [OF assms])
  assume disj: "\<forall>j k. j \<le> length xs \<and> k \<le> length xs \<longrightarrow> p + of_nat j \<noteq> dest + of_nat k"
  have "strcpy_from dest p (of_nat 0) m =
      Some (\<lambda>a. if unat (a - dest) \<le> length xs then m (p + (a - dest)) else m a)"
    by (rule strcpy_from_copy [OF assms(1)]) (use disj in auto)
  then show "strcpy dest p m = Some (\<lambda>a. if unat (a - dest) \<le> length xs then m (p + (a - dest)) else m a)"
    by (simp add: strcpy_def)
qed

theorem string_routines_correct_witness:
  "strlen ((\<lambda>_. 0)(0x1000 := 65, 0x1001 := 66)) 0x1000 = Some 2"
proof -
  let ?m = "(\<lambda>_. 0)(0x1000 := 65, 0x1001 := 66) :: memory"
  have "cstring ?m 0x1000 [65, 66]" by (auto simp: cstring_def less_Suc_eq)
  then show ?thesis using string_routines_correct [of ?m "0x1000" "[65, 66]" "0x1000" "[65, 66]" 0] by simp
qed

end
