(* ===== verification/Vmm.thy ===== *)
theory Vmm
  imports Kmem
begin

unbundle bit_operations_syntax

section \<open>Virtual memory manager\<close>

text \<open>
  Models \<open>kernel/mm/vmm.c\<close>: two-level x86 page tables built in physical memory. A page directory
  or table is the page at its physical address, read and written as 1024 little-endian words
  (the kernel reaches it through its identity map, so the pointer is the physical address).
  The state adds the kernel's directory, the control registers the code writes and the list of
  addresses given to \<open>invlpg\<close>.

  \<open>page_walk\<close> and \<open>translate\<close> are what the processor does with a directory: the abstract view
  of the tables. The lemmas show what each operation does to that view.
\<close>

subsection \<open>State and page-table entries\<close>

record vmm = kmem +
  g_kernel_dir :: u32
  cr0 :: u32
  cr3 :: u32
  tlb_flushed :: "u32 list"

definition PTE_PRESENT :: u32 where "PTE_PRESENT = 1"
definition PTE_WRITABLE :: u32 where "PTE_WRITABLE = 2"
definition PTE_USER :: u32 where "PTE_USER = 4"

definition read_entry :: "memory \<Rightarrow> u32 \<Rightarrow> u32 \<Rightarrow> u32" where
  "read_entry m t i = load32 m (t + 4 * i)"

definition write_entry :: "u32 \<Rightarrow> u32 \<Rightarrow> u32 \<Rightarrow> memory \<Rightarrow> memory" where
  "write_entry t i v m = store32 m (t + 4 * i) v"

definition present :: "u32 \<Rightarrow> bool" where
  "present e \<longleftrightarrow> e AND PTE_PRESENT \<noteq> 0"

definition set_entry :: "u32 \<Rightarrow> u32 \<Rightarrow> u32 \<Rightarrow> 'a vmm_scheme \<Rightarrow> 'a vmm_scheme" where
  "set_entry t i v s = s\<lparr>phys_mem := write_entry t i v (phys_mem s)\<rparr>"

subsection \<open>Operations\<close>

definition write_cr3 :: "u32 \<Rightarrow> 'a vmm_scheme \<Rightarrow> 'a vmm_scheme" where
  "write_cr3 v s = s\<lparr>cr3 := v\<rparr>"

definition enable_paging :: "'a vmm_scheme \<Rightarrow> 'a vmm_scheme" where
  "enable_paging s = s\<lparr>cr0 := cr0 s OR 0x80000001\<rparr>"

definition tlb_flush :: "u32 \<Rightarrow> 'a vmm_scheme \<Rightarrow> 'a vmm_scheme" where
  "tlb_flush virt s = s\<lparr>tlb_flushed := tlb_flushed s @ [virt]\<rparr>"

text \<open>The loop that clears a new table or directory.\<close>

definition clear_table :: "u32 \<Rightarrow> 'a vmm_scheme \<Rightarrow> 'a vmm_scheme" where
  "clear_table t s = s\<lparr>phys_mem := fold (\<lambda>i. write_entry t (of_nat i) 0) [0..<1024] (phys_mem s)\<rparr>"

definition get_or_create_table :: "u32 \<Rightarrow> u32 \<Rightarrow> u32 \<Rightarrow> 'a vmm_scheme \<Rightarrow> u32 \<times> 'a vmm_scheme" where
  "get_or_create_table dir pdi flags s =
     (let pde = read_entry (phys_mem s) dir pdi in
      if present pde then (page_base pde, s)
      else let (phys, s) = pmm_alloc_frame s in
        if phys = 0 then (0, s)
        else let s = clear_table phys s;
                 s = set_entry dir pdi (phys OR flags OR PTE_PRESENT) s
             in (phys, s))"

definition clone_table :: "u32 \<Rightarrow> u32 \<Rightarrow> memory \<Rightarrow> memory" where
  "clone_table orig newtbl m =
     fold (\<lambda>j m. write_entry newtbl (of_nat j) (read_entry m orig (of_nat j) OR PTE_USER) m) [0..<1024] m"

text \<open>One turn of the loop over the kernel's directory in \<open>vmm_create_directory\<close>.\<close>

definition clone_pde :: "u32 \<Rightarrow> nat \<Rightarrow> 'a vmm_scheme \<Rightarrow> 'a vmm_scheme" where
  "clone_pde dir i s =
     (let pde = read_entry (phys_mem s) (g_kernel_dir s) (of_nat i) in
      if \<not> present pde then set_entry dir (of_nat i) 0 s
      else let orig = page_base pde; (new_phys, s) = pmm_alloc_frame s in
        if new_phys = 0 then set_entry dir (of_nat i) (pde OR PTE_USER) s
        else let s = s\<lparr>phys_mem := clone_table orig new_phys (phys_mem s)\<rparr>
          in set_entry dir (of_nat i) (new_phys OR (pde AND 0xFFF) OR PTE_USER) s)"

definition vmm_create_directory :: "'a vmm_scheme \<Rightarrow> u32 \<times> 'a vmm_scheme" where
  "vmm_create_directory s =
     (let (dir, s) = pmm_alloc_frame s in
      if dir = 0 then (0, s)
      else let s = clear_table dir s;
               s = (if g_kernel_dir s \<noteq> 0 then fold (clone_pde dir) [0..<1024] s else s)
           in (dir, s))"

definition pde_index :: "u32 \<Rightarrow> u32" where "pde_index virt = drop_bit 22 virt"
definition pte_index :: "u32 \<Rightarrow> u32" where "pte_index virt = drop_bit 12 virt AND 0x3FF"

definition vmm_map_page :: "u32 \<Rightarrow> u32 \<Rightarrow> u32 \<Rightarrow> u32 \<Rightarrow> 'a vmm_scheme \<Rightarrow> 'a vmm_scheme" where
  "vmm_map_page dir virt phys flags s =
     (let pdi = pde_index virt; pti = pte_index virt;
          pde = read_entry (phys_mem s) dir pdi;
          s = (if present pde \<and> flags AND PTE_USER \<noteq> 0 then
                 let s = set_entry dir pdi (read_entry (phys_mem s) dir pdi OR PTE_USER) s
                 in if flags AND PTE_WRITABLE \<noteq> 0
                    then set_entry dir pdi (read_entry (phys_mem s) dir pdi OR PTE_WRITABLE) s else s
               else s);
          (table, s) = get_or_create_table dir pdi (flags OR PTE_PRESENT OR PTE_WRITABLE) s
      in if table = 0 then s
         else tlb_flush virt (set_entry table pti (page_base phys OR flags OR PTE_PRESENT) s))"

definition vmm_unmap_page :: "u32 \<Rightarrow> u32 \<Rightarrow> 'a vmm_scheme \<Rightarrow> 'a vmm_scheme" where
  "vmm_unmap_page dir virt s =
     (let pdi = pde_index virt; pti = pte_index virt;
          pde = read_entry (phys_mem s) dir pdi
      in if \<not> present pde then s
         else tlb_flush virt (set_entry (page_base pde) pti 0 s))"

definition vmm_load_directory :: "u32 \<Rightarrow> 'a vmm_scheme \<Rightarrow> 'a vmm_scheme" where
  "vmm_load_directory dir s = write_cr3 dir s"

text \<open>The loop \<open>for (addr = 0; addr < limit; addr += PAGE_SIZE)\<close>, here over page numbers.\<close>

definition identity_map :: "u32 \<Rightarrow> nat \<Rightarrow> 'a vmm_scheme \<Rightarrow> 'a vmm_scheme" where
  "identity_map dir pages s =
     fold (\<lambda>i s. vmm_map_page dir (of_nat i * PAGE_SIZE) (of_nat i * PAGE_SIZE) (PTE_PRESENT OR PTE_WRITABLE) s)
       [0..<pages] s"

definition vmm_init :: "'a vmm_scheme \<Rightarrow> 'a vmm_scheme" where
  "vmm_init s =
     (let (phys, s) = pmm_alloc_frame s;
          s = s\<lparr>g_kernel_dir := phys\<rparr>;
          s = clear_table (g_kernel_dir s) s;
          s = identity_map (g_kernel_dir s) (0x08000000 div 4096) s;
          s = write_cr3 (g_kernel_dir s) s
      in enable_paging s)"

definition vmm_get_kernel_directory :: "'a vmm_scheme \<Rightarrow> u32" where
  "vmm_get_kernel_directory s = g_kernel_dir s"

subsection \<open>What the processor does with a directory\<close>

definition page_walk :: "memory \<Rightarrow> u32 \<Rightarrow> u32 \<Rightarrow> (u32 \<times> u32) option" where
  "page_walk m dir virt =
     (let pde = read_entry m dir (pde_index virt) in
      if \<not> present pde then None
      else let pte = read_entry m (page_base pde) (pte_index virt) in
        if \<not> present pte then None else Some (pde, pte))"

definition page_offset :: "u32 \<Rightarrow> u32" where "page_offset virt = virt AND 0xFFF"

definition translate :: "memory \<Rightarrow> u32 \<Rightarrow> u32 \<Rightarrow> u32 option" where
  "translate m dir virt = map_option (\<lambda>(pde, pte). page_base pte OR page_offset virt) (page_walk m dir virt)"

text \<open>Ring 3 may read an address whose directory and table entries both have the user bit.\<close>

definition user_access :: "memory \<Rightarrow> u32 \<Rightarrow> u32 \<Rightarrow> bool" where
  "user_access m dir virt \<longleftrightarrow>
     (case page_walk m dir virt of
        Some (pde, pte) \<Rightarrow> pde AND PTE_USER \<noteq> 0 \<and> pte AND PTE_USER \<noteq> 0
      | None \<Rightarrow> False)"

subsection \<open>Pages as arrays of 1024 words\<close>

definition page :: "u32 \<Rightarrow> bool" where
  "page t \<longleftrightarrow> page_base t = t"

lemma page_aligned_page: "page_aligned t \<longleftrightarrow> page t"
proof -
  have "unat t div 4096 * 4096 = unat t \<longleftrightarrow> 4096 dvd unat t"
    by (metis dvd_div_mult_self dvd_triv_right)
  then show ?thesis by (simp add: page_aligned_def page_def word_unat_eq_iff unat_page_base)
qed

lemma page_dvd: "page t \<Longrightarrow> 4096 dvd unat t"
  using page_aligned_page page_aligned_def by blast

lemma page_page_base [simp]: "page (page_base a)"
  by (simp add: page_def word_unat_eq_iff unat_page_base)

lemma page_zero [simp]: "page 0"
  by (simp add: page_def word_unat_eq_iff unat_page_base)

lemma page_room: "page t \<Longrightarrow> unat t \<le> 4294963200"
proof -
  assume "page t"
  then obtain k where k: "unat t = 4096 * k" using page_dvd by blast
  with unat_u32_less [of t] show ?thesis by simp
qed

lemma unat_in_page:
  assumes "page t" "k < 4096"
  shows "unat (t + of_nat k) = unat t + k" and "page_base (t + of_nat k) = t"
proof -
  show u: "unat (t + of_nat k) = unat t + k"
    using assms page_room [OF assms(1)] unat_add_u32 [of t "of_nat k"] by (simp add: unat_of_nat_u32)
  obtain q where "unat t = 4096 * q" using page_dvd [OF assms(1)] by blast
  with assms(2) show "page_base (t + of_nat k) = t"
    by (simp add: word_unat_eq_iff unat_page_base u)
qed

definition entry_addr :: "u32 \<Rightarrow> u32 \<Rightarrow> u32" where
  "entry_addr t i = t + 4 * i"

lemma entry_addr_of_nat: "entry_addr t i = t + of_nat (4 * unat i)"
  by (simp add: entry_addr_def)

lemma unat_entry_addr:
  assumes "page t" "unat i < 1024"
  shows "unat (entry_addr t i) = unat t + 4 * unat i" and "page_base (entry_addr t i) = t"
    and "aligned4 (entry_addr t i)"
proof -
  have k: "4 * unat i < 4096" using assms(2) by simp
  note u = unat_in_page [OF assms(1) k]
  show "unat (entry_addr t i) = unat t + 4 * unat i" and "page_base (entry_addr t i) = t"
    unfolding entry_addr_of_nat by (fact u)+
  have "4 dvd unat t" using page_dvd [OF assms(1)] by (auto intro: dvd_trans [of 4 4096])
  then show "aligned4 (entry_addr t i)"
    unfolding entry_addr_of_nat aligned4_def u by simp
qed

lemma entry_addr_inject:
  assumes "page t" "page t'" "unat i < 1024" "unat j < 1024"
  shows "entry_addr t i = entry_addr t' j \<longleftrightarrow> t = t' \<and> i = j"
proof
  assume eq: "entry_addr t i = entry_addr t' j"
  then have t: "t = t'" using unat_entry_addr(2) assms by metis
  from eq have "unat t + 4 * unat i = unat t' + 4 * unat j" using unat_entry_addr(1) assms by metis
  with t show "t = t' \<and> i = j" by (simp add: word_unat_eq_iff)
qed simp

lemma read_write_entry [simp]: "read_entry (write_entry t i v m) t i = v"
  by (simp add: read_entry_def write_entry_def)

lemma read_write_entry_other:
  assumes "page t" "page t'" "unat i < 1024" "unat j < 1024" "t \<noteq> t' \<or> i \<noteq> j"
  shows "read_entry (write_entry t i v m) t' j = read_entry m t' j"
proof -
  have "entry_addr t i \<noteq> entry_addr t' j" using entry_addr_inject assms by blast
  then have "load32 (store32 m (entry_addr t i) v) (entry_addr t' j) = load32 m (entry_addr t' j)"
    using unat_entry_addr(3) assms by (intro load32_store32_other) auto
  then show ?thesis by (simp add: read_entry_def write_entry_def entry_addr_def)
qed

text \<open>Memory outside the page a table lives in is not touched by writes to the table.\<close>

definition same_outside :: "u32 set \<Rightarrow> memory \<Rightarrow> memory \<Rightarrow> bool" where
  "same_outside P m m' \<longleftrightarrow> (\<forall>a. page_base a \<notin> P \<longrightarrow> m' a = m a)"

lemma same_outside_refl [simp]: "same_outside P m m"
  by (simp add: same_outside_def)

lemma same_outside_trans: "same_outside P m m' \<Longrightarrow> same_outside Q m' m'' \<Longrightarrow> same_outside (P \<union> Q) m m''"
  by (simp add: same_outside_def)

lemma same_outside_mono: "same_outside P m m' \<Longrightarrow> P \<subseteq> Q \<Longrightarrow> same_outside Q m m'"
  by (auto simp: same_outside_def)

lemma entry_byte_page:
  assumes "page t" "unat i < 1024" "k < 4"
  shows "page_base (entry_addr t i + of_nat k) = t"
proof -
  have "entry_addr t i + of_nat k = t + of_nat (4 * unat i + k)"
    by (simp add: entry_addr_of_nat add.assoc)
  moreover have "4 * unat i + k < 4096" using assms by simp
  ultimately show ?thesis using unat_in_page(2) [OF assms(1)] by metis
qed

lemma write_entry_outside:
  assumes "page t" "unat i < 1024"
  shows "same_outside {t} m (write_entry t i v m)"
proof -
  have "a \<noteq> entry_addr t i + of_nat k" if "page_base a \<noteq> t" "k < 4" for a k
    using entry_byte_page [OF assms that(2)] that(1) by auto
  from this [of _ 0] this [of _ 1] this [of _ 2] this [of _ 3] show ?thesis
    by (simp add: same_outside_def write_entry_def store32_def entry_addr_def)
qed

lemma read_entry_outside:
  assumes "same_outside P m m'" "page t" "unat i < 1024" "t \<notin> P"
  shows "read_entry m' t i = read_entry m t i"
proof -
  have "m' (entry_addr t i + of_nat k) = m (entry_addr t i + of_nat k)" if "k < 4" for k
    using assms entry_byte_page [OF assms(2,3) that] by (simp add: same_outside_def)
  from this [of 0] this [of 1] this [of 2] this [of 3] show ?thesis
    by (simp add: read_entry_def load32_def entry_addr_def)
qed

text \<open>A loop that writes the entries of one page from values that do not depend on that page.\<close>

lemma unat_index: "i < 1024 \<Longrightarrow> unat (of_nat i :: u32) = i"
  by (simp add: unat_of_nat_u32)

lemma index_of_nat: "unat i < 1024 \<Longrightarrow> \<exists>k < 1024. i = of_nat k" for i :: u32
  by (rule exI [of _ "unat i"]) simp

lemma fill_page:
  assumes t: "page t" and k: "k \<le> 1024"
    and g: "\<And>i m'. i < 1024 \<Longrightarrow> same_outside {t} m m' \<Longrightarrow> g i m' = G i"
  defines "m' \<equiv> fold (\<lambda>i m. write_entry t (of_nat i) (g i m) m) [0..<k] m"
  shows "same_outside {t} m m' \<and> (\<forall>i < 1024. read_entry m' t (of_nat i) = (if i < k then G i else read_entry m t (of_nat i)))"
  using k unfolding m'_def
proof (induction k)
  case 0
  then show ?case by simp
next
  case (Suc k)
  let ?F = "fold (\<lambda>i m. write_entry t (of_nat i) (g i m) m) [0..<k] m"
  from Suc have ih: "same_outside {t} m ?F"
    "\<And>i. i < 1024 \<Longrightarrow> read_entry ?F t (of_nat i) = (if i < k then G i else read_entry m t (of_nat i))"
    and k: "k < 1024" by auto
  have F: "fold (\<lambda>i m. write_entry t (of_nat i) (g i m) m) [0..<Suc k] m = write_entry t (of_nat k) (G k) ?F"
    using g [OF k ih(1)] by simp
  have out: "same_outside {t} m (write_entry t (of_nat k) (G k) ?F)"
    using same_outside_trans [OF ih(1) write_entry_outside [OF t, of "of_nat k"]] unat_index [OF k] k by simp
  have "read_entry (write_entry t (of_nat k) (G k) ?F) t (of_nat i)
      = (if i < Suc k then G i else read_entry m t (of_nat i))" if i: "i < 1024" for i
  proof (cases "i = k")
    case True
    then show ?thesis by simp
  next
    case False
    then have "(of_nat k :: u32) \<noteq> of_nat i" using unat_index [OF i] unat_index [OF k] by metis
    then have "read_entry (write_entry t (of_nat k) (G k) ?F) t (of_nat i) = read_entry ?F t (of_nat i)"
      using t i k by (intro read_write_entry_other) (simp_all only: unat_index, simp)
    with False show ?thesis using ih(2) [OF i] by auto
  qed
  with out show ?case unfolding F by blast
qed

lemma clear_table_entries:
  assumes "page t"
  shows "same_outside {t} (phys_mem s) (phys_mem (clear_table t s))"
    and "unat i < 1024 \<Longrightarrow> read_entry (phys_mem (clear_table t s)) t i = 0"
  using fill_page [OF assms, of 1024 "phys_mem s" "\<lambda>_ _. 0" "\<lambda>_. 0"] index_of_nat [of i]
  by (auto simp: clear_table_def)

lemma clone_table_entries:
  assumes "page newtbl" "page orig" "newtbl \<noteq> orig"
  shows "same_outside {newtbl} m (clone_table orig newtbl m)"
    and "unat i < 1024 \<Longrightarrow> read_entry (clone_table orig newtbl m) newtbl i = read_entry m orig i OR PTE_USER"
proof -
  have read: "read_entry m' orig (of_nat i) OR PTE_USER = read_entry m orig (of_nat i) OR PTE_USER"
    if "i < 1024" "same_outside {newtbl} m m'" for i m'
    using read_entry_outside [OF that(2) assms(2)] that(1) assms(3) by (simp add: unat_index)
  have *: "same_outside {newtbl} m (clone_table orig newtbl m) \<and> (\<forall>i < 1024.
      read_entry (clone_table orig newtbl m) newtbl (of_nat i)
        = (if i < 1024 then read_entry m orig (of_nat i) OR PTE_USER else read_entry m newtbl (of_nat i)))"
    unfolding clone_table_def by (rule fill_page [OF assms(1) order_refl]) (rule read)
  then show "same_outside {newtbl} m (clone_table orig newtbl m)" by blast
  assume "unat i < 1024"
  then obtain k where "k < 1024" "i = of_nat k" using index_of_nat by blast
  with * show "read_entry (clone_table orig newtbl m) newtbl i = read_entry m orig i OR PTE_USER"
    by simp
qed

subsection \<open>Entries: a page and its flags\<close>

lemma bit_page_base: "bit (page_base a) n \<longleftrightarrow> bit a n \<and> 12 \<le> n"
proof -
  have m: "(0xFFF :: u32) = mask 12" by (simp add: mask_eq_exp_minus_1)
  have "bit (page_base a) n \<longleftrightarrow> bit a n \<and> bit (NOT (mask 12) :: u32) n"
    unfolding page_base_def m by (simp add: bit_and_iff)
  also have "\<dots> \<longleftrightarrow> bit a n \<and> 12 \<le> n"
    using bit_imp_le_length [of a n] by (auto simp: bit_simps)
  finally show ?thesis .
qed

lemma bit_page: "page t \<Longrightarrow> n < 12 \<Longrightarrow> \<not> bit t n"
  using bit_page_base [of t n] by (simp add: page_def)

lemma bit_flags: "page_base f = 0 \<Longrightarrow> bit f n \<Longrightarrow> n < 12"
  using bit_page_base [of f n] by (metis bit_0_eq bot_apply bot_bool_def not_less)

lemma page_base_or: "page t \<Longrightarrow> page_base f = 0 \<Longrightarrow> page_base (t OR f) = t"
proof (rule bit_word_eqI)
  fix n
  assume t: "page t" and f: "page_base f = 0"
  show "bit (page_base (t OR f)) n \<longleftrightarrow> bit t n"
    unfolding bit_page_base bit_or_iff using bit_page [OF t, of n] bit_flags [OF f, of n]
    by (cases "n < 12") auto
qed

lemma page_base_or_dist: "page_base (x OR y) = page_base x OR page_base y"
  by (rule bit_word_eqI) (auto simp: bit_page_base bit_or_iff)

lemma page_base_flag [simp]: "page_base PTE_PRESENT = 0" "page_base PTE_WRITABLE = 0" "page_base PTE_USER = 0"
  by (simp_all add: word_unat_eq_iff unat_page_base PTE_PRESENT_def PTE_WRITABLE_def PTE_USER_def)

lemma page_base_small: "unat f < 4096 \<Longrightarrow> page_base f = 0"
  by (simp add: word_unat_eq_iff unat_page_base)

lemma present_bit: "present e \<longleftrightarrow> bit e 0"
  by (simp add: present_def PTE_PRESENT_def and_one_eq bit_0 odd_iff_mod_2_eq_one)

lemma present_or [simp]: "present (x OR y) \<longleftrightarrow> present x \<or> present y"
  by (simp add: present_bit bit_or_iff)

lemma present_PTE [simp]: "present PTE_PRESENT" "\<not> present PTE_USER" "\<not> present PTE_WRITABLE" "\<not> present 0"
  by (simp_all add: present_def PTE_PRESENT_def PTE_USER_def PTE_WRITABLE_def)

subsection \<open>Indices of an address\<close>

lemma unat_pde_index: "unat (pde_index v) = unat v div 4194304"
  by (simp add: pde_index_def unat_drop_bit)

lemma unat_pte_index: "unat (pte_index v) = unat v div 4096 mod 1024"
proof -
  have "pte_index v = drop_bit 12 v mod 1024"
    using take_bit_eq_mask [of 10 "drop_bit 12 v"]
    by (simp add: pte_index_def mask_eq_exp_minus_1 take_bit_eq_mod del: drop_bit_eq_div)
  then show ?thesis by (simp add: unat_mod_distrib unat_drop_bit del: drop_bit_eq_div)
qed

lemma index_bounds [simp]: "unat (pde_index v) < 1024" "unat (pte_index v) < 1024"
proof -
  have "unat v < 4194304 * 1024" using unat_u32_less [of v] by simp
  then show "unat (pde_index v) < 1024" by (simp add: unat_pde_index less_mult_imp_div_less)
qed (simp add: unat_pte_index)

lemma same_page_iff:
  "page_base v = page_base w \<longleftrightarrow> pde_index v = pde_index w \<and> pte_index v = pte_index w"
proof -
  have d: "n div 4194304 = n div 4096 div 1024" for n :: nat
    using div_mult2_eq [of n 4096 1024] by simp
  have split: "a = b \<longleftrightarrow> a div 1024 = b div 1024 \<and> a mod 1024 = b mod 1024" for a b :: nat
    by (metis div_mult_mod_eq)
  have "page_base v = page_base w \<longleftrightarrow> unat v div 4096 = unat w div 4096"
    by (simp add: word_unat_eq_iff unat_page_base)
  also have "\<dots> \<longleftrightarrow> unat v div 4194304 = unat w div 4194304
      \<and> unat v div 4096 mod 1024 = unat w div 4096 mod 1024"
    unfolding d by (rule split)
  finally show ?thesis by (simp add: word_unat_eq_iff unat_pde_index unat_pte_index)
qed

subsection \<open>Fields an operation leaves alone\<close>

lemma set_entry_fields [simp]:
  "phys_mem (set_entry t i v s) = write_entry t i v (phys_mem s)"
  "free_addrs (set_entry t i v s) = free_addrs s"
  "free_set (set_entry t i v s) = free_set s"
  "pmm_wf (set_entry t i v s) = pmm_wf s"
  "g_kernel_dir (set_entry t i v s) = g_kernel_dir s"
  by (simp_all add: set_entry_def free_addrs_def free_set_def pmm_wf_def)

lemma clear_table_fields [simp]:
  "free_addrs (clear_table t s) = free_addrs s" "free_set (clear_table t s) = free_set s"
  "pmm_wf (clear_table t s) = pmm_wf s" "g_kernel_dir (clear_table t s) = g_kernel_dir s"
  by (simp_all add: clear_table_def free_addrs_def free_set_def pmm_wf_def)

lemma tlb_flush_fields [simp]:
  "phys_mem (tlb_flush v s) = phys_mem s" "free_addrs (tlb_flush v s) = free_addrs s"
  "free_set (tlb_flush v s) = free_set s" "pmm_wf (tlb_flush v s) = pmm_wf s"
  "g_kernel_dir (tlb_flush v s) = g_kernel_dir s"
  by (simp_all add: tlb_flush_def free_addrs_def free_set_def pmm_wf_def)

lemma phys_mem_update_fields [simp]:
  "free_addrs (s\<lparr>phys_mem := m\<rparr>) = free_addrs s" "free_set (s\<lparr>phys_mem := m\<rparr>) = free_set s"
  "pmm_wf (s\<lparr>phys_mem := m\<rparr>) = pmm_wf s"
  by (simp_all add: free_addrs_def free_set_def pmm_wf_def)

lemma kernel_dir_update_fields [simp]:
  "free_addrs (s\<lparr>g_kernel_dir := d\<rparr>) = free_addrs s" "free_set (s\<lparr>g_kernel_dir := d\<rparr>) = free_set s"
  "pmm_wf (s\<lparr>g_kernel_dir := d\<rparr>) = pmm_wf s"
  by (simp_all add: free_addrs_def free_set_def pmm_wf_def)

lemma alloc_keeps_memory [simp]:
  "phys_mem (snd (pmm_alloc_frame s)) = phys_mem s"
  "g_kernel_dir (snd (pmm_alloc_frame t)) = g_kernel_dir t"
  by (simp_all add: pmm_alloc_frame_def split: option.split)

text \<open>A frame the allocator has just returned.\<close>

lemma new_frame:
  assumes "pmm_wf s" "fst (pmm_alloc_frame s) = t" "t \<noteq> 0"
  shows "page t" "t \<in> free_addrs s" "free_addrs (snd (pmm_alloc_frame s)) = free_addrs s - {t}"
    "pmm_wf (snd (pmm_alloc_frame s))"
  using assms pmm_alloc.alloc_aligned pmm_alloc.alloc_member pmm_alloc.alloc_removes pmm_alloc_wf
  by (auto simp: page_aligned_page)

subsection \<open>A well-formed directory\<close>

text \<open>
  The tables of a directory are pages of their own: none is free, none is the directory, no two
  directory entries share one. (\<open>F\<close> are the free frames' addresses.)
\<close>

definition pde_at :: "memory \<Rightarrow> u32 \<Rightarrow> u32 \<Rightarrow> bool" where
  "pde_at m d i \<longleftrightarrow> unat i < 1024 \<and> present (read_entry m d i)"

definition table_of :: "memory \<Rightarrow> u32 \<Rightarrow> u32 \<Rightarrow> u32" where
  "table_of m d i = page_base (read_entry m d i)"

definition dir_ok :: "memory \<Rightarrow> u32 set \<Rightarrow> u32 \<Rightarrow> bool" where
  "dir_ok m F d \<longleftrightarrow> page d \<and> d \<notin> F \<and> d \<noteq> 0
     \<and> (\<forall>i. pde_at m d i \<longrightarrow> table_of m d i \<notin> F \<and> table_of m d i \<noteq> d \<and> table_of m d i \<noteq> 0)
     \<and> (\<forall>i j. pde_at m d i \<and> pde_at m d j \<and> i \<noteq> j \<longrightarrow> table_of m d i \<noteq> table_of m d j)"

lemma page_walk_eq:
  "page_walk m d v =
     (if pde_at m d (pde_index v) \<and> present (read_entry m (table_of m d (pde_index v)) (pte_index v))
      then Some (read_entry m d (pde_index v), read_entry m (table_of m d (pde_index v)) (pte_index v))
      else None)"
  by (simp add: page_walk_def pde_at_def table_of_def Let_def)

subsection \<open>Mapping one page\<close>

text \<open>\<open>vmm_map_page\<close> when the address's table exists, and when it has to be allocated.\<close>

definition pde_flags :: "u32 \<Rightarrow> u32" where
  "pde_flags flags = (if flags AND PTE_USER \<noteq> 0
     then if flags AND PTE_WRITABLE \<noteq> 0 then PTE_USER OR PTE_WRITABLE else PTE_USER else 0)"

definition new_pte :: "u32 \<Rightarrow> u32 \<Rightarrow> u32" where
  "new_pte phys flags = page_base phys OR flags OR PTE_PRESENT"

text \<open>
  \<open>page_mapped m F d v phys flags t m' F'\<close>: memory \<open>m\<close> with free frames \<open>F\<close> has become \<open>m'\<close> with
  \<open>F'\<close> by one page of directory \<open>d\<close> being mapped through table \<open>t\<close>.
\<close>

definition page_mapped :: "memory \<Rightarrow> u32 set \<Rightarrow> u32 \<Rightarrow> u32 \<Rightarrow> u32 \<Rightarrow> u32 \<Rightarrow> u32 \<Rightarrow> memory \<Rightarrow> u32 set \<Rightarrow> bool" where
  "page_mapped m F d v phys flags t m' F' \<longleftrightarrow>
     page t \<and> t \<noteq> d \<and> t \<noteq> 0
     \<and> (if pde_at m d (pde_index v) then t = table_of m d (pde_index v) \<and> F' = F
        else t \<in> F \<and> F' = F - {t})
     \<and> read_entry m' d (pde_index v) =
         (if pde_at m d (pde_index v) then read_entry m d (pde_index v) OR pde_flags flags
          else t OR (flags OR PTE_PRESENT OR PTE_WRITABLE) OR PTE_PRESENT)
     \<and> (\<forall>i. unat i < 1024 \<and> i \<noteq> pde_index v \<longrightarrow> read_entry m' d i = read_entry m d i)
     \<and> read_entry m' t (pte_index v) = new_pte phys flags
     \<and> (\<forall>j. unat j < 1024 \<and> j \<noteq> pte_index v \<longrightarrow>
          read_entry m' t j = (if pde_at m d (pde_index v) then read_entry m t j else 0))
     \<and> same_outside {d, t} m m'"

lemma read_write_entries:
  assumes "page d" "page t" "d \<noteq> t" "unat i < 1024" "unat j < 1024"
  shows "read_entry (write_entry t j y (write_entry d i x m)) d i = x"
    and "unat k < 1024 \<Longrightarrow> k \<noteq> i \<Longrightarrow>
      read_entry (write_entry t j y (write_entry d i x m)) d k = read_entry m d k"
    and "unat k < 1024 \<Longrightarrow> k \<noteq> j \<Longrightarrow>
      read_entry (write_entry t j y (write_entry d i x m)) t k = read_entry m t k"
    and "same_outside {d, t} m (write_entry t j y (write_entry d i x m))"
proof -
  note o = read_write_entry_other
  show "read_entry (write_entry t j y (write_entry d i x m)) d i = x"
    using o [of t d j i] assms by simp
  show "read_entry (write_entry t j y (write_entry d i x m)) d k = read_entry m d k"
    if "unat k < 1024" "k \<noteq> i"
    using o [of t d j k] o [of d d i k] assms that by simp
  show "read_entry (write_entry t j y (write_entry d i x m)) t k = read_entry m t k"
    if "unat k < 1024" "k \<noteq> j"
    using o [of t t j k] o [of d t i k] assms that by simp
  show "same_outside {d, t} m (write_entry t j y (write_entry d i x m))"
    using same_outside_trans [OF write_entry_outside [of d i m x] write_entry_outside [of t j _ y]] assms
    by (simp add: insert_commute)
qed

lemma page_base_0 [simp]: "page_base 0 = 0"
  by (rule page_base_small) simp

lemma write_entry_same: "write_entry d i y (write_entry d i x m) = write_entry d i y m"
  by (simp add: write_entry_def store32_def fun_eq_iff)

lemma page_base_pde_flags [simp]: "page_base (pde_flags flags) = 0" "\<not> present (pde_flags flags)"
  by (simp_all add: pde_flags_def page_base_or_dist)

text \<open>The adjustment of an existing directory entry that precedes the table lookup.\<close>

definition raise_pde :: "u32 \<Rightarrow> u32 \<Rightarrow> u32 \<Rightarrow> 'a vmm_scheme \<Rightarrow> 'a vmm_scheme" where
  "raise_pde d pdi flags s =
     (if present (read_entry (phys_mem s) d pdi) \<and> flags AND PTE_USER \<noteq> 0 then
        let s = set_entry d pdi (read_entry (phys_mem s) d pdi OR PTE_USER) s
        in if flags AND PTE_WRITABLE \<noteq> 0
           then set_entry d pdi (read_entry (phys_mem s) d pdi OR PTE_WRITABLE) s else s
      else s)"

lemma raise_pde_cases:
  "raise_pde d pdi flags s = s \<and> pde_flags flags = 0
   \<or> raise_pde d pdi flags s = s \<and> \<not> present (read_entry (phys_mem s) d pdi)
   \<or> phys_mem (raise_pde d pdi flags s) = write_entry d pdi (read_entry (phys_mem s) d pdi OR pde_flags flags) (phys_mem s)"
  by (auto simp: raise_pde_def pde_flags_def Let_def write_entry_same or.assoc)

lemma raise_pde_fields [simp]:
  "free_addrs (raise_pde d pdi flags s) = free_addrs s" "pmm_wf (raise_pde d pdi flags s) = pmm_wf s"
  "free_set (raise_pde d pdi flags s) = free_set s" "g_kernel_dir (raise_pde d pdi flags s) = g_kernel_dir s"
  by (simp_all add: raise_pde_def Let_def)

lemma map_page_unfold:
  "vmm_map_page dir virt phys flags s =
     (let (table, s) = get_or_create_table dir (pde_index virt) (flags OR PTE_PRESENT OR PTE_WRITABLE)
                         (raise_pde dir (pde_index virt) flags s)
      in if table = 0 then s
         else tlb_flush virt (set_entry table (pte_index virt) (new_pte phys flags) s))"
  unfolding new_pte_def by (simp add: vmm_map_page_def raise_pde_def Let_def)

lemma page_mapped_presentI:
  assumes "pde_at m d (pde_index v)" "t = table_of m d (pde_index v)" "F' = F"
    "page t" "t \<noteq> d" "t \<noteq> 0"
    "read_entry m' d (pde_index v) = read_entry m d (pde_index v) OR pde_flags flags"
    "\<And>i. unat i < 1024 \<Longrightarrow> i \<noteq> pde_index v \<Longrightarrow> read_entry m' d i = read_entry m d i"
    "read_entry m' t (pte_index v) = new_pte phys flags"
    "\<And>j. unat j < 1024 \<Longrightarrow> j \<noteq> pte_index v \<Longrightarrow> read_entry m' t j = read_entry m t j"
    "same_outside {d, t} m m'"
  shows "page_mapped m F d v phys flags t m' F'"
  unfolding page_mapped_def by (intro conjI allI impI) (use assms in simp_all)

lemma page_mapped_absentI:
  assumes "\<not> pde_at m d (pde_index v)" "t \<in> F" "F' = F - {t}"
    "page t" "t \<noteq> d" "t \<noteq> 0"
    "read_entry m' d (pde_index v) = t OR (flags OR PTE_PRESENT OR PTE_WRITABLE) OR PTE_PRESENT"
    "\<And>i. unat i < 1024 \<Longrightarrow> i \<noteq> pde_index v \<Longrightarrow> read_entry m' d i = read_entry m d i"
    "read_entry m' t (pte_index v) = new_pte phys flags"
    "\<And>j. unat j < 1024 \<Longrightarrow> j \<noteq> pte_index v \<Longrightarrow> read_entry m' t j = 0"
    "same_outside {d, t} m m'"
  shows "page_mapped m F d v phys flags t m' F'"
  unfolding page_mapped_def by (intro conjI allI impI) (use assms in simp_all)

lemma map_page_present:
  assumes ok: "dir_ok (phys_mem s) (free_addrs s) d" and here: "pde_at (phys_mem s) d (pde_index v)"
    and flags: "page_base flags = 0"
  shows "page_mapped (phys_mem s) (free_addrs s) d v phys flags (table_of (phys_mem s) d (pde_index v))
    (phys_mem (vmm_map_page d v phys flags s)) (free_addrs (vmm_map_page d v phys flags s))"
proof -
  let ?m = "phys_mem s" and ?i = "pde_index v" and ?j = "pte_index v"
  let ?t = "table_of ?m d ?i" and ?pde = "read_entry ?m d ?i OR pde_flags flags"
  let ?s = "raise_pde d ?i flags s"
  from ok here have t: "page ?t" "?t \<noteq> d" "?t \<noteq> 0" "page d" by (auto simp: dir_ok_def table_of_def)
  have p: "present (read_entry ?m d ?i)" using here by (simp add: pde_at_def)
  have raised: "read_entry (phys_mem ?s) d ?i = ?pde
      \<and> (phys_mem ?s = ?m \<or> phys_mem ?s = write_entry d ?i ?pde ?m)"
    using raise_pde_cases [of d ?i flags s] p by auto
  then have "present (read_entry (phys_mem ?s) d ?i)" "page_base (read_entry (phys_mem ?s) d ?i) = ?t"
    using p by (simp_all add: page_base_or_dist table_of_def)
  then have goc: "get_or_create_table d ?i f ?s = (?t, ?s)" for f
    by (simp add: get_or_create_table_def)
  have m': "phys_mem (vmm_map_page d v phys flags s) = write_entry ?t ?j (new_pte phys flags) (phys_mem ?s)"
    and F': "free_addrs (vmm_map_page d v phys flags s) = free_addrs s"
    using t by (simp_all add: map_page_unfold goc)
  note same = read_write_entry_other [of ?t _ ?j]
  from raised show ?thesis
  proof (elim conjE disjE)
    assume eq: "phys_mem ?s = ?m" and r: "read_entry (phys_mem ?s) d ?i = ?pde"
    have "same_outside {?t} ?m (write_entry ?t ?j (new_pte phys flags) ?m)"
      using t by (simp add: write_entry_outside)
    then have out: "same_outside {d, ?t} ?m (write_entry ?t ?j (new_pte phys flags) ?m)"
      by (rule same_outside_mono) simp
    have d: "read_entry (write_entry ?t ?j (new_pte phys flags) ?m) d i = read_entry ?m d i"
      if "unat i < 1024" for i
      by (rule same) (use t that in auto)
    show ?thesis
      unfolding m' F' eq
    proof (rule page_mapped_presentI [OF here refl refl t(1,2,3) _ d read_write_entry _ out])
      show "read_entry (write_entry ?t ?j (new_pte phys flags) ?m) d ?i = ?pde"
        unfolding d [OF index_bounds(1)] using r unfolding eq .
      show "read_entry (write_entry ?t ?j (new_pte phys flags) ?m) ?t k = read_entry ?m ?t k"
        if "unat k < 1024" "k \<noteq> ?j" for k
        by (rule same) (use t that in auto)
    qed
  next
    assume eq: "phys_mem ?s = write_entry d ?i ?pde ?m"
    note rw = read_write_entries [where d = d and t = ?t and i = ?i and j = ?j and y = "new_pte phys flags" and x = ?pde and m = ?m,
        OF t(4,1) t(2) [symmetric] index_bounds]
    show ?thesis
      unfolding m' F' eq
      by (rule page_mapped_presentI [OF here refl refl t(1,2,3) rw(1) rw(2) read_write_entry rw(3) rw(4)])
  qed
qed

lemma map_page_absent:
  assumes ok: "dir_ok (phys_mem s) (free_addrs s) d" and gone: "\<not> pde_at (phys_mem s) d (pde_index v)"
    and flags: "page_base flags = 0" and wf: "pmm_wf s" and room: "free_addrs s \<noteq> {}"
  shows "page_mapped (phys_mem s) (free_addrs s) d v phys flags (fst (pmm_alloc_frame s))
    (phys_mem (vmm_map_page d v phys flags s)) (free_addrs (vmm_map_page d v phys flags s))"
proof -
  let ?m = "phys_mem s" and ?i = "pde_index v" and ?j = "pte_index v"
  let ?t = "fst (pmm_alloc_frame s)" and ?a = "snd (pmm_alloc_frame s)"
  let ?f = "flags OR PTE_PRESENT OR PTE_WRITABLE"
  let ?pde = "?t OR ?f OR PTE_PRESENT"
  have np: "\<not> present (read_entry ?m d ?i)" using gone by (simp add: pde_at_def)
  have nz: "?t \<noteq> 0" using pmm_alloc.alloc_zero [OF wf] room by simp
  note t = new_frame [OF wf refl nz]
  have d: "page d" "d \<noteq> ?t" using ok t(2) by (auto simp: dir_ok_def)
  have raised: "raise_pde d ?i flags s = s" using np by (simp add: raise_pde_def)
  let ?c = "clear_table ?t ?a"
  note c = clear_table_entries [OF t(1), where s = ?a]
  have goc: "get_or_create_table d ?i ?f s = (?t, set_entry d ?i ?pde ?c)"
    using np nz by (simp add: get_or_create_table_def split_beta Let_def)
  have m': "phys_mem (vmm_map_page d v phys flags s)
      = write_entry ?t ?j (new_pte phys flags) (write_entry d ?i ?pde (phys_mem ?c))"
    and F': "free_addrs (vmm_map_page d v phys flags s) = free_addrs s - {?t}"
    using nz t(3) by (simp_all add: map_page_unfold raised goc)
  note rw = read_write_entries [where d = d and t = ?t and i = ?i and j = ?j
    and y = "new_pte phys flags" and x = ?pde and m = "phys_mem ?c",
      OF d(1) t(1) d(2) index_bounds]
  have dc: "read_entry (phys_mem ?c) d k = read_entry ?m d k" if "unat k < 1024" for k
    using read_entry_outside [OF c(1) d(1) that] d(2) by simp
  have out: "same_outside {d, ?t} ?m (write_entry ?t ?j (new_pte phys flags) (write_entry d ?i ?pde (phys_mem ?c)))"
    using same_outside_trans [OF c(1) rw(4)] d t(1) by (simp add: insert_commute)
  show ?thesis
    unfolding m' F'
  proof (rule page_mapped_absentI [OF gone t(2) refl t(1) d(2) [symmetric] nz rw(1) _ read_write_entry _ out])
    let ?m' = "write_entry ?t ?j (new_pte phys flags) (write_entry d ?i ?pde (phys_mem ?c))"
    show "read_entry ?m' d k = read_entry ?m d k" if "unat k < 1024" "k \<noteq> ?i" for k
      using rw(2) [OF that] dc [OF that(1)] by (rule trans)
    show "read_entry ?m' ?t k = 0" if "unat k < 1024" "k \<noteq> ?j" for k
      using rw(3) [OF that] c(2) [OF that(1)] by (rule trans)
  qed
qed

text \<open>What mapping a page does to the directory as a whole.\<close>

lemma page_mappedD:
  assumes pm: "page_mapped m F d v phys flags t m' F'" and ok: "dir_ok m F d" and flags: "page_base flags = 0"
  shows "pde_at m' d i \<longleftrightarrow> pde_at m d i \<or> i = pde_index v" (is ?at)
    and "table_of m' d (pde_index v) = t"
    and "pde_at m d i \<Longrightarrow> i \<noteq> pde_index v \<Longrightarrow> read_entry m' d i = read_entry m d i
      \<and> table_of m d i \<noteq> t
      \<and> (unat j < 1024 \<longrightarrow> read_entry m' (table_of m d i) j = read_entry m (table_of m d i) j)"
    and "F' \<subseteq> F"
proof -
  from pm have t: "page t" "t \<noteq> d" "t \<noteq> 0" and out: "same_outside {d, t} m m'"
    and other: "\<And>i. unat i < 1024 \<Longrightarrow> i \<noteq> pde_index v \<Longrightarrow> read_entry m' d i = read_entry m d i"
    by (auto simp: page_mapped_def)
  have base: "table_of m' d (pde_index v) = t \<and> present (read_entry m' d (pde_index v))"
  proof (cases "pde_at m d (pde_index v)")
    case True
    with pm have "read_entry m' d (pde_index v) = read_entry m d (pde_index v) OR pde_flags flags"
      "t = table_of m d (pde_index v)"
      by (simp_all add: page_mapped_def)
    with True show ?thesis by (simp add: table_of_def pde_at_def page_base_or_dist)
  next
    case False
    with pm have "read_entry m' d (pde_index v) = t OR (flags OR PTE_PRESENT OR PTE_WRITABLE) OR PTE_PRESENT"
      by (simp add: page_mapped_def)
    with t(1) flags show ?thesis by (simp add: table_of_def page_base_or_dist page_def)
  qed
  then show "table_of m' d (pde_index v) = t" by simp
  show ?at
    using base other [of i] by (cases "i = pde_index v") (auto simp: pde_at_def)
  show "F' \<subseteq> F" using pm by (auto simp: page_mapped_def split: if_splits)
  show "read_entry m' d i = read_entry m d i \<and> table_of m d i \<noteq> t
      \<and> (unat j < 1024 \<longrightarrow> read_entry m' (table_of m d i) j = read_entry m (table_of m d i) j)"
    if at: "pde_at m d i" and i: "i \<noteq> pde_index v"
  proof -
    have "table_of m d i \<noteq> t \<and> table_of m d i \<noteq> d"
      using pm ok at i unfolding page_mapped_def dir_ok_def by metis
    moreover have "page (table_of m d i)" by (simp add: table_of_def)
    ultimately show ?thesis
      using other [of i] i at read_entry_outside [OF out, of "table_of m d i" j] by (simp add: pde_at_def)
  qed
qed

lemma page_mapped_dir_ok:
  assumes pm: "page_mapped m F d v phys flags t m' F'" and ok: "dir_ok m F d" and flags: "page_base flags = 0"
  shows "dir_ok m' F' d"
proof -
  note D = page_mappedD [OF pm ok flags]
  from pm have t: "page t" "t \<noteq> d" "t \<noteq> 0" by (auto simp: page_mapped_def)
  have tF: "t \<notin> F'"
    using pm ok by (auto simp: page_mapped_def dir_ok_def split: if_splits)
  have tab: "table_of m' d i = (if i = pde_index v then t else table_of m d i)" if "pde_at m' d i" for i
    using D(1) [of i] D(2) D(3) [of i] that by (auto simp: table_of_def)
  have "table_of m' d i \<notin> F' \<and> table_of m' d i \<noteq> d \<and> table_of m' d i \<noteq> 0" if "pde_at m' d i" for i
    using tab [OF that] D(1) [of i] D(4) that ok t tF by (auto simp: dir_ok_def)
  moreover have "table_of m' d i \<noteq> table_of m' d j" if "pde_at m' d i" "pde_at m' d j" "i \<noteq> j" for i j
  proof -
    have "pde_at m d k \<and> table_of m d k \<noteq> t" if "pde_at m' d k" "k \<noteq> pde_index v" for k
      using D(1) [of k] D(3) [of k] that by blast
    note K = this and ij = that
    consider "i = pde_index v" "j \<noteq> pde_index v" | "i \<noteq> pde_index v" "j = pde_index v"
      | "i \<noteq> pde_index v" "j \<noteq> pde_index v" using ij(3) by blast
    then show ?thesis
    proof cases
      case 1
      with tab [OF that(1)] tab [OF that(2)] K [OF that(2)] show ?thesis by metis
    next
      case 2
      with tab [OF that(1)] tab [OF that(2)] K [OF that(1)] show ?thesis by metis
    next
      case 3
      with tab [OF that(1)] tab [OF that(2)] K [OF that(1)] K [OF that(2)] that(3) ok
      show ?thesis by (simp add: dir_ok_def)
    qed
  qed
  moreover have "page d" "d \<notin> F'" "d \<noteq> 0" using ok D(4) by (auto simp: dir_ok_def)
  ultimately show ?thesis by (simp add: dir_ok_def)
qed

lemma page_mapped_walk:
  assumes pm: "page_mapped m F d v phys flags t m' F'" and ok: "dir_ok m F d" and flags: "page_base flags = 0"
  shows "page_base w = page_base v \<Longrightarrow> page_walk m' d w = Some (read_entry m' d (pde_index v), new_pte phys flags)"
    and "page_base w \<noteq> page_base v \<Longrightarrow> pde_index w \<noteq> pde_index v \<Longrightarrow> page_walk m' d w = page_walk m d w"
    and "page_base w \<noteq> page_base v \<Longrightarrow> pde_index w = pde_index v \<Longrightarrow>
      page_walk m' d w = map_option (\<lambda>(pde, pte). (read_entry m' d (pde_index v), pte)) (page_walk m d w)"
proof -
  note D = page_mappedD [OF pm ok flags]
  have pte: "read_entry m' t (pte_index v) = new_pte phys flags" "present (new_pte phys flags)"
    using pm by (simp_all add: page_mapped_def new_pte_def)
  show "page_walk m' d w = Some (read_entry m' d (pde_index v), new_pte phys flags)"
    if "page_base w = page_base v"
    using that D(1) [of "pde_index w"] D(2) pte by (simp add: same_page_iff page_walk_eq)
  show "page_walk m' d w = page_walk m d w" if i: "pde_index w \<noteq> pde_index v"
  proof (cases "pde_at m d (pde_index w)")
    case True
    have "table_of m' d (pde_index w) = table_of m d (pde_index w)"
      using D(3) [OF True i] by (simp add: table_of_def)
    then show ?thesis
      using D(1) [of "pde_index w"] D(3) [OF True i, of "pte_index w"] True by (simp add: page_walk_eq)
  next
    case False
    then have "\<not> pde_at m' d (pde_index w)" using D(1) i by blast
    with False show ?thesis by (simp add: page_walk_eq)
  qed
  assume other: "page_base w \<noteq> page_base v" and i: "pde_index w = pde_index v"
  then have j: "pte_index w \<noteq> pte_index v" by (simp add: same_page_iff)
  have at': "pde_at m' d (pde_index w)" using D(1) i by blast
  have read: "read_entry m' t (pte_index w) = (if pde_at m d (pde_index v) then read_entry m t (pte_index w) else 0)"
    using pm j by (simp add: page_mapped_def)
  show "page_walk m' d w = map_option (\<lambda>(pde, pte). (read_entry m' d (pde_index v), pte)) (page_walk m d w)"
  proof (cases "pde_at m d (pde_index v)")
    case True
    with pm have "t = table_of m d (pde_index v)" by (simp add: page_mapped_def)
    with True read at' show ?thesis by (simp add: page_walk_eq i D(2))
  next
    case False
    with read at' show ?thesis by (simp add: page_walk_eq i D(2))
  qed
qed

lemma page_mapped_old_pte:
  assumes "page_mapped m F d v phys flags t m' F'" "dir_ok m F d" "page_base flags = 0"
    and "page_base w \<noteq> page_base v" "page_walk m' d w = Some (pde, pte)"
  shows "\<exists>pde. page_walk m d w = Some (pde, pte)"
proof (cases "pde_index w = pde_index v")
  case True
  with page_mapped_walk(3) [OF assms(1,2,3,4)] assms(5) show ?thesis
    by (cases "page_walk m d w") auto
next
  case False
  with page_mapped_walk(2) [OF assms(1,2,3,4)] assms(5) show ?thesis by metis
qed

lemma page_mapped_translate:
  assumes pm: "page_mapped m F d v phys flags t m' F'" and ok: "dir_ok m F d" and flags: "page_base flags = 0"
  shows "translate m' d w = (if page_base w = page_base v then Some (page_base phys OR page_offset w) else translate m d w)"
proof (cases "page_base w = page_base v")
  case True
  have "page_base (new_pte phys flags) = page_base phys"
    using page_base_or [of "page_base phys" "flags OR PTE_PRESENT"] flags
    by (simp add: new_pte_def page_base_or_dist or.assoc)
  then show ?thesis
    using True page_mapped_walk(1) [OF assms True] by (simp add: translate_def)
next
  case False
  then show ?thesis
    using page_mapped_walk(2,3) [OF assms False]
    by (cases "pde_index w = pde_index v"; cases "page_walk m d w") (auto simp: translate_def)
qed

lemma map_page_mapped:
  assumes "pmm_wf s" "dir_ok (phys_mem s) (free_addrs s) d" "page_base flags = 0"
    and "pde_at (phys_mem s) d (pde_index v) \<or> free_addrs s \<noteq> {}"
  shows "\<exists>t. page_mapped (phys_mem s) (free_addrs s) d v phys flags t
    (phys_mem (vmm_map_page d v phys flags s)) (free_addrs (vmm_map_page d v phys flags s))"
  using assms map_page_present map_page_absent by blast

lemma map_page_wf [state_inv]:
  assumes "pmm_wf s"
  shows "pmm_wf (vmm_map_page d v phys flags s)"
  using assms
  by (auto simp: map_page_unfold get_or_create_table_def Let_def split_beta pmm_alloc_wf)

lemma map_page_kernel_dir [simp]: "g_kernel_dir (vmm_map_page d v phys flags s) = g_kernel_dir s"
  by (auto simp: map_page_unfold get_or_create_table_def Let_def split_beta)

lemma map_page_out_of_frames:
  assumes "\<not> pde_at (phys_mem s) d (pde_index v)" "pmm_wf s" "free_addrs s = {}"
  shows "vmm_map_page d v phys flags s = s"
proof -
  have "pmm_alloc_frame s = (0, s)"
    using assms(3) by (intro pmm_alloc_empty) (simp add: free_addrs_def)
  moreover have "\<not> present (read_entry (phys_mem s) d (pde_index v))"
    using assms(1) by (simp add: pde_at_def)
  ultimately show ?thesis
    by (simp add: map_page_unfold raise_pde_def get_or_create_table_def)
qed

subsection \<open>Unmapping a page\<close>

lemma unmap_page_walk:
  assumes ok: "dir_ok (phys_mem s) (free_addrs s) d"
  shows "page_walk (phys_mem (vmm_unmap_page d v s)) d w =
    (if page_base w = page_base v then None else page_walk (phys_mem s) d w)"
proof (cases "pde_at (phys_mem s) d (pde_index v)")
  case False
  then have "vmm_unmap_page d v s = s" by (simp add: vmm_unmap_page_def pde_at_def)
  with False show ?thesis by (simp add: page_walk_eq same_page_iff)
next
  case True
  let ?t = "table_of (phys_mem s) d (pde_index v)" and ?m = "phys_mem s"
  let ?m' = "write_entry ?t (pte_index v) 0 ?m"
  have m': "phys_mem (vmm_unmap_page d v s) = ?m'"
    using True by (simp add: vmm_unmap_page_def pde_at_def table_of_def Let_def)
  have t: "page ?t" "?t \<noteq> d" "page d" using ok True by (auto simp: dir_ok_def table_of_def)
  have d: "read_entry ?m' d i = read_entry ?m d i" if "unat i < 1024" for i
    by (rule read_write_entry_other) (use t that in auto)
  then have at: "pde_at ?m' d i = pde_at ?m d i" "unat i < 1024 \<Longrightarrow> table_of ?m' d i = table_of ?m d i" for i
    by (auto simp: pde_at_def table_of_def)
  have other: "read_entry ?m' (table_of ?m d (pde_index w)) (pte_index w)
      = read_entry ?m (table_of ?m d (pde_index w)) (pte_index w)"
    if "page_base w \<noteq> page_base v" "pde_at ?m d (pde_index w)"
  proof (rule read_write_entry_other)
    show "?t \<noteq> table_of ?m d (pde_index w) \<or> pte_index v \<noteq> pte_index w"
      using that True ok unfolding dir_ok_def same_page_iff by metis
  qed (use t in \<open>auto simp: table_of_def\<close>)
  show ?thesis
  proof (cases "page_base w = page_base v")
    case same: True
    then have "pde_index w = pde_index v" "pte_index w = pte_index v" by (auto simp: same_page_iff)
    then show ?thesis unfolding m' using same by (simp add: page_walk_eq at)
  next
    case False
    then show ?thesis
      unfolding m' using other by (cases "pde_at ?m d (pde_index w)") (simp_all add: page_walk_eq at d)
  qed
qed

subsection \<open>The kernel's identity map\<close>

lemma page_split: "page_base w OR page_offset w = w"
proof -
  have "(w AND NOT x) OR (w AND x) = w" for x
    by (rule bit_word_eqI) (auto simp: bit_simps dest: bit_imp_le_length)
  then show ?thesis by (simp only: page_base_def page_offset_def)
qed

lemma page_address:
  assumes "k < 1048576"
  shows "unat (of_nat k * PAGE_SIZE) = 4096 * k"
proof -
  have "of_nat k * PAGE_SIZE = of_nat (4096 * k)" by (simp add: const_defs)
  then show ?thesis using assms unat_of_nat_u32 [of "4096 * k"] by simp
qed

text \<open>The state of the loop after \<open>k\<close> pages, started with \<open>N\<close> free frames.\<close>

definition identity_inv :: "u32 \<Rightarrow> nat \<Rightarrow> nat \<Rightarrow> 'a vmm_scheme \<Rightarrow> bool" where
  "identity_inv d N k s \<longleftrightarrow> pmm_wf s \<and> dir_ok (phys_mem s) (free_addrs s) d
     \<and> (\<forall>i. pde_at (phys_mem s) d i \<longleftrightarrow> 1024 * unat i < k)
     \<and> card (free_addrs s) + (k + 1023) div 1024 = N
     \<and> (\<forall>w. translate (phys_mem s) d w = (if unat w < 4096 * k then Some w else None))
     \<and> (\<forall>w pde pte. page_walk (phys_mem s) d w = Some (pde, pte) \<longrightarrow> pte AND PTE_USER = 0)"

lemma page_and_flags: "page t \<Longrightarrow> page_base f = 0 \<Longrightarrow> t AND f = 0"
proof (rule bit_word_eqI)
  fix n
  assume "page t" "page_base f = 0"
  then show "bit (t AND f) n \<longleftrightarrow> bit (0 :: u32) n"
    using bit_page [of t n] bit_flags [of f n] by (auto simp: bit_and_iff)
qed

lemma kernel_flags_no_user:
  "page t \<Longrightarrow> (t OR (PTE_PRESENT OR PTE_WRITABLE)) AND PTE_USER = 0"
  "page t \<Longrightarrow> (t OR ((PTE_PRESENT OR PTE_WRITABLE) OR PTE_PRESENT OR PTE_WRITABLE) OR PTE_PRESENT) AND PTE_USER = 0"
proof -
  assume "page t"
  then have "t AND PTE_USER = 0" by (rule page_and_flags) simp
  moreover have "PTE_PRESENT AND PTE_USER = 0" "PTE_WRITABLE AND PTE_USER = 0"
    by (simp_all add: PTE_PRESENT_def PTE_WRITABLE_def PTE_USER_def)
  ultimately show "(t OR (PTE_PRESENT OR PTE_WRITABLE)) AND PTE_USER = 0"
    and "(t OR ((PTE_PRESENT OR PTE_WRITABLE) OR PTE_PRESENT OR PTE_WRITABLE) OR PTE_PRESENT) AND PTE_USER = 0"
    by (simp_all add: bit.conj_disj_distrib2)
qed

lemma identity_step:
  assumes inv: "identity_inv d N k s" and k: "k < 32768" and N: "32 \<le> N"
  shows "identity_inv d N (Suc k)
    (vmm_map_page d (of_nat k * PAGE_SIZE) (of_nat k * PAGE_SIZE) (PTE_PRESENT OR PTE_WRITABLE) s)"
proof -
  let ?v = "of_nat k * PAGE_SIZE :: u32" and ?f = "PTE_PRESENT OR PTE_WRITABLE"
  let ?s' = "vmm_map_page d ?v ?v ?f s"
  let ?m = "phys_mem s" and ?m' = "phys_mem ?s'" and ?F = "free_addrs s" and ?F' = "free_addrs ?s'"
  from inv have wf: "pmm_wf s" and ok: "dir_ok ?m ?F d" and at: "\<And>i. pde_at ?m d i \<longleftrightarrow> 1024 * unat i < k"
    and card: "card ?F + (k + 1023) div 1024 = N"
    and tr: "\<And>w. translate ?m d w = (if unat w < 4096 * k then Some w else None)"
    and us: "\<And>w pde pte. page_walk ?m d w = Some (pde, pte) \<Longrightarrow> pte AND PTE_USER = 0"
    by (auto simp: identity_inv_def)
  have v: "unat ?v = 4096 * k" using k by (intro page_address) simp
  have i: "unat (pde_index ?v) = k div 1024" by (simp add: unat_pde_index v)
  have f: "page_base ?f = 0" by (simp add: page_base_or_dist)
  have here: "pde_at ?m d (pde_index ?v) \<longleftrightarrow> k mod 1024 \<noteq> 0"
    unfolding at i by (rule below_block)
  have "pde_at ?m d (pde_index ?v) \<or> ?F \<noteq> {}"
  proof (cases "k mod 1024 = 0")
    case True
    then have "(k + 1023) div 1024 = k div 1024" using blocks_upto [of 1024 k] by simp
    then have "(k + 1023) div 1024 \<le> 31" using k by simp
    then have "card ?F \<noteq> 0" using card N by linarith
    then show ?thesis by auto
  qed (simp add: here)
  then obtain t where pm: "page_mapped ?m ?F d ?v ?v ?f t ?m' ?F'"
    using map_page_mapped [OF wf ok f] by blast
  note D = page_mappedD [OF pm ok f]
  have ok': "dir_ok ?m' ?F' d" by (rule page_mapped_dir_ok [OF pm ok f])
  have at': "pde_at ?m' d j \<longleftrightarrow> 1024 * unat j < Suc k" for j
  proof -
    have "j = pde_index ?v \<longleftrightarrow> unat j = k div 1024" unfolding word_unat_eq_iff i ..
    moreover have "1024 * unat j < Suc k \<longleftrightarrow> 1024 * unat j < k \<or> unat j = k div 1024"
      by (rule next_block) simp
    ultimately show ?thesis unfolding D(1) at by simp
  qed
  have card': "card ?F' + (Suc k + 1023) div 1024 = N"
  proof (cases "k mod 1024 = 0")
    case False
    then have "(Suc k + 1023) div 1024 = (k + 1023) div 1024"
      using blocks_upto [of 1024 k] blocks_next [of 1024 k] by simp
    moreover have "?F' = ?F" using pm here False by (simp add: page_mapped_def)
    ultimately show ?thesis using card by simp
  next
    case True
    then have "(Suc k + 1023) div 1024 = (k + 1023) div 1024 + 1"
      using blocks_upto [of 1024 k] blocks_next [of 1024 k] by simp
    moreover have "t \<in> ?F" "?F' = ?F - {t}" using pm here True by (simp_all add: page_mapped_def)
    moreover have "finite ?F" by (rule pmm_alloc.finite_free)
    moreover have "0 < card ?F" using calculation by (auto simp: card_gt_0_iff)
    ultimately show ?thesis using card by simp
  qed
  have tr': "translate ?m' d w = (if unat w < 4096 * Suc k then Some w else None)" for w
  proof (cases "page_base w = page_base ?v")
    case True
    then have "unat w div 4096 = k" by (simp add: word_unat_eq_iff unat_page_base v)
    moreover have "page_base ?v OR page_offset w = w" using True page_split [of w] by simp
    ultimately show ?thesis
      using page_mapped_translate [OF pm ok f, of w] True by simp
  next
    case False
    then have "unat w div 4096 \<noteq> k" by (simp add: word_unat_eq_iff unat_page_base v)
    then have "unat w < 4096 * Suc k \<longleftrightarrow> unat w < 4096 * k" by (intro page_step) simp_all
    then show ?thesis using page_mapped_translate [OF pm ok f, of w] False tr [of w] by simp
  qed
  have us': "pte AND PTE_USER = 0" if walk: "page_walk ?m' d w = Some (pde, pte)" for w pde pte
  proof (cases "page_base w = page_base ?v")
    case True
    then have "pte = new_pte ?v ?f" using page_mapped_walk(1) [OF pm ok f True] walk by simp
    then show ?thesis
      using kernel_flags_no_user(1) [of "page_base ?v"] by (simp add: new_pte_def or.assoc or.commute or.left_commute)
  next
    case False
    show ?thesis using page_mapped_old_pte [OF pm ok f False walk] us by blast
  qed
  show ?thesis
    unfolding identity_inv_def using map_page_wf [OF wf] ok' at' card' tr' us' by blast
qed

lemma identity_map_inv:
  assumes "identity_inv d N 0 s" "32 \<le> N" "k \<le> 32768"
  shows "identity_inv d N k (identity_map d k s)"
  using assms(3)
proof (induction k)
  case 0
  then show ?case using assms by (simp add: identity_map_def)
next
  case (Suc k)
  then have "identity_inv d N (Suc k) (vmm_map_page d (of_nat k * PAGE_SIZE) (of_nat k * PAGE_SIZE)
      (PTE_PRESENT OR PTE_WRITABLE) (identity_map d k s))"
    by (intro identity_step [OF _ _ assms(2)]) simp_all
  then show ?case by (simp add: identity_map_def)
qed

lemma identity_map_kernel_dir [simp]: "g_kernel_dir (identity_map d k s) = g_kernel_dir s"
  by (induction k) (simp_all add: identity_map_def)

lemma write_cr3_fields [simp]:
  "phys_mem (write_cr3 v s) = phys_mem s" "free_addrs (write_cr3 v s) = free_addrs s"
  "pmm_wf (write_cr3 v s) = pmm_wf s" "g_kernel_dir (write_cr3 v s) = g_kernel_dir s"
  "cr3 (write_cr3 v s) = v"
  by (simp_all add: write_cr3_def free_addrs_def free_set_def pmm_wf_def)

lemma enable_paging_fields [simp]:
  "phys_mem (enable_paging s) = phys_mem s" "free_addrs (enable_paging s) = free_addrs s"
  "pmm_wf (enable_paging s) = pmm_wf s" "g_kernel_dir (enable_paging s) = g_kernel_dir s"
  "cr3 (enable_paging s) = cr3 s" "bit (cr0 (enable_paging s)) 31"
  by (simp_all add: enable_paging_def free_addrs_def free_set_def pmm_wf_def bit_or_iff bit_numeral_word_iff)

text \<open>
  After \<open>vmm_init\<close> the kernel's directory maps exactly the first 128 MB, each address to itself,
  for ring 0 only. It takes one frame for the directory and 32 for its tables.
\<close>

lemma vmm_init_inv:
  assumes wf: "pmm_wf s" and room: "33 \<le> card (free_addrs s)"
  defines "d \<equiv> fst (pmm_alloc_frame s)"
  shows "identity_inv d (card (free_addrs s) - 1) 32768 (vmm_init s)
    \<and> g_kernel_dir (vmm_init s) = d \<and> cr3 (vmm_init s) = d \<and> bit (cr0 (vmm_init s)) 31 \<and> d \<in> free_addrs s"
proof -
  have nz: "d \<noteq> 0"
  proof -
    have "free_addrs s \<noteq> {}" using room by auto
    then show ?thesis using pmm_alloc.alloc_zero [OF wf] unfolding d_def by blast
  qed
  note f = new_frame [OF wf d_def [symmetric, THEN meta_eq_to_obj_eq] nz]
  let ?s0 = "(snd (pmm_alloc_frame s))\<lparr>g_kernel_dir := d\<rparr>"
  let ?s1 = "clear_table d ?s0"
  note c = clear_table_entries(2) [OF f(1), where s = ?s0]
  have none: "\<not> pde_at (phys_mem ?s1) d i" for i
    by (simp add: pde_at_def c)
  have card: "card (free_addrs ?s1) = card (free_addrs s) - 1"
    using f(2,3) pmm_alloc.finite_free [of s] by simp
  have "identity_inv d (card (free_addrs s) - 1) 0 ?s1"
    using f none card nz by (simp add: identity_inv_def dir_ok_def page_walk_eq translate_def)
  then have "identity_inv d (card (free_addrs s) - 1) 32768 (identity_map d 32768 ?s1)"
    using room by (intro identity_map_inv) simp_all
  moreover have "vmm_init s = enable_paging (write_cr3 d (identity_map d 32768 ?s1))"
    by (simp add: vmm_init_def split_beta Let_def d_def)
  ultimately show ?thesis
    using f(2) by (simp add: identity_inv_def)
qed

subsection \<open>A new directory\<close>

text \<open>
  \<open>cloned m0 K G m d i\<close>: entry \<open>i\<close> of directory \<open>d\<close> in memory \<open>m\<close> leads to a page of \<open>G\<close> that holds a
  copy, with the user bit set, of the table entry \<open>i\<close> of directory \<open>K\<close> led to in memory \<open>m0\<close>.
\<close>

definition cloned :: "memory \<Rightarrow> u32 \<Rightarrow> u32 set \<Rightarrow> memory \<Rightarrow> u32 \<Rightarrow> u32 \<Rightarrow> bool" where
  "cloned m0 K G m d i \<longleftrightarrow> present (read_entry m d i) \<and> read_entry m d i AND PTE_USER \<noteq> 0
     \<and> table_of m d i \<in> G \<and> table_of m d i \<noteq> d
     \<and> (\<forall>j. unat j < 1024 \<longrightarrow>
          read_entry m (table_of m d i) j = read_entry m0 (table_of m0 K i) j OR PTE_USER)"

text \<open>The state of the cloning loop after \<open>k\<close> entries, started from memory \<open>m0\<close> with free frames \<open>F0\<close>.\<close>

definition clone_inv :: "memory \<Rightarrow> u32 set \<Rightarrow> u32 \<Rightarrow> u32 \<Rightarrow> nat \<Rightarrow> 'a vmm_scheme \<Rightarrow> bool" where
  "clone_inv m0 F0 K d k s \<longleftrightarrow> pmm_wf s \<and> g_kernel_dir s = K \<and> free_addrs s \<subseteq> F0
     \<and> page d \<and> d \<in> F0 - free_addrs s \<and> d \<noteq> 0
     \<and> same_outside (F0 - free_addrs s) m0 (phys_mem s)
     \<and> card {i. pde_at m0 K i \<and> k \<le> unat i} \<le> card (free_addrs s)
     \<and> (\<forall>i. unat i < 1024 \<longrightarrow>
          (if unat i < k \<and> pde_at m0 K i then cloned m0 K (F0 - free_addrs s) (phys_mem s) d i
           else read_entry (phys_mem s) d i = 0))
     \<and> (\<forall>i j. unat i < k \<and> unat j < k \<and> pde_at m0 K i \<and> pde_at m0 K j \<and> i \<noteq> j \<longrightarrow>
          table_of (phys_mem s) d i \<noteq> table_of (phys_mem s) d j)"

lemma user_bit_or: "(x OR PTE_USER) AND PTE_USER \<noteq> 0"
proof
  assume "(x OR PTE_USER) AND PTE_USER = 0"
  then have "\<not> bit ((x OR PTE_USER) AND PTE_USER) 2" by simp
  moreover have "bit PTE_USER 2" by (simp add: PTE_USER_def bit_numeral_word_iff)
  ultimately show False by (simp add: bit_and_iff bit_or_iff)
qed

lemma finite_pdes [simp]: "finite {i. pde_at m K i \<and> P i}"
proof -
  have "{i. pde_at m K i \<and> P i} \<subseteq> of_nat ` {..<1024}"
    using index_of_nat by (auto simp: pde_at_def)
  then show ?thesis by (rule finite_subset) simp
qed

lemma cloned_frame:
  assumes c: "cloned m0 K G m d i" and d: "page d" "unat i < 1024"
    and keep: "same_outside P m m'" "read_entry m' d i = read_entry m d i"
    and P: "table_of m d i \<notin> P" and G: "G \<subseteq> G'"
  shows "cloned m0 K G' m' d i"
proof -
  have t: "table_of m' d i = table_of m d i" using keep(2) by (simp add: table_of_def)
  have "page (table_of m d i)" by (simp add: table_of_def)
  then have "read_entry m' (table_of m d i) j = read_entry m (table_of m d i) j" if "unat j < 1024" for j
    using read_entry_outside [OF keep(1) _ that P] by simp
  with c G show ?thesis by (auto simp: cloned_def t keep(2))
qed

lemma clone_pde_absent:
  assumes inv: "clone_inv m0 F0 K d k s" and k: "k < 1024" and gone: "\<not> pde_at m0 K (of_nat k)"
    and K: "page K" "K \<notin> F0"
  shows "clone_inv m0 F0 K d (Suc k) (clone_pde d k s)"
proof -
  let ?F = "free_addrs s" and ?m = "phys_mem s" and ?k = "of_nat k :: u32"
  from inv have d: "page d" "d \<in> F0 - ?F" "d \<noteq> 0" and out: "same_outside (F0 - ?F) m0 ?m"
    and room: "card {i. pde_at m0 K i \<and> k \<le> unat i} \<le> card ?F" and Kd: "g_kernel_dir s = K"
    and ent: "\<And>i. unat i < 1024 \<Longrightarrow> if unat i < k \<and> pde_at m0 K i
        then cloned m0 K (F0 - ?F) ?m d i else read_entry ?m d i = 0"
    and dist: "\<And>i j. unat i < k \<Longrightarrow> unat j < k \<Longrightarrow> pde_at m0 K i \<Longrightarrow> pde_at m0 K j \<Longrightarrow> i \<noteq> j \<Longrightarrow>
        table_of ?m d i \<noteq> table_of ?m d j"
    unfolding clone_inv_def by blast+
  have uk: "unat ?k = k" by (rule unat_index [OF k])
  have "read_entry ?m K ?k = read_entry m0 K ?k"
    using K k uk by (intro read_entry_outside [OF out]) auto
  then have np: "\<not> present (read_entry ?m K ?k)" using gone k uk by (simp add: pde_at_def)
  let ?m' = "write_entry d ?k 0 ?m"
  have step: "clone_pde d k s = set_entry d ?k 0 s" using np Kd by (simp add: clone_pde_def)
  have out': "same_outside {d} ?m ?m'" using d k uk by (intro write_entry_outside) simp_all
  have read: "read_entry ?m' d i = (if i = ?k then 0 else read_entry ?m d i)" if "unat i < 1024" for i
    using read_write_entry_other [of d d ?k i] d(1) k uk that by auto
  have ek: "unat i < Suc k \<and> pde_at m0 K i \<longleftrightarrow> unat i < k \<and> pde_at m0 K i" for i
    using gone uk by (metis less_Suc_eq word_unat_eq_iff)
  have sets: "{i. pde_at m0 K i \<and> Suc k \<le> unat i} \<subseteq> {i. pde_at m0 K i \<and> k \<le> unat i}" by auto
  show ?thesis
    unfolding clone_inv_def step
  proof (intro conjI allI impI)
    show "pmm_wf (set_entry d ?k 0 s)" "g_kernel_dir (set_entry d ?k 0 s) = K"
      "free_addrs (set_entry d ?k 0 s) \<subseteq> F0" "page d" "d \<in> F0 - free_addrs (set_entry d ?k 0 s)" "d \<noteq> 0"
      using inv d by (simp_all add: clone_inv_def)
    show "same_outside (F0 - free_addrs (set_entry d ?k 0 s)) m0 (phys_mem (set_entry d ?k 0 s))"
      using same_outside_trans [OF out out'] d(2) by (simp add: insert_absorb)
    show "card {i. pde_at m0 K i \<and> Suc k \<le> unat i} \<le> card (free_addrs (set_entry d ?k 0 s))"
      using card_mono [OF _ sets] room by simp
  next
    fix i :: u32 assume i: "unat i < 1024"
    show "if unat i < Suc k \<and> pde_at m0 K i
      then cloned m0 K (F0 - free_addrs (set_entry d ?k 0 s)) (phys_mem (set_entry d ?k 0 s)) d i
      else read_entry (phys_mem (set_entry d ?k 0 s)) d i = 0"
    proof (cases "unat i < k \<and> pde_at m0 K i")
      case True
      then have c: "cloned m0 K (F0 - ?F) ?m d i" using ent [OF i] by simp
      have "i \<noteq> ?k" using True uk by auto
      with cloned_frame [OF c d(1) i out', of "F0 - ?F"] c True read [OF i] show ?thesis
        by (simp add: cloned_def less_SucI)
    next
      case False
      then have "\<not> (unat i < Suc k \<and> pde_at m0 K i)" using ek by blast
      with False show ?thesis using ent [OF i] read [OF i] by (simp only: if_False set_entry_fields) simp
    qed
  next
    fix i j :: u32
    assume ij: "unat i < Suc k \<and> unat j < Suc k \<and> pde_at m0 K i \<and> pde_at m0 K j \<and> i \<noteq> j"
    then have "unat i < k" "unat j < k" using ek by blast+
    moreover have "i \<noteq> ?k" "j \<noteq> ?k" using calculation uk by auto
    ultimately show "table_of (phys_mem (set_entry d ?k 0 s)) d i \<noteq> table_of (phys_mem (set_entry d ?k 0 s)) d j"
      using dist [of i j] ij k read by (simp add: table_of_def)
  qed
qed

lemma clone_pde_present:
  assumes inv: "clone_inv m0 F0 K d k s" and k: "k < 1024" and here: "pde_at m0 K (of_nat k)"
    and K: "dir_ok m0 F0 K"
  shows "clone_inv m0 F0 K d (Suc k) (clone_pde d k s)"
proof -
  let ?F = "free_addrs s" and ?m = "phys_mem s" and ?k = "of_nat k :: u32"
  from inv have wf: "pmm_wf s" and d: "page d" "d \<in> F0 - ?F" "d \<noteq> 0" and out: "same_outside (F0 - ?F) m0 ?m"
    and room: "card {i. pde_at m0 K i \<and> k \<le> unat i} \<le> card ?F" and Kd: "g_kernel_dir s = K"
    and sub: "?F \<subseteq> F0"
    and ent: "\<And>i. unat i < 1024 \<Longrightarrow> if unat i < k \<and> pde_at m0 K i
        then cloned m0 K (F0 - ?F) ?m d i else read_entry ?m d i = 0"
    and dist: "\<And>i j. unat i < k \<Longrightarrow> unat j < k \<Longrightarrow> pde_at m0 K i \<Longrightarrow> pde_at m0 K j \<Longrightarrow> i \<noteq> j \<Longrightarrow>
        table_of ?m d i \<noteq> table_of ?m d j"
    unfolding clone_inv_def by blast+
  from K here have Kp: "page K" "K \<notin> F0" and o: "table_of m0 K ?k \<notin> F0" "page (table_of m0 K ?k)"
    by (auto simp: dir_ok_def table_of_def)
  have uk: "unat ?k = k" by (rule unat_index [OF k])
  have pde: "read_entry ?m K ?k = read_entry m0 K ?k"
    using Kp k uk by (intro read_entry_outside [OF out]) auto
  let ?pde = "read_entry m0 K ?k" and ?orig = "table_of m0 K ?k"
  let ?S = "{i. pde_at m0 K i \<and> k \<le> unat i}" and ?S' = "{i. pde_at m0 K i \<and> Suc k \<le> unat i}"
  have "?S = insert ?k ?S'" using here uk by (auto simp: Suc_le_eq le_less word_unat_eq_iff)
  moreover have "?k \<notin> ?S'" using uk by simp
  ultimately have S: "card ?S = Suc (card ?S')" by simp
  have nz: "fst (pmm_alloc_frame s) \<noteq> 0"
  proof -
    have "?F \<noteq> {}" using S room by auto
    then show ?thesis using pmm_alloc.alloc_zero [OF wf] by simp
  qed
  let ?n = "fst (pmm_alloc_frame s)" and ?a = "snd (pmm_alloc_frame s)"
  note n = new_frame [OF wf refl nz]
  have nd: "?n \<noteq> d" "?n \<noteq> ?orig" using n(2) d(2) o(1) sub by auto
  let ?e = "?n OR (?pde AND 0xFFF) OR PTE_USER"
  let ?m1 = "clone_table ?orig ?n ?m" and ?m' = "write_entry d ?k ?e (clone_table ?orig ?n ?m)"
  let ?t = "clone_pde d k s"
  have "present ?pde" using here by (simp add: pde_at_def)
  then have step: "?t = set_entry d ?k ?e (?a\<lparr>phys_mem := ?m1\<rparr>)"
    using nz by (simp add: clone_pde_def pde Kd split_beta Let_def table_of_def)
  have t: "phys_mem ?t = ?m'" "free_addrs ?t = ?F - {?n}" "pmm_wf ?t" "g_kernel_dir ?t = K"
    unfolding step using n(3,4) Kd by simp_all
  note cl = clone_table_entries [OF n(1) o(2) nd(2), where m = ?m]
  have out1: "same_outside {?n} ?m ?m1" by (rule cl(1))
  have out2: "same_outside {?n, d} ?m ?m'"
  proof -
    have "same_outside {d} ?m1 ?m'" using d k uk by (intro write_entry_outside) simp_all
    from same_outside_trans [OF out1 this] show ?thesis by (simp add: insert_commute)
  qed
  have read: "read_entry ?m' d i = (if i = ?k then ?e else read_entry ?m d i)" if "unat i < 1024" for i
  proof (cases "i = ?k")
    case False
    have "read_entry ?m' d i = read_entry ?m1 d i"
      using d(1) k uk that False by (intro read_write_entry_other) auto
    also have "\<dots> = read_entry ?m d i" using nd d(1) that by (intro read_entry_outside [OF out1]) auto
    finally show ?thesis using False by simp
  qed simp
  have tab_n: "table_of ?m' d ?k = ?n"
  proof -
    have low: "page_base (?pde AND 0xFFF) = 0"
    proof (rule page_base_small)
      have "?pde AND 0xFFF \<le> 0xFFF" by (rule word_and_le1)
      then show "unat (?pde AND 0xFFF) < 4096" by (simp add: word_le_nat_alt)
    qed
    have "page_base ((?pde AND 0xFFF) OR PTE_USER) = 0" by (simp add: page_base_or_dist low)
    then show ?thesis
      using page_base_or [OF n(1)] by (simp add: table_of_def or.assoc)
  qed
  have new: "cloned m0 K (F0 - (?F - {?n})) ?m' d ?k"
  proof -
    have "present (?pde AND 0xFFF)" using \<open>present ?pde\<close> unfolding present_bit bit_and_iff by (simp add: bit_0)
    then have "present ?e" by simp
    moreover have "?e AND PTE_USER \<noteq> 0"
      using user_bit_or [of "?n OR (?pde AND 0xFFF)"] unfolding or.assoc .
    moreover have "read_entry ?m' ?n j = read_entry m0 ?orig j OR PTE_USER" if j: "unat j < 1024" for j
    proof -
      have "read_entry ?m' ?n j = read_entry ?m1 ?n j"
        using d(1) n(1) k uk j nd by (intro read_write_entry_other) auto
      also have "\<dots> = read_entry ?m ?orig j OR PTE_USER" by (rule cl(2) [OF j])
      also have "read_entry ?m ?orig j = read_entry m0 ?orig j"
        using o j by (intro read_entry_outside [OF out]) auto
      finally show ?thesis .
    qed
    ultimately show ?thesis
      using n(2) sub nd unfolding cloned_def tab_n by (simp only: read_write_entry) auto
  qed
  have old: "cloned m0 K (F0 - (?F - {?n})) ?m' d i" if "unat i < k" "pde_at m0 K i" for i
  proof -
    have i: "unat i < 1024" "i \<noteq> ?k" using that k uk by auto
    have c: "cloned m0 K (F0 - ?F) ?m d i" using ent [OF i(1)] that by simp
    have "table_of ?m d i \<notin> {?n, d}" using c n(2) by (auto simp: cloned_def)
    then show ?thesis
      using cloned_frame [OF c d(1) i(1) out2 _ _ , of "F0 - (?F - {?n})"] read [OF i(1)] i(2) by auto
  qed
  have ek: "unat i < Suc k \<longleftrightarrow> unat i < k \<or> i = ?k" for i
    using uk by (auto simp: less_Suc_eq word_unat_eq_iff)
  show ?thesis
    unfolding clone_inv_def t
  proof (intro conjI allI impI)
    show "pmm_wf ?t" "K = K" "?F - {?n} \<subseteq> F0" "page d" "d \<in> F0 - (?F - {?n})" "d \<noteq> 0"
      using t d sub by auto
    show "same_outside (F0 - (?F - {?n})) m0 ?m'"
      by (rule same_outside_mono [OF same_outside_trans [OF out out2]]) (use n(2) d(2) sub in auto)
    show "card ?S' \<le> card (?F - {?n})"
      using S room n(2) pmm_alloc.finite_free [of s] by simp
  next
    fix i :: u32 assume i: "unat i < 1024"
    show "if unat i < Suc k \<and> pde_at m0 K i then cloned m0 K (F0 - (?F - {?n})) ?m' d i
      else read_entry ?m' d i = 0"
      using ek [of i] new old [of i] here read [OF i] ent [OF i] by (auto split: if_splits)
  next
    fix i j :: u32
    assume ij: "unat i < Suc k \<and> unat j < Suc k \<and> pde_at m0 K i \<and> pde_at m0 K j \<and> i \<noteq> j"
    have tab: "table_of ?m' d l = table_of ?m d l \<and> table_of ?m d l \<noteq> ?n" if "unat l < k" "pde_at m0 K l" for l
    proof -
      have l: "unat l < 1024" "l \<noteq> ?k" using that k uk by auto
      have "cloned m0 K (F0 - ?F) ?m d l" using ent [OF l(1)] that by simp
      then have "table_of ?m d l \<noteq> ?n" using n(2) by (auto simp: cloned_def)
      then show ?thesis using read [OF l(1)] l(2) by (simp add: table_of_def)
    qed
    show "table_of ?m' d i \<noteq> table_of ?m' d j"
      using ij tab [of i] tab [of j] tab_n dist [of i j] unfolding ek by metis
  qed
qed

lemma clone_loop:
  assumes K: "dir_ok m0 F0 K" and start: "clone_inv m0 F0 K d 0 s"
  shows "k \<le> 1024 \<Longrightarrow> clone_inv m0 F0 K d k (fold (clone_pde d) [0..<k] s)"
proof (induction k)
  case 0
  then show ?case using start by simp
next
  case (Suc k)
  then have inv: "clone_inv m0 F0 K d k (fold (clone_pde d) [0..<k] s)" and k: "k < 1024" by simp_all
  have "clone_inv m0 F0 K d (Suc k) (clone_pde d k (fold (clone_pde d) [0..<k] s))"
  proof (cases "pde_at m0 K (of_nat k)")
    case True
    then show ?thesis by (rule clone_pde_present [OF inv k _ K])
  next
    case False
    have "page K" "K \<notin> F0" using K by (auto simp: dir_ok_def)
    then show ?thesis by (rule clone_pde_absent [OF inv k False])
  qed
  then show ?case by simp
qed

lemma clone_done_walk:
  assumes inv: "clone_inv m0 F0 K d 1024 s"
  shows "page_walk (phys_mem s) d w =
    map_option (\<lambda>(pde, pte). (read_entry (phys_mem s) d (pde_index w), pte OR PTE_USER)) (page_walk m0 K w)"
proof (cases "pde_at m0 K (pde_index w)")
  case True
  with inv have "cloned m0 K (F0 - free_addrs s) (phys_mem s) d (pde_index w)"
    unfolding clone_inv_def by (metis index_bounds(1))
  with True show ?thesis
    by (simp add: page_walk_eq cloned_def) (simp add: pde_at_def)
next
  case False
  with inv have "read_entry (phys_mem s) d (pde_index w) = 0"
    unfolding clone_inv_def by (metis index_bounds(1))
  with False show ?thesis by (simp add: page_walk_eq) (simp add: pde_at_def)
qed

lemma clone_done_dir_ok:
  assumes inv: "clone_inv m0 F0 K d 1024 s" and F0: "0 \<notin> F0"
  shows "dir_ok (phys_mem s) (free_addrs s) d"
proof -
  from inv have ent: "unat i < 1024 \<Longrightarrow> if pde_at m0 K i
      then cloned m0 K (F0 - free_addrs s) (phys_mem s) d i else read_entry (phys_mem s) d i = 0" for i
    unfolding clone_inv_def by (auto split: if_splits)
  have at: "pde_at m0 K i \<and> cloned m0 K (F0 - free_addrs s) (phys_mem s) d i"
    if "pde_at (phys_mem s) d i" for i
    using ent [of i] that by (auto simp: pde_at_def split: if_splits)
  have dist: "table_of (phys_mem s) d i \<noteq> table_of (phys_mem s) d j"
    if "pde_at m0 K i" "pde_at m0 K j" "i \<noteq> j" for i j
  proof -
    have "unat i < 1024" "unat j < 1024" using that by (auto simp: pde_at_def)
    with inv that show ?thesis unfolding clone_inv_def by blast
  qed
  show ?thesis
    unfolding dir_ok_def
  proof (intro conjI allI impI)
    show "page d" "d \<notin> free_addrs s" "d \<noteq> 0" using inv by (auto simp: clone_inv_def)
    fix i
    assume "pde_at (phys_mem s) d i"
    then have "cloned m0 K (F0 - free_addrs s) (phys_mem s) d i" using at by blast
    then show "table_of (phys_mem s) d i \<notin> free_addrs s" "table_of (phys_mem s) d i \<noteq> d"
      "table_of (phys_mem s) d i \<noteq> 0"
      using F0 by (auto simp: cloned_def)
  next
    fix i j
    assume "pde_at (phys_mem s) d i \<and> pde_at (phys_mem s) d j \<and> i \<noteq> j"
    then show "table_of (phys_mem s) d i \<noteq> table_of (phys_mem s) d j" using at dist by blast
  qed
qed

text \<open>
  A new directory, when there are frames for it and for a copy of each kernel table: it translates
  every address as the kernel's does, every mapping in it is open to ring 3, and the kernel's
  directory and all memory outside the newly taken frames are as they were.
\<close>

lemma zero_not_free [simp]: "0 \<notin> free_addrs s"
proof -
  have "frame_addr f \<noteq> 0" if "f \<in> free_set s" for f
    using frame_addr_nonzero free_set_less [OF that] by blast
  then show ?thesis by (auto simp: free_addrs_def)
qed

lemma create_directory_inv:
  assumes wf: "pmm_wf s" and K: "dir_ok (phys_mem s) (free_addrs s) (g_kernel_dir s)"
    and room: "card {i. pde_at (phys_mem s) (g_kernel_dir s) i} < card (free_addrs s)"
  defines "d \<equiv> fst (vmm_create_directory s)" and "t \<equiv> snd (vmm_create_directory s)"
  shows "clone_inv (phys_mem s) (free_addrs s) (g_kernel_dir s) d 1024 t"
proof -
  let ?K = "g_kernel_dir s" and ?m = "phys_mem s" and ?F = "free_addrs s"
  let ?d = "fst (pmm_alloc_frame s)" and ?a = "snd (pmm_alloc_frame s)"
  have nz: "?d \<noteq> 0"
  proof -
    have "?F \<noteq> {}" using room by auto
    then show ?thesis using pmm_alloc.alloc_zero [OF wf] by simp
  qed
  note f = new_frame [OF wf refl nz]
  have c: "vmm_create_directory s = (?d, fold (clone_pde ?d) [0..<1024] (clear_table ?d ?a))"
    using nz K by (simp add: vmm_create_directory_def split_beta Let_def dir_ok_def)
  note cl = clear_table_entries [OF f(1), where s = ?a]
  have "card {i. pde_at ?m ?K i \<and> 0 \<le> unat i} \<le> card (?F - {?d})"
    using room f(2) pmm_alloc.finite_free [of s] by simp
  moreover have "?F - (?F - {?d}) = {?d}" using f(2) by auto
  ultimately have "clone_inv ?m ?F ?K ?d 0 (clear_table ?d ?a)"
    using f nz cl by (simp add: clone_inv_def)
  from clone_loop [OF K this, of 1024] show ?thesis
    unfolding d_def t_def c by simp
qed

lemma dir_ok_outside:
  assumes ok: "dir_ok m F d" and out: "same_outside P m m'" and P: "P \<subseteq> F"
  shows "page_walk m' d w = page_walk m d w" and "F' \<subseteq> F \<Longrightarrow> dir_ok m' F' d"
proof -
  have d: "page d" "d \<notin> P" using ok P by (auto simp: dir_ok_def)
  have read: "read_entry m' d i = read_entry m d i" if "unat i < 1024" for i
    by (rule read_entry_outside [OF out d(1) that d(2)])
  have tab: "read_entry m' (table_of m d i) j = read_entry m (table_of m d i) j"
    if "pde_at m d i" "unat j < 1024" for i j
    by (rule read_entry_outside [OF out _ that(2)]) (use ok P that(1) in \<open>auto simp: dir_ok_def table_of_def\<close>)
  have at: "pde_at m' d i = pde_at m d i" for i using read by (auto simp: pde_at_def)
  have t: "table_of m' d i = table_of m d i" if "pde_at m d i" for i
    using read that by (simp add: table_of_def pde_at_def)
  show "page_walk m' d w = page_walk m d w"
    using read tab t by (cases "pde_at m d (pde_index w)") (simp_all add: page_walk_eq at)
  show "dir_ok m' F' d" if F: "F' \<subseteq> F"
    unfolding dir_ok_def
  proof (intro conjI allI impI)
    show "page d" "d \<notin> F'" "d \<noteq> 0" using ok F by (auto simp: dir_ok_def)
    fix i assume "pde_at m' d i"
    then have i: "pde_at m d i" by (simp add: at)
    with ok F show "table_of m' d i \<notin> F'" "table_of m' d i \<noteq> d" "table_of m' d i \<noteq> 0"
      by (auto simp: t [OF i] dir_ok_def)
  next
    fix i j assume "pde_at m' d i \<and> pde_at m' d j \<and> i \<noteq> j"
    then have "pde_at m d i" "pde_at m d j" "i \<noteq> j" by (auto simp: at)
    with ok show "table_of m' d i \<noteq> table_of m' d j" by (simp add: t dir_ok_def)
  qed
qed

lemma vmm_create_directory_clones_all:
  assumes "pmm_wf s" "dir_ok (phys_mem s) (free_addrs s) (g_kernel_dir s)"
    and "card {i. pde_at (phys_mem s) (g_kernel_dir s) i} < card (free_addrs s)"
  defines "d \<equiv> fst (vmm_create_directory s)" and "t \<equiv> snd (vmm_create_directory s)"
  shows "translate (phys_mem t) d w = translate (phys_mem s) (g_kernel_dir s) w
    \<and> (user_access (phys_mem t) d w \<longleftrightarrow> translate (phys_mem s) (g_kernel_dir s) w \<noteq> None)
    \<and> page_walk (phys_mem t) (g_kernel_dir s) w = page_walk (phys_mem s) (g_kernel_dir s) w
    \<and> dir_ok (phys_mem t) (free_addrs t) d \<and> dir_ok (phys_mem t) (free_addrs t) (g_kernel_dir s)
    \<and> d \<in> free_addrs s \<and> pmm_wf t"
proof -
  let ?K = "g_kernel_dir s" and ?m = "phys_mem s"
  have inv: "clone_inv ?m (free_addrs s) ?K d 1024 t"
    unfolding d_def t_def by (rule create_directory_inv [OF assms(1-3)])
  then have out: "same_outside (free_addrs s - free_addrs t) ?m (phys_mem t)" and sub: "free_addrs t \<subseteq> free_addrs s"
    and d: "d \<in> free_addrs s" "pmm_wf t" by (auto simp: clone_inv_def)
  note walk = clone_done_walk [OF inv, of w]
  have "translate (phys_mem t) d w = translate ?m ?K w"
    by (cases "page_walk ?m ?K w") (auto simp: translate_def walk page_base_or_dist)
  moreover have "user_access (phys_mem t) d w \<longleftrightarrow> translate ?m ?K w \<noteq> None"
  proof (cases "page_walk ?m ?K w")
    case None
    then show ?thesis by (simp add: user_access_def translate_def walk)
  next
    case (Some e)
    then have "pde_at ?m ?K (pde_index w)" by (simp add: page_walk_eq split: if_splits)
    with inv have "cloned ?m ?K (free_addrs s - free_addrs t) (phys_mem t) d (pde_index w)"
      unfolding clone_inv_def by (metis index_bounds(1))
    then show ?thesis
      using Some user_bit_or by (cases e) (simp add: user_access_def translate_def walk cloned_def)
  qed
  ultimately show ?thesis
    using dir_ok_outside [OF assms(2) out _ ] clone_done_dir_ok [OF inv zero_not_free] sub d by auto
qed

subsection \<open>Properties\<close>

definition vmm_reset :: vmm where
  "vmm_reset = kmem.extend kmem_reset (vmm.fields 0 0x11 0 [])"

definition vmm_booted :: vmm where
  "vmm_booted = vmm_init (pmm_init 15360 vmm_reset)"

lemma vmm_reset_wf: "pmm_wf vmm_reset"
  using pmm_reset_wf
  by (simp add: vmm_reset_def kmem_reset_def pmm_reset_def pmm_wf_def
      vmm.defs kmem.defs pmm.defs console.defs)

lemma card_free_init_16MB:
  "card (free_addrs (pmm_init 15360 vmm_reset)) = 2048" "pmm_wf (pmm_init 15360 vmm_reset)"
proof -
  have "unat (pmm_end_frame 15360) = 2048" using pmm_end_frame_normal [of 15360] by simp
  then have f: "free_set (pmm_init 15360 vmm_reset) = {0..<2048}" "pmm_wf (pmm_init 15360 vmm_reset)"
    using pmm_init_free_set [OF vmm_reset_wf, of 15360] by simp_all
  have "inj_on frame_addr {0..<2048}" by (rule inj_onI) (simp add: frame_addr_inject)
  with f show "card (free_addrs (pmm_init 15360 vmm_reset)) = 2048" "pmm_wf (pmm_init 15360 vmm_reset)"
    by (simp_all add: free_addrs_def card_image)
qed

lemma vmm_booted_inv: "identity_inv (g_kernel_dir vmm_booted) 2047 32768 vmm_booted"
  using vmm_init_inv [OF card_free_init_16MB(2)] card_free_init_16MB(1) by (simp add: vmm_booted_def)

lemma vmm_booted_ok:
  "pmm_wf vmm_booted" "dir_ok (phys_mem vmm_booted) (free_addrs vmm_booted) (g_kernel_dir vmm_booted)"
  "card (free_addrs vmm_booted) = 2015"
  using vmm_booted_inv by (simp_all add: identity_inv_def)

text \<open>
  C25: After \<open>vmm_init\<close>, with at least 33 frames free before it, paging is on with the kernel's
  directory loaded, and the processor translates exactly the addresses below 128 MB, each to
  itself, none of them open to ring 3.
\<close>

theorem vmm_init_identity_maps_128MB:
  assumes "pmm_wf s" "33 \<le> card (free_addrs s)"
  shows "cr3 (vmm_init s) = g_kernel_dir (vmm_init s) \<and> bit (cr0 (vmm_init s)) 31
    \<and> translate (phys_mem (vmm_init s)) (cr3 (vmm_init s)) w = (if w < 0x08000000 then Some w else None)
    \<and> \<not> user_access (phys_mem (vmm_init s)) (cr3 (vmm_init s)) w
    \<and> card (free_addrs (vmm_init s)) = card (free_addrs s) - 33
    \<and> dir_ok (phys_mem (vmm_init s)) (free_addrs (vmm_init s)) (g_kernel_dir (vmm_init s))"
proof -
  note i = vmm_init_inv [OF assms]
  have "\<not> user_access (phys_mem (vmm_init s)) (g_kernel_dir (vmm_init s)) w"
    using i by (auto simp: user_access_def identity_inv_def split: option.split)
  moreover have "unat w < 4096 * 32768 \<longleftrightarrow> w < 0x08000000"
    by (simp add: word_less_nat_alt)
  moreover have "card (free_addrs (vmm_init s)) + 32 = card (free_addrs s) - 1"
    using i by (simp add: identity_inv_def)
  then have "card (free_addrs (vmm_init s)) = card (free_addrs s) - 33" by linarith
  ultimately show ?thesis using i by (simp add: identity_inv_def)
qed

theorem vmm_init_identity_maps_128MB_witness:
  "translate (phys_mem vmm_booted) (cr3 vmm_booted) 0xB8000 = Some 0xB8000"
  using vmm_init_identity_maps_128MB [OF card_free_init_16MB(2), of "0xB8000"] card_free_init_16MB(1)
  unfolding vmm_booted_def by auto

text \<open>
  C23: \<open>vmm_map_page\<close> on a well-formed directory, with the page's table present or a frame free for
  it, makes every address of the page translate to the same offset in the frame given and leaves
  the translation of every other address as it was; the directory stays well formed. When the
  table is missing and no frame is free it silently does nothing.
\<close>

theorem vmm_map_page_maps_one_page:
  fixes v phys :: u32
  assumes "pmm_wf s" "dir_ok (phys_mem s) (free_addrs s) d" "page_base flags = 0"
  defines "t \<equiv> vmm_map_page d v phys flags s"
  shows "if pde_at (phys_mem s) d (pde_index v) \<or> free_addrs s \<noteq> {}
    then translate (phys_mem t) d w =
           (if page_base w = page_base v then Some (page_base phys OR page_offset w) else translate (phys_mem s) d w)
         \<and> dir_ok (phys_mem t) (free_addrs t) d \<and> pmm_wf t
    else t = s"
proof (cases "pde_at (phys_mem s) d (pde_index v) \<or> free_addrs s \<noteq> {}")
  case True
  from map_page_mapped [OF assms(1-3) True] obtain t' where
    pm: "page_mapped (phys_mem s) (free_addrs s) d v phys flags t' (phys_mem t) (free_addrs t)"
    unfolding t_def by blast
  then show ?thesis
    using True page_mapped_translate [OF pm assms(2,3)] page_mapped_dir_ok [OF pm assms(2,3)]
      map_page_wf [OF assms(1)] by (simp add: t_def)
next
  case False
  then show ?thesis
    using map_page_out_of_frames [OF _ assms(1)] by (auto simp: t_def)
qed

theorem vmm_map_page_maps_one_page_witness:
  "translate (phys_mem (vmm_map_page (g_kernel_dir vmm_booted) 0x40000000 0x900000 7 vmm_booted))
     (g_kernel_dir vmm_booted) 0x40000000 = Some 0x900000"
proof -
  have "page_base 7 = 0" "free_addrs vmm_booted \<noteq> {}"
    using vmm_booted_ok(3) by (auto intro: page_base_small)
  moreover have "page_base 0x900000 = 0x900000" "page_offset 0x40000000 = 0"
    by (simp_all add: word_unat_eq_iff unat_page_base page_offset_def)
  ultimately show ?thesis
    using vmm_map_page_maps_one_page [OF vmm_booted_ok(1,2), where flags = 7 and w = "0x40000000"
        and v = "0x40000000" and phys = "0x900000"]
    by simp
qed

text \<open>
  \<open>vmm_unmap_page\<close> removes the mapping of exactly the page of the given address: its addresses
  translate to nothing, every other address as before.
\<close>

theorem vmm_unmap_page_unmaps_one_page:
  assumes "dir_ok (phys_mem s) (free_addrs s) d"
  shows "translate (phys_mem (vmm_unmap_page d v s)) d w =
    (if page_base w = page_base v then None else translate (phys_mem s) d w)"
  using unmap_page_walk [OF assms, of v w] by (simp add: translate_def)

theorem vmm_unmap_page_unmaps_one_page_witness:
  "translate (phys_mem (vmm_unmap_page (g_kernel_dir vmm_booted) 0x5000 vmm_booted))
     (g_kernel_dir vmm_booted) 0x5123 = None"
proof -
  have "page_base 0x5123 = page_base 0x5000" by (simp add: word_unat_eq_iff unat_page_base)
  then show ?thesis
    using vmm_unmap_page_unmaps_one_page [OF vmm_booted_ok(2), of "0x5000" "0x5123"] by simp
qed

text \<open>
  C24: A directory made by \<open>vmm_create_directory\<close>, with frames enough for it and for one table per
  kernel table, translates every address as the kernel's directory does, and ring 3 may access
  every address it maps (the kernel's own memory included, contrary to the comment in the code, and
  to the header \<open>vmm.h\<close>, which says that a new directory is empty);
  the kernel's directory translates as before and both directories are well formed.
\<close>

theorem vmm_create_directory_clones_kernel:
  assumes "pmm_wf s" "dir_ok (phys_mem s) (free_addrs s) (g_kernel_dir s)"
    and "card {i. pde_at (phys_mem s) (g_kernel_dir s) i} < card (free_addrs s)"
  defines "d \<equiv> fst (vmm_create_directory s)" and "t \<equiv> snd (vmm_create_directory s)"
  shows "translate (phys_mem t) d w = translate (phys_mem s) (g_kernel_dir s) w
    \<and> (user_access (phys_mem t) d w \<longleftrightarrow> translate (phys_mem s) (g_kernel_dir s) w \<noteq> None)
    \<and> page_walk (phys_mem t) (g_kernel_dir s) w = page_walk (phys_mem s) (g_kernel_dir s) w
    \<and> dir_ok (phys_mem t) (free_addrs t) d \<and> dir_ok (phys_mem t) (free_addrs t) (g_kernel_dir s)
    \<and> d \<in> free_addrs s \<and> pmm_wf t"
  unfolding d_def t_def by (rule vmm_create_directory_clones_all [OF assms(1-3)])

theorem vmm_create_directory_clones_kernel_witness:
  "user_access (phys_mem (snd (vmm_create_directory vmm_booted))) (fst (vmm_create_directory vmm_booted)) 0x100000"
proof -
  have sub: "{i. pde_at (phys_mem vmm_booted) (g_kernel_dir vmm_booted) i} \<subseteq> of_nat ` {..<32}"
  proof
    fix i assume "i \<in> {i. pde_at (phys_mem vmm_booted) (g_kernel_dir vmm_booted) i}"
    then have "unat i < 32" using vmm_booted_inv by (simp add: identity_inv_def)
    then show "i \<in> of_nat ` {..<32}" by (intro image_eqI [of _ _ "unat i"]) simp_all
  qed
  then have "card {i. pde_at (phys_mem vmm_booted) (g_kernel_dir vmm_booted) i} \<le> 32"
    using card_mono [OF _ sub] card_image_le [of "{..<32}" "of_nat :: nat \<Rightarrow> u32"] by simp
  then have "card {i. pde_at (phys_mem vmm_booted) (g_kernel_dir vmm_booted) i} < card (free_addrs vmm_booted)"
    using vmm_booted_ok(3) by simp
  moreover have "translate (phys_mem vmm_booted) (g_kernel_dir vmm_booted) 0x100000 = Some 0x100000"
    using vmm_booted_inv by (simp add: identity_inv_def)
  ultimately show ?thesis
    using vmm_create_directory_clones_kernel [OF vmm_booted_ok(1,2), of "0x100000"] by simp
qed

end
