(* ===== verification/Gdt.thy ===== *)
theory Gdt
  imports Vmm
begin

unbundle bit_operations_syntax

section \<open>Segment descriptors and the task state segment\<close>

text \<open>
  Models \<open>kernel/interrupt/gdt.c\<close> and \<open>kernel/interrupt/tss.c\<close>: the table of six descriptors, the
  loading of the segment registers, and the TSS whose \<open>esp0\<close> the scheduler sets. The addresses of
  the two static objects \<open>gdt\<close> and \<open>g_tss\<close> are arguments (the linker places them).

  \<open>desc_base\<close>, \<open>desc_limit\<close>, \<open>desc_dpl\<close> and \<open>io_permitted\<close> say how the processor reads a descriptor
  and the TSS: the abstract view the lemmas relate the encoded tables to.
\<close>

subsection \<open>Data\<close>

record gdt_entry =
  limit_low :: u16
  base_low :: u16
  base_middle :: u8
  access :: u8
  granularity :: u8
  base_high :: u8

definition gdt_entry_zero :: gdt_entry where
  "gdt_entry_zero = \<lparr>limit_low = 0, base_low = 0, base_middle = 0, access = 0, granularity = 0, base_high = 0\<rparr>"

record tss_entry =
  tss_prev_tss :: u32
  tss_esp0 :: u32
  tss_ss0 :: u32
  tss_esp1 :: u32
  tss_ss1 :: u32
  tss_esp2 :: u32
  tss_ss2 :: u32
  tss_cr3 :: u32
  tss_eip :: u32
  tss_eflags :: u32
  tss_eax :: u32
  tss_ecx :: u32
  tss_edx :: u32
  tss_ebx :: u32
  tss_esp :: u32
  tss_ebp :: u32
  tss_esi :: u32
  tss_edi :: u32
  tss_es :: u32
  tss_cs :: u32
  tss_ss :: u32
  tss_ds :: u32
  tss_fs :: u32
  tss_gs :: u32
  tss_ldt_selector :: u32
  tss_trap :: u16
  tss_iomap_base :: u16

definition tss_zero :: tss_entry where
  "tss_zero = \<lparr>tss_prev_tss = 0, tss_esp0 = 0, tss_ss0 = 0, tss_esp1 = 0, tss_ss1 = 0, tss_esp2 = 0,
     tss_ss2 = 0, tss_cr3 = 0, tss_eip = 0, tss_eflags = 0, tss_eax = 0, tss_ecx = 0, tss_edx = 0,
     tss_ebx = 0, tss_esp = 0, tss_ebp = 0, tss_esi = 0, tss_edi = 0, tss_es = 0, tss_cs = 0,
     tss_ss = 0, tss_ds = 0, tss_fs = 0, tss_gs = 0, tss_ldt_selector = 0, tss_trap = 0, tss_iomap_base = 0\<rparr>"

definition TSS_SIZE :: nat where "TSS_SIZE = 104"

text \<open>The segment registers and the two table registers hold what the code last loaded.\<close>

record segs = vmm +
  gdt :: "gdt_entry list"
  gdtp_limit :: u16
  gdtp_base :: u32
  gdtr :: "u16 \<times> u32"
  seg_cs :: u16
  seg_ds :: u16
  seg_es :: u16
  seg_fs :: u16
  seg_gs :: u16
  seg_ss :: u16
  task_register :: u16
  g_tss :: tss_entry

subsection \<open>Operations\<close>

definition gdt_entry_of :: "u32 \<Rightarrow> u32 \<Rightarrow> u8 \<Rightarrow> u8 \<Rightarrow> gdt_entry" where
  "gdt_entry_of base limit acc gran =
     \<lparr>limit_low = u32_to_u16 (limit AND 0xFFFF),
      base_low = u32_to_u16 (base AND 0xFFFF),
      base_middle = u32_to_u8 (drop_bit 16 base AND 0xFF),
      access = acc,
      granularity = u32_to_u8 (drop_bit 16 limit AND 0x0F) OR (gran AND 0xF0),
      base_high = u32_to_u8 (drop_bit 24 base AND 0xFF)\<rparr>"

definition gdt_set_gate :: "nat \<Rightarrow> u32 \<Rightarrow> u32 \<Rightarrow> u8 \<Rightarrow> u8 \<Rightarrow> 'a segs_scheme \<Rightarrow> 'a segs_scheme" where
  "gdt_set_gate num base limit acc gran s =
     s\<lparr>gdt := (gdt s)[num := gdt_entry_of base limit acc gran]\<rparr>"

definition gdt_install_tss :: "u32 \<Rightarrow> u32 \<Rightarrow> 'a segs_scheme \<Rightarrow> 'a segs_scheme" where
  "gdt_install_tss base limit s = (let acc = 0x89; gran = 0x40 in gdt_set_gate 5 base limit acc gran s)"

definition gdt_init :: "u32 \<Rightarrow> 'a segs_scheme \<Rightarrow> 'a segs_scheme" where
  "gdt_init gdt_addr s =
     (let s = s\<lparr>gdtp_limit := 8 * 6 - 1, gdtp_base := gdt_addr\<rparr>;
          s = gdt_set_gate 0 0 0 0 0 s;
          s = gdt_set_gate 1 0 0xFFFFFFFF 0x9A 0xCF s;
          s = gdt_set_gate 2 0 0xFFFFFFFF 0x92 0xCF s;
          s = gdt_set_gate 3 0 0xFFFFFFFF 0xFA 0xCF s;
          s = gdt_set_gate 4 0 0xFFFFFFFF 0xF2 0xCF s;
          s = gdt_set_gate 5 0 0 0 0 s
      in s\<lparr>gdtr := (gdtp_limit s, gdtp_base s),
           seg_ds := 0x10, seg_es := 0x10, seg_fs := 0x10, seg_gs := 0x10, seg_ss := 0x10,
           seg_cs := 0x08\<rparr>)"

definition tss_init :: "u32 \<Rightarrow> 'a segs_scheme \<Rightarrow> 'a segs_scheme" where
  "tss_init tss_addr s =
     (let s = s\<lparr>g_tss := tss_zero\<rparr>;
          s = s\<lparr>g_tss := (g_tss s)\<lparr>tss_ss0 := 0x10\<rparr>\<rparr>;
          s = gdt_install_tss tss_addr (of_nat TSS_SIZE - 1) s
      in s\<lparr>task_register := 0x28\<rparr>)"

definition tss_set_esp0 :: "u32 \<Rightarrow> 'a segs_scheme \<Rightarrow> 'a segs_scheme" where
  "tss_set_esp0 esp0 s = s\<lparr>g_tss := (g_tss s)\<lparr>tss_esp0 := esp0\<rparr>\<rparr>"

subsection \<open>How the processor reads the tables\<close>

definition desc_base :: "gdt_entry \<Rightarrow> u32" where
  "desc_base e = u16_to_u32 (base_low e) OR push_bit 16 (u8_to_u32 (base_middle e))
     OR push_bit 24 (u8_to_u32 (base_high e))"

definition desc_raw_limit :: "gdt_entry \<Rightarrow> u32" where
  "desc_raw_limit e = u16_to_u32 (limit_low e) OR push_bit 16 (u8_to_u32 (granularity e AND 0x0F))"

definition desc_flags :: "gdt_entry \<Rightarrow> u8" where
  "desc_flags e = granularity e AND 0xF0"

text \<open>With the granularity bit set the limit counts 4096-byte units.\<close>

definition desc_limit :: "gdt_entry \<Rightarrow> u32" where
  "desc_limit e = (if granularity e AND 0x80 \<noteq> 0 then push_bit 12 (desc_raw_limit e) OR 0xFFF else desc_raw_limit e)"

definition desc_present :: "gdt_entry \<Rightarrow> bool" where
  "desc_present e \<longleftrightarrow> access e AND 0x80 \<noteq> 0"

definition desc_dpl :: "gdt_entry \<Rightarrow> nat" where
  "desc_dpl e = unat (drop_bit 5 (access e) AND 3)"

definition desc_code :: "gdt_entry \<Rightarrow> bool" where
  "desc_code e \<longleftrightarrow> access e AND 0x18 = 0x18"

definition desc_writable_data :: "gdt_entry \<Rightarrow> bool" where
  "desc_writable_data e \<longleftrightarrow> access e AND 0x1A = 0x12"

definition le32 :: "u32 \<Rightarrow> u8 list" where
  "le32 v = map (\<lambda>k. u32_to_u8 (drop_bit (8 * k) v)) [0..<4]"

definition le16 :: "u16 \<Rightarrow> u8 list" where
  "le16 v = [u16_to_u8 v, u16_to_u8 (drop_bit 8 v)]"

definition tss_bytes :: "tss_entry \<Rightarrow> u8 list" where
  "tss_bytes t = concat (map le32 [tss_prev_tss t, tss_esp0 t, tss_ss0 t, tss_esp1 t, tss_ss1 t, tss_esp2 t,
     tss_ss2 t, tss_cr3 t, tss_eip t, tss_eflags t, tss_eax t, tss_ecx t, tss_edx t,
     tss_ebx t, tss_esp t, tss_ebp t, tss_esi t, tss_edi t, tss_es t, tss_cs t,
     tss_ss t, tss_ds t, tss_fs t, tss_gs t, tss_ldt_selector t]) @ le16 (tss_trap t) @ le16 (tss_iomap_base t)"

text \<open>
  The I/O permission bitmap: below the I/O privilege level an access to \<open>port\<close> is allowed when the
  bitmap that \<open>iomap_base\<close> points at, within the segment's limit, has a zero bit for it.
\<close>

definition io_permitted :: "tss_entry \<Rightarrow> u32 \<Rightarrow> nat \<Rightarrow> bool" where
  "io_permitted t limit port \<longleftrightarrow>
     (let byte = unat (tss_iomap_base t) + port div 8 in
      byte + 1 \<le> unat limit \<and> \<not> bit (tss_bytes t ! byte) (port mod 8))"

subsection \<open>Encoding and decoding\<close>

lemma desc_base_of: "desc_base (gdt_entry_of base limit acc gran) = base"
proof (rule bit_word_eqI)
  fix n assume "n < LENGTH(32)"
  then have "n < 16 \<or> 16 \<le> n \<and> n < 24 \<or> 24 \<le> n \<and> n < 32" by auto
  then show "bit (desc_base (gdt_entry_of base limit acc gran)) n \<longleftrightarrow> bit base n"
    by (elim disjE) (auto simp: desc_base_def gdt_entry_of_def bit_simps bit_masks)
qed

lemma desc_raw_limit_of: "desc_raw_limit (gdt_entry_of base limit acc gran) = limit AND 0xFFFFF"
proof (rule bit_word_eqI)
  fix n assume "n < LENGTH(32)"
  then have "n < 16 \<or> 16 \<le> n \<and> n < 20 \<or> 20 \<le> n \<and> n < 32" by auto
  then show "bit (desc_raw_limit (gdt_entry_of base limit acc gran)) n \<longleftrightarrow> bit (limit AND 0xFFFFF) n"
    by (elim disjE) (auto simp: desc_raw_limit_def gdt_entry_of_def bit_simps bit_masks)
qed

lemma desc_flags_of: "desc_flags (gdt_entry_of base limit acc gran) = gran AND 0xF0"
  by (rule bit_word_eqI) (auto simp: desc_flags_def gdt_entry_of_def bit_simps bit_masks)

lemma gdt_init_table:
  assumes "length (gdt s) = 6"
  shows "gdt (gdt_init gdt_addr s) = [gdt_entry_of 0 0 0 0, gdt_entry_of 0 0xFFFFFFFF 0x9A 0xCF,
     gdt_entry_of 0 0xFFFFFFFF 0x92 0xCF, gdt_entry_of 0 0xFFFFFFFF 0xFA 0xCF,
     gdt_entry_of 0 0xFFFFFFFF 0xF2 0xCF, gdt_entry_of 0 0 0 0]"
proof -
  obtain a b c d e f where "gdt s = [a, b, c, d, e, f]"
    using assms by (auto simp: numeral_eq_Suc length_Suc_conv)
  then show ?thesis by (simp add: gdt_init_def gdt_set_gate_def Let_def)
qed

subsection \<open>Properties\<close>

definition segs_reset :: segs where
  "segs_reset = vmm.extend vmm_reset
     (segs.fields (replicate 6 gdt_entry_zero) 0 0 (0, 0) 0 0 0 0 0 0 0 tss_zero)"

lemma length_gdt_reset: "length (gdt segs_reset) = 6"
  by (simp add: segs_reset_def segs.defs vmm.defs)

text \<open>
  A descriptor written by \<open>gdt_set_gate\<close> reads back, as the processor assembles its fields: the
  whole base, the low 20 bits of the limit, the access byte and the four flags; no other entry
  changes.
\<close>

theorem gdt_set_gate_roundtrip:
  fixes base limit :: u32 and acc gran :: u8
  assumes "num < length (gdt s)"
  defines "e \<equiv> gdt (gdt_set_gate num base limit acc gran s) ! num"
  shows "desc_base e = base \<and> desc_raw_limit e = limit AND 0xFFFFF \<and> access e = acc
    \<and> desc_flags e = gran AND 0xF0
    \<and> (\<forall>k. k \<noteq> num \<longrightarrow> gdt (gdt_set_gate num base limit acc gran s) ! k = gdt s ! k)"
proof -
  have "e = gdt_entry_of base limit acc gran" using assms by (simp add: gdt_set_gate_def)
  then show ?thesis
    by (simp add: desc_base_of desc_raw_limit_of desc_flags_of)
      (simp add: gdt_entry_of_def gdt_set_gate_def)
qed

theorem gdt_set_gate_roundtrip_witness:
  "desc_base (gdt (gdt_set_gate 5 0x12345678 0x67 0x89 0x40 segs_reset) ! 5) = 0x12345678"
  using gdt_set_gate_roundtrip [where num = 5 and s = segs_reset and base = "0x12345678" and limit = "0x67" and acc = "0x89" and gran = "0x40"] length_gdt_reset by simp

text \<open>
  After \<open>gdt_init\<close> the descriptor table is the flat model: code and data segments for rings 0
  and 3 with base 0 and limit 4 GB, each present with the right type and privilege, the null
  descriptor absent, the table register loaded with the table and its size, and every segment
  register holding a selector of a ring-0 segment of the right kind.
\<close>

theorem gdt_init_flat_segments:
  fixes gdt_addr :: u32
  assumes "length (gdt s) = 6"
  defines "t \<equiv> gdt_init gdt_addr s"
  shows "(\<forall>i \<in> {1, 2, 3, 4}. desc_base (gdt t ! i) = 0 \<and> desc_limit (gdt t ! i) = 0xFFFFFFFF \<and> desc_present (gdt t ! i))
    \<and> desc_code (gdt t ! 1) \<and> desc_dpl (gdt t ! 1) = 0 \<and> desc_writable_data (gdt t ! 2) \<and> desc_dpl (gdt t ! 2) = 0
    \<and> desc_code (gdt t ! 3) \<and> desc_dpl (gdt t ! 3) = 3 \<and> desc_writable_data (gdt t ! 4) \<and> desc_dpl (gdt t ! 4) = 3
    \<and> \<not> desc_present (gdt t ! 0) \<and> gdtr t = (47, gdt_addr)
    \<and> seg_cs t = 8 * 1 \<and> seg_ds t = 8 * 2 \<and> seg_es t = 8 * 2 \<and> seg_ss t = 8 * 2"
proof -
  have tab: "gdt t = [gdt_entry_of 0 0 0 0, gdt_entry_of 0 0xFFFFFFFF 0x9A 0xCF,
     gdt_entry_of 0 0xFFFFFFFF 0x92 0xCF, gdt_entry_of 0 0xFFFFFFFF 0xFA 0xCF,
     gdt_entry_of 0 0xFFFFFFFF 0xF2 0xCF, gdt_entry_of 0 0 0 0]"
    unfolding t_def by (rule gdt_init_table [OF assms(1)])
  have regs: "gdtr t = (47, gdt_addr)" "seg_cs t = 8" "seg_ds t = 0x10" "seg_es t = 0x10" "seg_ss t = 0x10"
    by (simp_all add: t_def gdt_init_def Let_def gdt_set_gate_def)
  have limit: "desc_limit (gdt_entry_of 0 0xFFFFFFFF acc 0xCF) = 0xFFFFFFFF" for acc
    by (simp add: desc_limit_def desc_raw_limit_def gdt_entry_of_def)
  have nth: "gdt t ! 1 = gdt_entry_of 0 0xFFFFFFFF 0x9A 0xCF" "gdt t ! 2 = gdt_entry_of 0 0xFFFFFFFF 0x92 0xCF"
    "gdt t ! 3 = gdt_entry_of 0 0xFFFFFFFF 0xFA 0xCF" "gdt t ! 4 = gdt_entry_of 0 0xFFFFFFFF 0xF2 0xCF"
    "gdt t ! 0 = gdt_entry_of 0 0 0 0"
    by (simp_all add: tab)
  have acc: "access (gdt_entry_of base limit a gran) = a" for base limit a gran
    by (simp add: gdt_entry_of_def)
  show ?thesis
    by (simp add: nth regs limit desc_base_of del: One_nat_def)
      (simp add: acc desc_present_def desc_code_def desc_writable_data_def desc_dpl_def)
qed

theorem gdt_init_flat_segments_witness:
  "desc_dpl (gdt (gdt_init 0x110000 segs_reset) ! 3) = 3"
  using gdt_init_flat_segments [OF length_gdt_reset, where gdt_addr = "0x110000"] by simp

text \<open>
  C12: After \<open>tss_init\<close> entry 5 describes the TSS (base, limit 103, present, privilege 0), \<open>ss0\<close> is the
  kernel data selector and the task register selects entry 5; \<open>tss_set_esp0\<close> then changes \<open>esp0\<close>
  alone. But \<open>iomap_base\<close> stays 0, so the TSS itself serves as the I/O permission bitmap: whatever
  the kernel stack, ring 3 may access the PS/2 controller's ports 0x60 and 0x64 and the timer's
  port 0x40.
\<close>

theorem tss_init_opens_io_ports:
  fixes esp0 tss_addr :: u32
  assumes "length (gdt s) = 6"
  defines "t \<equiv> tss_set_esp0 esp0 (tss_init tss_addr s)"
  shows "desc_base (gdt t ! 5) = tss_addr \<and> desc_limit (gdt t ! 5) = 103 \<and> desc_present (gdt t ! 5)
    \<and> desc_dpl (gdt t ! 5) = 0 \<and> task_register t = 8 * 5
    \<and> g_tss t = tss_zero\<lparr>tss_ss0 := 0x10, tss_esp0 := esp0\<rparr>
    \<and> (\<forall>port \<in> {0x40, 0x60, 0x64}. io_permitted (g_tss t) (desc_limit (gdt t ! 5)) port)"
proof -
  have e: "gdt t ! 5 = gdt_entry_of tss_addr 103 0x89 0x40"
    using assms by (simp add: tss_init_def gdt_install_tss_def gdt_set_gate_def tss_set_esp0_def TSS_SIZE_def)
  have g: "g_tss t = tss_zero\<lparr>tss_ss0 := 0x10, tss_esp0 := esp0\<rparr>" "task_register t = 0x28"
    by (simp_all add: t_def tss_init_def gdt_install_tss_def gdt_set_gate_def tss_set_esp0_def)
  have limit: "desc_limit (gdt_entry_of tss_addr 103 0x89 0x40) = 103"
    by (simp add: desc_limit_def desc_raw_limit_def gdt_entry_of_def)
  have acc: "access (gdt_entry_of tss_addr 103 0x89 0x40) = 0x89" by (simp add: gdt_entry_of_def)
  have bytes: "tss_bytes (g_tss t) ! 8 = 0x10" "tss_bytes (g_tss t) ! 12 = 0"
    unfolding g by (simp_all add: tss_bytes_def tss_zero_def le32_def upt_rec)
  have base: "tss_iomap_base (g_tss t) = 0" unfolding g by (simp add: tss_zero_def)
  have "io_permitted (g_tss t) 103 port" if "port \<in> {0x40, 0x60, 0x64}" for port
  proof -
    from that consider "port = 0x40" | "port = 0x60" | "port = 0x64" by auto
    then show ?thesis
      using bytes base by cases (simp_all add: io_permitted_def)
  qed
  then show ?thesis
    unfolding e limit using g by (simp add: desc_base_of) (simp add: acc desc_present_def desc_dpl_def)
qed

theorem tss_init_opens_io_ports_witness:
  "io_permitted (g_tss (tss_set_esp0 0x90000 (tss_init 0x111000 segs_reset)))
     (desc_limit (gdt (tss_set_esp0 0x90000 (tss_init 0x111000 segs_reset)) ! 5)) 0x64"
  using tss_init_opens_io_ports [OF length_gdt_reset, of "0x90000" "0x111000"] by blast

end
