(* ===== verification/Interrupts.thy ===== *)
theory Interrupts
  imports Gdt
begin

unbundle bit_operations_syntax

section \<open>Interrupt descriptors, interrupt controller, exception reports\<close>

text \<open>
  Models \<open>kernel/interrupt/idt.c\<close> (the gates, the programming of the two 8259 controllers, the
  exception stubs and their reports) and \<open>kernel/hal/hal.c\<close> (port access and the timer's rate).
  The state adds the gate table, the table register, the trace \<open>port_out\<close> of the bytes written to
  I/O ports, the last page-fault address, and \<open>halted\<close>, set where the code stops the CPU for good.
  Bytes read from ports are arguments. The handlers' addresses come from the linker: the record
  \<open>handlers\<close> is an argument of \<open>idt_init\<close>. The context switch of the timer's handler is in
  \<open>Threads\<close> and \<open>Scheduler\<close>.

  \<open>pic_run\<close> is the documented initialisation protocol of the 8259, the abstract view of the
  trace the code writes to it.
\<close>

subsection \<open>Data\<close>

record idt_entry =
  offset_low :: u16
  selector :: u16
  gate_zero :: u8
  type_attr :: u8
  offset_high :: u16

record handlers =
  exc_divide_error :: u32
  exc_invalid_opcode :: u32
  exc_double_fault :: u32
  exc_gpf_addr :: u32
  exc_page_fault_addr :: u32
  exc_generic :: u32
  irq0_timer_handler :: u32
  irq1_keyboard_handler :: u32
  irq_generic_handler :: u32
  syscall_entry_addr :: u32

record intr = segs +
  idt :: "idt_entry list"
  idtp_limit :: u16
  idtp_base :: u32
  idtr :: "u16 \<times> u32"
  port_out :: "(u16 \<times> u8) list"
  g_last_pf_addr :: u32
  halted :: bool

definition PIC1_CMD :: u16 where [const_defs]: "PIC1_CMD = 0x20"
definition PIC1_DATA :: u16 where [const_defs]: "PIC1_DATA = 0x21"
definition PIC2_CMD :: u16 where [const_defs]: "PIC2_CMD = 0xA0"
definition PIC2_DATA :: u16 where [const_defs]: "PIC2_DATA = 0xA1"
definition PIC_EOI :: u8 where [const_defs]: "PIC_EOI = 0x20"
definition IRQ_BASE_MASTER :: u8 where [const_defs]: "IRQ_BASE_MASTER = 0x20"
definition IRQ_BASE_SLAVE :: u8 where [const_defs]: "IRQ_BASE_SLAVE = 0x28"

subsection \<open>Ports and the interrupt controllers\<close>

definition outb :: "u16 \<Rightarrow> u8 \<Rightarrow> 'a intr_scheme \<Rightarrow> 'a intr_scheme" where
  "outb port v s = s\<lparr>port_out := port_out s @ [(port, v)]\<rparr>"

definition io_wait :: "'a intr_scheme \<Rightarrow> 'a intr_scheme" where
  "io_wait s = outb 0x80 0 s"

definition pic_remap :: "'a intr_scheme \<Rightarrow> 'a intr_scheme" where
  "pic_remap s =
     (let s = io_wait (outb PIC1_CMD 0x11 s);
          s = io_wait (outb PIC2_CMD 0x11 s);
          s = io_wait (outb PIC1_DATA IRQ_BASE_MASTER s);
          s = io_wait (outb PIC2_DATA IRQ_BASE_SLAVE s);
          s = io_wait (outb PIC1_DATA 0x04 s);
          s = io_wait (outb PIC2_DATA 0x02 s);
          s = io_wait (outb PIC1_DATA 0x01 s);
          s = io_wait (outb PIC2_DATA 0x01 s);
          s = outb PIC1_DATA 0xFF s;
          s = outb PIC2_DATA 0xFF s
      in s)"

definition pic_eoi :: "u8 \<Rightarrow> 'a intr_scheme \<Rightarrow> 'a intr_scheme" where
  "pic_eoi irq s =
     (let s = (if irq \<ge> 8 then outb PIC2_CMD PIC_EOI s else s)
      in outb PIC1_CMD PIC_EOI s)"

text \<open>The generic IRQ handler acknowledges both controllers whatever the line.\<close>

definition irq_generic :: "'a intr_scheme \<Rightarrow> 'a intr_scheme" where
  "irq_generic s = outb 0xA0 0x20 (outb 0x20 0x20 s)"

definition pit_set_frequency :: "u32 \<Rightarrow> 'a intr_scheme \<Rightarrow> 'a intr_scheme" where
  "pit_set_frequency freq_hz s =
     (if freq_hz = 0 then s
      else let divisor = u32_to_u16 (1193182 div freq_hz);
               s = outb 0x43 0x36 s;
               s = outb 0x40 (u16_to_u8 (divisor AND 0xFF)) s
           in outb 0x40 (u16_to_u8 (drop_bit 8 divisor)) s)"

definition hal_init :: "'a intr_scheme \<Rightarrow> 'a intr_scheme" where
  "hal_init s = pit_set_frequency 100 s"

subsection \<open>Exceptions\<close>

definition pf_report :: "u32 \<Rightarrow> 'a intr_scheme \<Rightarrow> 'a intr_scheme" where
  "pf_report addr s =
     (let s = s\<lparr>g_last_pf_addr := addr\<rparr>;
          s = screen_set_color 12 0 s;
          s = screen_write ''PF @ 0x'' s;
          s = screen_writeln (hex8 addr) s;
          s = serial_puts ''PF @ '' s;
          s = serial_puts (hex8 addr) s
      in serial_puts [CHR 0x0D, CHR 0x0A] s)"

definition gpf_report :: "u32 \<Rightarrow> u32 \<Rightarrow> 'a intr_scheme \<Rightarrow> 'a intr_scheme" where
  "gpf_report eip err s =
     (let s = serial_puts (''GPF detected'' @ [CHR 0x0D, CHR 0x0A]) s;
          buf = ''EIP='' @ hex8 eip @ '' ERR='' @ hex8 err @ [CHR 0x0D, CHR 0x0A]
      in serial_puts buf s)"

text \<open>The two letters in the top right corner, then \<open>cli\<close> and an endless \<open>hlt\<close>.\<close>

definition exception_stub :: "u16 \<Rightarrow> u16 \<Rightarrow> 'a intr_scheme \<Rightarrow> 'a intr_scheme" where
  "exception_stub c1 c2 s =
     s\<lparr>vga_text := (vga_text s)(78 := c1, 79 := c2), halted := True\<rparr>"

text \<open>
  On entry the processor has pushed the error code, then below it in the list the interrupted
  \<open>eip\<close>, \<open>cs\<close> and \<open>eflags\<close>; \<open>call\<close> leaves the two words at the top of the stack as the arguments.
\<close>

fun exc_gpf :: "u32 list \<Rightarrow> 'a intr_scheme \<Rightarrow> 'a intr_scheme" where
  "exc_gpf (arg1 # arg2 # rest) s = exception_stub 0x4C47 0x4C50 (gpf_report arg1 arg2 s)"
| "exc_gpf _ s = s"

definition exc_page_fault :: "u32 \<Rightarrow> 'a intr_scheme \<Rightarrow> 'a intr_scheme" where
  "exc_page_fault cr2 s = exception_stub 0x4C50 0x4C46 (pf_report cr2 s)"

subsection \<open>Gates\<close>

definition idt_entry_of :: "u32 \<Rightarrow> u16 \<Rightarrow> u8 \<Rightarrow> idt_entry" where
  "idt_entry_of base sel flags =
     \<lparr>offset_low = u32_to_u16 (base AND 0xFFFF), selector = sel, gate_zero = 0, type_attr = flags,
      offset_high = u32_to_u16 (drop_bit 16 base AND 0xFFFF)\<rparr>"

definition idt_set_gate :: "u8 \<Rightarrow> u32 \<Rightarrow> u16 \<Rightarrow> u8 \<Rightarrow> 'a intr_scheme \<Rightarrow> 'a intr_scheme" where
  "idt_set_gate num base sel flags s = s\<lparr>idt := (idt s)[unat num := idt_entry_of base sel flags]\<rparr>"

definition idt_init :: "handlers \<Rightarrow> u32 \<Rightarrow> 'a intr_scheme \<Rightarrow> 'a intr_scheme" where
  "idt_init h idt_addr s =
     (let s = pic_remap s;
          s = s\<lparr>idtp_limit := 8 * 256 - 1, idtp_base := idt_addr\<rparr>;
          s = fold (\<lambda>i. idt_set_gate (of_nat i) (exc_generic h) 0x08 0x8E) [0..<256] s;
          s = idt_set_gate 0x00 (exc_divide_error h) 0x08 0x8E s;
          s = idt_set_gate 0x06 (exc_invalid_opcode h) 0x08 0x8E s;
          s = idt_set_gate 0x08 (exc_double_fault h) 0x08 0x8E s;
          s = idt_set_gate 0x0D (exc_gpf_addr h) 0x08 0x8E s;
          s = idt_set_gate 0x0E (exc_page_fault_addr h) 0x08 0x8E s;
          s = idt_set_gate 0x20 (irq0_timer_handler h) 0x08 0x8E s;
          s = idt_set_gate 0x21 (irq1_keyboard_handler h) 0x08 0x8E s;
          s = fold (\<lambda>i. idt_set_gate (of_nat i) (irq_generic_handler h) 0x08 0x8E) [0x22..<0x30] s;
          s = idt_set_gate 0x30 (syscall_entry_addr h) 0x08 0xEE s;
          s = s\<lparr>idtr := (idtp_limit s, idtp_base s)\<rparr>;
          s = outb PIC1_DATA 0xFE s
      in outb PIC2_DATA 0xFF s)"

subsection \<open>How the processor and the controllers read them\<close>

definition gate_offset :: "idt_entry \<Rightarrow> u32" where
  "gate_offset e = u16_to_u32 (offset_low e) OR push_bit 16 (u16_to_u32 (offset_high e))"

definition gate_dpl :: "idt_entry \<Rightarrow> nat" where
  "gate_dpl e = unat (drop_bit 5 (type_attr e) AND 3)"

text \<open>A present 32-bit interrupt gate (the handler starts with interrupts off).\<close>

definition interrupt_gate :: "idt_entry \<Rightarrow> bool" where
  "interrupt_gate e \<longleftrightarrow> type_attr e AND 0x9F = 0x8E \<and> gate_zero e = 0"

text \<open>
  An 8259 after a command byte with bit 4 set expects its vector base, its cascade byte and, if
  bit 0 was set, its mode; afterwards a data byte is the interrupt mask.
\<close>

record pic =
  pic_phase :: nat
  pic_base :: u8
  pic_cascade :: u8
  pic_mode :: u8
  pic_mask :: u8

definition pic_reset :: pic where
  "pic_reset = \<lparr>pic_phase = 0, pic_base = 0, pic_cascade = 0, pic_mode = 0, pic_mask = 0\<rparr>"

definition pic_step :: "u16 \<Rightarrow> u16 \<Rightarrow> u16 \<times> u8 \<Rightarrow> pic \<Rightarrow> pic" where
  "pic_step cmd data w p =
     (case w of (port, v) \<Rightarrow>
       if port = cmd then (if v AND 0x10 \<noteq> 0 then p\<lparr>pic_phase := 2\<rparr> else p)
       else if port = data then
         (if pic_phase p = 2 then p\<lparr>pic_base := v, pic_phase := 3\<rparr>
          else if pic_phase p = 3 then p\<lparr>pic_cascade := v, pic_phase := 4\<rparr>
          else if pic_phase p = 4 then p\<lparr>pic_mode := v, pic_phase := 0\<rparr>
          else p\<lparr>pic_mask := v\<rparr>)
       else p)"

definition pic_run :: "u16 \<Rightarrow> u16 \<Rightarrow> (u16 \<times> u8) list \<Rightarrow> pic" where
  "pic_run cmd data ws = fold (pic_step cmd data) ws pic_reset"

subsection \<open>The gate table\<close>

lemma unat_vector: "i < 256 \<Longrightarrow> unat (of_nat i :: u8) = i"
  by (simp add: unat_of_nat take_bit_eq_mod)

lemma idt_fill:
  "n \<le> 256 \<Longrightarrow> fold (\<lambda>i. idt_set_gate (of_nat i) base sel flags) [m..<n] s
    = s\<lparr>idt := fold (\<lambda>i xs. xs[i := idt_entry_of base sel flags]) [m..<n] (idt s)\<rparr>"
proof (induction n)
  case 0
  then show ?case by simp
next
  case (Suc n)
  then show ?case by (cases "m \<le> n") (simp_all add: idt_set_gate_def unat_vector)
qed

lemma gate_offset_of: "gate_offset (idt_entry_of base sel flags) = base"
proof (rule bit_word_eqI)
  fix n assume "n < LENGTH(32)"
  then have "n < 16 \<or> 16 \<le> n \<and> n < 32" by auto
  then show "bit (gate_offset (idt_entry_of base sel flags)) n \<longleftrightarrow> bit base n"
    by (elim disjE) (auto simp: gate_offset_def idt_entry_of_def bit_simps bit_masks)
qed

text \<open>The handler each vector should have, and its gate's attributes.\<close>

definition handler_of :: "handlers \<Rightarrow> nat \<Rightarrow> u32" where
  "handler_of h i =
     (if i = 0x00 then exc_divide_error h else if i = 0x06 then exc_invalid_opcode h
      else if i = 0x08 then exc_double_fault h else if i = 0x0D then exc_gpf_addr h
      else if i = 0x0E then exc_page_fault_addr h else if i = 0x20 then irq0_timer_handler h
      else if i = 0x21 then irq1_keyboard_handler h else if 0x22 \<le> i \<and> i < 0x30 then irq_generic_handler h
      else if i = 0x30 then syscall_entry_addr h else exc_generic h)"

lemma idt_init_gate:
  assumes "length (idt s) = 256" "i < 256"
  shows "idt (idt_init h a s) ! i = idt_entry_of (handler_of h i) 0x08 (if i = 0x30 then 0xEE else 0x8E)"
proof -
  let ?xs = "fold (\<lambda>i xs. xs[i := idt_entry_of (exc_generic h) 0x08 0x8E]) [0..<256] (idt s)"
  let ?ys = "?xs[0 := idt_entry_of (exc_divide_error h) 0x08 0x8E,
    6 := idt_entry_of (exc_invalid_opcode h) 0x08 0x8E, 8 := idt_entry_of (exc_double_fault h) 0x08 0x8E,
    13 := idt_entry_of (exc_gpf_addr h) 0x08 0x8E, 14 := idt_entry_of (exc_page_fault_addr h) 0x08 0x8E,
    32 := idt_entry_of (irq0_timer_handler h) 0x08 0x8E, 33 := idt_entry_of (irq1_keyboard_handler h) 0x08 0x8E]"
  let ?zs = "fold (\<lambda>i xs. xs[i := idt_entry_of (irq_generic_handler h) 0x08 0x8E]) [34..<48] ?ys"
  have idt0: "idt (outb p v t) = idt t" for p v and t :: "'a intr_scheme" by (simp add: outb_def)
  then have idt1: "idt (pic_remap s) = idt s" by (simp add: pic_remap_def io_wait_def Let_def)
  have "idt (idt_init h a s) = ?zs[48 := idt_entry_of (syscall_entry_addr h) 0x08 0xEE]"
    by (simp add: idt_init_def Let_def idt0 idt1 idt_fill idt_set_gate_def)
  moreover have len: "length ?xs = 256" "length ?zs = 256" using assms(1) by simp_all
  have "?xs ! i = idt_entry_of (exc_generic h) 0x08 0x8E"
    using assms fold_update_upt_nth [of 256 "idt s" i "\<lambda>_. idt_entry_of (exc_generic h) 0x08 0x8E" 0] by simp
  moreover have "?zs ! i = (if 34 \<le> i \<and> i < 48 then idt_entry_of (irq_generic_handler h) 0x08 0x8E else ?ys ! i)"
    using assms fold_update_upt_nth [of 48 ?ys i "\<lambda>_. idt_entry_of (irq_generic_handler h) 0x08 0x8E" 34] by simp
  ultimately show ?thesis
    using assms len by (simp add: nth_list_update handler_of_def)
qed

lemma idt_init_ports:
  "port_out (idt_init h a s) = port_out s @
     [(0x20, 0x11), (0x80, 0), (0xA0, 0x11), (0x80, 0), (0x21, 0x20), (0x80, 0), (0xA1, 0x28), (0x80, 0),
      (0x21, 0x04), (0x80, 0), (0xA1, 0x02), (0x80, 0), (0x21, 0x01), (0x80, 0), (0xA1, 0x01), (0x80, 0),
      (0x21, 0xFF), (0xA1, 0xFF), (0x21, 0xFE), (0xA1, 0xFF)]"
proof -
  have outb_ports: "port_out (outb p v t) = port_out t @ [(p, v)]" for p v and t :: "'a intr_scheme" by (simp add: outb_def)
  have remap: "port_out (pic_remap s) = port_out s @
     [(0x20, 0x11), (0x80, 0), (0xA0, 0x11), (0x80, 0), (0x21, 0x20), (0x80, 0), (0xA1, 0x28), (0x80, 0),
      (0x21, 0x04), (0x80, 0), (0xA1, 0x02), (0x80, 0), (0x21, 0x01), (0x80, 0), (0xA1, 0x01), (0x80, 0),
      (0x21, 0xFF), (0xA1, 0xFF)]"
    by (simp add: pic_remap_def io_wait_def Let_def outb_ports const_defs)
  show ?thesis
    by (simp add: idt_init_def Let_def outb_ports idt_fill idt_set_gate_def remap) (simp add: const_defs)
qed

subsection \<open>Properties\<close>

definition intr_reset :: intr where
  "intr_reset = segs.extend segs_reset
     (intr.fields (replicate 256 \<lparr>offset_low = 0, selector = 0, gate_zero = 0, type_attr = 0, offset_high = 0\<rparr>)
        0 0 (0, 0) [] 0 False)"

text \<open>One possible placement of the handlers by the linker.\<close>

definition linked_handlers :: handlers where
  "linked_handlers = \<lparr>exc_divide_error = 0x102000, exc_invalid_opcode = 0x102020, exc_double_fault = 0x102040,
     exc_gpf_addr = 0x102060, exc_page_fault_addr = 0x102080, exc_generic = 0x1020A0,
     irq0_timer_handler = 0x1020C0, irq1_keyboard_handler = 0x102100, irq_generic_handler = 0x102120,
     syscall_entry_addr = 0x103000\<rparr>"

lemma length_idt_reset: "length (idt intr_reset) = 256"
  by (simp add: intr_reset_def intr.defs segs.defs)

text \<open>
  After \<open>idt_init\<close> every one of the 256 vectors has a present 32-bit interrupt gate through the
  kernel code selector to the handler meant for it, the table register describes the whole table,
  and vector 0x30 (the system call) is the only one ring 3 may raise.
\<close>

theorem idt_init_gates:
  fixes h :: handlers and idt_addr :: u32
  assumes "length (idt s) = 256" "i < 256"
  defines "t \<equiv> idt_init h idt_addr s"
  shows "gate_offset (idt t ! i) = handler_of h i \<and> interrupt_gate (idt t ! i) \<and> selector (idt t ! i) = 0x08
    \<and> gate_dpl (idt t ! i) = (if i = 0x30 then 3 else 0) \<and> idtr t = (2047, idt_addr)"
proof -
  have "idtr t = (2047, idt_addr)"
    by (simp add: t_def idt_init_def Let_def idt_fill idt_set_gate_def outb_def)
  then show ?thesis
    unfolding t_def idt_init_gate [OF assms(1,2)]
    by (simp add: gate_offset_of) (simp add: idt_entry_of_def interrupt_gate_def gate_dpl_def)
qed

theorem idt_init_gates_witness:
  "gate_dpl (idt (idt_init linked_handlers 0x112000 intr_reset) ! 0x30) = 3"
  using idt_init_gates [OF length_idt_reset, of "0x30" linked_handlers "0x112000"] by simp

text \<open>
  The bytes \<open>idt_init\<close> writes to the two interrupt controllers, in the order written, take both
  through a complete initialisation: the master's vectors start at 0x20 and the slave's at 0x28
  (away from the processor's exceptions), cascaded on line 2, 8086 mode, and at the end only the
  timer's line is unmasked.
\<close>

theorem idt_init_programs_pics:
  assumes "port_out s = []"
  shows "pic_run 0x20 0x21 (port_out (idt_init h a s)) =
      \<lparr>pic_phase = 0, pic_base = 0x20, pic_cascade = push_bit 2 1, pic_mode = 0x01, pic_mask = NOT 1\<rparr>
    \<and> pic_run 0xA0 0xA1 (port_out (idt_init h a s)) =
      \<lparr>pic_phase = 0, pic_base = 0x28, pic_cascade = 2, pic_mode = 0x01, pic_mask = NOT 0\<rparr>"
  unfolding idt_init_ports assms by (simp add: pic_run_def pic_step_def pic_reset_def)

theorem idt_init_programs_pics_witness:
  "pic_base (pic_run 0x20 0x21 (port_out (idt_init linked_handlers 0x112000 intr_reset))) = 0x20"
  using idt_init_programs_pics [of intr_reset linked_handlers "0x112000"] by (simp add: intr_reset_def intr.defs segs.defs)

text \<open>
  On a general protection fault the processor leaves the error code on top of the interrupted
  \<open>eip\<close>, and the stub calls \<open>gpf_report(eip, error)\<close> with the stack as it is: the report prints the
  error code as \<open>EIP\<close> and the interrupted address as \<open>ERR\<close>, and then stops the machine.
\<close>

theorem exc_gpf_report_swaps_arguments:
  "serial_out (exc_gpf [err, eip, cs, eflags] s) =
     serial_out s @ ''GPF detected'' @ [CHR 0x0D, CHR 0x0A]
     @ ''EIP='' @ hex8 err @ '' ERR='' @ hex8 eip @ [CHR 0x0D, CHR 0x0A]
   \<and> halted (exc_gpf [err, eip, cs, eflags] s)
   \<and> serial_out (exc_page_fault cr2 s) = serial_out s @ ''PF @ '' @ hex8 cr2 @ [CHR 0x0D, CHR 0x0A]
   \<and> g_last_pf_addr (exc_page_fault cr2 s) = cr2"
proof -
  have scr: "serial_out (screen_putchar c t) = serial_out t" "g_last_pf_addr (screen_putchar c t) = g_last_pf_addr t"
    for c and t :: "'a intr_scheme"
    by (simp_all add: screen_putchar_def Let_def screen_scroll_def)
  then have fold: "serial_out (fold screen_putchar str t) = serial_out t"
    "g_last_pf_addr (fold screen_putchar str t) = g_last_pf_addr t" for str and t :: "'a intr_scheme"
    by (induction str arbitrary: t) simp_all
  show ?thesis
    by (simp add: gpf_report_def exception_stub_def serial_puts_eq exc_page_fault_def pf_report_def Let_def
        screen_writeln_def screen_write_fold fold scr screen_set_color_def)
qed

text \<open>
  \<open>pit_set_frequency\<close> writes the command byte and then the two bytes of the divisor, which give
  a rate within one divisor step of the one asked for, for every rate from 19 Hz to the input
  clock; for a lower rate (not 0) the 16-bit divisor is truncated.
\<close>

theorem pit_set_frequency_divisor:
  fixes f :: u32
  assumes "f \<noteq> 0"
  shows "\<exists>lo hi. port_out (pit_set_frequency f s) = port_out s @ [(0x43, 0x36), (0x40, lo), (0x40, hi)]
    \<and> unat lo + 256 * unat hi = (1193182 div unat f) mod 65536
    \<and> (19 \<le> unat f \<longrightarrow> unat lo + 256 * unat hi = 1193182 div unat f)"
proof -
  let ?d = "u32_to_u16 (1193182 div f)"
  let ?lo = "u16_to_u8 (?d AND 0xFF)" and ?hi = "u16_to_u8 (drop_bit 8 ?d)"
  have ports: "port_out (pit_set_frequency f s) = port_out s @ [(0x43, 0x36), (0x40, ?lo), (0x40, ?hi)]"
    using assms by (simp add: pit_set_frequency_def outb_def Let_def)
  have d: "unat ?d = (1193182 div unat f) mod 65536"
    by (simp add: unsigned_ucast_eq take_bit_eq_mod unat_div_distrib)
  have "unat ?lo = unat ?d mod 256"
  proof -
    have "?d AND 0xFF = take_bit 8 ?d" by (simp add: take_bit_eq_mask mask_eq_exp_minus_1)
    then have "unat (?d AND 0xFF) = take_bit 8 (unat ?d)" by (simp only: unsigned_take_bit_eq)
    then show ?thesis by (simp add: unsigned_ucast_eq take_bit_eq_mod)
  qed
  moreover have "unat ?hi = unat ?d div 256"
  proof -
    have "unat (drop_bit 8 ?d) = unat ?d div 256" by (simp add: unat_drop_bit del: drop_bit_eq_div)
    moreover have "unat ?d div 256 < 256" using unat_u16_less [of ?d] by (simp add: less_mult_imp_div_less)
    ultimately show ?thesis by (simp add: unsigned_ucast_eq take_bit_eq_mod del: drop_bit_eq_div)
  qed
  ultimately have sum: "unat ?lo + 256 * unat ?hi = (1193182 div unat f) mod 65536"
    using d by (metis add.commute mult_div_mod_eq)
  moreover have "1193182 div unat f < 65536" if "19 \<le> unat f"
  proof -
    have "1193182 div unat f \<le> 1193182 div 19" by (rule div_le_mono2) (use that in simp_all)
    then show ?thesis by simp
  qed
  ultimately show ?thesis using ports by (intro exI [of _ ?lo] exI [of _ ?hi]) simp
qed

theorem pit_set_frequency_divisor_witness:
  "\<exists>lo hi. port_out (hal_init intr_reset) = [(0x43, 0x36), (0x40, lo), (0x40, hi)] \<and> unat lo + 256 * unat hi = 11931"
  using pit_set_frequency_divisor [of 100 intr_reset]
  by (simp add: hal_init_def intr_reset_def intr.defs segs.defs)

end
