(* ===== verification/Threads.thy ===== *)
theory Threads
  imports Interrupts
begin

unbundle bit_operations_syntax

section \<open>Threads, processes and saved contexts\<close>

text \<open>
  The tables of \<open>kernel/proc/process.c\<close> with their slot allocation and lookups, the state of
  \<open>kernel/proc/scheduler.c\<close>, and the stack frames of a context switch: what the timer's handler in
  \<open>kernel/interrupt/idt.c\<close> pushes and pops, and the frames \<open>setup_kernel_stack\<close> and
  \<open>setup_user_stack\<close> fake for a thread that has never run.

  A pointer into \<open>g_threads\<close> or \<open>g_processes\<close> is the slot's index, \<open>None\<close> the null pointer. A
  process's name is its C string.
\<close>

subsection \<open>Data\<close>

datatype thread_state = THREAD_READY | THREAD_RUNNING | THREAD_BLOCKED | THREAD_DEAD

record thread =
  tid :: u32
  t_pid :: u32
  tstate :: thread_state
  t_privilege :: u32
  kernel_stack_top :: u32
  kernel_stack_base :: u32
  user_stack_top :: u32
  saved_context :: u32
  quantum :: int
  t_next :: "nat option"

record process =
  pid :: u32
  pname :: string
  p_privilege :: u32
  page_dir :: u32
  main_thread :: "nat option"
  active :: bool

definition thread_zero :: thread where
  "thread_zero = \<lparr>tid = 0, t_pid = 0, tstate = THREAD_READY, t_privilege = 0, kernel_stack_top = 0,
     kernel_stack_base = 0, user_stack_top = 0, saved_context = 0, quantum = 0, t_next = None\<rparr>"

definition process_zero :: process where
  "process_zero = \<lparr>pid = 0, pname = [], p_privilege = 0, page_dir = 0, main_thread = None, active = False\<rparr>"

definition MAX_PROCESSES :: nat where [const_defs]: "MAX_PROCESSES = 16"
definition MAX_THREADS :: nat where [const_defs]: "MAX_THREADS = 32"
definition USER_STACK_TOP :: u32 where [const_defs]: "USER_STACK_TOP = 0x7FFF0000"
definition USER_STACK_SIZE :: u32 where [const_defs]: "USER_STACK_SIZE = 0x10000"
definition PRIVILEGE_KERNEL :: u32 where [const_defs]: "PRIVILEGE_KERNEL = 0"
definition PRIVILEGE_USER :: u32 where [const_defs]: "PRIVILEGE_USER = 3"
definition SCHEDULER_QUANTUM :: int where [const_defs]: "SCHEDULER_QUANTUM = 10"

text \<open>\<open>sys_ticks\<close> is the tick counter of \<open>kernel/interrupt/syscall.c\<close> the scheduler advances.\<close>

record proc = intr +
  g_processes :: "process list"
  g_threads :: "thread list"
  g_next_pid :: u32
  g_next_tid :: u32
  g_current_thread :: "nat option"
  sched_queue_head :: "nat option"
  sched_queue_tail :: "nat option"
  sched_current :: "nat option"
  sched_switches :: u32
  sys_ticks :: u32

text \<open>The state at power-on: the static tables are zero, the counters as initialised.\<close>

definition proc_reset :: proc where
  "proc_reset = intr.extend intr_reset
     (proc.fields (replicate 16 process_zero) (replicate 32 thread_zero) 1 1 None None None None 0 0)"

definition upd_thread :: "nat \<Rightarrow> (thread \<Rightarrow> thread) \<Rightarrow> 'a proc_scheme \<Rightarrow> 'a proc_scheme" where
  "upd_thread i f s = s\<lparr>g_threads := (g_threads s)[i := f (g_threads s ! i)]\<rparr>"

definition upd_process :: "nat \<Rightarrow> (process \<Rightarrow> process) \<Rightarrow> 'a proc_scheme \<Rightarrow> 'a proc_scheme" where
  "upd_process i f s = s\<lparr>g_processes := (g_processes s)[i := f (g_processes s ! i)]\<rparr>"

subsection \<open>Slots\<close>

text \<open>\<open>for (i = 0; i < n; i++) if (P(i)) return i;\<close>\<close>

fun find_slot :: "('b \<Rightarrow> bool) \<Rightarrow> 'b list \<Rightarrow> nat option" where
  "find_slot P [] = None"
| "find_slot P (x # xs) = (if P x then Some 0 else map_option Suc (find_slot P xs))"

definition alloc_process :: "'a proc_scheme \<Rightarrow> nat option \<times> 'a proc_scheme" where
  "alloc_process s =
     (case find_slot (\<lambda>p. \<not> active p) (g_processes s) of
        Some i \<Rightarrow>
          (let s = upd_process i (\<lambda>_. process_zero) s;
               s = upd_process i (\<lambda>p. p\<lparr>active := True\<rparr>) s;
               s = upd_process i (\<lambda>p. p\<lparr>pid := g_next_pid s\<rparr>) s
           in (Some i, s\<lparr>g_next_pid := g_next_pid s + 1\<rparr>))
      | None \<Rightarrow> (None, s))"

definition take_thread_slot :: "nat \<Rightarrow> 'a proc_scheme \<Rightarrow> 'a proc_scheme" where
  "take_thread_slot i s =
     (let s = upd_thread i (\<lambda>_. thread_zero) s;
          s = upd_thread i (\<lambda>t. t\<lparr>tid := g_next_tid s\<rparr>) s
      in s\<lparr>g_next_tid := g_next_tid s + 1\<rparr>)"

definition alloc_thread :: "'a proc_scheme \<Rightarrow> nat option \<times> 'a proc_scheme" where
  "alloc_thread s =
     (case find_slot (\<lambda>t. tstate t = THREAD_DEAD \<and> tid t = 0) (g_threads s) of
        Some i \<Rightarrow> (Some i, take_thread_slot i s)
      | None \<Rightarrow>
         (case find_slot (\<lambda>t. tid t = 0) (g_threads s) of
            Some i \<Rightarrow> (Some i, take_thread_slot i s)
          | None \<Rightarrow> (None, s)))"

definition proc_current_thread :: "'a proc_scheme \<Rightarrow> nat option" where
  "proc_current_thread s = g_current_thread s"

definition proc_get_process_by_pid :: "u32 \<Rightarrow> 'a proc_scheme \<Rightarrow> nat option" where
  "proc_get_process_by_pid p s = find_slot (\<lambda>q. active q \<and> pid q = p) (g_processes s)"

definition proc_current_process :: "'a proc_scheme \<Rightarrow> nat option" where
  "proc_current_process s =
     (case g_current_thread s of
        None \<Rightarrow> None
      | Some t \<Rightarrow> (let p = t_pid (g_threads s ! t) in find_slot (\<lambda>q. active q \<and> pid q = p) (g_processes s)))"

definition proc_set_current_thread :: "nat option \<Rightarrow> 'a proc_scheme \<Rightarrow> 'a proc_scheme" where
  "proc_set_current_thread t s = s\<lparr>g_current_thread := t\<rparr>"

definition proc_get_thread_table :: "'a proc_scheme \<Rightarrow> thread list" where
  "proc_get_thread_table s = g_threads s"

subsection \<open>Saved contexts on the kernel stack\<close>

text \<open>\<open>*(--esp) = v\<close>, and the x86 \<open>push\<close>.\<close>

definition push32 :: "u32 \<Rightarrow> u32 \<times> memory \<Rightarrow> u32 \<times> memory" where
  "push32 v c = (case c of (esp, m) \<Rightarrow> (esp - 4, store32 m (esp - 4) v))"

definition push_all :: "u32 list \<Rightarrow> u32 \<times> memory \<Rightarrow> u32 \<times> memory" where
  "push_all vs c = fold push32 vs c"

definition setup_kernel_stack :: "u32 \<Rightarrow> u32 \<Rightarrow> memory \<Rightarrow> u32 \<times> memory" where
  "setup_kernel_stack stack_top entry_point m =
     push_all [0x00000202, 0x08, entry_point,
               0, 0,
               0, 0, 0, 0, 0, 0, 0, 0,
               0x10, 0x10, 0x10, 0x10] (stack_top, m)"

definition setup_user_stack :: "u32 \<Rightarrow> u32 \<Rightarrow> u32 \<Rightarrow> memory \<Rightarrow> u32 \<times> memory" where
  "setup_user_stack kstack_top entry_virt user_esp m =
     push_all [0x23, user_esp, 0x00000202, 0x1B, entry_virt,
               0, 0,
               0, 0, 0, 0, 0, 0, 0, 0,
               0x23, 0x23, 0x23, 0x23] (kstack_top, m)"

record cpu_regs =
  r_eax :: u32
  r_ecx :: u32
  r_edx :: u32
  r_ebx :: u32
  r_esp :: u32
  r_ebp :: u32
  r_esi :: u32
  r_edi :: u32
  r_ds :: u32
  r_es :: u32
  r_fs :: u32
  r_gs :: u32
  r_ss :: u32
  r_eip :: u32
  r_cs :: u32
  r_eflags :: u32

text \<open>
  The timer's interrupt: the processor switches to \<open>esp0\<close> and pushes \<open>ss\<close> and \<open>esp\<close> when it comes
  from ring 3, then pushes \<open>eflags\<close>, \<open>cs\<close> and \<open>eip\<close>; the handler pushes the rest. The result is the
  address of the frame and the memory.
\<close>

definition from_ring3 :: "cpu_regs \<Rightarrow> bool" where
  "from_ring3 r \<longleftrightarrow> r_cs r AND 3 = 3"

definition irq0_save :: "u32 \<Rightarrow> cpu_regs \<Rightarrow> memory \<Rightarrow> u32 \<times> memory" where
  "irq0_save esp0 r m =
     (let c = (if from_ring3 r then push_all [r_ss r, r_esp r] (esp0, m) else (r_esp r, m));
          c = push_all [r_eflags r, r_cs r, r_eip r] c;
          c = push_all [0, 0x20] c;
          esp_before = fst c;
          c = push_all [r_eax r, r_ecx r, r_edx r, r_ebx r, esp_before, r_ebp r, r_esi r, r_edi r] c
      in push_all [r_gs r, r_fs r, r_es r, r_ds r] c)"

text \<open>
  The end of the handler with \<open>esp\<close> the frame: four \<open>pop\<close>s of segments, \<open>popa\<close> (which skips the
  saved \<open>esp\<close>), \<open>add $8\<close>, \<open>iret\<close> (which pops \<open>esp\<close> and \<open>ss\<close> when it returns to ring 3; otherwise it
  stays on this stack and with this \<open>ss\<close>).
\<close>

definition irq0_restore :: "u32 \<Rightarrow> u32 \<Rightarrow> memory \<Rightarrow> cpu_regs" where
  "irq0_restore kernel_ss esp m =
     (let w = (\<lambda>k. load32 m (esp + 4 * of_nat k));
          cs = w 15
      in \<lparr>r_eax = w 11, r_ecx = w 10, r_edx = w 9, r_ebx = w 8,
          r_esp = (if cs AND 3 = 3 then w 17 else esp + 4 * 17),
          r_ebp = w 6, r_esi = w 5, r_edi = w 4,
          r_ds = w 0, r_es = w 1, r_fs = w 2, r_gs = w 3,
          r_ss = (if cs AND 3 = 3 then w 18 else kernel_ss),
          r_eip = w 14, r_cs = cs, r_eflags = w 16\<rparr>)"

subsection \<open>Slot search\<close>

lemma find_slot_Some:
  "find_slot P xs = Some i \<Longrightarrow> i < length xs \<and> P (xs ! i) \<and> (\<forall>j < i. \<not> P (xs ! j))"
proof (induction xs arbitrary: i)
  case Nil
  then show ?case by simp
next
  case (Cons x xs)
  show ?case
  proof (cases "P x")
    case True
    with Cons.prems show ?thesis by simp
  next
    case False
    with Cons.prems obtain k where k: "find_slot P xs = Some k" "i = Suc k" by auto
    from Cons.IH [OF k(1)] k(2) False show ?thesis by (auto simp: less_Suc_eq_0_disj)
  qed
qed

lemma find_slot_None: "find_slot P xs = None \<longleftrightarrow> (\<forall>x \<in> set xs. \<not> P x)"
  by (induction xs) auto

subsection \<open>Pushing and popping\<close>

lemma aligned4_iff: "aligned4 x \<longleftrightarrow> (\<exists>y. x = 4 * y)"
proof
  assume "aligned4 x"
  then obtain k where k: "unat x = 4 * k" by (auto simp: aligned4_def)
  then have "x = of_nat (4 * k)" by (metis of_nat_unat ucast_id)
  then show "\<exists>y. x = 4 * y" by (intro exI [of _ "of_nat k"]) simp
next
  assume "\<exists>y. x = 4 * y"
  then obtain y where "x = 4 * y" by blast
  then have "unat x = 4 * unat y mod 4294967296" by (simp add: unat_word_ariths)
  then show "aligned4 x" by (simp add: aligned4_def dvd_mod)
qed

lemma aligned4_add: "aligned4 x \<Longrightarrow> aligned4 (x + 4 * y)"
  unfolding aligned4_iff by (metis distrib_left)

lemma aligned4_diff: "aligned4 x \<Longrightarrow> aligned4 (x - 4 * y)"
  unfolding aligned4_iff by (metis right_diff_distrib)

lemma push_all_append: "push_all (us @ vs) c = push_all vs (push_all us c)"
  by (simp add: push_all_def)

lemma push_all_esp: "fst (push_all vs (esp, m)) = esp - 4 * of_nat (length vs)"
  by (induction vs rule: rev_induct) (simp_all add: push_all_def push32_def split_beta algebra_simps)

lemma word_offset_neq:
  fixes e :: u32
  assumes "k < 1073741823"
  shows "e \<noteq> e + 4 + 4 * of_nat k"
proof
  assume "e = e + 4 + 4 * of_nat k"
  then have "(of_nat (4 + 4 * k) :: u32) = 0" by simp
  moreover have "unat (of_nat (4 + 4 * k) :: u32) = 4 + 4 * k"
    using assms by (intro unat_of_nat_u32) simp
  ultimately show False by (metis add_is_0 unsigned_0 zero_neq_numeral)
qed

lemma push_all_load:
  assumes "aligned4 esp" "length vs < 1073741823" "k < length vs"
  shows "load32 (snd (push_all vs (esp, m))) (esp - 4 * of_nat (length vs) + 4 * of_nat k) = rev vs ! k"
  using assms(2,3)
proof (induction vs arbitrary: k rule: rev_induct)
  case Nil
  then show ?case by simp
next
  case (snoc v vs)
  let ?e = "esp - 4 * of_nat (length vs)" and ?c = "push_all vs (esp, m)"
  have c: "push_all (vs @ [v]) (esp, m) = (?e - 4, store32 (snd ?c) (?e - 4) v)"
    using push_all_esp [of vs esp m] by (simp add: push_all_append push32_def push_all_def split_beta)
  have e: "esp - 4 * of_nat (length (vs @ [v])) = ?e - 4" by (simp add: algebra_simps)
  show ?case
  proof (cases k)
    case 0
    then show ?thesis unfolding c e by simp
  next
    case (Suc j)
    with snoc.prems have j: "j < length vs" "length vs < 1073741823" by simp_all
    have a: "?e - 4 + 4 * of_nat k = ?e + 4 * of_nat j" using Suc by (simp add: algebra_simps)
    have "aligned4 ?e" using assms(1) by (rule aligned4_diff)
    then have al: "aligned4 (?e - 4)" "aligned4 (?e + 4 * of_nat j)"
      using aligned4_diff [of ?e 1] aligned4_add [of ?e "of_nat j"] by simp_all
    have "?e - 4 \<noteq> ?e - 4 + 4 + 4 * of_nat j" by (rule word_offset_neq) (use j in simp)
    then have neq: "?e - 4 \<noteq> ?e + 4 * of_nat j" by simp
    show ?thesis
      unfolding c e a snd_conv load32_store32_other [OF al neq] using snoc.IH [OF j(2,1)] Suc by simp
  qed
qed

subsection \<open>Saving and restoring a context\<close>

text \<open>The seventeen words of a frame, in the order pushed; \<open>espd\<close> is the slot \<open>popa\<close> ignores.\<close>

definition frame_words :: "cpu_regs \<Rightarrow> u32 \<Rightarrow> u32 \<Rightarrow> u32 list" where
  "frame_words r int_no espd = [r_eflags r, r_cs r, r_eip r, 0, int_no,
     r_eax r, r_ecx r, r_edx r, r_ebx r, espd, r_ebp r, r_esi r, r_edi r,
     r_gs r, r_fs r, r_es r, r_ds r]"

definition ring3_words :: "cpu_regs \<Rightarrow> u32 list" where
  "ring3_words r = [r_ss r, r_esp r]"

lemma restore_kernel_frame:
  assumes "aligned4 stk" "\<not> from_ring3 r"
  shows "irq0_restore (r_ss r) (fst (push_all (frame_words r n d) (stk, m))) (snd (push_all (frame_words r n d) (stk, m)))
    = r\<lparr>r_esp := stk\<rparr>"
proof -
  let ?L = "frame_words r n d" and ?m = "snd (push_all (frame_words r n d) (stk, m))"
  have len: "length ?L = 17" by (simp add: frame_words_def)
  have w: "load32 ?m (stk - 4 * 17 + 4 * of_nat k) = rev ?L ! k" if "k < 17" for k
    using push_all_load [OF assms(1), of ?L k m] that unfolding len by simp
  have e: "fst (push_all ?L (stk, m)) = stk - 4 * 17" by (simp add: push_all_esp len del: length_append)
  have cs: "rev ?L ! 15 = r_cs r" by (simp add: frame_words_def)
  show ?thesis
    unfolding e irq0_restore_def Let_def
    using assms(2) by (simp only: w cs from_ring3_def rel_simps if_False) (simp add: frame_words_def)
qed

lemma restore_user_frame:
  assumes "aligned4 stk" "from_ring3 r"
  shows "irq0_restore ss0 (fst (push_all (ring3_words r @ frame_words r n d) (stk, m)))
    (snd (push_all (ring3_words r @ frame_words r n d) (stk, m))) = r"
proof -
  let ?L = "ring3_words r @ frame_words r n d" and ?m = "snd (push_all (ring3_words r @ frame_words r n d) (stk, m))"
  have len: "length ?L = 19" by (simp add: frame_words_def ring3_words_def)
  have w: "load32 ?m (stk - 4 * 19 + 4 * of_nat k) = rev ?L ! k" if "k < 19" for k
    using push_all_load [OF assms(1), of ?L k m] that unfolding len by simp
  have e: "fst (push_all ?L (stk, m)) = stk - 4 * 19" by (simp add: push_all_esp len del: length_append)
  have cs: "rev ?L ! 15 = r_cs r" by (simp add: frame_words_def ring3_words_def)
  show ?thesis
    unfolding e irq0_restore_def Let_def
    using assms(2) by (simp only: w cs from_ring3_def rel_simps if_True) (simp add: frame_words_def ring3_words_def)
qed

lemma irq0_save_frame:
  "irq0_save esp0 r m = (if from_ring3 r
     then push_all (ring3_words r @ frame_words r 0x20 (esp0 - 28)) (esp0, m)
     else push_all (frame_words r 0x20 (r_esp r - 20)) (r_esp r, m))"
  by (simp add: irq0_save_def Let_def frame_words_def ring3_words_def push_all_def push32_def split_beta)

lemma interrupted_context:
  assumes "aligned4 esp0" "aligned4 (r_esp r)"
  shows "irq0_restore (r_ss r) (fst (irq0_save esp0 r m)) (snd (irq0_save esp0 r m)) = r"
proof (cases "from_ring3 r")
  case True
  then show ?thesis using restore_user_frame [OF assms(1) True] by (simp add: irq0_save_frame)
next
  case False
  then show ?thesis using restore_kernel_frame [OF assms(2) False] by (simp add: irq0_save_frame)
qed

lemma new_frames_restore:
  assumes "aligned4 stk"
  shows "(let c = setup_kernel_stack stk entry m; r = irq0_restore 0x10 (fst c) (snd c) in
      r = \<lparr>r_eax = 0, r_ecx = 0, r_edx = 0, r_ebx = 0, r_esp = stk, r_ebp = 0, r_esi = 0, r_edi = 0,
           r_ds = 0x10, r_es = 0x10, r_fs = 0x10, r_gs = 0x10, r_ss = 0x10,
           r_eip = entry, r_cs = 0x08, r_eflags = 0x202\<rparr>)
    \<and> (let c = setup_user_stack stk entry user_esp m; r = irq0_restore 0x10 (fst c) (snd c) in
      r = \<lparr>r_eax = 0, r_ecx = 0, r_edx = 0, r_ebx = 0, r_esp = user_esp, r_ebp = 0, r_esi = 0, r_edi = 0,
           r_ds = 0x23, r_es = 0x23, r_fs = 0x23, r_gs = 0x23, r_ss = 0x23,
           r_eip = entry, r_cs = 0x1B, r_eflags = 0x202\<rparr>)"
proof -
  let ?k = "\<lparr>r_eax = 0, r_ecx = 0, r_edx = 0, r_ebx = 0, r_esp = stk, r_ebp = 0, r_esi = 0, r_edi = 0,
           r_ds = 0x10, r_es = 0x10, r_fs = 0x10, r_gs = 0x10, r_ss = 0x10,
           r_eip = entry, r_cs = 0x08, r_eflags = 0x202\<rparr>"
  let ?u = "\<lparr>r_eax = 0, r_ecx = 0, r_edx = 0, r_ebx = 0, r_esp = user_esp, r_ebp = 0, r_esi = 0, r_edi = 0,
           r_ds = 0x23, r_es = 0x23, r_fs = 0x23, r_gs = 0x23, r_ss = 0x23,
           r_eip = entry, r_cs = 0x1B, r_eflags = 0x202\<rparr>"
  have "setup_kernel_stack stk entry m = push_all (frame_words ?k 0 0) (stk, m)"
    "setup_user_stack stk entry user_esp m = push_all (ring3_words ?u @ frame_words ?u 0 0) (stk, m)"
    by (simp_all add: setup_kernel_stack_def setup_user_stack_def frame_words_def ring3_words_def)
  moreover have "\<not> from_ring3 ?k" "from_ring3 ?u" by (simp_all add: from_ring3_def)
  ultimately show ?thesis
    using restore_kernel_frame [OF assms, of ?k 0 0 m] restore_user_frame [OF assms, of ?u "0x10" 0 0 m]
    by (simp add: Let_def)
qed

lemma kernel_frame_starts:
  fixes stk entry :: u32 and m :: memory
  assumes "aligned4 stk"
  defines "c \<equiv> setup_kernel_stack stk entry m"
  shows "r_eip (irq0_restore 0x10 (fst c) (snd c)) = entry" "r_cs (irq0_restore 0x10 (fst c) (snd c)) = 0x08"
    "r_esp (irq0_restore 0x10 (fst c) (snd c)) = stk"
  using new_frames_restore [OF assms(1), of entry m 0] by (simp_all add: c_def Let_def)

subsection \<open>Properties\<close>

text \<open>
  Saving and restoring a context is the identity on every register, for a thread interrupted in
  ring 0 (on its own stack) or in ring 3 (on the kernel stack \<open>esp0\<close>): what the timer's handler
  pushes is exactly what its return path pops, so a thread resumes where it was interrupted.
\<close>

theorem context_save_restore:
  assumes "aligned4 esp0" "aligned4 (r_esp r)"
  shows "irq0_restore (r_ss r) (fst (irq0_save esp0 r m)) (snd (irq0_save esp0 r m)) = r"
  by (rule interrupted_context [OF assms])

definition sample_user_regs :: cpu_regs where
  "sample_user_regs = \<lparr>r_eax = 1, r_ecx = 2, r_edx = 3, r_ebx = 4, r_esp = 0x7FFEFF00, r_ebp = 5, r_esi = 6, r_edi = 7,
     r_ds = 0x23, r_es = 0x23, r_fs = 0x23, r_gs = 0x23, r_ss = 0x23, r_eip = 0x107000, r_cs = 0x1B, r_eflags = 0x202\<rparr>"

theorem context_save_restore_witness:
  "irq0_restore 0x23 (fst (irq0_save 0x801000 sample_user_regs (\<lambda>_. 0)))
     (snd (irq0_save 0x801000 sample_user_regs (\<lambda>_. 0))) = sample_user_regs"
  using context_save_restore [of "0x801000" sample_user_regs "\<lambda>_. 0"]
  by (simp add: sample_user_regs_def aligned4_def)

text \<open>
  The frames \<open>setup_kernel_stack\<close> and \<open>setup_user_stack\<close> build make the timer's return path start
  a new thread at its entry point with interrupts enabled and all general registers zero: a kernel
  thread in ring 0 on its empty kernel stack with the kernel's selectors, a user thread in ring 3
  on its user stack with the user's selectors.
\<close>

theorem new_thread_starts_at_entry:
  assumes "aligned4 stk"
  shows "(let c = setup_kernel_stack stk entry m; r = irq0_restore 0x10 (fst c) (snd c) in
      r = \<lparr>r_eax = 0, r_ecx = 0, r_edx = 0, r_ebx = 0, r_esp = stk, r_ebp = 0, r_esi = 0, r_edi = 0,
           r_ds = 0x10, r_es = 0x10, r_fs = 0x10, r_gs = 0x10, r_ss = 0x10,
           r_eip = entry, r_cs = 0x08, r_eflags = 0x202\<rparr>)
    \<and> (let c = setup_user_stack stk entry user_esp m; r = irq0_restore 0x10 (fst c) (snd c) in
      r = \<lparr>r_eax = 0, r_ecx = 0, r_edx = 0, r_ebx = 0, r_esp = user_esp, r_ebp = 0, r_esi = 0, r_edi = 0,
           r_ds = 0x23, r_es = 0x23, r_fs = 0x23, r_gs = 0x23, r_ss = 0x23,
           r_eip = entry, r_cs = 0x1B, r_eflags = 0x202\<rparr>)"
  by (rule new_frames_restore [OF assms])

theorem new_thread_starts_at_entry_witness:
  "r_eip (irq0_restore 0x10 (fst (setup_kernel_stack 0x801000 0x104000 (\<lambda>_. 0)))
     (snd (setup_kernel_stack 0x801000 0x104000 (\<lambda>_. 0)))) = 0x104000"
  using new_thread_starts_at_entry [of "0x801000" "0x104000" "\<lambda>_. 0" 0]
  by (simp add: aligned4_def Let_def)

end
