(* ===== verification/Run_Queue.thy ===== *)
theory Run_Queue
  imports Threads
begin

section \<open>The scheduler's queue of threads\<close>

text \<open>
  Models the queue helpers of \<open>kernel/proc/scheduler.c\<close>: a circular singly linked list through the
  threads' \<open>next\<close> fields, with a head and a tail pointer. \<open>queue_rep s ts\<close> relates the pointers to
  the list \<open>ts\<close> of the threads in the queue; the operations are shown to implement appending,
  removing and rotating search on that list. A walk that does not end, or that follows a null
  pointer, is the value \<open>None\<close>; under \<open>queue_rep\<close> no walk does either.

  The locale \<open>ready_queue\<close> is what the dispatcher needs of a queue to be fair.
\<close>

subsection \<open>Operations\<close>

definition next_of :: "'a proc_scheme \<Rightarrow> nat \<Rightarrow> nat option" where
  "next_of s i = t_next (g_threads s ! i)"

definition set_next :: "nat \<Rightarrow> nat option \<Rightarrow> 'a proc_scheme \<Rightarrow> 'a proc_scheme" where
  "set_next i n s = upd_thread i (\<lambda>t. t\<lparr>t_next := n\<rparr>) s"

text \<open>The tail is null exactly when the head is (\<open>queue_rep\<close>), so its last case cannot arise.\<close>

definition queue_insert :: "nat option \<Rightarrow> 'a proc_scheme \<Rightarrow> 'a proc_scheme" where
  "queue_insert t s =
     (case t of
        None \<Rightarrow> s
      | Some i \<Rightarrow>
          if sched_queue_head s = None then
            set_next i (Some i) (s\<lparr>sched_queue_head := Some i, sched_queue_tail := Some i\<rparr>)
          else
            (let s = set_next i (sched_queue_head s) s;
                 s = (case sched_queue_tail s of Some k \<Rightarrow> set_next k (Some i) s | None \<Rightarrow> s)
             in s\<lparr>sched_queue_tail := Some i\<rparr>))"

text \<open>\<open>while (prev->next != t && prev->next != head) prev = prev->next;\<close>\<close>

partial_function (option) find_prev :: "'a proc_scheme \<Rightarrow> nat \<Rightarrow> nat \<Rightarrow> nat \<Rightarrow> nat option" where
  "find_prev s t head prev =
     (case next_of s prev of
        None \<Rightarrow> None
      | Some n \<Rightarrow> if n \<noteq> t \<and> n \<noteq> head then find_prev s t head n else Some prev)"

definition queue_remove :: "nat option \<Rightarrow> 'a proc_scheme \<Rightarrow> 'a proc_scheme option" where
  "queue_remove t s =
     (case (sched_queue_head s, t) of
        (Some h, Some i) \<Rightarrow>
          if next_of s h = Some h \<and> h = i then
            Some (set_next i None (s\<lparr>sched_queue_head := None, sched_queue_tail := None\<rparr>))
          else
            (case find_prev s i h h of
               None \<Rightarrow> None
             | Some prev \<Rightarrow>
                 if next_of s prev \<noteq> Some i then Some s
                 else
                   (let s = set_next prev (next_of s i) s;
                        s = (if sched_queue_head s = Some i then s\<lparr>sched_queue_head := next_of s i\<rparr> else s);
                        s = (if sched_queue_tail s = Some i then s\<lparr>sched_queue_tail := Some prev\<rparr> else s)
                    in Some (set_next i None s)))
      | _ \<Rightarrow> Some s)"

text \<open>The \<open>do ... while\<close> loop of \<open>queue_next_ready\<close>: the first thread found ready, if any.\<close>

partial_function (option) scan_ready :: "'a proc_scheme \<Rightarrow> nat \<Rightarrow> nat \<Rightarrow> nat option option" where
  "scan_ready s start candidate =
     (if tstate (g_threads s ! candidate) = THREAD_READY then Some (Some candidate)
      else case next_of s candidate of
             None \<Rightarrow> None
           | Some n \<Rightarrow> if n \<noteq> start then scan_ready s start n else Some None)"

definition queue_next_ready :: "nat option \<Rightarrow> 'a proc_scheme \<Rightarrow> nat option option" where
  "queue_next_ready current s =
     (case sched_queue_head s of
        None \<Rightarrow> Some None
      | Some h \<Rightarrow>
          (let start = (case current of Some c \<Rightarrow> (case next_of s c of Some n \<Rightarrow> n | None \<Rightarrow> h) | None \<Rightarrow> h)
           in case scan_ready s start start of
                None \<Rightarrow> None
              | Some (Some c) \<Rightarrow> Some (Some c)
              | Some None \<Rightarrow>
                  (case current of
                     Some c \<Rightarrow> if tstate (g_threads s ! c) = THREAD_READY then Some (Some c) else Some None
                   | None \<Rightarrow> Some None)))"

subsection \<open>The queue as a list\<close>

definition queue_rep :: "'a proc_scheme \<Rightarrow> nat list \<Rightarrow> bool" where
  "queue_rep s ts \<longleftrightarrow> distinct ts \<and> (\<forall>i \<in> set ts. i < length (g_threads s))
     \<and> (if ts = [] then sched_queue_head s = None \<and> sched_queue_tail s = None
        else sched_queue_head s = Some (hd ts) \<and> sched_queue_tail s = Some (last ts)
          \<and> (\<forall>k < length ts. next_of s (ts ! k) = Some (ts ! (Suc k mod length ts))))"

lemma next_of_set_next:
  "i < length (g_threads s) \<Longrightarrow> next_of (set_next i n s) j = (if j = i then n else next_of s j)"
  by (auto simp: next_of_def set_next_def upd_thread_def)

lemma set_next_fields [simp]:
  "sched_queue_head (set_next i n s) = sched_queue_head s" "sched_queue_tail (set_next i n s) = sched_queue_tail s"
  "length (g_threads (set_next i n s)) = length (g_threads s)" "sched_current (set_next i n s) = sched_current s"
  by (simp_all add: set_next_def upd_thread_def)

lemma next_of_queue_update [simp]:
  "next_of (s\<lparr>sched_queue_head := h\<rparr>) i = next_of s i" "next_of (s\<lparr>sched_queue_tail := h\<rparr>) i = next_of s i"
  by (simp_all add: next_of_def)

lemma queue_insert_rep:
  assumes rep: "queue_rep s ts" and i: "i < length (g_threads s)" "i \<notin> set ts"
  shows "queue_rep (queue_insert (Some i) s) (ts @ [i])"
proof (cases "ts = []")
  case True
  with rep i show ?thesis
    by (simp add: queue_rep_def queue_insert_def next_of_set_next)
next
  case False
  let ?n = "length ts"
  from rep False have hd: "sched_queue_head s = Some (hd ts)" "sched_queue_tail s = Some (last ts)"
    and nxt: "\<And>k. k < ?n \<Longrightarrow> next_of s (ts ! k) = Some (ts ! (Suc k mod ?n))"
    and len: "\<And>j. j \<in> set ts \<Longrightarrow> j < length (g_threads s)" and dist: "distinct ts"
    by (auto simp: queue_rep_def)
  have last: "last ts = ts ! (?n - 1)" using False by (rule last_conv_nth)
  have n: "0 < ?n" using False by simp
  let ?s = "queue_insert (Some i) s"
  have s: "?s = (set_next (last ts) (Some i) (set_next i (Some (hd ts)) s))\<lparr>sched_queue_tail := Some i\<rparr>"
    using hd by (simp add: queue_insert_def)
  have ne: "last ts \<noteq> i" using i(2) False by (metis last_in_set)
  have l: "last ts < length (g_threads s)" using False len by simp
  have nx: "next_of ?s j = (if j = last ts then Some i else if j = i then Some (hd ts) else next_of s j)" for j
    unfolding s using l i(1) by (simp add: next_of_set_next)
  have "next_of ?s ((ts @ [i]) ! k) = Some ((ts @ [i]) ! (Suc k mod Suc ?n))" if k: "k < Suc ?n" for k
  proof -
    consider "k = ?n" | "k = ?n - 1" "k < ?n" | "Suc k < ?n" using k by linarith
    then show ?thesis
    proof cases
      case 1
      with ne False show ?thesis by (simp add: nx nth_append hd_conv_nth)
    next
      case 2
      with last n show ?thesis by (simp add: nx nth_append)
    next
      case 3
      then have "ts ! k \<noteq> last ts" using dist n unfolding last by (simp add: nth_eq_iff_index_eq)
      moreover have "ts ! k \<noteq> i" using i(2) 3 by (metis Suc_lessD nth_mem)
      ultimately show ?thesis using 3 nxt [of k] by (simp add: nx nth_append)
    qed
  qed
  moreover have "sched_queue_head ?s = Some (hd (ts @ [i]))" "sched_queue_tail ?s = Some i"
    "length (g_threads ?s) = length (g_threads s)"
    using hd False unfolding s by simp_all
  ultimately show ?thesis
    using dist i len by (auto simp: queue_rep_def)
qed

text \<open>The walk to the predecessor stops at the first element followed by \<open>t\<close> or by the head.\<close>

lemma queue_repD:
  assumes "queue_rep s ts" "ts \<noteq> []"
  shows "sched_queue_head s = Some (ts ! 0)" "sched_queue_tail s = Some (ts ! (length ts - 1))"
    "\<And>k. k < length ts \<Longrightarrow> next_of s (ts ! k) = Some (ts ! (Suc k mod length ts))"
    "\<And>k. k < length ts \<Longrightarrow> ts ! k < length (g_threads s)" "distinct ts"
  using assms by (auto simp: queue_rep_def hd_conv_nth last_conv_nth)

lemma find_prev_stop:
  assumes rep: "queue_rep s ts" and q: "q < length ts" "k \<le> q"
    and before: "\<And>j. j < q \<Longrightarrow> ts ! Suc j \<noteq> t"
    and stop: "ts ! (Suc q mod length ts) = t \<or> Suc q = length ts"
  shows "find_prev s t (ts ! 0) (ts ! k) = Some (ts ! q)"
  using q(2)
proof (induction "q - k" arbitrary: k)
  case 0
  then have k: "k = q" by simp
  have ne: "ts \<noteq> []" using q(1) by auto
  have "ts ! (Suc q mod length ts) = t \<or> ts ! (Suc q mod length ts) = ts ! 0" using stop by auto
  then show ?case
    using queue_repD(3) [OF rep ne q(1)] unfolding k by (subst find_prev.simps) auto
next
  case (Suc d)
  then have k: "k < q" by simp
  have ne: "ts \<noteq> []" using q(1) by auto
  have "ts ! Suc k \<noteq> ts ! 0"
    using nth_eq_iff_index_eq [OF queue_repD(5) [OF rep ne], of "Suc k" 0] k q(1) ne by simp
  moreover have "next_of s (ts ! k) = Some (ts ! Suc k)"
    using queue_repD(3) [OF rep ne, of k] k q(1) by simp
  moreover have "find_prev s t (ts ! 0) (ts ! Suc k) = Some (ts ! q)"
    by (rule Suc.hyps(1)) (use Suc.hyps(2) k in auto)
  ultimately show ?case using before [OF k] by (subst find_prev.simps) simp
qed

lemma nth_delete:
  "(us @ vs) ! k = (us @ i # vs) ! (if k < length us then k else Suc k)"
  by (simp add: nth_append Suc_diff_le)

text \<open>Indices of the cycle with element \<open>p\<close> of \<open>n\<close> taken out; \<open>q\<close> is its predecessor's.\<close>

lemma wrap_mod: "x \<le> m \<Longrightarrow> 0 < m \<Longrightarrow> x mod m = (if x = m then 0 else x)" for x m :: nat
  by auto

lemma cycle_delete:
  fixes k p n :: nat
  assumes "k < n - 1" "p < n" "2 \<le> n"
  defines "j \<equiv> Suc k mod (n - 1)" and "kk \<equiv> (if k < p then k else Suc k)"
    and "q \<equiv> (if p = 0 then n - 1 else p - 1)"
  shows "kk = q \<Longrightarrow> (if j < p then j else Suc j) = Suc p mod n"
    and "kk \<noteq> q \<Longrightarrow> (if j < p then j else Suc j) = Suc kk mod n"
proof -
  have j: "j = (if Suc k = n - 1 then 0 else Suc k)"
    unfolding j_def using assms by (intro wrap_mod) auto
  have p: "Suc p mod n = (if Suc p = n then 0 else Suc p)"
    using assms by (intro wrap_mod) auto
  have "kk < n" unfolding kk_def using assms by auto
  then have kk: "Suc kk mod n = (if Suc kk = n then 0 else Suc kk)"
    by (intro wrap_mod) auto
  show "kk = q \<Longrightarrow> (if j < p then j else Suc j) = Suc p mod n"
    unfolding p j using assms(1-3) unfolding kk_def q_def by (simp split: if_splits) linarith+
  show "kk \<noteq> q \<Longrightarrow> (if j < p then j else Suc j) = Suc kk mod n"
    unfolding kk j using assms(1-3) unfolding kk_def q_def by (simp split: if_splits) linarith+
qed

definition unlink :: "nat \<Rightarrow> nat \<Rightarrow> 'a proc_scheme \<Rightarrow> 'a proc_scheme" where
  "unlink prev i s =
     (let s = set_next prev (next_of s i) s;
          s = (if sched_queue_head s = Some i then s\<lparr>sched_queue_head := next_of s i\<rparr> else s);
          s = (if sched_queue_tail s = Some i then s\<lparr>sched_queue_tail := Some prev\<rparr> else s)
      in set_next i None s)"

lemma queue_remove_walk:
  assumes "sched_queue_head s = Some h" "\<not> (next_of s h = Some h \<and> h = i)"
    and "find_prev s i h h = Some p"
  shows "queue_remove (Some i) s = (if next_of s p = Some i then Some (unlink p i s) else Some s)"
proof -
  have "queue_remove (Some i) s = (if next_of s h = Some h \<and> h = i then
            Some (set_next i None (s\<lparr>sched_queue_head := None, sched_queue_tail := None\<rparr>))
          else if next_of s p \<noteq> Some i then Some s else Some (unlink p i s))"
    using assms(1,3) by (simp only: queue_remove_def unlink_def Let_def prod.case option.case)
  with assms(2) show ?thesis by auto
qed

lemma unlink_fields:
  assumes "i < length (g_threads s)" "p < length (g_threads s)" "p \<noteq> i"
  shows "next_of (unlink p i s) j = (if j = i then None else if j = p then next_of s i else next_of s j)"
    and "sched_queue_head (unlink p i s) = (if sched_queue_head s = Some i then next_of s i else sched_queue_head s)"
    and "sched_queue_tail (unlink p i s) = (if sched_queue_tail s = Some i then Some p else sched_queue_tail s)"
    and "length (g_threads (unlink p i s)) = length (g_threads s)"
  using assms by (simp_all add: unlink_def Let_def next_of_set_next)

lemma queue_remove_rep:
  assumes rep: "queue_rep s (us @ i # vs)"
  shows "\<exists>s'. queue_remove (Some i) s = Some s' \<and> queue_rep s' (us @ vs) \<and> next_of s' i = None"
proof -
  let ?ts = "us @ i # vs" and ?n = "length (us @ i # vs)" and ?p = "length us"
  have ne: "?ts \<noteq> []" by simp
  note D = queue_repD [OF rep ne]
  have i: "?ts ! ?p = i" by simp
  have dist: "distinct (us @ vs)" "i \<notin> set (us @ vs)" using D(5) by auto
  have lt: "i < length (g_threads s)" using D(4) [of ?p] by simp
  have all_lt: "\<forall>j \<in> set (us @ vs). j < length (g_threads s)" using rep by (simp add: queue_rep_def)
  show ?thesis
  proof (cases "us @ vs = []")
    case True
    then have ts: "us = []" "vs = []" by simp_all
    have "next_of s i = Some i" using D(3) [of 0] ts by simp
    with D(1) ts lt show ?thesis
      by (simp add: queue_remove_def queue_rep_def next_of_set_next)
  next
    case False
    then have n: "2 \<le> ?n" by (cases us; cases vs) auto
    define q where "q = (if ?p = 0 then ?n - 1 else ?p - 1)"
    have q1: "q < ?n" by (auto simp: q_def)
    have q2: "q \<noteq> ?p"
    proof (cases us)
      case Nil
      with False show ?thesis by (simp add: q_def)
    next
      case (Cons u us')
      then show ?thesis by (simp add: q_def)
    qed
    note q = q1 q2
    have succ_q: "Suc q mod ?n = ?p" using n by (auto simp: q_def)
    have idx: "?ts ! j = i \<longleftrightarrow> j = ?p" if "j < ?n" for j
      using nth_eq_iff_index_eq [OF D(5) that, of ?p] i by simp
    have fp: "find_prev s i (?ts ! 0) (?ts ! 0) = Some (?ts ! q)"
    proof (rule find_prev_stop [OF rep q(1)])
      show "?ts ! Suc j \<noteq> i" if "j < q" for j
        using that idx [of "Suc j"] q(1) by (auto simp: q_def split: if_splits)
      show "?ts ! (Suc q mod ?n) = i \<or> Suc q = ?n" using succ_q i by simp
    qed simp
    let ?prev = "?ts ! q"
    have prev: "?prev \<noteq> i" "?prev < length (g_threads s)" "next_of s ?prev = Some i"
      using idx [OF q(1)] q(2) D(4) [OF q(1)] D(3) [OF q(1)] succ_q i by auto
    have head_i: "?ts ! 0 = i \<longleftrightarrow> ?p = 0" using idx [of 0] by simp
    have tail_i: "?ts ! (?n - 1) = i \<longleftrightarrow> ?p = ?n - 1" using idx [of "?n - 1"] by auto
    have next_i: "next_of s i = Some (?ts ! (Suc ?p mod ?n))" using D(3) [of ?p] i by simp
    have not_single: "\<not> (next_of s (?ts ! 0) = Some (?ts ! 0) \<and> ?ts ! 0 = i)"
    proof
      assume a: "next_of s (?ts ! 0) = Some (?ts ! 0) \<and> ?ts ! 0 = i"
      have one: "Suc 0 < ?n" using n by linarith
      then have "Suc 0 mod ?n = Suc 0" by (rule mod_less)
      moreover have "0 < ?n" by simp
      ultimately have "next_of s (?ts ! 0) = Some (?ts ! Suc 0)" using D(3) by metis
      then have "?ts ! Suc 0 = i" using a by (metis option.inject)
      with idx [OF one] head_i a show False by simp
    qed
    let ?s' = "unlink ?prev i s"
    have res: "queue_remove (Some i) s = Some ?s'"
      using queue_remove_walk [OF D(1) not_single fp] prev(3) by simp
    note U = unlink_fields [OF lt prev(2,1)]
    have ws_len: "length (us @ vs) = ?n - 1" by simp
    let ?ws = "us @ vs"
    have hd_ws: "hd ?ws = ?ts ! (if ?p = 0 then 1 else 0)"
      using False nth_delete [of us vs 0 i] by (simp add: hd_conv_nth)
    have last_ws: "last ?ws = ?ts ! (if ?p = ?n - 1 then ?n - 2 else ?n - 1)"
    proof (cases vs rule: rev_cases)
      case Nil
      with False show ?thesis by (simp add: last_conv_nth nth_append)
    next
      case (snoc xs x)
      then show ?thesis by (simp add: nth_append)
    qed
    have head': "sched_queue_head ?s' = Some (hd ?ws)"
      using D(1) head_i next_i n False by (auto simp: U hd_ws)
    have tail': "sched_queue_tail ?s' = Some (last ?ws)"
    proof (cases "?p = ?n - 1")
      case True
      then have "?ts ! (?n - 1) = i" using tail_i by blast
      moreover have "q = ?n - 2" 
      proof -
        have "?p \<noteq> 0" using True n by linarith
        then have "q = ?p - 1" unfolding q_def by (rule if_not_P)
        then show ?thesis using True by linarith
      qed
      ultimately show ?thesis unfolding U(3) D(2) last_ws if_P [OF True] by (simp only: refl if_True)
    next
      case notlast: False
      then have "?ts ! (?n - 1) \<noteq> i" using tail_i by blast
      then show ?thesis unfolding U(3) D(2) last_ws if_not_P [OF notlast] by (simp only: option.inject if_False)
    qed
    have links: "next_of ?s' (?ws ! k) = Some (?ws ! (Suc k mod (?n - 1)))" if k: "k < ?n - 1" for k
    proof -
      let ?k = "if k < ?p then k else Suc k"
      have kn: "?k < ?n" "?k \<noteq> ?p" using k by auto
      have wk: "?ws ! k = ?ts ! ?k" by (rule nth_delete)
      have ne_i: "?ts ! ?k \<noteq> i" using idx [OF kn(1)] kn(2) by blast
      show ?thesis
      proof (cases "?k = q")
        case True
        then have "next_of ?s' (?ws ! k) = Some (?ts ! (Suc ?p mod ?n))"
          using ne_i next_i unfolding wk U by simp
        moreover have "?ws ! (Suc k mod (?n - 1)) = ?ts ! (Suc ?p mod ?n)"
          unfolding nth_delete [of us vs _ i] using cycle_delete(1) [OF k _ n, of ?p] True
          unfolding q_def by simp
        ultimately show ?thesis by simp
      next
        case False
        then have "?ts ! ?k \<noteq> ?prev" using nth_eq_iff_index_eq [OF D(5) kn(1) q(1)] by simp
        then have "next_of ?s' (?ws ! k) = Some (?ts ! (Suc ?k mod ?n))"
          using ne_i D(3) [OF kn(1)] unfolding wk U by simp
        moreover have "?ws ! (Suc k mod (?n - 1)) = ?ts ! (Suc ?k mod ?n)"
          unfolding nth_delete [of us vs _ i] using cycle_delete(2) [OF k _ n, of ?p] False
          unfolding q_def by simp
        ultimately show ?thesis by simp
      qed
    qed
    have "queue_rep ?s' ?ws"
      unfolding queue_rep_def U(4) if_not_P [OF False] ws_len using dist(1) all_lt head' tail' links by blast
    then show ?thesis using res U(1) by auto
  qed
qed

lemma queue_remove_absent:
  assumes rep: "queue_rep s ts" and i: "i \<notin> set ts"
  shows "queue_remove (Some i) s = Some s"
proof (cases "ts = []")
  case True
  with rep show ?thesis by (simp add: queue_remove_def queue_rep_def)
next
  case False
  note D = queue_repD [OF rep False]
  let ?n = "length ts"
  have n: "0 < ?n" using False by simp
  have ne: "ts ! k \<noteq> i" if "k < ?n" for k using i that by auto
  have fp: "find_prev s i (ts ! 0) (ts ! 0) = Some (ts ! (?n - 1))"
    by (rule find_prev_stop [OF rep]) (use n ne in auto)
  have "next_of s (ts ! (?n - 1)) = Some (ts ! 0)"
    using D(3) [of "?n - 1"] n by simp
  moreover have "ts ! 0 \<noteq> i" using ne n by simp
  ultimately show ?thesis
    using queue_remove_walk [OF D(1) _ fp] by simp
qed

subsection \<open>The next ready thread\<close>

text \<open>The first ready element from position \<open>k\<close> on, going round: the abstract choice.\<close>

definition first_ready :: "'a proc_scheme \<Rightarrow> nat list \<Rightarrow> nat option" where
  "first_ready s ts = find (\<lambda>i. tstate (g_threads s ! i) = THREAD_READY) ts"

lemma scan_ready_rotation:
  assumes rep: "queue_rep s ts" and p: "p < length ts" and k: "k < length ts"
  shows "scan_ready s (ts ! p) (ts ! ((p + k) mod length ts))
    = Some (first_ready s (drop k (rotate p ts)))"
  using k
proof (induction "length ts - k" arbitrary: k)
  case 0
  then show ?case by simp
next
  case (Suc d)
  let ?n = "length ts" and ?i = "(p + k) mod length ts"
  have ne: "ts \<noteq> []" using p by auto
  note D = queue_repD [OF rep ne]
  have pos: "0 < ?n" using p by linarith
  have i: "?i < ?n" by (rule mod_less_divisor [OF pos])
  have el: "drop k (rotate p ts) = ts ! ?i # drop (Suc k) (rotate p ts)"
    using Suc.prems by (simp add: Cons_nth_drop_Suc [symmetric] nth_rotate add.commute)
  have nx: "next_of s (ts ! ?i) = Some (ts ! ((p + Suc k) mod ?n))"
    using D(3) [OF i] by (simp add: mod_Suc_eq)
  have start: "ts ! ((p + Suc k) mod ?n) = ts ! p \<longleftrightarrow> Suc k = ?n"
  proof -
    have lt: "(p + Suc k) mod ?n < ?n" by (rule mod_less_divisor [OF pos])
    have "ts ! ((p + Suc k) mod ?n) = ts ! p \<longleftrightarrow> (p + Suc k) mod ?n = p"
      by (rule nth_eq_iff_index_eq [OF D(5) lt p])
    also have "\<dots> \<longleftrightarrow> Suc k = ?n"
    proof (cases "p + Suc k < ?n")
      case True
      then show ?thesis by simp
    next
      case False
      then have "(p + Suc k) mod ?n = (p + Suc k - ?n) mod ?n" by (simp add: le_mod_geq)
      also have "\<dots> = (if p + Suc k - ?n = ?n then 0 else p + Suc k - ?n)"
        using p Suc.prems by (intro wrap_mod) auto
      finally show ?thesis using False p Suc.prems by (auto split: if_splits)
    qed
    finally show ?thesis .
  qed
  show ?case
  proof (cases "tstate (g_threads s ! (ts ! ?i)) = THREAD_READY")
    case True
    then show ?thesis unfolding el by (subst scan_ready.simps) (simp add: first_ready_def)
  next
    case not_ready: False
    show ?thesis
    proof (cases "Suc k = ?n")
      case True
      then have "drop (Suc k) (rotate p ts) = []" by simp
      with not_ready nx start True show ?thesis
        unfolding el by (subst scan_ready.simps) (simp add: first_ready_def)
    next
      case False
      then have "scan_ready s (ts ! p) (ts ! ((p + Suc k) mod ?n)) = Some (first_ready s (drop (Suc k) (rotate p ts)))"
        using Suc.hyps(1) [of "Suc k"] Suc.hyps(2) Suc.prems by simp
      with not_ready nx start False show ?thesis
        unfolding el by (subst scan_ready.simps) (simp add: first_ready_def)
    qed
  qed
qed

lemma first_ready_Some:
  "first_ready s ts = Some c \<Longrightarrow> c \<in> set ts \<and> tstate (g_threads s ! c) = THREAD_READY"
  by (auto simp: first_ready_def find_Some_iff)

lemma first_ready_None:
  "first_ready s ts = None \<longleftrightarrow> (\<forall>c \<in> set ts. tstate (g_threads s ! c) \<noteq> THREAD_READY)"
  by (auto simp: first_ready_def find_None_iff)

lemma next_ready_in_queue:
  assumes rep: "queue_rep s ts" and i: "i < length ts"
  shows "queue_next_ready (Some (ts ! i)) s = Some (first_ready s (rotate (Suc i) ts))"
proof -
  let ?n = "length ts" and ?p = "Suc i mod length ts"
  have ne: "ts \<noteq> []" using i by auto
  note D = queue_repD [OF rep ne]
  have p: "?p < ?n" using i by (intro mod_less_divisor) linarith
  have rot: "rotate ?p ts = rotate (Suc i) ts" by (rule rotate_conv_mod [symmetric])
  have "scan_ready s (ts ! ?p) (ts ! ((?p + 0) mod ?n)) = Some (first_ready s (drop 0 (rotate ?p ts)))"
    using p by (intro scan_ready_rotation [OF rep]) linarith+
  then have scan: "scan_ready s (ts ! ?p) (ts ! ?p) = Some (first_ready s (rotate (Suc i) ts))"
    unfolding rot by simp
  have nx: "next_of s (ts ! i) = Some (ts ! ?p)" by (rule D(3) [OF i])
  have mem: "ts ! i \<in> set (rotate (Suc i) ts)" using i by simp
  show ?thesis
  proof (cases "first_ready s (rotate (Suc i) ts)")
    case None
    then have "tstate (g_threads s ! (ts ! i)) \<noteq> THREAD_READY" using mem by (simp add: first_ready_None)
    with None show ?thesis using D(1) nx scan by (simp add: queue_next_ready_def)
  next
    case (Some c)
    then show ?thesis using D(1) nx scan by (simp add: queue_next_ready_def)
  qed
qed

lemma next_ready_from_head:
  assumes rep: "queue_rep s ts"
  shows "queue_next_ready None s = Some (first_ready s ts)"
proof (cases "ts = []")
  case True
  with rep show ?thesis by (simp add: queue_next_ready_def queue_rep_def first_ready_def)
next
  case False
  have "scan_ready s (ts ! 0) (ts ! ((0 + 0) mod length ts)) = Some (first_ready s (drop 0 (rotate 0 ts)))"
    using False by (intro scan_ready_rotation [OF rep]) simp_all
  then have "scan_ready s (ts ! 0) (ts ! 0) = Some (first_ready s ts)" by simp
  then show ?thesis
    using queue_repD(1) [OF rep False] by (simp add: queue_next_ready_def split: option.split)
qed

subsection \<open>The contract of a ready queue\<close>

locale ready_queue =
  fixes rep :: "'s \<Rightarrow> nat list \<Rightarrow> bool"
    and valid :: "'s \<Rightarrow> nat \<Rightarrow> bool"
    and ready :: "'s \<Rightarrow> nat \<Rightarrow> bool"
    and enqueue :: "nat \<Rightarrow> 's \<Rightarrow> 's"
    and dequeue :: "nat \<Rightarrow> 's \<Rightarrow> 's option"
    and pick :: "nat \<Rightarrow> 's \<Rightarrow> nat option option"
  assumes enqueue_rep: "rep s ts \<Longrightarrow> valid s i \<Longrightarrow> i \<notin> set ts \<Longrightarrow> rep (enqueue i s) (ts @ [i])"
    and dequeue_rep: "rep s (us @ i # vs) \<Longrightarrow> \<exists>s'. dequeue i s = Some s' \<and> rep s' (us @ vs)"
    and dequeue_absent: "rep s ts \<Longrightarrow> i \<notin> set ts \<Longrightarrow> dequeue i s = Some s"
    and pick_rep: "rep s ts \<Longrightarrow> k < length ts \<Longrightarrow> pick (ts ! k) s = Some (find (ready s) (rotate (Suc k) ts))"
begin

lemma dequeue_enqueue:
  assumes "rep s ts" "valid s i" "i \<notin> set ts"
  shows "\<exists>s'. dequeue i (enqueue i s) = Some s' \<and> rep s' ts"
  using dequeue_rep [of "enqueue i s" ts i "[]"] enqueue_rep [OF assms] by simp

lemma pick_ready:
  assumes "rep s ts" "k < length ts" "pick (ts ! k) s = Some (Some c)"
  shows "c \<in> set ts \<and> ready s c"
proof -
  have "find (ready s) (rotate (Suc k) ts) = Some c"
    using pick_rep [OF assms(1,2)] assms(3) by (simp del: rotate_Suc)
  then obtain i where "i < length (rotate (Suc k) ts)" "ready s c" "c = rotate (Suc k) ts ! i"
    unfolding find_Some_iff by blast
  then have "c \<in> set (rotate (Suc k) ts)" "ready s c" by (simp_all only: nth_mem)
  then show ?thesis by simp
qed

lemma pick_nobody:
  assumes "rep s ts" "k < length ts"
  shows "pick (ts ! k) s = Some None \<longleftrightarrow> (\<forall>c \<in> set ts. \<not> ready s c)"
  using pick_rep [OF assms] by (simp add: find_None_iff) blast

text \<open>
  Fairness: the thread \<open>d\<close> places after the current one is never passed over for one further away.
\<close>

lemma pick_within:
  assumes rep: "rep s ts" and k: "k < length ts" and d: "d < length ts"
    and ready: "ready s (ts ! ((Suc k + d) mod length ts))"
  shows "\<exists>e \<le> d. pick (ts ! k) s = Some (Some (ts ! ((Suc k + e) mod length ts)))
    \<and> ready s (ts ! ((Suc k + e) mod length ts))
    \<and> (\<forall>f < e. \<not> ready s (ts ! ((Suc k + f) mod length ts)))"
proof -
  let ?n = "length ts" and ?r = "rotate (Suc k) ts"
  have nth: "?r ! j = ts ! ((Suc k + j) mod ?n)" if "j < ?n" for j
    using that by (simp only: nth_rotate length_rotate)
  have "\<exists>e. find (ready s) ?r = Some (?r ! e) \<and> e < ?n \<and> ready s (?r ! e) \<and> (\<forall>f < e. \<not> ready s (?r ! f))"
  proof (cases "find (ready s) ?r")
    case None
    then have "\<not> ready s (?r ! d)" using d by (metis find_None_iff length_rotate nth_mem)
    with ready show ?thesis unfolding nth [OF d] by blast
  next
    case (Some c)
    then show ?thesis by (auto simp: find_Some_iff)
  qed
  then obtain e where e: "find (ready s) ?r = Some (?r ! e)" "e < ?n" "ready s (?r ! e)"
    "\<forall>f < e. \<not> ready s (?r ! f)" by blast
  have "e \<le> d"
  proof (rule ccontr)
    assume "\<not> e \<le> d"
    then have "\<not> ready s (?r ! d)" using e(4) by auto
    with ready show False unfolding nth [OF d] by blast
  qed
  moreover have "\<forall>f < e. \<not> ready s (ts ! ((Suc k + f) mod ?n))"
    using e(2,4) nth by (metis less_trans)
  moreover have "pick (ts ! k) s = Some (Some (?r ! e))" unfolding pick_rep [OF rep k] e(1) ..
  ultimately show ?thesis
    using e(3) unfolding nth [OF e(2)] by (intro exI [of _ e] conjI)
qed

end

interpretation rq: ready_queue queue_rep "\<lambda>s i. i < length (g_threads s)"
    "\<lambda>s i. tstate (g_threads s ! i) = THREAD_READY"
    "\<lambda>i. queue_insert (Some i)" "\<lambda>i. queue_remove (Some i)" "\<lambda>c. queue_next_ready (Some c)"
proof unfold_locales
  fix s :: "'a proc_scheme" and ts us vs :: "nat list" and i k :: nat
  show "queue_rep s ts \<Longrightarrow> i < length (g_threads s) \<Longrightarrow> i \<notin> set ts \<Longrightarrow> queue_rep (queue_insert (Some i) s) (ts @ [i])"
    by (rule queue_insert_rep)
  show "queue_rep s (us @ i # vs) \<Longrightarrow> \<exists>s'. queue_remove (Some i) s = Some s' \<and> queue_rep s' (us @ vs)"
    using queue_remove_rep by blast
  show "queue_rep s ts \<Longrightarrow> i \<notin> set ts \<Longrightarrow> queue_remove (Some i) s = Some s"
    by (rule queue_remove_absent)
  show "queue_rep s ts \<Longrightarrow> k < length ts \<Longrightarrow>
      queue_next_ready (Some (ts ! k)) s = Some (find (\<lambda>i. tstate (g_threads s ! i) = THREAD_READY) (rotate (Suc k) ts))"
    by (simp only: next_ready_in_queue first_ready_def)
qed

end
