(* ===== verification/Process.thy ===== *)
theory Process
  imports Run_Queue
begin

unbundle bit_operations_syntax

section \<open>Creating and ending processes\<close>

text \<open>
  Models the public operations of \<open>kernel/proc/process.c\<close>: \<open>proc_init\<close> (the idle process),
  \<open>proc_create_kernel\<close>, \<open>proc_create_user\<close> (a page directory of its own, its code and stack mapped)
  and \<open>proc_exit\<close>. They use the frame allocator, the page tables, the queue and the faked stack
  frames. The address of \<open>kernel_idle\<close> is an argument.
\<close>

subsection \<open>Operations\<close>

definition scheduler_add_thread :: "nat option \<Rightarrow> 'a proc_scheme \<Rightarrow> 'a proc_scheme" where
  "scheduler_add_thread t s =
     (case t of
        None \<Rightarrow> s
      | Some i \<Rightarrow> queue_insert (Some i) (upd_thread i (\<lambda>t. t\<lparr>tstate := THREAD_READY\<rparr>) s))"

text \<open>\<open>for (i = 0; i < 31 && name[i]; i++)\<close> on a C string.\<close>

definition copy_name :: "string \<Rightarrow> string" where
  "copy_name name = take 31 name"

text \<open>The kernel stack of a new thread: one frame, its address not checked.\<close>

definition give_kernel_stack :: "nat \<Rightarrow> (u32 \<Rightarrow> memory \<Rightarrow> u32 \<times> memory) \<Rightarrow> 'a proc_scheme \<Rightarrow> 'a proc_scheme" where
  "give_kernel_stack t setup s =
     (let (kstack, s) = pmm_alloc_frame s;
          s = upd_thread t (\<lambda>th. th\<lparr>kernel_stack_base := kstack\<rparr>) s;
          s = upd_thread t (\<lambda>th. th\<lparr>kernel_stack_top := kstack + PAGE_SIZE\<rparr>) s;
          (ctx, m) = setup (kernel_stack_top (g_threads s ! t)) (phys_mem s);
          s = s\<lparr>phys_mem := m\<rparr>
      in upd_thread t (\<lambda>th. th\<lparr>saved_context := ctx\<rparr>) s)"

text \<open>On the cleared tables both allocations succeed.\<close>

definition proc_init :: "u32 \<Rightarrow> 'a proc_scheme \<Rightarrow> 'a proc_scheme" where
  "proc_init kernel_idle s =
     (let s = s\<lparr>g_processes := replicate MAX_PROCESSES process_zero, g_threads := replicate MAX_THREADS thread_zero\<rparr>
      in case alloc_process s of
           (None, s) \<Rightarrow> s
         | (Some idle, s) \<Rightarrow>
             (let s = upd_process idle (\<lambda>p. p\<lparr>pid := 0\<rparr>) s;
                  s = s\<lparr>g_next_pid := 1\<rparr>;
                  s = upd_process idle (\<lambda>p. p\<lparr>pname := ''idle''\<rparr>) s;
                  s = upd_process idle (\<lambda>p. p\<lparr>p_privilege := PRIVILEGE_KERNEL\<rparr>) s;
                  s = upd_process idle (\<lambda>p. p\<lparr>page_dir := vmm_get_kernel_directory s\<rparr>) s
              in case alloc_thread s of
                   (None, s) \<Rightarrow> s
                 | (Some t, s) \<Rightarrow>
                     (let s = upd_thread t (\<lambda>th. th\<lparr>t_pid := pid (g_processes s ! idle), t_privilege := PRIVILEGE_KERNEL,
                                                     quantum := 1, tstate := THREAD_READY\<rparr>) s;
                          s = give_kernel_stack t (\<lambda>stk. setup_kernel_stack stk kernel_idle) s;
                          s = upd_process idle (\<lambda>p. p\<lparr>main_thread := Some t\<rparr>) s
                      in s\<lparr>g_current_thread := Some t\<rparr>)))"

definition proc_create_kernel :: "string \<Rightarrow> u32 \<Rightarrow> 'a proc_scheme \<Rightarrow> nat option \<times> 'a proc_scheme" where
  "proc_create_kernel name entry_point s =
     (case alloc_process s of
        (None, s) \<Rightarrow> (None, s)
      | (Some p, s) \<Rightarrow>
          (let s = upd_process p (\<lambda>q. q\<lparr>pname := copy_name name\<rparr>) s;
               s = upd_process p (\<lambda>q. q\<lparr>p_privilege := PRIVILEGE_KERNEL\<rparr>) s;
               s = upd_process p (\<lambda>q. q\<lparr>page_dir := vmm_get_kernel_directory s\<rparr>) s
           in case alloc_thread s of
                (None, s) \<Rightarrow> (None, upd_process p (\<lambda>q. q\<lparr>active := False\<rparr>) s)
              | (Some t, s) \<Rightarrow>
                  (let s = upd_thread t (\<lambda>th. th\<lparr>t_pid := pid (g_processes s ! p), t_privilege := PRIVILEGE_KERNEL,
                                                  quantum := 5, tstate := THREAD_READY\<rparr>) s;
                       s = give_kernel_stack t (\<lambda>stk. setup_kernel_stack stk entry_point) s;
                       s = upd_process p (\<lambda>q. q\<lparr>main_thread := Some t\<rparr>) s
                   in (Some p, scheduler_add_thread (Some t) s))))"

text \<open>\<open>for (i = 28; i >= 0; i -= 4)\<close>: each digit to the screen and to the serial line.\<close>

definition print_hex_digits :: "u32 \<Rightarrow> 'a proc_scheme \<Rightarrow> 'a proc_scheme" where
  "print_hex_digits v s =
     (let s = fold (\<lambda>k s. let c = hex_digit v (28 - 4 * k) in serial_puts [c] (screen_write [c] s)) [0..<8] s;
          s = screen_writeln [] s
      in serial_puts [CHR 0x0D, CHR 0x0A] s)"

definition print_both :: "string \<Rightarrow> 'a proc_scheme \<Rightarrow> 'a proc_scheme" where
  "print_both str s = serial_puts str (screen_write str s)"

definition print_image :: "u32 \<Rightarrow> u32 \<Rightarrow> u32 \<Rightarrow> 'a proc_scheme \<Rightarrow> 'a proc_scheme" where
  "print_image code_phys code_size entry_virt s =
     (let s = print_hex_digits code_phys (print_both ''user start=0x'' s);
          s = print_hex_digits entry_virt (print_both ''entry=0x'' s)
      in print_hex_digits code_size (print_both ''size=0x'' s))"

text \<open>The loop that maps the pages of the code.\<close>

definition map_code :: "u32 \<Rightarrow> u32 \<Rightarrow> u32 \<Rightarrow> nat \<Rightarrow> 'a proc_scheme \<Rightarrow> 'a proc_scheme" where
  "map_code dir virt phys pages s =
     fold (\<lambda>p s. vmm_map_page dir (virt + of_nat p * PAGE_SIZE) (phys + of_nat p * PAGE_SIZE)
             (PTE_PRESENT OR PTE_USER OR PTE_WRITABLE) s) [0..<pages] s"

text \<open>The loop that maps the stack: from page \<open>p\<close>, \<open>n\<close> to go; \<open>False\<close> when it runs out of frames.\<close>

fun map_stack :: "u32 \<Rightarrow> u32 \<Rightarrow> nat \<Rightarrow> nat \<Rightarrow> 'a proc_scheme \<Rightarrow> bool \<times> 'a proc_scheme" where
  "map_stack dir stack_virt p 0 s = (True, s)"
| "map_stack dir stack_virt p (Suc n) s =
     (let (frame, s) = pmm_alloc_frame s in
      if frame = 0 then (False, s)
      else map_stack dir stack_virt (Suc p) n
             (vmm_map_page dir (stack_virt + of_nat p * PAGE_SIZE) frame (PTE_PRESENT OR PTE_WRITABLE OR PTE_USER) s))"

definition map_thunk :: "u32 \<Rightarrow> 'a proc_scheme \<Rightarrow> 'a proc_scheme" where
  "map_thunk dir s =
     (let thunk_addr = 0x00106ccb; pg = page_base thunk_addr
      in vmm_map_page dir pg pg (PTE_PRESENT OR PTE_USER) s)"

definition proc_create_user :: "string \<Rightarrow> u32 \<Rightarrow> u32 \<Rightarrow> u32 \<Rightarrow> 'a proc_scheme \<Rightarrow> nat option \<times> 'a proc_scheme" where
  "proc_create_user name code_phys code_size entry_virt s =
     (let s = print_image code_phys code_size entry_virt s
      in case alloc_process s of
        (None, s) \<Rightarrow> (None, s)
      | (Some p, s) \<Rightarrow>
          (let s = upd_process p (\<lambda>q. q\<lparr>pname := copy_name name\<rparr>) s;
               s = upd_process p (\<lambda>q. q\<lparr>p_privilege := PRIVILEGE_USER\<rparr>) s;
               (dir, s) = vmm_create_directory s;
               s = upd_process p (\<lambda>q. q\<lparr>page_dir := dir\<rparr>) s
           in if dir = 0 then (None, upd_process p (\<lambda>q. q\<lparr>active := False\<rparr>) s)
              else
                let virt = page_base entry_virt; phys = page_base code_phys;
                    pages = (code_size + PAGE_SIZE - 1) div PAGE_SIZE;
                    s = map_code dir virt phys (unat pages) s;
                    stack_virt = USER_STACK_TOP - USER_STACK_SIZE;
                    (ok, s) = map_stack dir stack_virt 0 (unat (USER_STACK_SIZE div PAGE_SIZE)) s
                in if \<not> ok then (None, upd_process p (\<lambda>q. q\<lparr>active := False\<rparr>) s)
                   else case alloc_thread s of
                     (None, s) \<Rightarrow> (None, upd_process p (\<lambda>q. q\<lparr>active := False\<rparr>) s)
                   | (Some t, s) \<Rightarrow>
                       (let s = upd_thread t (\<lambda>th. th\<lparr>t_pid := pid (g_processes s ! p), t_privilege := PRIVILEGE_USER,
                                       quantum := 5, tstate := THREAD_READY, user_stack_top := USER_STACK_TOP\<rparr>) s;
                            s = give_kernel_stack t (\<lambda>stk. setup_user_stack stk entry_virt (USER_STACK_TOP - 4)) s;
                            s = upd_process p (\<lambda>q. q\<lparr>main_thread := Some t\<rparr>) s;
                            s = map_thunk dir s
                        in (Some p, scheduler_add_thread (Some t) s))))"

text \<open>The process's only thread is marked; the CPU then waits for the next tick to leave it.\<close>

definition proc_exit :: "u32 \<Rightarrow> 'a proc_scheme \<Rightarrow> 'a proc_scheme" where
  "proc_exit exit_code s =
     (case g_current_thread s of
        Some t \<Rightarrow> upd_thread t (\<lambda>th. th\<lparr>tstate := THREAD_DEAD\<rparr>) s
      | None \<Rightarrow> s)"

subsection \<open>Which part of the state an operation changes\<close>

text \<open>
  \<open>proc_part\<close>: the tables and the queue; \<open>mem_part\<close>: memory and page tables. Each operation used
  here changes only one of the two.
\<close>

definition proc_part where
  "proc_part s = (g_processes s, g_threads s, g_next_pid s, g_next_tid s, g_current_thread s,
     sched_queue_head s, sched_queue_tail s, sched_current s, sched_switches s)"

definition mem_part where
  "mem_part s = (phys_mem s, pmm_bitmap s, g_kernel_dir s)"

lemma proc_part_fields:
  "proc_part s = proc_part t \<Longrightarrow> g_processes s = g_processes t \<and> g_threads s = g_threads t
     \<and> g_next_pid s = g_next_pid t \<and> g_next_tid s = g_next_tid t \<and> g_current_thread s = g_current_thread t
     \<and> sched_queue_head s = sched_queue_head t \<and> sched_queue_tail s = sched_queue_tail t
     \<and> sched_current s = sched_current t \<and> sched_switches s = sched_switches t"
  by (simp add: proc_part_def)

lemma mem_part_fields:
  "mem_part s = mem_part t \<Longrightarrow> phys_mem s = phys_mem t \<and> free_addrs s = free_addrs t
     \<and> free_set s = free_set t \<and> pmm_wf s = pmm_wf t \<and> g_kernel_dir s = g_kernel_dir t"
  by (simp add: mem_part_def free_addrs_def free_set_def pmm_wf_def)

lemma proc_part_memory [simp]:
  "proc_part (snd (pmm_alloc_frame s)) = proc_part s"
  "proc_part (s\<lparr>phys_mem := m\<rparr>) = proc_part s"
  "proc_part (set_entry t i v s) = proc_part s"
  "proc_part (clear_table t s) = proc_part s"
  "proc_part (tlb_flush v s) = proc_part s"
  by (simp_all add: proc_part_def pmm_alloc_frame_def set_entry_def clear_table_def tlb_flush_def split: option.split)

lemma proc_part_map_page [simp]: "proc_part (vmm_map_page d v p f s) = proc_part s"
  by (auto simp: vmm_map_page_def get_or_create_table_def Let_def split_beta)

lemma proc_part_clone [simp]: "proc_part (clone_pde d i s) = proc_part s"
  by (auto simp: clone_pde_def Let_def split_beta)

lemma proc_part_fold: "(\<And>x s. proc_part (f x s) = proc_part s) \<Longrightarrow> proc_part (fold f xs s) = proc_part s"
  by (induction xs arbitrary: s) simp_all

lemma proc_part_create_directory [simp]: "proc_part (snd (vmm_create_directory s)) = proc_part s"
  by (auto simp: vmm_create_directory_def Let_def split_beta proc_part_fold)

lemma proc_part_console [simp]:
  "proc_part (screen_putchar c s) = proc_part s"
  "proc_part (serial_puts str s) = proc_part s"
  by (simp_all add: proc_part_def screen_putchar_def screen_scroll_def serial_puts_eq Let_def)

lemma mem_part_console [simp]:
  "mem_part (screen_putchar c s) = mem_part s"
  "mem_part (serial_puts str s) = mem_part s"
  by (simp_all add: mem_part_def screen_putchar_def screen_scroll_def serial_puts_eq Let_def)

lemma console_part_write [simp]:
  "proc_part (screen_write str s) = proc_part s" "mem_part (screen_write str s) = mem_part s"
  "proc_part (screen_writeln str s) = proc_part s" "mem_part (screen_writeln str s) = mem_part s"
proof -
  have "proc_part (screen_write str t) = proc_part t" "mem_part (screen_write str t) = mem_part t" for t
    by (induction str arbitrary: t) simp_all
  then show "proc_part (screen_write str s) = proc_part s" "mem_part (screen_write str s) = mem_part s"
    "proc_part (screen_writeln str s) = proc_part s" "mem_part (screen_writeln str s) = mem_part s"
    by (simp_all add: screen_writeln_def)
qed

lemma print_image_part [simp]:
  "proc_part (print_image a b c s) = proc_part s" "mem_part (print_image a b c s) = mem_part s"
proof -
  have digits: "proc_part (print_hex_digits v t) = proc_part t" "mem_part (print_hex_digits v t) = mem_part t" for v t
  proof -
    have "proc_part (fold (\<lambda>k s. let c = hex_digit v (28 - 4 * k) in serial_puts [c] (screen_write [c] s)) ks t) = proc_part t"
      and "mem_part (fold (\<lambda>k s. let c = hex_digit v (28 - 4 * k) in serial_puts [c] (screen_write [c] s)) ks t) = mem_part t"
      for ks by (induction ks arbitrary: t) (simp_all add: Let_def del: screen_write.simps serial_puts.simps)
    then show "proc_part (print_hex_digits v t) = proc_part t" "mem_part (print_hex_digits v t) = mem_part t"
      by (simp_all add: print_hex_digits_def Let_def del: screen_write.simps serial_puts.simps)
  qed
  show "proc_part (print_image a b c s) = proc_part s" "mem_part (print_image a b c s) = mem_part s"
    by (simp_all add: print_image_def print_both_def digits del: screen_write.simps serial_puts.simps)
qed

lemma mem_part_tables [simp]:
  "mem_part (upd_thread i f s) = mem_part s" "mem_part (upd_process i g s) = mem_part s"
  "mem_part (snd (alloc_process s)) = mem_part s" "mem_part (snd (alloc_thread s)) = mem_part s"
  "mem_part (scheduler_add_thread t s) = mem_part s"
  by (auto simp: mem_part_def upd_thread_def upd_process_def alloc_process_def alloc_thread_def take_thread_slot_def
      scheduler_add_thread_def queue_insert_def set_next_def Let_def split: option.split)

lemma map_code_part [simp]: "proc_part (map_code d v p n s) = proc_part s"
  by (simp add: map_code_def proc_part_fold)

lemma map_stack_part [simp]: "proc_part (snd (map_stack d v p n s)) = proc_part s"
  by (induction d v p n s rule: map_stack.induct) (auto simp: Let_def split_beta)

lemma map_thunk_part [simp]: "proc_part (map_thunk d s) = proc_part s"
  by (simp add: map_thunk_def Let_def)

subsection \<open>Identifiers\<close>

text \<open>
  The identifiers of live slots are distinct and below the next one to be given out. (A thread slot
  is in use when its \<open>tid\<close> is not zero.)
\<close>

definition ids_view where
  "ids_view s = (map (\<lambda>p. (active p, pid p)) (g_processes s), g_next_pid s, map tid (g_threads s), g_next_tid s)"

definition ids_ok :: "'a proc_scheme \<Rightarrow> bool" where
  "ids_ok s \<longleftrightarrow> (case ids_view s of (ps, np, ts, nt) \<Rightarrow>
     length ps = 16 \<and> length ts = 32 \<and> 0 < nt
     \<and> (\<forall>i < 16. fst (ps ! i) \<longrightarrow> snd (ps ! i) < np)
     \<and> (\<forall>i < 16. \<forall>j < 16. fst (ps ! i) \<and> fst (ps ! j) \<and> snd (ps ! i) = snd (ps ! j) \<longrightarrow> i = j)
     \<and> (\<forall>i < 32. ts ! i \<noteq> 0 \<longrightarrow> ts ! i < nt)
     \<and> (\<forall>i < 32. \<forall>j < 32. ts ! i \<noteq> 0 \<and> ts ! i = ts ! j \<longrightarrow> i = j))"

lemma ids_ok_cong: "ids_view s = ids_view t \<Longrightarrow> ids_ok s = ids_ok t"
  by (simp add: ids_ok_def)

lemma ids_view_proc_part: "proc_part s = proc_part t \<Longrightarrow> ids_view s = ids_view t"
  by (simp add: proc_part_def ids_view_def)

lemma map_update_same: "f (g (xs ! i)) = f (xs ! i) \<Longrightarrow> map f (xs[i := g (xs ! i)]) = map f xs"
  by (cases "i < length xs") (simp_all add: map_update list_update_same_conv list_update_beyond)

lemma ids_view_upd_thread: "(\<And>t. tid (f t) = tid t) \<Longrightarrow> ids_view (upd_thread i f s) = ids_view s"
  by (simp add: ids_view_def upd_thread_def map_update_same)

lemma ids_view_upd_process:
  "(\<And>p. active (f p) = active p) \<Longrightarrow> (\<And>p. pid (f p) = pid p) \<Longrightarrow> ids_view (upd_process i f s) = ids_view s"
  by (simp add: ids_view_def upd_process_def map_update_same [where f = "\<lambda>p. (active p, pid p)"])

lemma word_less_succ: "unat n < 4294967295 \<Longrightarrow> x < n \<Longrightarrow> x < n + 1" for x n :: u32
  by (simp add: word_less_nat_alt unat_plus_one_less)

lemma ids_ok_alloc_process:
  assumes ok: "ids_ok s" and n: "unat (g_next_pid s) < 4294967295"
  shows "ids_ok (snd (alloc_process s))"
proof (cases "find_slot (\<lambda>p. \<not> active p) (g_processes s)")
  case None
  then show ?thesis using ok by (simp add: alloc_process_def)
next
  case (Some i)
  from find_slot_Some [OF this] have i: "i < length (g_processes s)" "\<not> active (g_processes s ! i)" by auto
  obtain ps np ts nt where v: "ids_view s = (ps, np, ts, nt)" by (cases "ids_view s") auto
  have np: "np = g_next_pid s" using v by (simp add: ids_view_def)
  have v': "ids_view (snd (alloc_process s)) = (ps[i := (True, np)], np + 1, ts, nt)"
    using v i Some by (auto simp: ids_view_def alloc_process_def upd_process_def map_update process_zero_def Let_def)
  have lt: "x < np \<Longrightarrow> x < np + 1" for x using word_less_succ n np by blast
  have self: "np < np + 1" using n np by (simp add: word_less_nat_alt unat_plus_one_less)
  have len: "length ps = 16" "i < 16" using ok v i(1) by (auto simp: ids_ok_def ids_view_def)
  show ?thesis
    using ok lt self len unfolding ids_ok_def v v' by (auto simp: nth_list_update)
qed

lemma ids_ok_take_slot:
  assumes ok: "ids_ok s" and n: "unat (g_next_tid s) < 4294967295" and i: "i < length (g_threads s)" "tid (g_threads s ! i) = 0"
  shows "ids_ok (take_thread_slot i s)"
proof -
  obtain ps np ts nt where v: "ids_view s = (ps, np, ts, nt)" by (cases "ids_view s") auto
  have nt: "nt = g_next_tid s" using v by (simp add: ids_view_def)
  have v': "ids_view (take_thread_slot i s) = (ps, np, ts[i := nt], nt + 1)"
    using v i by (auto simp: ids_view_def take_thread_slot_def upd_thread_def map_update thread_zero_def Let_def)
  have lt: "x < nt \<Longrightarrow> x < nt + 1" for x using word_less_succ n nt by blast
  have self: "nt < nt + 1" "0 < nt + 1" using n nt ok by (simp_all add: word_less_nat_alt unat_plus_one_less)
  have len: "length ts = 32" "i < 32" using ok v i(1) by (auto simp: ids_ok_def ids_view_def)
  show ?thesis
    using ok lt self len unfolding ids_ok_def v v' by (auto simp: nth_list_update)
qed

lemma ids_ok_alloc_thread:
  assumes ok: "ids_ok s" and n: "unat (g_next_tid s) < 4294967295"
  shows "ids_ok (snd (alloc_thread s))"
proof -
  have "ids_ok (take_thread_slot i s)" if "find_slot P (g_threads s) = Some i" "\<And>t. P t \<Longrightarrow> tid t = 0" for P i
    using find_slot_Some [OF that(1)] that(2) by (intro ids_ok_take_slot [OF ok n]) auto
  then show ?thesis using ok by (auto simp: alloc_thread_def split: option.split)
qed

lemma ids_view_set_next [simp]: "ids_view (set_next i n s) = ids_view s"
  by (simp add: set_next_def ids_view_upd_thread)

lemma ids_view_other [simp]:
  "ids_view (s\<lparr>phys_mem := m\<rparr>) = ids_view s" "ids_view (s\<lparr>sched_queue_head := h\<rparr>) = ids_view s"
  "ids_view (s\<lparr>sched_queue_tail := h\<rparr>) = ids_view s" "ids_view (s\<lparr>g_current_thread := c\<rparr>) = ids_view s"
  "ids_view (snd (pmm_alloc_frame s)) = ids_view s"
  by (simp_all add: ids_view_def pmm_alloc_frame_def split: option.split)

lemma ids_view_add_thread [simp]: "ids_view (scheduler_add_thread t s) = ids_view s"
  by (auto simp: scheduler_add_thread_def queue_insert_def Let_def ids_view_upd_thread split: option.split)

lemma ids_view_kernel_stack [simp]: "ids_view (give_kernel_stack t f s) = ids_view s"
  by (simp add: give_kernel_stack_def Let_def split_beta ids_view_upd_thread)

lemma ids_view_memory [simp]:
  "ids_view (print_image a b c s) = ids_view s" "ids_view (snd (vmm_create_directory s)) = ids_view s"
  "ids_view (map_code d v p n s) = ids_view s" "ids_view (snd (map_stack d v q n s)) = ids_view s"
  "ids_view (map_thunk d s) = ids_view s"
  by (rule ids_view_proc_part, simp)+

lemma ids_ok_deactivate:
  assumes ok: "ids_ok s"
  shows "ids_ok (upd_process p (\<lambda>q. q\<lparr>active := False\<rparr>) s)"
proof (cases "p < length (g_processes s)")
  case False
  then show ?thesis using ok by (simp add: upd_process_def list_update_beyond)
next
  case True
  obtain ps np ts nt where v: "ids_view s = (ps, np, ts, nt)" by (cases "ids_view s") auto
  have v': "ids_view (upd_process p (\<lambda>q. q\<lparr>active := False\<rparr>) s) = (ps[p := (False, pid (g_processes s ! p))], np, ts, nt)"
    using v by (auto simp: ids_view_def upd_process_def map_update)
  have len: "length ps = 16" "p < 16" using ok v True by (auto simp: ids_ok_def ids_view_def)
  show ?thesis
    using ok len unfolding ids_ok_def v v' by (auto simp: nth_list_update)
qed

lemma next_tid_alloc_process [simp]: "g_next_tid (snd (alloc_process s)) = g_next_tid s"
  by (simp add: alloc_process_def upd_process_def Let_def split: option.split)

lemma ids_view_counters: "ids_view s = ids_view t \<Longrightarrow> g_next_pid s = g_next_pid t \<and> g_next_tid s = g_next_tid t"
  by (simp add: ids_view_def)

lemma ids_ok_create_kernel:
  assumes ok: "ids_ok s" and n: "unat (g_next_pid s) < 4294967295" "unat (g_next_tid s) < 4294967295"
  shows "ids_ok (snd (proc_create_kernel name entry s))"
proof (cases "alloc_process s")
  case (Pair r s1)
  have ok1: "ids_ok s1" "g_next_tid s1 = g_next_tid s"
    using ids_ok_alloc_process [OF ok n(1)] next_tid_alloc_process [of s] Pair by simp_all
  show ?thesis
  proof (cases r)
    case None
    then show ?thesis using ok1 Pair by (simp add: proc_create_kernel_def)
  next
    case (Some p)
    let ?s2 = "upd_process p (\<lambda>q. q\<lparr>page_dir := vmm_get_kernel_directory
        (upd_process p (\<lambda>q. q\<lparr>p_privilege := PRIVILEGE_KERNEL\<rparr>) (upd_process p (\<lambda>q. q\<lparr>pname := copy_name name\<rparr>) s1))\<rparr>)
        (upd_process p (\<lambda>q. q\<lparr>p_privilege := PRIVILEGE_KERNEL\<rparr>) (upd_process p (\<lambda>q. q\<lparr>pname := copy_name name\<rparr>) s1))"
    have v2: "ids_view ?s2 = ids_view s1" by (simp add: ids_view_upd_process)
    have ok2: "ids_ok ?s2" "unat (g_next_tid ?s2) < 4294967295"
      using ids_ok_cong [OF v2] ids_view_counters [OF v2] ok1 n by simp_all
    obtain rt s3 where t: "alloc_thread ?s2 = (rt, s3)" by (cases "alloc_thread ?s2") auto
    have ok3: "ids_ok s3" using ids_ok_alloc_thread [OF ok2] t by simp
    show ?thesis
    proof (cases rt)
      case None
      then show ?thesis
        using Pair Some t ids_ok_deactivate [OF ok3] by (simp add: proc_create_kernel_def Let_def)
    next
      case (Some u)
      have "ids_view (snd (proc_create_kernel name entry s)) = ids_view s3"
        using Pair \<open>r = Some p\<close> t Some
        by (simp add: proc_create_kernel_def Let_def ids_view_upd_process ids_view_upd_thread)
      then show ?thesis using ok3 ids_ok_cong by blast
    qed
  qed
qed

lemma ids_ok_create_user:
  assumes ok: "ids_ok s" and n: "unat (g_next_pid s) < 4294967295" "unat (g_next_tid s) < 4294967295"
  shows "ids_ok (snd (proc_create_user name phys sz entry s))"
proof -
  let ?s0 = "print_image phys sz entry s"
  have v0: "ids_view ?s0 = ids_view s" by simp
  have ok0: "ids_ok ?s0" "unat (g_next_pid ?s0) < 4294967295" "unat (g_next_tid ?s0) < 4294967295"
    using ids_ok_cong [OF v0] ids_view_counters [OF v0] ok n by simp_all
  obtain r s1 where a: "alloc_process ?s0 = (r, s1)" by (cases "alloc_process ?s0") auto
  have ok1: "ids_ok s1" "unat (g_next_tid s1) < 4294967295"
    using ids_ok_alloc_process [OF ok0(1,2)] next_tid_alloc_process [of ?s0] a ok0(3) by simp_all
  show ?thesis
  proof (cases r)
    case None
    then show ?thesis using ok1 a by (simp add: proc_create_user_def)
  next
    case (Some p)
    define s2 where "s2 = upd_process p (\<lambda>q. q\<lparr>p_privilege := PRIVILEGE_USER\<rparr>) (upd_process p (\<lambda>q. q\<lparr>pname := copy_name name\<rparr>) s1)"
    obtain dir s3 where c: "vmm_create_directory s2 = (dir, s3)" by (cases "vmm_create_directory s2") auto
    define s4 where "s4 = upd_process p (\<lambda>q. q\<lparr>page_dir := dir\<rparr>) s3"
    have "ids_view s3 = ids_view s2" using c ids_view_memory(2) [of s2] by simp
    then have v4: "ids_view s4 = ids_view s1" by (simp add: s4_def s2_def ids_view_upd_process)
    define s5 where "s5 = map_code dir (page_base entry) (page_base phys) (unat ((sz + PAGE_SIZE - 1) div PAGE_SIZE)) s4"
    obtain res s6 where m: "map_stack dir (USER_STACK_TOP - USER_STACK_SIZE) 0 (unat (USER_STACK_SIZE div PAGE_SIZE)) s5 = (res, s6)"
      by (cases "map_stack dir (USER_STACK_TOP - USER_STACK_SIZE) 0 (unat (USER_STACK_SIZE div PAGE_SIZE)) s5") auto
    have "ids_view s6 = ids_view s5" using m ids_view_memory(4) by (metis snd_conv)
    then have v6: "ids_view s6 = ids_view s1" using v4 by (simp add: s5_def)
    have ok4: "ids_ok s4" and ok6: "ids_ok s6" "unat (g_next_tid s6) < 4294967295"
      using ids_ok_cong [OF v4] ids_ok_cong [OF v6] ids_view_counters [OF v6] ok1 by simp_all
    obtain rt s7 where t: "alloc_thread s6 = (rt, s7)" by (cases "alloc_thread s6") auto
    have ok7: "ids_ok s7" using ids_ok_alloc_thread [OF ok6] t by simp
    note steps = a Some s2_def [symmetric] c s4_def [symmetric] s5_def [symmetric] m t
    show ?thesis
    proof (cases rt)
      case None
      then show ?thesis
        using ids_ok_deactivate [OF ok4, unfolded s4_def] ids_ok_deactivate [OF ok6(1)] ids_ok_deactivate [OF ok7]
        by (cases "dir = 0") (simp_all add: proc_create_user_def Let_def steps)
    next
      case (Some u)
      have "ids_ok (snd (proc_create_user name phys sz entry s))" if "dir = 0"
        using ids_ok_deactivate [OF ok4, unfolded s4_def] that
        by (simp add: proc_create_user_def Let_def steps Some)
      moreover have "ids_view (snd (proc_create_user name phys sz entry s)) \<in>
          {ids_view s7, ids_view (upd_process p (\<lambda>q. q\<lparr>active := False\<rparr>) s6)}" if "dir \<noteq> 0"
        using that by (simp add: proc_create_user_def Let_def steps Some ids_view_upd_process ids_view_upd_thread)
      ultimately show ?thesis
        using ids_ok_cong ok7 ids_ok_deactivate [OF ok6(1)] by blast
    qed
  qed
qed

end
