(* ===== verification/Vmm_Range.thy ===== *)
theory Vmm_Range
  imports Vmm
begin

unbundle bit_operations_syntax

section \<open>Mapping ranges of pages\<close>

text \<open>
  What a run of \<open>vmm_map_page\<close> calls over consecutive pages does to a directory, and how mapping a
  page changes what ring 3 may access. \<open>Process\<close> uses it for the code and the stack of a user
  process.
\<close>

subsection \<open>Pages and offsets\<close>

lemma page_iff: "page x \<longleftrightarrow> (\<exists>y. x = 4096 * y)"
proof
  assume "page x"
  then obtain k where k: "unat x = 4096 * k" using page_dvd by blast
  then have "of_nat (unat x) = (of_nat (4096 * k) :: u32)" by simp
  then have "x = of_nat (4096 * k)" by simp
  then show "\<exists>y. x = 4096 * y" by (intro exI [of _ "of_nat k"]) simp
next
  assume "\<exists>y. x = 4096 * y"
  then obtain y where "x = 4096 * y" by blast
  then have "unat x = 4096 * unat y mod 4294967296" by (simp add: unat_word_ariths)
  then have "page_aligned x" by (simp add: page_aligned_def dvd_mod)
  then show "page x" by (simp add: page_aligned_page)
qed

lemma page_add: "page x \<Longrightarrow> page (x + of_nat k * PAGE_SIZE)"
proof -
  assume "page x"
  then obtain y where "x = 4096 * y" by (auto simp: page_iff)
  then have "x + of_nat k * PAGE_SIZE = 4096 * (y + of_nat k)" by (simp add: const_defs algebra_simps)
  then show ?thesis unfolding page_iff by blast
qed

lemma page_or_offset: "page x \<Longrightarrow> x OR page_offset w = x + page_offset w"
proof -
  assume x: "page x"
  have "page_offset w \<le> 0xFFF" unfolding page_offset_def by (rule word_and_le1)
  then have "page_base (page_offset w) = 0" by (intro page_base_small) (simp add: word_le_nat_alt)
  with x have "x AND page_offset w = 0" by (rule page_and_flags)
  then show ?thesis by (rule disjunctive_add_eq_or [symmetric])
qed

lemma page_base_offset: "page_base w + page_offset w = w"
  using page_or_offset [of "page_base w" w] page_split [of w] by simp

lemma page_base_in_range:
  assumes v: "page v" and k: "unat v + 4096 * k < 4294967296"
  shows "page_base w = v + of_nat k * PAGE_SIZE \<longleftrightarrow> unat v + 4096 * k \<le> unat w \<and> unat w < unat v + 4096 * Suc k"
proof -
  have o: "of_nat k * PAGE_SIZE = of_nat (4096 * k)" by (simp add: const_defs)
  have "unat (of_nat (4096 * k) :: u32) = 4096 * k" using k by (intro unat_of_nat_u32) simp
  then have u: "unat (v + of_nat k * PAGE_SIZE) = unat v + 4096 * k"
    unfolding o using k unat_add_u32 [of v "of_nat (4096 * k)"] by simp
  obtain q where q: "unat v = 4096 * q" using page_dvd [OF v] by blast
  have "page_base w = v + of_nat k * PAGE_SIZE \<longleftrightarrow> unat w div 4096 * 4096 = 4096 * (q + k)"
    by (simp add: word_unat_eq_iff unat_page_base u q)
  also have "\<dots> \<longleftrightarrow> unat w div 4096 = q + k" by auto
  also have "\<dots> \<longleftrightarrow> 4096 * (q + k) \<le> unat w \<and> unat w < 4096 * Suc (q + k)"
    using div_nat_eqI [of 4096 "q + k" "unat w"] mult_div_mod_eq [of 4096 "unat w"] mod_less_divisor [of 4096 "unat w"]
    by auto
  finally show ?thesis unfolding q by (simp add: algebra_simps)
qed

subsection \<open>Access from ring 3\<close>

lemma user_bit: "x AND PTE_USER \<noteq> 0 \<longleftrightarrow> bit x 2"
proof -
  have "PTE_USER = push_bit 2 1" by (simp add: PTE_USER_def push_bit_eq_mult)
  then show ?thesis by (simp only: bit_iff_and_push_bit_not_eq_0)
qed

lemma bit_PTE_USER [simp]: "bit PTE_USER 2"
proof -
  have "PTE_USER AND PTE_USER \<noteq> 0" by (simp add: PTE_USER_def)
  then show ?thesis by (simp only: user_bit)
qed

lemma user_access_bits:
  "user_access m d w \<longleftrightarrow> (\<exists>pde pte. page_walk m d w = Some (pde, pte) \<and> bit pde 2 \<and> bit pte 2)"
  by (auto simp: user_access_def user_bit split: option.split)

lemma map_page_user_access:
  assumes pm: "page_mapped m F d v phys flags t m' F'" and ok: "dir_ok m F d" and flags: "page_base flags = 0"
  shows "user_access m d w \<Longrightarrow> page_base w \<noteq> page_base v \<Longrightarrow> user_access m' d w"
    and "page_base w = page_base v \<Longrightarrow> bit flags 2 \<Longrightarrow> user_access m' d w"
proof -
  note W = page_mapped_walk [OF assms, of w]
  show "user_access m' d w" if u: "user_access m d w" and ne: "page_base w \<noteq> page_base v"
  proof (cases "pde_index w = pde_index v")
    case False
    then show ?thesis using W(2) [OF ne] u by (simp add: user_access_def)
  next
    case True
    from u obtain pde pte where w: "page_walk m d w = Some (pde, pte)" "bit pde 2" "bit pte 2"
      by (auto simp: user_access_bits)
    then have at: "pde_at m d (pde_index v)" "pde = read_entry m d (pde_index v)"
      using True by (auto simp: page_walk_eq split: if_splits)
    then have "read_entry m' d (pde_index v) = pde OR pde_flags flags"
      using pm by (simp add: page_mapped_def)
    then have "bit (read_entry m' d (pde_index v)) 2" using w(2) by (simp add: bit_or_iff)
    then show ?thesis using W(3) [OF ne True] w by (simp add: user_access_bits)
  qed
  show "user_access m' d w" if same: "page_base w = page_base v" and f: "bit flags 2"
  proof -
    have "bit (pde_flags flags) 2" using f by (simp add: pde_flags_def user_bit bit_or_iff)
    then have "bit (read_entry m' d (pde_index v)) 2"
      using pm f by (cases "pde_at m d (pde_index v)") (simp_all add: page_mapped_def bit_or_iff)
    moreover have "bit (new_pte phys flags) 2" using f by (simp add: new_pte_def bit_or_iff)
    ultimately show ?thesis using W(1) [OF same] by (simp add: user_access_bits)
  qed
qed

subsection \<open>A range of pages\<close>

lemma page_mapped_free: "page_mapped m F d v phys flags t m' F' \<Longrightarrow> finite F \<Longrightarrow> F' \<subseteq> F \<and> card F \<le> Suc (card F')"
  by (auto simp: page_mapped_def card_Suc_Diff1 split: if_splits)

text \<open>One call, with the facts a sequence of calls needs.\<close>

lemma map_page_step:
  fixes s :: "'a vmm_scheme" and d v phys flags w :: u32
  assumes wf: "pmm_wf s" and ok: "dir_ok (phys_mem s) (free_addrs s) d" and flags: "page_base flags = 0"
    and room: "0 < card (free_addrs s)" and u: "bit flags 2"
  defines "t \<equiv> vmm_map_page d v phys flags s"
  shows "pmm_wf t" "dir_ok (phys_mem t) (free_addrs t) d" "g_kernel_dir t = g_kernel_dir s"
    "free_addrs t \<subseteq> free_addrs s" "card (free_addrs s) \<le> Suc (card (free_addrs t))"
    "translate (phys_mem t) d w = (if page_base w = page_base v then Some (page_base phys OR page_offset w)
       else translate (phys_mem s) d w)"
    "page_base w = page_base v \<or> user_access (phys_mem s) d w \<Longrightarrow> user_access (phys_mem t) d w"
proof -
  have "free_addrs s \<noteq> {}" using room by auto
  then obtain t' where pm: "page_mapped (phys_mem s) (free_addrs s) d v phys flags t' (phys_mem t) (free_addrs t)"
    using map_page_mapped [OF wf ok flags] unfolding t_def by blast
  show "pmm_wf t" "g_kernel_dir t = g_kernel_dir s" using map_page_wf [OF wf] by (simp_all add: t_def)
  show "dir_ok (phys_mem t) (free_addrs t) d" by (rule page_mapped_dir_ok [OF pm ok flags])
  show "free_addrs t \<subseteq> free_addrs s" "card (free_addrs s) \<le> Suc (card (free_addrs t))"
    using page_mapped_free [OF pm pmm_alloc.finite_free] by auto
  show "translate (phys_mem t) d w = (if page_base w = page_base v then Some (page_base phys OR page_offset w)
       else translate (phys_mem s) d w)"
    by (rule page_mapped_translate [OF pm ok flags])
  show "user_access (phys_mem t) d w" if "page_base w = page_base v \<or> user_access (phys_mem s) d w"
    using map_page_user_access [OF pm ok flags] that u by blast
qed

definition map_range :: "u32 \<Rightarrow> u32 \<Rightarrow> u32 \<Rightarrow> u32 \<Rightarrow> nat \<Rightarrow> 'a vmm_scheme \<Rightarrow> 'a vmm_scheme" where
  "map_range d v phys flags n s =
     fold (\<lambda>p s. vmm_map_page d (v + of_nat p * PAGE_SIZE) (phys + of_nat p * PAGE_SIZE) flags s) [0..<n] s"

definition range_mapped :: "'a vmm_scheme \<Rightarrow> u32 \<Rightarrow> u32 \<Rightarrow> u32 \<Rightarrow> nat \<Rightarrow> 'a vmm_scheme \<Rightarrow> bool" where
  "range_mapped s d v phys n t \<longleftrightarrow>
     pmm_wf t \<and> dir_ok (phys_mem t) (free_addrs t) d \<and> g_kernel_dir t = g_kernel_dir s
     \<and> free_addrs t \<subseteq> free_addrs s \<and> card (free_addrs s) \<le> n + card (free_addrs t)
     \<and> (\<forall>w. translate (phys_mem t) d w = (if unat v \<le> unat w \<and> unat w < unat v + 4096 * n
           then Some (phys + (w - v)) else translate (phys_mem s) d w))
     \<and> (\<forall>w. (unat v \<le> unat w \<and> unat w < unat v + 4096 * n) \<or> user_access (phys_mem s) d w
           \<longrightarrow> user_access (phys_mem t) d w)"

lemma range_mapped_Suc:
  fixes s t :: "'a vmm_scheme" and d v phys flags :: u32
  assumes R: "range_mapped s d v phys n t" and flags: "page_base flags = 0" "bit flags 2"
    and v: "page v" and phys: "page phys" and fit: "unat v + 4096 * Suc n < 4294967296"
    and room: "Suc n \<le> card (free_addrs s)"
  shows "range_mapped s d v phys (Suc n) (vmm_map_page d (v + of_nat n * PAGE_SIZE) (phys + of_nat n * PAGE_SIZE) flags t)"
    (is "range_mapped s d v phys (Suc n) ?t")
proof -
  let ?v = "v + of_nat n * PAGE_SIZE" and ?p = "phys + of_nat n * PAGE_SIZE"
  note R = R [unfolded range_mapped_def]
  have wf': "pmm_wf t" and ok': "dir_ok (phys_mem t) (free_addrs t) d" and kd: "g_kernel_dir t = g_kernel_dir s"
    and free: "free_addrs t \<subseteq> free_addrs s" "card (free_addrs s) \<le> n + card (free_addrs t)"
    using R by blast+
  have tr: "translate (phys_mem t) d w = (if unat v \<le> unat w \<and> unat w < unat v + 4096 * n
          then Some (phys + (w - v)) else translate (phys_mem s) d w)" for w using R by blast
  have us: "(unat v \<le> unat w \<and> unat w < unat v + 4096 * n) \<or> user_access (phys_mem s) d w
          \<Longrightarrow> user_access (phys_mem t) d w" for w using R by blast
  have room: "0 < card (free_addrs t)" using free(2) room by linarith
  note M = map_page_step [OF wf' ok' flags(1) room flags(2), where v = "?v" and phys = "?p"]
  have base: "page_base ?v = ?v" "page_base ?p = ?p" using page_add [OF v] page_add [OF phys] by (simp_all add: page_def)
  have here: "page_base w = ?v \<longleftrightarrow> unat v + 4096 * n \<le> unat w \<and> unat w < unat v + 4096 * Suc n" for w
    using fit by (intro page_base_in_range [OF v]) simp
  have split: "unat v \<le> unat w \<and> unat w < unat v + 4096 * Suc n \<longleftrightarrow>
      page_base w = ?v \<or> (unat v \<le> unat w \<and> unat w < unat v + 4096 * n)" for w
    using here [of w] by auto
  have "translate (phys_mem ?t) d w = (if unat v \<le> unat w \<and> unat w < unat v + 4096 * Suc n
          then Some (phys + (w - v)) else translate (phys_mem s) d w)" for w
  proof (cases "page_base w = ?v")
    case True
    have "page_base w + page_offset w = w" by (rule page_base_offset)
    then have "page_offset w = w - ?v" unfolding True by (metis add_diff_cancel_left')
    then have "?p + page_offset w = phys + (w - v)" by simp
    moreover have "?p OR page_offset w = ?p + page_offset w" by (rule page_or_offset) (simp add: page_def base)
    moreover have "translate (phys_mem ?t) d w = Some (?p OR page_offset w)"
      using M(6) [of w] True unfolding base by simp
    ultimately show ?thesis using True split [of w] by simp
  next
    case False
    then have "translate (phys_mem ?t) d w = translate (phys_mem t) d w" using M(6) [of w] unfolding base by simp
    then show ?thesis using False tr [of w] split [of w] by simp
  qed
  moreover have "user_access (phys_mem ?t) d w"
    if "(unat v \<le> unat w \<and> unat w < unat v + 4096 * Suc n) \<or> user_access (phys_mem s) d w" for w
  proof -
    have "page_base w = page_base ?v \<or> user_access (phys_mem t) d w"
      using that us [of w] split [of w] unfolding base by blast
    then show ?thesis by (rule M(7))
  qed
  moreover have "free_addrs ?t \<subseteq> free_addrs s" "card (free_addrs s) \<le> Suc n + card (free_addrs ?t)"
    using M(4,5) free by auto
  moreover have "g_kernel_dir ?t = g_kernel_dir s" using M(3) kd by simp
  ultimately show ?thesis using M(1,2) unfolding range_mapped_def by blast
qed

lemma range_mapped_0:
  "pmm_wf s \<Longrightarrow> dir_ok (phys_mem s) (free_addrs s) d \<Longrightarrow> range_mapped s d v phys 0 s"
  by (auto simp: range_mapped_def)

lemma map_range_mapped:
  fixes s :: "'a vmm_scheme" and d v phys flags :: u32
  assumes wf: "pmm_wf s" and ok: "dir_ok (phys_mem s) (free_addrs s) d" and flags: "page_base flags = 0" "bit flags 2"
    and v: "page v" and phys: "page phys"
  shows "unat v + 4096 * n < 4294967296 \<Longrightarrow> n \<le> card (free_addrs s) \<Longrightarrow>
    range_mapped s d v phys n (map_range d v phys flags n s)"
proof (induction n)
  case 0
  then show ?case using range_mapped_0 [OF wf ok] by (simp add: map_range_def)
next
  case (Suc n)
  have "range_mapped s d v phys n (map_range d v phys flags n s)" using Suc by simp
  from range_mapped_Suc [OF this flags v phys Suc.prems] show ?case by (simp add: map_range_def)
qed

subsection \<open>Frames a new directory takes\<close>

lemma card_Diff1_ge: "finite F \<Longrightarrow> card F \<le> Suc (card (F - {x}))"
  by (cases "x \<in> F") (simp_all add: card_Suc_Diff1)

lemma alloc_card: "pmm_wf s \<Longrightarrow> card (free_addrs s) \<le> Suc (card (free_addrs (snd (pmm_alloc_frame s))))"
  using card_Diff1_ge [OF pmm_alloc.finite_free] by (simp add: pmm_alloc.alloc_removes)

lemma clone_pde_card:
  assumes "pmm_wf s"
  shows "card (free_addrs s) \<le> (if present (read_entry (phys_mem s) (g_kernel_dir s) (of_nat i)) then 1 else 0)
    + card (free_addrs (clone_pde d i s))"
  using alloc_card [OF assms] by (simp add: clone_pde_def Let_def split_beta)

lemma clone_loop_card:
  assumes K: "dir_ok m0 F0 K" and start: "clone_inv m0 F0 K d 0 s"
  shows "k \<le> 1024 \<Longrightarrow> card (free_addrs s) \<le>
    card {i. pde_at m0 K i \<and> unat i < k} + card (free_addrs (fold (clone_pde d) [0..<k] s))"
proof (induction k)
  case 0
  then show ?case by simp
next
  case (Suc k)
  let ?s = "fold (clone_pde d) [0..<k] s" and ?k = "of_nat k :: u32"
  have inv: "clone_inv m0 F0 K d k ?s" using clone_loop [OF K start] Suc.prems by simp
  then have wf: "pmm_wf ?s" and Kd: "g_kernel_dir ?s = K"
    and out: "same_outside (F0 - free_addrs ?s) m0 (phys_mem ?s)" by (auto simp: clone_inv_def)
  have uk: "unat ?k = k" using Suc.prems by (simp add: unat_index)
  have "read_entry (phys_mem ?s) K ?k = read_entry m0 K ?k"
    using K Suc.prems uk by (intro read_entry_outside [OF out]) (auto simp: dir_ok_def)
  then have pr: "present (read_entry (phys_mem ?s) (g_kernel_dir ?s) ?k) \<longleftrightarrow> pde_at m0 K ?k"
    using uk Suc.prems Kd by (simp add: pde_at_def)
  have "{i. pde_at m0 K i \<and> unat i < Suc k} = (if pde_at m0 K ?k then insert ?k {i. pde_at m0 K i \<and> unat i < k}
      else {i. pde_at m0 K i \<and> unat i < k})"
    using uk by (auto simp: less_Suc_eq word_unat_eq_iff)
  then have "card {i. pde_at m0 K i \<and> unat i < Suc k} =
      (if pde_at m0 K ?k then 1 else 0) + card {i. pde_at m0 K i \<and> unat i < k}"
    using uk by (simp add: card_insert_if)
  then show ?case using Suc clone_pde_card [OF wf, of k d] unfolding pr by simp
qed

lemma create_directory_card:
  assumes wf: "pmm_wf s" and K: "dir_ok (phys_mem s) (free_addrs s) (g_kernel_dir s)"
    and room: "card {i. pde_at (phys_mem s) (g_kernel_dir s) i} < card (free_addrs s)"
  shows "card (free_addrs s) \<le> Suc (card {i. pde_at (phys_mem s) (g_kernel_dir s) i})
    + card (free_addrs (snd (vmm_create_directory s)))"
proof -
  let ?K = "g_kernel_dir s" and ?m = "phys_mem s" and ?F = "free_addrs s"
  let ?d = "fst (pmm_alloc_frame s)" and ?a = "snd (pmm_alloc_frame s)"
  have nz: "?d \<noteq> 0"
  proof -
    have "?F \<noteq> {}" using room by auto
    then show ?thesis using pmm_alloc.alloc_zero [OF wf] by simp
  qed
  note f = new_frame [OF wf refl nz]
  note cl = clear_table_entries [OF f(1), where s = ?a]
  have "card {i. pde_at ?m ?K i \<and> 0 \<le> unat i} \<le> card (?F - {?d})"
    using room f(2) pmm_alloc.finite_free [of s] by simp
  moreover have "?F - (?F - {?d}) = {?d}" using f(2) by auto
  ultimately have start: "clone_inv ?m ?F ?K ?d 0 (clear_table ?d ?a)"
    using f nz cl by (simp add: clone_inv_def)
  have "{i. pde_at ?m ?K i \<and> unat i < 1024} = {i. pde_at ?m ?K i}" by (auto simp: pde_at_def)
  then show ?thesis
    using clone_loop_card [OF K start, of 1024] alloc_card [OF wf] nz K
    by (simp add: vmm_create_directory_def split_beta Let_def dir_ok_def)
qed

subsection \<open>Writing inside one page\<close>

lemma store32_outside:
  assumes t: "page t" and k: "k < 1024"
  shows "same_outside {t} m (store32 m (t + 4 * of_nat k) v)"
  using write_entry_outside [OF t, of "of_nat k" m v] k by (simp add: write_entry_def unat_index)

end
