(* ===== verification/User_Space.thy ===== *)
theory User_Space
  imports Process Vmm_Range
begin

unbundle bit_operations_syntax

section \<open>The address space of a new user process\<close>

text \<open>
  What \<open>proc_create_user\<close> builds when the machine has the frames for it: the program's pages at its
  entry address, sixteen frames of its own as its stack, the kernel's mappings below, and a saved
  context that starts it in ring 3.
\<close>

subsection \<open>The stack\<close>

text \<open>
  \<open>stack_mapped s d v p t\<close>: from state \<open>s\<close>, \<open>p\<close> pages from \<open>v\<close> on have been given frames that were free.
\<close>

definition stack_mapped :: "'a vmm_scheme \<Rightarrow> u32 \<Rightarrow> u32 \<Rightarrow> nat \<Rightarrow> 'a vmm_scheme \<Rightarrow> bool" where
  "stack_mapped s d v p t \<longleftrightarrow>
     pmm_wf t \<and> dir_ok (phys_mem t) (free_addrs t) d \<and> g_kernel_dir t = g_kernel_dir s
     \<and> free_addrs t \<subseteq> free_addrs s \<and> card (free_addrs s) \<le> 2 * p + card (free_addrs t)
     \<and> (\<exists>fr. inj_on fr {..<p} \<and> (\<forall>k < p. page (fr k) \<and> fr k \<in> free_addrs s - free_addrs t)
          \<and> (\<forall>w. translate (phys_mem t) d w = (if unat v \<le> unat w \<and> unat w < unat v + 4096 * p
                then Some (fr ((unat w - unat v) div 4096) + page_offset w) else translate (phys_mem s) d w)))
     \<and> (\<forall>w. (unat v \<le> unat w \<and> unat w < unat v + 4096 * p) \<or> user_access (phys_mem s) d w
           \<longrightarrow> user_access (phys_mem t) d w)"

lemma stack_mapped_0:
  "pmm_wf s \<Longrightarrow> dir_ok (phys_mem s) (free_addrs s) d \<Longrightarrow> stack_mapped s d v 0 s"
  by (auto simp: stack_mapped_def)

lemma stack_mapped_Suc:
  fixes s t :: "'a vmm_scheme" and d v flags :: u32
  assumes S: "stack_mapped s d v p t" and flags: "page_base flags = 0" "bit flags 2"
    and v: "page v" and fit: "unat v + 4096 * Suc p < 4294967296"
    and room: "2 * Suc p \<le> card (free_addrs s)"
  defines "f \<equiv> fst (pmm_alloc_frame t)" and "a \<equiv> snd (pmm_alloc_frame t)"
  shows "f \<noteq> 0" and "stack_mapped s d v (Suc p) (vmm_map_page d (v + of_nat p * PAGE_SIZE) f flags a)"
proof -
  let ?v = "v + of_nat p * PAGE_SIZE"
  let ?t = "vmm_map_page d ?v f flags a"
  note S = S [unfolded stack_mapped_def]
  have wf: "pmm_wf t" and ok: "dir_ok (phys_mem t) (free_addrs t) d" and kd: "g_kernel_dir t = g_kernel_dir s"
    and free: "free_addrs t \<subseteq> free_addrs s" "card (free_addrs s) \<le> 2 * p + card (free_addrs t)"
    and us: "\<And>w. (unat v \<le> unat w \<and> unat w < unat v + 4096 * p) \<or> user_access (phys_mem s) d w
           \<Longrightarrow> user_access (phys_mem t) d w"
    using S by blast+
  from S obtain fr where fr: "inj_on fr {..<p}" "\<And>k. k < p \<Longrightarrow> page (fr k) \<and> fr k \<in> free_addrs s - free_addrs t"
    and tr: "\<And>w. translate (phys_mem t) d w = (if unat v \<le> unat w \<and> unat w < unat v + 4096 * p
                then Some (fr ((unat w - unat v) div 4096) + page_offset w) else translate (phys_mem s) d w)"
    by blast
  have c: "2 \<le> card (free_addrs t)" using free(2) room by simp
  then have "free_addrs t \<noteq> {}" by auto
  then show nz: "f \<noteq> 0" unfolding f_def using pmm_alloc.alloc_zero [OF wf] by simp
  note nf = new_frame [OF wf meta_eq_to_obj_eq [OF f_def, symmetric] nz, folded a_def]
  have mem: "phys_mem a = phys_mem t" "g_kernel_dir a = g_kernel_dir t" by (simp_all add: a_def)
  have ok': "dir_ok (phys_mem a) (free_addrs a) d"
    unfolding mem using dir_ok_outside(2) [OF ok same_outside_refl empty_subsetI] nf(3) by auto
  have "card (free_addrs t) \<le> Suc (card (free_addrs a))" unfolding a_def by (rule alloc_card [OF wf])
  then have room': "0 < card (free_addrs a)" using c by linarith
  note M = map_page_step [OF nf(4) ok' flags(1) room' flags(2), where v = "?v" and phys = f]
  have base: "page_base ?v = ?v" "page_base f = f" using page_add [OF v] nf(1) by (simp_all add: page_def)
  have here: "page_base w = ?v \<longleftrightarrow> unat v + 4096 * p \<le> unat w \<and> unat w < unat v + 4096 * Suc p" for w
    using fit by (intro page_base_in_range [OF v]) simp
  have split: "unat v \<le> unat w \<and> unat w < unat v + 4096 * Suc p \<longleftrightarrow>
      page_base w = ?v \<or> (unat v \<le> unat w \<and> unat w < unat v + 4096 * p)" for w
    using here [of w] by auto
  let ?fr = "fr(p := f)"
  have tr': "translate (phys_mem ?t) d w = (if unat v \<le> unat w \<and> unat w < unat v + 4096 * Suc p
          then Some (?fr ((unat w - unat v) div 4096) + page_offset w) else translate (phys_mem s) d w)" for w
  proof (cases "page_base w = ?v")
    case True
    have "(unat w - unat v) div 4096 = p"
      using True [unfolded here] by (intro div_nat_eqI) auto
    moreover have "translate (phys_mem ?t) d w = Some (f + page_offset w)"
      using M(6) [of w] True page_or_offset [OF nf(1), of w] unfolding base by simp
    ultimately show ?thesis using True split [of w] by simp
  next
    case False
    then have "translate (phys_mem ?t) d w = translate (phys_mem t) d w" using M(6) [of w] unfolding base mem by simp
    moreover have "(unat w - unat v) div 4096 < p" if "unat v \<le> unat w \<and> unat w < unat v + 4096 * p"
      using that by (intro div_less_iff_less_mult [THEN iffD2]) auto
    ultimately show ?thesis using False tr [of w] split [of w] by auto
  qed
  have us': "user_access (phys_mem ?t) d w"
    if "(unat v \<le> unat w \<and> unat w < unat v + 4096 * Suc p) \<or> user_access (phys_mem s) d w" for w
  proof -
    have "page_base w = page_base ?v \<or> user_access (phys_mem a) d w"
      using that us [of w] split [of w] unfolding base mem by blast
    then show ?thesis by (rule M(7))
  qed
  have sub: "free_addrs ?t \<subseteq> free_addrs t - {f}" using M(4) nf(3) by simp
  have cd: "card (free_addrs s) \<le> 2 * Suc p + card (free_addrs ?t)"
    using M(5) free(2) \<open>card (free_addrs t) \<le> Suc (card (free_addrs a))\<close> by simp
  have inj: "inj_on ?fr {..<Suc p}"
  proof -
    have "f \<notin> fr ` {..<p}" using fr(2) nf(2) by auto
    then show ?thesis using fr(1) by (simp add: lessThan_Suc inj_on_fun_updI)
  qed
  have frs: "page (?fr k) \<and> ?fr k \<in> free_addrs s - free_addrs ?t" if "k < Suc p" for k
    using that fr(2) [of k] nf(1,2) free(1) sub by (cases "k = p") auto
  have "\<exists>fr. inj_on fr {..<Suc p} \<and> (\<forall>k < Suc p. page (fr k) \<and> fr k \<in> free_addrs s - free_addrs ?t)
          \<and> (\<forall>w. translate (phys_mem ?t) d w = (if unat v \<le> unat w \<and> unat w < unat v + 4096 * Suc p
                then Some (fr ((unat w - unat v) div 4096) + page_offset w) else translate (phys_mem s) d w))"
    by (intro exI [of _ ?fr] conjI allI impI inj frs tr')
  moreover have "g_kernel_dir ?t = g_kernel_dir s" "free_addrs ?t \<subseteq> free_addrs s"
    using M(3) kd mem sub free(1) by auto
  ultimately show "stack_mapped s d v (Suc p) ?t"
    unfolding stack_mapped_def using M(1,2) cd us' by blast
qed

lemma map_stack_mapped:
  fixes s :: "'a proc_scheme"
  assumes v: "page v"
  shows "stack_mapped s d v p t \<Longrightarrow> unat v + 4096 * (p + n) < 4294967296 \<Longrightarrow> 2 * (p + n) \<le> card (free_addrs s) \<Longrightarrow>
    fst (map_stack d v p n t) \<and> stack_mapped s d v (p + n) (snd (map_stack d v p n t))"
proof (induction n arbitrary: p t)
  case 0
  then show ?case by simp
next
  case (Suc n)
  let ?flags = "PTE_PRESENT OR PTE_WRITABLE OR PTE_USER"
  have flags: "page_base ?flags = 0" "bit ?flags 2" by (simp_all add: page_base_or_dist bit_or_iff)
  have fit: "unat v + 4096 * Suc p < 4294967296" "2 * Suc p \<le> card (free_addrs s)" using Suc.prems by simp_all
  note step = stack_mapped_Suc [OF Suc.prems(1) flags v fit]
  show ?case
    using Suc.IH [OF step(2)] Suc.prems(2,3) step(1) by (simp add: Let_def split_beta)
qed

subsection \<open>The kernel stack\<close>

lemma push_all_outside:
  assumes t: "page t"
  shows "length vs \<le> 1024 \<Longrightarrow> same_outside {t} m (snd (push_all vs (t + PAGE_SIZE, m)))"
proof (induction vs rule: rev_induct)
  case Nil
  then show ?case by (simp add: push_all_def)
next
  case (snoc v vs)
  let ?c = "push_all vs (t + PAGE_SIZE, m)" and ?k = "1023 - length vs"
  have "length vs \<le> 1023" using snoc.prems by simp
  then have e: "(of_nat ?k :: u32) = 1023 - of_nat (length vs)" by (simp add: of_nat_diff)
  have a: "t + PAGE_SIZE - 4 * of_nat (length vs) - 4 = t + 4 * of_nat ?k"
    unfolding e by (simp add: const_defs algebra_simps)
  have "same_outside {t} (snd ?c) (store32 (snd ?c) (t + 4 * of_nat ?k) v)"
    by (rule store32_outside [OF t]) simp
  moreover have "same_outside {t} m (snd ?c)" using snoc by simp
  ultimately have "same_outside ({t} \<union> {t}) m (store32 (snd ?c) (t + 4 * of_nat ?k) v)"
    using same_outside_trans by blast
  moreover have "push_all (vs @ [v]) (t + PAGE_SIZE, m) = (t + 4 * of_nat ?k, store32 (snd ?c) (t + 4 * of_nat ?k) v)"
    unfolding a [symmetric] push_all_append using push_all_esp [of vs "t + PAGE_SIZE" m]
    by (simp add: push32_def push_all_def split_beta)
  ultimately show ?case by simp
qed

text \<open>The nineteen words \<open>irq0_restore\<close> reads lie in the stack's page.\<close>

lemma restore_same_page:
  assumes k: "page k" and out: "same_outside P m m'" "k \<notin> P"
  shows "irq0_restore ss (k + PAGE_SIZE - 76) m' = irq0_restore ss (k + PAGE_SIZE - 76) m"
proof -
  have "load32 m' (k + PAGE_SIZE - 76 + 4 * of_nat j) = load32 m (k + PAGE_SIZE - 76 + 4 * of_nat j)" if "j < 19" for j
  proof -
    have u: "unat (of_nat (1005 + j) :: u32) < 1024" using that by (subst unat_of_nat_u32) simp_all
    have a: "k + PAGE_SIZE - 76 + 4 * of_nat j = k + 4 * of_nat (1005 + j)" by (simp add: const_defs algebra_simps)
    show ?thesis using read_entry_outside [OF out(1) k u out(2)] unfolding a read_entry_def .
  qed
  then show ?thesis unfolding irq0_restore_def Let_def by (simp only: rel_simps)
qed

lemma kernel_stack_given:
  fixes s :: "'a proc_scheme"
  assumes wf: "pmm_wf s" and ok: "dir_ok (phys_mem s) (free_addrs s) d" and room: "2 \<le> card (free_addrs s)"
    and t: "t < length (g_threads s)" and len: "length vs \<le> 1024"
  defines "k \<equiv> fst (pmm_alloc_frame s)" and "s' \<equiv> give_kernel_stack t (\<lambda>stk m. push_all vs (stk, m)) s"
  shows "page k" "k \<in> free_addrs s" "pmm_wf s'" "dir_ok (phys_mem s') (free_addrs s') d"
    "free_addrs s' = free_addrs s - {k}" "page_walk (phys_mem s') d w = page_walk (phys_mem s) d w"
    "phys_mem s' = snd (push_all vs (k + PAGE_SIZE, phys_mem s))"
    "g_threads s' = (g_threads s)[t := (g_threads s ! t)\<lparr>kernel_stack_base := k, kernel_stack_top := k + PAGE_SIZE,
       saved_context := k + PAGE_SIZE - 4 * of_nat (length vs)\<rparr>]"
    "g_processes s' = g_processes s"
    "g_kernel_dir s' = g_kernel_dir s"
proof -
  have "free_addrs s \<noteq> {}" using room by auto
  then have nz: "k \<noteq> 0" unfolding k_def using pmm_alloc.alloc_zero [OF wf] by simp
  note nf = new_frame [OF wf meta_eq_to_obj_eq [OF k_def, symmetric] nz]
  show k: "page k" "k \<in> free_addrs s" by (rule nf)+
  have th: "g_threads (snd (pmm_alloc_frame s)) = g_threads s" "g_processes (snd (pmm_alloc_frame s)) = g_processes s"
    using proc_part_fields [of "snd (pmm_alloc_frame s)" s] by simp_all
  have top: "kernel_stack_top (g_threads (upd_thread t (\<lambda>th. th\<lparr>kernel_stack_top := k + PAGE_SIZE\<rparr>)
      (upd_thread t (\<lambda>th. th\<lparr>kernel_stack_base := k\<rparr>) (snd (pmm_alloc_frame s)))) ! t) = k + PAGE_SIZE"
    using t th by (simp add: upd_thread_def)
  have mem: "phys_mem (upd_thread t f u) = phys_mem u" for f and u :: "'a proc_scheme" by (simp add: upd_thread_def)
  have s': "s' = upd_thread t (\<lambda>th. th\<lparr>saved_context := fst (push_all vs (k + PAGE_SIZE, phys_mem s))\<rparr>)
      ((upd_thread t (\<lambda>th. th\<lparr>kernel_stack_top := k + PAGE_SIZE\<rparr>)
        (upd_thread t (\<lambda>th. th\<lparr>kernel_stack_base := k\<rparr>) (snd (pmm_alloc_frame s))))
        \<lparr>phys_mem := snd (push_all vs (k + PAGE_SIZE, phys_mem s))\<rparr>)"
    unfolding s'_def give_kernel_stack_def Let_def split_beta k_def [symmetric] top mem alloc_keeps_memory ..
  have m: "phys_mem s' = snd (push_all vs (k + PAGE_SIZE, phys_mem s))" "free_addrs s' = free_addrs s - {k}" "pmm_wf s'"
    "g_kernel_dir s' = g_kernel_dir s"
    unfolding s' using nf by (simp_all add: upd_thread_def free_addrs_def free_set_def pmm_wf_def)
  show "phys_mem s' = snd (push_all vs (k + PAGE_SIZE, phys_mem s))" "free_addrs s' = free_addrs s - {k}" "pmm_wf s'"
    "g_kernel_dir s' = g_kernel_dir s" by (rule m)+
  have out: "same_outside {k} (phys_mem s) (phys_mem s')" unfolding m by (rule push_all_outside [OF k(1) len])
  show "dir_ok (phys_mem s') (free_addrs s') d" "page_walk (phys_mem s') d w = page_walk (phys_mem s) d w"
    using dir_ok_outside [OF ok out] k m(2) by auto
  show "g_threads s' = (g_threads s)[t := (g_threads s ! t)\<lparr>kernel_stack_base := k, kernel_stack_top := k + PAGE_SIZE,
       saved_context := k + PAGE_SIZE - 4 * of_nat (length vs)\<rparr>]"
    unfolding s' push_all_esp using t th by (simp add: upd_thread_def)
  show "g_processes s' = g_processes s" unfolding s' using th by (simp add: upd_thread_def)
qed

subsection \<open>Only free frames are written\<close>

text \<open>
  \<open>owned F d s\<close>: directory \<open>d\<close> and its tables are frames of \<open>F\<close>, as are the frames that are free.
  Mapping pages into such a directory writes nowhere else.
\<close>

definition owned :: "u32 set \<Rightarrow> u32 \<Rightarrow> 'a vmm_scheme \<Rightarrow> bool" where
  "owned F d s \<longleftrightarrow> pmm_wf s \<and> dir_ok (phys_mem s) (free_addrs s) d \<and> free_addrs s \<subseteq> F \<and> d \<in> F
     \<and> (\<forall>i. pde_at (phys_mem s) d i \<longrightarrow> table_of (phys_mem s) d i \<in> F)"

lemma owned_cong: "mem_part s = mem_part t \<Longrightarrow> owned F d s = owned F d t"
  using mem_part_fields [of s t] by (simp add: owned_def)

lemma owned_map_page:
  fixes s :: "'a vmm_scheme" and v phys flags :: u32
  assumes P: "owned F d s" and flags: "page_base flags = 0"
  defines "t \<equiv> vmm_map_page d v phys flags s"
  shows "owned F d t \<and> same_outside F (phys_mem s) (phys_mem t)"
proof (cases "pde_at (phys_mem s) d (pde_index v) \<or> free_addrs s \<noteq> {}")
  case True
  have ok: "pmm_wf s" "dir_ok (phys_mem s) (free_addrs s) d" using P by (simp_all add: owned_def)
  obtain u where pm: "page_mapped (phys_mem s) (free_addrs s) d v phys flags u (phys_mem t) (free_addrs t)"
    using map_page_mapped [OF ok flags True] unfolding t_def by blast
  note D = page_mappedD [OF pm ok(2) flags]
  have uF: "u \<in> F" using P pm by (auto simp: page_mapped_def owned_def split: if_splits)
  have "table_of (phys_mem t) d i \<in> F" if "pde_at (phys_mem t) d i" for i
  proof (cases "i = pde_index v")
    case False
    then have "pde_at (phys_mem s) d i" using D(1) that by simp
    then show ?thesis using D(3) [of i] False P by (simp add: table_of_def owned_def)
  qed (use D(2) uF in simp)
  moreover have "same_outside F (phys_mem s) (phys_mem t)"
    using pm uF P by (auto simp: page_mapped_def owned_def intro: same_outside_mono)
  moreover have "pmm_wf t" unfolding t_def by (rule map_page_wf [OF ok(1)])
  ultimately show ?thesis
    using page_mapped_dir_ok [OF pm ok(2) flags] D(4) P by (auto simp: owned_def)
next
  case False
  then have "t = s" unfolding t_def using P by (intro map_page_out_of_frames) (simp_all add: owned_def)
  then show ?thesis using P by simp
qed

lemma owned_alloc:
  assumes P: "owned F d s"
  shows "owned F d (snd (pmm_alloc_frame s)) \<and> same_outside F (phys_mem s) (phys_mem (snd (pmm_alloc_frame s)))"
proof -
  have wf: "pmm_wf s" using P by (simp add: owned_def)
  have "free_addrs (snd (pmm_alloc_frame s)) \<subseteq> free_addrs s"
  proof (cases "fst (pmm_alloc_frame s) = 0")
    case True
    then have "free_addrs s = {}" using pmm_alloc.alloc_zero [OF wf] by simp
    then have "pmm_alloc_frame s = (0, s)" by (intro pmm_alloc_empty) (simp add: free_addrs_def)
    then show ?thesis by simp
  next
    case False
    then show ?thesis using new_frame(3) [OF wf refl] by auto
  qed
  moreover have "pmm_wf (snd (pmm_alloc_frame s))" by (rule pmm_alloc_wf [OF wf])
  moreover have "dir_ok (phys_mem s) (free_addrs (snd (pmm_alloc_frame s))) d"
    using P dir_ok_outside(2) [OF _ same_outside_refl empty_subsetI] calculation(1) by (auto simp: owned_def)
  ultimately show ?thesis using P by (auto simp: owned_def)
qed

lemma owned_trans:
  "owned F d t \<and> same_outside F m (phys_mem t) \<Longrightarrow>
   (owned F d t \<Longrightarrow> owned F d u \<and> same_outside F (phys_mem t) (phys_mem u)) \<Longrightarrow>
   owned F d u \<and> same_outside F m (phys_mem u)"
  using same_outside_trans [of F m "phys_mem t" F "phys_mem u"] by simp

lemma owned_map_code:
  assumes "owned F d s"
  shows "owned F d (map_code d v p n s) \<and> same_outside F (phys_mem s) (phys_mem (map_code d v p n s))"
proof -
  have fl: "page_base (PTE_PRESENT OR PTE_USER OR PTE_WRITABLE) = 0" by (simp add: page_base_or_dist)
  have all: "owned F d t \<Longrightarrow> owned F d (fold (\<lambda>p s. vmm_map_page d (w p) (q p) (PTE_PRESENT OR PTE_USER OR PTE_WRITABLE) s) ps t)
      \<and> same_outside F (phys_mem t) (phys_mem (fold (\<lambda>p s. vmm_map_page d (w p) (q p) (PTE_PRESENT OR PTE_USER OR PTE_WRITABLE) s) ps t))"
    for t ps w q
  proof (induction ps arbitrary: t)
    case (Cons p ps)
    note M = owned_map_page [OF Cons.prems fl, of "w p" "q p"]
    show ?case unfolding fold_Cons comp_apply by (rule owned_trans [OF M Cons.IH])
  qed simp
  show ?thesis unfolding map_code_def by (rule all [OF assms])
qed

lemma owned_map_stack:
  "owned F d s \<Longrightarrow> owned F d (snd (map_stack d v p n s)) \<and> same_outside F (phys_mem s) (phys_mem (snd (map_stack d v p n s)))"
proof (induction n arbitrary: p s)
  case (Suc n)
  note A = owned_alloc [OF Suc.prems]
  have fl: "page_base (PTE_PRESENT OR PTE_WRITABLE OR PTE_USER) = 0" by (simp add: page_base_or_dist)
  note M = owned_trans [OF A owned_map_page [OF _ fl, of F d _ "v + of_nat p * PAGE_SIZE" "fst (pmm_alloc_frame s)"]]
  show ?case
  proof (cases "fst (pmm_alloc_frame s) = 0")
    case True
    then have "snd (map_stack d v p (Suc n) s) = snd (pmm_alloc_frame s)" by (simp add: Let_def split_beta)
    then show ?thesis using A by (simp only:)
  next
    case False
    then have "map_stack d v p (Suc n) s = map_stack d v (Suc p) n (vmm_map_page d (v + of_nat p * PAGE_SIZE)
        (fst (pmm_alloc_frame s)) (PTE_PRESENT OR PTE_WRITABLE OR PTE_USER) (snd (pmm_alloc_frame s)))"
      by (simp add: Let_def split_beta)
    then show ?thesis using owned_trans [OF M Suc.IH] by (simp only:)
  qed
qed simp

lemma kernel_dir_mapping [simp]:
  "g_kernel_dir (map_code d v p n s) = g_kernel_dir s" "g_kernel_dir (snd (map_stack d v q n s)) = g_kernel_dir s"
  "g_kernel_dir (snd (vmm_create_directory s)) = g_kernel_dir s"
proof -
  have f: "(\<And>x t. g_kernel_dir (f x t) = g_kernel_dir t) \<Longrightarrow> g_kernel_dir (fold f xs t) = g_kernel_dir t"
    for f xs and t :: "'a proc_scheme" by (induction xs arbitrary: t) simp_all
  show "g_kernel_dir (map_code d v p n s) = g_kernel_dir s" by (simp add: map_code_def f)
  show "g_kernel_dir (snd (map_stack d v q n s)) = g_kernel_dir s"
    by (induction d v q n s rule: map_stack.induct) (auto simp: Let_def split_beta)
  have "g_kernel_dir (clone_pde d i t) = g_kernel_dir t" for d i and t :: "'a proc_scheme"
    by (auto simp: clone_pde_def Let_def split_beta)
  then show "g_kernel_dir (snd (vmm_create_directory s)) = g_kernel_dir s"
    by (auto simp: vmm_create_directory_def Let_def split_beta f)
qed

lemma owned_new_directory:
  assumes wf: "pmm_wf s" and K: "dir_ok (phys_mem s) (free_addrs s) (g_kernel_dir s)"
    and room: "card {i. pde_at (phys_mem s) (g_kernel_dir s) i} < card (free_addrs s)"
  defines "d \<equiv> fst (vmm_create_directory s)" and "t \<equiv> snd (vmm_create_directory s)"
  shows "owned (free_addrs s) d t \<and> same_outside (free_addrs s) (phys_mem s) (phys_mem t)"
proof -
  note I = create_directory_inv [OF wf K room, folded d_def t_def]
  have "table_of (phys_mem t) d i \<in> free_addrs s" if "pde_at (phys_mem t) d i" for i
    using I that by (auto simp: clone_inv_def pde_at_def cloned_def split: if_splits)
  moreover have "same_outside (free_addrs s) (phys_mem s) (phys_mem t)"
    using I by (auto simp: clone_inv_def intro: same_outside_mono)
  ultimately show ?thesis
    using I clone_done_dir_ok [OF I] by (auto simp: owned_def clone_inv_def)
qed

subsection \<open>The whole address space\<close>

lemma map_code_range: "map_code d v p n s = map_range d v p (PTE_PRESENT OR PTE_USER OR PTE_WRITABLE) n s"
  by (simp add: map_code_def map_range_def)

definition in_code :: "u32 \<Rightarrow> nat \<Rightarrow> u32 \<Rightarrow> bool" where
  "in_code virt n w \<longleftrightarrow> unat virt \<le> unat w \<and> unat w < unat virt + 4096 * n"

definition in_stack :: "u32 \<Rightarrow> bool" where
  "in_stack w \<longleftrightarrow> 0x7FFE0000 \<le> unat w \<and> unat w < 0x7FFF0000"

definition user_map :: "(nat \<Rightarrow> u32) \<Rightarrow> u32 \<Rightarrow> u32 \<Rightarrow> nat \<Rightarrow> 'a vmm_scheme \<Rightarrow> u32 \<Rightarrow> u32 option" where
  "user_map fr virt phys n s w =
     (if in_stack w then Some (fr ((unat w - 0x7FFE0000) div 4096) + page_offset w)
      else if in_code virt n w then Some (phys + (w - virt))
      else translate (phys_mem s) (g_kernel_dir s) w)"

lemma user_image_mapped:
  fixes s s4 :: "'a proc_scheme" and virt phys :: u32
  assumes wf: "pmm_wf s" and K: "dir_ok (phys_mem s) (free_addrs s) (g_kernel_dir s)"
    and room: "card {i. pde_at (phys_mem s) (g_kernel_dir s) i} + n + 36 \<le> card (free_addrs s)"
    and v: "page virt" and p: "page phys" and fit: "unat virt + 4096 * n < 4294967296"
    and s4: "mem_part s4 = mem_part (snd (vmm_create_directory s))"
  defines "d \<equiv> fst (vmm_create_directory s)"
  defines "r \<equiv> map_stack d 0x7FFE0000 0 16 (map_code d virt phys n s4)"
  shows "d \<noteq> 0 \<and> fst r \<and> pmm_wf (snd r) \<and> dir_ok (phys_mem (snd r)) (free_addrs (snd r)) d
    \<and> free_addrs (snd r) \<subseteq> free_addrs s \<and> 3 \<le> card (free_addrs (snd r))
    \<and> (\<exists>fr. inj_on fr {..<16} \<and> fr ` {..<16} \<subseteq> free_addrs s - free_addrs (snd r)
         \<and> (\<forall>w. translate (phys_mem (snd r)) d w = user_map fr virt phys n s w))
    \<and> (\<forall>w. translate (phys_mem (snd r)) d w \<noteq> None \<longrightarrow> user_access (phys_mem (snd r)) d w)"
proof -
  let ?t = "snd (vmm_create_directory s)" and ?K = "g_kernel_dir s"
  have room': "card {i. pde_at (phys_mem s) ?K i} < card (free_addrs s)" using room by simp
  have C: "translate (phys_mem ?t) d w = translate (phys_mem s) ?K w"
    "user_access (phys_mem ?t) d w \<longleftrightarrow> translate (phys_mem s) ?K w \<noteq> None"
    "dir_ok (phys_mem ?t) (free_addrs ?t) d" "pmm_wf ?t" "d \<noteq> 0" "free_addrs ?t \<subseteq> free_addrs s" for w
    using vmm_create_directory_clones_all [OF wf K room', folded d_def, of w] create_directory_inv [OF wf K room']
    by (auto simp: clone_inv_def dir_ok_def)
  have c: "n + 35 \<le> card (free_addrs ?t)" using create_directory_card [OF wf K room'] room by simp
  note m4 = mem_part_fields [OF s4]
  have ok4: "pmm_wf s4" "dir_ok (phys_mem s4) (free_addrs s4) d" "n \<le> card (free_addrs s4)" using C(3,4) c m4 by simp_all
  let ?fl = "PTE_PRESENT OR PTE_USER OR PTE_WRITABLE" and ?s5 = "map_code d virt phys n s4"
  have fl: "page_base ?fl = 0" "bit ?fl 2" by (simp_all add: page_base_or_dist bit_or_iff)
  have R: "range_mapped s4 d virt phys n ?s5"
    unfolding map_code_range by (rule map_range_mapped [OF ok4(1,2) fl v p fit ok4(3)])
  note R = R [unfolded range_mapped_def]
  have tr5: "translate (phys_mem ?s5) d w = (if unat virt \<le> unat w \<and> unat w < unat virt + 4096 * n
        then Some (phys + (w - virt)) else translate (phys_mem s4) d w)" for w using R by blast
  have tr4: "translate (phys_mem s4) d w = translate (phys_mem s) ?K w"
    "user_access (phys_mem s4) d w \<longleftrightarrow> translate (phys_mem s) ?K w \<noteq> None" for w using C(1,2) m4 by simp_all
  have "card (free_addrs s4) \<le> n + card (free_addrs ?s5)" using R by blast
  then have c5: "35 \<le> card (free_addrs ?s5)" using c m4 by simp
  have "page (0x7FFE0000 :: u32)" by (simp add: page_def page_base_def)
  note S = map_stack_mapped [OF this stack_mapped_0, of ?s5 d 16]
  have S': "fst r \<and> stack_mapped ?s5 d 0x7FFE0000 16 (snd r)"
    using S R c5 unfolding r_def by simp
  then have ok: "fst r" "stack_mapped ?s5 d 0x7FFE0000 16 (snd r)" by simp_all
  note T = ok(2) [unfolded stack_mapped_def]
  have "card (free_addrs ?s5) \<le> 2 * 16 + card (free_addrs (snd r))" using T by blast
  then have "3 \<le> card (free_addrs (snd r))" using c5 by simp
  moreover have sub: "free_addrs (snd r) \<subseteq> free_addrs ?s5" "free_addrs ?s5 \<subseteq> free_addrs s4" "free_addrs s4 \<subseteq> free_addrs s"
    using T R C(6) m4 by blast+
  moreover have "\<exists>fr. inj_on fr {..<16} \<and> fr ` {..<16} \<subseteq> free_addrs s - free_addrs (snd r)
         \<and> (\<forall>w. translate (phys_mem (snd r)) d w = user_map fr virt phys n s w)"
  proof -
    from T obtain fr where fr: "inj_on fr {..<16}" "\<forall>k < 16. page (fr k) \<and> fr k \<in> free_addrs ?s5 - free_addrs (snd r)"
      and tr: "\<forall>w. translate (phys_mem (snd r)) d w = (if unat (0x7FFE0000 :: u32) \<le> unat w \<and> unat w < unat (0x7FFE0000 :: u32) + 4096 * 16
          then Some (fr ((unat w - unat (0x7FFE0000 :: u32)) div 4096) + page_offset w) else translate (phys_mem ?s5) d w)"
      by blast
    have t5: "translate (phys_mem ?s5) d w = (if in_code virt n w then Some (phys + (w - virt)) else translate (phys_mem s) ?K w)" for w
      unfolding tr5 tr4 in_code_def ..
    have "translate (phys_mem (snd r)) d w = user_map fr virt phys n s w" for w
      unfolding user_map_def t5 [symmetric] in_stack_def using tr by simp
    moreover have "fr ` {..<16} \<subseteq> free_addrs s - free_addrs (snd r)" using fr(2) sub by auto
    ultimately show ?thesis using fr(1) by blast
  qed
  moreover have "user_access (phys_mem (snd r)) d w" if w: "translate (phys_mem (snd r)) d w \<noteq> None" for w
  proof -
    have stack: "(unat (0x7FFE0000 :: u32) \<le> unat w \<and> unat w < unat (0x7FFE0000 :: u32) + 4096 * 16)
        \<or> user_access (phys_mem ?s5) d w \<longrightarrow> user_access (phys_mem (snd r)) d w" using T by blast
    have code: "(unat virt \<le> unat w \<and> unat w < unat virt + 4096 * n)
        \<or> user_access (phys_mem s4) d w \<longrightarrow> user_access (phys_mem ?s5) d w" using R by blast
    have kernel: "translate (phys_mem s) ?K w \<noteq> None \<Longrightarrow> user_access (phys_mem s4) d w" by (simp add: tr4)
    have fin: "translate (phys_mem (snd r)) d w = translate (phys_mem ?s5) d w"
      if "\<not> (unat (0x7FFE0000 :: u32) \<le> unat w \<and> unat w < unat (0x7FFE0000 :: u32) + 4096 * 16)"
    proof -
      from T obtain fr where "\<forall>w. translate (phys_mem (snd r)) d w =
          (if unat (0x7FFE0000 :: u32) \<le> unat w \<and> unat w < unat (0x7FFE0000 :: u32) + 4096 * 16
          then Some (fr ((unat w - unat (0x7FFE0000 :: u32)) div 4096) + page_offset w) else translate (phys_mem ?s5) d w)"
        by blast
      with that show ?thesis by (simp only: if_False)
    qed
    show ?thesis
    proof (cases "unat (0x7FFE0000 :: u32) \<le> unat w \<and> unat w < unat (0x7FFE0000 :: u32) + 4096 * 16")
      case True
      then show ?thesis using stack by blast
    next
      case False
      from w have "translate (phys_mem ?s5) d w \<noteq> None" unfolding fin [OF False] .
      then have "(unat virt \<le> unat w \<and> unat w < unat virt + 4096 * n) \<or> user_access (phys_mem s4) d w"
        using kernel unfolding tr5 tr4(1) by (metis (no_types))
      then show ?thesis using stack code by blast
    qed
  qed
  ultimately show ?thesis using ok(1) C(5) T by blast
qed

subsection \<open>The idle process\<close>

definition idle_process :: "'a proc_scheme \<Rightarrow> process" where
  "idle_process s = \<lparr>pid = 0, pname = ''idle'', p_privilege = PRIVILEGE_KERNEL, page_dir = g_kernel_dir s,
     main_thread = Some 0, active = True\<rparr>"

definition idle_thread :: "u32 \<Rightarrow> u32 \<Rightarrow> thread" where
  "idle_thread next_tid k = \<lparr>tid = next_tid, t_pid = 0, tstate = THREAD_READY, t_privilege = PRIVILEGE_KERNEL,
     kernel_stack_top = k + PAGE_SIZE, kernel_stack_base = k, user_stack_top = 0, saved_context = k + PAGE_SIZE - 68,
     quantum = 1, t_next = None\<rparr>"

lemma setup_kernel_stack_push:
  "(\<lambda>stk. setup_kernel_stack stk entry) = (\<lambda>stk m. push_all [0x202, 0x08, entry, 0, 0, 0, 0, 0, 0, 0, 0, 0, 0,
     0x10, 0x10, 0x10, 0x10] (stk, m))"
  by (simp add: setup_kernel_stack_def fun_eq_iff)

lemma setup_user_stack_push:
  "(\<lambda>stk. setup_user_stack stk entry esp) = (\<lambda>stk m. push_all [0x23, esp, 0x202, 0x1B, entry, 0, 0, 0, 0, 0, 0, 0, 0, 0, 0,
     0x23, 0x23, 0x23, 0x23] (stk, m))"
  by (simp add: setup_user_stack_def fun_eq_iff)

lemma replicate_slot: "0 < n \<Longrightarrow> replicate n x = x # replicate (n - 1) x"
  by (cases n) simp_all

text \<open>\<open>proc_init\<close> up to the idle thread's kernel stack.\<close>

definition idle_slots :: "'a proc_scheme \<Rightarrow> 'a proc_scheme" where
  "idle_slots s = s\<lparr>g_processes := (idle_process s)\<lparr>main_thread := None\<rparr> # replicate 15 process_zero,
     g_threads := \<lparr>tid = g_next_tid s, t_pid = 0, tstate = THREAD_READY, t_privilege = PRIVILEGE_KERNEL,
       kernel_stack_top = 0, kernel_stack_base = 0, user_stack_top = 0, saved_context = 0, quantum = 1, t_next = None\<rparr>
       # replicate 31 thread_zero,
     g_next_pid := 1, g_next_tid := g_next_tid s + 1\<rparr>"

lemma proc_init_unfold:
  "proc_init entry s = (let s = give_kernel_stack 0 (\<lambda>stk. setup_kernel_stack stk entry) (idle_slots s);
      s = upd_process 0 (\<lambda>p. p\<lparr>main_thread := Some 0\<rparr>) s in s\<lparr>g_current_thread := Some 0\<rparr>)"
proof -
  have r: "replicate MAX_PROCESSES process_zero = process_zero # replicate 15 process_zero"
    "replicate MAX_THREADS thread_zero = thread_zero # replicate 31 thread_zero"
    by (simp_all add: const_defs replicate_slot)
  have z: "\<not> active process_zero" "tid thread_zero = 0" "tstate thread_zero = THREAD_READY"
    by (simp_all add: process_zero_def thread_zero_def)
  have f: "find_slot (\<lambda>t. tstate t = THREAD_DEAD \<and> tid t = 0) (thread_zero # replicate 31 thread_zero) = None"
    using z by (simp add: find_slot_None)
  let ?s = "s\<lparr>g_processes := process_zero # replicate 15 process_zero, g_threads := thread_zero # replicate 31 thread_zero\<rparr>"
  let ?s1 = "?s\<lparr>g_processes := process_zero\<lparr>active := True, pid := g_next_pid s\<rparr> # replicate 15 process_zero,
      g_next_pid := g_next_pid s + 1\<rparr>"
  have a: "alloc_process ?s = (Some 0, ?s1)"
    using z by (simp add: alloc_process_def upd_process_def Let_def)
  let ?s2 = "s\<lparr>g_processes := (idle_process s)\<lparr>main_thread := None\<rparr> # replicate 15 process_zero,
      g_threads := thread_zero # replicate 31 thread_zero, g_next_pid := 1\<rparr>"
  have b: "upd_process 0 (\<lambda>p. p\<lparr>page_dir := vmm_get_kernel_directory (upd_process 0 (\<lambda>p. p\<lparr>p_privilege := PRIVILEGE_KERNEL\<rparr>)
        (upd_process 0 (\<lambda>p. p\<lparr>pname := ''idle''\<rparr>) ((upd_process 0 (\<lambda>p. p\<lparr>pid := 0\<rparr>) ?s1)\<lparr>g_next_pid := 1\<rparr>)))\<rparr>)
      (upd_process 0 (\<lambda>p. p\<lparr>p_privilege := PRIVILEGE_KERNEL\<rparr>)
        (upd_process 0 (\<lambda>p. p\<lparr>pname := ''idle''\<rparr>) ((upd_process 0 (\<lambda>p. p\<lparr>pid := 0\<rparr>) ?s1)\<lparr>g_next_pid := 1\<rparr>))) = ?s2"
    by (simp add: upd_process_def idle_process_def process_zero_def vmm_get_kernel_directory_def)
  let ?s3 = "?s2\<lparr>g_threads := thread_zero\<lparr>tid := g_next_tid s\<rparr> # replicate 31 thread_zero, g_next_tid := g_next_tid s + 1\<rparr>"
  have c: "alloc_thread ?s2 = (Some 0, ?s3)"
    using z f by (simp add: alloc_thread_def take_thread_slot_def upd_thread_def Let_def)
  have d: "upd_thread 0 (\<lambda>th. th\<lparr>t_pid := pid (g_processes ?s3 ! 0), t_privilege := PRIVILEGE_KERNEL,
      quantum := 1, tstate := THREAD_READY\<rparr>) ?s3 = idle_slots s"
    by (simp add: upd_thread_def idle_slots_def thread_zero_def idle_process_def const_defs)
  show ?thesis
    unfolding proc_init_def r
    by (simp only: Let_def a prod.case option.case b c d)
qed

lemma mem_part_idle_slots [simp]: "mem_part (idle_slots s) = mem_part s"
  by (simp add: idle_slots_def mem_part_def)

lemma proc_init_facts:
  fixes s :: "'a proc_scheme" and entry w :: u32
  assumes wf: "pmm_wf s" and K: "dir_ok (phys_mem s) (free_addrs s) (g_kernel_dir s)" and room: "2 \<le> card (free_addrs s)"
  defines "t \<equiv> proc_init entry s" and "k \<equiv> fst (pmm_alloc_frame s)"
  shows "g_processes t = idle_process s # replicate 15 process_zero"
    and "g_threads t = idle_thread (g_next_tid s) k # replicate 31 thread_zero"
    and "g_current_thread t = Some 0 \<and> g_next_pid t = 1 \<and> g_next_tid t = g_next_tid s + 1"
    and "k \<in> free_addrs s \<and> free_addrs t = free_addrs s - {k} \<and> pmm_wf t \<and> g_kernel_dir t = g_kernel_dir s
      \<and> dir_ok (phys_mem t) (free_addrs t) (g_kernel_dir s)"
    and "page_walk (phys_mem t) (g_kernel_dir s) w = page_walk (phys_mem s) (g_kernel_dir s) w"
    and "page k \<and> phys_mem t = snd (setup_kernel_stack (k + PAGE_SIZE) entry (phys_mem s))"
proof -
  let ?i = "idle_slots s"
  note m = mem_part_fields [OF mem_part_idle_slots, of s]
  let ?vs = "[0x202, 0x08, entry, 0, 0, 0, 0, 0, 0, 0, 0, 0, 0, 0x10, 0x10, 0x10, 0x10] :: u32 list"
  have p: "pmm_wf ?i" "dir_ok (phys_mem ?i) (free_addrs ?i) (g_kernel_dir s)" "2 \<le> card (free_addrs ?i)" "0 < length (g_threads ?i)"
    using wf K room m by (simp_all add: idle_slots_def)
  have ki: "fst (pmm_alloc_frame ?i) = k"
    by (simp add: k_def pmm_alloc_frame_def idle_slots_def split: option.split)
  note G = kernel_stack_given [OF p, of ?vs, unfolded ki]
  let ?g = "give_kernel_stack 0 (\<lambda>stk m. push_all ?vs (stk, m)) ?i"
  have t: "t = (upd_process 0 (\<lambda>p. p\<lparr>main_thread := Some 0\<rparr>) ?g)\<lparr>g_current_thread := Some 0\<rparr>"
    by (simp add: t_def proc_init_unfold Let_def setup_kernel_stack_push)
  have ids: "g_next_pid ?g = g_next_pid ?i \<and> g_next_tid ?g = g_next_tid ?i" using ids_view_counters [OF ids_view_kernel_stack] by blast
  have mt: "mem_part t = mem_part ?g" unfolding t by (simp add: mem_part_def upd_process_def)
  note mt = mem_part_fields [OF mt]
  show "g_processes t = idle_process s # replicate 15 process_zero"
    using G(9) by (simp add: t upd_process_def idle_slots_def idle_process_def)
  show "g_threads t = idle_thread (g_next_tid s) k # replicate 31 thread_zero"
    using G(8) by (simp add: t upd_process_def idle_slots_def idle_thread_def)
  show "g_current_thread t = Some 0 \<and> g_next_pid t = 1 \<and> g_next_tid t = g_next_tid s + 1"
    using ids by (simp add: t upd_process_def idle_slots_def)
  show "k \<in> free_addrs s \<and> free_addrs t = free_addrs s - {k} \<and> pmm_wf t \<and> g_kernel_dir t = g_kernel_dir s
      \<and> dir_ok (phys_mem t) (free_addrs t) (g_kernel_dir s)"
    using G(2-5,10) mt m by simp
  show "page_walk (phys_mem t) (g_kernel_dir s) w = page_walk (phys_mem s) (g_kernel_dir s) w"
    using G(6) mt m by simp
  show "page k \<and> phys_mem t = snd (setup_kernel_stack (k + PAGE_SIZE) entry (phys_mem s))"
    using G(1,7) mt m by (simp add: setup_kernel_stack_def)
qed

lemma aligned4_page: "page k \<Longrightarrow> aligned4 (k + PAGE_SIZE)"
proof -
  assume "page k"
  then obtain y where "k = 4096 * y" by (auto simp: page_iff)
  then have "k + PAGE_SIZE = 4 * (1024 * y + 1024)" by (simp add: const_defs algebra_simps)
  then show ?thesis unfolding aligned4_iff by blast
qed

subsection \<open>What a new user process gets\<close>

text \<open>
  \<open>thread_core\<close>: a thread's fields but for its state, its quantum and its place in the queue.
\<close>

definition thread_core where
  "thread_core th = (tid th, t_pid th, t_privilege th, kernel_stack_top th, kernel_stack_base th, user_stack_top th,
     saved_context th)"

lemma thread_core_upd: "(\<And>th. thread_core (f th) = thread_core th) \<Longrightarrow>
    map thread_core (g_threads (upd_thread i f s)) = map thread_core (g_threads s)"
  by (simp add: upd_thread_def map_update_same)

lemma thread_core_set_next [simp]: "map thread_core (g_threads (set_next i n s)) = map thread_core (g_threads s)"
  by (simp add: set_next_def thread_core_upd thread_core_def)

lemma thread_core_add_thread [simp]:
  "map thread_core (g_threads (scheduler_add_thread t s)) = map thread_core (g_threads s)"
  by (auto simp: scheduler_add_thread_def queue_insert_def Let_def thread_core_upd thread_core_def split: option.split)

lemma thread_core_add_nth:
  assumes "i < length (g_threads s)"
  shows "thread_core (g_threads (scheduler_add_thread t s) ! i) = thread_core (g_threads s ! i)"
  using thread_core_add_thread [of t s] assms by (metis length_map nth_map)

lemma processes_add_thread [simp]: "g_processes (scheduler_add_thread t s) = g_processes s"
  by (auto simp: scheduler_add_thread_def queue_insert_def set_next_def upd_thread_def Let_def split: option.split)

lemma processes_upd_thread [simp]: "g_processes (upd_thread i f s) = g_processes s"
  by (simp add: upd_thread_def)

lemma threads_upd_process [simp]: "g_threads (upd_process i f s) = g_threads s"
  by (simp add: upd_process_def)

lemma alloc_thread_processes [simp]: "g_processes (snd (alloc_thread s)) = g_processes s"
  by (auto simp: alloc_thread_def take_thread_slot_def upd_thread_def Let_def split: option.split)

lemma alloc_thread_Some:
  assumes "\<exists>th \<in> set (g_threads s). tid th = 0"
  obtains t where "alloc_thread s = (Some t, take_thread_slot t s)" "t < length (g_threads s)"
proof -
  have "find_slot (\<lambda>t. tid t = 0) (g_threads s) \<noteq> None" using assms by (auto simp: find_slot_None)
  then show ?thesis using that find_slot_Some
    by (cases "find_slot (\<lambda>t. tstate t = THREAD_DEAD \<and> tid t = 0) (g_threads s)") (force simp: alloc_thread_def)+
qed

definition user_start :: "u32 \<Rightarrow> cpu_regs" where
  "user_start entry = \<lparr>r_eax = 0, r_ecx = 0, r_edx = 0, r_ebx = 0, r_esp = USER_STACK_TOP - 4, r_ebp = 0, r_esi = 0, r_edi = 0,
     r_ds = 0x23, r_es = 0x23, r_fs = 0x23, r_gs = 0x23, r_ss = 0x23, r_eip = entry, r_cs = 0x1B, r_eflags = 0x202\<rparr>"

abbreviation user_words :: "u32 \<Rightarrow> u32 list" where
  "user_words entry \<equiv> [0x23, USER_STACK_TOP - 4, 0x202, 0x1B, entry, 0, 0, 0, 0, 0, 0, 0, 0, 0, 0, 0x23, 0x23, 0x23, 0x23]"

lemma user_words_restore:
  assumes "page k"
  shows "irq0_restore 0x10 (k + PAGE_SIZE - 76) (snd (push_all (user_words entry) (k + PAGE_SIZE, m))) = user_start entry"
proof -
  have "user_words entry = ring3_words (user_start entry) @ frame_words (user_start entry) 0 0"
    by (simp add: ring3_words_def frame_words_def user_start_def)
  moreover have "from_ring3 (user_start entry)" by (simp add: from_ring3_def user_start_def)
  moreover have "fst (push_all (user_words entry) (k + PAGE_SIZE, m)) = k + PAGE_SIZE - 76" by (simp add: push_all_esp)
  ultimately show ?thesis
    using restore_user_frame [OF aligned4_page [OF assms], of "user_start entry" "0x10" 0 0 m] by (simp del: push_all_append)
qed

text \<open>The kernel stack and the thunk page, from the state the stack left.\<close>

lemma user_thread_ready:
  fixes s :: "'a proc_scheme"
  assumes wf: "pmm_wf s" and ok: "dir_ok (phys_mem s) (free_addrs s) d" and room: "3 \<le> card (free_addrs s)"
    and t: "t < length (g_threads s)"
    and g: "mem_part g = mem_part (give_kernel_stack t (\<lambda>stk m. push_all (user_words entry) (stk, m)) s)"
  defines "k \<equiv> fst (pmm_alloc_frame s)" and "r \<equiv> map_thunk d g"
  shows "pmm_wf r \<and> dir_ok (phys_mem r) (free_addrs r) d \<and> free_addrs r \<subseteq> free_addrs s"
    and "translate (phys_mem r) d w = (if page_base w = 0x106000 then Some w else translate (phys_mem s) d w)"
    and "page_base w = 0x106000 \<or> user_access (phys_mem s) d w \<Longrightarrow> user_access (phys_mem r) d w"
    and "irq0_restore 0x10 (k + PAGE_SIZE - 76) (phys_mem r) = user_start entry"
proof -
  have room2: "2 \<le> card (free_addrs s)" using room by simp
  note G = kernel_stack_given [OF wf ok room2 t, of "user_words entry", folded k_def]
  note m = mem_part_fields [OF g]
  have card: "card (free_addrs s) \<le> Suc (card (free_addrs g))"
    using card_Diff1_ge [OF pmm_alloc.finite_free, of s k] G(5) m by simp
  let ?fl = "PTE_PRESENT OR PTE_USER"
  have fl: "page_base ?fl = 0" "bit ?fl 2" by (simp_all add: page_base_or_dist bit_or_iff)
  have okg: "pmm_wf g" "dir_ok (phys_mem g) (free_addrs g) d" "0 < card (free_addrs g)"
    using G(3,4) m card room by simp_all
  have r: "r = vmm_map_page d 0x106000 0x106000 ?fl g" by (simp add: r_def map_thunk_def page_base_def)
  have base: "page_base (0x106000 :: u32) = 0x106000" by (simp add: page_base_def)
  note M = map_page_step [OF okg(1,2) fl(1) okg(3) fl(2), where v = "0x106000" and phys = "0x106000", folded r, unfolded base]
  have walk: "page_walk (phys_mem g) d w = page_walk (phys_mem s) d w" for w using G(6) m by simp
  show "pmm_wf r \<and> dir_ok (phys_mem r) (free_addrs r) d \<and> free_addrs r \<subseteq> free_addrs s"
    using M(1,2,4) G(5) m by auto
  show "translate (phys_mem r) d w = (if page_base w = 0x106000 then Some w else translate (phys_mem s) d w)"
    using M(6) [of w] page_split [of w] walk by (auto simp: translate_def)
  show "user_access (phys_mem r) d w" if "page_base w = 0x106000 \<or> user_access (phys_mem s) d w"
    using M(7) [of w] walk that by (auto simp: user_access_def)
  have "pde_at (phys_mem g) d (pde_index 0x106000) \<or> free_addrs g \<noteq> {}" using okg(3) by auto
  from map_page_mapped [OF okg(1,2) fl(1) this, of "0x106000", folded r]
  obtain u where pm: "page_mapped (phys_mem g) (free_addrs g) d 0x106000 0x106000 ?fl u (phys_mem r) (free_addrs r)" by blast
  have out: "same_outside {d, u} (phys_mem g) (phys_mem r)" using pm by (simp add: page_mapped_def)
  have k: "k \<noteq> d" "k \<notin> free_addrs g" using G(2,5) m ok by (auto simp: dir_ok_def)
  have "u \<noteq> k"
  proof (cases "pde_at (phys_mem g) d (pde_index 0x106000)")
    case True
    then have u: "u = table_of (phys_mem g) d (pde_index 0x106000)" using pm by (simp add: page_mapped_def)
    have out1: "same_outside {k} (phys_mem s) (phys_mem g)"
      using push_all_outside [OF G(1), of "user_words entry" "phys_mem s"] G(7) m by simp
    have "read_entry (phys_mem g) d (pde_index 0x106000) = read_entry (phys_mem s) d (pde_index 0x106000)"
      using ok k(1) by (intro read_entry_outside [OF out1]) (auto simp: dir_ok_def)
    then have "pde_at (phys_mem s) d (pde_index 0x106000)" "u = table_of (phys_mem s) d (pde_index 0x106000)"
      using True u by (simp_all add: pde_at_def table_of_def)
    then have "u \<notin> free_addrs s" using ok unfolding dir_ok_def by blast
    then show ?thesis using G(2) by auto
  next
    case False
    then have "u \<in> free_addrs g" using pm by (simp add: page_mapped_def)
    then show ?thesis using k(2) by auto
  qed
  then have "irq0_restore 0x10 (k + PAGE_SIZE - 76) (phys_mem r) = irq0_restore 0x10 (k + PAGE_SIZE - 76) (phys_mem g)"
    using k(1) by (intro restore_same_page [OF G(1) out]) auto
  then show "irq0_restore 0x10 (k + PAGE_SIZE - 76) (phys_mem r) = user_start entry"
    using user_words_restore [OF G(1)] G(7) m by simp
qed

text \<open>\<open>proc_create_user\<close> on its successful path, step by step.\<close>

lemma proc_create_user_path:
  fixes s :: "'a proc_scheme"
  assumes a: "alloc_process (print_image phys sz entry s) = (Some p, s1)"
    and s2: "s2 = upd_process p (\<lambda>q. q\<lparr>p_privilege := PRIVILEGE_USER\<rparr>) (upd_process p (\<lambda>q. q\<lparr>pname := copy_name name\<rparr>) s1)"
    and c: "vmm_create_directory s2 = (d, s3)" and d: "d \<noteq> 0"
    and s4: "s4 = upd_process p (\<lambda>q. q\<lparr>page_dir := d\<rparr>) s3"
    and m: "map_stack d 0x7FFE0000 0 16 (map_code d (page_base entry) (page_base phys) (unat ((sz + 4095) div 4096)) s4) = (True, s6)"
    and t: "alloc_thread s6 = (Some u, s7)"
    and s8: "s8 = upd_thread u (\<lambda>th. th\<lparr>t_pid := pid (g_processes s7 ! p), t_privilege := PRIVILEGE_USER,
                  quantum := 5, tstate := THREAD_READY, user_stack_top := USER_STACK_TOP\<rparr>) s7"
    and s10: "s10 = upd_process p (\<lambda>q. q\<lparr>main_thread := Some u\<rparr>)
                  (give_kernel_stack u (\<lambda>stk m. push_all (user_words entry) (stk, m)) s8)"
  shows "proc_create_user name phys sz entry s = (Some p, scheduler_add_thread (Some u) (map_thunk d s10))"
proof -
  have n: "(sz + PAGE_SIZE - 1) div PAGE_SIZE = (sz + 4095) div 4096" by (simp add: const_defs add.commute)
  have st: "USER_STACK_TOP - USER_STACK_SIZE = 0x7FFE0000" "unat (USER_STACK_SIZE div PAGE_SIZE) = 16"
    by (simp_all add: const_defs)
  show ?thesis
    unfolding proc_create_user_def Let_def a prod.case option.case s2 [symmetric] c s4 [symmetric] n st m
    using d by (simp add: t s8 [symmetric] s10 [symmetric] setup_user_stack_push)
qed

lemma proc_create_user_space:
  fixes s :: "'a proc_scheme" and entry phys sz :: u32 and name :: string and p :: nat
  assumes wf: "pmm_wf s" and K: "dir_ok (phys_mem s) (free_addrs s) (g_kernel_dir s)"
    and p: "find_slot (\<lambda>q. \<not> active q) (g_processes s) = Some p"
    and th: "\<exists>th \<in> set (g_threads s). tid th = 0"
    and room: "card {i. pde_at (phys_mem s) (g_kernel_dir s) i} + unat ((sz + 4095) div 4096) + 36 \<le> card (free_addrs s)"
    and fit: "unat (page_base entry) + 4096 * unat ((sz + 4095) div 4096) < 4294967296"
  defines "r \<equiv> snd (proc_create_user name phys sz entry s)"
  defines "q \<equiv> g_processes r ! p"
  shows "fst (proc_create_user name phys sz entry s) = Some p
    \<and> p_privilege q = PRIVILEGE_USER \<and> active q \<and> pname q = copy_name name
    \<and> (\<exists>fr. inj_on fr {..<16} \<and> fr ` {..<16} \<subseteq> free_addrs s - free_addrs r
         \<and> (\<forall>w. translate (phys_mem r) (page_dir q) w = (if page_base w = 0x106000 then Some w
              else user_map fr (page_base entry) (page_base phys) (unat ((sz + 4095) div 4096)) s w)))
    \<and> (\<forall>w. translate (phys_mem r) (page_dir q) w \<noteq> None \<longrightarrow> user_access (phys_mem r) (page_dir q) w)
    \<and> (\<exists>u. main_thread q = Some u \<and> u < length (g_threads r)
         \<and> irq0_restore 0x10 (saved_context (g_threads r ! u)) (phys_mem r) = user_start entry)
    \<and> page (page_dir q)
    \<and> same_outside (free_addrs s) (phys_mem s) (phys_mem r) \<and> pmm_wf r \<and> g_kernel_dir r = g_kernel_dir s
    \<and> free_addrs r \<subseteq> free_addrs s"
proof -
  let ?n = "unat ((sz + 4095) div 4096)"
  let ?s0 = "print_image phys sz entry s"
  have p0: "g_processes ?s0 = g_processes s" "g_threads ?s0 = g_threads s" using proc_part_fields [of ?s0 s] by simp_all
  obtain s1 where a: "alloc_process ?s0 = (Some p, s1)" using p p0 by (simp add: alloc_process_def Let_def)
  have pl: "p < length (g_processes s)" using find_slot_Some [OF p] by simp
  have s1: "active (g_processes s1 ! p)" "g_threads s1 = g_threads s" "length (g_processes s1) = length (g_processes s)"
    using a p p0 pl by (auto simp: alloc_process_def upd_process_def Let_def process_zero_def)
  define s2 where "s2 = upd_process p (\<lambda>q. q\<lparr>p_privilege := PRIVILEGE_USER\<rparr>) (upd_process p (\<lambda>q. q\<lparr>pname := copy_name name\<rparr>) s1)"
  have "mem_part s1 = mem_part s" using mem_part_tables(3) [of ?s0] a by simp
  then have "mem_part s2 = mem_part s" by (simp add: s2_def)
  note m2 = mem_part_fields [OF this]
  obtain d s3 where c: "vmm_create_directory s2 = (d, s3)" by fastforce
  have "proc_part s3 = proc_part s2" using proc_part_create_directory [of s2] c by simp
  note p3 = proc_part_fields [OF this]
  define s4 where "s4 = upd_process p (\<lambda>q. q\<lparr>page_dir := d\<rparr>) s3"
  have m4: "mem_part s4 = mem_part (snd (vmm_create_directory s2))" by (simp add: s4_def c)
  let ?r = "map_stack d 0x7FFE0000 0 16 (map_code d (page_base entry) (page_base phys) ?n s4)"
  have I: "d \<noteq> 0" "fst ?r" "pmm_wf (snd ?r)" "dir_ok (phys_mem (snd ?r)) (free_addrs (snd ?r)) d"
      "free_addrs (snd ?r) \<subseteq> free_addrs s" "3 \<le> card (free_addrs (snd ?r))"
      "\<exists>fr. inj_on fr {..<16} \<and> fr ` {..<16} \<subseteq> free_addrs s - free_addrs (snd ?r)
         \<and> (\<forall>w. translate (phys_mem (snd ?r)) d w = user_map fr (page_base entry) (page_base phys) ?n s2 w)"
      "\<forall>w. translate (phys_mem (snd ?r)) d w \<noteq> None \<longrightarrow> user_access (phys_mem (snd ?r)) d w"
    using user_image_mapped [OF _ _ _ page_page_base page_page_base fit m4] wf K room m2 c by simp_all
  define s6 where "s6 = snd ?r"
  have m: "?r = (True, s6)" using I(2) by (simp add: s6_def prod_eq_iff)
  note I = I [folded s6_def]
  have "proc_part s6 = proc_part s4" unfolding s6_def by simp
  note p6 = proc_part_fields [OF this]
  have th6: "g_threads s6 = g_threads s" using p6 p3 s1 by (simp add: s4_def s2_def)
  obtain u where t: "alloc_thread s6 = (Some u, take_thread_slot u s6)" and u: "u < length (g_threads s)"
    using alloc_thread_Some [of s6] th th6 by metis
  define s7 where "s7 = take_thread_slot u s6"
  define s8 where "s8 = upd_thread u (\<lambda>th. th\<lparr>t_pid := pid (g_processes s7 ! p), t_privilege := PRIVILEGE_USER,
                  quantum := 5, tstate := THREAD_READY, user_stack_top := USER_STACK_TOP\<rparr>) s7"
  have m7: "mem_part s7 = mem_part s6" using mem_part_tables(4) [of s6] t by (simp add: s7_def)
  then have m8: "mem_part s8 = mem_part s6" by (simp add: s8_def)
  have u8: "u < length (g_threads s8)" "g_processes s8 = g_processes s6"
    using u th6 by (simp_all add: s8_def s7_def take_thread_slot_def upd_thread_def Let_def)
  define g where "g = upd_process p (\<lambda>q. q\<lparr>main_thread := Some u\<rparr>)
      (give_kernel_stack u (\<lambda>stk m. push_all (user_words entry) (stk, m)) s8)"
  have mg: "mem_part g = mem_part (give_kernel_stack u (\<lambda>stk m. push_all (user_words entry) (stk, m)) s8)" by (simp add: g_def)
  note path = proc_create_user_path [OF a s2_def c I(1) s4_def m t [folded s7_def] s8_def g_def]
  define f where "f = map_thunk d g"
  have r: "r = scheduler_add_thread (Some u) f" and fst: "fst (proc_create_user name phys sz entry s) = Some p"
    unfolding r_def f_def path by simp_all
  note m8' = mem_part_fields [OF m8]
  have ok8: "pmm_wf s8" "dir_ok (phys_mem s8) (free_addrs s8) d" "3 \<le> card (free_addrs s8)" using I(3,4,6) m8' by simp_all
  note R = user_thread_ready [OF ok8 u8(1) mg, folded f_def]
  have room2: "2 \<le> card (free_addrs s8)" using ok8(3) by simp
  note G = kernel_stack_given [OF ok8(1,2) room2 u8(1), of "user_words entry"]
  have "mem_part r = mem_part f" unfolding r by simp
  note mr = mem_part_fields [OF this]
  have "proc_part f = proc_part g" by (simp add: f_def)
  note pf = proc_part_fields [OF this]
  have q: "q = (g_processes s4 ! p)\<lparr>main_thread := Some u\<rparr>"
    using pl s1(3) p3 unfolding q_def r processes_add_thread pf [THEN conjunct1]
    by (simp add: g_def upd_process_def G(9) u8(2) p6 s4_def s2_def)
  have q4: "active q" "p_privilege q = PRIVILEGE_USER" "pname q = copy_name name" "page_dir q = d" "main_thread q = Some u"
    unfolding q using pl s1 p3 by (simp_all add: s4_def s2_def upd_process_def)
  have len: "length (g_threads r) = length (g_threads s8)"
    using map_eq_imp_length_eq [OF thread_core_add_thread, of "Some u" f] pf G(8) by (simp add: r g_def)
  have "g_threads f = g_threads g" using pf by simp
  then have "u < length (g_threads f)" using G(8) u8(1) by (simp add: g_def)
  then have "thread_core (g_threads r ! u) = thread_core (g_threads f ! u)"
    unfolding r by (rule thread_core_add_nth)
  then have ctx: "saved_context (g_threads r ! u) = fst (pmm_alloc_frame s8) + PAGE_SIZE - 76"
    using pf G(8) u8(1) by (simp add: thread_core_def g_def)
  have sub: "free_addrs r \<subseteq> free_addrs s6" using R(1) mr m8' by simp
  have um: "user_map fr v ph n s2 = user_map fr v ph n s" for fr v ph n by (simp add: user_map_def m2 fun_eq_iff)
  from I(7) obtain fr where fr: "inj_on fr {..<16}" "fr ` {..<16} \<subseteq> free_addrs s - free_addrs s6"
    and tr: "\<And>w. translate (phys_mem s6) d w = user_map fr (page_base entry) (page_base phys) ?n s w" unfolding um by blast
  have "fr ` {..<16} \<subseteq> free_addrs s - free_addrs r" using fr(2) sub by blast
  moreover have tr': "translate (phys_mem r) d w = (if page_base w = 0x106000 then Some w
      else user_map fr (page_base entry) (page_base phys) ?n s w)" for w
    using R(2) [of w] tr [of w] mr m8' by simp
  moreover have "user_access (phys_mem r) d w" if "translate (phys_mem r) d w \<noteq> None" for w
  proof -
    have "page_base w = 0x106000 \<or> translate (phys_mem s6) d w \<noteq> None" using that unfolding tr' tr by auto
    then show ?thesis using R(3) [of w] I(8) mr m8' by auto
  qed
  moreover have "irq0_restore 0x10 (saved_context (g_threads r ! u)) (phys_mem r) = user_start entry"
    using R(4) mr unfolding ctx by simp
  moreover have "page d" using I(4) by (simp add: dir_ok_def)
  moreover have "same_outside (free_addrs s) (phys_mem s) (phys_mem r)"
  proof -
    let ?F = "free_addrs s"
    have room': "card {i. pde_at (phys_mem s2) (g_kernel_dir s2) i} < card (free_addrs s2)" using room m2 by simp
    have O3: "owned ?F d s4 \<and> same_outside ?F (phys_mem s) (phys_mem s4)"
      using owned_new_directory [OF _ _ room'] wf K m2 owned_cong [OF m4] mem_part_fields [OF m4] c by simp
    have O6: "owned ?F d s6 \<and> same_outside ?F (phys_mem s) (phys_mem s6)"
      unfolding s6_def by (rule owned_trans [OF owned_trans [OF O3 owned_map_code] owned_map_stack])
    let ?k = "fst (pmm_alloc_frame s8)"
    have k: "?k \<in> ?F" using G(2) m8' I(5) by auto
    have g: "phys_mem g = snd (push_all (user_words entry) (?k + PAGE_SIZE, phys_mem s8))" "free_addrs g = free_addrs s8 - {?k}"
      "pmm_wf g" "dir_ok (phys_mem g) (free_addrs g) d" using G(3-5,7) mem_part_fields [OF mg] by simp_all
    have out: "same_outside {?k} (phys_mem s8) (phys_mem g)" unfolding g(1) by (rule push_all_outside [OF G(1)]) simp_all
    have "table_of (phys_mem g) d i \<in> ?F" if "pde_at (phys_mem g) d i" for i
    proof -
      have i: "unat i < 1024" using that by (simp add: pde_at_def)
      have "page d" "d \<notin> {?k}" using ok8(2) G(2) by (auto simp: dir_ok_def)
      from read_entry_outside [OF out this(1) i this(2)] that O6 show ?thesis
        using m8' by (simp add: owned_def pde_at_def table_of_def)
    qed
    then have "owned ?F d g" using g I(5) m8' O6 by (auto simp: owned_def)
    moreover have "same_outside ?F (phys_mem s) (phys_mem g)"
      using same_outside_trans [of ?F "phys_mem s" "phys_mem s6" "{?k}" "phys_mem g"] O6 out k m8' by (simp add: insert_absorb)
    moreover have "page_base (PTE_PRESENT OR PTE_USER) = 0" by (simp add: page_base_or_dist)
    ultimately have "same_outside ?F (phys_mem s) (phys_mem f)"
      using owned_trans owned_map_page unfolding f_def map_thunk_def Let_def by blast
    then show ?thesis using mr by simp
  qed
  moreover have "pmm_wf r" using R(1) mr by simp
  moreover have "g_kernel_dir r = g_kernel_dir s"
  proof -
    have "g_kernel_dir f = g_kernel_dir g" by (simp add: f_def map_thunk_def Let_def)
    also have "\<dots> = g_kernel_dir s6" using mem_part_fields [OF mg] G(10) m8' by simp
    also have "\<dots> = g_kernel_dir s4" by (simp add: s6_def)
    also have "\<dots> = g_kernel_dir s" using m2 mem_part_fields [OF m4] by simp
    finally show ?thesis using mr by simp
  qed
  moreover have "free_addrs r \<subseteq> free_addrs s" using sub I(5) by blast
  ultimately show ?thesis using fst q4 fr(1) len u8(1) by auto
qed

subsection \<open>A booted machine\<close>

text \<open>A machine with 16 MB, paging on and \<open>proc_init\<close> done.\<close>

definition proc_paged :: proc where
  "proc_paged = vmm_init (pmm_init 15360 proc_reset)"

definition proc_booted :: proc where
  "proc_booted = proc_init 0x105000 proc_paged"

lemma proc_reset_wf: "pmm_wf proc_reset"
  using pmm_reset_wf
  by (simp add: proc_reset_def intr_reset_def segs_reset_def vmm_reset_def kmem_reset_def pmm_reset_def pmm_wf_def
      intr.defs segs.defs vmm.defs kmem.defs pmm.defs console.defs)

lemma proc_paged_ok:
  "identity_inv (g_kernel_dir proc_paged) 2047 32768 proc_paged" "pmm_wf proc_paged"
  "dir_ok (phys_mem proc_paged) (free_addrs proc_paged) (g_kernel_dir proc_paged)"
  "card (free_addrs proc_paged) = 2015"
proof -
  have "unat (pmm_end_frame 15360) = 2048" using pmm_end_frame_normal [of 15360] by simp
  then have f: "free_set (pmm_init 15360 proc_reset) = {0..<2048}" "pmm_wf (pmm_init 15360 proc_reset)"
    using pmm_init_free_set [OF proc_reset_wf, of 15360] by simp_all
  have "inj_on frame_addr {0..<2048}" by (rule inj_onI) (simp add: frame_addr_inject)
  with f have c: "card (free_addrs (pmm_init 15360 proc_reset)) = 2048" by (simp add: free_addrs_def card_image)
  show i: "identity_inv (g_kernel_dir proc_paged) 2047 32768 proc_paged"
    using vmm_init_inv [OF f(2)] c by (simp add: proc_paged_def)
  then show "pmm_wf proc_paged" "dir_ok (phys_mem proc_paged) (free_addrs proc_paged) (g_kernel_dir proc_paged)"
    "card (free_addrs proc_paged) = 2015" by (simp_all add: identity_inv_def)
qed

lemma identity_tables:
  assumes "identity_inv d N 32768 s"
  shows "card {i. pde_at (phys_mem s) d i} \<le> 32"
proof -
  have sub: "{i. pde_at (phys_mem s) d i} \<subseteq> of_nat ` {..<32}"
  proof
    fix i assume "i \<in> {i. pde_at (phys_mem s) d i}"
    then have "unat i < 32" using assms by (simp add: identity_inv_def)
    then show "i \<in> of_nat ` {..<32}" by (intro image_eqI [of _ _ "unat i"]) simp_all
  qed
  then show ?thesis
    using card_mono [OF _ sub] card_image_le [of "{..<32}" "of_nat :: nat \<Rightarrow> u32"] by simp
qed

lemma proc_part_vmm_init [simp]: "proc_part (vmm_init s) = proc_part s"
proof -
  have "proc_part (identity_map d n t) = proc_part t" for d n and t :: "'a proc_scheme"
    by (simp add: identity_map_def proc_part_fold)
  moreover have "proc_part (write_cr3 d t) = proc_part t" "proc_part (enable_paging t) = proc_part t"
    "proc_part (t\<lparr>g_kernel_dir := d\<rparr>) = proc_part t" for d and t :: "'a proc_scheme"
    by (simp_all add: write_cr3_def enable_paging_def proc_part_def)
  ultimately show ?thesis by (simp add: vmm_init_def Let_def split_beta)
qed

lemma proc_part_pmm_init [simp]: "proc_part (pmm_init m s) = proc_part s"
  by (simp add: pmm_init_def Let_def proc_part_def)

lemma proc_booted_ok:
  "pmm_wf proc_booted" "dir_ok (phys_mem proc_booted) (free_addrs proc_booted) (g_kernel_dir proc_booted)"
  "card (free_addrs proc_booted) = 2014" "find_slot (\<lambda>q. \<not> active q) (g_processes proc_booted) = Some 1"
  "\<exists>th \<in> set (g_threads proc_booted). tid th = 0"
  "card {i. pde_at (phys_mem proc_booted) (g_kernel_dir proc_booted) i} \<le> 32"
  "ids_ok proc_booted"
proof -
  have room: "2 \<le> card (free_addrs proc_paged)" by (simp add: proc_paged_ok)
  note P = proc_init_facts [OF proc_paged_ok(2,3) room, of "0x105000", folded proc_booted_def]
  let ?k = "fst (pmm_alloc_frame proc_paged)"
  show "pmm_wf proc_booted" "dir_ok (phys_mem proc_booted) (free_addrs proc_booted) (g_kernel_dir proc_booted)"
    using P(4) by metis+
  show "card (free_addrs proc_booted) = 2014" using P(4) proc_paged_ok(4) pmm_alloc.finite_free [of proc_paged] by simp
  show "find_slot (\<lambda>q. \<not> active q) (g_processes proc_booted) = Some 1"
    unfolding P(1) by (simp add: idle_process_def process_zero_def replicate_slot [of 15])
  show "\<exists>th \<in> set (g_threads proc_booted). tid th = 0" unfolding P(2) by (simp add: thread_zero_def)
  have id: "page_walk (phys_mem proc_booted) (g_kernel_dir proc_paged) w = page_walk (phys_mem proc_paged) (g_kernel_dir proc_paged) w" for w
    by (rule P(5))
  have out: "same_outside {?k} (phys_mem proc_paged) (phys_mem proc_booted)"
    using P(6) push_all_outside [of ?k] by (simp add: setup_kernel_stack_def)
  have kd: "g_kernel_dir proc_booted = g_kernel_dir proc_paged" using P(4) by simp
  have "pde_at (phys_mem proc_booted) (g_kernel_dir proc_paged) i = pde_at (phys_mem proc_paged) (g_kernel_dir proc_paged) i" for i
  proof (cases "unat i < 1024")
    case True
    have "page (g_kernel_dir proc_paged)" "g_kernel_dir proc_paged \<notin> {?k}"
      using proc_paged_ok(3) P(4) by (auto simp: dir_ok_def)
    from read_entry_outside [OF out this(1) True this(2)] show ?thesis by (simp add: pde_at_def)
  next
    case False
    then show ?thesis by (simp add: pde_at_def)
  qed
  then show "card {i. pde_at (phys_mem proc_booted) (g_kernel_dir proc_booted) i} \<le> 32"
    unfolding kd using identity_tables [OF proc_paged_ok(1)] by simp
  have "proc_part proc_paged = proc_part proc_reset" by (simp add: proc_paged_def)
  from proc_part_fields [OF this] have nt: "g_next_tid proc_paged = 1"
    by (simp add: proc_reset_def proc.defs intr.defs segs.defs)
  have ps: "map (\<lambda>p. (active p, pid p)) (g_processes proc_booted) = (True, 0) # replicate 15 (False, 0)"
    unfolding P(1) by (simp add: idle_process_def process_zero_def)
  have ts: "map tid (g_threads proc_booted) = 1 # replicate 31 0"
    unfolding P(2) by (simp add: idle_thread_def thread_zero_def nt)
  have cell: "i \<le> n \<Longrightarrow> (x # replicate n y) ! i = (if i = 0 then x else y)" for i n and x y :: 'b
    by (simp add: nth_Cons')
  show "ids_ok proc_booted"
    unfolding ids_ok_def ids_view_def ps ts using P(3) nt by (simp add: cell)
qed

subsection \<open>Properties\<close>

text \<open>
  C2: A user process created with enough frames has an address space of its own: the program's pages
  at its entry address, a 64 KB stack of sixteen distinct frames that were free, the page of the
  compiler's thunk, and elsewhere what the kernel maps; every address it translates is open to
  ring 3; and its thread's saved context starts it in ring 3 at the entry point with the stack
  pointer four bytes below the top of that stack. This is not the layout that \<open>vmm.h\<close> documents: the
  stack ends where the header begins it, at 0x7FFF0000, and the low 4 MB, which the header leaves
  unused, hold what the kernel maps there.
\<close>

theorem proc_create_user_builds_address_space:
  fixes s :: "'a proc_scheme" and entry phys sz :: u32 and name :: string and p :: nat
  assumes "pmm_wf s" "dir_ok (phys_mem s) (free_addrs s) (g_kernel_dir s)"
    and "find_slot (\<lambda>q. \<not> active q) (g_processes s) = Some p"
    and "\<exists>th \<in> set (g_threads s). tid th = 0"
    and "card {i. pde_at (phys_mem s) (g_kernel_dir s) i} + unat ((sz + 4095) div 4096) + 36 \<le> card (free_addrs s)"
    and "unat (page_base entry) + 4096 * unat ((sz + 4095) div 4096) < 4294967296"
  defines "r \<equiv> snd (proc_create_user name phys sz entry s)"
  defines "q \<equiv> g_processes r ! p"
  shows "fst (proc_create_user name phys sz entry s) = Some p
    \<and> p_privilege q = PRIVILEGE_USER \<and> active q \<and> pname q = copy_name name
    \<and> (\<exists>fr. inj_on fr {..<16} \<and> fr ` {..<16} \<subseteq> free_addrs s - free_addrs r
         \<and> (\<forall>w. translate (phys_mem r) (page_dir q) w = (if page_base w = 0x106000 then Some w
              else user_map fr (page_base entry) (page_base phys) (unat ((sz + 4095) div 4096)) s w)))
    \<and> (\<forall>w. translate (phys_mem r) (page_dir q) w \<noteq> None \<longrightarrow> user_access (phys_mem r) (page_dir q) w)
    \<and> (\<exists>u. main_thread q = Some u \<and> u < length (g_threads r)
         \<and> irq0_restore 0x10 (saved_context (g_threads r ! u)) (phys_mem r) = user_start entry)"
  unfolding q_def r_def using proc_create_user_space [OF assms(1-6), of name] by blast

theorem proc_create_user_builds_address_space_witness:
  "fst (proc_create_user ''gui_user'' 0x107000 0x2000 0x400000 proc_booted) = Some 1"
  using proc_create_user_builds_address_space
    [OF proc_booted_ok(1,2,4,5), of "0x2000" "0x400000" "''gui_user''" "0x107000"] proc_booted_ok(3,6)
  by (simp add: page_base_def)

text \<open>
  \<open>proc_init\<close> leaves one process and one thread: process 0, named idle, on the kernel's page
  directory, and its thread, current and ready, on a kernel stack of one fresh frame from which the
  timer's return path starts it in ring 0 at \<open>kernel_idle\<close>; the kernel's address space is unchanged.
\<close>

theorem proc_init_creates_idle:
  fixes s :: "'a proc_scheme" and entry :: u32
  assumes "pmm_wf s" "dir_ok (phys_mem s) (free_addrs s) (g_kernel_dir s)" "2 \<le> card (free_addrs s)"
  defines "t \<equiv> proc_init entry s" and "k \<equiv> fst (pmm_alloc_frame s)"
  shows "g_processes t = idle_process s # replicate 15 process_zero
    \<and> g_threads t = idle_thread (g_next_tid s) k # replicate 31 thread_zero
    \<and> g_current_thread t = Some 0 \<and> g_next_pid t = 1
    \<and> k \<in> free_addrs s \<and> free_addrs t = free_addrs s - {k}
    \<and> (\<forall>w. translate (phys_mem t) (g_kernel_dir s) w = translate (phys_mem s) (g_kernel_dir s) w)
    \<and> r_eip (irq0_restore 0x10 (saved_context (g_threads t ! 0)) (phys_mem t)) = entry
    \<and> r_cs (irq0_restore 0x10 (saved_context (g_threads t ! 0)) (phys_mem t)) = 0x08
    \<and> r_esp (irq0_restore 0x10 (saved_context (g_threads t ! 0)) (phys_mem t)) = k + PAGE_SIZE"
proof -
  note P = proc_init_facts [OF assms(1-3), of entry, folded t_def k_def]
  have c: "saved_context (g_threads t ! 0) = fst (setup_kernel_stack (k + PAGE_SIZE) entry (phys_mem s))"
    unfolding P(2) by (simp add: idle_thread_def setup_kernel_stack_def push_all_esp)
  have al: "aligned4 (k + PAGE_SIZE)" using P(6) aligned4_page by blast
  have tr: "translate (phys_mem t) (g_kernel_dir s) w = translate (phys_mem s) (g_kernel_dir s) w" for w
    by (simp add: translate_def P(5))
  have "r_eip (irq0_restore 0x10 (saved_context (g_threads t ! 0)) (phys_mem t)) = entry"
    "r_cs (irq0_restore 0x10 (saved_context (g_threads t ! 0)) (phys_mem t)) = 0x08"
    "r_esp (irq0_restore 0x10 (saved_context (g_threads t ! 0)) (phys_mem t)) = k + PAGE_SIZE"
    unfolding c conjunct2 [OF P(6)] by (rule kernel_frame_starts [OF al])+
  then show ?thesis using P(1-4) tr by blast
qed

theorem proc_init_creates_idle_witness:
  "g_processes proc_booted ! 0 = idle_process proc_paged"
  using proc_init_creates_idle [OF proc_paged_ok(2,3), of "0x105000"] proc_paged_ok(4)
  by (simp add: proc_booted_def)

text \<open>
  C21: The identifiers of live processes and of threads stay distinct and below the next one to be
  given out, through \<open>proc_create_kernel\<close>, \<open>proc_create_user\<close> and \<open>proc_exit\<close>, on success and on
  every failure path, as long as the 32-bit counters have not reached their last value.
\<close>

theorem process_ids_stay_distinct:
  assumes "ids_ok s" "unat (g_next_pid s) < 4294967295" "unat (g_next_tid s) < 4294967295"
  shows "ids_ok (snd (proc_create_kernel name entry s))
    \<and> ids_ok (snd (proc_create_user name phys sz entry s))
    \<and> ids_ok (proc_exit code s)"
  using ids_ok_create_kernel [OF assms] ids_ok_create_user [OF assms] assms(1)
    ids_ok_cong [OF ids_view_upd_thread, of "\<lambda>th. th\<lparr>tstate := THREAD_DEAD\<rparr>" _ s]
  by (auto simp: proc_exit_def split: option.split)

theorem process_ids_stay_distinct_witness:
  "ids_ok (snd (proc_create_kernel ''gui_server'' 0x106000 proc_booted))"
proof -
  have room: "2 \<le> card (free_addrs proc_paged)" by (simp add: proc_paged_ok)
  note P = proc_init_facts(3) [OF proc_paged_ok(2,3) room, of "0x105000", folded proc_booted_def]
  have "proc_part proc_paged = proc_part proc_reset" by (simp add: proc_paged_def)
  from proc_part_fields [OF this] have "g_next_tid proc_paged = 1"
    by (simp add: proc_reset_def proc.defs intr.defs segs.defs)
  then show ?thesis
    using process_ids_stay_distinct [OF proc_booted_ok(7), of "''gui_server''" "0x106000" 0 0 0] P by simp
qed

end
