(* ===== verification/Round_Robin.thy ===== *)
theory Round_Robin
  imports Threads
begin

section \<open>The round-robin discipline, abstractly\<close>

text \<open>
  The specification the dispatcher of \<open>kernel/proc/scheduler.c\<close> is shown to implement: a list of
  threads in the order of their turns, the running one last, with a state and a quantum for each. A
  tick charges the running thread; when its quantum is used up, the first ready thread of the list
  runs, and those before it go behind. Fairness is proved here, once, on lists.
\<close>

record rr =
  rr_order :: "nat list"
  rr_state :: "nat \<Rightarrow> thread_state"
  rr_quantum :: "nat \<Rightarrow> int"

definition rr_cur :: "rr \<Rightarrow> nat" where
  "rr_cur r = last (rr_order r)"

text \<open>The running thread pays for the tick and counts as ready.\<close>

definition rr_charge :: "rr \<Rightarrow> rr" where
  "rr_charge r = (let c = rr_cur r in
     r\<lparr>rr_state := (rr_state r)(c := if rr_state r c = THREAD_RUNNING then THREAD_READY else rr_state r c),
       rr_quantum := (rr_quantum r)(c := if rr_quantum r c > 0 then rr_quantum r c - 1 else rr_quantum r c)\<rparr>)"

definition rr_run :: "nat \<Rightarrow> rr \<Rightarrow> rr" where
  "rr_run n r = r\<lparr>rr_state := (rr_state r)(n := THREAD_RUNNING), rr_quantum := (rr_quantum r)(n := SCHEDULER_QUANTUM)\<rparr>"

definition rr_tick :: "rr \<Rightarrow> rr" where
  "rr_tick r =
     (let c = rr_cur r; r = rr_charge r; waiting = (\<lambda>j. rr_state r j \<noteq> THREAD_READY) in
      if rr_quantum r c > 0 \<and> rr_state r c = THREAD_READY
      then r\<lparr>rr_state := (rr_state r)(c := THREAD_RUNNING)\<rparr>
      else case dropWhile waiting (rr_order r) of
             [] \<Rightarrow> rr_run c r
           | n # later \<Rightarrow>
               if n = c then rr_run c r
               else (rr_run n r)\<lparr>rr_order := later @ takeWhile waiting (rr_order r) @ [n]\<rparr>)"

definition rr_ok :: "rr \<Rightarrow> bool" where
  "rr_ok r \<longleftrightarrow> rr_order r \<noteq> [] \<and> distinct (rr_order r)
     \<and> (\<forall>j. rr_state r j = THREAD_RUNNING \<longrightarrow> j = rr_cur r)
     \<and> (\<forall>j \<in> set (rr_order r). 0 \<le> rr_quantum r j \<and> rr_quantum r j \<le> SCHEDULER_QUANTUM)"

lemma rr_charge_order [simp]: "rr_order (rr_charge r) = rr_order r" "rr_cur (rr_charge r) = rr_cur r"
  by (simp_all add: rr_charge_def Let_def rr_cur_def)

lemma rr_run_order [simp]: "rr_order (rr_run n r) = rr_order r"
  by (simp add: rr_run_def)

lemma rr_charge_no_running:
  assumes "rr_ok r"
  shows "rr_state (rr_charge r) j \<noteq> THREAD_RUNNING"
proof -
  have "rr_state r j = THREAD_RUNNING \<longrightarrow> j = rr_cur r" using assms unfolding rr_ok_def by blast
  then show ?thesis by (auto simp: rr_charge_def Let_def)
qed

lemma rr_charge_quanta:
  assumes "rr_ok r" "j \<in> set (rr_order r)"
  shows "0 \<le> rr_quantum (rr_charge r) j" "rr_quantum (rr_charge r) j \<le> SCHEDULER_QUANTUM"
proof -
  have "0 \<le> rr_quantum r j \<and> rr_quantum r j \<le> SCHEDULER_QUANTUM" using assms by (simp add: rr_ok_def)
  then show "0 \<le> rr_quantum (rr_charge r) j" "rr_quantum (rr_charge r) j \<le> SCHEDULER_QUANTUM"
    by (cases "j = rr_cur r"; simp add: rr_charge_def Let_def)+
qed

text \<open>The three outcomes of a tick.\<close>

lemma rr_tick_cases:
  obtains (stay) "rr_tick r = (rr_charge r)\<lparr>rr_state := (rr_state (rr_charge r))(rr_cur r := THREAD_RUNNING)\<rparr>"
      "rr_quantum (rr_charge r) (rr_cur r) > 0" "rr_state (rr_charge r) (rr_cur r) = THREAD_READY"
    | (again) "rr_tick r = rr_run (rr_cur r) (rr_charge r)"
      "\<not> (rr_quantum (rr_charge r) (rr_cur r) > 0 \<and> rr_state (rr_charge r) (rr_cur r) = THREAD_READY)"
      "dropWhile (\<lambda>j. rr_state (rr_charge r) j \<noteq> THREAD_READY) (rr_order r) = []
        \<or> hd (dropWhile (\<lambda>j. rr_state (rr_charge r) j \<noteq> THREAD_READY) (rr_order r)) = rr_cur r"
    | (switch) n before later where "rr_order r = before @ n # later" "n \<noteq> rr_cur r"
      "rr_state (rr_charge r) n = THREAD_READY" "\<forall>j \<in> set before. rr_state (rr_charge r) j \<noteq> THREAD_READY"
      "rr_tick r = (rr_run n (rr_charge r))\<lparr>rr_order := later @ before @ [n]\<rparr>"
      "\<not> (rr_quantum (rr_charge r) (rr_cur r) > 0 \<and> rr_state (rr_charge r) (rr_cur r) = THREAD_READY)"
proof (cases "rr_quantum (rr_charge r) (rr_cur r) > 0 \<and> rr_state (rr_charge r) (rr_cur r) = THREAD_READY")
  case True
  then show ?thesis using stay by (simp add: rr_tick_def Let_def)
next
  case False
  let ?w = "\<lambda>j. rr_state (rr_charge r) j \<noteq> THREAD_READY"
  have t: "rr_tick r = (case dropWhile ?w (rr_order r) of [] \<Rightarrow> rr_run (rr_cur r) (rr_charge r)
      | n # later \<Rightarrow> if n = rr_cur r then rr_run (rr_cur r) (rr_charge r)
          else (rr_run n (rr_charge r))\<lparr>rr_order := later @ takeWhile ?w (rr_order r) @ [n]\<rparr>)"
    using False by (simp only: rr_tick_def Let_def rr_charge_order if_False)
  show ?thesis
  proof (cases "dropWhile ?w (rr_order r)")
    case Nil
    have "rr_tick r = rr_run (rr_cur r) (rr_charge r)" unfolding t Nil by simp
    then show ?thesis using again False Nil by blast
  next
    case (Cons n later)
    show ?thesis
    proof (cases "n = rr_cur r")
      case True
      then show ?thesis using again False Cons t by simp
    next
      case ne: False
      have "rr_order r = takeWhile ?w (rr_order r) @ n # later"
        using takeWhile_dropWhile_id [of ?w "rr_order r"] Cons by simp
      moreover have "\<not> ?w n" using hd_dropWhile [of ?w "rr_order r"] Cons by simp
      moreover have "\<forall>j \<in> set (takeWhile ?w (rr_order r)). ?w j" by (auto dest: set_takeWhileD)
      ultimately show ?thesis
        using switch [of "takeWhile ?w (rr_order r)" n later] False Cons ne t by simp
    qed
  qed
qed

lemma rr_cur_in: "rr_ok r \<Longrightarrow> rr_cur r \<in> set (rr_order r)"
  by (simp add: rr_ok_def rr_cur_def)

lemma rr_ok_tick:
  assumes ok: "rr_ok r"
  shows "rr_ok (rr_tick r)"
proof (cases rule: rr_tick_cases [of r])
  case stay
  have "rr_cur (rr_tick r) = rr_cur r" unfolding stay(1) by (simp add: rr_cur_def)
  then show ?thesis
    using ok rr_charge_no_running [OF ok] rr_charge_quanta [OF ok] unfolding rr_ok_def stay(1) by auto
next
  case again
  have "rr_cur (rr_tick r) = rr_cur r" unfolding again(1) by (simp add: rr_cur_def)
  then show ?thesis
    using ok rr_charge_no_running [OF ok] rr_charge_quanta [OF ok]
    unfolding rr_ok_def again(1) by (auto simp: rr_run_def const_defs)
next
  case (switch n before later)
  have "rr_cur (rr_tick r) = n" unfolding switch(5) by (simp add: rr_cur_def)
  then show ?thesis
    using ok rr_charge_no_running [OF ok] rr_charge_quanta [OF ok] switch(1)
    unfolding rr_ok_def switch(5) by (auto simp: rr_run_def const_defs)
qed

subsection \<open>Fairness\<close>

text \<open>How long thread \<open>j\<close> waits at most, while no thread blocks, wakes or dies.\<close>

definition rr_wait :: "nat \<Rightarrow> rr \<Rightarrow> nat" where
  "rr_wait j r = 10 * length (takeWhile (\<lambda>i. i \<noteq> j) (rr_order r)) + nat (max 1 (rr_quantum r (rr_cur r)))"

lemma takeWhile_neq: "j \<notin> set xs \<Longrightarrow> takeWhile (\<lambda>i. i \<noteq> j) (xs @ j # ys) = xs"
  by (induction xs) auto

lemma rr_progress:
  assumes ok: "rr_ok r" and j: "j \<in> set (rr_order r)" "rr_state r j = THREAD_READY" "j \<noteq> rr_cur r"
  shows "rr_cur (rr_tick r) = j \<or>
    (rr_wait j (rr_tick r) < rr_wait j r \<and> j \<in> set (rr_order (rr_tick r))
     \<and> rr_state (rr_tick r) j = THREAD_READY \<and> j \<noteq> rr_cur (rr_tick r))"
proof -
  let ?c = "rr_cur r"
  have jr: "rr_state (rr_charge r) j = THREAD_READY" using j by (simp add: rr_charge_def Let_def)
  have q: "0 \<le> rr_quantum r ?c" using ok rr_cur_in by (auto simp: rr_ok_def)
  show ?thesis
  proof (cases rule: rr_tick_cases [of r])
    case stay
    have "rr_cur (rr_tick r) = ?c" unfolding stay(1) by (simp add: rr_cur_def)
    moreover have "rr_quantum (rr_tick r) ?c = rr_quantum r ?c - 1" "rr_quantum r ?c - 1 > 0"
      using stay(2) unfolding stay(1) by (auto simp: rr_charge_def Let_def split: if_splits)
    ultimately show ?thesis
      using j jr unfolding stay(1) by (simp add: rr_wait_def)
  next
    case again
    let ?w = "\<lambda>j. rr_state (rr_charge r) j \<noteq> THREAD_READY"
    obtain xs ys where o: "rr_order r = xs @ j # ys" using j(1) by (auto simp: in_set_conv_decomp)
    have "dropWhile ?w (rr_order r) \<noteq> []" using o jr by (auto simp: dropWhile_eq_Nil_conv)
    then have h: "hd (dropWhile ?w (rr_order r)) = ?c" using again(3) by blast
    have "hd (dropWhile ?w (xs @ j # ys)) \<in> set (xs @ [j])"
    proof (cases "dropWhile ?w xs")
      case Nil
      then have "\<forall>x \<in> set xs. ?w x" by (simp only: dropWhile_eq_Nil_conv)
      then have "dropWhile ?w (xs @ j # ys) = dropWhile ?w (j # ys)" by (rule dropWhile_append2 [OF bspec])
      then have "dropWhile ?w (xs @ j # ys) = j # ys" using jr by simp
      then show ?thesis by simp
    next
      case (Cons a b)
      then have "\<not> (\<forall>x \<in> set xs. ?w x)" unfolding dropWhile_eq_Nil_conv [symmetric] by simp
      then obtain x where "x \<in> set xs" "\<not> ?w x" by blast
      then have "dropWhile ?w (xs @ j # ys) = dropWhile ?w xs @ j # ys" by (rule dropWhile_append1)
      then have "hd (dropWhile ?w (xs @ j # ys)) = a" using Cons by simp
      moreover have "a \<in> set xs" using Cons set_dropWhileD by (metis list.set_intros(1))
      ultimately show ?thesis by simp
    qed
    then have c: "?c \<in> set (xs @ [j])" using h o by simp
    have "?c = last (j # ys)" using o by (simp add: rr_cur_def)
    moreover have "ys \<noteq> []" using j(3) calculation by auto
    ultimately have "?c \<in> set ys" by simp
    with c j(3) o ok show ?thesis by (auto simp: rr_ok_def)
  next
    case (switch n before later)
    have cn: "rr_cur (rr_tick r) = n" unfolding switch(5) by (simp add: rr_cur_def)
    show ?thesis
    proof (cases "j = n")
      case True
      then show ?thesis using cn by simp
    next
      case False
      have "j \<notin> set before" using switch(4) jr by auto
      with j(1) switch(1) False have "j \<in> set later" by auto
      then obtain xs ys where l: "later = xs @ j # ys" by (auto simp: in_set_conv_decomp)
      with ok switch(1) have "j \<notin> set xs" "j \<notin> set (before @ n # xs)" by (auto simp: rr_ok_def)
      then have "takeWhile (\<lambda>i. i \<noteq> j) (rr_order (rr_tick r)) = xs"
        "takeWhile (\<lambda>i. i \<noteq> j) (rr_order r) = before @ n # xs"
        using takeWhile_neq [of j xs "ys @ before @ [n]"] takeWhile_neq [of j "before @ n # xs" ys]
        unfolding switch(5) switch(1) l by simp_all
      moreover have "rr_quantum (rr_tick r) n = 10"
        unfolding switch(5) by (simp add: rr_run_def const_defs)
      ultimately have "rr_wait j (rr_tick r) < rr_wait j r" using q cn by (simp add: rr_wait_def less_max_iff_disj)
      moreover have "rr_state (rr_tick r) j = THREAD_READY"
        unfolding switch(5) using jr False by (simp add: rr_run_def)
      moreover have "j \<in> set (rr_order (rr_tick r))" unfolding switch(5) using l by simp
      ultimately show ?thesis using cn False by simp
    qed
  qed
qed

lemma rr_fair:
  "rr_ok r \<Longrightarrow> j \<in> set (rr_order r) \<Longrightarrow> rr_state r j = THREAD_READY \<Longrightarrow> j \<noteq> rr_cur r \<Longrightarrow>
    \<exists>m \<le> rr_wait j r. rr_cur ((rr_tick ^^ m) r) = j"
proof (induction "rr_wait j r" arbitrary: r rule: less_induct)
  case less
  from rr_progress [OF less.prems] show ?case
  proof
    assume "rr_cur (rr_tick r) = j"
    moreover have "1 \<le> rr_wait j r" by (simp add: rr_wait_def)
    ultimately show ?case by (intro exI [of _ 1]) simp
  next
    assume p: "rr_wait j (rr_tick r) < rr_wait j r \<and> j \<in> set (rr_order (rr_tick r))
     \<and> rr_state (rr_tick r) j = THREAD_READY \<and> j \<noteq> rr_cur (rr_tick r)"
    then obtain m where "m \<le> rr_wait j (rr_tick r)" "rr_cur ((rr_tick ^^ m) (rr_tick r)) = j"
      using less.hyps [of "rr_tick r"] rr_ok_tick [OF less.prems(1)] by blast
    with p show ?case by (intro exI [of _ "Suc m"]) (simp add: funpow_swap1)
  qed
qed

lemma rr_wait_bound:
  assumes "rr_ok r" "j \<in> set (rr_order r)"
  shows "rr_wait j r \<le> 10 * length (rr_order r)"
proof -
  obtain xs ys where o: "rr_order r = xs @ j # ys" "j \<notin> set xs" using assms(2) split_list_first by metis
  have "rr_quantum r (rr_cur r) \<le> 10" using assms rr_cur_in by (auto simp: rr_ok_def const_defs)
  then have "nat (max 1 (rr_quantum r (rr_cur r))) \<le> 10" by simp
  then show ?thesis using takeWhile_neq [OF o(2)] by (simp add: rr_wait_def o(1))
qed

end
