(* ===== verification/Scheduler.thy ===== *)
theory Scheduler
  imports User_Space Round_Robin
begin

unbundle bit_operations_syntax

section \<open>The round-robin dispatcher\<close>

text \<open>
  Models the public part of \<open>kernel/proc/scheduler.c\<close>, the tick counter of
  \<open>kernel/interrupt/syscall.c\<close> it advances, and the whole path of a timer interrupt: the handler of
  \<open>kernel/interrupt/idt.c\<close> saves the interrupted context, acknowledges the controller, calls
  \<open>scheduler_tick\<close> and returns into the context it answers.

  The queue is used through the contract \<open>ready_queue\<close>. The result \<open>None\<close> is a walk along the queue
  that does not end; the properties show it does not occur.
\<close>

subsection \<open>Operations\<close>

definition get_tick_count :: "'a proc_scheme \<Rightarrow> u32" where
  "get_tick_count s = sys_ticks s"

definition syscall_tick_increment :: "'a proc_scheme \<Rightarrow> 'a proc_scheme" where
  "syscall_tick_increment s =
     (let s = s\<lparr>sys_ticks := sys_ticks s + 1\<rparr>
      in if sys_ticks s AND 0xFF = 0 then serial_puts (''[tick]'' @ crlf) s else s)"

text \<open>\<open>for (i = k - 1; i >= 0; i--) { buf[i] = '0' + (n % 10); n /= 10; }\<close>\<close>

fun dec_digits :: "nat \<Rightarrow> u32 \<Rightarrow> u8 list" where
  "dec_digits 0 n = []"
| "dec_digits (Suc k) n = dec_digits k (n div 10) @ [0x30 + u32_to_u8 (n mod 10)]"

definition debug_write_switches :: "u32 \<Rightarrow> 'a proc_scheme \<Rightarrow> 'a proc_scheme" where
  "debug_write_switches count s =
     (let cell = (\<lambda>c. u8_to_u16 c OR push_bit 8 0x5F);
          buf = dec_digits 5 count;
          vga = (vga_text s)(72 := cell 0x53, 73 := cell 0x57, 74 := cell 0x3A);
          vga = fold (\<lambda>i v. v(75 + i := cell (buf ! i))) [0..<5] vga
      in s\<lparr>vga_text := vga\<rparr>)"

definition scheduler_init :: "'a proc_scheme \<Rightarrow> 'a proc_scheme" where
  "scheduler_init s =
     (case proc_current_thread s of
        None \<Rightarrow> s
      | Some idle \<Rightarrow>
          (let s = queue_insert (Some idle) s;
               s = upd_thread idle (\<lambda>t. t\<lparr>tstate := THREAD_RUNNING\<rparr>) s;
               s = upd_thread idle (\<lambda>t. t\<lparr>quantum := SCHEDULER_QUANTUM\<rparr>) s
           in s\<lparr>sched_current := Some idle\<rparr>))"

definition scheduler_remove_thread :: "nat option \<Rightarrow> 'a proc_scheme \<Rightarrow> 'a proc_scheme option" where
  "scheduler_remove_thread t s = (case t of None \<Rightarrow> Some s | Some i \<Rightarrow> queue_remove (Some i) s)"

text \<open>Steps 6 to 10 of \<open>scheduler_tick\<close>: from thread \<open>cur\<close> to thread \<open>n\<close>.\<close>

definition switch_to :: "u32 \<Rightarrow> nat \<Rightarrow> nat \<Rightarrow> 'a proc_scheme \<Rightarrow> u32 \<times> 'a proc_scheme" where
  "switch_to ctx cur n s =
     (let s = s\<lparr>sched_switches := sched_switches s + 1\<rparr>;
          s = debug_write_switches (sched_switches s) s;
          s = upd_thread n (\<lambda>t. t\<lparr>quantum := SCHEDULER_QUANTUM, tstate := THREAD_RUNNING\<rparr>) s;
          s = (if t_pid (g_threads s ! n) \<noteq> t_pid (g_threads s ! cur) then
                 (case proc_get_process_by_pid (t_pid (g_threads s ! n)) s of
                    Some p \<Rightarrow> if page_dir (g_processes s ! p) \<noteq> 0 then write_cr3 (page_dir (g_processes s ! p)) s else s
                  | None \<Rightarrow> s)
               else s);
          s = tss_set_esp0 (kernel_stack_top (g_threads s ! n)) s;
          s = proc_set_current_thread (Some n) s;
          s = s\<lparr>sched_current := Some n\<rparr>
      in if saved_context (g_threads s ! n) = 0 then (ctx, s) else (saved_context (g_threads s ! n), s))"

definition scheduler_tick :: "u32 \<Rightarrow> 'a proc_scheme \<Rightarrow> (u32 \<times> 'a proc_scheme) option" where
  "scheduler_tick ctx s =
     (let s = syscall_tick_increment s in
      case sched_current s of
        None \<Rightarrow> Some (ctx, s)
      | Some cur \<Rightarrow>
          (let s = upd_thread cur (\<lambda>t. t\<lparr>saved_context := ctx\<rparr>) s;
               s = (if tstate (g_threads s ! cur) = THREAD_RUNNING
                    then upd_thread cur (\<lambda>t. t\<lparr>tstate := THREAD_READY\<rparr>) s else s);
               s = (if quantum (g_threads s ! cur) > 0
                    then upd_thread cur (\<lambda>t. t\<lparr>quantum := quantum t - 1\<rparr>) s else s)
           in if quantum (g_threads s ! cur) > 0 \<and> tstate (g_threads s ! cur) = THREAD_READY
              then Some (ctx, upd_thread cur (\<lambda>t. t\<lparr>tstate := THREAD_RUNNING\<rparr>) s)
              else
                (case queue_next_ready (Some cur) s of
                   None \<Rightarrow> None
                 | Some next \<Rightarrow>
                     if next = None \<or> next = Some cur
                     then Some (ctx, upd_thread cur (\<lambda>t. t\<lparr>quantum := SCHEDULER_QUANTUM, tstate := THREAD_RUNNING\<rparr>) s)
                     else Some (switch_to ctx cur (the next) (serial_puts (''[sched] found next thread'' @ crlf) s)))))"

definition scheduler_get_switches :: "'a proc_scheme \<Rightarrow> u32" where
  "scheduler_get_switches s = sched_switches s"

text \<open>
  The timer's handler, taken with registers \<open>r\<close>; the registers it returns into. \<open>int $0x20\<close> takes the
  same path, so \<open>scheduler_yield\<close> is a tick with the quantum used up.
\<close>

definition irq0_timer_handler :: "cpu_regs \<Rightarrow> 'a proc_scheme \<Rightarrow> (cpu_regs \<times> 'a proc_scheme) option" where
  "irq0_timer_handler r s =
     (let (ctx, m) = irq0_save (tss_esp0 (g_tss s)) r (phys_mem s);
          s = s\<lparr>phys_mem := m\<rparr>;
          s = outb 0x20 0x20 s
      in case scheduler_tick ctx s of
           None \<Rightarrow> None
         | Some (esp, s) \<Rightarrow> Some (irq0_restore 0x10 esp (phys_mem s), s))"

definition scheduler_yield :: "cpu_regs \<Rightarrow> 'a proc_scheme \<Rightarrow> (cpu_regs \<times> 'a proc_scheme) option" where
  "scheduler_yield r s =
     (let s = (case sched_current s of
                 Some cur \<Rightarrow> upd_thread cur (\<lambda>t. t\<lparr>quantum := 0\<rparr>) s
               | None \<Rightarrow> s)
      in irq0_timer_handler r s)"

declare serial_puts.simps [simp del] screen_write.simps [simp del]

subsection \<open>Round robin\<close>

lemma queue_rep_cong:
  assumes "length (g_threads s) = length (g_threads t)"
    and "\<And>i. i < length (g_threads t) \<Longrightarrow> t_next (g_threads s ! i) = t_next (g_threads t ! i)"
    and "sched_queue_head s = sched_queue_head t" "sched_queue_tail s = sched_queue_tail t"
  shows "queue_rep s ts = queue_rep t ts"
proof -
  have "next_of s (ts ! k) = next_of t (ts ! k)" if "\<forall>i \<in> set ts. i < length (g_threads t)" "k < length ts" for k
    using assms(2) that by (simp add: next_of_def)
  then show ?thesis using assms unfolding queue_rep_def by (cases "ts = []") auto
qed

lemma queue_rep_upd_thread:
  assumes "\<And>t. t_next (f t) = t_next t"
  shows "queue_rep (upd_thread i f s) ts = queue_rep s ts"
proof (rule queue_rep_cong)
  show "t_next (g_threads (upd_thread i f s) ! j) = t_next (g_threads s ! j)" for j
    using assms by (cases "i < length (g_threads s)") (auto simp: upd_thread_def nth_list_update list_update_beyond)
qed (simp_all add: upd_thread_def)

definition agree :: "'a proc_scheme \<Rightarrow> rr \<Rightarrow> bool" where
  "agree s r \<longleftrightarrow> (\<forall>i < length (g_threads s). rr_state r i = tstate (g_threads s ! i) \<and> rr_quantum r i = quantum (g_threads s ! i))"

lemma agree_upd:
  assumes "agree s r" "c < length (g_threads s)"
  shows "agree (upd_thread c f s) (r\<lparr>rr_state := (rr_state r)(c := tstate (f (g_threads s ! c))),
     rr_quantum := (rr_quantum r)(c := quantum (f (g_threads s ! c)))\<rparr>)"
  using assms by (auto simp: agree_def upd_thread_def nth_list_update)

text \<open>
  \<open>sched_sim s r\<close>: the queue, states and quanta of \<open>s\<close> are those of \<open>r\<close>, and the queue read from the
  running thread's successor on is \<open>r\<close>'s order.
\<close>

definition sched_sim :: "'a proc_scheme \<Rightarrow> rr \<Rightarrow> bool" where
  "sched_sim s r \<longleftrightarrow> agree s r \<and> (\<exists>ts k. queue_rep s ts \<and> k < length ts \<and> rr_order r = rotate (Suc k) ts
     \<and> sched_current s = Some (ts ! k) \<and> g_current_thread s = Some (ts ! k))"

definition tick_charge :: "u32 \<Rightarrow> nat \<Rightarrow> 'a proc_scheme \<Rightarrow> 'a proc_scheme" where
  "tick_charge ctx c s =
     (let s = upd_thread c (\<lambda>t. t\<lparr>saved_context := ctx\<rparr>) s;
          s = (if tstate (g_threads s ! c) = THREAD_RUNNING then upd_thread c (\<lambda>t. t\<lparr>tstate := THREAD_READY\<rparr>) s else s)
      in if quantum (g_threads s ! c) > 0 then upd_thread c (\<lambda>t. t\<lparr>quantum := quantum t - 1\<rparr>) s else s)"

lemma scheduler_tick_unfold:
  assumes "sched_current s = Some c"
  shows "scheduler_tick ctx s =
    (let s = tick_charge ctx c (syscall_tick_increment s)
     in if quantum (g_threads s ! c) > 0 \<and> tstate (g_threads s ! c) = THREAD_READY
        then Some (ctx, upd_thread c (\<lambda>t. t\<lparr>tstate := THREAD_RUNNING\<rparr>) s)
        else case queue_next_ready (Some c) s of
               None \<Rightarrow> None
             | Some next \<Rightarrow>
                 if next = None \<or> next = Some c
                 then Some (ctx, upd_thread c (\<lambda>t. t\<lparr>quantum := SCHEDULER_QUANTUM, tstate := THREAD_RUNNING\<rparr>) s)
                 else Some (switch_to ctx c (the next) (serial_puts (''[sched] found next thread'' @ crlf) s)))"
proof -
  have "sched_current (syscall_tick_increment s) = Some c"
    using assms by (simp add: syscall_tick_increment_def serial_puts_eq Let_def)
  then show ?thesis by (simp add: scheduler_tick_def tick_charge_def Let_def)
qed

text \<open>What a tick leaves of the queue, and the threads it changes.\<close>

lemma tick_charge_fields [simp]:
  "sched_current (tick_charge ctx c s) = sched_current s" "g_current_thread (tick_charge ctx c s) = g_current_thread s"
  "length (g_threads (tick_charge ctx c s)) = length (g_threads s)"
  "queue_rep (tick_charge ctx c s) ts = queue_rep s ts"
proof -
  have q: "queue_rep (upd_thread c f s) ts = queue_rep s ts" if "\<And>t. t_next (f t) = t_next t" for f and s :: "'a proc_scheme"
    by (rule queue_rep_upd_thread [OF that])
  show "queue_rep (tick_charge ctx c s) ts = queue_rep s ts"
    by (simp add: tick_charge_def Let_def q)
qed (simp_all add: tick_charge_def Let_def upd_thread_def)

lemma agree_tick_charge:
  assumes a: "agree s r" and c: "c < length (g_threads s)" "rr_cur r = c"
  shows "agree (tick_charge ctx c s) (rr_charge r)"
  using assms unfolding agree_def
  by (auto simp: tick_charge_def rr_charge_def Let_def upd_thread_def nth_list_update)

lemma tick_increment_fields [simp]:
  "sched_current (syscall_tick_increment s) = sched_current s"
  "g_current_thread (syscall_tick_increment s) = g_current_thread s"
  "g_threads (syscall_tick_increment s) = g_threads s"
  "queue_rep (syscall_tick_increment s) ts = queue_rep s ts"
  "agree (syscall_tick_increment s) r = agree s r"
proof -
  show "queue_rep (syscall_tick_increment s) ts = queue_rep s ts"
    by (rule queue_rep_cong) (simp_all add: syscall_tick_increment_def serial_puts_eq Let_def)
qed (simp_all add: syscall_tick_increment_def serial_puts_eq Let_def agree_def)

lemma switch_to_fields:
  "g_threads (snd (switch_to ctx c n s)) = (g_threads s)[n := (g_threads s ! n)\<lparr>quantum := SCHEDULER_QUANTUM, tstate := THREAD_RUNNING\<rparr>]"
  "sched_queue_head (snd (switch_to ctx c n s)) = sched_queue_head s"
  "sched_queue_tail (snd (switch_to ctx c n s)) = sched_queue_tail s"
  "sched_current (snd (switch_to ctx c n s)) = Some n"
  "g_current_thread (snd (switch_to ctx c n s)) = Some n"
  by (simp_all add: switch_to_def Let_def upd_thread_def debug_write_switches_def tss_set_esp0_def write_cr3_def
      proc_set_current_thread_def split: option.split)

lemma queue_rep_switch_to: "queue_rep (snd (switch_to ctx c n s)) ts = queue_rep s ts"
proof (rule queue_rep_cong)
  show "t_next (g_threads (snd (switch_to ctx c n s)) ! j) = t_next (g_threads s ! j)" for j
    unfolding switch_to_fields by (cases "n < length (g_threads s)") (auto simp: nth_list_update list_update_beyond)
qed (simp_all add: switch_to_fields)

lemma agree_switch_to:
  assumes "agree s r" "n < length (g_threads s)"
  shows "agree (snd (switch_to ctx c n s)) (rr_run n r)"
  using assms by (auto simp: agree_def switch_to_fields rr_run_def nth_list_update)

lemma serial_puts_sched [simp]:
  "queue_rep (serial_puts str s) ts = queue_rep s ts" "agree (serial_puts str s) r = agree s r"
  "g_threads (serial_puts str s) = g_threads s"
proof -
  show "queue_rep (serial_puts str s) ts = queue_rep s ts" by (rule queue_rep_cong) (simp_all add: serial_puts_eq)
qed (simp_all add: serial_puts_eq agree_def)

lemma last_rotate_Suc: "k < length ts \<Longrightarrow> last (rotate (Suc k) ts) = ts ! k"
proof -
  assume k: "k < length ts"
  then have ne: "rotate (Suc k) ts \<noteq> []" by auto
  have "last (rotate (Suc k) ts) = ts ! ((Suc k + (length ts - 1)) mod length ts)"
    unfolding last_conv_nth [OF ne] length_rotate using k by (intro nth_rotate) simp
  moreover have "(Suc k + (length ts - 1)) mod length ts = k"
  proof -
    have "Suc k + (length ts - 1) = k + length ts" using k by simp
    then show ?thesis using k by (simp only: mod_add_self2 mod_less)
  qed
  ultimately show ?thesis by (simp only:)
qed

lemma rotate_split:
  assumes "rotate (Suc k) ts = before @ n # later" "k < length ts"
  defines "k' \<equiv> (Suc k + length before) mod length ts"
  shows "k' < length ts" "ts ! k' = n" "rotate (Suc k') ts = later @ before @ [n]"
proof -
  have len: "length before < length ts" using arg_cong [OF assms(1), of length] by simp
  show "k' < length ts" using assms(2) unfolding k'_def by (intro mod_less_divisor) linarith
  show "ts ! k' = n" using nth_rotate [OF len, of "Suc k"] unfolding assms(1) k'_def by simp
  have "rotate (Suc k') ts = rotate (Suc (Suc k + length before)) ts"
    unfolding k'_def by (subst (1 2) rotate_conv_mod) (simp only: mod_Suc_eq)
  also have "\<dots> = rotate (Suc (length before)) (rotate (Suc k) ts)" unfolding rotate_rotate by (simp add: add.commute)
  also have "\<dots> = rotate (length (before @ [n])) ((before @ [n]) @ later)" unfolding assms(1) by simp
  also have "\<dots> = later @ before @ [n]" unfolding rotate_append by simp
  finally show "rotate (Suc k') ts = later @ before @ [n]" .
qed

lemma agree_state:
  "agree s r \<Longrightarrow> i < length (g_threads s) \<Longrightarrow> tstate (g_threads s ! i) = rr_state r i"
  "agree s r \<Longrightarrow> i < length (g_threads s) \<Longrightarrow> quantum (g_threads s ! i) = rr_quantum r i"
  by (simp_all add: agree_def)

lemma scheduler_tick_sim:
  assumes sim: "sched_sim s r"
  shows "\<exists>esp t. scheduler_tick ctx s = Some (esp, t) \<and> sched_sim t (rr_tick r)"
proof -
  from sim obtain ts k where ag: "agree s r" and q: "queue_rep s ts" and k: "k < length ts"
    and o: "rr_order r = rotate (Suc k) ts" and cur: "sched_current s = Some (ts ! k)" "g_current_thread s = Some (ts ! k)"
    by (auto simp: sched_sim_def)
  let ?c = "ts ! k" and ?s = "tick_charge ctx (ts ! k) (syscall_tick_increment s)"
  have rc: "rr_cur r = ?c" unfolding rr_cur_def o by (rule last_rotate_Suc [OF k])
  have len: "i < length (g_threads s)" if "i \<in> set ts" for i using q that by (auto simp: queue_rep_def)
  have c: "?c < length (g_threads s)" using k len by simp
  have ag': "agree ?s (rr_charge r)" using agree_tick_charge [of "syscall_tick_increment s" r ?c ctx] ag c rc by simp
  have q': "queue_rep ?s ts" and l': "length (g_threads ?s) = length (g_threads s)" using q by simp_all
  have c': "?c < length (g_threads ?s)" using c by simp
  have same: "rr_state (rr_charge r) ?c = tstate (g_threads ?s ! ?c)" "rr_quantum (rr_charge r) ?c = quantum (g_threads ?s ! ?c)"
    using ag' c' by (simp_all add: agree_def)
  note T = scheduler_tick_unfold [OF cur(1), of ctx, unfolded Let_def]
  have keep: "sched_sim (upd_thread ?c f ?s) ((rr_charge r)\<lparr>rr_state := (rr_state (rr_charge r))(?c := tstate (f (g_threads ?s ! ?c))),
     rr_quantum := (rr_quantum (rr_charge r))(?c := quantum (f (g_threads ?s ! ?c)))\<rparr>)"
    if "\<And>t. t_next (f t) = t_next t" for f
  proof -
    have "queue_rep (upd_thread ?c f ?s) ts" using q' by (simp only: queue_rep_upd_thread [of f, OF that])
    moreover have "sched_current (upd_thread ?c f ?s) = Some ?c" "g_current_thread (upd_thread ?c f ?s) = Some ?c"
      using cur by (simp_all add: upd_thread_def)
    ultimately show ?thesis
      unfolding sched_sim_def using agree_upd [OF ag' c', of f] k o by (intro conjI exI [of _ ts] exI [of _ k]) simp_all
  qed
  let ?w = "\<lambda>j. rr_state (rr_charge r) j \<noteq> THREAD_READY"
  have pick: "queue_next_ready (Some ?c) ?s = Some (find (\<lambda>j. \<not> ?w j) (rr_order r))"
  proof -
    have "find (\<lambda>i. tstate (g_threads ?s ! i) = THREAD_READY) (rotate (Suc k) ts) = find (\<lambda>j. \<not> ?w j) (rotate (Suc k) ts)"
      using ag' len l' by (intro find_cong refl) (auto simp: agree_def)
    then show ?thesis using rq.pick_rep [OF q' k] unfolding o by (simp only: first_ready_def)
  qed
  have fd: "find (\<lambda>j. \<not> ?w j) (rr_order r) = (case dropWhile ?w (rr_order r) of [] \<Rightarrow> None | x # xs \<Rightarrow> Some x)"
    unfolding find_dropWhile by (simp add: comp_def)
  show ?thesis
  proof (cases rule: rr_tick_cases [of r])
    case stay
    have "scheduler_tick ctx s = Some (ctx, upd_thread ?c (\<lambda>t. t\<lparr>tstate := THREAD_RUNNING\<rparr>) ?s)"
      unfolding T using stay(2,3) same rc by simp
    moreover have "rr_tick r = (rr_charge r)\<lparr>rr_state := (rr_state (rr_charge r))(?c := THREAD_RUNNING),
        rr_quantum := (rr_quantum (rr_charge r))(?c := quantum (g_threads ?s ! ?c))\<rparr>"
      unfolding same(2) [symmetric] stay(1) rc by simp
    ultimately show ?thesis using keep [of "\<lambda>t. t\<lparr>tstate := THREAD_RUNNING\<rparr>"] by simp
  next
    case again
    define D where "D = dropWhile ?w (rr_order r)"
    have "find (\<lambda>j. \<not> ?w j) (rr_order r) = None \<or> find (\<lambda>j. \<not> ?w j) (rr_order r) = Some ?c"
      using again(3) unfolding fd rc D_def [symmetric] by (cases D) simp_all
    then have "scheduler_tick ctx s = Some (ctx, upd_thread ?c (\<lambda>t. t\<lparr>quantum := SCHEDULER_QUANTUM, tstate := THREAD_RUNNING\<rparr>) ?s)"
      unfolding T pick using again(2) same rc by auto
    then show ?thesis using keep [of "\<lambda>t. t\<lparr>quantum := SCHEDULER_QUANTUM, tstate := THREAD_RUNNING\<rparr>"] again(1) rc
      by (simp add: rr_run_def)
  next
    case (switch n before later)
    let ?s' = "serial_puts (''[sched] found next thread'' @ crlf) ?s"
    have "dropWhile ?w (before @ n # later) = dropWhile ?w (n # later)"
      by (rule dropWhile_append2) (use switch(4) in blast)
    then have "dropWhile ?w (before @ n # later) = n # later" using switch(3) by simp
    then have "find (\<lambda>j. \<not> ?w j) (rr_order r) = Some n" unfolding fd unfolding switch(1) by simp
    moreover have "n \<noteq> ?c" using switch(2) rc by simp
    ultimately have t: "scheduler_tick ctx s = Some (switch_to ctx ?c n ?s')"
      unfolding T pick using switch(6) same rc by auto
    have rot: "rotate (Suc k) ts = before @ n # later" using switch(1) o by simp
    note R = rotate_split [OF rot k]
    have "n \<in> set ts" using rot by (metis in_set_conv_decomp set_rotate)
    then have n: "n < length (g_threads ?s')" using len l' by simp
    have "agree (snd (switch_to ctx ?c n ?s')) (rr_tick r)"
      using agree_switch_to [OF _ n, of "rr_charge r" ctx ?c] ag' unfolding switch(5) by (simp add: agree_def)
    then have "sched_sim (snd (switch_to ctx ?c n ?s')) (rr_tick r)"
      unfolding sched_sim_def using q' R switch(5)
      by (intro conjI exI [of _ ts] exI [of _ "(Suc k + length before) mod length ts"])
        (simp_all add: queue_rep_switch_to switch_to_fields)
    then show ?thesis unfolding t by (metis prod.collapse)
  qed
qed

subsection \<open>The scheduler's invariant\<close>

text \<open>
  \<open>sched_ok s ts k\<close>: the queue holds \<open>ts\<close>, its \<open>k\<close>-th thread is the current one for the scheduler and
  for the process table, no other thread is running, and quanta are at most \<open>SCHEDULER_QUANTUM\<close>.
\<close>

definition sched_ok :: "'a proc_scheme \<Rightarrow> nat list \<Rightarrow> nat \<Rightarrow> bool" where
  "sched_ok s ts k \<longleftrightarrow> queue_rep s ts \<and> k < length ts
     \<and> sched_current s = Some (ts ! k) \<and> g_current_thread s = Some (ts ! k)
     \<and> (\<forall>i < length (g_threads s). tstate (g_threads s ! i) = THREAD_RUNNING \<longrightarrow> i = ts ! k)
     \<and> (\<forall>i \<in> set ts. 0 \<le> quantum (g_threads s ! i) \<and> quantum (g_threads s ! i) \<le> SCHEDULER_QUANTUM)"

definition rr_of :: "'a proc_scheme \<Rightarrow> nat list \<Rightarrow> nat \<Rightarrow> rr" where
  "rr_of s ts k = \<lparr>rr_order = rotate (Suc k) ts,
     rr_state = (\<lambda>i. if i < length (g_threads s) then tstate (g_threads s ! i) else THREAD_BLOCKED),
     rr_quantum = (\<lambda>i. quantum (g_threads s ! i))\<rparr>"

lemma rr_of_cur: "k < length ts \<Longrightarrow> rr_cur (rr_of s ts k) = ts ! k"
  unfolding rr_cur_def rr_of_def rr.simps by (rule last_rotate_Suc)

lemma rr_of_ok:
  assumes "sched_ok s ts k"
  shows "sched_sim s (rr_of s ts k)" and "rr_ok (rr_of s ts k)"
proof -
  have k: "k < length ts" and q: "queue_rep s ts" and c: "sched_current s = Some (ts ! k)" "g_current_thread s = Some (ts ! k)"
    using assms by (simp_all add: sched_ok_def)
  have "agree s (rr_of s ts k)" by (simp add: agree_def rr_of_def)
  moreover have "rr_order (rr_of s ts k) = rotate (Suc k) ts" unfolding rr_of_def rr.simps ..
  ultimately show "sched_sim s (rr_of s ts k)" unfolding sched_sim_def using q k c by blast
  have "ts \<noteq> []" "distinct ts" using k q by (auto simp: queue_rep_def)
  moreover have "i = ts ! k" if "rr_state (rr_of s ts k) i = THREAD_RUNNING" for i
    using assms that by (auto simp: sched_ok_def rr_of_def split: if_splits)
  moreover have "0 \<le> rr_quantum (rr_of s ts k) i \<and> rr_quantum (rr_of s ts k) i \<le> SCHEDULER_QUANTUM" if "i \<in> set ts" for i
    using assms that by (simp add: sched_ok_def rr_of_def)
  ultimately show "rr_ok (rr_of s ts k)"
    unfolding rr_ok_def using rr_of_cur [OF k, of s] by (simp add: rr_of_def)
qed

lemma sched_ok_of:
  assumes sim: "sched_sim s r" and ok: "rr_ok r"
  obtains ts k where "sched_ok s ts k" "set ts = set (rr_order r)" "ts ! k = rr_cur r" "length ts = length (rr_order r)"
proof -
  from sim obtain ts k where ag: "agree s r" and q: "queue_rep s ts" and k: "k < length ts"
    and o: "rr_order r = rotate (Suc k) ts" and cur: "sched_current s = Some (ts ! k)" "g_current_thread s = Some (ts ! k)"
    by (auto simp: sched_sim_def)
  have rc: "rr_cur r = ts ! k" unfolding rr_cur_def o by (rule last_rotate_Suc [OF k])
  have "i = ts ! k" if "i < length (g_threads s)" "tstate (g_threads s ! i) = THREAD_RUNNING" for i
  proof -
    have "rr_state r i = THREAD_RUNNING" using ag that by (simp add: agree_def)
    then have "i = rr_cur r" using ok unfolding rr_ok_def by blast
    then show ?thesis using rc by simp
  qed
  moreover have "0 \<le> quantum (g_threads s ! i) \<and> quantum (g_threads s ! i) \<le> SCHEDULER_QUANTUM" if i: "i \<in> set ts" for i
  proof -
    have "i < length (g_threads s)" using q i by (simp add: queue_rep_def)
    moreover have "i \<in> set (rr_order r)" using i unfolding o by simp
    ultimately show ?thesis using ok ag by (auto simp: rr_ok_def agree_def)
  qed
  ultimately have "sched_ok s ts k" unfolding sched_ok_def using q k cur by blast
  moreover have "set ts = set (rr_order r)" "length ts = length (rr_order r)" unfolding o by simp_all
  ultimately show ?thesis using that [of ts k] rc by simp
qed

lemma rr_tick_set: "rr_ok r \<Longrightarrow> set (rr_order (rr_tick r)) = set (rr_order r)"
  by (cases rule: rr_tick_cases [of r]) auto

lemma rr_tick_length: "rr_ok r \<Longrightarrow> length (rr_order (rr_tick r)) = length (rr_order r)"
  by (cases rule: rr_tick_cases [of r]) auto

text \<open>A series of ticks, with the context each interrupts.\<close>

fun run_ticks :: "u32 list \<Rightarrow> 'a proc_scheme \<Rightarrow> 'a proc_scheme option" where
  "run_ticks [] s = Some s"
| "run_ticks (c # cs) s = (case scheduler_tick c s of None \<Rightarrow> None | Some (esp, t) \<Rightarrow> run_ticks cs t)"

lemma run_ticks_sim:
  "sched_sim s r \<Longrightarrow> \<exists>t. run_ticks cs s = Some t \<and> sched_sim t ((rr_tick ^^ length cs) r)"
proof (induction cs arbitrary: s r)
  case Nil
  then show ?case by simp
next
  case (Cons c cs)
  from scheduler_tick_sim [OF Cons.prems] obtain esp u where
    u: "scheduler_tick c s = Some (esp, u)" "sched_sim u (rr_tick r)" by blast
  from Cons.IH [OF u(2)] u(1) show ?case by (simp add: funpow_swap1)
qed

lemma queue_insert_tables [simp]:
  "map tstate (g_threads (queue_insert t s)) = map tstate (g_threads s)"
  "map quantum (g_threads (queue_insert t s)) = map quantum (g_threads s)"
  "g_current_thread (queue_insert t s) = g_current_thread s"
  by (auto simp: queue_insert_def set_next_def upd_thread_def Let_def map_update_same split: option.split)

lemma queue_insert_threads:
  assumes "i < length (g_threads s)"
  shows "tstate (g_threads (queue_insert t s) ! i) = tstate (g_threads s ! i)"
    "quantum (g_threads (queue_insert t s) ! i) = quantum (g_threads s ! i)"
proof -
  have len: "length (g_threads (queue_insert t s)) = length (g_threads s)"
    using map_eq_imp_length_eq [OF queue_insert_tables(1)] .
  show "tstate (g_threads (queue_insert t s) ! i) = tstate (g_threads s ! i)"
    using queue_insert_tables(1) [of t s] assms len by (metis nth_map)
  show "quantum (g_threads (queue_insert t s) ! i) = quantum (g_threads s ! i)"
    using queue_insert_tables(2) [of t s] assms len by (metis nth_map)
qed

lemma scheduler_init_ok:
  assumes q: "queue_rep s ts" and cur: "g_current_thread s = Some idle" and i: "idle < length (g_threads s)" "idle \<notin> set ts"
    and none: "\<forall>j < length (g_threads s). tstate (g_threads s ! j) \<noteq> THREAD_RUNNING"
    and quanta: "\<forall>j \<in> set ts. 0 \<le> quantum (g_threads s ! j) \<and> quantum (g_threads s ! j) \<le> SCHEDULER_QUANTUM"
  shows "sched_ok (scheduler_init s) (ts @ [idle]) (length ts)"
proof -
  let ?s = "queue_insert (Some idle) s"
  have len: "length (g_threads ?s) = length (g_threads s)" using map_eq_imp_length_eq [OF queue_insert_tables(1)] .
  have q': "queue_rep ?s (ts @ [idle])" by (rule queue_insert_rep [OF q i])
  let ?t = "upd_thread idle (\<lambda>t. t\<lparr>quantum := SCHEDULER_QUANTUM\<rparr>) (upd_thread idle (\<lambda>t. t\<lparr>tstate := THREAD_RUNNING\<rparr>) ?s)"
  have t: "scheduler_init s = ?t\<lparr>sched_current := Some idle\<rparr>"
    using cur by (simp add: scheduler_init_def proc_current_thread_def Let_def)
  have "queue_rep ?t (ts @ [idle])" using q' by (simp add: queue_rep_upd_thread)
  then have "queue_rep (scheduler_init s) (ts @ [idle])" unfolding t by (simp add: queue_rep_cong [of "?t\<lparr>sched_current := Some idle\<rparr>" ?t])
  moreover have th: "g_threads (scheduler_init s) = (g_threads ?s)[idle := (g_threads ?s ! idle)\<lparr>tstate := THREAD_RUNNING, quantum := SCHEDULER_QUANTUM\<rparr>]"
    unfolding t using i(1) len by (simp add: upd_thread_def)
  moreover have "sched_current (scheduler_init s) = Some idle" "g_current_thread (scheduler_init s) = Some idle"
    unfolding t using cur by (simp_all add: upd_thread_def)
  moreover have "j < length (g_threads s)" if "j \<in> set ts" for j using q that by (simp add: queue_rep_def)
  ultimately show ?thesis
    unfolding sched_ok_def th using none quanta queue_insert_threads [of _ s "Some idle"] i len
    by (auto simp: nth_list_update nth_append const_defs)
qed

subsection \<open>Memory across a tick\<close>

lemma upd_thread_other [simp]:
  "phys_mem (upd_thread i f s) = phys_mem s" "g_tss (upd_thread i f s) = g_tss s" "cr3 (upd_thread i f s) = cr3 s"
  "g_processes (upd_thread i f s) = g_processes s" "length (g_threads (upd_thread i f s)) = length (g_threads s)"
  by (simp_all add: upd_thread_def)

lemma tick_charge_other [simp]:
  "phys_mem (tick_charge ctx c s) = phys_mem s" "cr3 (tick_charge ctx c s) = cr3 s"
  by (simp_all add: tick_charge_def Let_def)

lemma tick_charge_saved:
  "c < length (g_threads s) \<Longrightarrow> saved_context (g_threads (tick_charge ctx c s) ! c) = ctx"
  by (simp add: tick_charge_def Let_def upd_thread_def)

lemma switch_to_other [simp]: "phys_mem (snd (switch_to ctx c n s)) = phys_mem s"
  by (simp add: switch_to_def Let_def upd_thread_def debug_write_switches_def tss_set_esp0_def write_cr3_def
      proc_set_current_thread_def split: option.split)

lemma serial_puts_other [simp]:
  "phys_mem (serial_puts str s) = phys_mem s" "cr3 (serial_puts str s) = cr3 s" "g_processes (serial_puts str s) = g_processes s"
  by (simp_all add: serial_puts_eq)

lemma tick_increment_other [simp]:
  "phys_mem (syscall_tick_increment s) = phys_mem s" "cr3 (syscall_tick_increment s) = cr3 s"
  "g_processes (syscall_tick_increment s) = g_processes s"
  by (simp_all add: syscall_tick_increment_def Let_def serial_puts_eq)

text \<open>A tick writes no memory, and leaves the interrupted thread's context pointer at \<open>ctx\<close>.\<close>

lemma scheduler_tick_saves:
  assumes t: "scheduler_tick ctx s = Some (esp, t)" and c: "sched_current s = Some c" "c < length (g_threads s)"
  shows "phys_mem t = phys_mem s \<and> saved_context (g_threads t ! c) = ctx \<and> length (g_threads t) = length (g_threads s)"
proof -
  let ?s = "tick_charge ctx c (syscall_tick_increment s)"
  have sv: "saved_context (g_threads ?s ! c) = ctx" using c(2) by (simp add: tick_charge_saved)
  have c': "c < length (g_threads ?s)" using c(2) by simp
  have upd: "saved_context (g_threads (upd_thread c f ?s) ! c) = ctx" if "\<And>t. saved_context (f t) = saved_context t" for f
    using that c' sv by (simp add: upd_thread_def)
  note T = t [unfolded scheduler_tick_unfold [OF c(1)] Let_def]
  show ?thesis
  proof (cases "quantum (g_threads ?s ! c) > 0 \<and> tstate (g_threads ?s ! c) = THREAD_READY")
    case True
    then show ?thesis using T upd by auto
  next
    case False
    then obtain nx where nx: "queue_next_ready (Some c) ?s = Some nx"
      using T by (auto split: option.splits)
    show ?thesis
    proof (cases "nx = None \<or> nx = Some c")
      case True
      then have "t = upd_thread c (\<lambda>t. t\<lparr>quantum := SCHEDULER_QUANTUM, tstate := THREAD_RUNNING\<rparr>) ?s"
        using T False nx by auto
      then show ?thesis using upd by simp
    next
      case ne: False
      then obtain n where n: "nx = Some n" "n \<noteq> c" by (cases nx) auto
      have "t = snd (switch_to ctx c n (serial_puts (''[sched] found next thread'' @ crlf) ?s))"
        using T False nx n by (auto simp: prod_eq_iff)
      then show ?thesis using n(2) sv by (simp add: switch_to_fields)
    qed
  qed
qed

subsection \<open>Properties\<close>

text \<open>
  C4: The scheduler's tick implements the round-robin discipline: from a state whose queue, states
  and quanta are those of an abstract round-robin state, it always returns, in a state that stands for
  the abstract one after a step.
\<close>

theorem scheduler_tick_refines_round_robin:
  assumes "sched_sim s r"
  shows "\<exists>esp t. scheduler_tick ctx s = Some (esp, t) \<and> sched_sim t (rr_tick r)"
  by (rule scheduler_tick_sim [OF assms])

definition two_threads :: proc where
  "two_threads = proc_reset\<lparr>
     g_threads := thread_zero\<lparr>tid := 1, tstate := THREAD_RUNNING, quantum := 1, t_next := Some 1, saved_context := 0x800FBC\<rparr>
       # thread_zero\<lparr>tid := 2, quantum := 5, t_next := Some 0, saved_context := 0x801FBC, kernel_stack_top := 0x802000\<rparr>
       # replicate 30 thread_zero,
     sched_queue_head := Some 0, sched_queue_tail := Some 1, sched_current := Some 0, g_current_thread := Some 0\<rparr>"

lemma less_2_cases: "k < Suc (Suc 0) \<longleftrightarrow> k = 0 \<or> k = Suc 0"
  by auto

lemma two_threads_ok: "sched_ok two_threads [0, 1] 0"
proof -
  have "tstate (replicate 30 thread_zero ! i) = THREAD_READY" if "i < 30" for i using that by (simp add: thread_zero_def)
  moreover have "i = 0" if "i < 32" "tstate (g_threads two_threads ! i) = THREAD_RUNNING" for i
    using that by (auto simp: two_threads_def thread_zero_def nth_Cons split: nat.splits)
  ultimately show ?thesis
    by (auto simp: sched_ok_def queue_rep_def next_of_def less_2_cases const_defs two_threads_def thread_zero_def)
qed

theorem scheduler_tick_refines_round_robin_witness:
  "\<exists>esp t. scheduler_tick 0x800FBC two_threads = Some (esp, t) \<and> sched_sim t (rr_tick (rr_of two_threads [0, 1] 0))"
  by (rule scheduler_tick_refines_round_robin [OF rr_of_ok(1) [OF two_threads_ok]])

text \<open>
  The scheduler's invariant is kept by every tick: the queue stays a well-formed circular list of
  the same threads, one of them is the current thread for both the scheduler and the process table,
  no other thread is marked running, and quanta stay within bounds.
\<close>

theorem scheduler_invariant:
  assumes "sched_ok s ts k"
  shows "\<exists>esp t ts' k'. scheduler_tick ctx s = Some (esp, t) \<and> sched_ok t ts' k' \<and> set ts' = set ts"
proof -
  note R = rr_of_ok [OF assms]
  from scheduler_tick_sim [OF R(1)] obtain esp t where
    t: "scheduler_tick ctx s = Some (esp, t)" "sched_sim t (rr_tick (rr_of s ts k))" by blast
  from sched_ok_of [OF t(2) rr_ok_tick [OF R(2)]] obtain ts' k' where
    "sched_ok t ts' k'" "set ts' = set (rr_order (rr_tick (rr_of s ts k)))" by blast
  moreover have "set (rr_order (rr_of s ts k)) = set ts" by (simp add: rr_of_def)
  ultimately show ?thesis using t(1) rr_tick_set [OF R(2)] by blast
qed

theorem scheduler_invariant_witness:
  "\<exists>esp t ts' k'. scheduler_tick 0x800FBC two_threads = Some (esp, t) \<and> sched_ok t ts' k' \<and> set ts' = {0, 1}"
  using scheduler_invariant [OF two_threads_ok, of "0x800FBC"] by simp

text \<open>
  C20: The scheduler is fair: a ready thread in a queue of \<open>n\<close> threads runs within \<open>10 n\<close> ticks,
  whatever contexts the ticks interrupt, as long as no thread blocks, wakes or dies meanwhile.
\<close>

theorem scheduler_fair:
  assumes "sched_ok s ts k" "j \<in> set ts" "tstate (g_threads s ! j) = THREAD_READY" "j \<noteq> ts ! k"
    and "10 * length ts \<le> length ctxs"
  shows "\<exists>m \<le> 10 * length ts. \<exists>t. run_ticks (take m ctxs) s = Some t
    \<and> sched_current t = Some j \<and> g_current_thread t = Some j"
proof -
  let ?r = "rr_of s ts k"
  note R = rr_of_ok [OF assms(1)]
  have k: "k < length ts" and j: "j < length (g_threads s)" using assms(1,2) by (auto simp: sched_ok_def queue_rep_def)
  have "j \<in> set (rr_order ?r)" "rr_state ?r j = THREAD_READY" "j \<noteq> rr_cur ?r"
    using assms(2-4) j rr_of_cur [OF k, of s] by (simp_all add: rr_of_def)
  note J = this
  obtain m where m: "m \<le> rr_wait j ?r" "rr_cur ((rr_tick ^^ m) ?r) = j" using rr_fair [OF R(2) J] by blast
  have "rr_wait j ?r \<le> 10 * length ts" using rr_wait_bound [OF R(2) J(1)] by (simp add: rr_of_def)
  with m(1) have m10: "m \<le> 10 * length ts" by simp
  with assms(5) have len: "length (take m ctxs) = m" by simp
  obtain t where t: "run_ticks (take m ctxs) s = Some t" "sched_sim t ((rr_tick ^^ m) ?r)"
    using run_ticks_sim [OF R(1), of "take m ctxs"] unfolding len by blast
  have "rr_ok ((rr_tick ^^ m) ?r)" by (induction m) (simp_all add: R(2) rr_ok_tick)
  from sched_ok_of [OF t(2) this] m(2) obtain us i where "sched_ok t us i" "us ! i = j" by metis
  then have "sched_current t = Some j" "g_current_thread t = Some j" by (simp_all add: sched_ok_def)
  with t(1) m10 show ?thesis by blast
qed

theorem scheduler_fair_witness:
  "\<exists>m \<le> 20. \<exists>t. run_ticks (take m (replicate 20 0x800FBC)) two_threads = Some t \<and> sched_current t = Some 1"
  using scheduler_fair [OF two_threads_ok, of 1 "replicate 20 0x800FBC"] by (auto simp: two_threads_def thread_zero_def)

text \<open>
  \<open>scheduler_init\<close> establishes the invariant: from a well-formed queue of threads none of which is
  marked running, it appends the process table's current thread (the idle thread) and makes it the
  running one.
\<close>

theorem scheduler_init_establishes_invariant:
  assumes "queue_rep s ts" "g_current_thread s = Some idle" "idle < length (g_threads s)" "idle \<notin> set ts"
    and "\<forall>j < length (g_threads s). tstate (g_threads s ! j) \<noteq> THREAD_RUNNING"
    and "\<forall>j \<in> set ts. 0 \<le> quantum (g_threads s ! j) \<and> quantum (g_threads s ! j) \<le> SCHEDULER_QUANTUM"
  shows "sched_ok (scheduler_init s) (ts @ [idle]) (length ts)"
  by (rule scheduler_init_ok [OF assms])

theorem scheduler_init_establishes_invariant_witness:
  "sched_ok (scheduler_init (proc_reset\<lparr>g_current_thread := Some 0\<rparr>)) [0] 0"
  using scheduler_init_establishes_invariant [of "proc_reset\<lparr>g_current_thread := Some 0\<rparr>" "[]" 0]
  by (simp add: queue_rep_def proc_reset_def proc.defs intr.defs thread_zero_def)

text \<open>
  C5: An interrupted thread keeps its registers: whatever thread the timer switches to, the context
  the handler saved for the interrupted one, restored from memory as the tick leaves it, gives back
  every register. Both the frame's address in the thread's slot and the frame itself are right.
\<close>

theorem timer_preserves_interrupted_thread:
  assumes "sched_ok s ts k" "aligned4 (tss_esp0 (g_tss s))" "aligned4 (r_esp r)"
  shows "\<exists>r' t. irq0_timer_handler r s = Some (r', t)
    \<and> irq0_restore (r_ss r) (saved_context (g_threads t ! (ts ! k))) (phys_mem t) = r"
proof -
  let ?c = "ts ! k" and ?a = "irq0_save (tss_esp0 (g_tss s)) r (phys_mem s)"
  let ?s = "outb 0x20 0x20 (s\<lparr>phys_mem := snd ?a\<rparr>)"
  have same: "g_threads ?s = g_threads s" "sched_current ?s = sched_current s" "phys_mem ?s = snd ?a"
    "g_current_thread ?s = g_current_thread s"
    by (simp_all add: outb_def)
  have "queue_rep ?s ts = queue_rep s ts" by (rule queue_rep_cong) (simp_all add: outb_def)
  then have ok: "sched_ok ?s ts k" using assms(1) same unfolding sched_ok_def by simp
  have c: "sched_current ?s = Some ?c" "?c < length (g_threads ?s)"
    using ok by (auto simp: sched_ok_def queue_rep_def)
  from scheduler_tick_sim [OF rr_of_ok(1) [OF ok]] obtain esp t where t: "scheduler_tick (fst ?a) ?s = Some (esp, t)" by blast
  from scheduler_tick_saves [OF t c] have "phys_mem t = snd ?a" "saved_context (g_threads t ! ?c) = fst ?a"
    using same by simp_all
  moreover have "irq0_timer_handler r s = Some (irq0_restore 0x10 esp (phys_mem t), t)"
    using t by (simp add: irq0_timer_handler_def split_beta)
  ultimately show ?thesis using interrupted_context [OF assms(2,3)] by simp
qed

theorem timer_preserves_interrupted_thread_witness:
  "\<exists>r' t. irq0_timer_handler sample_user_regs two_threads = Some (r', t)
    \<and> irq0_restore 0x23 (saved_context (g_threads t ! 0)) (phys_mem t) = sample_user_regs"
proof -
  have a: "aligned4 (tss_esp0 (g_tss two_threads))" "aligned4 (r_esp sample_user_regs)"
    by (simp_all add: sample_user_regs_def aligned4_def two_threads_def proc_reset_def intr_reset_def segs_reset_def
      proc.defs intr.defs segs.defs vmm.defs tss_zero_def)
  have "r_ss sample_user_regs = 0x23" by (simp add: sample_user_regs_def)
  then show ?thesis using timer_preserves_interrupted_thread [OF two_threads_ok a] by simp
qed

text \<open>
  When the next thread has no saved context, the switch is not undone, although the code's comment
  says so: the interrupted thread's context is returned, but the scheduler, the process table, the
  page directory and the kernel stack for ring 3 are already those of the other thread, so the
  interrupted thread goes on under the other's identity.
\<close>

theorem switch_without_context_not_reverted:
  assumes "n < length (g_threads s)" "saved_context (g_threads s ! n) = 0"
  shows "fst (switch_to ctx c n s) = ctx
    \<and> sched_current (snd (switch_to ctx c n s)) = Some n
    \<and> proc_current_thread (snd (switch_to ctx c n s)) = Some n
    \<and> tss_esp0 (g_tss (snd (switch_to ctx c n s))) = kernel_stack_top (g_threads s ! n)"
  using assms
  by (simp add: switch_to_def Let_def upd_thread_def debug_write_switches_def tss_set_esp0_def write_cr3_def
      proc_set_current_thread_def proc_current_thread_def split: option.split)

theorem switch_without_context_not_reverted_witness:
  "fst (switch_to 0x800FBC 0 2 two_threads) = 0x800FBC \<and> sched_current (snd (switch_to 0x800FBC 0 2 two_threads)) = Some 2"
  using switch_without_context_not_reverted [of 2 two_threads "0x800FBC" 0]
  by (simp add: two_threads_def thread_zero_def)

text \<open>
  A thread that exits when no other thread is ready is brought back: \<open>proc_exit\<close> marks it dead,
  but the next tick finds nobody to run, returns into the dead thread and marks it running again
  with a full quantum.
\<close>

theorem exited_thread_resurrected:
  assumes "sched_ok s ts k" "\<forall>j \<in> set ts. tstate (g_threads s ! j) \<noteq> THREAD_READY"
  shows "\<exists>t. scheduler_tick ctx (proc_exit code s) = Some (ctx, t) \<and> sched_current t = Some (ts ! k)
    \<and> tstate (g_threads t ! (ts ! k)) = THREAD_RUNNING \<and> quantum (g_threads t ! (ts ! k)) = SCHEDULER_QUANTUM"
proof -
  let ?c = "ts ! k" and ?s = "proc_exit code s"
  have q: "queue_rep s ts" "k < length ts" "sched_current s = Some ?c" "g_current_thread s = Some ?c"
    using assms(1) by (simp_all add: sched_ok_def)
  have len: "j < length (g_threads s)" if "j \<in> set ts" for j using q that by (simp add: queue_rep_def)
  have e: "?s = upd_thread ?c (\<lambda>th. th\<lparr>tstate := THREAD_DEAD\<rparr>) s" using q(4) by (simp add: proc_exit_def)
  let ?u = "tick_charge ctx ?c (syscall_tick_increment ?s)"
  have cur: "sched_current ?s = Some ?c" using q(3) unfolding e by (simp add: upd_thread_def)
  have qr: "queue_rep ?u ts" using q(1) by (simp add: e queue_rep_upd_thread)
  have c: "?c < length (g_threads s)" using len q(2) by simp
  have st: "tstate (g_threads ?u ! j) \<noteq> THREAD_READY" if j: "j \<in> set ts" for j
    using assms(2) j len [OF j] c unfolding e by (cases "j = ?c") (auto simp: tick_charge_def Let_def upd_thread_def)
  have "queue_next_ready (Some ?c) ?u = Some None"
    using rq.pick_nobody [OF qr q(2)] st by blast
  moreover have "tstate (g_threads ?u ! ?c) \<noteq> THREAD_READY" using st q(2) by simp
  ultimately have "scheduler_tick ctx ?s = Some (ctx, upd_thread ?c (\<lambda>t. t\<lparr>quantum := SCHEDULER_QUANTUM, tstate := THREAD_RUNNING\<rparr>) ?u)"
    unfolding scheduler_tick_unfold [OF cur] Let_def by simp
  moreover have "?c < length (g_threads ?u)" using c unfolding e by simp
  ultimately show ?thesis using cur by (simp add: upd_thread_def)
qed

theorem exited_thread_resurrected_witness:
  "\<exists>t. scheduler_tick 0x800FBC (proc_exit 0 (scheduler_init (proc_reset\<lparr>g_current_thread := Some 0\<rparr>))) = Some (0x800FBC, t)
    \<and> tstate (g_threads t ! 0) = THREAD_RUNNING"
proof -
  let ?s = "proc_reset\<lparr>g_current_thread := Some 0\<rparr>"
  have ok: "sched_ok (scheduler_init ?s) ([] @ [0]) (length ([] :: nat list))"
    by (rule scheduler_init_ok) (simp_all add: queue_rep_def proc_reset_def proc.defs intr.defs thread_zero_def)
  have "tstate (g_threads (scheduler_init ?s) ! 0) = THREAD_RUNNING"
    by (simp add: scheduler_init_def proc_current_thread_def queue_insert_def upd_thread_def set_next_def Let_def
        proc_reset_def proc.defs intr.defs)
  then show ?thesis using exited_thread_resurrected [OF ok, of "0x800FBC" 0] by auto
qed

end
