(* ===== verification/Process_Start.thy ===== *)
theory Process_Start
  imports Scheduler
begin

unbundle bit_operations_syntax

section \<open>A new process joins the queue\<close>

text \<open>
  What \<open>proc_create_kernel\<close> and \<open>proc_create_user\<close> do to the thread table and the scheduler's queue:
  both take an unused slot, fill it with a ready thread and append it; every other thread keeps its
  fields. \<open>thread_added s u f\<close> is the state just before the thread is queued.
\<close>

definition thread_added :: "'a proc_scheme \<Rightarrow> nat \<Rightarrow> 'b proc_scheme \<Rightarrow> bool" where
  "thread_added s u f \<longleftrightarrow> u < length (g_threads s) \<and> tid (g_threads s ! u) = 0
     \<and> (\<exists>th. g_threads f = (g_threads s)[u := th] \<and> quantum th = 5 \<and> tstate th = THREAD_READY \<and> tid th = g_next_tid s)
     \<and> g_next_tid f = g_next_tid s + 1 \<and> g_next_pid f = g_next_pid s + 1
     \<and> sched_queue_head f = sched_queue_head s \<and> sched_queue_tail f = sched_queue_tail s
     \<and> g_current_thread f = g_current_thread s"

lemma thread_added_queued:
  assumes A: "thread_added s u f" and q: "queue_rep s ts" and u: "u \<notin> set ts"
  defines "r \<equiv> scheduler_add_thread (Some u) f"
  shows "queue_rep r (ts @ [u])" "length (g_threads r) = length (g_threads s)" "g_current_thread r = g_current_thread s"
    "tid (g_threads r ! u) = g_next_tid s" "quantum (g_threads r ! u) = 5" "tstate (g_threads r ! u) = THREAD_READY"
    "j < length (g_threads s) \<Longrightarrow> j \<noteq> u \<Longrightarrow> thread_core (g_threads r ! j) = thread_core (g_threads s ! j)
       \<and> quantum (g_threads r ! j) = quantum (g_threads s ! j) \<and> tstate (g_threads r ! j) = tstate (g_threads s ! j)"
    "thread_core (g_threads r ! u) = thread_core (g_threads f ! u)"
    "g_next_tid r = g_next_tid s + 1" "g_next_pid r = g_next_pid s + 1" "g_processes r = g_processes f"
proof -
  from A obtain th where f: "g_threads f = (g_threads s)[u := th]" "quantum th = 5" "tstate th = THREAD_READY" "tid th = g_next_tid s"
    and s: "u < length (g_threads s)" "sched_queue_head f = sched_queue_head s" "sched_queue_tail f = sched_queue_tail s"
    "g_current_thread f = g_current_thread s" "g_next_tid f = g_next_tid s + 1" "g_next_pid f = g_next_pid s + 1"
    by (auto simp: thread_added_def)
  let ?g = "upd_thread u (\<lambda>t. t\<lparr>tstate := THREAD_READY\<rparr>) f"
  have r: "r = queue_insert (Some u) ?g" by (simp add: r_def scheduler_add_thread_def)
  have len: "length (g_threads ?g) = length (g_threads s)" by (simp add: f)
  have "queue_rep ?g ts"
  proof -
    have in_range: "\<forall>i \<in> set ts. i < length (g_threads s)" using q by (simp add: queue_rep_def)
    have nx: "next_of ?g (ts ! k) = next_of s (ts ! k)" if "k < length ts" for k
    proof -
      have "ts ! k \<noteq> u" using u nth_mem [OF that] by metis
      then show ?thesis by (simp add: next_of_def upd_thread_def f(1))
    qed
    have "sched_queue_head ?g = sched_queue_head s" "sched_queue_tail ?g = sched_queue_tail s"
      using s(2,3) by (simp_all add: upd_thread_def)
    then show ?thesis using q in_range nx len by (simp add: queue_rep_def split: if_splits)
  qed
  then show "queue_rep r (ts @ [u])" unfolding r using s(1) u len by (intro queue_insert_rep) simp_all
  show lr: "length (g_threads r) = length (g_threads s)"
    unfolding r using map_eq_imp_length_eq [OF queue_insert_tables(1)] len by metis
  show "g_current_thread r = g_current_thread s" "g_next_tid r = g_next_tid s + 1" "g_next_pid r = g_next_pid s + 1"
    "g_processes r = g_processes f"
    unfolding r using s by (simp_all add: queue_insert_def set_next_def upd_thread_def Let_def split: option.split)
  have core: "thread_core (g_threads r ! j) = thread_core (g_threads f ! j)" if "j < length (g_threads s)" for j
    unfolding r_def using that by (intro thread_core_add_nth) (simp add: f(1))
  then show cu: "thread_core (g_threads r ! u) = thread_core (g_threads f ! u)" using s(1) by simp
  then show "tid (g_threads r ! u) = g_next_tid s" using f s(1) by (simp add: thread_core_def)
  have qt: "tstate (g_threads r ! j) = tstate (g_threads ?g ! j)" "quantum (g_threads r ! j) = quantum (g_threads ?g ! j)"
    if "j < length (g_threads s)" for j
    unfolding r using queue_insert_threads [of j ?g "Some u"] that len by simp_all
  then show "quantum (g_threads r ! u) = 5" "tstate (g_threads r ! u) = THREAD_READY"
    using s(1) f by (simp_all add: upd_thread_def)
  show "thread_core (g_threads r ! j) = thread_core (g_threads s ! j)
       \<and> quantum (g_threads r ! j) = quantum (g_threads s ! j) \<and> tstate (g_threads r ! j) = tstate (g_threads s ! j)"
    if "j < length (g_threads s)" "j \<noteq> u"
    using core [OF that(1)] qt [OF that(1)] that by (simp add: upd_thread_def f(1))
qed

text \<open>The kernel thread's frame: what starts it survives any change outside its stack's page.\<close>

lemma kernel_restore_same_page:
  assumes k: "page k" and out: "same_outside P m m'" "k \<notin> P"
  shows "r_eip (irq0_restore ss (k + PAGE_SIZE - 68) m') = r_eip (irq0_restore ss (k + PAGE_SIZE - 68) m)"
    and "r_cs (irq0_restore ss (k + PAGE_SIZE - 68) m') = r_cs (irq0_restore ss (k + PAGE_SIZE - 68) m)"
proof -
  have "load32 m' (k + PAGE_SIZE - 68 + 4 * of_nat j) = load32 m (k + PAGE_SIZE - 68 + 4 * of_nat j)" if "j < 17" for j
  proof -
    have u: "unat (of_nat (1007 + j) :: u32) < 1024" using that by (subst unat_of_nat_u32) simp_all
    have a: "k + PAGE_SIZE - 68 + 4 * of_nat j = k + 4 * of_nat (1007 + j)" by (simp add: const_defs algebra_simps)
    show ?thesis using read_entry_outside [OF out(1) k u out(2)] unfolding a read_entry_def .
  qed
  then show "r_eip (irq0_restore ss (k + PAGE_SIZE - 68) m') = r_eip (irq0_restore ss (k + PAGE_SIZE - 68) m)"
    and "r_cs (irq0_restore ss (k + PAGE_SIZE - 68) m') = r_cs (irq0_restore ss (k + PAGE_SIZE - 68) m)"
    unfolding irq0_restore_def Let_def by (simp_all only: cpu_regs.simps rel_simps)
qed

text \<open>What \<open>proc_create_kernel\<close> gives its process.\<close>

lemma proc_create_kernel_result:
  fixes s :: "'a proc_scheme"
  assumes wf: "pmm_wf s" and K: "dir_ok (phys_mem s) (free_addrs s) (g_kernel_dir s)" and room: "2 \<le> card (free_addrs s)"
    and p: "find_slot (\<lambda>q. \<not> active q) (g_processes s) = Some p" and th: "\<exists>th \<in> set (g_threads s). tid th = 0"
  obtains u f k where "proc_create_kernel name entry s = (Some p, scheduler_add_thread (Some u) f)" "thread_added s u f"
    "g_processes f = (g_processes s)[p := \<lparr>pid = g_next_pid s, pname = copy_name name, p_privilege = PRIVILEGE_KERNEL,
       page_dir = g_kernel_dir s, main_thread = Some u, active = True\<rparr>]"
    "saved_context (g_threads f ! u) = k + PAGE_SIZE - 68" "page k" "k \<in> free_addrs s" "free_addrs f = free_addrs s - {k}"
    "pmm_wf f" "g_kernel_dir f = g_kernel_dir s" "phys_mem f = snd (setup_kernel_stack (k + PAGE_SIZE) entry (phys_mem s))"
    "dir_ok (phys_mem f) (free_addrs f) (g_kernel_dir f)"
    "\<And>w. page_walk (phys_mem f) (g_kernel_dir f) w = page_walk (phys_mem s) (g_kernel_dir f) w"
proof -
  have pl: "p < length (g_processes s)" using find_slot_Some [OF p] by simp
  define s1 where "s1 = s\<lparr>g_processes := (g_processes s)[p := \<lparr>pid = g_next_pid s, pname = copy_name name,
      p_privilege = PRIVILEGE_KERNEL, page_dir = g_kernel_dir s, main_thread = None, active = True\<rparr>], g_next_pid := g_next_pid s + 1\<rparr>"
  define s0 where "s0 = snd (alloc_process s)"
  have a: "alloc_process s = (Some p, s0)" using p by (simp add: s0_def alloc_process_def Let_def)
  have s1': "upd_process p (\<lambda>q. q\<lparr>page_dir := vmm_get_kernel_directory
        (upd_process p (\<lambda>q. q\<lparr>p_privilege := PRIVILEGE_KERNEL\<rparr>) (upd_process p (\<lambda>q. q\<lparr>pname := copy_name name\<rparr>) s0))\<rparr>)
      (upd_process p (\<lambda>q. q\<lparr>p_privilege := PRIVILEGE_KERNEL\<rparr>) (upd_process p (\<lambda>q. q\<lparr>pname := copy_name name\<rparr>) s0)) = s1"
    using p pl by (simp add: s0_def s1_def alloc_process_def upd_process_def Let_def process_zero_def vmm_get_kernel_directory_def)
  have m1: "mem_part s1 = mem_part s" "g_threads s1 = g_threads s" by (simp_all add: s1_def mem_part_def)
  obtain u where t: "alloc_thread s1 = (Some u, take_thread_slot u s1)" and u: "u < length (g_threads s)"
    using alloc_thread_Some [of s1] th m1 by metis
  have tu: "tid (g_threads s ! u) = 0"
    using t find_slot_Some [of _ "g_threads s1"] m1(2) by (fastforce simp: alloc_thread_def split: option.splits)
  define s2 where "s2 = upd_thread u (\<lambda>th. th\<lparr>t_pid := pid (g_processes (take_thread_slot u s1) ! p), t_privilege := PRIVILEGE_KERNEL,
      quantum := 5, tstate := THREAD_READY\<rparr>) (take_thread_slot u s1)"
  have m2: "mem_part s2 = mem_part s" using mem_part_tables(4) [of s1] t m1 by (simp add: s2_def)
  note m = mem_part_fields [OF m2]
  define th' where "th' = \<lparr>tid = g_next_tid s, t_pid = g_next_pid s, tstate = THREAD_READY, t_privilege = PRIVILEGE_KERNEL,
      kernel_stack_top = 0, kernel_stack_base = 0, user_stack_top = 0, saved_context = 0, quantum = 5, t_next = None\<rparr>"
  have s2: "s2 = s1\<lparr>g_threads := (g_threads s)[u := th'], g_next_tid := g_next_tid s + 1\<rparr>"
    using u pl by (simp add: s2_def take_thread_slot_def upd_thread_def Let_def thread_zero_def s1_def th'_def)
  have g: "g_threads s2 = (g_threads s)[u := th']" "g_processes s2 = g_processes s1" "g_next_tid s2 = g_next_tid s + 1"
    "sched_queue_head s2 = sched_queue_head s" "sched_queue_tail s2 = sched_queue_tail s" "g_current_thread s2 = g_current_thread s"
    "g_next_pid s2 = g_next_pid s + 1"
    by (simp_all add: s2 s1_def)
  let ?vs = "[0x202, 0x08, entry, 0, 0, 0, 0, 0, 0, 0, 0, 0, 0, 0x10, 0x10, 0x10, 0x10] :: u32 list"
  have ok2: "pmm_wf s2" "dir_ok (phys_mem s2) (free_addrs s2) (g_kernel_dir s)" "2 \<le> card (free_addrs s2)" "u < length (g_threads s2)"
    using wf K room m u g(1) by simp_all
  define k where "k = fst (pmm_alloc_frame s2)"
  note G = kernel_stack_given [OF ok2, of ?vs, folded k_def, folded setup_kernel_stack_push, simplified]
  define s3 where "s3 = give_kernel_stack u (\<lambda>stk. setup_kernel_stack stk entry) s2"
  note G = G [folded s3_def]
  define f where "f = upd_process p (\<lambda>q. q\<lparr>main_thread := Some u\<rparr>) s3"
  have run: "proc_create_kernel name entry s = (Some p, scheduler_add_thread (Some u) f)"
    unfolding proc_create_kernel_def a prod.case option.case Let_def s1' t s2_def [symmetric] s3_def [symmetric] f_def [symmetric] ..
  have mf: "mem_part f = mem_part s3" by (simp add: f_def)
  note mf = mem_part_fields [OF mf]
  have q3: "sched_queue_head s3 = sched_queue_head s2" "sched_queue_tail s3 = sched_queue_tail s2"
    "g_current_thread s3 = g_current_thread s2" "g_next_tid s3 = g_next_tid s2" "g_next_pid s3 = g_next_pid s2"
    using proc_part_fields [of "snd (pmm_alloc_frame s2)" s2]
    by (simp_all add: s3_def give_kernel_stack_def Let_def split_beta upd_thread_def)
  have "thread_added s u f"
    using u tu G(8) g q3 by (auto simp: thread_added_def f_def upd_process_def th'_def)
  moreover have "g_processes f = (g_processes s)[p := \<lparr>pid = g_next_pid s, pname = copy_name name, p_privilege = PRIVILEGE_KERNEL,
       page_dir = g_kernel_dir s, main_thread = Some u, active = True\<rparr>]"
    using pl by (simp add: f_def upd_process_def G(9) g(2) s1_def)
  moreover have "saved_context (g_threads f ! u) = k + PAGE_SIZE - 68"
    using G(8) u g(1) by (simp add: f_def)
  moreover have "g_kernel_dir f = g_kernel_dir s" using mf G(10) m by simp
  moreover have "phys_mem f = snd (setup_kernel_stack (k + PAGE_SIZE) entry (phys_mem s))"
    using mf G(7) m by (simp add: setup_kernel_stack_def)
  ultimately show ?thesis
    using that [OF run] G(1-6) mf m by simp
qed

lemma kernel_stack_threads:
  assumes "t < length (g_threads s)"
  shows "g_threads (give_kernel_stack t f s) = (g_threads s)[t := (g_threads s ! t)\<lparr>kernel_stack_base := fst (pmm_alloc_frame s),
    kernel_stack_top := fst (pmm_alloc_frame s) + PAGE_SIZE, saved_context := saved_context (g_threads (give_kernel_stack t f s) ! t)\<rparr>]"
proof -
  have "g_threads (snd (pmm_alloc_frame s)) = g_threads s" using proc_part_fields [of "snd (pmm_alloc_frame s)" s] by simp
  then show ?thesis using assms by (simp add: give_kernel_stack_def Let_def split_beta upd_thread_def)
qed

text \<open>What \<open>proc_create_user\<close>, when it succeeds, does to the tables.\<close>

lemma proc_create_user_added:
  fixes s :: "'a proc_scheme"
  assumes ok: "fst (proc_create_user name phys sz entry s) = Some p"
  obtains u f where "snd (proc_create_user name phys sz entry s) = scheduler_add_thread (Some u) f" "thread_added s u f"
    "main_thread (g_processes f ! p) = Some u" "length (g_processes f) = length (g_processes s)"
    "\<And>j. j \<noteq> p \<Longrightarrow> g_processes f ! j = g_processes s ! j"
proof -
  let ?s0 = "print_image phys sz entry s"
  note p0 = proc_part_fields [OF print_image_part(1), of phys sz entry s]
  obtain r s1 where a: "alloc_process ?s0 = (r, s1)" by fastforce
  with ok have r: "r = Some p" by (cases r) (auto simp: proc_create_user_def Let_def split: prod.splits option.splits if_splits)
  define s2 where "s2 = upd_process p (\<lambda>q. q\<lparr>p_privilege := PRIVILEGE_USER\<rparr>) (upd_process p (\<lambda>q. q\<lparr>pname := copy_name name\<rparr>) s1)"
  obtain d s3 where c: "vmm_create_directory s2 = (d, s3)" by fastforce
  define s4 where "s4 = upd_process p (\<lambda>q. q\<lparr>page_dir := d\<rparr>) s3"
  define s5 where "s5 = map_code d (page_base entry) (page_base phys) (unat ((sz + PAGE_SIZE - 1) div PAGE_SIZE)) s4"
  obtain mapped s6 where m: "map_stack d (USER_STACK_TOP - USER_STACK_SIZE) 0 (unat (USER_STACK_SIZE div PAGE_SIZE)) s5 = (mapped, s6)"
    by fastforce
  obtain t s7 where th: "alloc_thread s6 = (t, s7)" by fastforce
  note steps = a r s2_def [symmetric] c s4_def [symmetric] s5_def [symmetric] m th
  have d: "d \<noteq> 0" and mapped: "mapped" and "t \<noteq> None"
    using ok by (auto simp: proc_create_user_def Let_def steps split: if_splits option.splits)
  then obtain u where u: "t = Some u" by blast
  define s8 where "s8 = upd_thread u (\<lambda>th. th\<lparr>t_pid := pid (g_processes s7 ! p), t_privilege := PRIVILEGE_USER,
                  quantum := 5, tstate := THREAD_READY, user_stack_top := USER_STACK_TOP\<rparr>) s7"
  define s9 where "s9 = give_kernel_stack u (\<lambda>stk. setup_user_stack stk entry (USER_STACK_TOP - 4)) s8"
  define f where "f = map_thunk d (upd_process p (\<lambda>q. q\<lparr>main_thread := Some u\<rparr>) s9)"
  have run: "snd (proc_create_user name phys sz entry s) = scheduler_add_thread (Some u) f"
    using d mapped unfolding proc_create_user_def Let_def steps prod.case option.case u s8_def [symmetric] s9_def [symmetric]
      f_def [symmetric] by simp
  have i: "p < length (g_processes s)" "s1 = (upd_process p (\<lambda>_. process_zero\<lparr>active := True, pid := g_next_pid s\<rparr>) ?s0)\<lparr>g_next_pid := g_next_pid s + 1\<rparr>"
  proof -
    have fs: "find_slot (\<lambda>q. \<not> active q) (g_processes s) = Some p"
      using a r p0 by (auto simp: alloc_process_def Let_def split: option.splits)
    show i: "p < length (g_processes s)" using find_slot_Some [OF fs] by simp
    show "s1 = (upd_process p (\<lambda>_. process_zero\<lparr>active := True, pid := g_next_pid s\<rparr>) ?s0)\<lparr>g_next_pid := g_next_pid s + 1\<rparr>"
      using a r p0 fs i by (auto simp: alloc_process_def upd_process_def Let_def)
  qed
  have "proc_part s3 = proc_part s2" using proc_part_create_directory [of s2] c by simp
  note p3 = proc_part_fields [OF this]
  have "proc_part s6 = proc_part s4" using map_stack_part [of d _ 0 _ s5] m by (metis map_code_part s5_def snd_conv)
  note p6 = proc_part_fields [OF this]
  have q6: "g_threads s6 = g_threads s" "g_next_tid s6 = g_next_tid s" "g_next_pid s6 = g_next_pid s + 1"
    "sched_queue_head s6 = sched_queue_head s" "sched_queue_tail s6 = sched_queue_tail s" "g_current_thread s6 = g_current_thread s"
    "length (g_processes s6) = length (g_processes s)" "j \<noteq> p \<Longrightarrow> g_processes s6 ! j = g_processes s ! j" for j
    using p0 p3 p6 i(2) by (simp_all add: s4_def s2_def upd_process_def)
  have t7: "s7 = take_thread_slot u s6" "u < length (g_threads s)" "tid (g_threads s ! u) = 0"
    using th u q6(1) find_slot_Some [of _ "g_threads s6"] by (fastforce simp: alloc_thread_def split: option.splits)+
  have s8: "g_threads s8 = (g_threads s)[u := g_threads s8 ! u]" "quantum (g_threads s8 ! u) = 5" "tstate (g_threads s8 ! u) = THREAD_READY"
    "tid (g_threads s8 ! u) = g_next_tid s" "g_next_tid s8 = g_next_tid s + 1" "g_processes s8 = g_processes s6"
    "g_next_pid s8 = g_next_pid s6" "sched_queue_head s8 = sched_queue_head s6" "sched_queue_tail s8 = sched_queue_tail s6"
    "g_current_thread s8 = g_current_thread s6"
    using t7(2) q6(1,2) by (simp_all add: s8_def t7(1) take_thread_slot_def upd_thread_def Let_def thread_zero_def)
  have "thread_added s u s9 \<and> g_processes s9 = g_processes s8"
  proof -
    note pa = proc_part_fields [of "snd (pmm_alloc_frame s8)" s8, simplified]
    have u8: "u < length (g_threads s8)" using t7(2) by (subst s8(1)) simp
    obtain th where th: "g_threads s9 = (g_threads s8)[u := th]" "quantum th = quantum (g_threads s8 ! u)"
      "tstate th = tstate (g_threads s8 ! u)" "tid th = tid (g_threads s8 ! u)"
    proof (rule that)
      show "g_threads s9 = (g_threads s8)[u := (g_threads s8 ! u)\<lparr>kernel_stack_base := fst (pmm_alloc_frame s8),
          kernel_stack_top := fst (pmm_alloc_frame s8) + PAGE_SIZE, saved_context := saved_context (g_threads s9 ! u)\<rparr>]"
        unfolding s9_def by (rule kernel_stack_threads [OF u8])
    qed simp_all
    have "g_threads s9 = (g_threads s)[u := th]" unfolding th(1) by (subst s8(1)) simp
    then have t9: "\<exists>th. g_threads s9 = (g_threads s)[u := th] \<and> quantum th = 5 \<and> tstate th = THREAD_READY \<and> tid th = g_next_tid s"
      using th s8(2-4) by auto
    have "g_next_tid s9 = g_next_tid s8" "g_next_pid s9 = g_next_pid s8" "sched_queue_head s9 = sched_queue_head s8"
      "sched_queue_tail s9 = sched_queue_tail s8" "g_current_thread s9 = g_current_thread s8" "g_processes s9 = g_processes s8"
      using pa by (simp_all add: s9_def give_kernel_stack_def Let_def split_beta upd_thread_def)
    then show ?thesis using t9 t7(2,3) s8 q6 by (simp add: thread_added_def)
  qed
  moreover note pf = proc_part_fields [OF map_thunk_part, of d "upd_process p (\<lambda>q. q\<lparr>main_thread := Some u\<rparr>) s9", folded f_def]
  ultimately have "thread_added s u f" "g_processes f = (g_processes s6)[p := (g_processes s6 ! p)\<lparr>main_thread := Some u\<rparr>]"
    using s8(6) by (simp_all add: thread_added_def upd_process_def)
  then show ?thesis using that [OF run] q6(7,8) i(1) by simp
qed

subsection \<open>Properties\<close>

lemma dir_kept:
  assumes "dir_ok m F d" "same_outside F m m'"
  shows "translate m' d w = translate m d w"
  using dir_ok_outside(1) [OF assms subset_refl, of w] by (simp add: translate_def)

text \<open>
  C3: Creating a user process leaves what is in use alone: it writes only to frames that were free, and
  every address space that stands on frames in use, the kernel's and those of the other processes,
  translates every address as before to bytes that are as before.
\<close>

theorem proc_create_user_leaves_others_alone:
  fixes s :: "'a proc_scheme" and entry phys sz :: u32 and name :: string
  assumes "pmm_wf s" "dir_ok (phys_mem s) (free_addrs s) (g_kernel_dir s)"
    and "find_slot (\<lambda>q. \<not> active q) (g_processes s) = Some p" "\<exists>th \<in> set (g_threads s). tid th = 0"
    and "card {i. pde_at (phys_mem s) (g_kernel_dir s) i} + unat ((sz + 4095) div 4096) + 36 \<le> card (free_addrs s)"
    and "unat (page_base entry) + 4096 * unat ((sz + 4095) div 4096) < 4294967296"
    and "dir_ok (phys_mem s) (free_addrs s) d"
  defines "r \<equiv> snd (proc_create_user name phys sz entry s)"
  shows "translate (phys_mem r) d w = translate (phys_mem s) d w
    \<and> (translate (phys_mem s) d w = Some a \<longrightarrow> page_base a \<notin> free_addrs s \<longrightarrow> phys_mem r a = phys_mem s a)
    \<and> free_addrs r \<subseteq> free_addrs s \<and> pmm_wf r"
proof -
  have out: "same_outside (free_addrs s) (phys_mem s) (phys_mem r)" "free_addrs r \<subseteq> free_addrs s" "pmm_wf r"
    using proc_create_user_space [OF assms(1-6), of name phys] by (simp_all add: r_def)
  then show ?thesis using dir_kept [OF assms(7) out(1)] by (simp add: same_outside_def)
qed

theorem proc_create_user_leaves_others_alone_witness:
  "translate (phys_mem (snd (proc_create_user ''gui_user'' 0x107000 0x2000 0x400000 proc_booted))) (g_kernel_dir proc_booted) 0x1000
    = translate (phys_mem proc_booted) (g_kernel_dir proc_booted) 0x1000"
proof -
  have "card {i. pde_at (phys_mem proc_booted) (g_kernel_dir proc_booted) i} + unat ((0x2000 + 4095 :: u32) div 4096) + 36
      \<le> card (free_addrs proc_booted)"
    using proc_booted_ok(3,6) by simp
  from proc_create_user_leaves_others_alone [OF proc_booted_ok(1,2,4,5) this _ proc_booted_ok(2), of "0x400000" "''gui_user''" "0x107000"
      "0x1000" 0]
  show ?thesis by (simp add: page_base_def)
qed

end
