(* ===== verification/Io_Manager.thy ===== *)
theory Io_Manager
  imports Threads
begin

unbundle bit_operations_syntax

section \<open>Driver and device objects\<close>

text \<open>
  Models \<open>drivers/framework/io_manager.c\<close> and \<open>drivers/framework/device.c\<close>. Objects come from
  \<open>malloc\<close> and are named by their addresses; the memory that holds them is split by type into the
  maps \<open>io_drivers\<close>, \<open>io_devices\<close> and \<open>io_exts\<close>. Because \<open>free\<close> does nothing, an object's map
  entry survives its deletion, as its bytes do in the program. The only device extension of the
  sources is the VGA driver's, so the extension map has that type. A wide string's buffer is the
  list of its 16-bit characters, \<open>None\<close> when its pointer is null.

  A pointer to a list link (\<open>&Driver->DeviceObject\<close>, \<open>&(*Current)->NextDevice\<close>) is a value of
  type \<open>slot\<close>. The loops over the lists end only at a null link, so they are partial functions;
  over a list without cycles (\<open>chain\<close>) they are shown to return. A driver's routines are called
  through their addresses: the functions \<open>init\<close> and \<open>unload\<close> say what the code at an address does.
\<close>

subsection \<open>Data\<close>

type_synonym ntstatus = u32

definition STATUS_SUCCESS :: ntstatus where [const_defs]: "STATUS_SUCCESS = 0"
definition STATUS_INSUFFICIENT_RESOURCES :: ntstatus where
  [const_defs]: "STATUS_INSUFFICIENT_RESOURCES = 0xC000009A"
definition STATUS_INVALID_PARAMETER :: ntstatus where
  [const_defs]: "STATUS_INVALID_PARAMETER = 0xC000000D"
definition STATUS_DEVICE_DOES_NOT_EXIST :: ntstatus where
  [const_defs]: "STATUS_DEVICE_DOES_NOT_EXIST = 0xC00000C0"

definition NT_SUCCESS :: "ntstatus \<Rightarrow> bool" where
  "NT_SUCCESS status \<longleftrightarrow> 0 \<le> sint status"

record unicode_string =
  us_Length :: u16
  us_MaximumLength :: u16
  us_Buffer :: "u16 list option"

record driver_object =
  DriverName :: unicode_string
  DeviceObject :: u32
  MajorFunction :: "u32 list"
  DriverInit :: u32
  DriverUnload :: u32
  NextDriver :: u32
  DriverExtension :: u32

record device_object =
  DeviceType :: u32
  Characteristics :: u32
  DeviceExtension :: u32
  DeviceName :: unicode_string
  DriverObject :: u32
  NextDevice :: u32
  AttachedDevice :: u32
  Flags :: u32

record vga_device_extension =
  FrameBuffer :: u32
  ScreenWidth :: u32
  ScreenHeight :: u32
  BitsPerPixel :: u32
  GraphicsMode :: u8
  CurrentMode :: u8
  CurrentPalette :: "u8 list"

definition null_string :: unicode_string where
  "null_string = \<lparr>us_Length = 0, us_MaximumLength = 0, us_Buffer = None\<rparr>"

text \<open>The objects after \<open>memset(p, 0, sizeof *p)\<close>.\<close>

definition zero_driver :: driver_object where
  "zero_driver = \<lparr>DriverName = null_string, DeviceObject = 0, MajorFunction = replicate 28 0,
     DriverInit = 0, DriverUnload = 0, NextDriver = 0, DriverExtension = 0\<rparr>"

definition zero_device :: device_object where
  "zero_device = \<lparr>DeviceType = 0, Characteristics = 0, DeviceExtension = 0, DeviceName = null_string,
     DriverObject = 0, NextDevice = 0, AttachedDevice = 0, Flags = 0\<rparr>"

definition zero_extension :: vga_device_extension where
  "zero_extension = \<lparr>FrameBuffer = 0, ScreenWidth = 0, ScreenHeight = 0, BitsPerPixel = 0,
     GraphicsMode = 0, CurrentMode = 0, CurrentPalette = replicate 16 0\<rparr>"

definition sizeof_DRIVER_OBJECT :: u32 where [const_defs]: "sizeof_DRIVER_OBJECT = 140"
definition sizeof_DEVICE_OBJECT :: u32 where [const_defs]: "sizeof_DEVICE_OBJECT = 36"
definition sizeof_VGA_DEVICE_EXTENSION :: u32 where [const_defs]: "sizeof_VGA_DEVICE_EXTENSION = 36"

record io = proc +
  io_drivers :: "u32 \<Rightarrow> driver_object"
  io_devices :: "u32 \<Rightarrow> device_object"
  io_exts :: "u32 \<Rightarrow> vga_device_extension"
  g_DriverList :: u32
  g_DriverCount :: int
  g_IoInitialized :: bool

definition upd_driver :: "u32 \<Rightarrow> (driver_object \<Rightarrow> driver_object) \<Rightarrow> 'a io_scheme \<Rightarrow> 'a io_scheme" where
  "upd_driver p f s = s\<lparr>io_drivers := (io_drivers s)(p := f (io_drivers s p))\<rparr>"

definition upd_device :: "u32 \<Rightarrow> (device_object \<Rightarrow> device_object) \<Rightarrow> 'a io_scheme \<Rightarrow> 'a io_scheme" where
  "upd_device p f s = s\<lparr>io_devices := (io_devices s)(p := f (io_devices s p))\<rparr>"

subsection \<open>Links\<close>

datatype slot = Driver_List | Next_Driver u32 | Device_List u32 | Next_Device u32

fun get_slot :: "'a io_scheme \<Rightarrow> slot \<Rightarrow> u32" where
  "get_slot s Driver_List = g_DriverList s"
| "get_slot s (Next_Driver p) = NextDriver (io_drivers s p)"
| "get_slot s (Device_List p) = DeviceObject (io_drivers s p)"
| "get_slot s (Next_Device p) = NextDevice (io_devices s p)"

fun set_slot :: "slot \<Rightarrow> u32 \<Rightarrow> 'a io_scheme \<Rightarrow> 'a io_scheme" where
  "set_slot Driver_List v s = s\<lparr>g_DriverList := v\<rparr>"
| "set_slot (Next_Driver p) v s = upd_driver p (\<lambda>d. d\<lparr>NextDriver := v\<rparr>) s"
| "set_slot (Device_List p) v s = upd_driver p (\<lambda>d. d\<lparr>DeviceObject := v\<rparr>) s"
| "set_slot (Next_Device p) v s = upd_device p (\<lambda>d. d\<lparr>NextDevice := v\<rparr>) s"

text \<open>
  \<open>while (*Current) { if (*Current == obj) break; Current = &(*Current)->Next; }\<close>: the link that
  points to \<open>obj\<close>, if there is one. \<open>rd\<close> reads a link and \<open>nx\<close> is the next link of an object.
\<close>

partial_function (option) slot_of ::
  "(slot \<Rightarrow> u32) \<Rightarrow> (u32 \<Rightarrow> slot) \<Rightarrow> u32 \<Rightarrow> slot \<Rightarrow> slot option option" where
  "slot_of rd nx obj current =
     (if rd current = 0 then Some None
      else if rd current = obj then Some (Some current)
      else slot_of rd nx obj (nx (rd current)))"

subsection \<open>Devices\<close>

text \<open>
  The out-parameter \<open>DeviceObject\<close> is \<open>None\<close> for a null pointer and otherwise the variable it
  points to, whose new value is in the result.
\<close>

definition IoCreateDevice ::
  "u32 \<Rightarrow> u32 \<Rightarrow> unicode_string option \<Rightarrow> u32 \<Rightarrow> u32 \<Rightarrow> bool \<Rightarrow> u32 option
    \<Rightarrow> 'a io_scheme \<Rightarrow> ntstatus \<times> u32 option \<times> 'a io_scheme" where
  "IoCreateDevice driver ext_size name dev_type chars exclusive out s =
     (if driver = 0 \<or> out = None then (STATUS_INVALID_PARAMETER, out, s)
      else let (device, s) = malloc sizeof_DEVICE_OBJECT s in
        if device = 0 then (STATUS_INSUFFICIENT_RESOURCES, out, s)
        else let s = upd_device device (\<lambda>_. zero_device) s;
                 (ext, s) = (if ext_size > 0 then malloc ext_size s else (0, s)) in
          if ext_size > 0 \<and> ext = 0 then (STATUS_INSUFFICIENT_RESOURCES, out, heap_free device s)
          else let s = (if ext_size > 0 then s\<lparr>io_exts := (io_exts s)(ext := zero_extension)\<rparr> else s);
                   s = upd_device device (\<lambda>d. d\<lparr>DeviceExtension := ext, DriverObject := driver,
                         DeviceType := dev_type, Characteristics := chars, Flags := 0,
                         AttachedDevice := 0, NextDevice := 0,
                         DeviceName := (case name of
                            Some n \<Rightarrow> if us_Buffer n \<noteq> None then n else null_string
                          | None \<Rightarrow> null_string)\<rparr>) s;
                   s = upd_device device (\<lambda>d. d\<lparr>NextDevice := DeviceObject (io_drivers s driver)\<rparr>) s;
                   s = upd_driver driver (\<lambda>d. d\<lparr>DeviceObject := device\<rparr>) s
               in (STATUS_SUCCESS, Some device, s))"

definition IoDeleteDevice :: "u32 \<Rightarrow> 'a io_scheme \<Rightarrow> 'a io_scheme option" where
  "IoDeleteDevice device s =
     (if device = 0 then Some s
      else let driver = DriverObject (io_devices s device);
               unlinked =
                 (if driver = 0 then Some s
                  else case slot_of (get_slot s) Next_Device device (Device_List driver) of
                         None \<Rightarrow> None
                       | Some None \<Rightarrow> Some s
                       | Some (Some current) \<Rightarrow> Some (set_slot current (NextDevice (io_devices s device)) s))
           in case unlinked of
                None \<Rightarrow> None
              | Some s \<Rightarrow>
                  (let s = (if DeviceExtension (io_devices s device) \<noteq> 0
                            then heap_free (DeviceExtension (io_devices s device)) s else s)
                   in Some (heap_free device s)))"

definition IopCreateDevice ::
  "u32 \<Rightarrow> u32 \<Rightarrow> unicode_string option \<Rightarrow> u32 \<Rightarrow> u32 \<Rightarrow> bool \<Rightarrow> u32 option
    \<Rightarrow> 'a io_scheme \<Rightarrow> ntstatus \<times> u32 option \<times> 'a io_scheme" where
  "IopCreateDevice driver ext_size name dev_type chars exclusive out s =
     IoCreateDevice driver ext_size name dev_type chars exclusive out s"

definition IopDeleteDevice :: "u32 \<Rightarrow> 'a io_scheme \<Rightarrow> 'a io_scheme option" where
  "IopDeleteDevice device s = IoDeleteDevice device s"

subsection \<open>Drivers\<close>

definition IoInitSystem :: "'a io_scheme \<Rightarrow> ntstatus \<times> 'a io_scheme" where
  "IoInitSystem s =
     (if g_IoInitialized s then (STATUS_SUCCESS, s)
      else (STATUS_SUCCESS, s\<lparr>g_DriverList := 0, g_DriverCount := 0, g_IoInitialized := True\<rparr>))"

definition IoCreateDriver ::
  "(u32 \<Rightarrow> u32 \<Rightarrow> unicode_string \<Rightarrow> 'a io_scheme \<Rightarrow> (ntstatus \<times> 'a io_scheme) option)
    \<Rightarrow> unicode_string option \<Rightarrow> u32 \<Rightarrow> 'a io_scheme \<Rightarrow> (ntstatus \<times> 'a io_scheme) option" where
  "IoCreateDriver init name driver_init s =
     (case name of
        None \<Rightarrow> Some (STATUS_INVALID_PARAMETER, s)
      | Some driver_name \<Rightarrow>
          if driver_init = 0 then Some (STATUS_INVALID_PARAMETER, s)
          else let (driver, s) = malloc sizeof_DRIVER_OBJECT s in
            if driver = 0 then Some (STATUS_INSUFFICIENT_RESOURCES, s)
            else let s = upd_driver driver (\<lambda>_. zero_driver) s;
                     s = upd_driver driver (\<lambda>d. d\<lparr>DriverName := driver_name, DriverInit := driver_init,
                           DeviceObject := 0, NextDriver := 0, DriverUnload := 0\<rparr>) s
              in case init driver_init driver driver_name s of
                   None \<Rightarrow> None
                 | Some (status, s) \<Rightarrow>
                     if \<not> NT_SUCCESS status then Some (status, heap_free driver s)
                     else (let s = upd_driver driver (\<lambda>d. d\<lparr>NextDriver := g_DriverList s\<rparr>) s
                           in Some (STATUS_SUCCESS,
                                s\<lparr>g_DriverList := driver, g_DriverCount := g_DriverCount s + 1\<rparr>)))"

text \<open>\<open>while (Device) { Next = Device->NextDevice; IoDeleteDevice(Device); Device = Next; }\<close>\<close>

partial_function (option) delete_devices :: "u32 \<Rightarrow> 'a io_scheme \<Rightarrow> 'a io_scheme option" where
  "delete_devices device s =
     (if device = 0 then Some s
      else case IoDeleteDevice device s of
             None \<Rightarrow> None
           | Some s' \<Rightarrow> delete_devices (NextDevice (io_devices s device)) s')"

definition IoDeleteDriver ::
  "(u32 \<Rightarrow> u32 \<Rightarrow> 'a io_scheme \<Rightarrow> 'a io_scheme option) \<Rightarrow> u32 \<Rightarrow> 'a io_scheme \<Rightarrow> 'a io_scheme option" where
  "IoDeleteDriver unload driver s =
     (if driver = 0 then Some s
      else case delete_devices (DeviceObject (io_drivers s driver)) s of
        None \<Rightarrow> None
      | Some s \<Rightarrow>
          (case slot_of (get_slot s) Next_Driver driver Driver_List of
             None \<Rightarrow> None
           | Some link \<Rightarrow>
               (let s = (case link of
                      None \<Rightarrow> s
                    | Some current \<Rightarrow>
                        (set_slot current (NextDriver (io_drivers s driver)) s)
                          \<lparr>g_DriverCount := g_DriverCount s - 1\<rparr>);
                    code = DriverUnload (io_drivers s driver);
                    unloaded = (if code \<noteq> 0 then unload code driver s else Some s)
                in case unloaded of None \<Rightarrow> None | Some s \<Rightarrow> Some (heap_free driver s))))"

subsection \<open>Finding a device by name\<close>

function compare_from :: "u16 list \<Rightarrow> u16 list \<Rightarrow> nat \<Rightarrow> nat \<Rightarrow> int" where
  "compare_from b1 b2 minlen i =
     (if i < minlen then
        if b1 ! i \<noteq> b2 ! i then (if b1 ! i < b2 ! i then -1 else 1)
        else compare_from b1 b2 minlen (i + 1)
      else 0)"
  by pat_completeness auto
termination by (relation "measure (\<lambda>(b1, b2, minlen, i). minlen - i)") auto

declare compare_from.simps [simp del]

definition RtlCompareUnicodeString ::
  "unicode_string option \<Rightarrow> unicode_string option \<Rightarrow> bool \<Rightarrow> int" where
  "RtlCompareUnicodeString string1 string2 case_insensitive =
     (case (string1, string2) of
        (Some s1, Some s2) \<Rightarrow>
          (case (us_Buffer s1, us_Buffer s2) of
             (Some b1, Some b2) \<Rightarrow>
               (let len1 = unat (us_Length s1) div 2; len2 = unat (us_Length s2) div 2;
                    minlen = (if len1 < len2 then len1 else len2);
                    diff = compare_from b1 b2 minlen 0
                in if diff \<noteq> 0 then diff
                   else if len1 = len2 then 0 else if len1 < len2 then -1 else 1)
           | (b1, b2) \<Rightarrow> if b1 = None \<and> b2 = None then 0 else if b1 \<noteq> None then 1 else -1)
      | (s1, s2) \<Rightarrow> if s1 = None \<and> s2 = None then 0 else if s1 \<noteq> None then 1 else -1)"

partial_function (option) find_device :: "'a io_scheme \<Rightarrow> unicode_string \<Rightarrow> u32 \<Rightarrow> u32 option option" where
  "find_device s name device =
     (if device = 0 then Some None
      else if us_Buffer (DeviceName (io_devices s device)) \<noteq> None \<and> us_Buffer name \<noteq> None
        \<and> RtlCompareUnicodeString (Some (DeviceName (io_devices s device))) (Some name) False = 0
      then Some (Some device)
      else find_device s name (NextDevice (io_devices s device)))"

partial_function (option) find_driver_device :: "'a io_scheme \<Rightarrow> unicode_string \<Rightarrow> u32 \<Rightarrow> u32 option option" where
  "find_driver_device s name driver =
     (if driver = 0 then Some None
      else case find_device s name (DeviceObject (io_drivers s driver)) of
             None \<Rightarrow> None
           | Some (Some device) \<Rightarrow> Some (Some device)
           | Some None \<Rightarrow> find_driver_device s name (NextDriver (io_drivers s driver)))"

text \<open>The two out-parameters again as the variables they point to, \<open>None\<close> for null.\<close>

definition IoGetDeviceObjectPointer ::
  "unicode_string option \<Rightarrow> u32 \<Rightarrow> u32 option \<Rightarrow> u32 option \<Rightarrow> 'a io_scheme
    \<Rightarrow> (ntstatus \<times> u32 option \<times> u32 option) option" where
  "IoGetDeviceObjectPointer name desired_access file out s =
     (case (name, out) of
        (Some n, Some _) \<Rightarrow>
          (case find_driver_device s n (g_DriverList s) of
             None \<Rightarrow> None
           | Some (Some device) \<Rightarrow>
               Some (STATUS_SUCCESS, (case file of Some _ \<Rightarrow> Some 0 | None \<Rightarrow> None), Some device)
           | Some None \<Rightarrow> Some (STATUS_DEVICE_DOES_NOT_EXIST, file, out))
      | _ \<Rightarrow> Some (STATUS_INVALID_PARAMETER, file, out))"


subsection \<open>Lists of objects\<close>

text \<open>The link \<open>current\<close> starts the null-terminated list of the objects \<open>xs\<close>.\<close>

fun chain :: "(slot \<Rightarrow> u32) \<Rightarrow> (u32 \<Rightarrow> slot) \<Rightarrow> slot \<Rightarrow> u32 list \<Rightarrow> bool" where
  "chain rd nx current [] \<longleftrightarrow> rd current = 0"
| "chain rd nx current (x # xs) \<longleftrightarrow> x \<noteq> 0 \<and> rd current = x \<and> chain rd nx (nx x) xs"

definition link_to :: "(u32 \<Rightarrow> slot) \<Rightarrow> slot \<Rightarrow> u32 list \<Rightarrow> slot" where
  "link_to nx current us = (if us = [] then current else nx (last us))"

lemma slot_of_chain:
  "chain rd nx current (us @ x # vs) \<Longrightarrow> x \<notin> set us
    \<Longrightarrow> slot_of rd nx x current = Some (Some (link_to nx current us))"
proof (induction us arbitrary: current)
  case Nil
  then show ?case by (subst slot_of.simps) (simp add: link_to_def)
next
  case (Cons u us)
  then have "slot_of rd nx x (nx u) = Some (Some (link_to nx (nx u) us))" by simp
  with Cons.prems show ?case by (subst slot_of.simps) (auto simp: link_to_def)
qed

lemma slot_of_absent:
  "chain rd nx current xs \<Longrightarrow> x \<notin> set xs \<Longrightarrow> slot_of rd nx x current = Some None"
  by (induction xs arbitrary: current; subst slot_of.simps) auto

lemma chain_cong:
  assumes "rd current = rd' current" "\<And>x. x \<in> set xs \<Longrightarrow> rd (nx x) = rd' (nx x)"
  shows "chain rd nx current xs \<longleftrightarrow> chain rd' nx current xs"
  using assms by (induction xs arbitrary: current) auto

lemma chain_map: "chain rd nx current xs \<longleftrightarrow> map rd (current # map nx xs) = xs @ [0] \<and> 0 \<notin> set xs"
  by (induction xs arbitrary: current) auto

lemma links_snoc: "\<exists>ls. current # map nx us = ls @ [link_to nx current us]"
  by (cases us rule: rev_cases) (auto simp: link_to_def)

lemma chain_unlink:
  assumes ch: "chain rd nx current (us @ x # vs)" and dist: "distinct (us @ x # vs)"
    and nx: "inj nx" "current \<notin> range nx"
  shows "chain (rd(link_to nx current us := rd (nx x))) nx current (us @ vs)"
proof -
  let ?l = "link_to nx current us"
  obtain ls where ls: "current # map nx us = ls @ [?l]" using links_snoc by blast
  have links: "current # map nx (us @ x # vs) = ls @ ?l # nx x # map nx vs"
  proof -
    have "current # map nx (us @ x # vs) = (current # map nx us) @ nx x # map nx vs" by simp
    then show ?thesis unfolding ls by simp
  qed
  have "distinct (current # map nx (us @ x # vs))"
  proof -
    have "inj_on nx (set (us @ x # vs))" using nx(1) by (rule inj_on_subset) simp
    then have "distinct (map nx (us @ x # vs))" using dist by (simp only: distinct_map)
    moreover have "current \<notin> set (map nx (us @ x # vs))" using nx(2) by auto
    ultimately show ?thesis by (simp only: distinct.simps simp_thms)
  qed
  then have fresh: "?l \<notin> set ls" "?l \<notin> set (map nx vs)" unfolding links by auto
  have len: "length ls = length us" using arg_cong [OF ls, of length] by simp
  have "map rd (ls @ ?l # nx x # map nx vs) = us @ x # vs @ [0]"
    using ch unfolding chain_map links by simp
  then have parts: "map rd ls = us" "rd (nx x) # map rd (map nx vs) = vs @ [0]"
    using len by auto
  let ?rd = "rd(?l := rd (nx x))"
  have same: "map ?rd zs = map rd zs" if "?l \<notin> set zs" for zs
    using that by (intro map_cong [OF refl]) auto
  have "map ?rd ls = us" "map ?rd (map nx vs) = map rd (map nx vs)"
    using same [OF fresh(1)] same [OF fresh(2)] parts(1) by simp_all
  then have "map ?rd ((ls @ [?l]) @ map nx vs) = us @ rd (nx x) # map rd (map nx vs)"
    by (simp only: map_append list.map fun_upd_same append_assoc append_Cons append_Nil)
  then have "map ?rd ((ls @ [?l]) @ map nx vs) = us @ vs @ [0]"
    by (simp only: parts(2))
  moreover have "current # map nx (us @ vs) = (ls @ [?l]) @ map nx vs"
  proof -
    have "current # map nx (us @ vs) = (current # map nx us) @ map nx vs" by simp
    then show ?thesis unfolding ls .
  qed
  moreover have "0 \<notin> set (us @ vs)" using ch unfolding chain_map by simp
  ultimately show ?thesis unfolding chain_map by (metis append_assoc)
qed


text \<open>Writing a link changes that link only.\<close>

lemma get_slot_set_slot [simp]: "get_slot (set_slot c v s) = (get_slot s)(c := v)"
proof
  fix d show "get_slot (set_slot c v s) d = ((get_slot s)(c := v)) d"
    by (cases c; cases d) (auto simp: upd_driver_def upd_device_def)
qed

lemma get_slot_count: "get_slot (s\<lparr>g_DriverCount := n\<rparr>) = get_slot s"
proof
  fix d show "get_slot (s\<lparr>g_DriverCount := n\<rparr>) d = get_slot s d" by (cases d) simp_all
qed

lemma set_slot_fields [simp]:
  "DriverObject (io_devices (set_slot c v s) d) = DriverObject (io_devices s d)"
  "DeviceName (io_devices (set_slot c v s) d) = DeviceName (io_devices s d)"
  "DeviceExtension (io_devices (set_slot c v s) d) = DeviceExtension (io_devices s d)"
  "DriverUnload (io_drivers (set_slot c v s) p) = DriverUnload (io_drivers s p)"
  "heap_current (set_slot c v s) = heap_current s" "heap_end (set_slot c v s) = heap_end s"
  "g_DriverCount (set_slot c v s) = g_DriverCount s" "io_exts (set_slot c v s) = io_exts s"
  by (cases c; simp add: upd_driver_def upd_device_def)+

lemma set_slot_twice [simp]: "set_slot c v (set_slot c w s) = set_slot c v s"
  by (cases c) (simp_all add: upd_driver_def upd_device_def)

lemma set_slot_same [simp]: "set_slot c (get_slot s c) s = s"
  by (cases c) (simp_all add: upd_driver_def upd_device_def)

text \<open>
  \<open>device_list s driver ds\<close>: the driver's list holds the devices \<open>ds\<close>, all of them its own and
  allocated. \<open>driver_list s ps\<close>: the drivers registered, counted by \<open>g_DriverCount\<close>.
\<close>

definition device_list :: "'a io_scheme \<Rightarrow> u32 \<Rightarrow> u32 list \<Rightarrow> bool" where
  "device_list s driver ds \<longleftrightarrow> chain (get_slot s) Next_Device (Device_List driver) ds \<and> distinct ds
     \<and> (\<forall>d \<in> set ds. DriverObject (io_devices s d) = driver \<and> d < heap_current s)"

definition driver_list :: "'a io_scheme \<Rightarrow> u32 list \<Rightarrow> bool" where
  "driver_list s ps \<longleftrightarrow> chain (get_slot s) Next_Driver Driver_List ps \<and> distinct ps
     \<and> (\<forall>p \<in> set ps. p < heap_current s) \<and> g_DriverCount s = int (length ps)"

lemma slot_inj: "inj Next_Device" "inj Next_Driver" "Device_List p \<notin> range Next_Device" "Driver_List \<notin> range Next_Driver"
  by (auto simp: inj_def)

lemma chain_nonzero: "chain rd nx current xs \<Longrightarrow> x \<in> set xs \<Longrightarrow> x \<noteq> 0"
  unfolding chain_map by auto

lemma IoDeleteDevice_unlinks:
  assumes "device_list s driver (us @ d # vs)" "driver \<noteq> 0"
  shows "IoDeleteDevice d s
    = Some (set_slot (link_to Next_Device (Device_List driver) us) (NextDevice (io_devices s d)) s)"
    and "device_list (set_slot (link_to Next_Device (Device_List driver) us) (NextDevice (io_devices s d)) s)
      driver (us @ vs)"
proof -
  have ch: "chain (get_slot s) Next_Device (Device_List driver) (us @ d # vs)"
    and dist: "distinct (us @ d # vs)" and own: "DriverObject (io_devices s d) = driver"
    using assms(1) by (auto simp: device_list_def)
  have "d \<noteq> 0" using chain_nonzero [OF ch] by simp
  with slot_of_chain [OF ch] dist own assms(2) show "IoDeleteDevice d s
    = Some (set_slot (link_to Next_Device (Device_List driver) us) (NextDevice (io_devices s d)) s)"
    by (simp add: IoDeleteDevice_def heap_free_def)
  show "device_list (set_slot (link_to Next_Device (Device_List driver) us) (NextDevice (io_devices s d)) s)
      driver (us @ vs)"
    using chain_unlink [OF ch dist slot_inj(1,3)] assms(1) by (simp add: device_list_def)
qed

lemma delete_devices_all:
  assumes "device_list s driver ds" "driver \<noteq> 0"
  shows "delete_devices (get_slot s (Device_List driver)) s = Some (set_slot (Device_List driver) 0 s)"
  using assms(1)
proof (induction ds arbitrary: s)
  case Nil
  then have "get_slot s (Device_List driver) = 0" by (simp add: device_list_def)
  then show ?case using set_slot_same [of "Device_List driver" s] by (subst delete_devices.simps) simp
next
  case (Cons d ds)
  let ?s = "set_slot (Device_List driver) (NextDevice (io_devices s d)) s"
  note del = IoDeleteDevice_unlinks [of s driver "[]" d ds, OF _ assms(2), unfolded link_to_def, simplified]
  have list: "device_list s driver (d # ds)" by (rule Cons.prems)
  then have d: "get_slot s (Device_List driver) = d" "d \<noteq> 0" by (simp_all add: device_list_def)
  have step: "delete_devices d s = delete_devices (NextDevice (io_devices s d)) ?s"
    using d(2) del(1) [OF list] by (subst delete_devices.simps) simp
  have "delete_devices (get_slot ?s (Device_List driver)) ?s = Some (set_slot (Device_List driver) 0 ?s)"
    using Cons.IH del(2) [OF list] by simp
  then have "delete_devices (NextDevice (io_devices s d)) ?s = Some (set_slot (Device_List driver) 0 s)"
    by (simp only: get_slot_set_slot fun_upd_same set_slot_twice)
  with step d(1) show ?case by (simp only:)
qed

lemma device_list_unique: "device_list s p ds \<Longrightarrow> device_list s p ds' \<Longrightarrow> ds = ds'"
proof -
  have "chain rd nx c xs \<Longrightarrow> chain rd nx c ys \<Longrightarrow> xs = ys" for rd nx c xs ys
  proof (induction xs arbitrary: c ys)
    case Nil
    then show ?case by (cases ys) auto
  next
    case (Cons x xs)
    then show ?case by (cases ys) auto
  qed
  then show "device_list s p ds \<Longrightarrow> device_list s p ds' \<Longrightarrow> ds = ds'" by (auto simp: device_list_def)
qed


subsection \<open>Creating objects\<close>

text \<open>A heap below 3.5 GB, where the size check of \<open>malloc\<close> cannot wrap around.\<close>

definition heap_fits :: "'a kmem_scheme \<Rightarrow> bool" where
  "heap_fits s \<longleftrightarrow> heap_ok s \<and> unat (heap_end s) \<le> 0xE0000000"

lemma malloc_cases:
  assumes "heap_fits s" "0 < unat n" "unat n \<le> 0x10000000"
  obtains "malloc n s = (0, s)"
  | c where "malloc n s = (heap_current s, s\<lparr>heap_current := c\<rparr>)" "heap_current s \<noteq> 0"
      "heap_current s < c" "heap_fits (s\<lparr>heap_current := c\<rparr>)"
proof -
  have ok: "heap_ok s" and e: "unat (heap_current s) \<le> unat (heap_end s)" "unat (heap_end s) \<le> 0xE0000000"
    using assms(1) by (auto simp: heap_fits_def heap_ok_def word_le_nat_alt)
  have n: "unat n < 4294967293" "round4 (unat n) \<le> 0x10000000"
    using assms(3) by (simp_all add: round4_def)
  have nowrap: "unat (heap_current s) + round4 (unat n) < 4294967296"
    using n e by linarith
  note m = malloc_no_wrap [OF ok n(1) nowrap]
  show ?thesis
  proof (cases "unat (heap_current s) + round4 (unat n) \<le> unat (heap_end s)")
    case True
    have "heap_current s < heap_current s + word_base (n + 3)"
      using m(2) round4_ge [of "unat n"] assms(2) by (simp add: word_less_nat_alt)
    moreover have "heap_fits (snd (malloc n s))"
      using malloc_heap_ok [OF ok n(1) nowrap] m(1) True e by (simp add: heap_fits_def)
    ultimately show ?thesis using that(2) m(1) True ok by (simp add: heap_ok_def)
  next
    case False
    with m(1) that(1) show ?thesis by simp
  qed
qed

text \<open>The device object \<open>IoCreateDevice\<close> writes.\<close>

definition new_device :: "u32 \<Rightarrow> u32 \<Rightarrow> unicode_string option \<Rightarrow> u32 \<Rightarrow> u32 \<Rightarrow> u32 \<Rightarrow> device_object" where
  "new_device driver ext name dev_type chars next_dev =
     \<lparr>DeviceType = dev_type, Characteristics = chars, DeviceExtension = ext,
      DeviceName = (case name of Some n \<Rightarrow> if us_Buffer n \<noteq> None then n else null_string | None \<Rightarrow> null_string),
      DriverObject = driver, NextDevice = next_dev, AttachedDevice = 0, Flags = 0\<rparr>"

lemma IoCreateDevice_result:
  assumes fits: "heap_fits s" and driver: "driver \<noteq> 0"
    and size: "0 < unat ext_size" "unat ext_size \<le> 0x10000000"
  obtains "IoCreateDevice driver ext_size name ty ch ex (Some out) s
      = (STATUS_INSUFFICIENT_RESOURCES, Some out, s)"
  | c where "IoCreateDevice driver ext_size name ty ch ex (Some out) s
      = (STATUS_INSUFFICIENT_RESOURCES, Some out,
         s\<lparr>heap_current := c, io_devices := (io_devices s)(heap_current s := zero_device)\<rparr>)"
      "heap_current s < c"
  | ext c where "IoCreateDevice driver ext_size name ty ch ex (Some out) s
      = (STATUS_SUCCESS, Some (heap_current s),
         s\<lparr>heap_current := c, io_exts := (io_exts s)(ext := zero_extension),
           io_devices := (io_devices s)(heap_current s :=
             new_device driver ext name ty ch (DeviceObject (io_drivers s driver))),
           io_drivers := (io_drivers s)(driver := (io_drivers s driver)\<lparr>DeviceObject := heap_current s\<rparr>)\<rparr>)"
      "heap_current s < ext" "ext < c" "heap_current s \<noteq> 0"
      "heap_fits (s\<lparr>heap_current := c\<rparr>)"
proof (rule malloc_cases [OF fits, of sizeof_DEVICE_OBJECT])
  show "0 < unat sizeof_DEVICE_OBJECT" "unat sizeof_DEVICE_OBJECT \<le> 0x10000000" by (simp_all add: const_defs)
next
  assume "malloc sizeof_DEVICE_OBJECT s = (0, s)"
  then show ?thesis using that(1) driver by (simp add: IoCreateDevice_def Let_def)
next
  fix c
  assume m: "malloc sizeof_DEVICE_OBJECT s = (heap_current s, s\<lparr>heap_current := c\<rparr>)" "heap_current s \<noteq> 0"
    "heap_current s < c" "heap_fits (s\<lparr>heap_current := c\<rparr>)"
  let ?s = "upd_device (heap_current s) (\<lambda>_. zero_device) (s\<lparr>heap_current := c\<rparr>)"
  have fits2: "heap_fits ?s" and cur: "heap_current ?s = c"
    using m(4) by (simp_all add: upd_device_def heap_fits_def heap_ok_def)
  have nz: "0 < ext_size" using size(1) by (simp add: word_less_nat_alt)
  show ?thesis
  proof (rule malloc_cases [OF fits2 size])
    assume "malloc ext_size ?s = (0, ?s)"
    with m(1,2) nz driver have "IoCreateDevice driver ext_size name ty ch ex (Some out) s
      = (STATUS_INSUFFICIENT_RESOURCES, Some out,
         s\<lparr>heap_current := c, io_devices := (io_devices s)(heap_current s := zero_device)\<rparr>)"
      by (simp add: IoCreateDevice_def Let_def heap_free_def) (simp add: upd_device_def)
    then show ?thesis using that(2) m(3) by blast
  next
    fix c'
    assume m2: "malloc ext_size ?s = (heap_current ?s, ?s\<lparr>heap_current := c'\<rparr>)" "heap_current ?s \<noteq> 0"
      "heap_current ?s < c'" "heap_fits (?s\<lparr>heap_current := c'\<rparr>)"
    have "IoCreateDevice driver ext_size name ty ch ex (Some out) s
      = (STATUS_SUCCESS, Some (heap_current s),
         s\<lparr>heap_current := c', io_exts := (io_exts s)(c := zero_extension),
           io_devices := (io_devices s)(heap_current s :=
             new_device driver c name ty ch (DeviceObject (io_drivers s driver))),
           io_drivers := (io_drivers s)(driver := (io_drivers s driver)\<lparr>DeviceObject := heap_current s\<rparr>)\<rparr>)"
      using m(1,2) m2(1,2) cur nz driver
      by (simp add: IoCreateDevice_def Let_def) (simp add: upd_device_def upd_driver_def new_device_def zero_device_def)
    moreover have "heap_fits (s\<lparr>heap_current := c'\<rparr>)"
      using m2(4) by (simp add: upd_device_def heap_fits_def heap_ok_def)
    ultimately show ?thesis using that(3) m(2,3) m2(3) cur by simp
  qed
qed


subsection \<open>Deleting a driver\<close>

text \<open>
  The state in which \<open>IoDeleteDriver\<close> calls the driver's unload routine: the driver is off the list and
  has no devices left.
\<close>

lemma delete_driver_steps:
  assumes list: "driver_list s (us @ p # vs)" and devs: "device_list s p ds"
  obtains v where "driver_list v (us @ vs)" "device_list v p []" "p \<noteq> 0" "io.more v = io.more s"
    "\<And>unload. IoDeleteDriver unload p s = (if DriverUnload (io_drivers s p) \<noteq> 0
      then unload (DriverUnload (io_drivers s p)) p v else Some v)"
proof -
  have ch: "chain (get_slot s) Next_Driver Driver_List (us @ p # vs)" and dist: "distinct (us @ p # vs)"
    using list by (auto simp: driver_list_def)
  have p: "p \<noteq> 0" using chain_nonzero [OF ch] by simp
  define s1 where "s1 = set_slot (Device_List p) 0 s"
  have ch1: "chain (get_slot s1) Next_Driver Driver_List (us @ p # vs)"
  proof (rule chain_cong [THEN iffD1, OF _ _ ch])
    have "get_slot s1 = (get_slot s)(Device_List p := 0)" unfolding s1_def by (rule get_slot_set_slot)
    then show "get_slot s Driver_List = get_slot s1 Driver_List"
      "get_slot s (Next_Driver q) = get_slot s1 (Next_Driver q)" for q by simp_all
  qed
  let ?l = "link_to Next_Driver Driver_List us"
  define s2 where "s2 = (set_slot ?l (NextDriver (io_drivers s1 p)) s1)\<lparr>g_DriverCount := g_DriverCount s1 - 1\<rparr>"
  have slots: "get_slot s2 = (get_slot s1)(?l := get_slot s1 (Next_Driver p))"
    by (simp only: s2_def get_slot_count get_slot_set_slot get_slot.simps)
  have fields: "heap_current s2 = heap_current s" "g_DriverCount s2 = g_DriverCount s - 1"
    "DriverUnload (io_drivers s2 p) = DriverUnload (io_drivers s p)"
    using set_slot_fields(4-7) [of ?l "NextDriver (io_drivers s1 p)" s1]
      set_slot_fields(4-7) [of "Device_List p" 0 s]
    unfolding s2_def s1_def [symmetric] by simp_all
  have list2: "driver_list s2 (us @ vs)"
    using chain_unlink [OF ch1 dist slot_inj(2,4)] list unfolding driver_list_def slots
    by (auto simp: fields)
  have "?l \<noteq> Device_List p" by (simp add: link_to_def)
  moreover have "get_slot s1 (Device_List p) = 0" unfolding s1_def get_slot_set_slot by simp
  ultimately have "get_slot s2 (Device_List p) = 0" unfolding slots by simp
  then have none: "device_list s2 p []" by (simp add: device_list_def)
  have "slot_of (get_slot s1) Next_Driver p Driver_List = Some (Some ?l)"
    by (rule slot_of_chain [OF ch1]) (use dist in simp)
  moreover have "delete_devices (DeviceObject (io_drivers s p)) s = Some s1"
    using delete_devices_all [OF devs p] by (simp add: s1_def)
  moreover note fields(3)
  ultimately have res: "IoDeleteDriver unload p s =
      (if DriverUnload (io_drivers s p) \<noteq> 0 then unload (DriverUnload (io_drivers s p)) p s2 else Some s2)" for unload
    using p by (simp add: IoDeleteDriver_def Let_def heap_free_def s2_def [symmetric] split: option.split)
  have more: "io.more (set_slot c x u) = io.more u" for c x and u :: "'a io_scheme"
    by (cases c) (simp_all add: upd_driver_def upd_device_def)
  have "io.more s2 = io.more s" by (simp add: s2_def s1_def more del: set_slot.simps)
  from that [OF list2 none p this res] show ?thesis .
qed

subsection \<open>The contract of a driver's routines\<close>

text \<open>
  What the I/O manager needs of the initialisation routine at \<open>entry\<close> and of the unload routine
  at \<open>exit\<close>: both return, neither touches the list of drivers, and the first leaves its driver with
  a well-formed list of devices.
\<close>

locale driver_code =
  fixes init :: "u32 \<Rightarrow> u32 \<Rightarrow> unicode_string \<Rightarrow> 'a io_scheme \<Rightarrow> (ntstatus \<times> 'a io_scheme) option"
    and unload :: "u32 \<Rightarrow> u32 \<Rightarrow> 'a io_scheme \<Rightarrow> 'a io_scheme option"
    and entry :: u32 and exit :: u32
  assumes init_returns: "heap_fits s \<Longrightarrow> driver \<noteq> 0 \<Longrightarrow> driver < heap_current s \<Longrightarrow> device_list s driver []
      \<Longrightarrow> DriverUnload (io_drivers s driver) = 0
      \<Longrightarrow> \<exists>status s' ds. init entry driver name s = Some (status, s') \<and> heap_current s \<le> heap_current s'
          \<and> (\<forall>c. c = Driver_List \<or> c \<in> range Next_Driver \<longrightarrow> get_slot s' c = get_slot s c)
          \<and> g_DriverCount s' = g_DriverCount s
          \<and> (NT_SUCCESS status \<longrightarrow> device_list s' driver ds
              \<and> DriverUnload (io_drivers s' driver) \<in> {0, exit})"
    and unload_returns: "device_list s driver [] \<Longrightarrow> driver \<noteq> 0
      \<Longrightarrow> \<exists>s'. unload exit driver s = Some s' \<and> heap_current s \<le> heap_current s'
          \<and> get_slot s' = get_slot s \<and> g_DriverCount s' = g_DriverCount s"
begin

lemma create_driver:
  assumes list: "driver_list s ps" and fits: "heap_fits s" and entry_exists: "entry \<noteq> 0"
  shows "\<exists>status s'. IoCreateDriver init (Some name) entry s = Some (status, s')
    \<and> (if NT_SUCCESS status
       then \<exists>p ds. p \<notin> set ps \<and> driver_list s' (p # ps) \<and> device_list s' p ds
          \<and> DriverUnload (io_drivers s' p) \<in> {0, exit}
       else driver_list s' ps)"
proof (rule malloc_cases [OF fits, of sizeof_DRIVER_OBJECT])
  show "0 < unat sizeof_DRIVER_OBJECT" "unat sizeof_DRIVER_OBJECT \<le> 0x10000000" by (simp_all add: const_defs)
next
  assume "malloc sizeof_DRIVER_OBJECT s = (0, s)"
  then have "IoCreateDriver init (Some name) entry s = Some (STATUS_INSUFFICIENT_RESOURCES, s)"
    using entry_exists by (simp add: IoCreateDriver_def)
  moreover have "\<not> NT_SUCCESS STATUS_INSUFFICIENT_RESOURCES" by (simp add: NT_SUCCESS_def const_defs)
  ultimately show ?thesis using list by auto
next
  fix c
  assume m: "malloc sizeof_DRIVER_OBJECT s = (heap_current s, s\<lparr>heap_current := c\<rparr>)" "heap_current s \<noteq> 0"
    "heap_current s < c" "heap_fits (s\<lparr>heap_current := c\<rparr>)"
  define p where "p = heap_current s"
  define s1 where "s1 = upd_driver p (\<lambda>d. d\<lparr>DriverName := name, DriverInit := entry,
      DeviceObject := 0, NextDriver := 0, DriverUnload := 0\<rparr>)
      (upd_driver p (\<lambda>_. zero_driver) (s\<lparr>heap_current := c\<rparr>))"
  have s1: "heap_fits s1" "heap_current s1 = c" "DriverUnload (io_drivers s1 p) = 0" "device_list s1 p []"
    "g_DriverCount s1 = g_DriverCount s" "get_slot s1 Driver_List = get_slot s Driver_List"
    "q \<noteq> p \<Longrightarrow> get_slot s1 (Next_Driver q) = get_slot s (Next_Driver q)" for q
    using m(4) by (simp_all add: s1_def upd_driver_def device_list_def heap_fits_def heap_ok_def)
  have p: "p \<noteq> 0" "p < c" "p \<notin> set ps" using m(2,3) list by (auto simp: p_def driver_list_def)
  obtain status s2 ds where init: "init entry p name s1 = Some (status, s2)" "c \<le> heap_current s2"
    "\<forall>c. c = Driver_List \<or> c \<in> range Next_Driver \<longrightarrow> get_slot s2 c = get_slot s1 c"
    "g_DriverCount s2 = g_DriverCount s"
    "NT_SUCCESS status \<longrightarrow> device_list s2 p ds \<and> DriverUnload (io_drivers s2 p) \<in> {0, exit}"
    using init_returns [of s1 p name] s1 p by auto
  have same: "get_slot s2 (Next_Driver q) = get_slot s (Next_Driver q)" if "q \<noteq> p" for q
    using init(3) [rule_format, of "Next_Driver q"] s1(7) [OF that] by simp
  have "chain (get_slot s2) Next_Driver Driver_List ps = chain (get_slot s) Next_Driver Driver_List ps"
  proof (rule chain_cong)
    show "get_slot s2 Driver_List = get_slot s Driver_List"
      using init(3) [rule_format, of Driver_List] s1(6) by simp
    show "get_slot s2 (Next_Driver q) = get_slot s (Next_Driver q)" if "q \<in> set ps" for q
      using that p(3) by (intro same) auto
  qed
  moreover have "\<forall>q \<in> set ps. q < heap_current s2"
    using list p(2) init(2) unfolding driver_list_def p_def by (meson less_le_trans less_trans)
  ultimately have kept: "driver_list s2 ps" using list init(4) by (simp add: driver_list_def)
  define s3 where "s3 = (upd_driver p (\<lambda>d. d\<lparr>NextDriver := g_DriverList s2\<rparr>) s2)
      \<lparr>g_DriverList := p, g_DriverCount := g_DriverCount s2 + 1\<rparr>"
  have res: "IoCreateDriver init (Some name) entry s
      = Some (if NT_SUCCESS status then (STATUS_SUCCESS, s3) else (status, s2))"
    using m(1,2) init(1) entry_exists
    by (simp add: IoCreateDriver_def Let_def p_def [symmetric] s1_def [symmetric] s3_def heap_free_def)
       (simp add: upd_driver_def)
  show ?thesis
  proof (cases "NT_SUCCESS status")
    case False
    with res kept show ?thesis by simp
  next
    case True
    have slots: "get_slot s3 = (get_slot s2)(Next_Driver p := g_DriverList s2, Driver_List := p)"
    proof
      fix d show "get_slot s3 d = ((get_slot s2)(Next_Driver p := g_DriverList s2, Driver_List := p)) d"
        by (cases d) (auto simp: s3_def upd_driver_def)
    qed
    have "chain (get_slot s3) Next_Driver (Next_Driver p) ps = chain (get_slot s2) Next_Driver Driver_List ps"
    proof -
      have "map (get_slot s3) (map Next_Driver ps) = map (get_slot s2) (map Next_Driver ps)"
        using p(3) by (auto simp: slots)
      then show ?thesis unfolding chain_map by (simp only: list.map) (simp add: slots)
    qed
    then have list3: "driver_list s3 (p # ps)"
      using kept p init(2) by (auto simp: driver_list_def slots s3_def upd_driver_def intro: less_le_trans)
    have "device_list s3 p ds"
    proof -
      have "chain (get_slot s3) Next_Device (Device_List p) ds = chain (get_slot s2) Next_Device (Device_List p) ds"
        by (intro chain_cong) (simp_all add: slots)
      moreover have "io_devices s3 = io_devices s2" "heap_current s3 = heap_current s2"
        by (simp_all add: s3_def upd_driver_def)
      ultimately show ?thesis using init(5) True by (simp add: device_list_def)
    qed
    moreover have "DriverUnload (io_drivers s3 p) \<in> {0, exit}"
      using init(5) True by (auto simp: s3_def upd_driver_def)
    moreover have "NT_SUCCESS STATUS_SUCCESS" by (simp add: NT_SUCCESS_def const_defs)
    ultimately show ?thesis using res True list3 p(3) by auto
  qed
qed

lemma delete_driver:
  assumes list: "driver_list s (us @ p # vs)" and devs: "device_list s p ds"
    and code: "DriverUnload (io_drivers s p) \<in> {0, exit}"
  shows "\<exists>s'. IoDeleteDriver unload p s = Some s' \<and> driver_list s' (us @ vs)"
proof -
  obtain v where v: "driver_list v (us @ vs)" "device_list v p []" "p \<noteq> 0"
    "IoDeleteDriver unload p s = (if DriverUnload (io_drivers s p) \<noteq> 0
      then unload (DriverUnload (io_drivers s p)) p v else Some v)"
    using delete_driver_steps [OF list devs] by metis
  show ?thesis
  proof (cases "DriverUnload (io_drivers s p) = 0")
    case True
    with v show ?thesis by simp
  next
    case False
    obtain u where "unload exit p v = Some u" "heap_current v \<le> heap_current u"
      "get_slot u = get_slot v" "g_DriverCount u = g_DriverCount v"
      using unload_returns [OF v(2,3)] by blast
    with v False code show ?thesis by (auto simp: driver_list_def intro: less_le_trans)
  qed
qed

end


subsection \<open>Comparing names\<close>

text \<open>The characters a wide string holds, and a buffer long enough for the length it claims.\<close>

definition us_text :: "unicode_string \<Rightarrow> u16 list" where
  "us_text u = take (unat (us_Length u) div 2) (the (us_Buffer u))"

definition us_ok :: "unicode_string \<Rightarrow> bool" where
  "us_ok u \<longleftrightarrow> (case us_Buffer u of Some b \<Rightarrow> unat (us_Length u) div 2 \<le> length b | None \<Rightarrow> True)"

lemma compare_from_take: "compare_from b1 b2 m i = compare_from (take m b1) (take m b2) m i"
proof (induction b1 b2 m i rule: compare_from.induct)
  case (1 b1 b2 m i)
  then show ?case by (subst (1 2) compare_from.simps) auto
qed

lemma compare_from_lexordp:
  fixes t1 t2 :: "u16 list"
  assumes "i \<le> min (length t1) (length t2)"
  shows "(let d = compare_from t1 t2 (min (length t1) (length t2)) i
          in if d \<noteq> 0 then d else if length t1 = length t2 then 0 else if length t1 < length t2 then - 1 else 1)
    = (if drop i t1 = drop i t2 then 0 else if ord_class.lexordp (drop i t1) (drop i t2) then - 1 else 1)"
  using assms
proof (induction "min (length t1) (length t2) - i" arbitrary: i)
  case 0
  then have i: "i = min (length t1) (length t2)" by simp
  have d: "compare_from t1 t2 (min (length t1) (length t2)) i = 0"
    using i by (subst compare_from.simps) simp
  consider "length t1 < length t2" | "length t1 = length t2" | "length t2 < length t1" by linarith
  then show ?case
  proof cases
    case 1
    then obtain y ys where "drop i t2 = y # ys" using i by (cases "drop i t2") auto
    with 1 i d show ?thesis by simp
  next
    case 2
    with i d show ?thesis by simp
  next
    case 3
    then obtain y ys where "drop i t1 = y # ys" using i by (cases "drop i t1") auto
    with 3 i d show ?thesis by simp
  qed
next
  case (Suc n)
  let ?m = "min (length t1) (length t2)"
  have i: "i < ?m" using Suc.hyps(2) by linarith
  then have dr: "drop i t1 = t1 ! i # drop (i + 1) t1" "drop i t2 = t2 ! i # drop (i + 1) t2"
    by (simp_all add: Cons_nth_drop_Suc)
  have IH: "(let d = compare_from t1 t2 ?m (i + 1)
          in if d \<noteq> 0 then d else if length t1 = length t2 then 0 else if length t1 < length t2 then - 1 else 1)
    = (if drop (i + 1) t1 = drop (i + 1) t2 then 0
       else if ord_class.lexordp (drop (i + 1) t1) (drop (i + 1) t2) then - 1 else 1)"
    by (rule Suc.hyps(1)) (use i Suc.hyps(2) in auto)
  have step: "compare_from t1 t2 ?m i =
      (if t1 ! i \<noteq> t2 ! i then (if t1 ! i < t2 ! i then - 1 else 1) else compare_from t1 t2 ?m (i + 1))"
    using i by (subst compare_from.simps) simp
  show ?case
  proof (cases "t1 ! i = t2 ! i")
    case True
    then show ?thesis using IH unfolding step dr by simp
  next
    case False
    then show ?thesis unfolding step dr by (auto simp: not_less_iff_gr_or_eq)
  qed
qed

lemma RtlCompareUnicodeString_texts:
  assumes "us_ok u1" "us_ok u2" "us_Buffer u1 \<noteq> None" "us_Buffer u2 \<noteq> None"
  shows "RtlCompareUnicodeString (Some u1) (Some u2) ci
    = (if us_text u1 = us_text u2 then 0
       else if ord_class.lexordp (us_text u1) (us_text u2) then - 1 else 1)"
proof -
  obtain b1 b2 where b: "us_Buffer u1 = Some b1" "us_Buffer u2 = Some b2" using assms by auto
  let ?n1 = "unat (us_Length u1) div 2" and ?n2 = "unat (us_Length u2) div 2"
  have len: "length (us_text u1) = ?n1" "length (us_text u2) = ?n2"
    using assms(1,2) b by (simp_all add: us_ok_def us_text_def)
  have "compare_from b1 b2 (min ?n1 ?n2) 0
      = compare_from (take (min ?n1 ?n2) b1) (take (min ?n1 ?n2) b2) (min ?n1 ?n2) 0"
    by (rule compare_from_take)
  also have "\<dots> = compare_from (take (min ?n1 ?n2) (us_text u1)) (take (min ?n1 ?n2) (us_text u2)) (min ?n1 ?n2) 0"
    using b by (simp add: us_text_def min.commute)
  also have "\<dots> = compare_from (us_text u1) (us_text u2) (min ?n1 ?n2) 0"
    by (rule compare_from_take [symmetric])
  also have "min ?n1 ?n2 = (if ?n1 < ?n2 then ?n1 else ?n2)" by (auto simp: min_def)
  finally have cmp: "compare_from b1 b2 (if ?n1 < ?n2 then ?n1 else ?n2) 0
      = compare_from (us_text u1) (us_text u2) (if ?n1 < ?n2 then ?n1 else ?n2) 0" .
  have m: "min ?n1 ?n2 = (if ?n1 < ?n2 then ?n1 else ?n2)" by (auto simp: min_def)
  show ?thesis
    using compare_from_lexordp [of 0 "us_text u1" "us_text u2", unfolded len m drop_0]
    by (simp only: RtlCompareUnicodeString_def b cmp prod.case option.case Let_def le0 simp_thms)
qed


subsection \<open>Looking a device up\<close>

definition same_name :: "'a io_scheme \<Rightarrow> unicode_string \<Rightarrow> u32 \<Rightarrow> bool" where
  "same_name s name d \<longleftrightarrow> us_Buffer (DeviceName (io_devices s d)) \<noteq> None \<and> us_Buffer name \<noteq> None
     \<and> us_text (DeviceName (io_devices s d)) = us_text name"

lemma find_device_list:
  assumes "chain (get_slot s) Next_Device c ds" "us_ok name"
    "\<forall>d \<in> set ds. us_ok (DeviceName (io_devices s d))"
  shows "find_device s name (get_slot s c) = Some (find (same_name s name) ds)"
  using assms(1,3)
proof (induction ds arbitrary: c)
  case Nil
  then show ?case by (subst find_device.simps) simp
next
  case (Cons d ds)
  have d: "get_slot s c = d" "d \<noteq> 0" using Cons.prems by simp_all
  have eq: "(us_Buffer (DeviceName (io_devices s d)) \<noteq> None \<and> us_Buffer name \<noteq> None
      \<and> RtlCompareUnicodeString (Some (DeviceName (io_devices s d))) (Some name) False = 0) = same_name s name d"
    using RtlCompareUnicodeString_texts [of "DeviceName (io_devices s d)" name False] Cons.prems(2) assms(2)
    by (auto simp: same_name_def split: if_splits)
  have "find_device s name (get_slot s (Next_Device d)) = Some (find (same_name s name) ds)"
    using Cons.prems by (intro Cons.IH) simp_all
  with d show ?case by (subst find_device.simps) (simp only: eq, simp)
qed

lemma find_append: "find P (xs @ ys) = (case find P xs of Some x \<Rightarrow> Some x | None \<Rightarrow> find P ys)"
  by (induction xs) auto

lemma find_driver_device_list:
  assumes "chain (get_slot s) Next_Driver c ps" "us_ok name"
    "\<forall>p \<in> set ps. chain (get_slot s) Next_Device (Device_List p) (devs p)
      \<and> (\<forall>d \<in> set (devs p). us_ok (DeviceName (io_devices s d)))"
  shows "find_driver_device s name (get_slot s c) = Some (find (same_name s name) (concat (map devs ps)))"
  using assms(1,3)
proof (induction ps arbitrary: c)
  case Nil
  then show ?case by (subst find_driver_device.simps) simp
next
  case (Cons p ps)
  have p: "get_slot s c = p" "p \<noteq> 0" using Cons.prems by simp_all
  have here: "find_device s name (DeviceObject (io_drivers s p)) = Some (find (same_name s name) (devs p))"
    using find_device_list [of s "Device_List p" "devs p" name] Cons.prems(2) assms(2) by simp
  have "find_driver_device s name (get_slot s (Next_Driver p))
      = Some (find (same_name s name) (concat (map devs ps)))"
    using Cons.prems by (intro Cons.IH) simp_all
  then have rest: "find_driver_device s name (NextDriver (io_drivers s p))
      = Some (find (same_name s name) (concat (map devs ps)))" by simp
  show ?case
    using p here rest by (subst find_driver_device.simps) (simp add: find_append split: option.split)
qed

subsection \<open>Properties\<close>

definition io_reset :: io where
  "io_reset = proc.extend (proc_reset\<lparr>heap_current := 0x200000, heap_end := 0x800000\<rparr>)
     (io.fields (\<lambda>_. zero_driver) (\<lambda>_. zero_device) (\<lambda>_. zero_extension) 0 0 False)"

text \<open>
  \<open>RtlCompareUnicodeString\<close> orders names by their characters: zero exactly for equal texts,
  negative when the first comes before the second in the lexicographic order, a proper prefix
  first, positive otherwise, whatever the case flag.
\<close>

theorem RtlCompareUnicodeString_lexicographic:
  assumes "us_ok u1" "us_ok u2" "us_Buffer u1 \<noteq> None" "us_Buffer u2 \<noteq> None"
  shows "RtlCompareUnicodeString (Some u1) (Some u2) ci
    = (if us_text u1 = us_text u2 then 0
       else if ord_class.lexordp (us_text u1) (us_text u2) then - 1 else 1)"
  using assms by (rule RtlCompareUnicodeString_texts)

theorem RtlCompareUnicodeString_lexicographic_witness:
  "RtlCompareUnicodeString (Some \<lparr>us_Length = 4, us_MaximumLength = 6, us_Buffer = Some [86, 71, 0]\<rparr>)
     (Some \<lparr>us_Length = 6, us_MaximumLength = 6, us_Buffer = Some [86, 71, 65]\<rparr>) False = - 1"
  using RtlCompareUnicodeString_lexicographic
    [of "\<lparr>us_Length = 4, us_MaximumLength = 6, us_Buffer = Some [86, 71, 0]\<rparr>"
        "\<lparr>us_Length = 6, us_MaximumLength = 6, us_Buffer = Some [86, 71, 65]\<rparr>" False]
  by (simp add: us_ok_def us_text_def)

text \<open>
  \<open>IoGetDeviceObjectPointer\<close> returns, over well-formed lists, with the first device that has
  the name, drivers taken from the last registered and each driver's devices from the last
  created, and nulls the file object; when no device has the name it returns
  \<open>STATUS_DEVICE_DOES_NOT_EXIST\<close> and leaves both out-parameters alone.
\<close>

theorem IoGetDeviceObjectPointer_finds_first:
  assumes "driver_list s ps" "us_ok name"
    "\<forall>p \<in> set ps. device_list s p (devs p) \<and> (\<forall>d \<in> set (devs p). us_ok (DeviceName (io_devices s d)))"
  shows "IoGetDeviceObjectPointer (Some name) acc file (Some out) s
    = Some (case find (same_name s name) (concat (map devs ps)) of
        Some d \<Rightarrow> (STATUS_SUCCESS, map_option (\<lambda>_. 0) file, Some d)
      | None \<Rightarrow> (STATUS_DEVICE_DOES_NOT_EXIST, file, Some out))"
proof -
  have "find_driver_device s name (get_slot s Driver_List) = Some (find (same_name s name) (concat (map devs ps)))"
    using assms by (intro find_driver_device_list) (auto simp: driver_list_def device_list_def)
  then show ?thesis
    by (simp add: IoGetDeviceObjectPointer_def split: option.split)
qed

definition one_device :: io where
  "one_device = upd_device 0x200100 (\<lambda>_. new_device 0x200000 0
       (Some \<lparr>us_Length = 6, us_MaximumLength = 8, us_Buffer = Some [86, 71, 65, 0]\<rparr>) 0x32 0 0)
     (upd_driver 0x200000 (\<lambda>d. d\<lparr>DeviceObject := 0x200100\<rparr>)
       (io_reset\<lparr>g_DriverList := 0x200000, g_DriverCount := 1, heap_current := 0x200200\<rparr>))"

lemma one_device_lists: "driver_list one_device [0x200000]" "device_list one_device 0x200000 [0x200100]"
  by (simp_all add: driver_list_def device_list_def one_device_def io_reset_def new_device_def
      upd_device_def upd_driver_def zero_driver_def zero_device_def io.defs proc.defs)

theorem IoGetDeviceObjectPointer_finds_first_witness:
  "IoGetDeviceObjectPointer (Some \<lparr>us_Length = 6, us_MaximumLength = 6, us_Buffer = Some [86, 71, 65]\<rparr>) 0
     None (Some 5) one_device = Some (STATUS_SUCCESS, None, Some 0x200100)"
proof -
  let ?n = "\<lparr>us_Length = 6, us_MaximumLength = 6, us_Buffer = Some [86, 71, 65 :: u16]\<rparr>"
  have d: "DeviceName (io_devices one_device 0x200100)
      = \<lparr>us_Length = 6, us_MaximumLength = 8, us_Buffer = Some [86, 71, 65, 0]\<rparr>"
    by (simp add: one_device_def upd_device_def upd_driver_def new_device_def)
  show ?thesis
    using IoGetDeviceObjectPointer_finds_first
      [OF one_device_lists(1), of ?n "\<lambda>_. [0x200100]" 0 None 5] one_device_lists(2)
    by (simp add: us_ok_def d same_name_def us_text_def)
qed

text \<open>
  C40: A device \<open>IoCreateDevice\<close> makes is new, heads its driver's list and carries its type, name
  and zeroed extension; \<open>IoDeleteDevice\<close> then returns and restores the list, and no link but the
  device's own differs from the state before.
\<close>

theorem IoCreateDevice_delete_roundtrip:
  assumes "heap_fits s" "device_list s driver ds" "driver \<noteq> 0" "0 < unat ext_size" "unat ext_size \<le> 0x10000000"
    and "IoCreateDevice driver ext_size name ty ch ex (Some out) s = (STATUS_SUCCESS, Some d, t)"
  shows "d \<notin> set ds \<and> device_list t driver (d # ds)
    \<and> (\<exists>ext. io_devices t d = new_device driver ext name ty ch (DeviceObject (io_drivers s driver))
        \<and> ext \<noteq> 0 \<and> io_exts t ext = zero_extension)
    \<and> (\<exists>u. IoDeleteDevice d t = Some u \<and> device_list u driver ds
        \<and> (\<forall>c. c \<noteq> Next_Device d \<longrightarrow> get_slot u c = get_slot s c))"
proof (rule IoCreateDevice_result [OF assms(1,3-5), of name ty ch ex out])
  assume "IoCreateDevice driver ext_size name ty ch ex (Some out) s = (STATUS_INSUFFICIENT_RESOURCES, Some out, s)"
  with assms(6) show ?thesis by (simp add: const_defs)
next
  fix c
  assume "IoCreateDevice driver ext_size name ty ch ex (Some out) s
      = (STATUS_INSUFFICIENT_RESOURCES, Some out,
         s\<lparr>heap_current := c, io_devices := (io_devices s)(heap_current s := zero_device)\<rparr>)"
  with assms(6) show ?thesis by (simp add: const_defs)
next
  fix ext c
  assume res: "IoCreateDevice driver ext_size name ty ch ex (Some out) s
      = (STATUS_SUCCESS, Some (heap_current s),
         s\<lparr>heap_current := c, io_exts := (io_exts s)(ext := zero_extension),
           io_devices := (io_devices s)(heap_current s :=
             new_device driver ext name ty ch (DeviceObject (io_drivers s driver))),
           io_drivers := (io_drivers s)(driver := (io_drivers s driver)\<lparr>DeviceObject := heap_current s\<rparr>)\<rparr>)"
    and lt: "heap_current s < ext" "ext < c" and nz: "heap_current s \<noteq> 0"
  have d: "d = heap_current s" and t: "t = s\<lparr>heap_current := c, io_exts := (io_exts s)(ext := zero_extension),
           io_devices := (io_devices s)(d := new_device driver ext name ty ch (DeviceObject (io_drivers s driver))),
           io_drivers := (io_drivers s)(driver := (io_drivers s driver)\<lparr>DeviceObject := d\<rparr>)\<rparr>"
    using res assms(6) by simp_all
  have new: "d \<notin> set ds" using assms(2) by (auto simp: d device_list_def)
  have slots: "get_slot t = (get_slot s)(Next_Device d := DeviceObject (io_drivers s driver), Device_List driver := d)"
  proof
    fix q show "get_slot t q
        = ((get_slot s)(Next_Device d := DeviceObject (io_drivers s driver), Device_List driver := d)) q"
      by (cases q) (simp_all add: t new_device_def)
  qed
  have "map (get_slot t) (map Next_Device ds) = map (get_slot s) (map Next_Device ds)"
    using new by (auto simp: slots)
  moreover have "chain (get_slot s) Next_Device (Device_List driver) ds" using assms(2) by (simp add: device_list_def)
  ultimately have "chain (get_slot t) Next_Device (Device_List driver) (d # ds)"
    using nz unfolding chain_map by (simp only: list.map) (simp add: slots d)
  moreover have "\<forall>e \<in> set (d # ds). DriverObject (io_devices t e) = driver \<and> e < heap_current t"
    using assms(2) new lt by (auto simp: t d device_list_def new_device_def)
  ultimately have list: "device_list t driver (d # ds)"
    using new assms(2) by (simp add: device_list_def)
  note del = IoDeleteDevice_unlinks [of t driver "[]" d ds, OF _ assms(3), unfolded link_to_def, simplified, OF list]
  have nd: "NextDevice (io_devices t d) = DeviceObject (io_drivers s driver)"
    by (simp add: t new_device_def)
  have "get_slot (set_slot (Device_List driver) (NextDevice (io_devices t d)) t) q = get_slot s q"
    if "q \<noteq> Next_Device d" for q
    unfolding get_slot_set_slot nd slots using that by auto
  moreover have "ext \<noteq> 0" using lt(1) by auto
  ultimately show ?thesis using new list del by (auto simp: t)
qed

theorem IoCreateDevice_delete_roundtrip_witness:
  "\<exists>t u. IoCreateDevice 0x200000 36 None 0x32 0 False (Some 0) one_device
      = (STATUS_SUCCESS, Some 0x200200, t)
    \<and> IoDeleteDevice 0x200200 t = Some u \<and> device_list u 0x200000 [0x200100]"
proof -
  have heap: "heap_current one_device = 0x200200" "heap_end one_device = 0x800000"
    by (simp_all add: one_device_def io_reset_def upd_device_def upd_driver_def io.defs proc.defs)
  have fits: "heap_fits one_device"
    by (simp add: heap_fits_def heap_ok_def heap aligned4_def)
  have "fst (IoCreateDevice 0x200000 36 None 0x32 0 False (Some 0) one_device) = STATUS_SUCCESS"
    "fst (snd (IoCreateDevice 0x200000 36 None 0x32 0 False (Some 0) one_device)) = Some 0x200200"
    by (simp_all add: IoCreateDevice_def malloc_def heap word_base_def Let_def const_defs upd_device_def)
  then obtain t where t: "IoCreateDevice 0x200000 36 None 0x32 0 False (Some 0) one_device
      = (STATUS_SUCCESS, Some 0x200200, t)" by (metis prod.collapse)
  show ?thesis
    using IoCreateDevice_delete_roundtrip [OF fits one_device_lists(2) _ _ _ t] t by auto
qed

end
