(* ===== verification/Vga_Hardware.thy ===== *)
theory Vga_Hardware
  imports Io_Manager
begin

unbundle bit_operations_syntax

section \<open>The display adapter and its registers\<close>

text \<open>
  Models \<open>drivers/video/vga/vga_hardware.c\<close> and \<open>VgaSetMode\<close> with the register tables of
  \<open>drivers/video/vga/vga_init.c\<close>. The state adds the two static variables of
  \<open>drivers/video/vga/vga_screen.c\<close>, the shadow buffer as a function of the index, and the trace
  \<open>vga_io\<close> of the accesses to the adapter: port writes, port reads and stores through the frame
  buffer's pointer. A byte read from a port is an argument. The adapter decodes 64 KB from 0xA0000; a
  store that misses them goes to the machine's memory, \<open>phys_mem\<close> (the kernel's first 128 MB are
  mapped onto themselves; what a PC has between 0xB0000 and 1 MB counts as memory here). The kernel's
  own variables are fields of the state: what such a store does to one that lies at the address is not
  followed, so a property of such a state holds for what lies elsewhere.

  \<open>adapter\<close> and \<open>adapter_run\<close> are the documented behaviour of a VGA adapter, the abstract view of
  such a trace: indexed register banks, the protection of CRTC registers 0 to 7, the flip-flop of
  the attribute controller, the colour table, and four planes of memory. A store in the plain write
  configuration (write mode 0, all bits, no rotation, no set/reset) goes to each plane the map mask
  selects; what any other configuration stores is the parameter \<open>other\<close>, which no proof inspects.
\<close>

declare serial_puts.simps [simp del]

subsection \<open>State\<close>

datatype vga_event = Port_Out u16 u8 | Port_In u16 | Mem_Store u32 u8

record vga = io +
  g_VgaDevice :: u32
  g_shadow :: "nat \<Rightarrow> u8"
  vga_io :: "vga_event list"

definition vga_event :: "vga_event \<Rightarrow> 'a vga_scheme \<Rightarrow> 'a vga_scheme" where
  "vga_event e s = s\<lparr>vga_io := vga_io s @ [e]\<rparr>"

definition vga_outb :: "u16 \<Rightarrow> u8 \<Rightarrow> 'a vga_scheme \<Rightarrow> 'a vga_scheme" where
  "vga_outb port v s = vga_event (Port_Out port v) (outb port v s)"

definition vga_inb :: "u16 \<Rightarrow> 'a vga_scheme \<Rightarrow> 'a vga_scheme" where
  "vga_inb port s = vga_event (Port_In port) s"

definition VGA_BASE_ADDRESS :: u32 where [const_defs]: "VGA_BASE_ADDRESS = 0xA0000"

definition in_window :: "u32 \<Rightarrow> bool" where
  "in_window addr \<longleftrightarrow> unat (addr - VGA_BASE_ADDRESS) < 0x10000"

definition fb_store :: "u32 \<Rightarrow> u8 \<Rightarrow> 'a vga_scheme \<Rightarrow> 'a vga_scheme" where
  "fb_store addr v s =
     (let s = vga_event (Mem_Store addr v) s
      in if in_window addr then s else s\<lparr>phys_mem := (phys_mem s)(addr := v)\<rparr>)"

definition VGA_CRTC_INDEX :: u16 where [const_defs]: "VGA_CRTC_INDEX = 0x3D4"
definition VGA_CRTC_DATA :: u16 where [const_defs]: "VGA_CRTC_DATA = 0x3D5"
definition VGA_SEQ_INDEX :: u16 where [const_defs]: "VGA_SEQ_INDEX = 0x3C4"
definition VGA_SEQ_DATA :: u16 where [const_defs]: "VGA_SEQ_DATA = 0x3C5"
definition VGA_GC_INDEX :: u16 where [const_defs]: "VGA_GC_INDEX = 0x3CE"
definition VGA_GC_DATA :: u16 where [const_defs]: "VGA_GC_DATA = 0x3CF"
definition VGA_AC_INDEX :: u16 where [const_defs]: "VGA_AC_INDEX = 0x3C0"
definition VGA_AC_WRITE :: u16 where [const_defs]: "VGA_AC_WRITE = 0x3C0"
definition VGA_MISC_WRITE :: u16 where [const_defs]: "VGA_MISC_WRITE = 0x3C2"
definition VGA_INPUT_STATUS_1 :: u16 where [const_defs]: "VGA_INPUT_STATUS_1 = 0x3DA"
definition VGA_MODE_TEXT_80x25 :: u8 where [const_defs]: "VGA_MODE_TEXT_80x25 = 0x03"
definition VGA_MODE_GRAPHICS_640x480x16 :: u8 where
  [const_defs]: "VGA_MODE_GRAPHICS_640x480x16 = 0x12"

subsection \<open>Register access\<close>

definition VgaWriteSequencer :: "u8 \<Rightarrow> u8 \<Rightarrow> 'a vga_scheme \<Rightarrow> 'a vga_scheme" where
  "VgaWriteSequencer idx v s = vga_outb VGA_SEQ_DATA v (vga_outb VGA_SEQ_INDEX idx s)"

definition VgaWriteGraphicsController :: "u8 \<Rightarrow> u8 \<Rightarrow> 'a vga_scheme \<Rightarrow> 'a vga_scheme" where
  "VgaWriteGraphicsController idx v s = vga_outb VGA_GC_DATA v (vga_outb VGA_GC_INDEX idx s)"

definition VgaWriteCrtc :: "u8 \<Rightarrow> u8 \<Rightarrow> 'a vga_scheme \<Rightarrow> 'a vga_scheme" where
  "VgaWriteCrtc idx v s = vga_outb VGA_CRTC_DATA v (vga_outb VGA_CRTC_INDEX idx s)"

text \<open>\<open>val\<close> is the byte the port gives.\<close>

definition VgaReadGraphicsController :: "u8 \<Rightarrow> u8 \<Rightarrow> 'a vga_scheme \<Rightarrow> u8 \<times> 'a vga_scheme" where
  "VgaReadGraphicsController val idx s = (val, vga_inb VGA_GC_DATA (vga_outb VGA_GC_INDEX idx s))"

definition VgaSetPalette :: "u8 \<Rightarrow> u8 \<Rightarrow> u8 \<Rightarrow> u8 \<Rightarrow> 'a vga_scheme \<Rightarrow> 'a vga_scheme" where
  "VgaSetPalette idx red green blue s =
     (let s = vga_outb 0x3C8 idx s; s = vga_outb 0x3C9 red s; s = vga_outb 0x3C9 green s
      in vga_outb 0x3C9 blue s)"

definition VgaInitializePalette :: "'a vga_scheme \<Rightarrow> 'a vga_scheme" where
  "VgaInitializePalette s =
     (let s = VgaSetPalette 0 0 0 0 s;
          s = VgaSetPalette 1 0 0 42 s;
          s = VgaSetPalette 2 0 42 0 s;
          s = VgaSetPalette 3 0 42 42 s;
          s = VgaSetPalette 4 42 0 0 s;
          s = VgaSetPalette 5 42 0 42 s;
          s = VgaSetPalette 6 42 21 0 s;
          s = VgaSetPalette 7 42 42 42 s;
          s = VgaSetPalette 8 21 21 21 s;
          s = VgaSetPalette 9 21 21 63 s;
          s = VgaSetPalette 10 21 63 21 s;
          s = VgaSetPalette 11 21 63 63 s;
          s = VgaSetPalette 12 63 21 21 s;
          s = VgaSetPalette 13 63 21 63 s;
          s = VgaSetPalette 14 63 63 21 s;
          s = VgaSetPalette 15 63 63 63 s
      in s)"

definition VgaSetWriteMode :: "u8 \<Rightarrow> u8 \<Rightarrow> 'a vga_scheme \<Rightarrow> 'a vga_scheme" where
  "VgaSetWriteMode val mode s =
     (let (v, s) = VgaReadGraphicsController val 5 s;
          v = (v AND 0xFC) OR (mode AND 0x03)
      in VgaWriteGraphicsController 5 v s)"

definition VgaSelectPlane :: "u8 \<Rightarrow> 'a vga_scheme \<Rightarrow> 'a vga_scheme" where
  "VgaSelectPlane plane s = VgaWriteSequencer 2 (push_bit (unat plane) 1) s"

definition VgaSetPlanesMask :: "u8 \<Rightarrow> 'a vga_scheme \<Rightarrow> 'a vga_scheme" where
  "VgaSetPlanesMask m s = VgaWriteSequencer 2 m s"

definition VgaSetBitMask :: "u8 \<Rightarrow> 'a vga_scheme \<Rightarrow> 'a vga_scheme" where
  "VgaSetBitMask m s = VgaWriteGraphicsController 8 m s"

subsection \<open>The graphics mode\<close>

definition seq_regs :: "u8 list" where
  "seq_regs = [0x03, 0x01, 0x0F, 0x00, 0x06]"

definition crtc_regs :: "u8 list" where
  "crtc_regs = [0x5F, 0x4F, 0x50, 0x82, 0x54, 0x80, 0x0D, 0x3E, 0x00, 0x40, 0x00, 0x00, 0x00,
     0x00, 0x00, 0x00, 0xEA, 0x8C, 0xDF, 0x28, 0x00, 0xE7, 0x04, 0xE3, 0xFF]"

definition gc_regs :: "u8 list" where
  "gc_regs = [0x00, 0x00, 0x00, 0x00, 0x00, 0x00, 0x05, 0x0F, 0xFF]"

definition ac_regs :: "u8 list" where
  "ac_regs = [0x00, 0x01, 0x02, 0x03, 0x04, 0x05, 0x06, 0x07, 0x08, 0x09, 0x0A, 0x0B, 0x0C, 0x0D,
     0x0E, 0x0F, 0x01, 0x00, 0x0F, 0x00, 0x00]"

text \<open>\<open>crtc17\<close> is the byte read back from CRTC register \<open>0x11\<close>.\<close>

definition VgaSetMode :: "u8 \<Rightarrow> u8 \<Rightarrow> 'a vga_scheme \<Rightarrow> ntstatus \<times> 'a vga_scheme" where
  "VgaSetMode crtc17 mode s =
     (let s = serial_puts (''[VGA] VgaSetMode called'' @ crlf) s in
      if mode = VGA_MODE_GRAPHICS_640x480x16 then
        (let s = serial_puts (''[VGA] switching to graphics mode'' @ crlf) s;
             s = vga_outb VGA_SEQ_INDEX 0x00 s;
             s = vga_outb VGA_SEQ_DATA 0x01 s;
             s = vga_outb 0x80 0 s; s = vga_outb 0x80 0 s; s = vga_outb 0x80 0 s;
             s = vga_outb VGA_SEQ_INDEX 0x00 s;
             s = vga_outb VGA_SEQ_DATA 0x03 s;
             s = vga_outb VGA_CRTC_INDEX 0x11 s;
             s = vga_outb VGA_CRTC_DATA (crtc17 AND NOT 0x80) (vga_inb VGA_CRTC_DATA s);
             s = vga_outb VGA_MISC_WRITE 0xE3 s;
             s = fold (\<lambda>i. VgaWriteSequencer (of_nat i) (seq_regs ! i)) [0..<5] s;
             s = fold (\<lambda>i. VgaWriteCrtc (of_nat i) (crtc_regs ! i)) [0..<25] s;
             s = fold (\<lambda>i. VgaWriteGraphicsController (of_nat i) (gc_regs ! i)) [0..<9] s;
             s = vga_inb VGA_INPUT_STATUS_1 s;
             s = fold (\<lambda>i s. vga_outb VGA_AC_WRITE (ac_regs ! i) (vga_outb VGA_AC_INDEX (of_nat i) s)) [0..<21] s;
             s = vga_inb VGA_INPUT_STATUS_1 s;
             s = vga_outb VGA_AC_INDEX 0x20 s;
             s = VgaInitializePalette s;
             s = serial_puts (''[VGA] graphics mode set'' @ crlf) s
         in (STATUS_SUCCESS, s))
      else if mode = VGA_MODE_TEXT_80x25 then (STATUS_SUCCESS, s)
      else (STATUS_INVALID_PARAMETER, s))"

subsection \<open>What the adapter does\<close>

record adapter =
  seq_index :: u8
  seq :: "u8 \<Rightarrow> u8"
  gc_index :: u8
  gc :: "u8 \<Rightarrow> u8"
  crtc_index :: u8
  crtc :: "u8 \<Rightarrow> u8"
  ac_data_next :: bool
  ac_index :: u8
  ac :: "u8 \<Rightarrow> u8"
  misc_output :: u8
  dac_index :: u8
  dac_pending :: "u8 list"
  dac :: "u8 \<Rightarrow> u8 list"
  planes :: "nat \<Rightarrow> u32 \<Rightarrow> u8"

text \<open>With bit 7 of CRTC register \<open>0x11\<close> set, registers 0 to 7 ignore writes, but for bit 4 of register 7.\<close>

definition crtc_write :: "u8 \<Rightarrow> adapter \<Rightarrow> adapter" where
  "crtc_write v h =
     (if bit (crtc h 0x11) 7 \<and> crtc_index h < 8 then
        if crtc_index h = 7 then
          h\<lparr>crtc := (crtc h)(7 := (crtc h 7 AND NOT 0x10) OR (v AND 0x10))\<rparr>
        else h
      else h\<lparr>crtc := (crtc h)(crtc_index h := v)\<rparr>)"

definition ac_write :: "u8 \<Rightarrow> adapter \<Rightarrow> adapter" where
  "ac_write v h =
     (if ac_data_next h then h\<lparr>ac := (ac h)(ac_index h AND 0x1F := v), ac_data_next := False\<rparr>
      else h\<lparr>ac_index := v, ac_data_next := True\<rparr>)"

definition dac_write :: "u8 \<Rightarrow> adapter \<Rightarrow> adapter" where
  "dac_write v h =
     (if length (dac_pending h) < 2 then h\<lparr>dac_pending := dac_pending h @ [v AND 0x3F]\<rparr>
      else h\<lparr>dac := (dac h)(dac_index h := dac_pending h @ [v AND 0x3F]), dac_pending := [],
             dac_index := dac_index h + 1\<rparr>)"

definition adapter_out :: "u16 \<Rightarrow> u8 \<Rightarrow> adapter \<Rightarrow> adapter" where
  "adapter_out port v h =
     (if port = 0x3C4 then h\<lparr>seq_index := v\<rparr>
      else if port = 0x3C5 then h\<lparr>seq := (seq h)(seq_index h := v)\<rparr>
      else if port = 0x3CE then h\<lparr>gc_index := v\<rparr>
      else if port = 0x3CF then h\<lparr>gc := (gc h)(gc_index h := v)\<rparr>
      else if port = 0x3D4 then h\<lparr>crtc_index := v\<rparr>
      else if port = 0x3D5 then crtc_write v h
      else if port = 0x3C0 then ac_write v h
      else if port = 0x3C2 then h\<lparr>misc_output := v\<rparr>
      else if port = 0x3C8 then h\<lparr>dac_index := v, dac_pending := []\<rparr>
      else if port = 0x3C9 then dac_write v h
      else h)"

definition plain_write :: "adapter \<Rightarrow> bool" where
  "plain_write h \<longleftrightarrow> gc h 1 = 0 \<and> gc h 3 = 0 \<and> gc h 5 = 0 \<and> gc h 8 = 0xFF \<and> seq h 4 = 0x06"

type_synonym other_write = "adapter \<Rightarrow> u32 \<Rightarrow> u8 \<Rightarrow> nat \<Rightarrow> u32 \<Rightarrow> u8"

definition adapter_store :: "other_write \<Rightarrow> u32 \<Rightarrow> u8 \<Rightarrow> adapter \<Rightarrow> adapter" where
  "adapter_store other addr v h =
     (if \<not> in_window addr then h
      else if plain_write h then
        h\<lparr>planes := (\<lambda>p. if p < 4 \<and> bit (seq h 2) p then (planes h p)(addr - VGA_BASE_ADDRESS := v) else planes h p)\<rparr>
      else h\<lparr>planes := other h addr v\<rparr>)"

fun adapter_step :: "other_write \<Rightarrow> vga_event \<Rightarrow> adapter \<Rightarrow> adapter" where
  "adapter_step other (Port_Out port v) h = adapter_out port v h"
| "adapter_step other (Port_In port) h = (if port = 0x3DA then h\<lparr>ac_data_next := False\<rparr> else h)"
| "adapter_step other (Mem_Store addr v) h = adapter_store other addr v h"

text \<open>The adapter after everything the kernel has sent it.\<close>

definition adapter_run :: "other_write \<Rightarrow> adapter \<Rightarrow> 'a vga_scheme \<Rightarrow> adapter" where
  "adapter_run other h s = fold (adapter_step other) (vga_io s) h"


lemma adapter_run_event:
  "adapter_run other h (vga_event e s) = adapter_step other e (adapter_run other h s)"
  by (simp add: adapter_run_def vga_event_def)

lemma adapter_run_cong: "vga_io s = vga_io t \<Longrightarrow> adapter_run other h s = adapter_run other h t"
  by (simp add: adapter_run_def)

lemma adapter_run_puts [simp]: "adapter_run other h (serial_puts str s) = adapter_run other h s"
  by (rule adapter_run_cong) (simp add: serial_puts_eq)

lemma adapter_run_out [simp]:
  "adapter_run other h (vga_outb port v s) = adapter_out port v (adapter_run other h s)"
proof -
  have "adapter_run other h (outb port v s) = adapter_run other h s"
    by (rule adapter_run_cong) (simp add: outb_def)
  then show ?thesis by (simp add: vga_outb_def adapter_run_event)
qed

lemma adapter_run_in [simp]:
  "adapter_run other h (vga_inb port s)
    = (if port = 0x3DA then (adapter_run other h s)\<lparr>ac_data_next := False\<rparr> else adapter_run other h s)"
  by (simp add: vga_inb_def adapter_run_event)

lemma adapter_run_store [simp]:
  "adapter_run other h (fb_store addr v s) = adapter_store other addr v (adapter_run other h s)"
proof -
  have "adapter_run other h (fb_store addr v s) = adapter_run other h (vga_event (Mem_Store addr v) s)"
    by (rule adapter_run_cong) (simp add: fb_store_def Let_def)
  then show ?thesis by (simp add: adapter_run_event)
qed

lemma fb_store_window: "in_window addr \<Longrightarrow> fb_store addr v s = vga_event (Mem_Store addr v) s"
  by (simp add: fb_store_def)

lemma in_window_offset: "off < 0x10000 \<Longrightarrow> in_window (VGA_BASE_ADDRESS + of_nat off)"
  by (simp add: in_window_def unat_of_nat_u32)

lemma adapter_run_sequencer [simp]:
  "adapter_run other h (VgaWriteSequencer i v s)
    = (adapter_run other h s)\<lparr>seq_index := i, seq := (seq (adapter_run other h s))(i := v)\<rparr>"
  by (simp add: VgaWriteSequencer_def adapter_out_def const_defs)

lemma adapter_run_graphics [simp]:
  "adapter_run other h (VgaWriteGraphicsController i v s)
    = (adapter_run other h s)\<lparr>gc_index := i, gc := (gc (adapter_run other h s))(i := v)\<rparr>"
  by (simp add: VgaWriteGraphicsController_def adapter_out_def const_defs)

lemma adapter_run_crtc [simp]:
  "adapter_run other h (VgaWriteCrtc i v s) = crtc_write v ((adapter_run other h s)\<lparr>crtc_index := i\<rparr>)"
  by (simp add: VgaWriteCrtc_def adapter_out_def const_defs)

lemma adapter_run_ac_pair:
  "\<not> ac_data_next (adapter_run other h s) \<Longrightarrow>
    adapter_run other h (vga_outb VGA_AC_WRITE v (vga_outb VGA_AC_INDEX i s))
    = (adapter_run other h s)\<lparr>ac_index := i, ac := (ac (adapter_run other h s))(i AND 0x1F := v)\<rparr>"
  by (simp add: adapter_out_def ac_write_def const_defs)

subsection \<open>Programming a bank of registers\<close>

text \<open>The registers below \<open>n\<close> hold the table's values, the others what they held.\<close>

definition bank :: "nat \<Rightarrow> u8 list \<Rightarrow> (u8 \<Rightarrow> u8) \<Rightarrow> u8 \<Rightarrow> u8" where
  "bank n rs f = (\<lambda>r. if unat r < n then rs ! unat r else f r)"

lemma bank_0 [simp]: "bank 0 rs f = f"
  by (simp add: bank_def)

lemma unat_of_nat_u8: "n < 256 \<Longrightarrow> unat (of_nat n :: u8) = n"
  by (simp add: unat_of_nat take_bit_eq_mod)

lemma bank_Suc: "n < 256 \<Longrightarrow> (bank n rs f)(of_nat n := rs ! n) = bank (Suc n) rs f"
  by (rule ext) (auto simp: bank_def unat_of_nat_u8 less_Suc_eq)

lemma bank_reg: "i < n \<Longrightarrow> n \<le> 256 \<Longrightarrow> bank n rs f (of_nat i) = rs ! i"
  by (simp add: bank_def unat_of_nat_u8)

lemma write_seq_bank:
  "n \<le> 256 \<Longrightarrow> \<exists>i. adapter_run other h (fold (\<lambda>i. VgaWriteSequencer (of_nat i) (rs ! i)) [0..<n] s)
    = (adapter_run other h s)\<lparr>seq_index := i, seq := bank n rs (seq (adapter_run other h s))\<rparr>"
proof (induction n)
  case 0
  then show ?case by (intro exI [of _ "seq_index (adapter_run other h s)"]) simp
next
  case (Suc n)
  then have "n < 256" "n \<le> 256" by simp_all
  then obtain i where i: "adapter_run other h (fold (\<lambda>i. VgaWriteSequencer (of_nat i) (rs ! i)) [0..<n] s)
    = (adapter_run other h s)\<lparr>seq_index := i, seq := bank n rs (seq (adapter_run other h s))\<rparr>"
    using Suc.IH by blast
  show ?case
    using bank_Suc [OF \<open>n < 256\<close>] by (intro exI [of _ "of_nat n"]) (simp add: i)
qed

lemma write_gc_bank:
  "n \<le> 256 \<Longrightarrow> \<exists>i. adapter_run other h (fold (\<lambda>i. VgaWriteGraphicsController (of_nat i) (rs ! i)) [0..<n] s)
    = (adapter_run other h s)\<lparr>gc_index := i, gc := bank n rs (gc (adapter_run other h s))\<rparr>"
proof (induction n)
  case 0
  then show ?case by (intro exI [of _ "gc_index (adapter_run other h s)"]) simp
next
  case (Suc n)
  then have "n < 256" "n \<le> 256" by simp_all
  then obtain i where i: "adapter_run other h (fold (\<lambda>i. VgaWriteGraphicsController (of_nat i) (rs ! i)) [0..<n] s)
    = (adapter_run other h s)\<lparr>gc_index := i, gc := bank n rs (gc (adapter_run other h s))\<rparr>"
    using Suc.IH by blast
  show ?case
    using bank_Suc [OF \<open>n < 256\<close>] by (intro exI [of _ "of_nat n"]) (simp add: i)
qed

text \<open>The CRTC's table, when its first registers are unlocked: register \<open>0x11\<close> comes after them.\<close>

lemma write_crtc_bank:
  assumes "n \<le> 256" "\<not> bit (crtc (adapter_run other h s) 0x11) 7"
  shows "\<exists>i. adapter_run other h (fold (\<lambda>i. VgaWriteCrtc (of_nat i) (rs ! i)) [0..<n] s)
    = (adapter_run other h s)\<lparr>crtc_index := i, crtc := bank n rs (crtc (adapter_run other h s))\<rparr>"
  using assms(1)
proof (induction n)
  case 0
  then show ?case by (intro exI [of _ "crtc_index (adapter_run other h s)"]) simp
next
  case (Suc n)
  then have n: "n < 256" "n \<le> 256" by simp_all
  then obtain i where i: "adapter_run other h (fold (\<lambda>i. VgaWriteCrtc (of_nat i) (rs ! i)) [0..<n] s)
    = (adapter_run other h s)\<lparr>crtc_index := i, crtc := bank n rs (crtc (adapter_run other h s))\<rparr>"
    using Suc.IH by blast
  have "\<not> bit (bank n rs (crtc (adapter_run other h s)) 0x11) 7" if "(of_nat n :: u8) < 8"
    using that assms(2) n(1) by (simp add: bank_def word_less_nat_alt unat_of_nat_u8)
  then show ?case
    using bank_Suc [OF n(1)]
    by (intro exI [of _ "of_nat n"]) (auto simp: i crtc_write_def)
qed

lemma write_ac_bank:
  assumes "n \<le> 32" "\<not> ac_data_next (adapter_run other h s)"
  shows "\<exists>i. adapter_run other h
      (fold (\<lambda>i s. vga_outb VGA_AC_WRITE (rs ! i) (vga_outb VGA_AC_INDEX (of_nat i) s)) [0..<n] s)
    = (adapter_run other h s)\<lparr>ac_index := i, ac := bank n rs (ac (adapter_run other h s))\<rparr>"
  using assms(1)
proof (induction n)
  case 0
  then show ?case by (intro exI [of _ "ac_index (adapter_run other h s)"]) simp
next
  case (Suc n)
  then have n: "n < 256" "n < 32" "n \<le> 32" by simp_all
  then obtain i where i: "adapter_run other h
      (fold (\<lambda>i s. vga_outb VGA_AC_WRITE (rs ! i) (vga_outb VGA_AC_INDEX (of_nat i) s)) [0..<n] s)
    = (adapter_run other h s)\<lparr>ac_index := i, ac := bank n rs (ac (adapter_run other h s))\<rparr>"
    using Suc.IH by blast
  have low: "(of_nat n :: u8) AND 0x1F = take_bit 5 (of_nat n)"
    by (simp add: take_bit_eq_mask mask_eq_exp_minus_1)
  have "unat (take_bit 5 (of_nat n :: u8)) = unat (of_nat n :: u8)"
    unfolding unsigned_take_bit_eq unat_of_nat_u8 [OF n(1)] using n(2) by (simp add: take_bit_nat_eq_self)
  then have idx: "(of_nat n :: u8) AND 0x1F = of_nat n" unfolding low by (simp only: word_unat_eq_iff)
  have "\<not> ac_data_next (adapter_run other h
      (fold (\<lambda>i s. vga_outb VGA_AC_WRITE (rs ! i) (vga_outb VGA_AC_INDEX (of_nat i) s)) [0..<n] s))"
    using assms(2) by (simp add: i)
  from adapter_run_ac_pair [OF this] show ?case
    using bank_Suc [OF n(1)] by (intro exI [of _ "of_nat n"]) (simp add: i idx del: adapter_run_out)
qed

lemma set_palette_entry:
  "adapter_run other h (VgaSetPalette i r g b s)
    = (adapter_run other h s)\<lparr>dac_index := i + 1, dac_pending := [],
        dac := (dac (adapter_run other h s))(i := [r AND 0x3F, g AND 0x3F, b AND 0x3F])\<rparr>"
  by (simp add: VgaSetPalette_def Let_def adapter_out_def dac_write_def)


subsection \<open>Properties\<close>

definition palette_16 :: "u8 list list" where
  "palette_16 = [[0, 0, 0], [0, 0, 42], [0, 42, 0], [0, 42, 42], [42, 0, 0], [42, 0, 42], [42, 21, 0],
     [42, 42, 42], [21, 21, 21], [21, 21, 63], [21, 63, 21], [21, 63, 63], [63, 21, 21], [63, 21, 63],
     [63, 63, 21], [63, 63, 63]]"

lemma set_palette_6bit:
  assumes "adapter_run other h s = a\<lparr>dac_index := i', dac_pending := [], dac := d\<rparr>"
    and "r AND 0x3F = r" "g AND 0x3F = g" "b AND 0x3F = b"
  shows "adapter_run other h (VgaSetPalette i r g b s)
    = a\<lparr>dac_index := i + 1, dac_pending := [], dac := d(i := [r, g, b])\<rparr>"
  using assms by (simp add: set_palette_entry)

lemma palette_programmed:
  assumes "adapter_run other h s = a"
  shows "adapter_run other h (VgaInitializePalette s) = a\<lparr>dac_index := 16, dac_pending := [],
     dac := (dac a)(0 := [0, 0, 0],
       1 := [0, 0, 42],
       2 := [0, 42, 0],
       3 := [0, 42, 42],
       4 := [42, 0, 0],
       5 := [42, 0, 42],
       6 := [42, 21, 0],
       7 := [42, 42, 42],
       8 := [21, 21, 21],
       9 := [21, 21, 63],
       10 := [21, 63, 21],
       11 := [21, 63, 63],
       12 := [63, 21, 21],
       13 := [63, 21, 63],
       14 := [63, 63, 21],
       15 := [63, 63, 63])\<rparr>"
proof -
  note step = set_palette_6bit [where a = a]
  have "adapter_run other h (VgaSetPalette 0 0 0 0 s)
      = a\<lparr>dac_index := 1, dac_pending := [], dac := (dac a)(0 := [0, 0, 0])\<rparr>"
    using assms by (simp add: set_palette_entry)
  note step [OF this, of 0 0 42 1, simplified]
  note step [OF this, of 0 42 0 2, simplified]
  note step [OF this, of 0 42 42 3, simplified]
  note step [OF this, of 42 0 0 4, simplified]
  note step [OF this, of 42 0 42 5, simplified]
  note step [OF this, of 42 21 0 6, simplified]
  note step [OF this, of 42 42 42 7, simplified]
  note step [OF this, of 21 21 21 8, simplified]
  note step [OF this, of 21 21 63 9, simplified]
  note step [OF this, of 21 63 21 10, simplified]
  note step [OF this, of 21 63 63 11, simplified]
  note step [OF this, of 63 21 21 12, simplified]
  note step [OF this, of 63 21 63 13, simplified]
  note step [OF this, of 63 63 21 14, simplified]
  note step [OF this, of 63 63 63 15, simplified]
  then show ?thesis unfolding VgaInitializePalette_def Let_def .
qed

lemma VgaSetMode_programs:
  "fst (VgaSetMode crtc17 0x12 s) = STATUS_SUCCESS
    \<and> (let old = adapter_run other h s; new = adapter_run other h (snd (VgaSetMode crtc17 0x12 s)) in
        map (\<lambda>i. seq new (of_nat i)) [0..<5] = seq_regs
      \<and> map (\<lambda>i. crtc new (of_nat i)) [0..<25] = crtc_regs
      \<and> map (\<lambda>i. gc new (of_nat i)) [0..<9] = gc_regs
      \<and> map (\<lambda>i. ac new (of_nat i)) [0..<21] = ac_regs
      \<and> map (\<lambda>i. dac new (of_nat i)) [0..<16] = palette_16
      \<and> misc_output new = 0xE3 \<and> ac_index new = 0x20
      \<and> plain_write new \<and> seq new 2 = 0x0F \<and> planes new = planes old)"
proof -
  define a where "a = adapter_run other h s"
  define s1 where "s1 = (let s = serial_puts (''[VGA] VgaSetMode called'' @ crlf) s;
             s = serial_puts (''[VGA] switching to graphics mode'' @ crlf) s;
             s = vga_outb VGA_SEQ_INDEX 0x00 s;
             s = vga_outb VGA_SEQ_DATA 0x01 s;
             s = vga_outb 0x80 0 s; s = vga_outb 0x80 0 s; s = vga_outb 0x80 0 s;
             s = vga_outb VGA_SEQ_INDEX 0x00 s;
             s = vga_outb VGA_SEQ_DATA 0x03 s;
             s = vga_outb VGA_CRTC_INDEX 0x11 s;
             s = vga_outb VGA_CRTC_DATA (crtc17 AND NOT 0x80) (vga_inb VGA_CRTC_DATA s)
         in vga_outb VGA_MISC_WRITE 0xE3 s)"
  define s2 where "s2 = fold (\<lambda>i. VgaWriteSequencer (of_nat i) (seq_regs ! i)) [0..<5] s1"
  define s3 where "s3 = fold (\<lambda>i. VgaWriteCrtc (of_nat i) (crtc_regs ! i)) [0..<25] s2"
  define s4 where "s4 = fold (\<lambda>i. VgaWriteGraphicsController (of_nat i) (gc_regs ! i)) [0..<9] s3"
  define s5 where "s5 = fold (\<lambda>i s. vga_outb VGA_AC_WRITE (ac_regs ! i) (vga_outb VGA_AC_INDEX (of_nat i) s))
      [0..<21] (vga_inb VGA_INPUT_STATUS_1 s4)"
  define s6 where "s6 = VgaInitializePalette (vga_outb VGA_AC_INDEX 0x20 (vga_inb VGA_INPUT_STATUS_1 s5))"
  have res: "VgaSetMode crtc17 0x12 s = (STATUS_SUCCESS, serial_puts (''[VGA] graphics mode set'' @ crlf) s6)"
    unfolding VgaSetMode_def Let_def s6_def s5_def s4_def s3_def s2_def s1_def
    by (simp only: VGA_MODE_GRAPHICS_640x480x16_def if_True refl)
  have crtc_i: "\<not> bit (crtc17 AND NOT 0x80) 7" by (simp add: bit_simps)
  have a1: "adapter_run other h s1 = a\<lparr>seq_index := 0, seq := (seq a)(0 := 3), crtc_index := 0x11,
      crtc := (crtc a)(0x11 := crtc17 AND NOT 0x80), misc_output := 0xE3\<rparr>"
    unfolding s1_def Let_def a_def [symmetric]
    by (simp add: adapter_out_def crtc_write_def const_defs a_def [symmetric])
  obtain i2 where a2: "adapter_run other h s2
      = (adapter_run other h s1)\<lparr>seq_index := i2, seq := bank 5 seq_regs (seq (adapter_run other h s1))\<rparr>"
    using write_seq_bank [of 5 other h seq_regs s1] unfolding s2_def by auto
  have "\<not> bit (crtc (adapter_run other h s2) 0x11) 7" using crtc_i by (simp add: a2 a1)
  then obtain i3 where a3: "adapter_run other h s3
      = (adapter_run other h s2)\<lparr>crtc_index := i3, crtc := bank 25 crtc_regs (crtc (adapter_run other h s2))\<rparr>"
    using write_crtc_bank [of 25 other h s2 crtc_regs] unfolding s3_def by auto
  obtain i4 where a4: "adapter_run other h s4
      = (adapter_run other h s3)\<lparr>gc_index := i4, gc := bank 9 gc_regs (gc (adapter_run other h s3))\<rparr>"
    using write_gc_bank [of 9 other h gc_regs s3] unfolding s4_def by auto
  have "\<not> ac_data_next (adapter_run other h (vga_inb VGA_INPUT_STATUS_1 s4))" by (simp add: const_defs)
  then obtain i5 where a5: "adapter_run other h s5
      = (adapter_run other h (vga_inb VGA_INPUT_STATUS_1 s4))
          \<lparr>ac_index := i5, ac := bank 21 ac_regs (ac (adapter_run other h (vga_inb VGA_INPUT_STATUS_1 s4)))\<rparr>"
    using write_ac_bank [of 21 other h "vga_inb VGA_INPUT_STATUS_1 s4" ac_regs] unfolding s5_def by auto
  obtain d where d: "adapter_run other h s6
      = (adapter_run other h (vga_outb VGA_AC_INDEX 0x20 (vga_inb VGA_INPUT_STATUS_1 s5)))
          \<lparr>dac_index := 16, dac_pending := [], dac := d\<rparr>" "map (\<lambda>i. d (of_nat i)) [0..<16] = palette_16"
    by (rule that, unfold s6_def, rule palette_programmed [OF refl])
      (simp add: palette_16_def upt_conv_Cons del: adapter_run_out adapter_run_in)
  have a6: "adapter_run other h s6 = (adapter_run other h s5)
      \<lparr>ac_index := 0x20, ac_data_next := True, dac_index := 16, dac_pending := [], dac := d\<rparr>"
    unfolding d(1) by (simp add: adapter_out_def ac_write_def const_defs)
  have regs: "map (\<lambda>i. bank (length rs) rs f (of_nat i)) [0..<length rs] = rs" if "length rs \<le> 256" for rs f
    using that by (intro nth_equalityI) (simp_all add: bank_reg)
  have len: "length seq_regs = 5" "length crtc_regs = 25" "length gc_regs = 9" "length ac_regs = 21"
    by (simp_all add: seq_regs_def crtc_regs_def gc_regs_def ac_regs_def)
  define new where "new = adapter_run other h s6"
  have new: "seq new = bank (length seq_regs) seq_regs ((seq a)(0 := 3))"
    "crtc new = bank (length crtc_regs) crtc_regs ((crtc a)(0x11 := crtc17 AND NOT 0x80))"
    "gc new = bank (length gc_regs) gc_regs (gc a)" "ac new = bank (length ac_regs) ac_regs (ac a)"
    "dac new = d" "misc_output new = 0xE3" "ac_index new = 0x20" "planes new = planes a"
    unfolding new_def a6 a5 by (simp_all add: a4 a3 a2 a1 len const_defs)
  have plain: "plain_write new" "seq new 2 = 0x0F"
    unfolding plain_write_def new by (simp_all add: bank_def len) (simp_all add: gc_regs_def seq_regs_def)
  have tables: "map (\<lambda>i. seq new (of_nat i)) [0..<length seq_regs] = seq_regs"
    "map (\<lambda>i. crtc new (of_nat i)) [0..<length crtc_regs] = crtc_regs"
    "map (\<lambda>i. gc new (of_nat i)) [0..<length gc_regs] = gc_regs"
    "map (\<lambda>i. ac new (of_nat i)) [0..<length ac_regs] = ac_regs"
    unfolding new(1-4) by (rule regs, simp add: len)+
  show ?thesis
    unfolding Let_def res snd_conv fst_conv adapter_run_puts a_def [symmetric] new_def [symmetric]
    using tables [unfolded len] plain new(5-8) d(2) by (simp only: simp_thms)
qed

text \<open>
  C36: Whatever a boot loader left in the adapter, the CRTC protection and the attribute
  controller's flip-flop included, and whatever byte the CRTC port gives back, \<open>VgaSetMode(0x12)\<close>
  succeeds and leaves every register of the four tables, the miscellaneous register and the
  sixteen colours as the driver's tables say, the display enabled, memory writes plain on all four
  planes and the picture in memory untouched.
\<close>

theorem VgaSetMode_programs_graphics_mode:
  "fst (VgaSetMode crtc17 0x12 s) = STATUS_SUCCESS
    \<and> (let old = adapter_run other h s; new = adapter_run other h (snd (VgaSetMode crtc17 0x12 s)) in
        map (\<lambda>i. seq new (of_nat i)) [0..<5] = seq_regs
      \<and> map (\<lambda>i. crtc new (of_nat i)) [0..<25] = crtc_regs
      \<and> map (\<lambda>i. gc new (of_nat i)) [0..<9] = gc_regs
      \<and> map (\<lambda>i. ac new (of_nat i)) [0..<21] = ac_regs
      \<and> map (\<lambda>i. dac new (of_nat i)) [0..<16] = palette_16
      \<and> misc_output new = 0xE3 \<and> ac_index new = 0x20
      \<and> plain_write new \<and> seq new 2 = 0x0F \<and> planes new = planes old)"
  by (rule VgaSetMode_programs)

end
