(* ===== verification/Canvas.thy ===== *)
theory Canvas
  imports Prelude
begin

section \<open>A surface of pixels\<close>

text \<open>
  The interface between the code that owns a picture and the code that draws on it: \<open>get\<close> reads a
  pixel, \<open>put\<close> writes one, \<open>inside\<close> says which coordinates exist, \<open>ok\<close> is what the owner keeps
  true. The laws are those of a map from coordinates to colours that ignores writes outside. The
  glyph, cursor and rectangle loops of the sources are all one grid of conditional writes,
  whose effect is proved here once.
\<close>

locale canvas =
  fixes get :: "'s \<Rightarrow> int \<Rightarrow> int \<Rightarrow> 'c"
    and put :: "int \<Rightarrow> int \<Rightarrow> 'c \<Rightarrow> 's \<Rightarrow> 's"
    and ok :: "'s \<Rightarrow> bool"
    and inside :: "int \<Rightarrow> int \<Rightarrow> bool"
  assumes ok_put: "ok s \<Longrightarrow> ok (put x y c s)"
    and get_put: "ok s \<Longrightarrow> inside x y \<Longrightarrow> get (put x y c s) u v = (if u = x \<and> v = y then c else get s u v)"
    and put_outside: "ok s \<Longrightarrow> \<not> inside x y \<Longrightarrow> put x y c s = s"
begin

lemma ok_cells:
  "ok s \<Longrightarrow> ok (fold (\<lambda>i s. case f i of Some c \<Rightarrow> put (x i) (y i) c s | None \<Rightarrow> s) is s)"
  by (induction "is" arbitrary: s) (auto simp: ok_put split: option.split)

text \<open>A row of cells at distinct places: each cell shows its own colour, the rest stays.\<close>

lemma get_row:
  assumes "ok s"
  shows "get (fold (\<lambda>i s. case f i of Some c \<Rightarrow> put (x + int i) y c s | None \<Rightarrow> s) [0..<w] s) u v
    = (if v = y \<and> x \<le> u \<and> u < x + int w \<and> inside u v
       then (case f (nat (u - x)) of Some c \<Rightarrow> c | None \<Rightarrow> get s u v) else get s u v)"
proof (induction w)
  case 0
  then show ?case by auto
next
  case (Suc w)
  let ?s = "fold (\<lambda>i s. case f i of Some c \<Rightarrow> put (x + int i) y c s | None \<Rightarrow> s) [0..<w] s"
  have ok: "ok ?s" using assms by (rule ok_cells)
  have step: "get (case f w of Some c \<Rightarrow> put (x + int w) y c ?s | None \<Rightarrow> ?s) u v
      = (case f w of Some c \<Rightarrow> if u = x + int w \<and> v = y \<and> inside u v then c else get ?s u v
         | None \<Rightarrow> get ?s u v)"
    using get_put [OF ok, of "x + int w" y _ u v] put_outside [OF ok, of "x + int w" y]
    by (cases "inside (x + int w) y") (auto split: option.split)
  have "u < x + int (Suc w) \<longleftrightarrow> u < x + int w \<or> u = x + int w" by auto
  with step Suc.IH show ?case by (auto split: option.split)
qed

lemma ok_grid:
  "ok s \<Longrightarrow> ok (fold (\<lambda>r. fold (\<lambda>i s. case f r i of Some c \<Rightarrow> put (x + int i) (y + int r) c s | None \<Rightarrow> s) [0..<w]) rs s)"
  by (induction rs arbitrary: s) (auto simp: ok_cells)

lemma get_grid:
  assumes "ok s"
  shows "get (fold (\<lambda>r. fold (\<lambda>i s. case f r i of Some c \<Rightarrow> put (x + int i) (y + int r) c s | None \<Rightarrow> s) [0..<w])
      [0..<h] s) u v
    = (if x \<le> u \<and> u < x + int w \<and> y \<le> v \<and> v < y + int h \<and> inside u v
       then (case f (nat (v - y)) (nat (u - x)) of Some c \<Rightarrow> c | None \<Rightarrow> get s u v) else get s u v)"
proof (induction h)
  case 0
  then show ?case by auto
next
  case (Suc h)
  have "v < y + int (Suc h) \<longleftrightarrow> v < y + int h \<or> v = y + int h" by auto
  then show ?case
    using Suc.IH by (simp add: get_row [OF ok_grid [OF assms]]) (auto split: option.split)
qed

end

end
