(* ===== verification/Vga_Screen.thy ===== *)
theory Vga_Screen
  imports Vga_Hardware Canvas "HOL-Library.Signed_Division"
begin

unbundle bit_operations_syntax

section \<open>Pixels and rectangles\<close>

text \<open>
  Models \<open>drivers/video/vga/vga_screen.c\<close> but for its line (in \<open>Vga_Draw\<close>). Every pixel is kept
  twice: in the shadow buffer, one byte each, and in the adapter's four planes, one bit in each.
  \<open>shows_shadow\<close> says that the planes hold what the shadow says; the operations are shown to keep
  it, but for a rectangle that crosses the right edge.

  \<open>INT\<close> values are integers. Where a sum or a difference of them can leave 32 bits and this shows, it
  is wrapped with \<open>INT32\<close>: the right end of a line of a rectangle, its distances, and the index of a
  byte in it. The row \<open>y + row\<close> and the column \<open>x + col\<close> of a pixel are not wrapped: where they
  overflow, the wrapped value is negative and the exact one past the screen, and both are skipped
  (\<open>wrapped_pixel_is_skipped\<close>). An index into the shadow buffer is a natural number.

  A rectangle that is wide enough writes past the adapter's 64 KB into the machine's memory, see
  \<open>fb_store\<close>. \<open>rect_in_window\<close> describes rectangles that do not; \<open>undrawn\<close> leaves the memory
  out, and the facts that an operation keeps it stand apart.
\<close>

subsection \<open>Operations\<close>

definition SHADOW_W :: nat where "SHADOW_W = 640"
definition SHADOW_H :: nat where "SHADOW_H = 480"

abbreviation vga_extension :: "'a vga_scheme \<Rightarrow> u32" where
  "vga_extension s \<equiv> DeviceExtension (io_devices s (g_VgaDevice s))"

definition VgaGetPixel :: "int \<Rightarrow> int \<Rightarrow> 'a vga_scheme \<Rightarrow> u8" where
  "VgaGetPixel x y s =
     (if x < 0 \<or> x \<ge> int SHADOW_W \<or> y < 0 \<or> y \<ge> int SHADOW_H then 0
      else g_shadow s (nat (y * int SHADOW_W + x)))"

definition VgaSetDeviceObject :: "u32 \<Rightarrow> 'a vga_scheme \<Rightarrow> 'a vga_scheme" where
  "VgaSetDeviceObject dev s = s\<lparr>g_VgaDevice := dev\<rparr>"

definition VgaGetDeviceObject :: "'a vga_scheme \<Rightarrow> u32" where
  "VgaGetDeviceObject s = g_VgaDevice s"

text \<open>The byte of plane \<open>p\<close> that covers the eight pixels around \<open>x\<close>, from the shadow.\<close>

definition plane_value :: "nat \<Rightarrow> int \<Rightarrow> int \<Rightarrow> (nat \<Rightarrow> u8) \<Rightarrow> u8" where
  "plane_value p x y shadow =
     (let base = x div 8 * 8 in
      fold (\<lambda>b v. let px = base + int b in
          if px < 0 \<or> px \<ge> int SHADOW_W then v
          else if shadow (nat (y * int SHADOW_W + px)) AND push_bit p 1 \<noteq> 0 then v OR drop_bit b 0x80
          else v) [0..<8] 0)"

definition VgaPutPixel :: "int \<Rightarrow> int \<Rightarrow> u8 \<Rightarrow> 'a vga_scheme \<Rightarrow> 'a vga_scheme" where
  "VgaPutPixel x y color s =
     (if g_VgaDevice s = 0 then s
      else let de = io_exts s (vga_extension s) in
        if vga_extension s = 0 \<or> GraphicsMode de = 0 then s
        else if x < 0 \<or> x \<ge> sint (ScreenWidth de) then s
        else if y < 0 \<or> y \<ge> sint (ScreenHeight de) then s
        else
          (let byte = word_of_int y * (ScreenWidth de div 8) + word_of_int (x div 8);
               s = s\<lparr>g_shadow := (g_shadow s)(nat (y * int SHADOW_W + x) := color)\<rparr>;
               s = fold (\<lambda>p s. fb_store (FrameBuffer de + byte) (plane_value p x y (g_shadow s))
                     (VgaWriteSequencer 2 (push_bit p 1) s)) [0..<4] s
           in VgaWriteSequencer 2 0x0F s))"

definition VgaClearScreen :: "u8 \<Rightarrow> 'a vga_scheme \<Rightarrow> 'a vga_scheme" where
  "VgaClearScreen color s =
     (if g_VgaDevice s = 0 then s
      else let de = io_exts s (vga_extension s) in
        if vga_extension s = 0 \<or> GraphicsMode de = 0 then s
        else
          (let size = ScreenHeight de * (ScreenWidth de div 8);
               s = fold (\<lambda>p s. let s = VgaWriteSequencer 2 (push_bit p 1) s;
                                   fill = (if color AND push_bit p 1 \<noteq> 0 then 0xFF else 0x00)
                               in fold (\<lambda>i. fb_store (FrameBuffer de + of_nat i) fill) [0..<unat size] s) [0..<4] s;
               s = VgaWriteSequencer 2 0x0F s
           in s\<lparr>g_shadow := fold (\<lambda>i sh. sh(i := color)) [0..<SHADOW_W * SHADOW_H] (g_shadow s)\<rparr>))"

definition fill_shadow :: "int \<Rightarrow> int \<Rightarrow> int \<Rightarrow> int \<Rightarrow> u8 \<Rightarrow> (nat \<Rightarrow> u8) \<Rightarrow> nat \<Rightarrow> u8" where
  "fill_shadow x y width height color =
     fold (\<lambda>row shadow. let yy = y + int row in
         if yy < 0 \<or> yy \<ge> int SHADOW_H then shadow
         else fold (\<lambda>col shadow. let xx = x + int col in
                if xx < 0 \<or> xx \<ge> int SHADOW_W then shadow
                else shadow(nat (yy * int SHADOW_W + xx) := color)) [0..<nat width] shadow)
       [0..<nat height]"

text \<open>\<open>while (start < end && (start & 7)) { VgaPutPixel(start, yy, Color); start++; }\<close>\<close>

function fill_head :: "int \<Rightarrow> int \<Rightarrow> int \<Rightarrow> u8 \<Rightarrow> 'a vga_scheme \<Rightarrow> int \<times> 'a vga_scheme" where
  "fill_head start end_x yy color s =
     (if start < end_x \<and> start mod 8 \<noteq> 0
      then fill_head (start + 1) end_x yy color (VgaPutPixel start yy color s) else (start, s))"
  by pat_completeness auto
termination by (relation "measure (\<lambda>(start, end_x, _). nat (end_x - start))") auto

function fill_tail :: "int \<Rightarrow> int \<Rightarrow> int \<Rightarrow> u8 \<Rightarrow> 'a vga_scheme \<Rightarrow> 'a vga_scheme" where
  "fill_tail start end_x yy color s =
     (if start < end_x then fill_tail (start + 1) end_x yy color (VgaPutPixel start yy color s) else s)"
  by pat_completeness auto
termination by (relation "measure (\<lambda>(start, end_x, _). nat (end_x - start))") auto

declare fill_head.simps [simp del] fill_tail.simps [simp del]

definition fill_bytes :: "u32 \<Rightarrow> nat \<Rightarrow> u8 \<Rightarrow> 'a vga_scheme \<Rightarrow> 'a vga_scheme" where
  "fill_bytes ptr full color s =
     (let s = fold (\<lambda>p s. let s = VgaWriteSequencer 2 (push_bit p 1) s;
                          mask = (if color AND push_bit p 1 \<noteq> 0 then 0xFF else 0x00)
                      in fold (\<lambda>b. fb_store (ptr + of_nat b) mask) [0..<full] s) [0..<4] s
      in VgaWriteSequencer 2 0x0F s)"

text \<open>The loops over the bytes run for no negative number, as \<open>nat\<close> has it.\<close>

definition fill_row :: "vga_device_extension \<Rightarrow> int \<Rightarrow> int \<Rightarrow> int \<Rightarrow> u8 \<Rightarrow> 'a vga_scheme \<Rightarrow> 'a vga_scheme" where
  "fill_row de x width yy color s =
     (if yy < 0 \<or> yy \<ge> uint (ScreenHeight de) then s
      else let dest = FrameBuffer de + word_of_int yy * word_of_int (sint (ScreenWidth de) div 8);
               end_x = INT32 (x + width);
               (start, s) = fill_head x end_x yy color s;
               (start, s) =
                 (if INT32 (start + 8) \<le> end_x then
                    (let full = INT32 (end_x - start) sdiv 8
                     in (INT32 (start + full * 8),
                         fill_bytes (dest + word_of_int (start sdiv 8)) (nat full) color s))
                  else (start, s))
           in fill_tail start end_x yy color s)"

lemma wrapped_pixel_is_skipped:
  assumes "- 2147483648 \<le> x" "x < 2147483648" "0 \<le> i" "i < 2147483648" "n \<le> 2147483648"
  shows "(if INT32 (x + i) < 0 \<or> n \<le> INT32 (x + i) then None else Some (INT32 (x + i)))
    = (if x + i < 0 \<or> n \<le> x + i then None else Some (x + i))"
proof (cases "x + i < 2147483648")
  case True
  then show ?thesis using assms by (simp add: INT32_id)
next
  case False
  have "INT32 (x + i) = INT32 (x + i - 4294967296)" by (rule INT32_wraps)
  also have "\<dots> = x + i - 4294967296" using False assms by (intro INT32_id) simp_all
  finally show ?thesis using False assms by simp
qed

definition VgaFillRect :: "int \<Rightarrow> int \<Rightarrow> int \<Rightarrow> int \<Rightarrow> u8 \<Rightarrow> 'a vga_scheme \<Rightarrow> 'a vga_scheme" where
  "VgaFillRect x y width height color s =
     (let s = serial_puts (''[vga] VgaFillRect start'' @ [CHR 0x0A]) s in
      if width \<le> 0 \<or> height \<le> 0 then s
      else let s = s\<lparr>g_shadow := fill_shadow x y width height color (g_shadow s)\<rparr>;
               s = serial_puts (''[vga] VgaFillRect shadow done'' @ [CHR 0x0A]) s in
        if g_VgaDevice s = 0 then s
        else let de = io_exts s (vga_extension s) in
          if vga_extension s = 0 \<or> GraphicsMode de = 0 then s
          else (let s = fold (\<lambda>row. fill_row de x width (y + int row) color) [0..<nat height] s
                in serial_puts (''[vga] VgaFillRect hardware done'' @ [CHR 0x0A]) s))"

subsection \<open>The device\<close>

text \<open>The VGA device as \<open>VgaInitializeDevice\<close> sets it up.\<close>

definition graphics_ready :: "'a vga_scheme \<Rightarrow> bool" where
  "graphics_ready s \<longleftrightarrow> g_VgaDevice s \<noteq> 0 \<and> vga_extension s \<noteq> 0
     \<and> GraphicsMode (io_exts s (vga_extension s)) \<noteq> 0
     \<and> FrameBuffer (io_exts s (vga_extension s)) = VGA_BASE_ADDRESS
     \<and> ScreenWidth (io_exts s (vga_extension s)) = 640 \<and> ScreenHeight (io_exts s (vga_extension s)) = 480"

text \<open>What drawing leaves alone: everything but the shadow, the traces, the serial log and the memory.\<close>

definition undrawn :: "'a vga_scheme \<Rightarrow> 'a vga_scheme" where
  "undrawn s = s\<lparr>g_shadow := \<lambda>_. 0, vga_io := [], port_out := [], serial_out := [], phys_mem := \<lambda>_. 0\<rparr>"

lemma undrawn_ready: "undrawn s = undrawn t \<Longrightarrow> graphics_ready s = graphics_ready t"
proof -
  have "graphics_ready u = graphics_ready (undrawn u)" for u :: "'a vga_scheme"
    by (simp add: graphics_ready_def undrawn_def)
  then show "undrawn s = undrawn t \<Longrightarrow> graphics_ready s = graphics_ready t" by metis
qed

lemma undrawn_parts:
  assumes "undrawn s = undrawn t"
  shows "io_exts s = io_exts t" "io_devices s = io_devices t" "g_VgaDevice s = g_VgaDevice t"
proof -
  have "io_exts u = io_exts (undrawn u)" "io_devices u = io_devices (undrawn u)"
    "g_VgaDevice u = g_VgaDevice (undrawn u)" for u :: "'a vga_scheme"
    by (simp_all add: undrawn_def)
  then show "io_exts s = io_exts t" "io_devices s = io_devices t" "g_VgaDevice s = g_VgaDevice t"
    using assms by metis+
qed

lemma undrawn_steps [simp]:
  "undrawn (s\<lparr>g_shadow := sh\<rparr>) = undrawn s" "undrawn (serial_puts str s) = undrawn s"
  "undrawn (fb_store a v s) = undrawn s" "undrawn (VgaWriteSequencer i v s) = undrawn s"
  by (simp_all add: undrawn_def serial_puts_eq fb_store_def vga_event_def VgaWriteSequencer_def vga_outb_def outb_def Let_def)

lemma undrawn_memory [simp]: "undrawn (s\<lparr>phys_mem := m\<rparr>) = undrawn s"
  by (simp add: undrawn_def)

lemma shadow_steps [simp]:
  "g_shadow (serial_puts str s) = g_shadow s"
  "g_shadow (fb_store a v s) = g_shadow s" "g_shadow (VgaWriteSequencer i v s) = g_shadow s"
  by (simp_all add: serial_puts_eq fb_store_def vga_event_def VgaWriteSequencer_def vga_outb_def outb_def Let_def)

lemma adapter_run_shadow: "adapter_run other h (s\<lparr>g_shadow := sh\<rparr>) = adapter_run other h s"
  by (rule adapter_run_cong) simp

text \<open>A loop inherits what each of its steps keeps.\<close>

lemma fold_keeps: "(\<And>i s. i \<in> set is \<Longrightarrow> P (f i s) = P s) \<Longrightarrow> P (fold f is s) = P s"
  by (induction "is" arbitrary: s) auto

lemma VgaPutPixel_undrawn [simp]: "undrawn (VgaPutPixel x y c s) = undrawn s"
  by (simp add: VgaPutPixel_def Let_def fold_keeps [where P = undrawn])

lemma fill_head_undrawn [simp]: "undrawn (snd (fill_head a e y c s)) = undrawn s"
proof (induction a e y c s rule: fill_head.induct)
  case (1 a e y c s)
  then show ?case by (subst fill_head.simps) simp
qed

lemma fill_tail_undrawn [simp]: "undrawn (fill_tail a e y c s) = undrawn s"
proof (induction a e y c s rule: fill_tail.induct)
  case (1 a e y c s)
  then show ?case by (subst fill_tail.simps) simp
qed

lemma fill_bytes_undrawn [simp]: "undrawn (fill_bytes p n c s) = undrawn s" "g_shadow (fill_bytes p n c s) = g_shadow s"
  by (simp_all add: fill_bytes_def Let_def fold_keeps [where P = undrawn] fold_keeps [where P = g_shadow])

lemma fill_row_undrawn [simp]: "undrawn (fill_row de x w y c s) = undrawn s"
proof -
  obtain a t where "fill_head x (INT32 (x + w)) y c s = (a, t)" by fastforce
  moreover then have "undrawn t = undrawn s" using fill_head_undrawn [of x "INT32 (x + w)" y c s] by simp
  ultimately show ?thesis by (simp add: fill_row_def Let_def)
qed

lemma fill_rows_undrawn [simp]:
  "undrawn (fold (\<lambda>row. fill_row de x w (y + int row) c) rows s) = undrawn s"
  by (rule fold_keeps) simp

lemma VgaFillRect_undrawn [simp]: "undrawn (VgaFillRect x y w h c s) = undrawn s"
  unfolding VgaFillRect_def Let_def
  by (simp only: if_distrib [of undrawn] undrawn_steps fill_rows_undrawn if_cancel)

lemma VgaClearScreen_undrawn [simp]: "undrawn (VgaClearScreen c s) = undrawn s"
  by (simp add: VgaClearScreen_def Let_def fold_keeps [where P = undrawn])

lemma ready_steps [simp]:
  "graphics_ready (VgaPutPixel x y c s) = graphics_ready s"
  "graphics_ready (VgaFillRect x y w h c s) = graphics_ready s"
  "graphics_ready (VgaClearScreen c s) = graphics_ready s"
  "graphics_ready (serial_puts str s) = graphics_ready s"
  by (rule undrawn_ready, simp)+


subsection \<open>Lines without overflow\<close>

definition plain_span :: "int \<Rightarrow> int \<Rightarrow> bool" where
  "plain_span x w \<longleftrightarrow> - 2147483648 \<le> x \<and> 0 < w \<and> w < 2147483648 \<and> x + w < 2147483640"

lemma fill_head_stops:
  assumes "fill_head a e y c s = (a', t)" "a \<le> e"
  shows "a \<le> a'" "a' \<le> e" "a' mod 8 = 0 \<or> a' = e"
proof -
  have "a \<le> a' \<and> a' \<le> e \<and> (a' mod 8 = 0 \<or> a' = e)"
    using assms
  proof (induction a e y c s rule: fill_head.induct)
    case (1 a e y c s)
    show ?case
    proof (cases "a < e \<and> a mod 8 \<noteq> 0")
      case True
      then have "fill_head (a + 1) e y c (VgaPutPixel a y c s) = (a', t)"
        using 1(2) by (subst (asm) fill_head.simps) simp
      from 1(1) [OF True this] True show ?thesis by linarith
    next
      case False
      then have "a' = a" using 1(2) by (subst (asm) fill_head.simps) auto
      with False 1(3) show ?thesis by auto
    qed
  qed
  then show "a \<le> a'" "a' \<le> e" "a' mod 8 = 0 \<or> a' = e" by simp_all
qed

lemma sdiv_8: "0 \<le> a \<or> a mod 8 = 0 \<Longrightarrow> a sdiv 8 = a div 8" for a :: int
proof (cases "0 \<le> a")
  case True
  then show ?thesis by (cases "a = 0") (simp_all add: signed_divide_int_def)
next
  case False
  assume "0 \<le> a \<or> a mod 8 = 0"
  with False obtain k where "a = 8 * k" "k < 0" by auto
  then show ?thesis by (simp add: signed_divide_int_def abs_mult sgn_mult)
qed

lemma fill_row_plain:
  assumes "plain_span x w" "fill_head x (x + w) yy c s = (a, t)"
    and on: "\<not> (yy < 0 \<or> yy \<ge> uint (ScreenHeight de))"
  defines "ptr \<equiv> FrameBuffer de + word_of_int yy * word_of_int (sint (ScreenWidth de) div 8) + word_of_int (a div 8)"
  shows "fill_row de x w yy c s =
    (if a + 8 \<le> x + w then fill_tail (a + (x + w - a) div 8 * 8) (x + w) yy c (fill_bytes ptr (nat ((x + w - a) div 8)) c t)
     else fill_tail a (x + w) yy c t)"
proof -
  have w: "- 2147483648 \<le> x" "0 < w" "w < 2147483648" "x + w < 2147483640" using assms(1) by (simp_all add: plain_span_def)
  then have "x \<le> x + w" by simp
  note head = fill_head_stops [OF assms(2) this]
  have e: "INT32 (x + w) = x + w" using w by (intro INT32_id) simp_all
  have a8: "INT32 (a + 8) = a + 8" using w head by (intro INT32_id) simp_all
  have d: "INT32 (x + w - a) = x + w - a" using w head by (intro INT32_id) simp_all
  have b: "(x + w - a) sdiv 8 = (x + w - a) div 8" by (rule sdiv_8) (use head in simp)
  have n: "0 \<le> (x + w - a) div 8 * 8" "(x + w - a) div 8 * 8 \<le> x + w - a" using head by simp_all
  have nx: "INT32 (a + (x + w - a) div 8 * 8) = a + (x + w - a) div 8 * 8"
    using w head n by (intro INT32_id) linarith+
  have s: "a sdiv 8 = a div 8" if "a + 8 \<le> x + w" by (rule sdiv_8) (use head that in auto)
  show ?thesis
    unfolding fill_row_def if_not_P [OF on] Let_def e assms(2) prod.case a8 d b nx ptr_def using s
    by (cases "a + 8 \<le> x + w") (simp_all only: if_True if_False prod.case)
qed

subsection \<open>Planes and shadow\<close>

declare push_bit_of_1 [simp del]

text \<open>
  Byte \<open>off\<close> of a plane covers the pixels \<open>8 * off\<close> to \<open>8 * off + 7\<close>, the leftmost in bit 7.
\<close>

definition packed :: "nat \<Rightarrow> (nat \<Rightarrow> u8) \<Rightarrow> nat \<Rightarrow> u8" where
  "packed p sh off =
     fold (\<lambda>b v. if sh (8 * off + b) AND push_bit p 1 \<noteq> 0 then v OR drop_bit b 0x80 else v) [0..<8] 0"

definition agree_at :: "adapter \<Rightarrow> (nat \<Rightarrow> u8) \<Rightarrow> nat \<Rightarrow> bool" where
  "agree_at a sh off \<longleftrightarrow> (\<forall>p < 4. planes a p (of_nat off) = packed p sh off)"

definition shows_shadow :: "other_write \<Rightarrow> adapter \<Rightarrow> 'a vga_scheme \<Rightarrow> bool" where
  "shows_shadow other h s \<longleftrightarrow> plain_write (adapter_run other h s)
     \<and> (\<forall>off < 38400. agree_at (adapter_run other h s) (g_shadow s) off)"

lemma bit_0x80: "bit (drop_bit b (0x80 :: u8)) k \<longleftrightarrow> k + b = 7"
proof -
  have e: "(0x80 :: u8) = 2 ^ 7" by simp
  show ?thesis by (simp only: e bit_drop_bit_eq comp_def bit_exp_iff) auto
qed

lemma bit_packed_upto:
  "n \<le> 8 \<Longrightarrow> bit (fold (\<lambda>b v. if P b then v OR drop_bit b (0x80 :: u8) else v) [0..<n] 0) k
    \<longleftrightarrow> k \<le> 7 \<and> 7 - k < n \<and> P (7 - k)"
proof (induction n)
  case 0
  then show ?case by simp
next
  case (Suc n)
  have "k + n = 7 \<longleftrightarrow> k \<le> 7 \<and> 7 - k = n" using Suc.prems by auto
  then show ?case using Suc by (auto simp: bit_or_iff bit_0x80 less_Suc_eq)
qed

lemma bit_packed: "bit (packed p sh off) k \<longleftrightarrow> k \<le> 7 \<and> sh (8 * off + (7 - k)) AND push_bit p 1 \<noteq> 0"
  unfolding packed_def by (subst bit_packed_upto) auto

lemma packed_cong:
  assumes "\<And>b. b < 8 \<Longrightarrow> sh (8 * off + b) = sh' (8 * off + b)"
  shows "packed p sh off = packed p sh' off"
proof (rule bit_word_eqI)
  fix k
  have "sh (8 * off + (7 - k)) = sh' (8 * off + (7 - k))" by (rule assms) simp
  then show "bit (packed p sh off) k = bit (packed p sh' off) k" unfolding bit_packed by (simp only:)
qed

lemma packed_uniform:
  assumes "\<And>b. b < 8 \<Longrightarrow> sh (8 * off + b) = c"
  shows "packed p sh off = (if c AND push_bit p 1 \<noteq> 0 then 0xFF else 0)"
proof (rule bit_word_eqI)
  fix k
  assume k: "k < LENGTH(8)"
  have "sh (8 * off + (7 - k)) = c" by (rule assms) simp
  then have "bit (packed p sh off) k \<longleftrightarrow> k \<le> 7 \<and> c AND push_bit p 1 \<noteq> 0"
    unfolding bit_packed by (simp only:)
  moreover have ff: "(0xFF :: u8) = mask 8" by (simp add: mask_eq_exp_minus_1)
  have "bit (0xFF :: u8) k" unfolding ff bit_mask_iff using k by simp
  ultimately show "bit (packed p sh off) k = bit (if c AND push_bit p 1 \<noteq> 0 then 0xFF else 0 :: u8) k"
    using k by simp
qed

lemma plane_value_packed:
  assumes "0 \<le> x" "x < 640" "0 \<le> y"
  shows "plane_value p x y sh = packed p sh (nat (y * 80 + x div 8))"
proof -
  let ?off = "nat (y * 80 + x div 8)"
  have d: "0 \<le> x div 8" "x div 8 < 80" using assms by linarith+
  have bounds: "x div 8 * 8 + int b < 640" "0 \<le> x div 8 * 8 + int b"
    "nat (y * 640 + (x div 8 * 8 + int b)) = 8 * ?off + b" if "b < 8" for b
    using that assms(3) d by (simp_all add: nat_eq_iff)
  have "(\<lambda>v :: u8. if x div 8 * 8 + int b < 0 \<or> x div 8 * 8 + int b \<ge> int 640 then v
      else if sh (nat (y * int 640 + (x div 8 * 8 + int b))) AND push_bit p 1 \<noteq> 0 then v OR drop_bit b 0x80 else v)
    = (\<lambda>v. if sh (8 * ?off + b) AND push_bit p 1 \<noteq> 0 then v OR drop_bit b 0x80 else v)" if "b < 8" for b
    using bounds [OF that] unfolding of_nat_numeral by (intro ext) simp
  then show ?thesis
    unfolding plane_value_def packed_def Let_def SHADOW_W_def by (intro fold_cong) simp_all
qed

text \<open>Writing one byte, or a run of bytes, to each plane in turn through the map mask.\<close>

lemma bit_push_1: "p < 4 \<Longrightarrow> bit (push_bit p (1 :: u8)) q \<longleftrightarrow> q = p"
  by (auto simp: bit_simps)

text \<open>The offsets in the adapter's memory that a run of \<open>n\<close> bytes from \<open>ptr\<close> on reaches.\<close>

definition covers :: "u32 \<Rightarrow> nat \<Rightarrow> u32 \<Rightarrow> bool" where
  "covers ptr n off \<longleftrightarrow> unat off < 0x10000 \<and> (\<exists>b < n. off = ptr - VGA_BASE_ADDRESS + of_nat b)"

lemma covers_Suc:
  "covers ptr (Suc n) off \<longleftrightarrow> covers ptr n off \<or> in_window (ptr + of_nat n) \<and> off = ptr - VGA_BASE_ADDRESS + of_nat n"
proof -
  have "ptr + of_nat n - VGA_BASE_ADDRESS = ptr - VGA_BASE_ADDRESS + of_nat n" by simp
  then show ?thesis unfolding covers_def in_window_def by (auto simp only: less_Suc_eq)
qed

lemma covers_0 [simp]: "\<not> covers ptr 0 off"
  by (simp add: covers_def)

lemma covers_visible:
  "off < 38400 \<Longrightarrow> covers ptr n (of_nat off) \<longleftrightarrow> (\<exists>b < n. of_nat off = ptr - VGA_BASE_ADDRESS + of_nat b)"
  by (simp add: covers_def unat_of_nat_u32)

lemma store_run:
  assumes "plain_write (adapter_run other h s)" "seq (adapter_run other h s) 2 = push_bit p 1" "p < 4"
  shows "adapter_run other h (fold (\<lambda>b. fb_store (ptr + of_nat b) v) [0..<n] s)
    = (adapter_run other h s)\<lparr>planes := (\<lambda>q. if q = p
        then (\<lambda>o'. if covers ptr n o' then v else planes (adapter_run other h s) p o')
        else planes (adapter_run other h s) q)\<rparr>"
proof (induction n)
  case 0
  show ?case by (rule adapter.equality) (auto simp: fun_eq_iff)
next
  case (Suc n)
  let ?a = "adapter_run other h s"
  have "adapter_run other h (fold (\<lambda>b. fb_store (ptr + of_nat b) v) [0..<Suc n] s)
    = adapter_store other (ptr + of_nat n) v (?a\<lparr>planes := (\<lambda>q. if q = p
        then (\<lambda>o'. if covers ptr n o' then v else planes ?a p o')
        else planes ?a q)\<rparr>)"
    using Suc.IH by simp
  also have "\<dots> = ?a\<lparr>planes := (\<lambda>q. if q = p
        then (\<lambda>o'. if covers ptr (Suc n) o' then v else planes ?a p o')
        else planes ?a q)\<rparr>"
  proof -
    define X where "X = (\<lambda>q. if q = p
        then (\<lambda>o'. if covers ptr n o' then v else planes ?a p o') else planes ?a q)"
    define Y where "Y = (\<lambda>q. if q = p
        then (\<lambda>o'. if covers ptr (Suc n) o' then v else planes ?a p o') else planes ?a q)"
    have addr: "ptr + of_nat n - VGA_BASE_ADDRESS = ptr - VGA_BASE_ADDRESS + of_nat n" by simp
    have sel: "bit (seq ?a 2) q \<longleftrightarrow> q = p" for q
      unfolding assms(2) by (rule bit_push_1 [OF assms(3)])
    have plain: "plain_write (?a\<lparr>planes := X\<rparr>)" using assms(1) by (simp add: plain_write_def)
    have "adapter_store other (ptr + of_nat n) v (?a\<lparr>planes := X\<rparr>) = ?a\<lparr>planes := Y\<rparr>"
    proof (cases "in_window (ptr + of_nat n)")
      case True
      then have "(X p)(ptr - VGA_BASE_ADDRESS + of_nat n := v) = Y p" "q \<noteq> p \<Longrightarrow> X q = Y q" for q
        by (auto simp: fun_eq_iff covers_Suc X_def Y_def)
      then have "(\<lambda>q. if q < 4 \<and> bit (seq ?a 2) q then (X q)(ptr - VGA_BASE_ADDRESS + of_nat n := v) else X q) = Y"
        unfolding sel using assms(3) by (intro ext) auto
      with plain True show ?thesis by (simp add: adapter_store_def addr cong: if_cong)
    next
      case False
      then have "X = Y" by (auto simp: fun_eq_iff covers_Suc X_def Y_def)
      with False show ?thesis by (simp add: adapter_store_def)
    qed
    then show ?thesis unfolding X_def Y_def .
  qed
  finally show ?case .
qed


text \<open>The loop over the four planes: each gets its own run of bytes.\<close>

lemma store_planes:
  assumes "plain_write (adapter_run other h s)" "n \<le> 4"
  shows "\<exists>i m. adapter_run other h
      (fold (\<lambda>p s. fold (\<lambda>b. fb_store (ptr + of_nat b) (v p)) [0..<k] (VgaWriteSequencer 2 (push_bit p 1) s)) [0..<n] s)
    = (adapter_run other h s)\<lparr>seq_index := i, seq := (seq (adapter_run other h s))(2 := m),
        planes := (\<lambda>q. if q < n
          then (\<lambda>o'. if covers ptr k o' then v q else planes (adapter_run other h s) q o')
          else planes (adapter_run other h s) q)\<rparr>"
  using assms(2)
proof (induction n)
  case 0
  show ?case
    by (rule exI [of _ "seq_index (adapter_run other h s)"], rule exI [of _ "seq (adapter_run other h s) 2"])
      (rule adapter.equality, auto simp: fun_eq_iff)
next
  case (Suc n)
  let ?a = "adapter_run other h s"
  define F where "F = (\<lambda>q. if q < n
      then (\<lambda>o'. if covers ptr k o' then v q else planes ?a q o') else planes ?a q)"
  define t where "t = fold (\<lambda>p s. fold (\<lambda>b. fb_store (ptr + of_nat b) (v p)) [0..<k]
      (VgaWriteSequencer 2 (push_bit p 1) s)) [0..<n] s"
  obtain i m where t: "adapter_run other h t = ?a\<lparr>seq_index := i, seq := (seq ?a)(2 := m), planes := F\<rparr>"
  proof -
    have "n \<le> 4" using Suc.prems by simp
    from Suc.IH [OF this] show ?thesis using that unfolding t_def F_def by blast
  qed
  let ?u = "VgaWriteSequencer 2 (push_bit n 1) t"
  have u: "adapter_run other h ?u = ?a\<lparr>seq_index := 2, seq := (seq ?a)(2 := push_bit n 1), planes := F\<rparr>"
    by (simp add: t)
  have "plain_write (adapter_run other h ?u)" using assms(1) unfolding u by (simp add: plain_write_def)
  moreover have "seq (adapter_run other h ?u) 2 = push_bit n 1" unfolding u by simp
  moreover have "n < 4" using Suc.prems by simp
  ultimately have run: "adapter_run other h (fold (\<lambda>b. fb_store (ptr + of_nat b) (v n)) [0..<k] ?u)
    = (adapter_run other h ?u)\<lparr>planes := (\<lambda>q. if q = n
        then (\<lambda>o'. if covers ptr k o' then v n else planes (adapter_run other h ?u) n o')
        else planes (adapter_run other h ?u) q)\<rparr>"
    by (rule store_run)
  have "(\<lambda>q. if q = n then (\<lambda>o'. if covers ptr k o' then v n else F n o') else F q)
    = (\<lambda>q. if q < Suc n then (\<lambda>o'. if covers ptr k o' then v q else planes ?a q o')
        else planes ?a q)"
    by (rule ext) (auto simp: F_def less_Suc_eq cong: if_cong)
  then show ?case
    by - (rule exI [of _ 2], rule exI [of _ "push_bit n 1"], simp add: t_def [symmetric] run t fun_upd_def cong: if_cong)
qed

text \<open>The index of a pixel's byte, as the code computes it, and the bytes of a screen line.\<close>

lemma of_nat_inj_offset: "a < 4294967296 \<Longrightarrow> b < 4294967296 \<Longrightarrow> (of_nat a :: u32) = of_nat b \<longleftrightarrow> a = b"
  using unat_of_nat_u32 [of a] unat_of_nat_u32 [of b] by metis

lemma byte_index:
  assumes "0 \<le> x" "0 \<le> y"
  shows "word_of_int y * (640 div 8) + word_of_int (x div 8) = (of_nat (nat (y * 80 + x div 8)) :: u32)"
proof -
  have "0 \<le> x div 8" using assms(1) by simp
  with assms show ?thesis by (simp add: of_nat_nat mult.commute)
qed

lemma VgaPutPixel_ready:
  fixes s :: "'a vga_scheme" and x y :: int and c :: u8
  assumes ready: "graphics_ready s" and on: "0 \<le> x" "x < 640" "0 \<le> y" "y < 480"
  defines "off \<equiv> nat (y * 80 + x div 8)" and "sh \<equiv> (g_shadow s)(nat (y * 640 + x) := c)"
  shows "g_shadow (VgaPutPixel x y c s) = sh" (is ?shadow)
    and "plain_write (adapter_run other h s) \<Longrightarrow> plain_write (adapter_run other h (VgaPutPixel x y c s))"
    and "plain_write (adapter_run other h s) \<Longrightarrow> planes (adapter_run other h (VgaPutPixel x y c s))
      = (\<lambda>q. if q < 4 then (planes (adapter_run other h s) q)(of_nat off := packed q sh off)
           else planes (adapter_run other h s) q)"
proof -
  let ?t = "s\<lparr>g_shadow := sh\<rparr>"
  let ?loop = "fold (\<lambda>p s. fb_store (VGA_BASE_ADDRESS + of_nat off) (plane_value p x y (g_shadow s))
      (VgaWriteSequencer 2 (push_bit p 1) s)) [0..<4] ?t"
  have res: "VgaPutPixel x y c s = VgaWriteSequencer 2 0x0F ?loop"
    using ready on byte_index [of x y] unfolding graphics_ready_def VgaPutPixel_def Let_def off_def sh_def
    by (simp add: SHADOW_W_def)
  let ?loop' = "fold (\<lambda>p s. fold (\<lambda>b. fb_store (VGA_BASE_ADDRESS + of_nat off + of_nat b) (packed p sh off)) [0..<1]
      (VgaWriteSequencer 2 (push_bit p 1) s)) [0..<4] ?t"
  have loops: "?loop = ?loop' \<and> g_shadow ?loop = sh"
  proof -
    let ?f = "\<lambda>p s. fb_store (VGA_BASE_ADDRESS + of_nat off) (plane_value p x y (g_shadow s))
        (VgaWriteSequencer 2 (push_bit p 1) s)"
    have keep: "g_shadow (fold ?f ps t) = g_shadow t" for ps and t :: "'a vga_scheme"
      by (rule fold_keeps) simp
    have "fold ?f ps t = fold (\<lambda>p s. fold (\<lambda>b. fb_store (VGA_BASE_ADDRESS + of_nat off + of_nat b)
        (packed p sh off)) [0..<1] (VgaWriteSequencer 2 (push_bit p 1) s)) ps t"
      if "g_shadow t = sh" for ps and t :: "'a vga_scheme"
      using that
    proof (induction ps arbitrary: t)
      case (Cons p ps)
      have "g_shadow (?f p t) = sh" using Cons.prems by simp
      from Cons.IH [OF this] show ?case
        using plane_value_packed [OF on(1-3), of p sh] Cons.prems by (simp add: off_def)
    qed simp
    then have eq: "?loop = ?loop'" by simp
    have "g_shadow ?loop = sh" unfolding keep by simp
    with eq show ?thesis by (rule conjI)
  qed
  have "g_shadow (VgaWriteSequencer 2 0x0F ?loop) = g_shadow ?loop" by (rule shadow_steps)
  with loops show ?shadow unfolding res by metis
  have run0: "adapter_run other h ?t = adapter_run other h s" by (rule adapter_run_cong) simp
  have run: "\<exists>i m. adapter_run other h ?loop'
    = (adapter_run other h s)\<lparr>seq_index := i, seq := (seq (adapter_run other h s))(2 := m),
        planes := (\<lambda>q. if q < 4
          then (\<lambda>o'. if covers (VGA_BASE_ADDRESS + of_nat off) 1 o'
              then packed q sh off else planes (adapter_run other h s) q o')
          else planes (adapter_run other h s) q)\<rparr>" if "plain_write (adapter_run other h s)"
    using store_planes [of other h ?t 4 "VGA_BASE_ADDRESS + of_nat off" "\<lambda>p. packed p sh off" 1] that
    unfolding run0 by blast
  have "off < 38400"
  proof -
    have "x div 8 < 80" using on by linarith
    with on show ?thesis by (simp add: off_def nat_less_iff)
  qed
  then have one: "covers (VGA_BASE_ADDRESS + of_nat off) 1 o' \<longleftrightarrow> o' = of_nat off" for o'
    by (auto simp: covers_def unat_of_nat_u32)
  have final: "adapter_run other h (VgaPutPixel x y c s)
      = (adapter_run other h ?loop')\<lparr>seq_index := 2, seq := (seq (adapter_run other h ?loop'))(2 := 0x0F)\<rparr>"
    using loops unfolding res by simp
  show "plain_write (adapter_run other h (VgaPutPixel x y c s))" if "plain_write (adapter_run other h s)"
    using run [OF that] that unfolding final by (auto simp: plain_write_def)
  show "planes (adapter_run other h (VgaPutPixel x y c s))
      = (\<lambda>q. if q < 4 then (planes (adapter_run other h s) q)(of_nat off := packed q sh off)
           else planes (adapter_run other h s) q)" if "plain_write (adapter_run other h s)"
    using run [OF that] unfolding final by (auto simp: fun_eq_iff one one [unfolded One_nat_def])
qed

text \<open>Coordinates and shadow indices.\<close>

lemma shadow_index:
  assumes "0 \<le> x" "x < 640" "0 \<le> y"
  shows "nat (y * 640 + x) = i \<longleftrightarrow> int (i div 640) = y \<and> int (i mod 640) = x"
    and "nat (y * 640 + x) div 8 = nat (y * 80 + x div 8)"
proof -
  have "nat (y * 640 + x) = i \<longleftrightarrow> int i = y * 640 + x" using assms by auto
  also have "\<dots> \<longleftrightarrow> int i div 640 = y \<and> int i mod 640 = x"
    using assms(1,2) by (auto simp: div_mult_mod_eq)
  finally show "nat (y * 640 + x) = i \<longleftrightarrow> int (i div 640) = y \<and> int (i mod 640) = x"
    by (simp add: zdiv_int zmod_int)
  have "(y * 640 + x) div 8 = y * 80 + x div 8" by simp
  then show "nat (y * 640 + x) div 8 = nat (y * 80 + x div 8)"
    using assms by (simp add: nat_div_distrib [symmetric])
qed

lemma VgaPutPixel_off_screen:
  assumes "graphics_ready s" "x < 0 \<or> 640 \<le> x \<or> y < 0 \<or> 480 \<le> y"
  shows "VgaPutPixel x y c s = s"
  using assms by (auto simp: graphics_ready_def VgaPutPixel_def Let_def)

text \<open>
  \<open>improves\<close>: from \<open>s\<close> to \<open>t\<close>, bytes that agree with the shadow \<open>sh\<close> go on agreeing, and the bytes
  \<open>U\<close> agree at the end.
\<close>

definition improves :: "other_write \<Rightarrow> adapter \<Rightarrow> (nat \<Rightarrow> u8) \<Rightarrow> nat set \<Rightarrow> 'a vga_scheme \<Rightarrow> 'a vga_scheme \<Rightarrow> bool" where
  "improves other h sh U s t \<longleftrightarrow> (graphics_ready s \<longrightarrow> graphics_ready t) \<and> g_shadow t = sh
     \<and> (plain_write (adapter_run other h s) \<longrightarrow> plain_write (adapter_run other h t)
        \<and> (\<forall>off < 38400. agree_at (adapter_run other h s) sh off \<or> off \<in> U \<longrightarrow> agree_at (adapter_run other h t) sh off))"

lemma improves_refl: "g_shadow s = sh \<Longrightarrow> improves other h sh {} s s"
  by (simp add: improves_def)

lemma improves_trans:
  "improves other h sh U s t \<Longrightarrow> improves other h sh V t u \<Longrightarrow> W \<subseteq> U \<union> V \<Longrightarrow> improves other h sh W s u"
  unfolding improves_def by blast

lemma improvesD:
  assumes "improves other h sh U s t" "plain_write (adapter_run other h s)"
  shows "plain_write (adapter_run other h t)"
    and "off < 38400 \<Longrightarrow> agree_at (adapter_run other h s) sh off \<or> off \<in> U \<Longrightarrow> agree_at (adapter_run other h t) sh off"
  using assms by (auto simp: improves_def)

lemma VgaPutPixel_improves:
  assumes ready: "graphics_ready s" and on: "0 \<le> x" "x < 640" "0 \<le> y" "y < 480"
  shows "improves other h ((g_shadow s)(nat (y * 640 + x) := c)) {nat (y * 80 + x div 8)} s (VgaPutPixel x y c s)"
    and "off < 38400 \<Longrightarrow> plain_write (adapter_run other h s)
      \<Longrightarrow> agree_at (adapter_run other h s) (g_shadow s) off
      \<Longrightarrow> agree_at (adapter_run other h (VgaPutPixel x y c s)) ((g_shadow s)(nat (y * 640 + x) := c)) off"
proof -
  let ?sh = "(g_shadow s)(nat (y * 640 + x) := c)" and ?off = "nat (y * 80 + x div 8)"
  have small: "?off < 38400"
  proof -
    have "x div 8 < 80" using on by linarith
    with on show ?thesis by (simp add: nat_less_iff)
  qed
  have agree: "agree_at (adapter_run other h (VgaPutPixel x y c s)) ?sh off"
    if "plain_write (adapter_run other h s)" "off < 38400"
      "off \<noteq> ?off \<longrightarrow> (\<forall>p < 4. planes (adapter_run other h s) p (of_nat off) = packed p ?sh off)" for off
    using that(2,3) VgaPutPixel_ready(3) [OF ready on that(1), where c = c] small
    by (auto simp: agree_at_def of_nat_inj_offset)
  show "improves other h ?sh {?off} s (VgaPutPixel x y c s)"
    using VgaPutPixel_ready(1,2) [OF ready on, where c = c] agree
    by (auto simp: improves_def agree_at_def)
  assume off: "off < 38400" "plain_write (adapter_run other h s)" "agree_at (adapter_run other h s) (g_shadow s) off"
  have "packed p ?sh off = packed p (g_shadow s) off" if "off \<noteq> ?off" for p
  proof (rule packed_cong)
    fix b :: nat
    assume "b < 8"
    then have "(8 * off + b) div 8 = off" by simp
    moreover have "nat (y * 640 + x) div 8 = ?off" by (rule shadow_index(2) [OF on(1-3)])
    ultimately show "?sh (8 * off + b) = g_shadow s (8 * off + b)" using that by auto
  qed
  with off show "agree_at (adapter_run other h (VgaPutPixel x y c s)) ?sh off"
    by (intro agree) (auto simp: agree_at_def)
qed

lemma VgaPutPixel_shows:
  assumes "graphics_ready s" "shows_shadow other h s"
  shows "shows_shadow other h (VgaPutPixel x y c s)"
proof (cases "0 \<le> x \<and> x < 640 \<and> 0 \<le> y \<and> y < 480")
  case True
  then have on: "0 \<le> x" "x < 640" "0 \<le> y" "y < 480" by auto
  have plain: "plain_write (adapter_run other h s)" using assms(2) by (simp add: shows_shadow_def)
  show ?thesis
    using VgaPutPixel_improves(2) [OF assms(1) on _ plain] VgaPutPixel_ready(1,2) [OF assms(1) on] assms(2)
    by (simp add: shows_shadow_def)
next
  case False
  then show ?thesis using VgaPutPixel_off_screen [OF assms(1), of x y c] assms(2) by (simp add: not_le not_less)
qed


subsection \<open>Rectangles\<close>

lemma fill_line:
  assumes "0 \<le> yy"
  shows "fold (\<lambda>col sh. let xx = x + int col in if xx < 0 \<or> xx \<ge> int SHADOW_W then sh
      else sh(nat (yy * int SHADOW_W + xx) := c)) [0..<n] sh i
    = (if int (i div 640) = yy \<and> x \<le> int (i mod 640) \<and> int (i mod 640) < x + int n then c else sh i)"
proof (induction n)
  case 0
  then show ?case by auto
next
  case (Suc n)
  let ?m = "int (i mod 640)"
  have m: "0 \<le> ?m" "?m < 640" by simp_all
  let ?L = "fold (\<lambda>col sh. let xx = x + int col in if xx < 0 \<or> xx \<ge> int SHADOW_W then sh
      else sh(nat (yy * int SHADOW_W + xx) := c)) [0..<n] sh"
  show ?case
  proof (cases "x + int n < 0 \<or> 640 \<le> x + int n")
    case True
    then have "?m \<noteq> x + int n" using m by linarith
    then have "?m < x + int (Suc n) \<longleftrightarrow> ?m < x + int n" by linarith
    then show ?thesis using Suc.IH True by (simp add: Let_def SHADOW_W_def)
  next
    case False
    then have "nat (yy * 640 + (x + int n)) = i \<longleftrightarrow> int (i div 640) = yy \<and> ?m = x + int n"
      by (intro shadow_index(1)) (use assms in auto)
    moreover have "?m < x + int (Suc n) \<longleftrightarrow> ?m < x + int n \<or> ?m = x + int n" by linarith
    moreover have "fold (\<lambda>col sh. let xx = x + int col in if xx < 0 \<or> xx \<ge> int SHADOW_W then sh
      else sh(nat (yy * int SHADOW_W + xx) := c)) [0..<Suc n] sh i
      = (if nat (yy * 640 + (x + int n)) = i then c else ?L i)"
      using False by (auto simp: Let_def SHADOW_W_def)
    ultimately show ?thesis using Suc.IH by auto
  qed
qed

lemma fill_shadow_apply:
  "fill_shadow x y w h c sh i
    = (if i < 307200 \<and> y \<le> int (i div 640) \<and> int (i div 640) < y + int (nat h)
         \<and> x \<le> int (i mod 640) \<and> int (i mod 640) < x + int (nat w) then c else sh i)"
proof -
  let ?f = "\<lambda>row shadow. let yy = y + int row in
         if yy < 0 \<or> yy \<ge> int SHADOW_H then shadow
         else fold (\<lambda>col shadow. let xx = x + int col in
                if xx < 0 \<or> xx \<ge> int SHADOW_W then shadow
                else shadow(nat (yy * int SHADOW_W + xx) := c)) [0..<nat w] shadow"
  have "fold ?f [0..<n] sh i
    = (if i < 307200 \<and> y \<le> int (i div 640) \<and> int (i div 640) < y + int n
         \<and> x \<le> int (i mod 640) \<and> int (i mod 640) < x + int (nat w) then c else sh i)" for n
  proof (induction n)
    case 0
    then show ?case by auto
  next
    case (Suc n)
    have "int (i div 640) < y + int (Suc n) \<longleftrightarrow> int (i div 640) < y + int n \<or> int (i div 640) = y + int n" by auto
    moreover have "i < 307200 \<longleftrightarrow> int (i div 640) < 480" by linarith
    ultimately show ?case
      using Suc.IH fill_line [of "y + int n" x c "nat w"]
      by (auto simp: Let_def SHADOW_H_def simp del: of_nat_Suc)
  qed
  then show ?thesis unfolding fill_shadow_def .
qed

text \<open>The bytes of a screen line that cover the pixels from \<open>a\<close> to before \<open>b\<close>.\<close>

definition line_bytes :: "int \<Rightarrow> int \<Rightarrow> int \<Rightarrow> nat set" where
  "line_bytes yy a b = (\<lambda>u. nat (yy * 80 + u div 8)) ` {a..<b}"

lemma line_bytes_append: "a \<le> b \<Longrightarrow> b \<le> c \<Longrightarrow> line_bytes yy a c = line_bytes yy a b \<union> line_bytes yy b c"
  by (auto simp: line_bytes_def image_Un [symmetric] ivl_disj_un)

lemma repaint_improves:
  assumes "graphics_ready s" "g_shadow s = sh" "0 \<le> x" "x < 640" "0 \<le> y" "y < 480"
    and "sh (nat (y * 640 + x)) = c"
  shows "improves other h sh (line_bytes y x (x + 1)) s (VgaPutPixel x y c s)"
proof -
  have "{x..<x + 1} = {x}" by auto
  moreover have "sh(nat (y * 640 + x) := c) = sh" using assms(7) by auto
  ultimately show ?thesis
    using VgaPutPixel_improves(1) [OF assms(1,3-6), of other h c] assms(2) by (simp add: line_bytes_def)
qed

text \<open>A stretch of one screen line whose pixels the shadow already has in colour \<open>c\<close>.\<close>

definition painted_line :: "(nat \<Rightarrow> u8) \<Rightarrow> int \<Rightarrow> int \<Rightarrow> int \<Rightarrow> u8 \<Rightarrow> bool" where
  "painted_line sh yy lo hi c \<longleftrightarrow> 0 \<le> lo \<and> hi \<le> 640 \<and> 0 \<le> yy \<and> yy < 480
     \<and> (\<forall>u. lo \<le> u \<and> u < hi \<longrightarrow> sh (nat (yy * 640 + u)) = c)"

lemma fill_head_improves:
  assumes "painted_line sh yy lo hi c" "graphics_ready s" "g_shadow s = sh" "lo \<le> start" "start \<le> hi"
  shows "\<exists>start' t. fill_head start hi yy c s = (start', t) \<and> start \<le> start' \<and> start' \<le> hi
    \<and> (start' mod 8 = 0 \<or> start' = hi) \<and> improves other h sh (line_bytes yy start start') s t"
  using assms(2-)
proof (induction "nat (hi - start)" arbitrary: start s)
  case 0
  then have "start = hi" by simp
  with 0 show ?case
    by (subst fill_head.simps) (auto simp: line_bytes_def intro: improves_refl)
next
  case (Suc n)
  show ?case
  proof (cases "start mod 8 = 0")
    case True
    with Suc.prems show ?thesis
      by (subst fill_head.simps) (auto simp: line_bytes_def intro: improves_refl)
  next
    case False
    have lt: "start < hi" and n: "n = nat (hi - (start + 1))" using Suc.hyps(2) by linarith+
    let ?s = "VgaPutPixel start yy c s"
    have one: "improves other h sh (line_bytes yy start (start + 1)) s ?s"
      using Suc.prems lt assms(1) by (intro repaint_improves) (auto simp: painted_line_def)
    then have "graphics_ready ?s" "g_shadow ?s = sh" using Suc.prems(1) by (simp_all add: improves_def)
    then obtain start' t where rec: "fill_head (start + 1) hi yy c ?s = (start', t)" "start + 1 \<le> start'" "start' \<le> hi"
      "start' mod 8 = 0 \<or> start' = hi" "improves other h sh (line_bytes yy (start + 1) start') ?s t"
      using Suc.hyps(1) [OF n, of ?s] Suc.prems(3) lt by auto
    have "improves other h sh (line_bytes yy start start') s t"
      using improves_trans [OF one rec(5)] line_bytes_append [of start "start + 1" start' yy] rec(2) by simp
    with rec lt False show ?thesis by (subst fill_head.simps) simp
  qed
qed

lemma fill_tail_improves:
  assumes "painted_line sh yy lo hi c" "graphics_ready s" "g_shadow s = sh" "lo \<le> start" "start \<le> hi"
  shows "improves other h sh (line_bytes yy start hi) s (fill_tail start hi yy c s)"
  using assms(2-)
proof (induction "nat (hi - start)" arbitrary: start s)
  case 0
  then have "start = hi" by simp
  with 0 show ?case
    by (subst fill_tail.simps) (auto simp: line_bytes_def intro: improves_refl)
next
  case (Suc n)
  have lt: "start < hi" and n: "n = nat (hi - (start + 1))" using Suc.hyps(2) by linarith+
  let ?s = "VgaPutPixel start yy c s"
  have one: "improves other h sh (line_bytes yy start (start + 1)) s ?s"
    using Suc.prems lt assms(1) by (intro repaint_improves) (auto simp: painted_line_def)
  then have "graphics_ready ?s" "g_shadow ?s = sh" using Suc.prems(1) by (simp_all add: improves_def)
  then have "improves other h sh (line_bytes yy (start + 1) hi) ?s (fill_tail (start + 1) hi yy c ?s)"
    using Suc.hyps(1) [OF n, of ?s] Suc.prems(3) lt by auto
  from improves_trans [OF one this, of "line_bytes yy start hi"] lt show ?case
    using line_bytes_append [of start "start + 1" hi yy] by (subst fill_tail.simps) simp
qed



lemma fill_bytes_run:
  assumes "plain_write (adapter_run other h s)"
  shows "plain_write (adapter_run other h (fill_bytes ptr n c s))"
    and "q < 4 \<Longrightarrow> planes (adapter_run other h (fill_bytes ptr n c s)) q
      = (\<lambda>o'. if covers ptr n o'
           then (if c AND push_bit q 1 \<noteq> 0 then 0xFF else 0) else planes (adapter_run other h s) q o')"
proof -
  let ?mask = "\<lambda>p :: nat. if c AND push_bit p 1 \<noteq> 0 then 0xFF else (0 :: u8)"
  let ?t = "fold (\<lambda>p s. fold (\<lambda>b. fb_store (ptr + of_nat b) (?mask p)) [0..<n] (VgaWriteSequencer 2 (push_bit p 1) s)) [0..<4] s"
  have res: "fill_bytes ptr n c s = VgaWriteSequencer 2 0x0F ?t"
    by (simp only: fill_bytes_def Let_def)
  obtain i m where t: "adapter_run other h ?t = (adapter_run other h s)\<lparr>seq_index := i,
      seq := (seq (adapter_run other h s))(2 := m),
      planes := (\<lambda>q. if q < 4 then (\<lambda>o'. if covers ptr n o' then ?mask q
          else planes (adapter_run other h s) q o') else planes (adapter_run other h s) q)\<rparr>"
    using store_planes [OF assms order_refl, of ptr ?mask n] by blast
  show "plain_write (adapter_run other h (fill_bytes ptr n c s))"
    using assms unfolding res adapter_run_sequencer t by (simp add: plain_write_def)
  show "planes (adapter_run other h (fill_bytes ptr n c s)) q
      = (\<lambda>o'. if covers ptr n o' then ?mask q else planes (adapter_run other h s) q o')"
    if "q < 4" using that unfolding res adapter_run_sequencer t by simp
qed

lemma fill_bytes_improves:
  assumes line: "painted_line sh yy lo hi c" and "graphics_ready s" "g_shadow s = sh"
    and a: "lo \<le> a" "a mod 8 = 0" "a + 8 * int n \<le> hi"
  shows "improves other h sh (line_bytes yy a (a + 8 * int n)) s
    (fill_bytes (VGA_BASE_ADDRESS + word_of_int yy * 80 + word_of_int (a div 8)) n c s)"
proof -
  define off0 where "off0 = nat (yy * 80 + a div 8)"
  let ?ptr = "VGA_BASE_ADDRESS + word_of_int yy * 80 + word_of_int (a div 8)"
  let ?t = "fill_bytes ?ptr n c s"
  have L: "0 \<le> lo" "hi \<le> 640" "0 \<le> yy" "yy < 480" "\<And>u. lo \<le> u \<Longrightarrow> u < hi \<Longrightarrow> sh (nat (yy * 640 + u)) = c"
    using line by (auto simp: painted_line_def)
  have a8: "a = 8 * (a div 8)" "0 \<le> a div 8" using a(2) a(1) L(1) by (simp_all add: mod_eq_0_iff_dvd)
  have off0: "int off0 = yy * 80 + a div 8" using a8(2) L(3) by (simp add: off0_def)
  have bound: "off0 + n \<le> 38400"
  proof -
    have "a div 8 + int n \<le> 80" using a(3) L(2) a8(1) by linarith
    then have "int off0 + int n \<le> 38400" using off0 L(4) by linarith
    then show ?thesis by linarith
  qed
  have "(word_of_int (int off0) :: u32) = word_of_int yy * 80 + word_of_int (a div 8)"
    unfolding off0 by simp
  then have ptr: "?ptr - VGA_BASE_ADDRESS = of_nat off0" by (simp add: add.assoc)
  have same: "(\<exists>b < n. (of_nat off :: u32) = ?ptr - VGA_BASE_ADDRESS + of_nat b) \<longleftrightarrow> off0 \<le> off \<and> off < off0 + n"
    if "off < 38400" for off
  proof -
    have "(\<exists>b < n. (of_nat off :: u32) = of_nat (off0 + b)) \<longleftrightarrow> (\<exists>b < n. off = off0 + b)"
      using that bound by (auto simp: of_nat_inj_offset simp del: of_nat_add)
    also have "\<dots> \<longleftrightarrow> off0 \<le> off \<and> off < off0 + n" by (auto intro: exI [of _ "off - off0"])
    finally show ?thesis unfolding ptr by simp
  qed
  have filled: "packed q sh off = (if c AND push_bit q 1 \<noteq> 0 then 0xFF else 0)"
    if "off0 \<le> off" "off < off0 + n" for q off
  proof (rule packed_uniform)
    fix b :: nat
    assume b: "b < 8"
    define u where "u = 8 * int off - 640 * yy + int b"
    have "int off0 \<le> int off" "int off + 1 \<le> int off0 + int n" "int b \<le> 7" "0 \<le> int b" using that b by simp_all
    moreover obtain d where d: "a = 8 * d" "int off0 = yy * 80 + d" using a8(1) off0 by metis
    ultimately have "a \<le> u" "u < a + 8 * int n" unfolding u_def d(1) by linarith+
    moreover have "nat (yy * 640 + u) = 8 * off + b" by (simp add: u_def nat_eq_iff)
    ultimately show "sh (8 * off + b) = c" using L(5) [of u] a(1,3) by simp
  qed
  have U: "off0 \<le> off \<and> off < off0 + n" if mem: "off \<in> line_bytes yy a (a + 8 * int n)" for off
  proof -
    obtain u where u: "a \<le> u" "u < a + 8 * int n" "off = nat (yy * 80 + u div 8)"
      using mem by (auto simp: line_bytes_def)
    have "a div 8 \<le> u div 8" "u div 8 < a div 8 + int n" using u(1,2) a8(1) by linarith+
    moreover then have "int off = yy * 80 + u div 8" using u(3) a8(2) L(3) by simp
    ultimately show ?thesis using off0 by linarith
  qed
  have "agree_at (adapter_run other h ?t) sh off"
    if plain: "plain_write (adapter_run other h s)" and off: "off < 38400"
      and "agree_at (adapter_run other h s) sh off \<or> off \<in> line_bytes yy a (a + 8 * int n)" for off
    unfolding agree_at_def
  proof (intro allI impI)
    fix q :: nat
    assume "q < 4"
    then show "planes (adapter_run other h ?t) q (of_nat off) = packed q sh off"
      using that U [of off] filled [of off q] unfolding fill_bytes_run(2) [OF plain \<open>q < 4\<close>] covers_visible [OF off] same [OF off]
      by (auto simp: agree_at_def)
  qed
  then show ?thesis
    using fill_bytes_run(1) [of other h s ?ptr n c] assms(3) undrawn_ready [of ?t s]
    by (auto simp: improves_def)
qed

lemma fill_row_improves:
  assumes line: "painted_line sh yy x (x + w) c" and ready: "graphics_ready s" and sh: "g_shadow s = sh" and w: "0 < w"
  shows "improves other h sh (line_bytes yy x (x + w)) s (fill_row (io_exts s (vga_extension s)) x w yy c s)"
proof -
  have L: "0 \<le> x" "x + w \<le> 640" "0 \<le> yy" "yy < 480" using line by (auto simp: painted_line_def)
  obtain x1 s1 where head: "fill_head x (x + w) yy c s = (x1, s1)" "x \<le> x1" "x1 \<le> x + w"
    "x1 mod 8 = 0 \<or> x1 = x + w" and i1: "improves other h sh (line_bytes yy x x1) s s1"
    using fill_head_improves [OF line ready sh, of x other h] w by auto
  have r1: "graphics_ready s1" "g_shadow s1 = sh" using i1 ready by (simp_all add: improves_def)
  define n where "n = nat ((x + w - x1) div 8)"
  define x2 where "x2 = (if x1 + 8 \<le> x + w then x1 + (x + w - x1) div 8 * 8 else x1)"
  define s2 where "s2 = (if x1 + 8 \<le> x + w
      then fill_bytes (VGA_BASE_ADDRESS + word_of_int yy * 80 + word_of_int (x1 div 8)) n c s1 else s1)"
  have n2: "int n = (x + w - x1) div 8" using head(3) by (simp add: n_def)
  moreover have "8 * int n \<le> x + w - x1" unfolding n2 by linarith
  ultimately have n: "8 * int n \<le> x + w - x1" "int n = (x + w - x1) div 8" by simp_all
  have x2: "x1 \<le> x2" "x2 \<le> x + w" unfolding x2_def using n by auto
  have i2: "improves other h sh (line_bytes yy x1 x2) s1 s2"
  proof (cases "x1 + 8 \<le> x + w")
    case True
    then have "x1 mod 8 = 0" using head(4) by auto
    from fill_bytes_improves [OF line r1 head(2) this, of n other h] show ?thesis
      using True n by (simp add: s2_def x2_def mult.commute)
  next
    case False
    then show ?thesis using improves_refl [OF r1(2)] by (simp add: s2_def x2_def line_bytes_def)
  qed
  have r2: "graphics_ready s2" "g_shadow s2 = sh" using i2 r1 by (simp_all add: improves_def)
  have lo2: "x \<le> x2" using head(2) x2 by simp
  have i3: "improves other h sh (line_bytes yy x2 (x + w)) s2 (fill_tail x2 (x + w) yy c s2)"
    by (rule fill_tail_improves [OF line r2 lo2 x2(2)])
  have W: "sint (640 :: u32) div 8 = 80" "uint (480 :: u32) = 480" by simp_all
  have D: "FrameBuffer (io_exts s (vga_extension s)) = VGA_BASE_ADDRESS"
    "ScreenWidth (io_exts s (vga_extension s)) = 640" "ScreenHeight (io_exts s (vga_extension s)) = 480"
    using ready by (simp_all add: graphics_ready_def)
  have span: "plain_span x w" using L w by (simp add: plain_span_def)
  have on: "\<not> (yy < 0 \<or> yy \<ge> uint (ScreenHeight (io_exts s (vga_extension s))))" unfolding D W using L(3,4) by simp
  have res: "fill_row (io_exts s (vga_extension s)) x w yy c s = fill_tail x2 (x + w) yy c s2"
    unfolding fill_row_plain [OF span head(1) on] D W s2_def x2_def n_def of_int_numeral
    by (cases "x1 + 8 \<le> x + w") (simp_all only: if_True if_False)
  have "line_bytes yy x (x + w) \<subseteq> line_bytes yy x x2 \<union> line_bytes yy x2 (x + w)"
    "line_bytes yy x x2 \<subseteq> line_bytes yy x x1 \<union> line_bytes yy x1 x2"
    using line_bytes_append [of x x2 "x + w" yy] line_bytes_append [of x x1 x2 yy] head(2) x2 lo2 by simp_all
  from improves_trans [OF improves_trans [OF i1 i2 this(2)] i3 this(1)] show ?thesis unfolding res .
qed


lemma fill_row_off_screen:
  assumes "graphics_ready s" "yy < 0 \<or> 480 \<le> yy"
  shows "fill_row (io_exts s (vga_extension s)) x w yy c s = s"
  using assms by (auto simp: fill_row_def graphics_ready_def)

lemma fill_rows_improves:
  assumes "graphics_ready s" "g_shadow s = sh" "0 < w" "0 \<le> x" "x + w \<le> 640"
    and "\<And>u v. x \<le> u \<Longrightarrow> u < x + w \<Longrightarrow> y \<le> v \<Longrightarrow> v < y + int n \<Longrightarrow> 0 \<le> v \<Longrightarrow> v < 480
      \<Longrightarrow> sh (nat (v * 640 + u)) = c"
  shows "improves other h sh (\<Union>r \<in> {r. r < n \<and> 0 \<le> y + int r \<and> y + int r < 480}. line_bytes (y + int r) x (x + w)) s
    (fold (\<lambda>row. fill_row (io_exts s (vga_extension s)) x w (y + int row) c) [0..<n] s)"
  using assms(6)
proof (induction n)
  case 0
  then show ?case using improves_refl [OF assms(2)] by simp
next
  case (Suc n)
  let ?de = "io_exts s (vga_extension s)"
  let ?t = "fold (\<lambda>row. fill_row ?de x w (y + int row) c) [0..<n] s"
  let ?U = "\<lambda>n. \<Union>r \<in> {r. r < n \<and> 0 \<le> y + int r \<and> y + int r < 480}. line_bytes (y + int r) x (x + w)"
  have before: "improves other h sh (?U n) s ?t" using Suc by simp
  then have t: "graphics_ready ?t" "g_shadow ?t = sh" using assms(1) by (simp_all add: improves_def)
  have de: "io_exts ?t (vga_extension ?t) = ?de"
    using undrawn_parts [of ?t s] by simp
  show ?case
  proof (cases "0 \<le> y + int n \<and> y + int n < 480")
    case True
    have "painted_line sh (y + int n) x (x + w) c"
      unfolding painted_line_def
    proof (intro conjI allI impI)
      fix u assume "x \<le> u \<and> u < x + w"
      then show "sh (nat ((y + int n) * 640 + u)) = c" using True by (intro Suc.prems) auto
    qed (use True assms(4,5) in auto)
    then have "improves other h sh (line_bytes (y + int n) x (x + w)) ?t (fill_row ?de x w (y + int n) c ?t)"
      using fill_row_improves [OF _ t assms(3)] unfolding de by blast
    moreover have "?U (Suc n) \<subseteq> ?U n \<union> line_bytes (y + int n) x (x + w)" by (auto simp: less_Suc_eq)
    ultimately have "improves other h sh (?U (Suc n)) s (fill_row ?de x w (y + int n) c ?t)"
      by (rule improves_trans [OF before])
    then show ?thesis by simp
  next
    case False
    then have "fill_row ?de x w (y + int n) c ?t = ?t"
      using fill_row_off_screen [OF t(1), of "y + int n" x w c] de by auto
    moreover have "?U (Suc n) = ?U n" using False by (auto simp: less_Suc_eq)
    ultimately show ?thesis using before by simp
  qed
qed

text \<open>
  \<open>VgaFillRect\<close> on a ready device: the shadow first, then the screen lines. The lines leave the
  shadow as it is, wherever the rectangle lies.
\<close>

definition rect_shadowed :: "int \<Rightarrow> int \<Rightarrow> int \<Rightarrow> int \<Rightarrow> u8 \<Rightarrow> 'a vga_scheme \<Rightarrow> 'a vga_scheme" where
  "rect_shadowed x y w h c s = serial_puts (''[vga] VgaFillRect shadow done'' @ [CHR 0x0A])
     ((serial_puts (''[vga] VgaFillRect start'' @ [CHR 0x0A]) s)\<lparr>g_shadow := fill_shadow x y w h c (g_shadow s)\<rparr>)"

lemma rect_shadowed_fields:
  "g_shadow (rect_shadowed x y w h c s) = fill_shadow x y w h c (g_shadow s)"
  "undrawn (rect_shadowed x y w h c s) = undrawn s"
  "adapter_run other a (rect_shadowed x y w h c s) = adapter_run other a s"
proof -
  show "adapter_run other a (rect_shadowed x y w h c s) = adapter_run other a s"
    by (rule adapter_run_cong) (simp only: rect_shadowed_def serial_puts_eq, simp)
qed (simp_all add: rect_shadowed_def)

lemma VgaFillRect_ready:
  assumes "graphics_ready s" "0 < w" "0 < h"
  shows "VgaFillRect x y w h c s = serial_puts (''[vga] VgaFillRect hardware done'' @ [CHR 0x0A])
    (fold (\<lambda>row. fill_row (io_exts s (vga_extension s)) x w (y + int row) c) [0..<nat h] (rect_shadowed x y w h c s))"
proof -
  note parts = undrawn_parts [OF rect_shadowed_fields(2) [of x y w h c s]]
  have "g_VgaDevice s \<noteq> 0" "vga_extension s \<noteq> 0" "GraphicsMode (io_exts s (vga_extension s)) \<noteq> 0"
    using assms(1) by (simp_all add: graphics_ready_def)
  moreover have "\<not> (w \<le> 0 \<or> h \<le> 0)" using assms(2,3) by simp
  ultimately show ?thesis
    unfolding VgaFillRect_def Let_def shadow_steps rect_shadowed_def [symmetric] parts
    by (simp only: if_False simp_thms)
qed

lemma repaint_shadow:
  assumes "graphics_ready s" "0 \<le> x \<and> x < 640 \<and> 0 \<le> y \<and> y < 480 \<Longrightarrow> g_shadow s (nat (y * 640 + x)) = c"
  shows "g_shadow (VgaPutPixel x y c s) = g_shadow s"
proof (cases "0 \<le> x \<and> x < 640 \<and> 0 \<le> y \<and> y < 480")
  case True
  then show ?thesis using VgaPutPixel_ready(1) [OF assms(1), of x y c] assms(2) by auto
next
  case False
  then show ?thesis using VgaPutPixel_off_screen [OF assms(1), of x y c] by (auto simp: not_le not_less)
qed

definition line_painted :: "(nat \<Rightarrow> u8) \<Rightarrow> int \<Rightarrow> int \<Rightarrow> int \<Rightarrow> u8 \<Rightarrow> bool" where
  "line_painted sh yy lo hi c \<longleftrightarrow> (\<forall>u. lo \<le> u \<and> u < hi \<and> 0 \<le> u \<and> u < 640 \<and> 0 \<le> yy \<and> yy < 480
     \<longrightarrow> sh (nat (yy * 640 + u)) = c)"

lemma fill_head_shadow:
  "graphics_ready s \<Longrightarrow> line_painted (g_shadow s) yy a e c
    \<Longrightarrow> g_shadow (snd (fill_head a e yy c s)) = g_shadow s \<and> a \<le> fst (fill_head a e yy c s)"
proof (induction a e yy c s rule: fill_head.induct)
  case (1 a e yy c s)
  show ?case
  proof (cases "a < e \<and> a mod 8 \<noteq> 0")
    case True
    have keep: "g_shadow (VgaPutPixel a yy c s) = g_shadow s"
      using 1(2,3) True by (intro repaint_shadow) (auto simp: line_painted_def)
    have "line_painted (g_shadow (VgaPutPixel a yy c s)) yy (a + 1) e c"
      using 1(3) unfolding keep by (auto simp: line_painted_def)
    then show ?thesis using 1(1) [OF True] 1(2) keep True by (subst (1 2) fill_head.simps) simp
  next
    case False
    then show ?thesis by (subst (1 2) fill_head.simps) auto
  qed
qed

lemma fill_tail_shadow:
  "graphics_ready s \<Longrightarrow> line_painted (g_shadow s) yy a e c
    \<Longrightarrow> g_shadow (fill_tail a e yy c s) = g_shadow s"
proof (induction a e yy c s rule: fill_tail.induct)
  case (1 a e yy c s)
  show ?case
  proof (cases "a < e")
    case True
    have keep: "g_shadow (VgaPutPixel a yy c s) = g_shadow s"
      using 1(2,3) True by (intro repaint_shadow) (auto simp: line_painted_def)
    have "line_painted (g_shadow (VgaPutPixel a yy c s)) yy (a + 1) e c"
      using 1(3) unfolding keep by (auto simp: line_painted_def)
    then show ?thesis using 1(1) [OF True] 1(2) keep True by (subst fill_tail.simps) simp
  next
    case False
    then show ?thesis by (subst fill_tail.simps) simp
  qed
qed

definition int_span :: "int \<Rightarrow> int \<Rightarrow> bool" where
  "int_span x w \<longleftrightarrow> - 2147483648 \<le> x \<and> x < 2147483648 \<and> 0 < w \<and> w < 2147483648"

lemma int_span_screen: "0 \<le> x \<Longrightarrow> x + w \<le> 640 \<Longrightarrow> 0 < w \<Longrightarrow> int_span x w"
  by (simp add: int_span_def)

text \<open>
  Whatever its end is wrapped to, a line paints no pixel that the shadow does not have: where the end
  overflows it is negative, and so is everything that is painted up to it.
\<close>

lemma INT32_end: "int_span x w \<Longrightarrow> INT32 (x + w) < 0 \<and> x + w \<ge> 2147483648 \<or> INT32 (x + w) = x + w"
proof (cases "x + w < 2147483648")
  case False
  assume span: "int_span x w"
  have "INT32 (x + w) = INT32 (x + w - 4294967296)" by (rule INT32_wraps)
  also have "\<dots> = x + w - 4294967296" using span False by (intro INT32_id) (simp_all add: int_span_def)
  finally show ?thesis using span False by (simp add: int_span_def)
qed (simp add: int_span_def INT32_id)

lemma fill_row_shadow:
  assumes ready: "graphics_ready s" and line: "line_painted (g_shadow s) yy x (x + w) c" and span: "int_span x w"
  shows "g_shadow (fill_row de x w yy c s) = g_shadow s"
proof -
  define e where "e = INT32 (x + w)"
  have e: "e < 0 \<or> e = x + w" using INT32_end [OF span] by (auto simp: e_def)
  obtain a t where head: "fill_head x e yy c s = (a, t)" by fastforce
  have line_e: "line_painted (g_shadow s) yy b e c" if "e < 0 \<or> x \<le> b" for b
    using line e that by (auto simp: line_painted_def)
  have t: "g_shadow t = g_shadow s" "undrawn t = undrawn s"
    using fill_head_shadow [OF ready line_e, of x] fill_head_undrawn [of x e yy c s] unfolding head by simp_all
  define n where "n = INT32 (e - a) sdiv 8"
  define b where "b = (if INT32 (a + 8) \<le> e then INT32 (a + n * 8) else a)"
  have b: "e < 0 \<or> x \<le> b"
  proof (rule disjCI)
    assume "\<not> x \<le> b"
    show "e < 0"
    proof (rule ccontr)
      assume "\<not> e < 0"
      then have w: "e = x + w" "x + w < 2147483648" "- 2147483648 \<le> x" "0 < w" "w < 2147483648"
        using e INT32_bounds [of "x + w"] span by (auto simp: e_def int_span_def)
      then have "x \<le> e" by simp
      note h = fill_head_stops [OF head this]
      have "INT32 (e - a) = e - a" using h w by (intro INT32_id) simp_all
      then have n: "n = (e - a) div 8" using h unfolding n_def by (simp add: sdiv_8)
      then have "0 \<le> n * 8" "n * 8 \<le> e - a" using h by simp_all
      moreover then have "INT32 (a + n * 8) = a + n * 8" using h w by (intro INT32_id) linarith+
      ultimately have "x \<le> b" using h by (simp add: b_def)
      with \<open>\<not> x \<le> b\<close> show False ..
    qed
  qed
  have tail: "g_shadow (fill_tail b e yy c u) = g_shadow s" if "g_shadow u = g_shadow s" "undrawn u = undrawn s" for u
    using fill_tail_shadow [of u yy b e c] undrawn_ready [OF that(2)] ready line_e [OF b] that(1) by simp
  show ?thesis
  proof (cases "yy < 0 \<or> yy \<ge> uint (ScreenHeight de)")
    case False
    let ?fb = "fill_bytes (FrameBuffer de + word_of_int yy * word_of_int (sint (ScreenWidth de) div 8) + word_of_int (a sdiv 8)) (nat n) c t"
    have "fill_row de x w yy c s = fill_tail b e yy c (if INT32 (a + 8) \<le> e then ?fb else t)"
      unfolding fill_row_def if_not_P [OF False] Let_def e_def [symmetric] head prod.case n_def [symmetric] b_def
      by (cases "INT32 (a + 8) \<le> e") (simp_all only: if_True if_False prod.case)
    then show ?thesis using tail [of ?fb] tail [of t] t by simp
  qed (simp add: fill_row_def)
qed


lemma fill_rows_shadow:
  assumes "graphics_ready s"
    and "\<And>r. r < n \<Longrightarrow> line_painted (g_shadow s) (y + int r) x (x + w) c" and span: "int_span x w"
  shows "g_shadow (fold (\<lambda>row. fill_row de x w (y + int row) c) [0..<n] s) = g_shadow s"
  using assms(2)
proof (induction n)
  case 0
  then show ?case by simp
next
  case (Suc n)
  let ?t = "fold (\<lambda>row. fill_row de x w (y + int row) c) [0..<n] s"
  have same: "g_shadow ?t = g_shadow s" using Suc by simp
  moreover have "undrawn ?t = undrawn s" by simp
  then have "graphics_ready ?t" using undrawn_ready assms(1) by blast
  ultimately show ?case
    using fill_row_shadow [OF _ _ span, of ?t "y + int n" c de] Suc.prems [of n] by simp
qed

lemma VgaFillRect_shadow:
  assumes "graphics_ready s" "int_span x w" "0 < h"
  shows "g_shadow (VgaFillRect x y w h c s) = fill_shadow x y w h c (g_shadow s)"
proof -
  have w: "0 < w" using assms(2) by (simp add: int_span_def)
  let ?t = "rect_shadowed x y w h c s"
  have "graphics_ready ?t" using undrawn_ready [OF rect_shadowed_fields(2)] assms(1) by blast
  moreover have "line_painted (g_shadow ?t) (y + int r) x (x + w) c" if "r < nat h" for r
    unfolding line_painted_def rect_shadowed_fields(1)
  proof (intro allI impI)
    fix u
    assume u: "x \<le> u \<and> u < x + w \<and> 0 \<le> u \<and> u < 640 \<and> 0 \<le> y + int r \<and> y + int r < 480"
    define i where "i = nat ((y + int r) * 640 + u)"
    have i: "int (i div 640) = y + int r" "int (i mod 640) = u"
      using shadow_index(1) [of u "y + int r" i] u by (simp_all add: i_def)
    then have "i < 307200" using u by linarith
    moreover have "int r < int (nat h)" using that by (simp only: of_nat_less_iff)
    moreover have "u < x + int (nat w)" using u w by simp
    ultimately show "fill_shadow x y w h c (g_shadow s) (nat ((y + int r) * 640 + u)) = c"
      unfolding i_def [symmetric] fill_shadow_apply i using u by (simp only: simp_thms if_True) simp
  qed
  ultimately show ?thesis
    unfolding VgaFillRect_ready [OF assms(1) w assms(3)] shadow_steps
    using fill_rows_shadow [OF _ _ assms(2), of ?t "nat h" y c] by (simp add: rect_shadowed_fields(1))
qed

lemma fill_untouched:
  assumes "off < 38400" "0 \<le> x" "x + w \<le> 640"
    and out: "off \<notin> (\<Union>r \<in> {r. r < nat h \<and> 0 \<le> y + int r \<and> y + int r < 480}. line_bytes (y + int r) x (x + w))"
  shows "packed p (fill_shadow x y w h c sh) off = packed p sh off"
proof (rule packed_cong)
  fix b :: nat
  assume b: "b < 8"
  let ?i = "8 * off + b"
  show "fill_shadow x y w h c sh ?i = sh ?i"
  proof (rule ccontr)
    assume "fill_shadow x y w h c sh ?i \<noteq> sh ?i"
    then have i: "y \<le> int (?i div 640)" "int (?i div 640) < y + int (nat h)"
      "x \<le> int (?i mod 640)" "int (?i mod 640) < x + int (nat w)"
      unfolding fill_shadow_apply by (auto split: if_splits)
    define r where "r = nat (int (?i div 640) - y)"
    have "int r = int (?i div 640) - y" using i(1) by (simp add: r_def)
    then have row: "y + int r = int (?i div 640)" "r < nat h" using i(2) by linarith+
    have "?i div 640 < 480" using assms(1) b by (simp add: div_less_iff_less_mult)
    then have "r \<in> {r. r < nat h \<and> 0 \<le> y + int r \<and> y + int r < 480}" using row by simp
    moreover have "off = nat ((y + int r) * 80 + int (?i mod 640) div 8)"
    proof -
      obtain q m where qm: "?i div 640 = q" "?i mod 640 = m" by blast
      have "off = ?i div 8" using b by simp
      also have "?i = 8 * (80 * q) + m" unfolding qm [symmetric] by simp
      also have "\<dots> div 8 = 80 * q + m div 8" by simp
      finally have "off = 80 * (?i div 640) + ?i mod 640 div 8" unfolding qm .
      then show ?thesis unfolding row(1) by (simp add: nat_add_distrib nat_mult_distrib zdiv_int [symmetric])
    qed
    moreover have "int (?i mod 640) < x + w" using i(3,4) by linarith
    then have "int (?i mod 640) \<in> {x..<x + w}" using i(3) by simp
    ultimately show False using out unfolding line_bytes_def by blast
  qed
qed

lemma VgaFillRect_shows:
  assumes ready: "graphics_ready s" and synced: "shows_shadow other h s" and x: "0 \<le> x" "x + w \<le> 640"
    and pos: "0 < w" "0 < ht"
  shows "shows_shadow other h (VgaFillRect x y w ht c s)"
proof -
  let ?t = "rect_shadowed x y w ht c s" and ?sh = "fill_shadow x y w ht c (g_shadow s)"
  let ?U = "\<Union>r \<in> {r. r < nat ht \<and> 0 \<le> y + int r \<and> y + int r < 480}. line_bytes (y + int r) x (x + w)"
  have t: "graphics_ready ?t" "g_shadow ?t = ?sh"
    using undrawn_ready [OF rect_shadowed_fields(2)] ready rect_shadowed_fields(1) by blast+
  have de: "io_exts ?t (vga_extension ?t) = io_exts s (vga_extension s)"
    using undrawn_parts [OF rect_shadowed_fields(2) [of x y w ht c s]] by simp
  have colour: "?sh (nat (v * 640 + u)) = c"
    if "x \<le> u" "u < x + w" "y \<le> v" "v < y + int (nat ht)" "0 \<le> v" "v < 480" for u v
  proof -
    define i where "i = nat (v * 640 + u)"
    have i: "int (i div 640) = v" "int (i mod 640) = u"
      using shadow_index(1) [of u v i] that x by (simp_all add: i_def)
    then have "i < 307200" using that by linarith
    with i that show ?thesis unfolding i_def [symmetric] fill_shadow_apply by simp
  qed
  let ?u = "fold (\<lambda>row. fill_row (io_exts s (vga_extension s)) x w (y + int row) c) [0..<nat ht] ?t"
  have imp: "improves other h ?sh ?U ?t ?u"
    using fill_rows_improves [OF t pos(1) x, of y "nat ht" c other h, OF colour] unfolding de .
  have plain: "plain_write (adapter_run other h ?t)"
    using synced unfolding rect_shadowed_fields(3) by (simp add: shows_shadow_def)
  have "agree_at (adapter_run other h ?t) ?sh off" if "off < 38400" "off \<notin> ?U" for off
    using synced fill_untouched [OF that(1) x that(2), of _ c "g_shadow s"] that(1)
    unfolding rect_shadowed_fields(3) by (simp add: shows_shadow_def agree_at_def)
  then have "agree_at (adapter_run other h ?u) ?sh off" if "off < 38400" for off
    using improvesD(2) [OF imp plain that] that by blast
  with improvesD(1) [OF imp plain]
  have "plain_write (adapter_run other h ?u)" "\<forall>off < 38400. agree_at (adapter_run other h ?u) ?sh off"
    by blast+
  moreover have "g_shadow ?u = ?sh" using imp unfolding improves_def by (elim conjE)
  ultimately have "shows_shadow other h ?u" unfolding shows_shadow_def by (simp only: simp_thms)
  then show ?thesis
    unfolding VgaFillRect_ready [OF ready pos] shows_shadow_def adapter_run_puts shadow_steps .
qed


subsection \<open>Clearing the screen\<close>

lemma fold_fill_fun: "fold (\<lambda>i f. f(i := v)) [0..<n] f = (\<lambda>i. if i < n then v else f i)"
  by (induction n) (auto simp: fun_eq_iff less_Suc_eq)

lemma VgaClearScreen_ready:
  assumes ready: "graphics_ready s"
  shows "g_shadow (VgaClearScreen c s) = (\<lambda>i. if i < 307200 then c else g_shadow s i)"
    and "plain_write (adapter_run other h s) \<Longrightarrow> shows_shadow other h (VgaClearScreen c s)"
proof -
  let ?mask = "\<lambda>p :: nat. if c AND push_bit p 1 \<noteq> 0 then 0xFF else (0 :: u8)"
  let ?t = "fold (\<lambda>p s. fold (\<lambda>b. fb_store (VGA_BASE_ADDRESS + of_nat b) (?mask p)) [0..<38400]
      (VgaWriteSequencer 2 (push_bit p 1) s)) [0..<4] s"
  let ?fill = "fold (\<lambda>i sh. sh(i := c)) [0..<SHADOW_W * SHADOW_H] (g_shadow (VgaWriteSequencer 2 0x0F ?t))"
  have size: "unat (480 * (640 div 8) :: u32) = 38400" by simp
  have "g_VgaDevice s \<noteq> 0" "\<not> (vga_extension s = 0 \<or> GraphicsMode (io_exts s (vga_extension s)) = 0)"
    "FrameBuffer (io_exts s (vga_extension s)) = VGA_BASE_ADDRESS"
    "ScreenWidth (io_exts s (vga_extension s)) = 640" "ScreenHeight (io_exts s (vga_extension s)) = 480"
    using ready by (simp_all add: graphics_ready_def)
  then have res: "VgaClearScreen c s = (VgaWriteSequencer 2 0x0F ?t)\<lparr>g_shadow := ?fill\<rparr>"
    unfolding VgaClearScreen_def Let_def by (simp only: if_False size)
  have inner: "g_shadow (fold (\<lambda>b. fb_store (VGA_BASE_ADDRESS + of_nat b) v) bs u) = g_shadow u" for v bs and u :: "'a vga_scheme"
    by (rule fold_keeps) simp
  have keep: "g_shadow ?t = g_shadow s" by (rule fold_keeps) (simp only: inner shadow_steps)
  have fill: "?fill = (\<lambda>i. if i < 307200 then c else g_shadow s i)"
    unfolding fold_fill_fun SHADOW_W_def SHADOW_H_def shadow_steps keep by simp
  show shadow: "g_shadow (VgaClearScreen c s) = (\<lambda>i. if i < 307200 then c else g_shadow s i)"
    unfolding res fill by simp
  assume plain: "plain_write (adapter_run other h s)"
  obtain i m where t: "adapter_run other h ?t = (adapter_run other h s)\<lparr>seq_index := i,
      seq := (seq (adapter_run other h s))(2 := m),
      planes := (\<lambda>q. if q < 4 then (\<lambda>o'. if covers VGA_BASE_ADDRESS 38400 o' then ?mask q
          else planes (adapter_run other h s) q o') else planes (adapter_run other h s) q)\<rparr>"
    using store_planes [OF plain order_refl, of VGA_BASE_ADDRESS ?mask 38400] by blast
  have run: "adapter_run other h (VgaClearScreen c s)
      = (adapter_run other h ?t)\<lparr>seq_index := 2, seq := (seq (adapter_run other h ?t))(2 := 0x0F)\<rparr>"
  proof -
    have "adapter_run other h (VgaClearScreen c s) = adapter_run other h (VgaWriteSequencer 2 0x0F ?t)"
      unfolding res by (rule adapter_run_shadow)
    then show ?thesis by (simp only: adapter_run_sequencer)
  qed
  have "plain_write (adapter_run other h (VgaClearScreen c s))"
    using plain unfolding run t by (simp add: plain_write_def)
  moreover have "agree_at (adapter_run other h (VgaClearScreen c s)) (g_shadow (VgaClearScreen c s)) off"
    if "off < 38400" for off
    unfolding agree_at_def
  proof (intro allI impI)
    fix p :: nat
    assume p: "p < 4"
    have "packed p (g_shadow (VgaClearScreen c s)) off = ?mask p"
      unfolding shadow by (rule packed_uniform) (use that in auto)
    moreover have "covers VGA_BASE_ADDRESS 38400 (of_nat off)"
      unfolding covers_visible [OF that] using that by (intro exI [of _ off]) simp
    ultimately show "planes (adapter_run other h (VgaClearScreen c s)) p (of_nat off)
        = packed p (g_shadow (VgaClearScreen c s)) off"
      using p unfolding run t by simp
  qed
  ultimately show "shows_shadow other h (VgaClearScreen c s)" unfolding shows_shadow_def by blast
qed


subsection \<open>The machine's memory\<close>

text \<open>
  The display's device is set up for 640x480 or does not draw at all: so it is from the boot on.
\<close>

definition screen_mapped :: "'a vga_scheme \<Rightarrow> bool" where
  "screen_mapped s \<longleftrightarrow>
     (g_VgaDevice s \<noteq> 0 \<and> vga_extension s \<noteq> 0 \<and> GraphicsMode (io_exts s (vga_extension s)) \<noteq> 0
      \<longrightarrow> graphics_ready s)"

lemma ready_mapped: "graphics_ready s \<Longrightarrow> screen_mapped s"
  by (simp add: screen_mapped_def)

lemma undrawn_mapped: "undrawn s = undrawn t \<Longrightarrow> screen_mapped s = screen_mapped t"
  using undrawn_ready [of s t] undrawn_parts [of s t] by (simp add: screen_mapped_def)

lemma mapped_steps [simp]:
  "screen_mapped (VgaPutPixel x y c s) = screen_mapped s"
  "screen_mapped (VgaFillRect x y w h c s) = screen_mapped s"
  "screen_mapped (VgaClearScreen c s) = screen_mapped s"
  "screen_mapped (serial_puts str s) = screen_mapped s"
  "screen_mapped (s\<lparr>g_shadow := sh\<rparr>) = screen_mapped s"
  "screen_mapped (s\<lparr>phys_mem := m\<rparr>) = screen_mapped s"
  by (rule undrawn_mapped, simp)+

lemma memory_steps [simp]:
  "phys_mem (serial_puts str s) = phys_mem s" "phys_mem (VgaWriteSequencer i v s) = phys_mem s"
  "in_window a \<Longrightarrow> phys_mem (fb_store a v s) = phys_mem s"
  by (simp_all add: serial_puts_eq fb_store_def vga_event_def VgaWriteSequencer_def vga_outb_def outb_def)

lemma fold_keeps_within:
  assumes "\<And>i s. i \<in> set is \<Longrightarrow> Q s \<Longrightarrow> P (f i s) = P s \<and> Q (f i s)"
  shows "Q s \<Longrightarrow> P (fold f is s) = P s"
  using assms by (induction "is" arbitrary: s) auto

lemma VgaPutPixel_memory [simp]: "screen_mapped s \<Longrightarrow> phys_mem (VgaPutPixel x y c s) = phys_mem s"
proof (cases "graphics_ready s \<and> 0 \<le> x \<and> x < 640 \<and> 0 \<le> y \<and> y < 480")
  case True
  then have on: "0 \<le> x" "x < 640" "0 \<le> y" "y < 480" and ready: "graphics_ready s" by simp_all
  have "x div 8 < 80" using on by linarith
  then have "nat (y * 80 + x div 8) < 38400" using on by (simp add: nat_less_iff)
  then have "in_window (VGA_BASE_ADDRESS + of_nat (nat (y * 80 + x div 8)))" by (intro in_window_offset) simp
  then have "in_window (VGA_BASE_ADDRESS + (word_of_int y * (640 div 8) + word_of_int (x div 8)))"
    unfolding byte_index [OF on(1,3)] .
  then show ?thesis
    using True unfolding VgaPutPixel_def Let_def graphics_ready_def by (simp add: fold_keeps [where P = phys_mem])
next
  case False
  assume "screen_mapped s"
  then have "VgaPutPixel x y c s = s" if "\<not> graphics_ready s"
    using that unfolding screen_mapped_def VgaPutPixel_def Let_def by auto
  moreover have "VgaPutPixel x y c s = s" if "graphics_ready s"
    using that False by (intro VgaPutPixel_off_screen) auto
  ultimately show ?thesis by metis
qed

lemma VgaClearScreen_memory [simp]: "screen_mapped s \<Longrightarrow> phys_mem (VgaClearScreen c s) = phys_mem s"
proof (cases "graphics_ready s")
  case True
  have "unat (480 * (640 div 8) :: u32) = 38400" by simp
  moreover have "phys_mem (fold (\<lambda>i. fb_store (VGA_BASE_ADDRESS + of_nat i) v) [0..<38400] t) = phys_mem t"
    for v and t :: "'a vga_scheme" by (rule fold_keeps) (auto intro!: memory_steps(3) in_window_offset)
  ultimately show ?thesis
    using True unfolding VgaClearScreen_def Let_def graphics_ready_def by (simp add: fold_keeps [where P = phys_mem])
next
  case False
  assume "screen_mapped s"
  with False show ?thesis unfolding screen_mapped_def VgaClearScreen_def Let_def by auto
qed

lemma fill_head_memory: "screen_mapped s \<Longrightarrow> phys_mem (snd (fill_head a e y c s)) = phys_mem s"
proof (induction a e y c s rule: fill_head.induct)
  case (1 a e y c s)
  then show ?case by (subst fill_head.simps) simp
qed

lemma fill_tail_memory: "screen_mapped s \<Longrightarrow> phys_mem (fill_tail a e y c s) = phys_mem s"
proof (induction a e y c s rule: fill_tail.induct)
  case (1 a e y c s)
  then show ?case by (subst fill_tail.simps) simp
qed

lemma fill_bytes_memory:
  assumes "\<And>b. b < n \<Longrightarrow> in_window (ptr + of_nat b)"
  shows "phys_mem (fill_bytes ptr n c s) = phys_mem s"
proof -
  have "phys_mem (fold (\<lambda>b. fb_store (ptr + of_nat b) v) [0..<n] t) = phys_mem t" for v and t :: "'a vga_scheme"
    by (rule fold_keeps) (use assms in simp)
  then show ?thesis by (simp add: fill_bytes_def Let_def fold_keeps [where P = phys_mem])
qed

definition rect_in_window :: "int \<Rightarrow> int \<Rightarrow> int \<Rightarrow> bool" where
  "rect_in_window x w h \<longleftrightarrow> w \<le> 0 \<or> h \<le> 0 \<or> 0 \<le> x \<and> x + w \<le> 217728"

lemma fill_row_memory:
  assumes ready: "graphics_ready s" and w: "0 < w" "0 \<le> x" "x + w \<le> 217728"
  shows "phys_mem (fill_row (io_exts s (vga_extension s)) x w yy c s) = phys_mem s"
proof (cases "yy < 0 \<or> yy \<ge> uint (ScreenHeight (io_exts s (vga_extension s)))")
  case False
  have D: "FrameBuffer (io_exts s (vga_extension s)) = VGA_BASE_ADDRESS" "uint (480 :: u32) = 480"
    "ScreenWidth (io_exts s (vga_extension s)) = 640" "ScreenHeight (io_exts s (vga_extension s)) = 480" "sint (640 :: u32) div 8 = 80"
    using ready by (simp_all add: graphics_ready_def)
  have span: "plain_span x w" using w by (simp add: plain_span_def)
  obtain a t where head: "fill_head x (x + w) yy c s = (a, t)" by fastforce
  have "x \<le> x + w" using w by simp
  note a = fill_head_stops [OF head this]
  have t: "phys_mem t = phys_mem s" "screen_mapped t"
    using fill_head_memory [OF ready_mapped [OF ready], of x "x + w" yy c] undrawn_mapped [OF fill_head_undrawn, of x "x + w" yy c s]
      ready_mapped [OF ready] unfolding head by simp_all
  let ?n = "(x + w - a) div 8" and ?ptr = "VGA_BASE_ADDRESS + word_of_int yy * word_of_int 80 + word_of_int (a div 8)"
  have bytes: "phys_mem (fill_bytes ?ptr (nat ?n) c t) = phys_mem t"
  proof (rule fill_bytes_memory)
    fix b
    assume b: "b < nat ?n"
    define off where "off = nat (yy * 80 + a div 8) + b"
    have y: "0 \<le> yy" "yy < 480" using False D by simp_all
    have "0 \<le> a div 8" "0 \<le> yy * 80" using a(1) w y by simp_all
    then have o: "int off = yy * 80 + a div 8 + int b" by (simp add: off_def)
    have "int b < (x + w - a) div 8" using b by linarith
    then have "a div 8 + int b < 27216" using a w by linarith
    then have "off < 0x10000" using o y by linarith
    moreover have "?ptr + of_nat b = VGA_BASE_ADDRESS + word_of_int (int off)" unfolding o by (simp add: add.assoc)
    then have "?ptr + of_nat b = VGA_BASE_ADDRESS + of_nat off" by simp
    ultimately show "in_window (?ptr + of_nat b)" by (simp only: in_window_offset)
  qed
  have m: "screen_mapped (fill_bytes ?ptr (nat ?n) c t)" using undrawn_mapped [OF fill_bytes_undrawn(1)] t(2) by blast
  show ?thesis
    unfolding fill_row_plain [OF span head False] D
    by (cases "a + 8 \<le> x + w") (simp_all only: if_True if_False fill_tail_memory [OF m] fill_tail_memory [OF t(2)] bytes t(1))
qed (simp add: fill_row_def)

lemma VgaFillRect_memory [simp]:
  assumes "screen_mapped s" "rect_in_window x w h"
  shows "phys_mem (VgaFillRect x y w h c s) = phys_mem s"
proof (cases "graphics_ready s \<and> 0 < w \<and> 0 < h")
  case True
  then have r: "graphics_ready s" "0 < w" "0 < h" "0 \<le> x" "x + w \<le> 217728" using assms(2) by (auto simp: rect_in_window_def)
  let ?de = "io_exts s (vga_extension s)" and ?t = "rect_shadowed x y w h c s"
  have t: "undrawn ?t = undrawn s" by (rule rect_shadowed_fields(2))
  have "phys_mem (fold (\<lambda>row. fill_row ?de x w (y + int row) c) [0..<nat h] ?t) = phys_mem ?t"
  proof (rule fold_keeps_within [where Q = "\<lambda>u. undrawn u = undrawn s", OF _ t])
    fix i and u :: "'a vga_scheme"
    assume u: "undrawn u = undrawn s"
    have "graphics_ready u" using undrawn_ready [OF u] r(1) by simp
    from fill_row_memory [OF this r(2,4,5), of "y + int i" c] u
    show "phys_mem (fill_row ?de x w (y + int i) c u) = phys_mem u \<and> undrawn (fill_row ?de x w (y + int i) c u) = undrawn s"
      unfolding undrawn_parts [OF u] fill_row_undrawn by blast
  qed
  also have "phys_mem ?t = phys_mem s" by (simp add: rect_shadowed_def)
  finally show ?thesis unfolding VgaFillRect_ready [OF r(1-3)] memory_steps .
next
  case False
  note parts = undrawn_parts [OF rect_shadowed_fields(2) [of x y w h c s]]
  have "phys_mem (rect_shadowed x y w h c s) = phys_mem s" by (simp add: rect_shadowed_def)
  moreover have "g_VgaDevice s = 0 \<or> vga_extension s = 0 \<or> GraphicsMode (io_exts s (vga_extension s)) = 0 \<or> w \<le> 0 \<or> h \<le> 0"
    using False assms(1) by (auto simp: screen_mapped_def)
  ultimately show ?thesis
    unfolding VgaFillRect_def Let_def shadow_steps rect_shadowed_def [symmetric] parts by auto
qed

text \<open>
  What a run of bytes that leaves the adapter's 64 KB does: all four planes' bytes go to the same
  place, and the last one stays.
\<close>

lemma run_memory:
  "phys_mem (fold (\<lambda>b. fb_store (ptr + of_nat b) v) [0..<n] s)
    = (\<lambda>a. if \<not> in_window a \<and> (\<exists>b < n. a = ptr + of_nat b) then v else phys_mem s a)"
proof (induction n)
  case (Suc n)
  have step: "phys_mem (fb_store q w u) = (if in_window q then phys_mem u else (phys_mem u)(q := w))"
    for q w and u :: "'a vga_scheme" by (simp add: fb_store_def vga_event_def)
  show ?case by (auto simp: step Suc.IH fun_eq_iff less_Suc_eq)
qed simp

lemma fill_bytes_overwrites:
  "phys_mem (fill_bytes ptr n c s)
    = (\<lambda>a. if \<not> in_window a \<and> (\<exists>b < n. a = ptr + of_nat b) then (if c AND push_bit 3 1 \<noteq> 0 then 0xFF else 0) else phys_mem s a)"
proof (rule ext)
  fix a
  have planes: "[0..<4] = [0, 1, 2, 3 :: nat]" by (simp add: upt_rec)
  show "phys_mem (fill_bytes ptr n c s) a
    = (if \<not> in_window a \<and> (\<exists>b < n. a = ptr + of_nat b) then (if c AND push_bit 3 1 \<noteq> 0 then 0xFF else 0) else phys_mem s a)"
  proof (cases "\<not> in_window a \<and> (\<exists>b < n. a = ptr + of_nat b)")
    case True
    then show ?thesis by (simp only: fill_bytes_def Let_def planes fold.simps comp_def id_def memory_steps run_memory if_True simp_thms)
  next
    case False
    then show ?thesis by (simp only: fill_bytes_def Let_def planes fold.simps comp_def id_def memory_steps run_memory if_False)
  qed
qed

lemma wide_rect_overwrites:
  assumes ready: "graphics_ready s" and y: "0 \<le> y" "y < 480" and w: "0 < w" "w mod 8 = 0" "w < 2147483640"
    and a: "0xB0000 \<le> unat a" "int (unat a) < 0xA0000 + 80 * y + w div 8"
  shows "phys_mem (VgaFillRect 0 y w 1 c s) a = (if c AND push_bit 3 1 \<noteq> 0 then 0xFF else 0)"
proof -
  let ?de = "io_exts s (vga_extension s)" and ?t = "rect_shadowed 0 y w 1 c s"
  let ?ptr = "VGA_BASE_ADDRESS + word_of_int y * word_of_int 80 + word_of_int (0 div 8)"
  have D: "FrameBuffer ?de = VGA_BASE_ADDRESS" "uint (480 :: u32) = 480"
    "ScreenWidth ?de = 640" "ScreenHeight ?de = 480" "sint (640 :: u32) div 8 = 80"
    using ready by (simp_all add: graphics_ready_def)
  have span: "plain_span 0 w" using w by (simp add: plain_span_def)
  have head: "fill_head 0 (0 + w) y c ?t = (0, ?t)" by (subst fill_head.simps) simp
  have on: "\<not> (y < 0 \<or> y \<ge> uint (ScreenHeight ?de))" using y D by simp
  have long: "0 + 8 \<le> 0 + w" "0 + (0 + w - 0) div 8 * 8 = 0 + w" using w by (simp_all add: zdiv_mono1 mod_eq_0_iff_dvd zdvd_imp_le)
  have row: "fill_row ?de 0 w y c ?t = fill_bytes ?ptr (nat (w div 8)) c ?t"
    unfolding fill_row_plain [OF span head on] D if_P [OF long(1)] long(2) by (subst fill_tail.simps) simp
  have res: "VgaFillRect 0 y w 1 c s = serial_puts (''[vga] VgaFillRect hardware done'' @ [CHR 0x0A]) (fill_bytes ?ptr (nat (w div 8)) c ?t)"
    unfolding VgaFillRect_ready [OF ready w(1) zero_less_one] using row by simp
  define b where "b = nat (int (unat a) - 0xA0000 - 80 * y)"
  have b: "int b = int (unat a) - 0xA0000 - 80 * y" proof -
    have "0xB0000 \<le> int (unat a)" using a(1) by linarith
    then have "0 \<le> int (unat a) - 0xA0000 - 80 * y" using y by linarith
    then show ?thesis unfolding b_def by (rule nat_0_le)
  qed
  have "b < nat (w div 8)" using b a(2) by linarith
  moreover have "a = ?ptr + of_nat b"
  proof -
    have "a = word_of_int (0xA0000 + 80 * y + int b)" using b by simp
    then show ?thesis by (simp add: VGA_BASE_ADDRESS_def mult.commute)
  qed
  moreover have "\<not> in_window a"
  proof -
    have "(0xA0000 :: u32) \<le> a" using a(1) by (simp add: word_le_nat_alt)
    then have "unat (a - 0xA0000) = unat a - 0xA0000" by (simp add: unat_sub)
    then show ?thesis using a(1) by (simp add: in_window_def VGA_BASE_ADDRESS_def)
  qed
  ultimately show ?thesis unfolding res memory_steps fill_bytes_overwrites by auto
qed

subsection \<open>The screen as a canvas\<close>

definition on_screen :: "int \<Rightarrow> int \<Rightarrow> bool" where
  "on_screen x y \<longleftrightarrow> 0 \<le> x \<and> x < 640 \<and> 0 \<le> y \<and> y < 480"

lemma VgaGetPixel_shadow:
  "VgaGetPixel x y s = (if on_screen x y then g_shadow s (nat (y * 640 + x)) else 0)"
  by (auto simp: VgaGetPixel_def on_screen_def SHADOW_W_def SHADOW_H_def)

lemma VgaGetPixel_VgaPutPixel:
  assumes "graphics_ready s" "on_screen x y"
  shows "VgaGetPixel u v (VgaPutPixel x y c s) = (if u = x \<and> v = y then c else VgaGetPixel u v s)"
proof (cases "on_screen u v")
  case True
  have "nat (v * 640 + u) = nat (y * 640 + x) \<longleftrightarrow> u = x \<and> v = y"
    using shadow_index(1) [of u v "nat (y * 640 + x)"] shadow_index(1) [of x y "nat (y * 640 + x)"] True assms(2)
    by (auto simp: on_screen_def)
  moreover have "g_shadow (VgaPutPixel x y c s) = (g_shadow s)(nat (y * 640 + x) := c)"
    using VgaPutPixel_ready(1) [OF assms(1), of x y c] assms(2) by (simp add: on_screen_def)
  ultimately show ?thesis using True by (auto simp: VgaGetPixel_shadow)
next
  case False
  then show ?thesis using assms(2) by (auto simp: VgaGetPixel_shadow)
qed

lemma VgaPutPixel_outside: "graphics_ready s \<Longrightarrow> \<not> on_screen x y \<Longrightarrow> VgaPutPixel x y c s = s"
  by (rule VgaPutPixel_off_screen) (auto simp: on_screen_def)

interpretation screen: canvas "\<lambda>s x y. VgaGetPixel x y s" VgaPutPixel graphics_ready on_screen
  by unfold_locales (simp_all add: VgaGetPixel_VgaPutPixel VgaPutPixel_outside)

interpretation synced_screen: canvas "\<lambda>s x y. VgaGetPixel x y s" VgaPutPixel
  "\<lambda>s. graphics_ready s \<and> shows_shadow other h s" on_screen for other h
  by unfold_locales (simp_all add: VgaGetPixel_VgaPutPixel VgaPutPixel_outside VgaPutPixel_shows)

text \<open>The colour the adapter shows at a place: one bit from each plane.\<close>

definition adapter_pixel :: "adapter \<Rightarrow> int \<Rightarrow> int \<Rightarrow> u8" where
  "adapter_pixel a x y =
     fold (\<lambda>p v. if bit (planes a p (of_nat (nat (y * 80 + x div 8)))) (nat (7 - x mod 8)) then v OR push_bit p 1 else v)
       [0..<4] 0"

lemma bit_planes_upto:
  "n \<le> 8 \<Longrightarrow> bit (fold (\<lambda>p v. if P p then v OR push_bit p (1 :: u8) else v) [0..<n] 0) k \<longleftrightarrow> k < n \<and> P k"
proof (induction n)
  case 0
  then show ?case by simp
next
  case (Suc n)
  then show ?case by (auto simp: bit_or_iff bit_push_bit_iff bit_1_iff less_Suc_eq)
qed

lemma adapter_pixel_shadow:
  assumes "shows_shadow other h s" "on_screen x y"
  shows "adapter_pixel (adapter_run other h s) x y = VgaGetPixel x y s AND 0x0F"
proof (rule bit_word_eqI)
  fix k
  assume "k < LENGTH(8)"
  let ?off = "nat (y * 80 + x div 8)"
  have xy: "0 \<le> x" "x < 640" "0 \<le> y" "y < 480" using assms(2) by (simp_all add: on_screen_def)
  have "x div 8 < 80" using xy by linarith
  then have off: "?off < 38400" using xy by (simp add: nat_less_iff)
  have idx: "8 * ?off + (7 - nat (7 - x mod 8)) = nat (y * 640 + x)"
  proof -
    have "7 - nat (7 - x mod 8) = nat (x mod 8)" using xy(1) by (simp add: nat_diff_distrib)
    moreover have "int (8 * ?off + nat (x mod 8)) = y * 640 + x"
      using xy by simp
    ultimately show ?thesis by linarith
  qed
  have plane: "bit (planes (adapter_run other h s) p (of_nat ?off)) (nat (7 - x mod 8))
      \<longleftrightarrow> bit (g_shadow s (nat (y * 640 + x))) p" if "p < 4" for p
  proof -
    have "nat (7 - x mod 8) \<le> 7" by simp
    then have "bit (packed p (g_shadow s) ?off) (nat (7 - x mod 8)) \<longleftrightarrow> bit (g_shadow s (nat (y * 640 + x))) p"
      unfolding bit_packed idx bit_iff_and_push_bit_not_eq_0 [symmetric] by simp
    moreover have "planes (adapter_run other h s) p (of_nat ?off) = packed p (g_shadow s) ?off"
      using assms(1) off that by (simp add: shows_shadow_def agree_at_def)
    ultimately show ?thesis by simp
  qed
  have F: "(0x0F :: u8) = mask 4" by (simp add: mask_eq_exp_minus_1)
  show "bit (adapter_pixel (adapter_run other h s) x y) k = bit (VgaGetPixel x y s AND 0x0F) k"
    using plane [of k] assms(2)
    by (auto simp: adapter_pixel_def bit_planes_upto VgaGetPixel_shadow F bit_and_iff bit_mask_iff)
qed

subsection \<open>Properties\<close>

definition vga_reset :: vga where
  "vga_reset = io.extend io_reset (vga.fields 0 (\<lambda>_. 0) [])"

text \<open>A VGA device, not yet drawn on, and an adapter in the graphics mode with a black picture.\<close>

definition vga_on :: vga where
  "vga_on = vga_reset\<lparr>g_VgaDevice := 0x200100,
     io_devices := (\<lambda>_. new_device 0x200000 0x200124 None 0x32 0 0),
     io_exts := (\<lambda>_. \<lparr>FrameBuffer = VGA_BASE_ADDRESS, ScreenWidth = 640, ScreenHeight = 480,
       BitsPerPixel = 4, GraphicsMode = 1, CurrentMode = 0x12, CurrentPalette = []\<rparr>)\<rparr>"

definition adapter_on :: adapter where
  "adapter_on = \<lparr>seq_index = 2, seq = (\<lambda>i. if i = 4 then 6 else 0x0F), gc_index = 8,
     gc = (\<lambda>i. if i = 8 then 0xFF else 0), crtc_index = 0, crtc = (\<lambda>_. 0), ac_data_next = False,
     ac_index = 0x20, ac = (\<lambda>_. 0), misc_output = 0xE3, dac_index = 0, dac_pending = [], dac = (\<lambda>_. []),
     planes = (\<lambda>_ _. 0)\<rparr>"

lemma vga_on_ready: "graphics_ready vga_on"
  by (simp add: graphics_ready_def vga_on_def new_device_def)

lemma vga_on_plain: "plain_write (adapter_run other adapter_on vga_on)"
  by (simp add: adapter_run_def vga_on_def vga_reset_def vga.defs io.defs plain_write_def adapter_on_def)

lemma vga_on_shows: "shows_shadow other adapter_on vga_on"
proof -
  have "adapter_run other adapter_on vga_on = adapter_on" "g_shadow vga_on = (\<lambda>_. 0)"
    by (simp_all add: adapter_run_def vga_on_def vga_reset_def vga.defs io.defs)
  moreover have "packed p (\<lambda>_. 0) off = 0" for p off
    using packed_uniform [of "\<lambda>_. 0" off 0 p] by simp
  ultimately show ?thesis
    using vga_on_plain [of other] by (simp add: shows_shadow_def agree_at_def adapter_on_def)
qed

text \<open>
  \<open>VgaClearScreen\<close> makes every pixel of the screen the colour it is given: the shadow buffer
  says so, and the adapter shows its low four bits everywhere, whatever either held before.
\<close>

theorem VgaClearScreen_clears:
  assumes "graphics_ready s" "plain_write (adapter_run other h s)" "on_screen x y"
  shows "VgaGetPixel x y (VgaClearScreen c s) = c
    \<and> adapter_pixel (adapter_run other h (VgaClearScreen c s)) x y = c AND 0x0F"
proof -
  have "nat (y * 640 + x) < 307200" using assms(3) by (simp add: on_screen_def nat_less_iff)
  then have "VgaGetPixel x y (VgaClearScreen c s) = c"
    using assms(3) by (simp add: VgaGetPixel_shadow VgaClearScreen_ready(1) [OF assms(1)])
  with adapter_pixel_shadow [OF VgaClearScreen_ready(2) [OF assms(1,2)] assms(3)] show ?thesis by simp
qed

theorem VgaClearScreen_clears_witness:
  "VgaGetPixel 639 479 (VgaClearScreen 9 vga_on) = 9
    \<and> adapter_pixel (adapter_run (\<lambda>h _ _. planes h) adapter_on (VgaClearScreen 9 vga_on)) 639 479 = 9"
  using VgaClearScreen_clears [OF vga_on_ready vga_on_plain, of 639 479 9 "\<lambda>h _ _. planes h"]
  by (simp add: on_screen_def)

lemma VgaFillRect_get:
  assumes "graphics_ready s" "int_span x w" "0 < ht" "on_screen u v"
  shows "VgaGetPixel u v (VgaFillRect x y w ht c s)
      = (if x \<le> u \<and> u < x + w \<and> y \<le> v \<and> v < y + ht then c else VgaGetPixel u v s)"
proof -
  define i where "i = nat (v * 640 + u)"
  have i: "int (i div 640) = v" "int (i mod 640) = u"
    using shadow_index(1) [of u v i] assms(4) by (simp_all add: i_def on_screen_def)
  then have "i < 307200" using assms(4) unfolding on_screen_def by linarith
  then have "fill_shadow x y w ht c (g_shadow s) i
      = (if x \<le> u \<and> u < x + w \<and> y \<le> v \<and> v < y + ht then c else g_shadow s i)"
    unfolding fill_shadow_apply i using assms(2,3) by (auto simp: int_span_def)
  then show ?thesis
    using assms(4) by (simp add: VgaGetPixel_shadow VgaFillRect_shadow [OF assms(1-3)] i_def)
qed

lemma VgaFillRect_pixels:
  assumes "graphics_ready s" "shows_shadow other h s" "0 \<le> x" "x + w \<le> 640" "0 < w" "0 < ht" "on_screen u v"
  shows "VgaGetPixel u v (VgaFillRect x y w ht c s)
      = (if x \<le> u \<and> u < x + w \<and> y \<le> v \<and> v < y + ht then c else VgaGetPixel u v s)
    \<and> adapter_pixel (adapter_run other h (VgaFillRect x y w ht c s)) u v
      = VgaGetPixel u v (VgaFillRect x y w ht c s) AND 0x0F"
  using VgaFillRect_get [OF assms(1) int_span_screen [OF assms(3-5)] assms(6,7)] adapter_pixel_shadow [OF VgaFillRect_shows [OF assms(1-6)] assms(7)]
  by blast

text \<open>
  C30: A rectangle that lies between the left and right edges of the screen, whatever its rows, is
  filled exactly: the pixels inside take the colour, the others keep theirs, and after the mix of
  single pixels and whole bytes the adapter still shows the shadow buffer at every place.
\<close>

theorem VgaFillRect_fills:
  assumes "graphics_ready s" "shows_shadow other h s" "0 \<le> x" "x + w \<le> 640" "0 < w" "0 < ht" "on_screen u v"
  shows "VgaGetPixel u v (VgaFillRect x y w ht c s)
      = (if x \<le> u \<and> u < x + w \<and> y \<le> v \<and> v < y + ht then c else VgaGetPixel u v s)
    \<and> adapter_pixel (adapter_run other h (VgaFillRect x y w ht c s)) u v
      = VgaGetPixel u v (VgaFillRect x y w ht c s) AND 0x0F"
  using assms by (rule VgaFillRect_pixels)

theorem VgaFillRect_fills_witness:
  "adapter_pixel (adapter_run (\<lambda>h _ _. planes h) adapter_on (VgaFillRect 3 470 21 20 5 vga_on)) 23 479 = 5"
  using VgaFillRect_fills [OF vga_on_ready vga_on_shows, of 3 21 20 23 479 470 5 "\<lambda>h _ _. planes h"]
  by (simp add: on_screen_def)

text \<open>
  C39: The byte-wise part of \<open>VgaFillRect\<close> does not stop at the right edge: a line of eight or more
  pixels too many, from a column divisible by 8 and short of the end of the adapter's memory, also
  colours the first pixel of the next screen line on the display, while the shadow buffer keeps the
  old colour there and the machine's memory is left alone. The clock of \<open>GuiMainLoop\<close> clears such a
  rectangle, 128 pixels wide at column 600.
\<close>

theorem VgaFillRect_wraps_past_right_edge:
  assumes "graphics_ready s" "plain_write (adapter_run other h s)"
    and "0 \<le> x" "x < 640" "x mod 8 = 0" "648 \<le> x + w" "x + w \<le> 217728" "0 \<le> y" "y < 479"
  shows "adapter_pixel (adapter_run other h (VgaFillRect x y w 1 c s)) 0 (y + 1) = c AND 0x0F
    \<and> VgaGetPixel 0 (y + 1) (VgaFillRect x y w 1 c s) = VgaGetPixel 0 (y + 1) s
    \<and> phys_mem (VgaFillRect x y w 1 c s) = phys_mem s"
proof -
  have w: "0 < w" using assms by linarith
  have span: "plain_span x w" and ispan: "int_span x w" using assms by (simp_all add: plain_span_def int_span_def)
  let ?t = "rect_shadowed x y w 1 c s" and ?n = "w div 8"
  let ?u = "fill_bytes (VGA_BASE_ADDRESS + word_of_int y * 80 + word_of_int (x div 8)) (nat ?n) c ?t"
  have t: "graphics_ready ?t" using undrawn_ready [OF rect_shadowed_fields(2)] assms(1) by blast
  have u: "graphics_ready ?u" using undrawn_ready [of ?u ?t] t by simp
  have D: "FrameBuffer (io_exts s (vga_extension s)) = VGA_BASE_ADDRESS"
    "ScreenWidth (io_exts s (vga_extension s)) = 640" "ScreenHeight (io_exts s (vga_extension s)) = 480"
    using assms(1) by (simp_all add: graphics_ready_def)
  have head: "fill_head x (x + w) y c ?t = (x, ?t)"
    using assms(5) by (subst fill_head.simps) simp
  have off_tail: "graphics_ready r \<Longrightarrow> 640 \<le> b \<Longrightarrow> fill_tail b e y c r = r" for b e and r :: "'a vga_scheme"
  proof (induction "nat (e - b)" arbitrary: b)
    case 0
    then show ?case by (subst fill_tail.simps) simp
  next
    case (Suc n)
    then show ?case
      using VgaPutPixel_off_screen [of r b y c] by (subst fill_tail.simps) simp
  qed
  have long: "x + 8 \<le> x + w" "640 \<le> x + ?n * 8" using assms by linarith+
  have W: "sint (640 :: u32) div 8 = 80" "uint (480 :: u32) = 480" by simp_all
  have on: "\<not> (y < 0 \<or> y \<ge> uint (ScreenHeight (io_exts s (vga_extension s))))" unfolding D W using assms by simp
  have row: "fill_row (io_exts s (vga_extension s)) x w y c ?t = ?u"
    unfolding fill_row_plain [OF span head on] D W if_P [OF long(1)] add_diff_cancel_left' of_int_numeral
    by (rule off_tail [OF u long(2)])
  have res: "VgaFillRect x y w 1 c s = serial_puts (''[vga] VgaFillRect hardware done'' @ [CHR 0x0A]) ?u"
    unfolding VgaFillRect_ready [OF assms(1) w zero_less_one] using row by simp
  define off0 where "off0 = nat (y * 80 + x div 8)"
  define b where "b = nat (80 - x div 8)"
  have xd: "0 \<le> x div 8" "x div 8 < 80" "x = 8 * (x div 8)" using assms by (simp_all add: mod_eq_0_iff_dvd)
  have idx: "nat ((y + 1) * 80 + 0 div 8) = off0 + b"
    using xd assms(8) by (simp add: off0_def b_def nat_add_distrib [symmetric])
  have small: "off0 + b < 38400" unfolding idx [symmetric] using assms(8,9) by (simp add: nat_less_iff)
  have "b < nat ?n"
  proof -
    have "80 - x div 8 < w div 8" using assms(6) xd(3) by linarith
    then show ?thesis using xd by (simp add: b_def)
  qed
  moreover have "(of_nat (off0 + b) :: u32)
      = VGA_BASE_ADDRESS + word_of_int y * 80 + word_of_int (x div 8) - VGA_BASE_ADDRESS + of_nat b"
    using xd(1) assms(8) by (simp add: off0_def of_nat_nat add.assoc)
  ultimately have hit: "planes (adapter_run other h ?u) q (of_nat (off0 + b)) = (if c AND push_bit q 1 \<noteq> 0 then 0xFF else 0)"
    if "q < 4" for q
    using fill_bytes_run(2) [of other h ?t q "VGA_BASE_ADDRESS + word_of_int y * 80 + word_of_int (x div 8)" "nat ?n" c] that
      assms(2) covers_visible [OF small] by (auto simp: rect_shadowed_fields(3))
  have "adapter_pixel (adapter_run other h (VgaFillRect x y w 1 c s)) 0 (y + 1) = c AND 0x0F"
  proof (rule bit_word_eqI)
    fix k
    assume "k < LENGTH(8)"
    have F: "(0x0F :: u8) = mask 4" "(0xFF :: u8) = mask 8" by (simp_all add: mask_eq_exp_minus_1)
    show "bit (adapter_pixel (adapter_run other h (VgaFillRect x y w 1 c s)) 0 (y + 1)) k = bit (c AND 0x0F) k"
      unfolding adapter_pixel_def res adapter_run_puts idx
      by (auto simp: bit_planes_upto hit bit_and_iff F bit_mask_iff bit_iff_and_push_bit_not_eq_0 [of c]
          simp del: of_nat_add)
  qed
  moreover have "VgaGetPixel 0 (y + 1) (VgaFillRect x y w 1 c s) = VgaGetPixel 0 (y + 1) s"
  proof -
    define i where "i = nat ((y + 1) * 640 + 0)"
    have "int (i div 640) = y + 1" using shadow_index(1) [of 0 "y + 1" i] assms(8) by (simp add: i_def)
    then have "fill_shadow x y w 1 c (g_shadow s) i = g_shadow s i" unfolding fill_shadow_apply by simp
    then show ?thesis
      by (simp add: VgaGetPixel_shadow VgaFillRect_shadow [OF assms(1) ispan] i_def)
  qed
  moreover have "phys_mem (VgaFillRect x y w 1 c s) = phys_mem s"
    by (rule VgaFillRect_memory) (use assms in \<open>auto simp: ready_mapped rect_in_window_def\<close>)
  ultimately show ?thesis by (intro conjI)
qed

theorem VgaFillRect_wraps_past_right_edge_witness:
  "adapter_pixel (adapter_run (\<lambda>h _ _. planes h) adapter_on (VgaFillRect 600 472 128 1 7 vga_on)) 0 473 = 7
    \<and> VgaGetPixel 0 473 (VgaFillRect 600 472 128 1 7 vga_on) = VgaGetPixel 0 473 vga_on"
  using VgaFillRect_wraps_past_right_edge [OF vga_on_ready vga_on_plain, of 600 128 472 "\<lambda>h _ _. planes h" 7]
  by simp

end
