(* ===== verification/Vga_Draw.thy ===== *)
theory Vga_Draw
  imports Vga_Screen
begin

unbundle bit_operations_syntax

section \<open>Lines and figures\<close>

text \<open>
  Models \<open>VgaDrawLine\<close> of \<open>drivers/video/vga/vga_screen.c\<close> and
  \<open>drivers/video/vga/vga_operations.c\<close>. The loop of the line has no bound of its own: it ends when
  it meets the end point, so it is a partial function, shown to return for end points at most 2^29
  apart: so far its error term stays within 32 bits. \<open>draws\<close> collects what every drawing operation
  keeps: the rest of the machine, its memory, and the agreement of the display with the shadow buffer.
\<close>

subsection \<open>Operations\<close>

partial_function (option) draw_line_from ::
  "int \<Rightarrow> int \<Rightarrow> int \<Rightarrow> int \<Rightarrow> int \<Rightarrow> int \<Rightarrow> int \<Rightarrow> int \<Rightarrow> int \<Rightarrow> u8 \<Rightarrow> 'a vga_scheme \<Rightarrow> 'a vga_scheme option" where
  "draw_line_from x1 y1 x2 y2 dx dy sx sy err color s =
     (let s = VgaPutPixel x1 y1 color s in
      if x1 = x2 \<and> y1 = y2 then Some s
      else let e2 = INT32 (2 * err);
               (err, x1) = (if e2 > INT32 (- dy) then (INT32 (err - dy), INT32 (x1 + sx)) else (err, x1));
               (err, y1) = (if e2 < dx then (INT32 (err + dx), INT32 (y1 + sy)) else (err, y1))
           in draw_line_from x1 y1 x2 y2 dx dy sx sy err color s)"

definition VgaDrawLine :: "int \<Rightarrow> int \<Rightarrow> int \<Rightarrow> int \<Rightarrow> u8 \<Rightarrow> 'a vga_scheme \<Rightarrow> 'a vga_scheme option" where
  "VgaDrawLine x1 y1 x2 y2 color s =
     (if g_VgaDevice s = 0 then Some s
      else let dx = (if x2 > x1 then INT32 (x2 - x1) else INT32 (x1 - x2));
               dy = (if y2 > y1 then INT32 (y2 - y1) else INT32 (y1 - y2));
               sx = (if x1 < x2 then 1 else -1);
               sy = (if y1 < y2 then 1 else -1)
           in draw_line_from x1 y1 x2 y2 dx dy sx sy (INT32 (dx - dy)) color s)"

definition VgaDrawRect :: "int \<Rightarrow> int \<Rightarrow> int \<Rightarrow> int \<Rightarrow> u8 \<Rightarrow> 'a vga_scheme \<Rightarrow> 'a vga_scheme option" where
  "VgaDrawRect x y width height color s =
     (let right = INT32 (x + width - 1); bottom = INT32 (y + height - 1) in
      Option.bind (VgaDrawLine x y right y color s) (\<lambda>s.
      Option.bind (VgaDrawLine x bottom right bottom color s) (\<lambda>s.
      Option.bind (VgaDrawLine x y x bottom color s) (\<lambda>s.
      VgaDrawLine right y right bottom color s))))"

definition VGA_COLOR_BLACK :: u8 where [const_defs]: "VGA_COLOR_BLACK = 0"
definition VGA_COLOR_BLUE :: u8 where [const_defs]: "VGA_COLOR_BLUE = 1"
definition VGA_COLOR_GREEN :: u8 where [const_defs]: "VGA_COLOR_GREEN = 2"
definition VGA_COLOR_CYAN :: u8 where [const_defs]: "VGA_COLOR_CYAN = 3"
definition VGA_COLOR_RED :: u8 where [const_defs]: "VGA_COLOR_RED = 4"
definition VGA_COLOR_LIGHT_GRAY :: u8 where [const_defs]: "VGA_COLOR_LIGHT_GRAY = 7"
definition VGA_COLOR_DARK_GRAY :: u8 where [const_defs]: "VGA_COLOR_DARK_GRAY = 8"
definition VGA_COLOR_LIGHT_CYAN :: u8 where [const_defs]: "VGA_COLOR_LIGHT_CYAN = 11"
definition VGA_COLOR_LIGHT_RED :: u8 where [const_defs]: "VGA_COLOR_LIGHT_RED = 12"
definition VGA_COLOR_LIGHT_MAGENTA :: u8 where [const_defs]: "VGA_COLOR_LIGHT_MAGENTA = 13"
definition VGA_COLOR_YELLOW :: u8 where [const_defs]: "VGA_COLOR_YELLOW = 14"
definition VGA_COLOR_WHITE :: u8 where [const_defs]: "VGA_COLOR_WHITE = 15"

definition VgaDrawDemo :: "'a vga_scheme \<Rightarrow> 'a vga_scheme option" where
  "VgaDrawDemo s =
     (if VgaGetDeviceObject s = 0 then Some s
      else if vga_extension s = 0 \<or> GraphicsMode (io_exts s (vga_extension s)) = 0 then Some s
      else
        let s = VgaClearScreen VGA_COLOR_BLACK s;
            s = fold (\<lambda>i. VgaFillRect (int i * 40) 10 40 30 (of_nat i)) [0..<16] s in
        Option.bind (VgaDrawRect 50 60 100 80 VGA_COLOR_WHITE s) (\<lambda>s.
        let s = VgaFillRect 55 65 90 70 VGA_COLOR_BLUE s in
        Option.bind (VgaDrawRect 200 60 100 80 VGA_COLOR_WHITE s) (\<lambda>s.
        let s = VgaFillRect 205 65 90 70 VGA_COLOR_RED s in
        Option.bind (VgaDrawRect 350 60 100 80 VGA_COLOR_WHITE s) (\<lambda>s.
        let s = VgaFillRect 355 65 90 70 VGA_COLOR_GREEN s in
        Option.bind (VgaDrawLine 50 200 590 200 VGA_COLOR_YELLOW s) (\<lambda>s.
        Option.bind (VgaDrawLine 50 250 590 250 VGA_COLOR_CYAN s) (\<lambda>s.
        Option.bind (VgaDrawLine 50 300 590 300 VGA_COLOR_LIGHT_MAGENTA s) (\<lambda>s.
        Option.bind (VgaDrawLine 100 350 200 450 VGA_COLOR_WHITE s) (\<lambda>s.
        Option.bind (VgaDrawLine 250 350 350 450 VGA_COLOR_LIGHT_CYAN s) (\<lambda>s.
        Option.bind (VgaDrawLine 400 350 500 450 VGA_COLOR_LIGHT_RED s) (\<lambda>s.
        VgaDrawRect 0 0 640 480 VGA_COLOR_WHITE s))))))))))"

subsection \<open>What drawing keeps\<close>

definition draws :: "'a vga_scheme \<Rightarrow> 'a vga_scheme \<Rightarrow> bool" where
  "draws s t \<longleftrightarrow> undrawn t = undrawn s \<and> (screen_mapped s \<longrightarrow> phys_mem t = phys_mem s)
     \<and> (graphics_ready s \<longrightarrow> (\<forall>other h. shows_shadow other h s \<longrightarrow> shows_shadow other h t))"

named_theorems draws_intros "operations that only draw, and keep the display in step"

lemma draws_refl [draws_intros]: "draws s s"
  by (simp add: draws_def)

lemma draws_trans: "draws s t \<Longrightarrow> draws t u \<Longrightarrow> draws s u"
  using undrawn_ready [of t s] undrawn_mapped [of t s] by (auto simp: draws_def)

lemma draws_ready: "draws s t \<Longrightarrow> graphics_ready t = graphics_ready s"
  by (rule undrawn_ready) (simp add: draws_def)

lemma VgaPutPixel_draws [draws_intros]: "draws s (VgaPutPixel x y c s)"
  by (simp add: draws_def VgaPutPixel_shows)

lemma serial_puts_draws [draws_intros]: "draws s (serial_puts str s)"
  by (simp add: draws_def shows_shadow_def)

lemma fold_draws: "(\<And>i s. i \<in> set is \<Longrightarrow> draws s (f i s)) \<Longrightarrow> draws s (fold f is s)"
proof (induction "is" arbitrary: s)
  case (Cons i "is")
  have "draws s (f i s)" by (rule Cons.prems) simp
  moreover have "draws (f i s) (fold f is (f i s))" using Cons.prems by (intro Cons.IH) auto
  ultimately show ?case using draws_trans by simp
qed (simp add: draws_refl)

lemma VgaClearScreen_draws [draws_intros]: "draws s (VgaClearScreen c s)"
  using VgaClearScreen_ready(2) by (auto simp: draws_def shows_shadow_def)

lemma VgaFillRect_draws [draws_intros]:
  assumes "0 \<le> x" "x + w \<le> 640"
  shows "draws s (VgaFillRect x y w h c s)"
proof (cases "w \<le> 0 \<or> h \<le> 0")
  case True
  then have "VgaFillRect x y w h c s = serial_puts (''[vga] VgaFillRect start'' @ [CHR 0x0A]) s"
    unfolding VgaFillRect_def Let_def by (simp only: if_True)
  then show ?thesis by (simp only: serial_puts_draws)
next
  case False
  then have "0 < w" "0 < h" by auto
  then show ?thesis unfolding draws_def
    by (intro conjI impI allI VgaFillRect_shows [OF _ _ assms] VgaFillRect_memory) (use assms in \<open>auto simp: rect_in_window_def\<close>)
qed

subsection \<open>The line\<close>

text \<open>
  With \<open>a\<close> steps along x and \<open>b\<close> along y made, out of \<open>dx\<close> and \<open>dy\<close>: the error term is
  \<open>(b + 1) * dx - (a + 1) * dy\<close>, the point is within half a pixel of the ideal line, and the next
  step goes along the longer axis.
\<close>

lemma bresenham_step:
  fixes a b dx dy err :: int
  assumes range: "0 \<le> a" "a \<le> dx" "0 \<le> b" "b \<le> dy" and going: "\<not> (a = dx \<and> b = dy)"
    and close: "\<bar>2 * (b * dx - a * dy)\<bar> \<le> max dx dy" and err: "err = (b + 1) * dx - (a + 1) * dy"
  defines "a' \<equiv> if 2 * err > - dy then a + 1 else a" and "b' \<equiv> if 2 * err < dx then b + 1 else b"
  shows "a' \<le> dx" "b' \<le> dy" "\<bar>2 * (b' * dx - a' * dy)\<bar> \<le> max dx dy"
    and "dy \<le> dx \<Longrightarrow> a' = a + 1" "dx \<le> dy \<Longrightarrow> b' = b + 1"
proof -
  have "0 < dx \<or> 0 < dy" using range going by linarith
  have major_x: "a < dx" if "dy \<le> dx"
  proof (rule ccontr)
    assume "\<not> a < dx"
    then have "a = dx" "b < dy" using range going by auto
    then have "(dy - b) * dx \<ge> 1 * dx" "0 < dx" using range that by (auto intro: mult_right_mono)
    with close \<open>a = dx\<close> that show False by (simp add: algebra_simps)
  qed
  have major_y: "b < dy" if "dx \<le> dy"
  proof (rule ccontr)
    assume "\<not> b < dy"
    then have "b = dy" "a < dx" using range going by auto
    then have "(dx - a) * dy \<ge> 1 * dy" "0 < dy" using range that by (auto intro: mult_right_mono)
    with close \<open>b = dy\<close> that show False by (simp add: algebra_simps)
  qed
  have odd: "2 * (b * dx - a * dy) \<noteq> dx \<and> 2 * (b * dx - a * dy) \<noteq> - dx" if "dx = dy"
  proof -
    have "2 * (b * dx - a * dy) = (2 * (b - a)) * dx" using that by (simp add: algebra_simps)
    moreover have "2 * (b - a) \<noteq> 1" "2 * (b - a) \<noteq> - 1" by presburger+
    moreover have "dx \<noteq> 0" using \<open>0 < dx \<or> 0 < dy\<close> that by auto
    ultimately show ?thesis by (metis mult_cancel_right1 mult_minus1 mult_right_cancel)
  qed
  define P where "P = b * dx"
  define Q where "Q = a * dy"
  have err2: "2 * err = 2 * P + 2 * dx - 2 * Q - 2 * dy" unfolding err P_def Q_def by (simp add: algebra_simps)
  have "\<bar>2 * P - 2 * Q\<bar> \<le> max dx dy" using close unfolding P_def Q_def by (simp only: right_diff_distrib)
  then have cl: "2 * P - 2 * Q \<le> max dx dy" "- max dx dy \<le> 2 * P - 2 * Q" by linarith+
  have odd': "dx = dy \<Longrightarrow> 2 * P - 2 * Q \<noteq> dx" "dx = dy \<Longrightarrow> 2 * P - 2 * Q \<noteq> - dx"
    using odd unfolding P_def Q_def by (simp_all add: right_diff_distrib)
  show x: "a' = a + 1" if "dy \<le> dx"
  proof -
    have "2 * err > - dy" using cl odd' that unfolding err2 by (cases "dx = dy") auto
    then show ?thesis by (simp add: a'_def)
  qed
  show y: "b' = b + 1" if "dx \<le> dy"
  proof -
    have "2 * err < dx" using cl odd' that unfolding err2 by (cases "dx = dy") auto
    then show ?thesis by (simp add: b'_def)
  qed
  show "a' \<le> dx"
  proof (cases "a < dx")
    case False
    then have "a = dx" using range by simp
    moreover have "b < dy" using going range \<open>a = dx\<close> by auto
    then have "(b + 1) * dx \<le> dy * dx" using range by (intro mult_right_mono) auto
    moreover have "dx < dy" using major_x False by force
    ultimately have "2 * err \<le> - 2 * dy" unfolding err by (simp add: algebra_simps)
    then have "\<not> 2 * err > - dy" using range by linarith
    then show ?thesis using range by (simp add: a'_def)
  qed (simp add: a'_def)
  show "b' \<le> dy"
  proof (cases "b < dy")
    case False
    then have "b = dy" using range by simp
    moreover have "a < dx" using going range \<open>b = dy\<close> by auto
    then have "(a + 1) * dy \<le> dx * dy" using range by (intro mult_right_mono) auto
    moreover have "dy < dx" using major_y False by force
    ultimately have "2 * err \<ge> 2 * dx" unfolding err by (simp add: algebra_simps)
    then have "\<not> 2 * err < dx" using range by linarith
    then show ?thesis using range by (simp add: b'_def)
  qed (simp add: b'_def)
  have P': "b' * dx = (if 2 * err < dx then P + dx else P)" and Q': "a' * dy = (if 2 * err > - dy then Q + dy else Q)"
    unfolding P_def Q_def a'_def b'_def by (simp_all add: algebra_simps)
  have "2 * err > - dy \<or> 2 * err < dx"
    using x y a'_def b'_def by (metis add.right_neutral add_left_cancel linear one_neq_zero)
  then show "\<bar>2 * (b' * dx - a' * dy)\<bar> \<le> max dx dy"
    using cl range err2 unfolding P' Q' by (auto simp: abs_le_iff max_def split: if_splits)
qed

text \<open>
  The points the loop visits, from a point \<open>a\<close> steps along x and \<open>b\<close> steps along y away from the
  start: one per step of the longer axis, each within half a pixel of the line, the last one the end point.
\<close>

definition plot :: "u8 \<Rightarrow> (int \<times> int) list \<Rightarrow> 'a vga_scheme \<Rightarrow> 'a vga_scheme" where
  "plot c ps = fold (\<lambda>(x, y). VgaPutPixel x y c) ps"

lemma plot_draws: "draws s (plot c ps s)"
  unfolding plot_def by (rule fold_draws) (auto intro: VgaPutPixel_draws)

lemma signed_step_between:
  fixes x s i d :: int
  assumes "s = 1 \<or> s = -1" "0 \<le> i" "i \<le> d" "- 2147483648 \<le> x" "x < 2147483648"
    "- 2147483648 \<le> x + s * d" "x + s * d < 2147483648"
  shows "INT32 (x + s * i) = x + s * i"
  using assms by (intro INT32_id) auto

lemma line_terms_fit:
  fixes e f dx dy :: int
  assumes "- 805306368 \<le> e" "e \<le> 805306368" "- 1342177280 \<le> f" "f \<le> 805306368"
    and "0 \<le> dx" "0 \<le> dy" "dx \<le> 536870912" "dy \<le> 536870912"
  shows "INT32 (2 * e) = 2 * e" "INT32 (- dy) = - dy" "INT32 (e - dy) = e - dy" "INT32 (f + dx) = f + dx"
  using assms by (simp_all add: INT32_id)

lemma draw_line_from_path:
  fixes x1 y1 sx sy a b dx dy :: int
  assumes "0 \<le> a" "a \<le> dx" "0 \<le> b" "b \<le> dy" "sx = 1 \<or> sx = -1" "sy = 1 \<or> sy = -1"
    "\<bar>2 * (b * dx - a * dy)\<bar> \<le> max dx dy"
    and small: "dx \<le> 536870912" "dy \<le> 536870912"
    and ends: "- 2147483648 \<le> x1" "x1 < 2147483648" "- 2147483648 \<le> x1 + sx * dx" "x1 + sx * dx < 2147483648"
      "- 2147483648 \<le> y1" "y1 < 2147483648" "- 2147483648 \<le> y1 + sy * dy" "y1 + sy * dy < 2147483648"
  shows "\<exists>ps. draw_line_from (x1 + sx * a) (y1 + sy * b) (x1 + sx * dx) (y1 + sy * dy) dx dy sx sy
           ((b + 1) * dx - (a + 1) * dy) c s = Some (plot c ps s)
       \<and> ps \<noteq> [] \<and> hd ps = (x1 + sx * a, y1 + sy * b) \<and> last ps = (x1 + sx * dx, y1 + sy * dy)
       \<and> int (length ps) = (if dy \<le> dx then dx - a else dy - b) + 1
       \<and> (\<forall>p \<in> set ps. \<exists>i j. 0 \<le> i \<and> i \<le> dx \<and> 0 \<le> j \<and> j \<le> dy \<and> p = (x1 + sx * i, y1 + sy * j)
             \<and> \<bar>2 * (j * dx - i * dy)\<bar> \<le> max dx dy)"
  using assms(1-7)
proof (induction "nat (if dy \<le> dx then dx - a else dy - b)" arbitrary: a b s rule: less_induct)
  case less
  let ?err = "(b + 1) * dx - (a + 1) * dy"
  let ?s = "VgaPutPixel (x1 + sx * a) (y1 + sy * b) c s"
  show ?case
  proof (cases "a = dx \<and> b = dy")
    case True
    have "sx \<noteq> 0" "sy \<noteq> 0" using less.prems(5,6) by auto
    with True show ?thesis using less.prems(1-4,7)
      by (intro exI [of _ "[(x1 + sx * a, y1 + sy * b)]"])
        (subst draw_line_from.simps, auto simp: plot_def intro!: exI [of _ dx] exI [of _ dy])
  next
    case False
    define a' where "a' = (if 2 * ?err > - dy then a + 1 else a)"
    define b' where "b' = (if 2 * ?err < dx then b + 1 else b)"
    note step = bresenham_step [OF less.prems(1-4) False less.prems(7) refl, folded a'_def b'_def]
    have grows: "0 \<le> a'" "0 \<le> b'" using less.prems by (simp_all add: a'_def b'_def)
    have smaller: "nat (if dy \<le> dx then dx - a' else dy - b') < nat (if dy \<le> dx then dx - a else dy - b)"
      and count: "(if dy \<le> dx then dx - a' else dy - b') + 1 = (if dy \<le> dx then dx - a else dy - b)"
      using step less.prems by auto
    obtain ps where ps: "draw_line_from (x1 + sx * a') (y1 + sy * b') (x1 + sx * dx) (y1 + sy * dy) dx dy sx sy
           ((b' + 1) * dx - (a' + 1) * dy) c ?s = Some (plot c ps ?s)"
       "ps \<noteq> []" "last ps = (x1 + sx * dx, y1 + sy * dy)"
       "int (length ps) = (if dy \<le> dx then dx - a' else dy - b') + 1"
       "\<forall>p \<in> set ps. \<exists>i j. 0 \<le> i \<and> i \<le> dx \<and> 0 \<le> j \<and> j \<le> dy \<and> p = (x1 + sx * i, y1 + sy * j)
             \<and> \<bar>2 * (j * dx - i * dy)\<bar> \<le> max dx dy"
      using less.hyps [OF smaller grows(1) step(1) grows(2) step(2) less.prems(5,6) step(3), of ?s] by blast
    have close: "\<bar>2 * (b * dx - a * dy)\<bar> \<le> 536870912" using less.prems(7) small by linarith
    have err: "?err = b * dx - a * dy + dx - dy" by (simp add: algebra_simps)
    have nowrap: "INT32 (2 * ?err) = 2 * ?err" "INT32 (- dy) = - dy" "INT32 (?err - dy) = ?err - dy"
      "INT32 ((b + 1) * dx - (a' + 1) * dy + dx) = (b + 1) * dx - (a' + 1) * dy + dx"
    proof -
      have d: "0 \<le> dx" "0 \<le> dy" using less.prems by linarith+
      define P where "P = b * dx - a * dy"
      have e: "- 805306368 \<le> ?err" "?err \<le> 805306368"
        using close small d unfolding err P_def [symmetric] by linarith+
      then have "- 1342177280 \<le> (b + 1) * dx - (a' + 1) * dy" "(b + 1) * dx - (a' + 1) * dy \<le> 805306368"
        using d small by (auto simp: a'_def distrib_right)
      from line_terms_fit [OF e this d small]
      show "INT32 (2 * ?err) = 2 * ?err" "INT32 (- dy) = - dy" "INT32 (?err - dy) = ?err - dy"
        "INT32 ((b + 1) * dx - (a' + 1) * dy + dx) = (b + 1) * dx - (a' + 1) * dy + dx" .
    qed
    have steps: "INT32 ((x1 + sx * a) + sx) = (x1 + sx * a) + sx" if "a' = a + 1"
      using signed_step_between [OF less.prems(5), of a' dx x1] grows step(1) ends(1-4) that by (simp add: algebra_simps)
    have steps_y: "INT32 ((y1 + sy * b) + sy) = (y1 + sy * b) + sy" if "b' = b + 1"
      using signed_step_between [OF less.prems(6), of b' dy y1] grows step(2) ends(5-8) that by (simp add: algebra_simps)
    have next_x: "(if INT32 (2 * ?err) > INT32 (- dy) then (INT32 (?err - dy), INT32 ((x1 + sx * a) + sx)) else (?err, x1 + sx * a))
        = ((b + 1) * dx - (a' + 1) * dy, x1 + sx * a')"
      unfolding nowrap using steps by (simp add: a'_def algebra_simps split: if_splits)
    have next_y: "(if INT32 (2 * ?err) < dx then (INT32 (e + dx), INT32 ((y1 + sy * b) + sy)) else (e, y1 + sy * b))
        = (e + (b' - b) * dx, y1 + sy * b')" if "e = (b + 1) * dx - (a' + 1) * dy" for e
      unfolding that nowrap using steps_y by (simp add: b'_def algebra_simps split: if_splits)
    have again: "\<not> (x1 + sx * a = x1 + sx * dx \<and> y1 + sy * b = y1 + sy * dy)" using False less.prems by auto
    have e: "(b + 1) * dx - (a' + 1) * dy + (b' - b) * dx = (b' + 1) * dx - (a' + 1) * dy"
      by (simp add: algebra_simps)
    have "draw_line_from (x1 + sx * a) (y1 + sy * b) (x1 + sx * dx) (y1 + sy * dy) dx dy sx sy ?err c s
        = Some (plot c ((x1 + sx * a, y1 + sy * b) # ps) s)"
      unfolding draw_line_from.simps [of "x1 + sx * a"]
      by (simp only: Let_def if_not_P [OF again] next_x next_y [OF refl] e prod.case ps(1)) (simp add: plot_def)
    then show ?thesis using ps count less.prems
      by (intro exI [of _ "(x1 + sx * a, y1 + sy * b) # ps"]) auto
  qed
qed

definition near_line :: "int \<Rightarrow> int \<Rightarrow> int \<Rightarrow> int \<Rightarrow> int \<times> int \<Rightarrow> bool" where
  "near_line x1 y1 x2 y2 = (\<lambda>(u, v). min x1 x2 \<le> u \<and> u \<le> max x1 x2 \<and> min y1 y2 \<le> v \<and> v \<le> max y1 y2
     \<and> \<bar>2 * ((v - y1) * (x2 - x1) - (u - x1) * (y2 - y1))\<bar> \<le> max \<bar>x2 - x1\<bar> \<bar>y2 - y1\<bar>)"

text \<open>End points that are \<open>INT\<close> values, at most 2^29 apart in each direction.\<close>

definition plain_line :: "int \<Rightarrow> int \<Rightarrow> int \<Rightarrow> int \<Rightarrow> bool" where
  "plain_line x1 y1 x2 y2 \<longleftrightarrow> (\<forall>v \<in> {x1, y1, x2, y2}. - 2147483648 \<le> v \<and> v < 2147483648)
     \<and> \<bar>x2 - x1\<bar> \<le> 536870912 \<and> \<bar>y2 - y1\<bar> \<le> 536870912"

lemma VgaDrawLine_path:
  assumes "g_VgaDevice s \<noteq> 0" "plain_line x1 y1 x2 y2"
  shows "\<exists>ps. VgaDrawLine x1 y1 x2 y2 c s = Some (plot c ps s)
     \<and> ps \<noteq> [] \<and> hd ps = (x1, y1) \<and> last ps = (x2, y2)
     \<and> int (length ps) = max \<bar>x2 - x1\<bar> \<bar>y2 - y1\<bar> + 1
     \<and> (\<forall>p \<in> set ps. near_line x1 y1 x2 y2 p)"
proof -
  define dx dy :: int where "dx = \<bar>x2 - x1\<bar>" and "dy = \<bar>y2 - y1\<bar>"
  define sx sy :: int where "sx = (if x1 < x2 then 1 else -1)" and "sy = (if y1 < y2 then 1 else -1)"
  have ends: "x2 = x1 + sx * dx" "y2 = y1 + sy * dy" and nonneg: "0 \<le> dx" "0 \<le> dy"
    by (auto simp: dx_def dy_def sx_def sy_def)
  have signs: "sx = 1 \<or> sx = -1" "sy = 1 \<or> sy = -1" "\<bar>2 * (0 * dx - 0 * dy)\<bar> \<le> max dx dy"
    using nonneg by (simp_all add: sx_def sy_def)
  have plain: "\<bar>x2 - x1\<bar> \<le> 536870912" "\<bar>y2 - y1\<bar> \<le> 536870912" "- 2147483648 \<le> x1" "x1 < 2147483648"
    "- 2147483648 \<le> x2" "x2 < 2147483648" "- 2147483648 \<le> y1" "y1 < 2147483648" "- 2147483648 \<le> y2" "y2 < 2147483648"
    using assms(2) by (simp_all add: plain_line_def)
  have "dx \<le> 536870912" "dy \<le> 536870912" using plain by (simp_all add: dx_def dy_def)
  have dist: "(if x2 > x1 then INT32 (x2 - x1) else INT32 (x1 - x2)) = dx"
    "(if y2 > y1 then INT32 (y2 - y1) else INT32 (y1 - y2)) = dy" "INT32 (dx - dy) = dx - dy"
    using plain nonneg by (auto simp: dx_def dy_def INT32_id)
  have call: "VgaDrawLine x1 y1 x2 y2 c s = draw_line_from x1 y1 x2 y2 dx dy sx sy (dx - dy) c s"
    using assms(1) unfolding VgaDrawLine_def Let_def dist sx_def sy_def by simp
  obtain ps where ps: "draw_line_from x1 y1 x2 y2 dx dy sx sy (dx - dy) c s = Some (plot c ps s)"
      "ps \<noteq> []" "hd ps = (x1, y1)" "last ps = (x2, y2)"
      "int (length ps) = (if dy \<le> dx then dx else dy) + 1"
      "\<forall>p \<in> set ps. \<exists>i j. 0 \<le> i \<and> i \<le> dx \<and> 0 \<le> j \<and> j \<le> dy \<and> p = (x1 + sx * i, y1 + sy * j)
             \<and> \<bar>2 * (j * dx - i * dy)\<bar> \<le> max dx dy"
    using draw_line_from_path [of 0 dx 0 dy sx sy x1 y1 c s, folded ends] nonneg signs plain \<open>dx \<le> _\<close> \<open>dy \<le> _\<close>
    by (simp only: mult_zero_left mult_zero_right add_0_left add_0_right diff_zero mult_1) auto
  have near: "near_line x1 y1 x2 y2 p" if "p \<in> set ps" for p
  proof -
    obtain i j where ij: "0 \<le> i" "i \<le> dx" "0 \<le> j" "j \<le> dy" "p = (x1 + sx * i, y1 + sy * j)"
        "\<bar>2 * (j * dx - i * dy)\<bar> \<le> max dx dy"
      using ps(6) \<open>p \<in> set ps\<close> by blast
    have "\<bar>2 * (sy * j * (sx * dx) - sx * i * (sy * dy))\<bar> = \<bar>2 * (j * dx - i * dy)\<bar>"
      by (auto simp: sx_def sy_def algebra_simps)
    then have "\<bar>2 * ((snd p - y1) * (x2 - x1) - (fst p - x1) * (y2 - y1))\<bar> \<le> max \<bar>x2 - x1\<bar> \<bar>y2 - y1\<bar>"
      using ij(5,6) ends unfolding dx_def [symmetric] dy_def [symmetric] by simp
    moreover have "min x1 x2 \<le> fst p \<and> fst p \<le> max x1 x2" "min y1 y2 \<le> snd p \<and> snd p \<le> max y1 y2"
      using ij(1-5) by (auto simp: dx_def sx_def min_def max_def) (auto simp: dy_def sy_def)
    ultimately show ?thesis unfolding near_line_def by (simp add: case_prod_unfold)
  qed
  show ?thesis
    unfolding call ps(1) using ps near by (intro exI [of _ ps]) (auto simp: dx_def dy_def max_def)
qed

text \<open>
  C36: \<open>VgaDrawLine\<close> returns for end points up to 2^29 apart, in every direction: it stores one pixel per
  step of the longer axis, from the first end point to the last one, every one of them between the
  two and within half a pixel of the ideal line.
\<close>

theorem VgaDrawLine_draws_line:
  assumes "g_VgaDevice s \<noteq> 0"
    and "\<forall>v \<in> {x1, y1, x2, y2}. - 2147483648 \<le> v \<and> v < 2147483648"
    and "\<bar>x2 - x1\<bar> \<le> 536870912" "\<bar>y2 - y1\<bar> \<le> 536870912"
  shows "\<exists>ps. VgaDrawLine x1 y1 x2 y2 c s = Some (plot c ps s)
     \<and> ps \<noteq> [] \<and> hd ps = (x1, y1) \<and> last ps = (x2, y2)
     \<and> int (length ps) = max \<bar>x2 - x1\<bar> \<bar>y2 - y1\<bar> + 1
     \<and> (\<forall>p \<in> set ps. near_line x1 y1 x2 y2 p)"
  by (rule VgaDrawLine_path) (use assms in \<open>simp_all add: plain_line_def\<close>)

theorem VgaDrawLine_draws_line_witness:
  "\<exists>ps. VgaDrawLine 10 20 3 22 7 vga_on = Some (plot 7 ps vga_on) \<and> ps \<noteq> [] \<and> hd ps = (10, 20)
     \<and> last ps = (3, 22) \<and> int (length ps) = 8 \<and> (\<forall>p \<in> set ps. near_line 10 20 3 22 p)"
  using VgaDrawLine_draws_line [of vga_on 10 20 3 22 7] vga_on_ready by (simp add: graphics_ready_def)

subsection \<open>Figures\<close>

definition returns_drawn :: "'a vga_scheme \<Rightarrow> 'a vga_scheme option \<Rightarrow> bool" where
  "returns_drawn s r \<longleftrightarrow> (\<exists>t. r = Some t \<and> draws s t)"

lemma returns_drawn_Some [draws_intros]: "draws s t \<Longrightarrow> returns_drawn s (Some t)"
  by (simp add: returns_drawn_def)

lemma returns_drawn_bind [draws_intros]:
  "\<lbrakk>returns_drawn s r; \<And>t. draws s t \<Longrightarrow> returns_drawn t (k t)\<rbrakk> \<Longrightarrow> returns_drawn s (Option.bind r k)"
  unfolding returns_drawn_def using draws_trans by fastforce

lemma returns_drawn_after: "\<lbrakk>draws s t; returns_drawn t r\<rbrakk> \<Longrightarrow> returns_drawn s r"
  unfolding returns_drawn_def using draws_trans by blast

lemma VgaDrawLine_drawn [draws_intros]:
  assumes "plain_line x1 y1 x2 y2"
  shows "returns_drawn s (VgaDrawLine x1 y1 x2 y2 c s)"
proof (cases "g_VgaDevice s = 0")
  case True
  then show ?thesis by (simp add: returns_drawn_def VgaDrawLine_def draws_refl)
next
  case False
  then show ?thesis using VgaDrawLine_path [OF _ assms, of s c] by (auto simp: returns_drawn_def plot_draws)
qed

lemma VgaDrawRect_drawn [draws_intros]:
  assumes "0 \<le> x" "0 \<le> y" "0 \<le> w" "0 \<le> h" "x + w \<le> 1024" "y + h \<le> 1024"
  shows "returns_drawn s (VgaDrawRect x y w h c s)"
proof -
  have "INT32 (x + w - 1) = x + w - 1" "INT32 (y + h - 1) = y + h - 1" using assms by (simp_all add: INT32_id)
  then show ?thesis
    unfolding VgaDrawRect_def Let_def by (simp only:) (intro draws_intros; use assms in \<open>simp add: plain_line_def\<close>)
qed

text \<open>
  The demonstration screen of the display driver ends, whatever the state: all its lines and frames
  return, it changes nothing of the machine but the shadow buffer and the output traces, and when
  the display agreed with the shadow buffer before, it still does.
\<close>

theorem VgaDrawDemo_returns: "\<exists>t. VgaDrawDemo s = Some t \<and> undrawn t = undrawn s
     \<and> (graphics_ready s \<and> shows_shadow other h s \<longrightarrow> shows_shadow other h t)"
proof -
  have bars: "draws u (fold (\<lambda>i. VgaFillRect (int i * 40) 10 40 30 (of_nat i)) [0..<16] u)" for u :: "'b vga_scheme"
    by (rule fold_draws) (auto intro: VgaFillRect_draws)
  have "returns_drawn s (VgaDrawDemo s)"
    unfolding VgaDrawDemo_def Let_def
    by (auto intro!: draws_intros intro: returns_drawn_after [OF draws_trans [OF VgaClearScreen_draws bars] VgaDrawRect_drawn] returns_drawn_after [OF VgaFillRect_draws VgaDrawRect_drawn]
         returns_drawn_after [OF VgaFillRect_draws VgaDrawLine_drawn] simp: plain_line_def)
  then show ?thesis by (auto simp: returns_drawn_def draws_def)
qed

end
