(* ===== verification/Vga_Text.thy ===== *)
theory Vga_Text
  imports Vga_Draw
begin

unbundle bit_operations_syntax

section \<open>Text on the graphics screen\<close>

text \<open>
  Models \<open>drivers/video/vga/vga_font.c\<close>: the 8 by 8 font, characters, strings and decimal numbers.
  A character is a grid of conditional pixels, so what it shows comes from the \<open>canvas\<close> interface; the
  layout of a string is compared with the list of its lines, and the digits of a number with the
  number they denote. A C string is the list of its characters, without the final zero; the null
  pointer, which \<open>VgaDrawString\<close> ignores, is not a string of the model.
\<close>

subsection \<open>Operations\<close>

definition FONT_WIDTH :: int where [const_defs]: "FONT_WIDTH = 8"
definition FONT_HEIGHT :: int where [const_defs]: "FONT_HEIGHT = 8"

definition font8x8 :: "u8 list list" where
  "font8x8 =
    [[0x00, 0x00, 0x00, 0x00, 0x00, 0x00, 0x00, 0x00],
     [0x18, 0x3C, 0x3C, 0x18, 0x18, 0x00, 0x18, 0x00],
     [0x36, 0x36, 0x00, 0x00, 0x00, 0x00, 0x00, 0x00],
     [0x36, 0x36, 0x7F, 0x36, 0x7F, 0x36, 0x36, 0x00],
     [0x0C, 0x3E, 0x03, 0x1E, 0x30, 0x1F, 0x0C, 0x00],
     [0x00, 0x63, 0x33, 0x18, 0x0C, 0x66, 0x63, 0x00],
     [0x1C, 0x36, 0x1C, 0x6E, 0x3B, 0x33, 0x6E, 0x00],
     [0x06, 0x06, 0x03, 0x00, 0x00, 0x00, 0x00, 0x00],
     [0x18, 0x0C, 0x06, 0x06, 0x06, 0x0C, 0x18, 0x00],
     [0x06, 0x0C, 0x18, 0x18, 0x18, 0x0C, 0x06, 0x00],
     [0x00, 0x66, 0x3C, 0xFF, 0x3C, 0x66, 0x00, 0x00],
     [0x00, 0x0C, 0x0C, 0x3F, 0x0C, 0x0C, 0x00, 0x00],
     [0x00, 0x00, 0x00, 0x00, 0x00, 0x0C, 0x0C, 0x06],
     [0x00, 0x00, 0x00, 0x3F, 0x00, 0x00, 0x00, 0x00],
     [0x00, 0x00, 0x00, 0x00, 0x00, 0x0C, 0x0C, 0x00],
     [0x60, 0x30, 0x18, 0x0C, 0x06, 0x03, 0x01, 0x00],
     [0x3E, 0x63, 0x73, 0x7B, 0x6F, 0x67, 0x3E, 0x00],
     [0x0C, 0x0E, 0x0C, 0x0C, 0x0C, 0x0C, 0x3F, 0x00],
     [0x1E, 0x33, 0x30, 0x1C, 0x06, 0x33, 0x3F, 0x00],
     [0x1E, 0x33, 0x30, 0x1C, 0x30, 0x33, 0x1E, 0x00],
     [0x38, 0x3C, 0x36, 0x33, 0x7F, 0x30, 0x78, 0x00],
     [0x3F, 0x03, 0x1F, 0x30, 0x30, 0x33, 0x1E, 0x00],
     [0x1C, 0x06, 0x03, 0x1F, 0x33, 0x33, 0x1E, 0x00],
     [0x3F, 0x33, 0x30, 0x18, 0x0C, 0x0C, 0x0C, 0x00],
     [0x1E, 0x33, 0x33, 0x1E, 0x33, 0x33, 0x1E, 0x00],
     [0x1E, 0x33, 0x33, 0x3E, 0x30, 0x18, 0x0E, 0x00],
     [0x00, 0x0C, 0x0C, 0x00, 0x00, 0x0C, 0x0C, 0x00],
     [0x00, 0x0C, 0x0C, 0x00, 0x00, 0x0C, 0x0C, 0x06],
     [0x18, 0x0C, 0x06, 0x03, 0x06, 0x0C, 0x18, 0x00],
     [0x00, 0x00, 0x3F, 0x00, 0x00, 0x3F, 0x00, 0x00],
     [0x06, 0x0C, 0x18, 0x30, 0x18, 0x0C, 0x06, 0x00],
     [0x1E, 0x33, 0x30, 0x18, 0x0C, 0x00, 0x0C, 0x00],
     [0x3E, 0x63, 0x7B, 0x7B, 0x7B, 0x03, 0x1E, 0x00],
     [0x0C, 0x1E, 0x33, 0x33, 0x3F, 0x33, 0x33, 0x00],
     [0x3F, 0x66, 0x66, 0x3E, 0x66, 0x66, 0x3F, 0x00],
     [0x3C, 0x66, 0x03, 0x03, 0x03, 0x66, 0x3C, 0x00],
     [0x1F, 0x36, 0x66, 0x66, 0x66, 0x36, 0x1F, 0x00],
     [0x7F, 0x46, 0x16, 0x1E, 0x16, 0x46, 0x7F, 0x00],
     [0x7F, 0x46, 0x16, 0x1E, 0x16, 0x06, 0x0F, 0x00],
     [0x3C, 0x66, 0x03, 0x03, 0x73, 0x66, 0x7C, 0x00],
     [0x33, 0x33, 0x33, 0x3F, 0x33, 0x33, 0x33, 0x00],
     [0x1E, 0x0C, 0x0C, 0x0C, 0x0C, 0x0C, 0x1E, 0x00],
     [0x78, 0x30, 0x30, 0x30, 0x33, 0x33, 0x1E, 0x00],
     [0x67, 0x66, 0x36, 0x1E, 0x36, 0x66, 0x67, 0x00],
     [0x0F, 0x06, 0x06, 0x06, 0x46, 0x66, 0x7F, 0x00],
     [0x63, 0x77, 0x7F, 0x7F, 0x6B, 0x63, 0x63, 0x00],
     [0x63, 0x67, 0x6F, 0x7B, 0x73, 0x63, 0x63, 0x00],
     [0x1C, 0x36, 0x63, 0x63, 0x63, 0x36, 0x1C, 0x00],
     [0x3F, 0x66, 0x66, 0x3E, 0x06, 0x06, 0x0F, 0x00],
     [0x1E, 0x33, 0x33, 0x33, 0x3B, 0x1E, 0x38, 0x00],
     [0x3F, 0x66, 0x66, 0x3E, 0x36, 0x66, 0x67, 0x00],
     [0x1E, 0x33, 0x07, 0x0E, 0x38, 0x33, 0x1E, 0x00],
     [0x3F, 0x2D, 0x0C, 0x0C, 0x0C, 0x0C, 0x1E, 0x00],
     [0x33, 0x33, 0x33, 0x33, 0x33, 0x33, 0x3F, 0x00],
     [0x33, 0x33, 0x33, 0x33, 0x33, 0x1E, 0x0C, 0x00],
     [0x63, 0x63, 0x63, 0x6B, 0x7F, 0x77, 0x63, 0x00],
     [0x63, 0x63, 0x36, 0x1C, 0x1C, 0x36, 0x63, 0x00],
     [0x33, 0x33, 0x33, 0x1E, 0x0C, 0x0C, 0x1E, 0x00],
     [0x7F, 0x63, 0x31, 0x18, 0x4C, 0x66, 0x7F, 0x00],
     [0x1E, 0x06, 0x06, 0x06, 0x06, 0x06, 0x1E, 0x00],
     [0x03, 0x06, 0x0C, 0x18, 0x30, 0x60, 0x40, 0x00],
     [0x1E, 0x18, 0x18, 0x18, 0x18, 0x18, 0x1E, 0x00],
     [0x08, 0x1C, 0x36, 0x63, 0x00, 0x00, 0x00, 0x00],
     [0x00, 0x00, 0x00, 0x00, 0x00, 0x00, 0x00, 0xFF],
     [0x0C, 0x0C, 0x18, 0x00, 0x00, 0x00, 0x00, 0x00],
     [0x00, 0x00, 0x1E, 0x30, 0x3E, 0x33, 0x6E, 0x00],
     [0x07, 0x06, 0x06, 0x3E, 0x66, 0x66, 0x3B, 0x00],
     [0x00, 0x00, 0x1E, 0x33, 0x03, 0x33, 0x1E, 0x00],
     [0x38, 0x30, 0x30, 0x3e, 0x33, 0x33, 0x6E, 0x00],
     [0x00, 0x00, 0x1E, 0x33, 0x3f, 0x03, 0x1E, 0x00],
     [0x1C, 0x36, 0x06, 0x0f, 0x06, 0x06, 0x0F, 0x00],
     [0x00, 0x00, 0x6E, 0x33, 0x33, 0x3E, 0x30, 0x1F],
     [0x07, 0x06, 0x36, 0x6E, 0x66, 0x66, 0x67, 0x00],
     [0x0C, 0x00, 0x0E, 0x0C, 0x0C, 0x0C, 0x1E, 0x00],
     [0x30, 0x00, 0x30, 0x30, 0x30, 0x33, 0x33, 0x1E],
     [0x07, 0x06, 0x66, 0x36, 0x1E, 0x36, 0x67, 0x00],
     [0x0E, 0x0C, 0x0C, 0x0C, 0x0C, 0x0C, 0x1E, 0x00],
     [0x00, 0x00, 0x33, 0x7F, 0x7F, 0x6B, 0x63, 0x00],
     [0x00, 0x00, 0x1F, 0x33, 0x33, 0x33, 0x33, 0x00],
     [0x00, 0x00, 0x1E, 0x33, 0x33, 0x33, 0x1E, 0x00],
     [0x00, 0x00, 0x3B, 0x66, 0x66, 0x3E, 0x06, 0x0F],
     [0x00, 0x00, 0x6E, 0x33, 0x33, 0x3E, 0x30, 0x78],
     [0x00, 0x00, 0x3B, 0x6E, 0x66, 0x06, 0x0F, 0x00],
     [0x00, 0x00, 0x3E, 0x03, 0x1E, 0x30, 0x1F, 0x00],
     [0x08, 0x0C, 0x3E, 0x0C, 0x0C, 0x2C, 0x18, 0x00],
     [0x00, 0x00, 0x33, 0x33, 0x33, 0x33, 0x6E, 0x00],
     [0x00, 0x00, 0x33, 0x33, 0x33, 0x1E, 0x0C, 0x00],
     [0x00, 0x00, 0x63, 0x6B, 0x7F, 0x7F, 0x36, 0x00],
     [0x00, 0x00, 0x63, 0x36, 0x1C, 0x36, 0x63, 0x00],
     [0x00, 0x00, 0x33, 0x33, 0x33, 0x3E, 0x30, 0x1F],
     [0x00, 0x00, 0x3F, 0x19, 0x0C, 0x26, 0x3F, 0x00],
     [0x38, 0x0C, 0x0C, 0x07, 0x0C, 0x0C, 0x38, 0x00],
     [0x18, 0x18, 0x18, 0x00, 0x18, 0x18, 0x18, 0x00],
     [0x07, 0x0C, 0x0C, 0x38, 0x0C, 0x0C, 0x07, 0x00],
     [0x6E, 0x3B, 0x00, 0x00, 0x00, 0x00, 0x00, 0x00],
     [0xFF, 0xFF, 0xFF, 0xFF, 0xFF, 0xFF, 0xFF, 0xFF]]"

text \<open>\<open>glyph = font8x8[uc - 32]\<close>, after the question mark has replaced what the font does not have.\<close>

definition glyph_of :: "char \<Rightarrow> u8 list" where
  "glyph_of c = (let uc = byte_of c; uc = (if uc < 32 \<or> uc > 127 then byte_of (CHR ''?'') else uc)
                 in font8x8 ! unat (uc - 32))"

definition VgaDrawChar :: "int \<Rightarrow> int \<Rightarrow> char \<Rightarrow> u8 \<Rightarrow> u8 \<Rightarrow> 'a vga_scheme \<Rightarrow> 'a vga_scheme" where
  "VgaDrawChar x y c fg bg s =
     (let glyph = glyph_of c in
      fold (\<lambda>row. let bits = glyph ! row in
          fold (\<lambda>col s. if bits AND push_bit col 1 \<noteq> 0 then VgaPutPixel (x + int col) (y + int row) fg s
                        else VgaPutPixel (x + int col) (y + int row) bg s) [0..<nat FONT_WIDTH])
        [0..<nat FONT_HEIGHT] s)"

fun draw_string_from :: "int \<Rightarrow> int \<Rightarrow> int \<Rightarrow> string \<Rightarrow> u8 \<Rightarrow> u8 \<Rightarrow> 'a vga_scheme \<Rightarrow> 'a vga_scheme" where
  "draw_string_from x cx y [] fg bg s = s"
| "draw_string_from x cx y (c # str) fg bg s =
     (if c = CHR 0x0A then draw_string_from x x (y + FONT_HEIGHT) str fg bg s
      else draw_string_from x (cx + FONT_WIDTH) y str fg bg (VgaDrawChar cx y c fg bg s))"

definition VgaDrawString :: "int \<Rightarrow> int \<Rightarrow> string \<Rightarrow> u8 \<Rightarrow> u8 \<Rightarrow> 'a vga_scheme \<Rightarrow> 'a vga_scheme" where
  "VgaDrawString x y str fg bg s = draw_string_from x x y str fg bg s"

text \<open>\<open>while (num > 0) { buf[i++] = '0' + (num % 10); num /= 10; }\<close>\<close>

function put_digits :: "int \<Rightarrow> string \<Rightarrow> string" where
  "put_digits num buf =
     (if num > 0 then put_digits (num div 10) (buf @ [char_at (of_int (48 + num mod 10))]) else buf)"
  by pat_completeness auto
termination by (relation "measure (\<lambda>(num, _). nat num)") auto

declare put_digits.simps [simp del]

text \<open>\<open>while (l < r) { swap buf[l], buf[r]; l++; r--; }\<close>\<close>

function swap_ends :: "int \<Rightarrow> int \<Rightarrow> string \<Rightarrow> string" where
  "swap_ends l r buf =
     (if l < r then swap_ends (l + 1) (r - 1) (buf[nat l := buf ! nat r, nat r := buf ! nat l]) else buf)"
  by pat_completeness auto
termination by (relation "measure (\<lambda>(l, r, _). nat (r - l))") auto

declare swap_ends.simps [simp del]

text \<open>
  What \<open>VgaDrawInt\<close> leaves in \<open>buf\<close>. The negation of the most negative \<open>INT\<close> wraps around, as the
  compiled code does it.
\<close>

definition int_text :: "u32 \<Rightarrow> string" where
  "int_text num =
     (let neg = sint num < 0;
          num = (if neg then - num else num);
          buf = (if num = 0 then ''0'' else []);
          buf = put_digits (sint num) buf;
          buf = (if neg then buf @ ''-'' else buf)
      in swap_ends 0 (int (length buf) - 1) buf)"

definition VgaDrawInt :: "int \<Rightarrow> int \<Rightarrow> u32 \<Rightarrow> u8 \<Rightarrow> u8 \<Rightarrow> 'a vga_scheme \<Rightarrow> 'a vga_scheme" where
  "VgaDrawInt x y num fg bg s = VgaDrawString x y (int_text num) fg bg s"

subsection \<open>Characters\<close>

lemma font_shape: "length font8x8 = 96" "\<forall>g \<in> set font8x8. length g = 8"
  by (simp_all add: font8x8_def)

lemma glyph_of_length: "length (glyph_of c) = 8"
proof -
  have "unat (uc - 32) < 96" if "32 \<le> uc" "uc \<le> 127" for uc :: u8
    using that by (simp add: unat_sub word_le_nat_alt)
  then have "glyph_of c \<in> set font8x8"
    unfolding glyph_of_def Let_def
    by (intro nth_mem) (auto simp: font_shape(1) byte_of_def not_less)
  then show ?thesis using font_shape(2) by simp
qed

text \<open>The pixel of a character, as a reader of the font sees it: the low bit is the leftmost column.\<close>

definition glyph_pixel :: "char \<Rightarrow> u8 \<Rightarrow> u8 \<Rightarrow> nat \<Rightarrow> nat \<Rightarrow> u8" where
  "glyph_pixel c fg bg row col = (if bit (glyph_of c ! row) col then fg else bg)"

lemma VgaDrawChar_grid:
  "VgaDrawChar x y c fg bg s =
     fold (\<lambda>r. fold (\<lambda>i s. case Some (glyph_pixel c fg bg r i) of Some c \<Rightarrow> VgaPutPixel (x + int i) (y + int r) c s
                            | None \<Rightarrow> s) [0..<8]) [0..<8] s"
  unfolding VgaDrawChar_def Let_def glyph_pixel_def const_defs bit_iff_and_push_bit_not_eq_0 option.case
  by (simp add: if_distribR if_distrib [of "\<lambda>c. VgaPutPixel _ _ c _"] cong: if_cong)

lemma VgaDrawChar_pixel:
  assumes "graphics_ready s"
  shows "VgaGetPixel u v (VgaDrawChar x y c fg bg s)
    = (if x \<le> u \<and> u < x + 8 \<and> y \<le> v \<and> v < y + 8 \<and> on_screen u v
       then glyph_pixel c fg bg (nat (v - y)) (nat (u - x)) else VgaGetPixel u v s)"
  unfolding VgaDrawChar_grid using screen.get_grid [OF assms, where f = "\<lambda>r i. Some (glyph_pixel c fg bg r i)"
    and x = x and y = y and w = 8 and h = 8]
  by simp

lemma VgaDrawChar_draws [draws_intros]: "draws s (VgaDrawChar x y c fg bg s)"
  unfolding VgaDrawChar_def Let_def by (intro fold_draws) (simp add: VgaPutPixel_draws)

subsection \<open>Strings\<close>

lemma draw_string_from_draws: "draws s (draw_string_from x cx y str fg bg s)"
proof (induction str arbitrary: cx y s)
  case (Cons c str)
  then show ?case using draws_trans [OF VgaDrawChar_draws [of s cx y c fg bg]] by simp
qed (simp add: draws_refl)

lemma VgaDrawString_draws [draws_intros]: "draws s (VgaDrawString x y str fg bg s)"
  by (simp add: VgaDrawString_def draw_string_from_draws)

text \<open>The lines of a string, and the character at a place of the grid of character cells.\<close>

fun text_lines :: "string \<Rightarrow> string list" where
  "text_lines [] = [[]]"
| "text_lines (c # str) =
     (if c = CHR 0x0A then [] # text_lines str
      else (c # hd (text_lines str)) # tl (text_lines str))"

definition text_at :: "string list \<Rightarrow> nat \<Rightarrow> nat \<Rightarrow> char option" where
  "text_at ls r k = (if r < length ls \<and> k < length (ls ! r) then Some (ls ! r ! k) else None)"

definition text_pixel :: "int \<Rightarrow> int \<Rightarrow> string \<Rightarrow> u8 \<Rightarrow> u8 \<Rightarrow> int \<Rightarrow> int \<Rightarrow> u8 option" where
  "text_pixel x y str fg bg u v =
     (if x \<le> u \<and> y \<le> v
      then map_option (\<lambda>c. glyph_pixel c fg bg (nat ((v - y) mod 8)) (nat ((u - x) mod 8)))
             (text_at (text_lines str) (nat ((v - y) div 8)) (nat ((u - x) div 8)))
      else None)"

lemma text_lines_nonempty [simp]: "text_lines str \<noteq> []"
  by (cases str) auto

text \<open>The cell of the loop: the first line starts at \<open>cx\<close>, the others at \<open>x\<close>.\<close>

definition cell_from :: "int \<Rightarrow> int \<Rightarrow> int \<Rightarrow> string list \<Rightarrow> u8 \<Rightarrow> u8 \<Rightarrow> int \<Rightarrow> int \<Rightarrow> u8 option" where
  "cell_from x cx y ls fg bg u v =
     (let r = nat ((v - y) div 8); x0 = (if r = 0 then cx else x) in
      if x0 \<le> u \<and> y \<le> v
      then map_option (\<lambda>c. glyph_pixel c fg bg (nat ((v - y) mod 8)) (nat ((u - x0) mod 8)))
             (text_at ls r (nat ((u - x0) div 8)))
      else None)"

lemma block_step:
  assumes "c + 8 \<le> (u :: int)"
  shows "nat ((u - c) div 8) = Suc (nat ((u - (c + 8)) div 8))" "(u - c) mod 8 = (u - (c + 8)) mod 8"
proof -
  define d where "d = u - (c + 8)"
  have "u - c = d + 8" "0 \<le> d" using assms by (simp_all add: d_def)
  then show "nat ((u - c) div 8) = Suc (nat ((u - (c + 8)) div 8))" "(u - c) mod 8 = (u - (c + 8)) mod 8"
    unfolding d_def [symmetric] by (simp_all add: Suc_nat_eq_nat_zadd1 pos_imp_zdiv_nonneg_iff)
qed

lemma cell_from_left: "u < cx \<Longrightarrow> v < y + 8 \<Longrightarrow> cell_from x cx y ls fg bg u v = None"
  by (auto simp: cell_from_def Let_def)

lemma cell_from_newline:
  "cell_from x cx y ([] # ls) fg bg u v = cell_from x x (y + 8) ls fg bg u v"
proof (cases "y + 8 \<le> v")
  case True
  note step = block_step [OF this]
  show ?thesis using True unfolding cell_from_def Let_def step by (simp add: text_at_def del: mod_diff_eq)
next
  case False
  then have "v < y \<or> nat ((v - y) div 8) = 0" by auto
  then show ?thesis using False by (auto simp: cell_from_def Let_def text_at_def)
qed

lemma cell_from_char:
  assumes "ls \<noteq> []"
  shows "cell_from x cx y ((c # hd ls) # tl ls) fg bg u v
    = (if cx \<le> u \<and> u < cx + 8 \<and> y \<le> v \<and> v < y + 8 then Some (glyph_pixel c fg bg (nat (v - y)) (nat (u - cx)))
       else cell_from x (cx + 8) y ls fg bg u v)"
proof (cases "y \<le> v \<and> v < y + 8")
  case True
  then have r: "(v - y) div 8 = 0" "(v - y) mod 8 = v - y" by simp_all
  show ?thesis
  proof (cases "cx + 8 \<le> u")
    case True
    note step = block_step [OF this]
    have "text_at ((c # hd ls) # tl ls) 0 (Suc k) = text_at ls 0 k" for k
      using assms by (simp add: text_at_def hd_conv_nth)
    then show ?thesis using True \<open>y \<le> v \<and> v < y + 8\<close> unfolding cell_from_def Let_def r nat_zero_as_int [symmetric]
      by (simp add: step(1)) (simp add: step(2))
  next
    case False
    then have "u < cx \<or> (u - cx) div 8 = 0 \<and> (u - cx) mod 8 = u - cx" by auto
    then show ?thesis using True False r assms by (auto simp: cell_from_def Let_def text_at_def)
  qed
next
  case False
  have same: "text_at ((c # hd ls) # tl ls) (Suc m) k = text_at ls (Suc m) k" for m k
    using assms by (cases ls) (simp_all add: text_at_def)
  show ?thesis
  proof (cases "v < y")
    case False
    with \<open>\<not> (y \<le> v \<and> v < y + 8)\<close> have "y + 8 \<le> v" by simp
    then show ?thesis unfolding cell_from_def Let_def block_step(1) [OF \<open>y + 8 \<le> v\<close>] same by simp
  qed (simp add: cell_from_def Let_def)
qed

lemma draw_string_from_pixel:
  assumes "graphics_ready s" "on_screen u v"
  shows "VgaGetPixel u v (draw_string_from x cx y str fg bg s)
    = (case cell_from x cx y (text_lines str) fg bg u v of Some p \<Rightarrow> p | None \<Rightarrow> VgaGetPixel u v s)"
  using assms(1)
proof (induction str arbitrary: cx y s)
  case Nil
  then show ?case by (auto simp: cell_from_def Let_def text_at_def split: option.split)
next
  case (Cons c str)
  show ?case
  proof (cases "c = CHR 0x0A")
    case True
    then show ?thesis using Cons by (simp add: cell_from_newline FONT_HEIGHT_def)
  next
    case False
    have "graphics_ready (VgaDrawChar cx y c fg bg s)"
      using Cons.prems unfolding draws_ready [OF VgaDrawChar_draws] .
    then show ?thesis using False Cons.IH assms(2)
      by (simp add: cell_from_char FONT_WIDTH_def VgaDrawChar_pixel [OF Cons.prems] cell_from_left split: option.split)
  qed
qed

lemma cell_from_text_pixel: "cell_from x x y (text_lines str) fg bg u v = text_pixel x y str fg bg u v"
  by (simp add: cell_from_def text_pixel_def Let_def)

text \<open>
  C35: \<open>VgaDrawString\<close> lays text out in lines of 8 by 8 cells: the pixel at a place of the screen is
  that of the character which the string's list of lines has in that cell, in the foreground or the
  background colour, and every other pixel stays; the adapter shows the same.
\<close>

theorem VgaDrawString_lays_out_lines:
  assumes "graphics_ready s" "shows_shadow other h s" "on_screen u v"
  shows "VgaGetPixel u v (VgaDrawString x y str fg bg s)
      = (case text_pixel x y str fg bg u v of Some p \<Rightarrow> p | None \<Rightarrow> VgaGetPixel u v s)
    \<and> adapter_pixel (adapter_run other h (VgaDrawString x y str fg bg s)) u v
      = VgaGetPixel u v (VgaDrawString x y str fg bg s) AND 0x0F"
proof
  show "VgaGetPixel u v (VgaDrawString x y str fg bg s)
      = (case text_pixel x y str fg bg u v of Some p \<Rightarrow> p | None \<Rightarrow> VgaGetPixel u v s)"
    unfolding VgaDrawString_def draw_string_from_pixel [OF assms(1,3)] cell_from_text_pixel ..
  have "shows_shadow other h (VgaDrawString x y str fg bg s)"
    using VgaDrawString_draws assms(1,2) unfolding draws_def by blast
  then show "adapter_pixel (adapter_run other h (VgaDrawString x y str fg bg s)) u v
      = VgaGetPixel u v (VgaDrawString x y str fg bg s) AND 0x0F"
    using assms(3) by (rule adapter_pixel_shadow)
qed

theorem VgaDrawString_lays_out_lines_witness:
  "VgaGetPixel 11 30 (VgaDrawString 8 20 (''a'' @ [CHR 0x0A] @ ''I'') 15 0 vga_on) = 15
   \<and> VgaGetPixel 8 30 (VgaDrawString 8 20 (''a'' @ [CHR 0x0A] @ ''I'') 15 0 vga_on) = 0"
proof -
  let ?str = "''a'' @ [CHR 0x0A] @ ''I''"
  have "glyph_of (CHR ''I'') = [0x1E, 0x0C, 0x0C, 0x0C, 0x0C, 0x0C, 0x1E, 0x00]"
    by (simp add: glyph_of_def byte_of_def font8x8_def Let_def)
  then have "text_pixel 8 20 ?str 15 0 11 30 = Some 15" "text_pixel 8 20 ?str 15 0 8 30 = Some 0"
    by (simp_all add: text_pixel_def text_at_def glyph_pixel_def bit_iff_and_push_bit_not_eq_0 push_bit_of_1)
  then show ?thesis
    using VgaDrawString_lays_out_lines [OF vga_on_ready vga_on_shows, of 11 30 8 20 ?str 15 0]
      VgaDrawString_lays_out_lines [OF vga_on_ready vga_on_shows, of 8 30 8 20 ?str 15 0]
    by (simp add: on_screen_def)
qed

subsection \<open>Numbers\<close>

fun dec_value :: "string \<Rightarrow> int \<Rightarrow> int option" where
  "dec_value [] acc = Some acc"
| "dec_value (c # cs) acc =
     (let k = (of_char c :: int) in if 48 \<le> k \<and> k \<le> 57 then dec_value cs (10 * acc + (k - 48)) else None)"

fun int_value :: "string \<Rightarrow> int option" where
  "int_value [] = None"
| "int_value (c # cs) = (if c = CHR ''-'' then map_option uminus (dec_value cs 0) else dec_value (c # cs) 0)"

lemma dec_value_append: "dec_value (xs @ ys) acc = Option.bind (dec_value xs acc) (dec_value ys)"
  by (induction xs arbitrary: acc) (simp_all add: Let_def)

lemma of_char_digit: "(of_char (char_at (of_int (48 + n mod 10))) :: int) = 48 + n mod 10"
proof -
  obtain k where k: "n mod 10 = int k" "k < 10"
    by (rule that [of "nat (n mod 10)"]) (simp_all add: nat_less_iff)
  have "(of_int (48 + int k) :: u8) = of_nat (48 + k)" by simp
  moreover have "unat (of_nat (48 + k) :: u8) = 48 + k" using k(2) by (simp add: unat_of_nat take_bit_nat_eq_self del: of_nat_add)
  ultimately have "char_at (of_int (48 + int k)) = char_of (48 + k)" unfolding char_at_def by metis
  moreover have "(48 + k) mod 256 = 48 + k" using k(2) by simp
  then have "(of_char (char_of (48 + k) :: char) :: nat) = 48 + k" by (simp only: of_char_of)
  then have "(of_char (char_of (48 + k) :: char) :: int) = int (48 + k)" by (metis of_nat_of_char)
  ultimately show ?thesis unfolding k(1) by simp
qed

lemma put_digits_append: "put_digits n buf = buf @ put_digits n []"
proof (induction "nat n" arbitrary: n buf rule: less_induct)
  case less
  show ?case
  proof (cases "n > 0")
    case True
    then have smaller: "nat (n div 10) < nat n" by simp
    let ?d = "[char_at (of_int (48 + n mod 10))]"
    have "put_digits n buf = put_digits (n div 10) (buf @ ?d)" for buf
      using True by (subst put_digits.simps) simp
    then show ?thesis using less [OF smaller, of "buf @ ?d"] less [OF smaller, of ?d] by simp
  qed (simp add: put_digits.simps)
qed

lemma put_digits_step:
  "n > 0 \<Longrightarrow> rev (put_digits n []) = rev (put_digits (n div 10) []) @ [char_at (of_int (48 + n mod 10))]"
  using put_digits_append [of "n div 10" "[char_at (of_int (48 + n mod 10))]"]
  by (subst put_digits.simps) simp

lemma put_digits_value: "n > 0 \<Longrightarrow> dec_value (rev (put_digits n [])) 0 = Some n"
proof (induction "nat n" arbitrary: n rule: less_induct)
  case less
  have "dec_value (rev (put_digits (n div 10) [])) 0 = Some (n div 10)"
  proof (cases "n div 10 > 0")
    case True
    moreover have "nat (n div 10) < nat n" using less.prems by simp
    ultimately show ?thesis using less.hyps by blast
  next
    case False
    then have "n div 10 = 0" using less.prems by simp
    then show ?thesis by (simp add: put_digits.simps)
  qed
  then show ?case
    unfolding put_digits_step [OF less.prems] dec_value_append
    by (simp add: of_char_digit Let_def del: of_int_add)
qed

lemma put_digits_length: "n < 10 ^ k \<Longrightarrow> length (put_digits n []) \<le> k"
proof (induction k arbitrary: n)
  case 0
  then show ?case by (simp add: put_digits.simps)
next
  case (Suc k)
  then have "n div 10 < 10 ^ k" by simp
  then have "length (rev (put_digits n [])) \<le> Suc k"
    using Suc.IH by (cases "n > 0") (simp_all add: put_digits_step del: length_rev, simp_all add: put_digits.simps)
  then show ?case by simp
qed

lemma swap_ends_nth:
  "\<lbrakk>0 \<le> l; r < int (length buf)\<rbrakk> \<Longrightarrow> length (swap_ends l r buf) = length buf
     \<and> (\<forall>i < length buf. swap_ends l r buf ! i = (if l \<le> int i \<and> int i \<le> r then buf ! nat (l + r - int i) else buf ! i))"
proof (induction l r buf rule: swap_ends.induct)
  case (1 l r buf)
  show ?case
  proof (cases "l < r")
    case True
    let ?b = "buf[nat l := buf ! nat r, nat r := buf ! nat l]"
    have IH: "length (swap_ends (l + 1) (r - 1) ?b) = length buf"
      "i < length buf \<Longrightarrow> swap_ends (l + 1) (r - 1) ?b ! i
         = (if l + 1 \<le> int i \<and> int i \<le> r - 1 then ?b ! nat (l + r - int i) else ?b ! i)" for i
      using 1 True by auto
    have "swap_ends l r buf = swap_ends (l + 1) (r - 1) ?b" using True by (subst swap_ends.simps) simp
    then show ?thesis using IH 1(2,3) True
      by (auto simp: nth_list_update nat_eq_iff)
  next
    case False
    then have "buf ! i = buf ! nat (l + r - int i)" if "l \<le> int i" "int i \<le> r" for i
      using that by (intro arg_cong [where f = "(!) buf"]) simp
    then have "(if l \<le> int i \<and> int i \<le> r then buf ! nat (l + r - int i) else buf ! i) = buf ! i" for i
      by (metis (full_types))
    moreover have "swap_ends l r buf = buf" using False by (subst swap_ends.simps) simp
    ultimately show ?thesis by (simp only: simp_thms)
  qed
qed

lemma swap_ends_rev: "swap_ends 0 (int (length buf) - 1) buf = rev buf"
proof (rule nth_equalityI)
  show "length (swap_ends 0 (int (length buf) - 1) buf) = length (rev buf)"
    using swap_ends_nth [of 0 "int (length buf) - 1" buf] by simp
  fix i
  assume "i < length (swap_ends 0 (int (length buf) - 1) buf)"
  moreover have "nat (int (length buf) - 1 - int i) = length buf - Suc i" by simp
  ultimately show "swap_ends 0 (int (length buf) - 1) buf ! i = rev buf ! i"
    using swap_ends_nth [of 0 "int (length buf) - 1" buf] by (auto simp: rev_nth)
qed

lemma int_text_eq:
  "int_text num = (let m = (if sint num < 0 then - num else num) in
     (if sint num < 0 then ''-'' else []) @ rev (put_digits (sint m) []) @ (if m = 0 then ''0'' else []))"
  using put_digits_append [of _ "''0''"] by (simp add: int_text_def Let_def swap_ends_rev)

text \<open>
  The text \<open>VgaDrawInt\<close> builds is the decimal numeral of its argument, sign included, and with its
  final zero it fits the 12 bytes of \<open>buf\<close>, for every number but the most negative one.
\<close>

theorem int_text_denotes:
  assumes "num \<noteq> 0x80000000"
  shows "int_value (int_text num) = Some (sint num) \<and> length (int_text num) + 1 \<le> 12"
proof -
  define m where "m = (if sint num < 0 then - num else num)"
  have range: "- 2147483648 \<le> sint num" "sint num < 2147483648"
    using sint_range_size [of num] by (simp_all add: word_size)
  have num: "of_int (sint num) = num" by simp
  have "sint num \<noteq> - 2147483648"
  proof
    assume "sint num = - 2147483648"
    then show False using num assms by simp
  qed
  moreover have "- num = of_int (- sint num)" using num by simp
  ultimately have m: "sint m = \<bar>sint num\<bar>"
    using range by (simp add: m_def signed_of_int signed_take_bit_int_eq_self del: of_int_minus)
  have shape: "int_text num = (if sint num < 0 then ''-'' else []) @ rev (put_digits (sint m) [])
      @ (if m = 0 then ''0'' else [])"
    unfolding int_text_eq m_def [symmetric] Let_def ..
  have "length (put_digits (sint m) []) \<le> 10" using m range by (intro put_digits_length) simp
  moreover have "put_digits 0 [] = []" by (simp add: put_digits.simps)
  ultimately have "length (int_text num) + 1 \<le> 12" unfolding shape by auto
  moreover have "int_value (int_text num) = Some (sint num)"
  proof (cases "num = 0")
    case True
    then have "int_text num = ''0''" unfolding shape by (simp add: m_def \<open>put_digits 0 [] = []\<close>)
    then show ?thesis using True by (simp add: Let_def)
  next
    case False
    then have "sint num \<noteq> 0" using num by force
    then have pos: "sint m > 0" and m0: "m \<noteq> 0" using m by auto
    note parses = put_digits_value [OF pos]
    have "rev (put_digits (sint m) []) \<noteq> []" unfolding put_digits_step [OF pos] by simp
    then obtain d ds where d: "rev (put_digits (sint m) []) = d # ds" by (cases "rev (put_digits (sint m) [])") simp_all
    moreover have "d \<noteq> CHR ''-''" using parses unfolding d by (auto simp: Let_def split: if_splits)
    ultimately show ?thesis using parses m m0 by (auto simp: shape)
  qed
  ultimately show ?thesis by simp
qed

theorem int_text_denotes_witness: "int_value (int_text (- 2026)) = Some (- 2026) \<and> length (int_text (- 2026)) + 1 \<le> 12"
  using int_text_denotes [of "- 2026"] by simp

text \<open>The most negative number is its own negation: its text is a lone minus sign.\<close>

lemma int_text_most_negative: "int_text 0x80000000 = ''-''"
proof -
  have "put_digits (sint (0x80000000 :: u32)) [] = []" by (simp add: put_digits.simps)
  then show ?thesis by (simp add: int_text_eq Let_def)
qed

end
