(* ===== verification/Vga_Cursor.thy ===== *)
theory Vga_Cursor
  imports Vga_Text
begin

unbundle bit_operations_syntax

section \<open>The mouse cursor\<close>

text \<open>
  Models \<open>drivers/video/vga/vga_cursor.c\<close>: the arrow, which saves the pixels it covers when it is drawn
  and puts them back when it is erased. Both are grids of pixels of the \<open>canvas\<close> interface.
\<close>

record cursor = vga +
  g_cursor_bg :: "u8 list"
  g_cursor_saved_x :: int
  g_cursor_saved_y :: int
  g_cursor_invert :: int

subsection \<open>Operations\<close>

definition CURSOR_WIDTH :: nat where [const_defs]: "CURSOR_WIDTH = 8"
definition CURSOR_HEIGHT :: nat where [const_defs]: "CURSOR_HEIGHT = 12"

definition cursor_bitmap :: "u8 list list" where
  "cursor_bitmap =
    [[1,0,0,0,0,0,0,0],
     [1,1,0,0,0,0,0,0],
     [1,2,1,0,0,0,0,0],
     [1,2,2,1,0,0,0,0],
     [1,2,2,2,1,0,0,0],
     [1,2,2,2,2,1,0,0],
     [1,2,2,2,2,2,1,0],
     [1,2,2,2,1,1,0,0],
     [1,2,1,2,1,0,0,0],
     [1,1,0,1,2,1,0,0],
     [0,0,0,1,2,1,0,0],
     [0,0,0,0,1,1,0,0]]"

definition CursorInit :: "'a cursor_scheme \<Rightarrow> 'a cursor_scheme" where
  "CursorInit s = s\<lparr>g_cursor_saved_x := -1, g_cursor_saved_y := -1\<rparr>"

definition CursorToggleInvert :: "'a cursor_scheme \<Rightarrow> 'a cursor_scheme" where
  "CursorToggleInvert s = s\<lparr>g_cursor_invert := (if g_cursor_invert s = 0 then 1 else 0)\<rparr>"

definition CursorDraw :: "int \<Rightarrow> int \<Rightarrow> 'a cursor_scheme \<Rightarrow> 'a cursor_scheme" where
  "CursorDraw x y s =
     (let s = s\<lparr>g_cursor_bg := fold (\<lambda>row. fold (\<lambda>col bg.
                bg[row * CURSOR_WIDTH + col := VgaGetPixel (x + int col) (y + int row) s])
                [0..<CURSOR_WIDTH]) [0..<CURSOR_HEIGHT] (g_cursor_bg s)\<rparr>;
          s = s\<lparr>g_cursor_saved_x := x, g_cursor_saved_y := y\<rparr>
      in fold (\<lambda>row. fold (\<lambda>col s.
            let pixel = cursor_bitmap ! row ! col in
            if pixel = 1 then
              VgaPutPixel (x + int col) (y + int row) (if g_cursor_invert s \<noteq> 0 then VGA_COLOR_BLACK else VGA_COLOR_WHITE) s
            else if pixel = 2 then
              VgaPutPixel (x + int col) (y + int row) (if g_cursor_invert s \<noteq> 0 then VGA_COLOR_WHITE else VGA_COLOR_BLACK) s
            else s) [0..<CURSOR_WIDTH]) [0..<CURSOR_HEIGHT] s)"

definition CursorErase :: "int \<Rightarrow> int \<Rightarrow> 'a cursor_scheme \<Rightarrow> 'a cursor_scheme" where
  "CursorErase x y s =
     (if x < 0 \<or> y < 0 then s
      else if y \<ge> 470 then s
      else fold (\<lambda>row. fold (\<lambda>col s.
             let bg = g_cursor_bg s ! (row * CURSOR_WIDTH + col)
             in VgaPutPixel (x + int col) (y + int row) bg s) [0..<CURSOR_WIDTH]) [0..<CURSOR_HEIGHT] s)"

subsection \<open>The loops as grids\<close>

text \<open>What a loop only reads may be taken as a constant.\<close>

lemma fold_fixed:
  assumes "P s = k" "\<And>i t. P t = k \<Longrightarrow> f i t = g i t \<and> P (g i t) = k"
  shows "fold f is s = fold g is s \<and> P (fold g is s) = k"
  using assms(1) by (induction "is" arbitrary: s) (simp_all add: assms(2))

lemma undrawn_cursor:
  fixes s t :: "'a cursor_scheme"
  assumes "undrawn s = undrawn t"
  shows "g_cursor_bg s = g_cursor_bg t" "g_cursor_invert s = g_cursor_invert t"
    "g_cursor_saved_x s = g_cursor_saved_x t" "g_cursor_saved_y s = g_cursor_saved_y t"
proof -
  have "g_cursor_bg u = g_cursor_bg (undrawn u)" "g_cursor_invert u = g_cursor_invert (undrawn u)"
    "g_cursor_saved_x u = g_cursor_saved_x (undrawn u)" "g_cursor_saved_y u = g_cursor_saved_y (undrawn u)"
    for u :: "'a cursor_scheme"
    by (simp_all add: undrawn_def)
  then show "g_cursor_bg s = g_cursor_bg t" "g_cursor_invert s = g_cursor_invert t"
    "g_cursor_saved_x s = g_cursor_saved_x t" "g_cursor_saved_y s = g_cursor_saved_y t"
    using assms by metis+
qed

lemma VgaPutPixel_cursor [simp]:
  "g_cursor_bg (VgaPutPixel x y c s) = g_cursor_bg s" "g_cursor_invert (VgaPutPixel x y c s) = g_cursor_invert s"
  by (rule undrawn_cursor, simp)+

definition arrow_pixel :: "int \<Rightarrow> nat \<Rightarrow> nat \<Rightarrow> u8 option" where
  "arrow_pixel invert row col =
     (if cursor_bitmap ! row ! col = 1 then Some (if invert \<noteq> 0 then VGA_COLOR_BLACK else VGA_COLOR_WHITE)
      else if cursor_bitmap ! row ! col = 2 then Some (if invert \<noteq> 0 then VGA_COLOR_WHITE else VGA_COLOR_BLACK)
      else None)"

definition cursor_saved :: "int \<Rightarrow> int \<Rightarrow> 'a cursor_scheme \<Rightarrow> 'a cursor_scheme" where
  "cursor_saved x y s = s\<lparr>g_cursor_bg := map (\<lambda>k. VgaGetPixel (x + int (k mod 8)) (y + int (k div 8)) s) [0..<96],
     g_cursor_saved_x := x, g_cursor_saved_y := y\<rparr>"

abbreviation grid :: "(nat \<Rightarrow> nat \<Rightarrow> u8 option) \<Rightarrow> int \<Rightarrow> int \<Rightarrow> nat \<Rightarrow> nat \<Rightarrow> 'a vga_scheme \<Rightarrow> 'a vga_scheme" where
  "grid f x y w h s \<equiv> fold (\<lambda>r. fold (\<lambda>i s. case f r i of Some c \<Rightarrow> VgaPutPixel (x + int i) (y + int r) c s
     | None \<Rightarrow> s) [0..<w]) [0..<h] s"

lemma save_background:
  assumes "length bg = 96"
  shows "fold (\<lambda>row. fold (\<lambda>col bg. bg[row * 8 + col := VgaGetPixel (x + int col) (y + int row) s]) [0..<8]) [0..<12] bg
    = map (\<lambda>k. VgaGetPixel (x + int (k mod 8)) (y + int (k div 8)) s) [0..<96]"
proof -
  let ?g = "\<lambda>k. VgaGetPixel (x + int (k mod 8)) (y + int (k div 8)) s"
  have "fold (\<lambda>row. fold (\<lambda>col bg. bg[row * 8 + col := VgaGetPixel (x + int col) (y + int row) s]) [0..<8]) [0..<12] bg
      = fold (\<lambda>row. fold (\<lambda>col bg. bg[row * 8 + col := ?g (row * 8 + col)]) [0..<8]) [0..<12] bg"
    by (intro fold_cong refl ext) (simp cong: fold_cong)
  also have "\<dots> = fold (\<lambda>k bg. bg[k := ?g k]) [0..<12 * 8] bg"
    by (rule fold_rows [where f = "\<lambda>k bg. bg[k := ?g k]"])
  also have "\<dots> = map ?g [0..<96]"
    using assms by (intro nth_equalityI) (simp_all add: fold_update_upt_nth [where g = ?g])
  finally show ?thesis .
qed

lemma fold2_fixed:
  assumes "P s = k" "\<And>r i t. P t = k \<Longrightarrow> f r i t = g r i t \<and> P (g r i t) = k"
  shows "fold (\<lambda>r. fold (f r) cs) rs s = fold (\<lambda>r. fold (g r) cs) rs s
    \<and> P (fold (\<lambda>r. fold (g r) cs) rs s) = k"
  using assms(1) by (rule fold_fixed [where P = P]) (rule fold_fixed [where P = P], auto simp: assms(2))

lemma CursorDraw_grid:
  assumes "length (g_cursor_bg s) = 96"
  shows "CursorDraw x y s = grid (arrow_pixel (g_cursor_invert s)) x y 8 12 (cursor_saved x y s)"
proof -
  have inv: "g_cursor_invert (cursor_saved x y s) = g_cursor_invert s" by (simp add: cursor_saved_def)
  have saved: "(s\<lparr>g_cursor_bg := fold (\<lambda>row. fold (\<lambda>col bg. bg[row * 8 + col := VgaGetPixel (x + int col) (y + int row) s])
      [0..<8]) [0..<12] (g_cursor_bg s)\<rparr>)\<lparr>g_cursor_saved_x := x, g_cursor_saved_y := y\<rparr> = cursor_saved x y s"
    unfolding save_background [OF assms] cursor_saved_def by simp
  show ?thesis
    unfolding CursorDraw_def Let_def CURSOR_WIDTH_def CURSOR_HEIGHT_def saved
    by (rule fold2_fixed [where P = g_cursor_invert and k = "g_cursor_invert s", OF inv, THEN conjunct1])
      (auto simp: arrow_pixel_def)
qed

lemma CursorErase_grid:
  assumes "0 \<le> x" "0 \<le> y" "y < 470"
  shows "CursorErase x y s = grid (\<lambda>r i. Some (g_cursor_bg s ! (r * 8 + i))) x y 8 12 s"
  using assms unfolding CursorErase_def Let_def CURSOR_WIDTH_def CURSOR_HEIGHT_def
  by (simp add: fold2_fixed [where P = g_cursor_bg and k = "g_cursor_bg s", OF refl, THEN conjunct1])

lemma CursorDraw_pixel:
  assumes "graphics_ready s" "length (g_cursor_bg s) = 96"
  shows "VgaGetPixel u v (CursorDraw x y s) =
    (if x \<le> u \<and> u < x + 8 \<and> y \<le> v \<and> v < y + 12 \<and> on_screen u v
     then (case arrow_pixel (g_cursor_invert s) (nat (v - y)) (nat (u - x)) of Some c \<Rightarrow> c | None \<Rightarrow> VgaGetPixel u v s)
     else VgaGetPixel u v s)"
proof -
  have "graphics_ready (cursor_saved x y s)" "VgaGetPixel u v (cursor_saved x y s) = VgaGetPixel u v s"
    using assms(1) by (simp_all add: cursor_saved_def graphics_ready_def VgaGetPixel_def)
  then show ?thesis
    unfolding CursorDraw_grid [OF assms(2)]
    using screen.get_grid [of "cursor_saved x y s", where f = "arrow_pixel (g_cursor_invert s)"
        and x = x and y = y and w = 8 and h = 12] by (simp split: option.split)
qed

lemma shows_shadow_saved [simp]: "shows_shadow other h (cursor_saved x y s) = shows_shadow other h s"
  by (simp add: shows_shadow_def cursor_saved_def adapter_run_def)

lemma grid_draws: "draws s (grid f x y w h s)"
  by (intro fold_draws) (auto intro: VgaPutPixel_draws draws_refl split: option.split)

subsection \<open>Properties\<close>

definition cursor_on :: cursor where
  "cursor_on = vga.extend vga_on (cursor.fields (replicate 96 0) (- 1) (- 1) 0)"

lemma cursor_on_ready: "graphics_ready cursor_on" "length (g_cursor_bg cursor_on) = 96"
  using vga_on_ready by (simp_all add: cursor_on_def graphics_ready_def vga.defs cursor.defs)

lemma cursor_on_shows: "shows_shadow other adapter_on cursor_on"
  using vga_on_shows by (simp add: cursor_on_def shows_shadow_def adapter_run_def vga.defs cursor.defs)

text \<open>
  C34: Erasing the cursor undoes drawing it, at every position from the left and top edges to the
  task bar: while it is drawn the screen shows the arrow in its place and nothing else changes,
  after \<open>CursorErase\<close> every pixel of the screen is as it was, and so is the adapter's picture.
\<close>

theorem CursorErase_undoes_CursorDraw:
  assumes "graphics_ready s" "shows_shadow other h s" "length (g_cursor_bg s) = 96"
    and "0 \<le> x" "0 \<le> y" "y < 470" "on_screen u v"
  shows "VgaGetPixel u v (CursorDraw x y s) =
      (if x \<le> u \<and> u < x + 8 \<and> y \<le> v \<and> v < y + 12
       then (case arrow_pixel (g_cursor_invert s) (nat (v - y)) (nat (u - x)) of Some c \<Rightarrow> c | None \<Rightarrow> VgaGetPixel u v s)
       else VgaGetPixel u v s)
    \<and> VgaGetPixel u v (CursorErase x y (CursorDraw x y s)) = VgaGetPixel u v s
    \<and> adapter_pixel (adapter_run other h (CursorErase x y (CursorDraw x y s))) u v = VgaGetPixel u v s AND 0x0F"
proof -
  let ?d = "CursorDraw x y s" and ?bg = "map (\<lambda>k. VgaGetPixel (x + int (k mod 8)) (y + int (k div 8)) s) [0..<96]"
  have drawn: "draws (cursor_saved x y s) ?d" unfolding CursorDraw_grid [OF assms(3)] by (rule grid_draws)
  have saved: "graphics_ready (cursor_saved x y s)" using assms(1) by (simp add: cursor_saved_def graphics_ready_def)
  then have ready: "graphics_ready ?d" using draws_ready [OF drawn] by simp
  have bg: "g_cursor_bg ?d = ?bg"
    using undrawn_cursor(1) [of ?d "cursor_saved x y s"] drawn by (simp add: draws_def cursor_saved_def)
  have erased: "CursorErase x y ?d = grid (\<lambda>r i. Some (?bg ! (r * 8 + i))) x y 8 12 ?d"
    unfolding CursorErase_grid [OF assms(4-6)] bg ..
  have cell: "?bg ! (nat (v - y) * 8 + nat (u - x)) = VgaGetPixel u v s"
    if "x \<le> u" "u < x + 8" "y \<le> v" "v < y + 12"
  proof -
    have "nat (u - x) < 8" "nat (v - y) < 12" using that by auto
    then show ?thesis using that by simp
  qed
  have restored: "VgaGetPixel u v (CursorErase x y ?d) = VgaGetPixel u v s"
    unfolding erased
    using screen.get_grid [OF ready, where f = "\<lambda>r i. Some (?bg ! (r * 8 + i))" and x = x and y = y and w = 8 and h = 12] cell
      CursorDraw_pixel [OF assms(1,3), of u v x y]
    by (auto simp del: nth_map)
  have "shows_shadow other h ?d" using drawn saved assms(2) unfolding draws_def by simp
  moreover have "draws ?d (CursorErase x y ?d)" unfolding erased by (rule grid_draws)
  ultimately have "shows_shadow other h (CursorErase x y ?d)" using ready unfolding draws_def by blast
  then have "adapter_pixel (adapter_run other h (CursorErase x y ?d)) u v = VgaGetPixel u v s AND 0x0F"
    unfolding restored [symmetric] using assms(7) by (rule adapter_pixel_shadow)
  then show ?thesis using restored CursorDraw_pixel [OF assms(1,3), of u v x y] assms(7) by simp
qed

theorem CursorErase_undoes_CursorDraw_witness:
  "VgaGetPixel 101 203 (CursorDraw 100 200 cursor_on) = VGA_COLOR_BLACK
   \<and> VgaGetPixel 100 200 (CursorErase 100 200 (CursorDraw 100 200 cursor_on)) = VgaGetPixel 100 200 cursor_on"
proof -
  have "on_screen 101 203" "on_screen 100 200" "arrow_pixel (g_cursor_invert cursor_on) 3 1 = Some VGA_COLOR_BLACK"
    by (simp_all add: on_screen_def arrow_pixel_def cursor_bitmap_def cursor_on_def vga.defs cursor.defs)
  then show ?thesis
    using CursorErase_undoes_CursorDraw [OF cursor_on_ready(1) cursor_on_shows cursor_on_ready(2), of 100 200 101 203]
      CursorErase_undoes_CursorDraw [OF cursor_on_ready(1) cursor_on_shows cursor_on_ready(2), of 100 200 100 200]
    by simp
qed

end
