(* ===== verification/Vga_Driver.thy ===== *)
theory Vga_Driver
  imports Vga_Cursor
begin

unbundle bit_operations_syntax

section \<open>The display driver\<close>

text \<open>
  Models \<open>drivers/video/vga/vga_driver.c\<close>, \<open>VgaInitializeDevice\<close> of
  \<open>drivers/video/vga/vga_init.c\<close> and \<open>drivers/hal/display.c\<close>. The driver's two routines are shown to
  keep the contract \<open>driver_code\<close> of the I/O manager, whose lemmas give the life of the driver:
  registered, one device on its list, deleted again (in \<open>Kernel_Main\<close>, which loads it).
\<close>

record display = cursor +
  g_DisplayInitialized :: bool

subsection \<open>Operations\<close>

text \<open>\<open>crtc17\<close> is the byte that \<open>VgaSetMode\<close> reads from the CRTC; \<open>dev_ext\<close> is the extension's address.\<close>

definition VgaInitializeDevice :: "u8 \<Rightarrow> u32 \<Rightarrow> 'a vga_scheme \<Rightarrow> ntstatus \<times> 'a vga_scheme" where
  "VgaInitializeDevice crtc17 dev_ext s =
     (if dev_ext = 0 then (STATUS_INVALID_PARAMETER, s)
      else let (status, s) = VgaSetMode crtc17 VGA_MODE_GRAPHICS_640x480x16 s in
        if \<not> NT_SUCCESS status then (status, s)
        else let de = (io_exts s dev_ext)\<lparr>FrameBuffer := VGA_BASE_ADDRESS, ScreenWidth := 640,
                   ScreenHeight := 480, BitsPerPixel := 4, GraphicsMode := 1,
                   CurrentMode := VGA_MODE_GRAPHICS_640x480x16\<rparr>;
                 de = de\<lparr>CurrentPalette := fold (\<lambda>i pal. pal[i := of_nat i]) [0..<16] (CurrentPalette de)\<rparr>;
                 s = s\<lparr>io_exts := (io_exts s)(dev_ext := de)\<rparr>;
                 s = VgaClearScreen VGA_COLOR_BLACK s
             in (STATUS_SUCCESS, s))"

definition VgaDriverUnload :: "u32 \<Rightarrow> 'a vga_scheme \<Rightarrow> 'a vga_scheme option" where
  "VgaDriverUnload driver s = delete_devices (DeviceObject (io_drivers s driver)) s"

definition FILE_DEVICE_VIDEO :: u32 where [const_defs]: "FILE_DEVICE_VIDEO = 0x32"

text \<open>\<open>"\Device\VGA"\<close> in 16-bit characters; the lengths are in bytes.\<close>

definition vga_device_name :: unicode_string where
  "vga_device_name = \<lparr>us_Length = 22, us_MaximumLength = 24,
     us_Buffer = Some [92, 68, 101, 118, 105, 99, 101, 92, 86, 71, 65, 0]\<rparr>"

text \<open>
  \<open>unload_addr\<close> is the address of \<open>VgaDriverUnload\<close>. The local variable \<open>DeviceObject\<close> has no value
  before the call that sets it; nothing reads the one given here.
\<close>

definition VgaDriverEntry ::
  "u8 \<Rightarrow> u32 \<Rightarrow> u32 \<Rightarrow> unicode_string \<Rightarrow> 'a vga_scheme \<Rightarrow> (ntstatus \<times> 'a vga_scheme) option" where
  "VgaDriverEntry crtc17 unload_addr driver registry_path s =
     (case IoCreateDevice driver sizeof_VGA_DEVICE_EXTENSION (Some vga_device_name) FILE_DEVICE_VIDEO 0 False
             (Some 0) s of
        (status, out, s) \<Rightarrow>
          if \<not> NT_SUCCESS status then Some (status, s)
          else let device = the out; dev_ext = DeviceExtension (io_devices s device);
                   (status, s) = VgaInitializeDevice crtc17 dev_ext s in
            if \<not> NT_SUCCESS status then map_option (\<lambda>s. (status, s)) (IoDeleteDevice device s)
            else let s = upd_driver driver (\<lambda>d. d\<lparr>DriverUnload := unload_addr\<rparr>) s;
                     s = VgaSetDeviceObject device s
                 in Some (STATUS_SUCCESS, s))"

definition HalInitializeDisplay :: "'a display_scheme \<Rightarrow> ntstatus \<times> 'a display_scheme" where
  "HalInitializeDisplay s =
     (if g_DisplayInitialized s then (STATUS_SUCCESS, s)
      else (STATUS_SUCCESS, s\<lparr>g_DisplayInitialized := True\<rparr>))"

definition HalDisplayString :: "string option \<Rightarrow> 'a display_scheme \<Rightarrow> 'a display_scheme" where
  "HalDisplayString str s = (if str = None then s else s)"

text \<open>The three out-parameters, \<open>None\<close> for a null pointer and otherwise the variable's value.\<close>

definition HalQueryDisplayParameters ::
  "u32 option \<Rightarrow> u32 option \<Rightarrow> u32 option \<Rightarrow> 'a vga_scheme
    \<Rightarrow> ntstatus \<times> u32 option \<times> u32 option \<times> u32 option" where
  "HalQueryDisplayParameters width height depth s =
     (if width = None \<or> height = None \<or> depth = None then (STATUS_INVALID_PARAMETER, width, height, depth)
      else let device = VgaGetDeviceObject s in
        if device = 0 then (STATUS_DEVICE_DOES_NOT_EXIST, width, height, depth)
        else let dev_ext = DeviceExtension (io_devices s device) in
          if dev_ext = 0 then (STATUS_INVALID_PARAMETER, width, height, depth)
          else (STATUS_SUCCESS, Some (ScreenWidth (io_exts s dev_ext)), Some (ScreenHeight (io_exts s dev_ext)),
                Some (BitsPerPixel (io_exts s dev_ext))))"

subsection \<open>Initialising the device\<close>

lemma undrawn_ports [simp]:
  "undrawn (vga_outb p v s) = undrawn s" "undrawn (vga_inb p s) = undrawn s"
  "undrawn (VgaWriteCrtc i v s) = undrawn s" "undrawn (VgaWriteGraphicsController i v s) = undrawn s"
  "undrawn (VgaSetPalette i r g b s) = undrawn s"
  by (simp_all add: undrawn_def vga_outb_def vga_inb_def vga_event_def outb_def VgaWriteCrtc_def
      VgaWriteGraphicsController_def VgaSetPalette_def Let_def)

lemma VgaInitializePalette_undrawn [simp]: "undrawn (VgaInitializePalette s) = undrawn s"
  unfolding VgaInitializePalette_def Let_def by (simp only: undrawn_ports)

lemma VgaSetMode_undrawn [simp]: "undrawn (snd (VgaSetMode crtc17 mode s)) = undrawn s"
  by (simp add: VgaSetMode_def Let_def fold_keeps [where P = undrawn])

lemma VgaSetMode_memory: "phys_mem (snd (VgaSetMode crtc17 mode s)) = phys_mem s"
proof -
  have p: "phys_mem (vga_outb p v s) = phys_mem s" "phys_mem (vga_inb p s) = phys_mem s"
    "phys_mem (VgaWriteCrtc i v s) = phys_mem s" "phys_mem (VgaWriteGraphicsController i v s) = phys_mem s"
    "phys_mem (VgaSetPalette i r g b s) = phys_mem s" for p v i r g b and s :: "'a vga_scheme"
    by (simp_all add: vga_outb_def vga_inb_def vga_event_def outb_def VgaWriteCrtc_def
        VgaWriteGraphicsController_def VgaSetPalette_def Let_def)
  then have "phys_mem (VgaInitializePalette s) = phys_mem s" for s :: "'a vga_scheme"
    unfolding VgaInitializePalette_def Let_def by (simp only:)
  with p show ?thesis by (simp add: VgaSetMode_def Let_def fold_keeps [where P = phys_mem])
qed

lemma VgaSetMode_succeeds: "fst (VgaSetMode crtc17 VGA_MODE_GRAPHICS_640x480x16 s) = STATUS_SUCCESS"
  by (simp add: VgaSetMode_def Let_def)

text \<open>The extension after the initialisation.\<close>

definition graphics_extension :: vga_device_extension where
  "graphics_extension = \<lparr>FrameBuffer = VGA_BASE_ADDRESS, ScreenWidth = 640, ScreenHeight = 480,
     BitsPerPixel = 4, GraphicsMode = 1, CurrentMode = 0x12, CurrentPalette = map of_nat [0..<16]\<rparr>"

lemma success [simp]: "NT_SUCCESS STATUS_SUCCESS" "\<not> NT_SUCCESS STATUS_INSUFFICIENT_RESOURCES"
  by (simp_all add: NT_SUCCESS_def const_defs)

lemma undrawn_io_fields:
  assumes "undrawn s = undrawn t"
  shows "get_slot s = get_slot t" "io_drivers s = io_drivers t" "g_DriverCount s = g_DriverCount t"
    "heap_current s = heap_current t" "g_DriverList s = g_DriverList t"
proof -
  have same: "io_drivers u = io_drivers (undrawn u)" "io_devices u = io_devices (undrawn u)"
    "g_DriverList u = g_DriverList (undrawn u)" "g_DriverCount u = g_DriverCount (undrawn u)"
    "heap_current u = heap_current (undrawn u)" for u :: "'a vga_scheme"
    by (simp_all add: undrawn_def)
  then have eq: "io_drivers s = io_drivers t" "io_devices s = io_devices t" "g_DriverList s = g_DriverList t"
    "g_DriverCount s = g_DriverCount t" "heap_current s = heap_current t" using assms by metis+
  then show "io_drivers s = io_drivers t" "g_DriverCount s = g_DriverCount t" "heap_current s = heap_current t"
    "g_DriverList s = g_DriverList t"
    by simp_all
  show "get_slot s = get_slot t"
  proof
    fix c show "get_slot s c = get_slot t c" using eq by (cases c) simp_all
  qed
qed

lemma VgaInitializeDevice_result:
  assumes "dev_ext \<noteq> 0" "length (CurrentPalette (io_exts s dev_ext)) = 16"
  obtains t where "VgaInitializeDevice crtc17 dev_ext s = (STATUS_SUCCESS, t)"
    "undrawn t = undrawn (s\<lparr>io_exts := (io_exts s)(dev_ext := graphics_extension)\<rparr>)"
    "g_VgaDevice s = 0 \<Longrightarrow> planes (adapter_run other h t) = planes (adapter_run other h s)
       \<and> plain_write (adapter_run other h t)"
    "screen_mapped s \<Longrightarrow> phys_mem t = phys_mem s"
proof -
  let ?m = "snd (VgaSetMode crtc17 VGA_MODE_GRAPHICS_640x480x16 s)"
  let ?e = "?m\<lparr>io_exts := (io_exts ?m)(dev_ext := graphics_extension)\<rparr>"
  have m: "undrawn ?m = undrawn s" by simp
  have exts: "io_exts ?m = io_exts s" "g_VgaDevice ?m = g_VgaDevice s" using undrawn_parts [OF m] by simp_all
  have "fold (\<lambda>i pal. pal[i := of_nat i]) [0..<16] (CurrentPalette (io_exts s dev_ext)) = map of_nat [0..<16]"
    using assms(2) by (intro nth_equalityI) (simp_all add: fold_update_upt_nth [where g = of_nat])
  moreover have de: "(io_exts s dev_ext)\<lparr>FrameBuffer := VGA_BASE_ADDRESS, ScreenWidth := 640, ScreenHeight := 480,
      BitsPerPixel := 4, GraphicsMode := 1, CurrentMode := 0x12, CurrentPalette := map of_nat [0..<16]\<rparr> = graphics_extension"
    by (cases "io_exts s dev_ext") (simp add: graphics_extension_def)
  ultimately have res: "VgaInitializeDevice crtc17 dev_ext s = (STATUS_SUCCESS, VgaClearScreen VGA_COLOR_BLACK ?e)"
    using assms(1) VgaSetMode_succeeds [of crtc17 s] exts de
    by (simp add: VgaInitializeDevice_def Let_def VGA_MODE_GRAPHICS_640x480x16_def case_prod_unfold)
  have undrawn_exts: "undrawn (u\<lparr>io_exts := x\<rparr>) = (undrawn u)\<lparr>io_exts := x\<rparr>" for u :: "'a vga_scheme" and x
    by (simp add: undrawn_def)
  have mapped: "screen_mapped ?e" if "screen_mapped s"
    using that undrawn_parts [OF m] by (auto simp: screen_mapped_def graphics_ready_def graphics_extension_def)
  show ?thesis
  proof (rule that [OF res])
    show "phys_mem (VgaClearScreen VGA_COLOR_BLACK ?e) = phys_mem s" if "screen_mapped s"
      using VgaClearScreen_memory [OF mapped [OF that]] VgaSetMode_memory [of crtc17 VGA_MODE_GRAPHICS_640x480x16 s] by simp
    show "undrawn (VgaClearScreen VGA_COLOR_BLACK ?e) = undrawn (s\<lparr>io_exts := (io_exts s)(dev_ext := graphics_extension)\<rparr>)"
      unfolding VgaClearScreen_undrawn undrawn_exts m exts ..
    assume "g_VgaDevice s = 0"
    then have "VgaClearScreen VGA_COLOR_BLACK ?e = ?e" using exts by (simp add: VgaClearScreen_def)
    moreover have "adapter_run other h ?e = adapter_run other h ?m" by (simp add: adapter_run_def)
    ultimately show "planes (adapter_run other h (VgaClearScreen VGA_COLOR_BLACK ?e)) = planes (adapter_run other h s)
        \<and> plain_write (adapter_run other h (VgaClearScreen VGA_COLOR_BLACK ?e))"
      using VgaSetMode_programs [of crtc17 s other h] unfolding VGA_MODE_GRAPHICS_640x480x16_def Let_def by simp
  qed
qed

lemma VgaDriverEntry_result:
  assumes "heap_fits s" "driver \<noteq> 0" "driver < heap_current s" "device_list s driver []"
  obtains "VgaDriverEntry crtc17 unload_addr driver registry s = Some (STATUS_INSUFFICIENT_RESOURCES, s)"
  | t where "VgaDriverEntry crtc17 unload_addr driver registry s = Some (STATUS_INSUFFICIENT_RESOURCES, t)"
      "heap_current s \<le> heap_current t" "\<And>c. c \<noteq> Next_Device (heap_current s) \<Longrightarrow> get_slot t c = get_slot s c"
      "io_drivers t = io_drivers s" "g_DriverCount t = g_DriverCount s"
  | t where "VgaDriverEntry crtc17 unload_addr driver registry s = Some (STATUS_SUCCESS, t)"
      "graphics_ready t" "g_VgaDevice t = heap_current s" "heap_current s < heap_current t"
      "device_list t driver [heap_current s]" "DriverUnload (io_drivers t driver) = unload_addr"
      "\<And>c. c = Driver_List \<or> c \<in> range Next_Driver \<Longrightarrow> get_slot t c = get_slot s c"
      "g_DriverCount t = g_DriverCount s"
      "g_VgaDevice s = 0 \<Longrightarrow> planes (adapter_run other h t) = planes (adapter_run other h s)
         \<and> plain_write (adapter_run other h t)"
proof (rule IoCreateDevice_result [OF assms(1,2), of sizeof_VGA_DEVICE_EXTENSION "Some vga_device_name"
      FILE_DEVICE_VIDEO 0 False 0])
  show "0 < unat sizeof_VGA_DEVICE_EXTENSION" "unat sizeof_VGA_DEVICE_EXTENSION \<le> 0x10000000" by (simp_all add: const_defs)
next
  assume "IoCreateDevice driver sizeof_VGA_DEVICE_EXTENSION (Some vga_device_name) FILE_DEVICE_VIDEO 0 False (Some 0) s
      = (STATUS_INSUFFICIENT_RESOURCES, Some 0, s)"
  then show ?thesis using that(1) by (simp add: VgaDriverEntry_def)
next
  fix c
  assume "IoCreateDevice driver sizeof_VGA_DEVICE_EXTENSION (Some vga_device_name) FILE_DEVICE_VIDEO 0 False (Some 0) s
      = (STATUS_INSUFFICIENT_RESOURCES, Some 0,
         s\<lparr>heap_current := c, io_devices := (io_devices s)(heap_current s := zero_device)\<rparr>)" "heap_current s < c"
  moreover have "get_slot (s\<lparr>heap_current := c, io_devices := (io_devices s)(heap_current s := zero_device)\<rparr>) q
      = get_slot s q" if "q \<noteq> Next_Device (heap_current s)" for q
    using that by (cases q) simp_all
  ultimately show ?thesis using that(2) by (simp add: VgaDriverEntry_def)
next
  fix ext c
  define d where "d = heap_current s"
  define s1 where "s1 = s\<lparr>heap_current := c, io_exts := (io_exts s)(ext := zero_extension),
      io_devices := (io_devices s)(d := new_device driver ext (Some vga_device_name) FILE_DEVICE_VIDEO 0
        (DeviceObject (io_drivers s driver))),
      io_drivers := (io_drivers s)(driver := (io_drivers s driver)\<lparr>DeviceObject := d\<rparr>)\<rparr>"
  assume "IoCreateDevice driver sizeof_VGA_DEVICE_EXTENSION (Some vga_device_name) FILE_DEVICE_VIDEO 0 False (Some 0) s
      = (STATUS_SUCCESS, Some (heap_current s), s\<lparr>heap_current := c, io_exts := (io_exts s)(ext := zero_extension),
           io_devices := (io_devices s)(heap_current s :=
             new_device driver ext (Some vga_device_name) FILE_DEVICE_VIDEO 0 (DeviceObject (io_drivers s driver))),
           io_drivers := (io_drivers s)(driver := (io_drivers s driver)\<lparr>DeviceObject := heap_current s\<rparr>)\<rparr>)"
    and lt: "heap_current s < ext" "ext < c" and nz: "heap_current s \<noteq> 0"
  then have create: "IoCreateDevice driver sizeof_VGA_DEVICE_EXTENSION (Some vga_device_name) FILE_DEVICE_VIDEO 0 False
      (Some 0) s = (STATUS_SUCCESS, Some d, s1)" unfolding s1_def d_def by simp
  have ext: "DeviceExtension (io_devices s1 d) = ext" "length (CurrentPalette (io_exts s1 ext)) = 16" "ext \<noteq> 0"
    using lt(1) by (auto simp: s1_def new_device_def zero_extension_def)
  have run: "adapter_run other h s1 = adapter_run other h s" "g_VgaDevice s1 = g_VgaDevice s"
    by (simp_all add: s1_def adapter_run_def)
  obtain t where t: "VgaInitializeDevice crtc17 ext s1 = (STATUS_SUCCESS, t)"
    "undrawn t = undrawn (s1\<lparr>io_exts := (io_exts s1)(ext := graphics_extension)\<rparr>)"
    "g_VgaDevice s = 0 \<Longrightarrow> planes (adapter_run other h t) = planes (adapter_run other h s)
       \<and> plain_write (adapter_run other h t)"
    using VgaInitializeDevice_result [OF ext(3,2), of crtc17 other h] unfolding run by blast
  note parts = undrawn_parts [OF t(2)] undrawn_io_fields [OF t(2)]
  define u where "u = VgaSetDeviceObject d (upd_driver driver (\<lambda>d. d\<lparr>DriverUnload := unload_addr\<rparr>) t)"
  have entry: "VgaDriverEntry crtc17 unload_addr driver registry s = Some (STATUS_SUCCESS, u)"
    by (simp add: VgaDriverEntry_def create ext(1) t(1) Let_def u_def)
  have slots: "get_slot u q = get_slot s1 q" for q
    using parts by (cases q) (auto simp: u_def VgaSetDeviceObject_def upd_driver_def)
  have zero: "DeviceObject (io_drivers s driver) = 0" using assms(4) by (simp add: device_list_def)
  show ?thesis
  proof (rule that(3) [OF entry])
    show "graphics_ready u" "g_VgaDevice u = heap_current s"
      using parts ext nz by (simp_all add: graphics_ready_def u_def VgaSetDeviceObject_def upd_driver_def
          graphics_extension_def d_def)
    show "heap_current s < heap_current u" "g_DriverCount u = g_DriverCount s"
      "DriverUnload (io_drivers u driver) = unload_addr"
      using parts lt by (auto simp: u_def VgaSetDeviceObject_def upd_driver_def s1_def)
    show "device_list u driver [heap_current s]"
      using parts lt nz zero by (auto simp: device_list_def slots s1_def new_device_def d_def)
        (auto simp: u_def VgaSetDeviceObject_def upd_driver_def s1_def new_device_def d_def)
    show "get_slot u q = get_slot s q" if "q = Driver_List \<or> q \<in> range Next_Driver" for q
      using that by (auto simp: slots s1_def)
    show "planes (adapter_run other h u) = planes (adapter_run other h s) \<and> plain_write (adapter_run other h u)"
      if "g_VgaDevice s = 0"
      using t(3) [OF that] by (simp add: u_def VgaSetDeviceObject_def upd_driver_def adapter_run_def)
  qed
qed

subsection \<open>The driver keeps the contract\<close>

text \<open>What the code at an address does: the driver's two routines are at \<open>entry\<close> and \<open>exit\<close>.\<close>

definition vga_init_at ::
  "u8 \<Rightarrow> u32 \<Rightarrow> u32 \<Rightarrow> u32 \<Rightarrow> u32 \<Rightarrow> unicode_string \<Rightarrow> 'a vga_scheme \<Rightarrow> (ntstatus \<times> 'a vga_scheme) option" where
  "vga_init_at crtc17 entry exit addr driver name s =
     (if addr = entry then VgaDriverEntry crtc17 exit driver name s else None)"

definition vga_unload_at :: "u32 \<Rightarrow> u32 \<Rightarrow> u32 \<Rightarrow> 'a vga_scheme \<Rightarrow> 'a vga_scheme option" where
  "vga_unload_at exit addr driver s = (if addr = exit then VgaDriverUnload driver s else None)"

interpretation vga_code: driver_code "vga_init_at crtc17 entry exit" "vga_unload_at exit" entry exit
  for crtc17 entry exit
proof unfold_locales
  fix s :: "'a vga_scheme" and driver name
  assume "heap_fits s" "driver \<noteq> 0" "driver < heap_current s" and none: "device_list s driver []"
    and "DriverUnload (io_drivers s driver) = 0"
  show "\<exists>status s' ds. vga_init_at crtc17 entry exit entry driver name s = Some (status, s')
      \<and> heap_current s \<le> heap_current s'
      \<and> (\<forall>c. c = Driver_List \<or> c \<in> range Next_Driver \<longrightarrow> get_slot s' c = get_slot s c)
      \<and> g_DriverCount s' = g_DriverCount s
      \<and> (NT_SUCCESS status \<longrightarrow> device_list s' driver ds \<and> DriverUnload (io_drivers s' driver) \<in> {0, exit})"
  proof (rule VgaDriverEntry_result [OF \<open>heap_fits s\<close> \<open>driver \<noteq> 0\<close> \<open>driver < heap_current s\<close> none,
        of crtc17 exit name _ "\<lambda>h _ _. planes h" adapter_on])
    assume "VgaDriverEntry crtc17 exit driver name s = Some (STATUS_INSUFFICIENT_RESOURCES, s)"
    then show ?thesis by (simp add: vga_init_at_def)
  next
    fix t
    assume "VgaDriverEntry crtc17 exit driver name s = Some (STATUS_INSUFFICIENT_RESOURCES, t)"
      "heap_current s \<le> heap_current t" "\<And>c. c \<noteq> Next_Device (heap_current s) \<Longrightarrow> get_slot t c = get_slot s c"
      "g_DriverCount t = g_DriverCount s"
    then show ?thesis by (auto simp: vga_init_at_def simp del: get_slot.simps)
  next
    fix t
    assume "VgaDriverEntry crtc17 exit driver name s = Some (STATUS_SUCCESS, t)"
      "heap_current s < heap_current t" "device_list t driver [heap_current s]"
      "DriverUnload (io_drivers t driver) = exit"
      "\<And>c. c = Driver_List \<or> c \<in> range Next_Driver \<Longrightarrow> get_slot t c = get_slot s c"
      "g_DriverCount t = g_DriverCount s"
    then show ?thesis by (intro exI [of _ STATUS_SUCCESS] exI [of _ t] exI [of _ "[heap_current s]"])
        (auto simp: vga_init_at_def)
  qed
next
  fix s :: "'a vga_scheme" and driver
  assume "device_list s driver []"
  then have "delete_devices (DeviceObject (io_drivers s driver)) s = Some s"
    by (subst delete_devices.simps) (simp add: device_list_def)
  then show "\<exists>s'. vga_unload_at exit exit driver s = Some s' \<and> heap_current s \<le> heap_current s'
      \<and> get_slot s' = get_slot s \<and> g_DriverCount s' = g_DriverCount s"
    by (simp add: vga_unload_at_def VgaDriverUnload_def)
qed

subsection \<open>Properties\<close>

text \<open>
  \<open>VgaDriverEntry\<close>, called for a new driver with a heap below 3.5 GB, returns; when it succeeds
  the driver has exactly one device, which drawing finds in the 640 by 480 graphics mode, and its
  unload routine is set. But its clearing of the screen has no effect on the first call: the device
  is made known to the drawing code only afterwards, so the adapter's picture is the one found.
\<close>

theorem VgaDriverEntry_sets_up_device:
  assumes "heap_fits s" "driver \<noteq> 0" "driver < heap_current s" "device_list s driver []"
  shows "\<exists>status t. VgaDriverEntry crtc17 unload_addr driver registry s = Some (status, t)
    \<and> status \<in> {STATUS_SUCCESS, STATUS_INSUFFICIENT_RESOURCES}
    \<and> (status = STATUS_SUCCESS \<longrightarrow> graphics_ready t \<and> device_list t driver [g_VgaDevice t]
        \<and> DriverUnload (io_drivers t driver) = unload_addr
        \<and> (g_VgaDevice s = 0 \<longrightarrow> planes (adapter_run other h t) = planes (adapter_run other h s)))"
proof (rule VgaDriverEntry_result [OF assms, of crtc17 unload_addr registry _ other h])
qed (auto simp: const_defs)

definition vga_boot :: vga where
  "vga_boot = io.extend one_device (vga.fields 0 (\<lambda>_. 0) [])"

lemma vga_boot_ready:
  "heap_fits vga_boot" "driver_list vga_boot [0x200000]" "heap_current vga_boot = 0x200200"
  by (simp_all add: vga_boot_def heap_fits_def heap_ok_def aligned4_def driver_list_def one_device_def io_reset_def
      upd_device_def upd_driver_def zero_driver_def io.defs proc.defs vga.defs)

theorem VgaDriverEntry_sets_up_device_witness:
  "\<exists>status t. VgaDriverEntry 0 0x10500 0x200004 vga_device_name vga_boot = Some (status, t)
    \<and> (status = STATUS_SUCCESS \<longrightarrow> graphics_ready t \<and> device_list t 0x200004 [g_VgaDevice t])"
proof -
  have "device_list vga_boot 0x200004 []"
    by (simp add: device_list_def vga_boot_def one_device_def io_reset_def upd_device_def upd_driver_def
        zero_driver_def io.defs proc.defs vga.defs)
  from VgaDriverEntry_sets_up_device [OF vga_boot_ready(1) _ _ this, of 0 "0x10500" vga_device_name
      "\<lambda>h _ _. planes h" adapter_on]
  show ?thesis by (auto simp: vga_boot_ready(3))
qed

text \<open>
  \<open>HalQueryDisplayParameters\<close> gives the size and the depth of the display once the driver is set
  up, an error without a device or with a null out-parameter, and then writes nothing.
\<close>

theorem HalQueryDisplayParameters_results:
  "graphics_ready s \<Longrightarrow> HalQueryDisplayParameters (Some w) (Some h) (Some d) s
      = (STATUS_SUCCESS, Some 640, Some 480, Some (BitsPerPixel (io_exts s (vga_extension s))))
    \<and> HalQueryDisplayParameters (Some w) None (Some d) s = (STATUS_INVALID_PARAMETER, Some w, None, Some d)
    \<and> HalQueryDisplayParameters (Some w) (Some h) (Some d) (VgaSetDeviceObject 0 s)
      = (STATUS_DEVICE_DOES_NOT_EXIST, Some w, Some h, Some d)"
  by (simp add: HalQueryDisplayParameters_def Let_def graphics_ready_def VgaGetDeviceObject_def VgaSetDeviceObject_def)

theorem HalQueryDisplayParameters_results_witness:
  "HalQueryDisplayParameters (Some 0) (Some 0) (Some 0) vga_on = (STATUS_SUCCESS, Some 640, Some 480, Some 4)"
  using HalQueryDisplayParameters_results [OF vga_on_ready, of 0 0 0] by (simp add: vga_on_def)

end
