(* ===== verification/Ps2_Mouse.thy ===== *)
theory Ps2_Mouse
  imports Vga_Driver
begin

unbundle bit_operations_syntax

section \<open>The mouse\<close>

text \<open>
  Models \<open>drivers/input/ps2mouse.c\<close>. \<open>ps2_in\<close> is the sequence of the bytes the next port reads give,
  whatever the port, so a statement about every state is one about every behaviour of the
  controller. The waiting loops run at most 100000 times; their counter is the recursion's.
\<close>

record mouse_state =
  mouse_x :: int
  mouse_y :: int
  mouse_buttons :: int
  mouse_visible :: int

record mouse = display +
  g_mouse :: mouse_state
  ps2_in :: "nat \<Rightarrow> u8"

subsection \<open>Operations\<close>

text \<open>\<open>inb(port)\<close>\<close>

definition ps2_inb :: "u16 \<Rightarrow> 'a mouse_scheme \<Rightarrow> u8 \<times> 'a mouse_scheme" where
  "ps2_inb port s = (ps2_in s 0, s\<lparr>ps2_in := (\<lambda>n. ps2_in s (n + 1))\<rparr>)"

primrec wait_write :: "nat \<Rightarrow> 'a mouse_scheme \<Rightarrow> 'a mouse_scheme" where
  "wait_write 0 s = s"
| "wait_write (Suc timeout) s =
     (let (v, s) = ps2_inb 0x64 s in if v AND 0x02 \<noteq> 0 then wait_write timeout s else s)"

primrec wait_read :: "nat \<Rightarrow> 'a mouse_scheme \<Rightarrow> 'a mouse_scheme" where
  "wait_read 0 s = s"
| "wait_read (Suc timeout) s =
     (let (v, s) = ps2_inb 0x64 s in if v AND 0x01 = 0 then wait_read timeout s else s)"

definition ps2_wait_write :: "'a mouse_scheme \<Rightarrow> 'a mouse_scheme" where
  "ps2_wait_write s = wait_write 100000 s"

definition ps2_wait_read :: "'a mouse_scheme \<Rightarrow> 'a mouse_scheme" where
  "ps2_wait_read s = wait_read 100000 s"

definition mouse_write :: "u8 \<Rightarrow> 'a mouse_scheme \<Rightarrow> 'a mouse_scheme" where
  "mouse_write cmd s =
     (let s = ps2_wait_write s; s = outb 0x64 0xD4 s; s = ps2_wait_write s in outb 0x60 cmd s)"

definition mouse_read :: "'a mouse_scheme \<Rightarrow> u8 \<times> 'a mouse_scheme" where
  "mouse_read s = (let s = ps2_wait_read s in ps2_inb 0x60 s)"

definition MouseInit :: "'a mouse_scheme \<Rightarrow> 'a mouse_scheme" where
  "MouseInit s =
     (let (m, s) = ps2_inb 0x21 s;
          s = outb 0x21 (m AND NOT 0x02) s;
          s = ps2_wait_write s;
          s = outb 0x64 0xA8 s;
          s = ps2_wait_write s;
          s = outb 0x64 0x20 s;
          s = ps2_wait_read s;
          (status, s) = ps2_inb 0x60 s;
          status = status OR 0x02;
          s = ps2_wait_write s;
          s = outb 0x64 0x60 s;
          s = ps2_wait_write s;
          s = outb 0x60 status s;
          s = mouse_write 0xFF s;
          s = snd (mouse_read s);
          s = snd (mouse_read s);
          s = snd (mouse_read s);
          s = mouse_write 0xF4 s;
          s = snd (mouse_read s)
      in s\<lparr>g_mouse := \<lparr>mouse_x = 320, mouse_y = 240, mouse_buttons = 0, mouse_visible = 1\<rparr>\<rparr>)"

text \<open>\<open>state\<close> is \<open>None\<close> for a null pointer and otherwise what it points to.\<close>

definition MouseRead :: "mouse_state option \<Rightarrow> 'a mouse_scheme \<Rightarrow> mouse_state option \<times> 'a mouse_scheme" where
  "MouseRead state s =
     (let (v, s) = ps2_inb 0x64 s in
      if v AND 0x01 = 0 then (state, s)
      else let (flags, s) = ps2_inb 0x60 s; (v, s) = ps2_inb 0x64 s in
        if v AND 0x01 = 0 then (state, s)
        else let (dx, s) = ps2_inb 0x60 s; (v, s) = ps2_inb 0x64 s in
          if v AND 0x01 = 0 then (state, s)
          else let (dy, s) = ps2_inb 0x60 s;
                   m = g_mouse s;
                   m = m\<lparr>mouse_x := mouse_x m + sint dx\<rparr>;
                   m = m\<lparr>mouse_y := mouse_y m - sint dy\<rparr>;
                   m = (if mouse_x m < 0 then m\<lparr>mouse_x := 0\<rparr> else m);
                   m = (if mouse_x m > 631 then m\<lparr>mouse_x := 631\<rparr> else m);
                   m = (if mouse_y m < 0 then m\<lparr>mouse_y := 0\<rparr> else m);
                   m = (if mouse_y m > 468 then m\<lparr>mouse_y := 468\<rparr> else m);
                   m = m\<lparr>mouse_buttons := uint (flags AND 0x07)\<rparr>
               in (map_option (\<lambda>_. m) state, s\<lparr>g_mouse := m\<rparr>))"

definition MouseGetState :: "'a mouse_scheme \<Rightarrow> mouse_state" where
  "MouseGetState s = g_mouse s"

subsection \<open>The position\<close>

text \<open>Where the cursor can be: its 8 by 12 arrow ends inside the screen.\<close>

definition mouse_ok :: "mouse_state \<Rightarrow> bool" where
  "mouse_ok m \<longleftrightarrow> 0 \<le> mouse_x m \<and> mouse_x m \<le> 631 \<and> 0 \<le> mouse_y m \<and> mouse_y m \<le> 468
     \<and> 0 \<le> mouse_buttons m \<and> mouse_buttons m \<le> 7"

text \<open>The three status reads of a packet, each before its byte, all with the output buffer full.\<close>

definition packet_ready :: "'a mouse_scheme \<Rightarrow> bool" where
  "packet_ready s \<longleftrightarrow> ps2_in s 0 AND 1 \<noteq> 0 \<and> ps2_in s 2 AND 1 \<noteq> 0 \<and> ps2_in s 4 AND 1 \<noteq> 0"

definition moved :: "u8 \<Rightarrow> u8 \<Rightarrow> u8 \<Rightarrow> mouse_state \<Rightarrow> mouse_state" where
  "moved flags dx dy m = m\<lparr>mouse_x := max 0 (min 631 (mouse_x m + sint dx)),
     mouse_y := max 0 (min 468 (mouse_y m - sint dy)), mouse_buttons := uint (flags AND 7)\<rparr>"

lemma MouseRead_result:
  "g_mouse (snd (MouseRead st s)) =
     (if packet_ready s then moved (ps2_in s 1) (ps2_in s 3) (ps2_in s 5) (g_mouse s) else g_mouse s)"
  by (cases "g_mouse s")
    (simp add: MouseRead_def ps2_inb_def packet_ready_def moved_def Let_def eval_nat_numeral max_def min_def)

lemma moved_ok: "mouse_ok (moved flags dx dy m)"
proof -
  have "flags AND 7 \<le> 7" by (rule word_and_le1)
  then have "uint (flags AND 7) \<le> 7" by (simp add: word_le_def)
  then show ?thesis by (simp add: mouse_ok_def moved_def)
qed

text \<open>
  Whatever bytes the controller gives, after \<open>MouseInit\<close> the mouse is in the middle of the
  screen, and \<open>MouseRead\<close> moves it by a packet's signed offsets, y upwards, clamped to the places
  where the arrow fits, and only when all three bytes of the packet are there; the position stays
  within those bounds.
\<close>

theorem MouseRead_keeps_position_in_bounds:
  assumes "mouse_ok (g_mouse s)"
  shows "mouse_ok (MouseGetState (MouseInit s))
    \<and> MouseGetState (snd (MouseRead st s)) =
        (if packet_ready s then moved (ps2_in s 1) (ps2_in s 3) (ps2_in s 5) (g_mouse s) else g_mouse s)
    \<and> mouse_ok (MouseGetState (snd (MouseRead st s)))"
  using assms unfolding MouseGetState_def MouseRead_result
  by (simp add: moved_ok) (simp add: MouseInit_def Let_def case_prod_unfold mouse_ok_def)

definition mouse_on :: mouse where
  "mouse_on = display.extend (cursor.extend cursor_on (display.fields True))
     (mouse.fields \<lparr>mouse_x = 2, mouse_y = 460, mouse_buttons = 0, mouse_visible = 1\<rparr>
       (\<lambda>n. [1, 0x09, 1, 0xF0, 1, 0xE0] ! n))"

theorem MouseRead_keeps_position_in_bounds_witness:
  "MouseGetState (snd (MouseRead None mouse_on)) = \<lparr>mouse_x = 0, mouse_y = 468, mouse_buttons = 1, mouse_visible = 1\<rparr>"
  using MouseRead_keeps_position_in_bounds [of mouse_on None]
  by (simp add: mouse_on_def mouse_ok_def packet_ready_def moved_def vga.defs cursor.defs display.defs mouse.defs)

end
