(* ===== verification/Gui_Draw.thy ===== *)
theory Gui_Draw
  imports Ps2_Mouse "HOL-Library.Signed_Division"
begin

unbundle bit_operations_syntax

section \<open>Windows, buttons and the desktop\<close>

text \<open>
  Models the drawing part of \<open>drivers/video/vga/vga_gui.c\<close> and the window type of \<open>include/gui.h\<close>.
  The text of a title is \<open>None\<close> for a null pointer. \<open>paints\<close> says that what an operation puts on the
  screen does not depend on the rest of the machine: it is how the desktop is shown to
  cover whatever was there.
\<close>

record gui_window =
  win_x :: int
  win_y :: int
  win_w :: int
  win_h :: int
  win_title :: "string option"
  win_visible :: int

definition GUI_COLOR_DESKTOP :: u8 where [const_defs]: "GUI_COLOR_DESKTOP = VGA_COLOR_CYAN"
definition GUI_COLOR_TITLEBAR :: u8 where [const_defs]: "GUI_COLOR_TITLEBAR = VGA_COLOR_BLUE"
definition GUI_COLOR_TITLEBAR_TXT :: u8 where [const_defs]: "GUI_COLOR_TITLEBAR_TXT = VGA_COLOR_WHITE"
definition GUI_COLOR_WINDOW_BG :: u8 where [const_defs]: "GUI_COLOR_WINDOW_BG = VGA_COLOR_LIGHT_GRAY"
definition GUI_COLOR_BORDER :: u8 where [const_defs]: "GUI_COLOR_BORDER = VGA_COLOR_DARK_GRAY"
definition GUI_COLOR_BUTTON_BG :: u8 where [const_defs]: "GUI_COLOR_BUTTON_BG = VGA_COLOR_LIGHT_GRAY"
definition GUI_COLOR_BUTTON_TXT :: u8 where [const_defs]: "GUI_COLOR_BUTTON_TXT = VGA_COLOR_BLACK"
definition GUI_COLOR_SHADOW :: u8 where [const_defs]: "GUI_COLOR_SHADOW = VGA_COLOR_DARK_GRAY"
definition TITLEBAR_HEIGHT :: int where [const_defs]: "TITLEBAR_HEIGHT = 10"
definition BORDER_SIZE :: int where [const_defs]: "BORDER_SIZE = 2"
definition BUTTON_W :: int where [const_defs]: "BUTTON_W = 16"
definition BUTTON_H :: int where [const_defs]: "BUTTON_H = 8"

subsection \<open>Operations\<close>

definition GuiDrawHLine :: "int \<Rightarrow> int \<Rightarrow> int \<Rightarrow> u8 \<Rightarrow> 'a vga_scheme \<Rightarrow> 'a vga_scheme" where
  "GuiDrawHLine x y len color s = VgaFillRect x y len 1 color s"

definition GuiDrawVLine :: "int \<Rightarrow> int \<Rightarrow> int \<Rightarrow> u8 \<Rightarrow> 'a vga_scheme \<Rightarrow> 'a vga_scheme" where
  "GuiDrawVLine x y len color s = VgaFillRect x y 1 len color s"

text \<open>The division in C rounds towards zero, as \<open>sdiv\<close> does; the sums of \<open>INT\<close> values wrap.\<close>

definition GuiDrawButton ::
  "int \<Rightarrow> int \<Rightarrow> int \<Rightarrow> int \<Rightarrow> string option \<Rightarrow> int \<Rightarrow> 'a vga_scheme \<Rightarrow> 'a vga_scheme" where
  "GuiDrawButton x y w h label pressed s =
     (let s = VgaFillRect x y w h GUI_COLOR_BUTTON_BG s;
          s = (if pressed = 0 then
                 (let s = GuiDrawHLine x y w VGA_COLOR_WHITE s;
                      s = GuiDrawVLine x y h VGA_COLOR_WHITE s;
                      s = GuiDrawHLine x (INT32 (y + h - 1)) w GUI_COLOR_SHADOW s
                  in GuiDrawVLine (INT32 (x + w - 1)) y h GUI_COLOR_SHADOW s)
               else
                 (let s = GuiDrawHLine x y w GUI_COLOR_SHADOW s;
                      s = GuiDrawVLine x y h GUI_COLOR_SHADOW s;
                      s = GuiDrawHLine x (INT32 (y + h - 1)) w VGA_COLOR_WHITE s
                  in GuiDrawVLine (INT32 (x + w - 1)) y h VGA_COLOR_WHITE s))
      in case label of
           None \<Rightarrow> s
         | Some text \<Rightarrow>
             (let tx = INT32 (x + INT32 (w - int (length text) * FONT_WIDTH) sdiv 2);
                  ty = INT32 (y + INT32 (h - FONT_HEIGHT) sdiv 2)
              in VgaDrawString tx ty text GUI_COLOR_BUTTON_TXT GUI_COLOR_BUTTON_BG s))"

definition GuiDrawWindow :: "gui_window option \<Rightarrow> 'a vga_scheme \<Rightarrow> 'a vga_scheme" where
  "GuiDrawWindow win s =
     (case win of
        None \<Rightarrow> s
      | Some win \<Rightarrow>
          if win_visible win = 0 then s
          else let x = win_x win; y = win_y win; w = win_w win; h = win_h win;
                   s = VgaFillRect (INT32 (x + 3)) (INT32 (y + 3)) w h GUI_COLOR_SHADOW s;
                   s = VgaFillRect x y w h GUI_COLOR_WINDOW_BG s;
                   s = VgaFillRect x y w TITLEBAR_HEIGHT GUI_COLOR_TITLEBAR s;
                   s = (case win_title win of
                          None \<Rightarrow> s
                        | Some t \<Rightarrow> VgaDrawString (INT32 (x + 4)) (INT32 (y + 1)) t GUI_COLOR_TITLEBAR_TXT GUI_COLOR_TITLEBAR s);
                   s = GuiDrawButton (INT32 (x + w - BUTTON_W - 2)) (INT32 (y + 1)) BUTTON_W BUTTON_H (Some ''X'') 0 s;
                   s = GuiDrawHLine x y w VGA_COLOR_WHITE s;
                   s = GuiDrawVLine x y h VGA_COLOR_WHITE s;
                   s = GuiDrawHLine x (INT32 (y + h - 1)) w GUI_COLOR_SHADOW s;
                   s = GuiDrawVLine (INT32 (x + w - 1)) y h GUI_COLOR_SHADOW s
               in GuiDrawHLine x (INT32 (y + TITLEBAR_HEIGHT)) w GUI_COLOR_BORDER s)"

definition GuiDrawWindowText ::
  "gui_window option \<Rightarrow> int \<Rightarrow> int \<Rightarrow> string option \<Rightarrow> u8 \<Rightarrow> 'a vga_scheme \<Rightarrow> 'a vga_scheme" where
  "GuiDrawWindowText win rx ry txt fg s =
     (case (win, txt) of
        (Some win, Some t) \<Rightarrow>
          VgaDrawString (INT32 (win_x win + BORDER_SIZE + rx)) (INT32 (win_y win + TITLEBAR_HEIGHT + BORDER_SIZE + ry)) t fg
            GUI_COLOR_WINDOW_BG s
      | _ \<Rightarrow> s)"

definition GuiDrawDesktop :: "'a vga_scheme \<Rightarrow> 'a vga_scheme" where
  "GuiDrawDesktop s =
     (let s = VgaFillRect 0 0 640 470 GUI_COLOR_DESKTOP s;
          s = VgaDrawString 240 210 ''Universidad de Guayaquil'' VGA_COLOR_WHITE GUI_COLOR_DESKTOP s
      in VgaDrawString 260 222 ''System Operative Edit'' VGA_COLOR_LIGHT_GRAY GUI_COLOR_DESKTOP s)"

definition GuiDrawTaskbar :: "'a vga_scheme \<Rightarrow> 'a vga_scheme" where
  "GuiDrawTaskbar s =
     (let y = 470;
          s = VgaFillRect 0 y 640 10 GUI_COLOR_BUTTON_BG s;
          s = GuiDrawHLine 0 y 640 VGA_COLOR_WHITE s;
          s = GuiDrawButton 2 (y + 1) 36 8 (Some ''Start'') 0 s
      in VgaDrawString 600 (y + 1) ''00:00'' VGA_COLOR_BLACK GUI_COLOR_BUTTON_BG s)"

definition GuiHitTest :: "int \<Rightarrow> int \<Rightarrow> int \<Rightarrow> int \<Rightarrow> int \<Rightarrow> int \<Rightarrow> bool" where
  "GuiHitTest mx my x y w h \<longleftrightarrow> mx \<ge> x \<and> mx < INT32 (x + w) \<and> my \<ge> y \<and> my < INT32 (y + h)"

subsection \<open>What the figures keep\<close>

text \<open>All of them change the picture only; those between the side edges keep the display in step.\<close>

lemma VgaDrawString_undrawn [simp]: "undrawn (VgaDrawString x y str fg bg s) = undrawn s"
  using VgaDrawString_draws [of s x y str fg bg] by (simp add: draws_def)

lemma gui_draw_undrawn [simp]:
  "undrawn (GuiDrawHLine x y l c s) = undrawn s" "undrawn (GuiDrawVLine x y l c s) = undrawn s"
  "undrawn (GuiDrawButton x y w h label p s) = undrawn s" "undrawn (GuiDrawWindow win s) = undrawn s"
  "undrawn (GuiDrawWindowText win rx ry txt c s) = undrawn s" "undrawn (GuiDrawDesktop s) = undrawn s"
  "undrawn (GuiDrawTaskbar s) = undrawn s"
  by (simp_all add: GuiDrawHLine_def GuiDrawVLine_def GuiDrawButton_def GuiDrawWindow_def GuiDrawWindowText_def
      GuiDrawDesktop_def GuiDrawTaskbar_def Let_def split: option.split)

lemma gui_line_draws [draws_intros]:
  "0 \<le> x \<Longrightarrow> x + l \<le> 640 \<Longrightarrow> draws s (GuiDrawHLine x y l c s)"
  "0 \<le> x \<Longrightarrow> x + 1 \<le> 640 \<Longrightarrow> draws s (GuiDrawVLine x y l c s)"
  unfolding GuiDrawHLine_def GuiDrawVLine_def by (simp_all add: VgaFillRect_draws)

lemma label_draws:
  "draws s u \<Longrightarrow> draws s (case label of None \<Rightarrow> u | Some t \<Rightarrow> VgaDrawString (x t) y t f b u)"
  by (cases label) (auto elim!: draws_trans simp: VgaDrawString_draws)

lemma draws_after:
  "draws s u \<Longrightarrow> draws s (VgaDrawString x y str f b u)"
  "draws s u \<Longrightarrow> 0 \<le> x \<Longrightarrow> x + w \<le> 640 \<Longrightarrow> draws s (VgaFillRect x y w h c u)"
  "draws s u \<Longrightarrow> 0 \<le> x \<Longrightarrow> x + w \<le> 640 \<Longrightarrow> draws s (GuiDrawHLine x y w c u)"
  "draws s u \<Longrightarrow> 0 \<le> x \<Longrightarrow> x < 640 \<Longrightarrow> draws s (GuiDrawVLine x y h c u)"
  by (auto elim!: draws_trans simp: gui_line_draws VgaFillRect_draws VgaDrawString_draws)

lemma GuiDrawButton_draws [draws_intros]:
  assumes "0 \<le> x" "0 < w" "x + w \<le> 640"
  shows "draws s (GuiDrawButton x y w h label p s)"
proof (cases "p = 0")
  case True
  show ?thesis unfolding GuiDrawButton_def Let_def True
    by (simp only: if_True simp_thms, intro label_draws draws_after draws_refl) (use assms in \<open>auto simp: INT32_id\<close>)
next
  case False
  show ?thesis unfolding GuiDrawButton_def Let_def
    by (simp only: False if_False simp_thms, intro label_draws draws_after draws_refl) (use assms in \<open>auto simp: INT32_id\<close>)
qed

lemma button_after:
  "\<lbrakk>draws s u; 0 \<le> x; 0 < w; x + w \<le> 640\<rbrakk> \<Longrightarrow> draws s (GuiDrawButton x y w h label p u)"
  using draws_trans GuiDrawButton_draws by blast

lemma GuiDrawWindow_draws [draws_intros]:
  assumes "\<And>w. win = Some w \<Longrightarrow> 0 \<le> win_x w \<and> 18 \<le> win_w w \<and> win_x w + win_w w + 3 \<le> 640"
  shows "draws s (GuiDrawWindow win s)"
proof (cases win)
  case (Some w)
  show ?thesis
  proof (cases "win_visible w = 0")
    case False
    show ?thesis unfolding GuiDrawWindow_def Some option.case Let_def
      by (simp only: False if_False, intro label_draws draws_after button_after draws_refl)
        (use assms [OF Some] in \<open>auto simp: BUTTON_W_def INT32_id\<close>)
  qed (simp add: GuiDrawWindow_def Some draws_refl)
qed (simp add: GuiDrawWindow_def draws_refl)

lemma GuiDrawWindowText_draws [draws_intros]: "draws s (GuiDrawWindowText win rx ry txt c s)"
  by (simp add: GuiDrawWindowText_def draws_refl VgaDrawString_draws split: option.split)

lemma GuiDrawDesktop_draws [draws_intros]: "draws s (GuiDrawDesktop s)"
  unfolding GuiDrawDesktop_def Let_def
  by (intro draws_trans [OF _ VgaDrawString_draws] VgaFillRect_draws) simp_all

lemma GuiDrawTaskbar_draws [draws_intros]: "draws s (GuiDrawTaskbar s)"
  unfolding GuiDrawTaskbar_def Let_def
  by (intro draws_after button_after draws_refl) simp_all

subsection \<open>What the figures show\<close>

text \<open>Two machines that show the same colours wherever \<open>A\<close> says.\<close>

definition same_picture :: "(int \<Rightarrow> int \<Rightarrow> bool) \<Rightarrow> 'a vga_scheme \<Rightarrow> 'b vga_scheme \<Rightarrow> bool" where
  "same_picture A s t \<longleftrightarrow> graphics_ready s \<and> graphics_ready t
     \<and> (\<forall>u v. on_screen u v \<and> A u v \<longrightarrow> VgaGetPixel u v s = VgaGetPixel u v t)"

lemma same_picture_fill:
  assumes "same_picture A s t" "int_span x w" "0 < h"
  shows "same_picture (\<lambda>u v. A u v \<or> x \<le> u \<and> u < x + w \<and> y \<le> v \<and> v < y + h)
    (VgaFillRect x y w h c s) (VgaFillRect x y w h c t)"
proof -
  have "graphics_ready (VgaFillRect x y w h c r) = graphics_ready r" for r :: "'c vga_scheme"
    by (rule undrawn_ready) simp
  then show ?thesis using assms
    by (auto simp: same_picture_def VgaFillRect_get)
qed

lemma VgaDrawString_ready: "graphics_ready (VgaDrawString x y str fg bg s) = graphics_ready s"
  by (rule draws_ready [OF VgaDrawString_draws])

lemma VgaDrawString_get:
  "graphics_ready s \<Longrightarrow> on_screen u v \<Longrightarrow> VgaGetPixel u v (VgaDrawString x y str fg bg s)
    = (case cell_from x x y (text_lines str) fg bg u v of Some p \<Rightarrow> p | None \<Rightarrow> VgaGetPixel u v s)"
  unfolding VgaDrawString_def by (rule draw_string_from_pixel)

lemma same_picture_string:
  assumes "same_picture A s t"
  shows "same_picture A (VgaDrawString x y str fg bg s) (VgaDrawString x y str fg bg t)"
  using assms by (auto simp: same_picture_def VgaDrawString_ready VgaDrawString_get split: option.split)

lemma same_picture_weaken: "same_picture B s t \<Longrightarrow> (\<And>u v. on_screen u v \<Longrightarrow> A u v \<Longrightarrow> B u v) \<Longrightarrow> same_picture A s t"
  by (auto simp: same_picture_def)

lemma same_picture_again:
  assumes "same_picture A s t" "int_span x w" "0 < h"
  shows "same_picture A (VgaFillRect x y w h c s) (VgaFillRect x y w h c t)"
  by (rule same_picture_weaken [OF same_picture_fill [OF assms]]) auto

lemma int_span_one: "- 2147483648 \<le> x \<Longrightarrow> x < 2147483648 \<Longrightarrow> int_span x 1"
  "int_span x w \<Longrightarrow> int_span x 1" "int_span (INT32 z) 1"
  using INT32_bounds [of z] by (simp_all add: int_span_def)

lemma same_picture_line:
  "same_picture A s t \<Longrightarrow> int_span x l \<Longrightarrow> same_picture A (GuiDrawHLine x y l c s) (GuiDrawHLine x y l c t)"
  "same_picture A s t \<Longrightarrow> int_span x 1 \<Longrightarrow> 0 < l \<Longrightarrow> same_picture A (GuiDrawVLine x y l c s) (GuiDrawVLine x y l c t)"
  unfolding GuiDrawHLine_def GuiDrawVLine_def by (simp_all add: same_picture_again)

lemma same_picture_button:
  assumes "same_picture A s t" "int_span x w" "0 < h"
  shows "same_picture A (GuiDrawButton x y w h (Some l) p s) (GuiDrawButton x y w h (Some l) p t)"
proof (cases "p = 0")
  case True
  show ?thesis unfolding GuiDrawButton_def Let_def True option.case
    by (simp only: if_True simp_thms, intro same_picture_string same_picture_line same_picture_again assms
        int_span_one(2) [OF assms(2)] int_span_one(3))
next
  case False
  show ?thesis unfolding GuiDrawButton_def Let_def option.case
    by (simp only: False if_False simp_thms, intro same_picture_string same_picture_line same_picture_again assms
        int_span_one(2) [OF assms(2)] int_span_one(3))
qed

lemma desktop_and_taskbar_picture:
  assumes "graphics_ready s" "graphics_ready t"
  shows "same_picture (\<lambda>_ _. True) (GuiDrawTaskbar (GuiDrawDesktop s)) (GuiDrawTaskbar (GuiDrawDesktop t))"
proof -
  have "same_picture (\<lambda>_ _. False) s t" using assms(1,2) by (simp add: same_picture_def)
  then have "same_picture (\<lambda>u v. v < 470) (GuiDrawDesktop s) (GuiDrawDesktop t)"
    unfolding GuiDrawDesktop_def Let_def
    by (intro same_picture_string same_picture_weaken [OF same_picture_fill]) (auto simp: on_screen_def int_span_def)
  then show ?thesis
    unfolding GuiDrawTaskbar_def Let_def
    by (intro same_picture_string same_picture_button same_picture_line same_picture_weaken [OF same_picture_fill])
      (auto simp: on_screen_def int_span_def)
qed

text \<open>
  The desktop and the task bar cover the whole screen: after both are drawn every pixel is the
  same whatever was on the screen before, and on the display too. This is how the console
  window is removed when it is closed.
\<close>

theorem desktop_and_taskbar_cover_screen:
  assumes "graphics_ready s" "graphics_ready t" "shows_shadow other h s" "on_screen u v"
  shows "VgaGetPixel u v (GuiDrawTaskbar (GuiDrawDesktop s)) = VgaGetPixel u v (GuiDrawTaskbar (GuiDrawDesktop t))
    \<and> adapter_pixel (adapter_run other h (GuiDrawTaskbar (GuiDrawDesktop s))) u v
      = VgaGetPixel u v (GuiDrawTaskbar (GuiDrawDesktop t)) AND 0x0F"
proof -
  have same: "VgaGetPixel u v (GuiDrawTaskbar (GuiDrawDesktop s)) = VgaGetPixel u v (GuiDrawTaskbar (GuiDrawDesktop t))"
    using desktop_and_taskbar_picture [OF assms(1,2)] assms(4) by (simp add: same_picture_def)
  have "shows_shadow other h (GuiDrawTaskbar (GuiDrawDesktop s))"
    using draws_trans [OF GuiDrawDesktop_draws GuiDrawTaskbar_draws] assms(1,3) unfolding draws_def by blast
  then show ?thesis using same adapter_pixel_shadow assms(4) by metis
qed

theorem desktop_and_taskbar_cover_screen_witness:
  "VgaGetPixel 5 5 (GuiDrawTaskbar (GuiDrawDesktop (VgaPutPixel 5 5 3 vga_on)))
    = VgaGetPixel 5 5 (GuiDrawTaskbar (GuiDrawDesktop vga_on))"
  using desktop_and_taskbar_cover_screen [of "VgaPutPixel 5 5 3 vga_on" vga_on _ adapter_on 5 5]
    vga_on_ready vga_on_shows VgaPutPixel_shows [OF vga_on_ready vga_on_shows, where x = 5 and y = 5 and c = 3]
    draws_ready [OF VgaPutPixel_draws [of vga_on 5 5 3]]
  by (simp add: on_screen_def)

end
