(* ===== verification/Ring_Buffer.thy ===== *)
theory Ring_Buffer
  imports Prelude "HOL-Library.Sublist"
begin

section \<open>Bounded queues in circular buffers\<close>

text \<open>
  The keyboard and the mouse queue of the graphical interface are circular buffers with a head and a
  tail index, in which one place stays free so that equal indices mean empty. \<open>ring_contents\<close> is the
  queue a buffer holds. The locale \<open>bounded_queue\<close> is the contract between the interrupt handlers,
  which put, and the loops that get: any order of the two behaves as a bounded first-in-first-out
  queue that drops what does not fit.
\<close>

datatype 'e queue_op = Put 'e | Get

fun queue_run :: "nat \<Rightarrow> 'e queue_op list \<Rightarrow> 'e list \<Rightarrow> 'e list \<times> 'e list" where
  "queue_run cap [] q = ([], q)"
| "queue_run cap (Put e # ops) q = queue_run cap ops (if length q < cap then q @ [e] else q)"
| "queue_run cap (Get # ops) q =
     (case q of [] \<Rightarrow> queue_run cap ops []
      | e # q \<Rightarrow> (let (out, q) = queue_run cap ops q in (e # out, q)))"

fun ring_run :: "('e \<Rightarrow> 's \<Rightarrow> 's) \<Rightarrow> ('s \<Rightarrow> 'e option \<times> 's) \<Rightarrow> 'e queue_op list \<Rightarrow> 's \<Rightarrow> 'e list \<times> 's" where
  "ring_run put get [] s = ([], s)"
| "ring_run put get (Put e # ops) s = ring_run put get ops (put e s)"
| "ring_run put get (Get # ops) s =
     (case get s of (None, s) \<Rightarrow> ring_run put get ops s
      | (Some e, s) \<Rightarrow> (let (out, s) = ring_run put get ops s in (e # out, s)))"

primrec puts_of :: "'e queue_op list \<Rightarrow> 'e list" where
  "puts_of [] = []"
| "puts_of (op # ops) = (case op of Put e \<Rightarrow> e # puts_of ops | Get \<Rightarrow> puts_of ops)"

text \<open>What comes out, and what is left, comes from the puts, in their order.\<close>

lemma queue_run_subseq: "subseq (fst (queue_run cap ops q) @ snd (queue_run cap ops q)) (q @ puts_of ops)"
proof (induction cap ops q rule: queue_run.induct)
  case (2 cap e ops q)
  have "subseq (q @ puts_of ops) (q @ e # puts_of ops)" by (intro list_emb_append_mono) auto
  with 2 show ?case by (auto intro: subseq_order.trans)
next
  case (3 cap ops q)
  then show ?case by (cases q) (auto split: prod.splits)
qed simp

text \<open>Nothing is lost while everything put would fit.\<close>

lemma queue_run_keeps:
  "length q + length (puts_of ops) \<le> cap \<Longrightarrow> fst (queue_run cap ops q) @ snd (queue_run cap ops q) = q @ puts_of ops"
proof (induction cap ops q rule: queue_run.induct)
  case (3 cap ops q)
  then show ?case by (cases q) (auto split: prod.splits)
qed auto

locale bounded_queue =
  fixes put :: "'e \<Rightarrow> 's \<Rightarrow> 's" and get :: "'s \<Rightarrow> 'e option \<times> 's"
    and contents :: "'s \<Rightarrow> 'e list" and ok :: "'s \<Rightarrow> bool" and capacity :: nat
  assumes put_ok: "ok s \<Longrightarrow> ok (put e s)"
    and put_contents: "ok s \<Longrightarrow> contents (put e s) = (if length (contents s) < capacity then contents s @ [e] else contents s)"
    and get_ok: "ok s \<Longrightarrow> ok (snd (get s))"
    and get_result: "ok s \<Longrightarrow> fst (get s) = (case contents s of [] \<Rightarrow> None | e # _ \<Rightarrow> Some e)"
    and get_contents: "ok s \<Longrightarrow> contents (snd (get s)) = tl (contents s)"
begin

lemma run_refines:
  "ok s \<Longrightarrow> ok (snd (ring_run put get ops s))
    \<and> (fst (ring_run put get ops s), contents (snd (ring_run put get ops s))) = queue_run capacity ops (contents s)"
proof (induction ops arbitrary: s)
  case (Cons op ops)
  show ?case
  proof (cases op)
    case (Put e)
    then show ?thesis using Cons.IH [OF put_ok [OF Cons.prems, of e]] put_contents [OF Cons.prems, of e] by simp
  next
    case Get
    obtain r t where get: "get s = (r, t)" by fastforce
    then have "ok t" "contents t = tl (contents s)" "r = (case contents s of [] \<Rightarrow> None | e # _ \<Rightarrow> Some e)"
      using get_ok [OF Cons.prems] get_contents [OF Cons.prems] get_result [OF Cons.prems] by simp_all
    then show ?thesis
      using Cons.IH [of t] get Get by (cases "contents s") (auto split: prod.splits)
  qed
qed simp

end

subsection \<open>Circular buffers\<close>

definition ring_contents :: "'e list \<Rightarrow> nat \<Rightarrow> nat \<Rightarrow> 'e list" where
  "ring_contents buf head tail =
     map (\<lambda>i. buf ! ((tail + i) mod length buf)) [0..<(head + length buf - tail) mod length buf]"

lemma ring_distance:
  fixes n tail k :: nat
  assumes "tail < n" "k < n"
  shows "((tail + k) mod n + n - tail) mod n = k"
proof (cases "tail + k < n")
  case False
  then have "(tail + k) mod n = tail + k - n" using assms by (simp add: mod_if)
  then show ?thesis using False assms by simp
qed (use assms in simp)

lemma ring_head:
  fixes n head tail :: nat
  assumes "head < n" "tail < n"
  shows "(tail + (head + n - tail) mod n) mod n = head"
proof -
  have "(tail + (head + n - tail) mod n) mod n = (tail + (head + n - tail)) mod n" by (simp add: mod_add_right_eq)
  then show ?thesis using assms by simp
qed

lemma ring_put:
  assumes "head < length buf" "tail < length buf"
  shows "(head + 1) mod length buf = tail \<longleftrightarrow> length (ring_contents buf head tail) = length buf - 1"
    and "(head + 1) mod length buf \<noteq> tail
      \<Longrightarrow> ring_contents (buf[head := e]) ((head + 1) mod length buf) tail = ring_contents buf head tail @ [e]"
proof -
  define n k where "n = length buf" and "k = (head + n - tail) mod n"
  have bounds: "head < n" "tail < n" "k < n" using assms by (auto simp: n_def k_def intro!: mod_less_divisor)
  have head: "(tail + k) mod n = head" unfolding k_def by (rule ring_head [OF bounds(1,2)])
  then have nxt: "(head + 1) mod n = (tail + (k + 1)) mod n" by (metis add.assoc mod_add_left_eq)
  have full: "(head + 1) mod n = tail \<longleftrightarrow> k = n - 1"
  proof
    assume eq: "(head + 1) mod n = tail"
    show "k = n - 1"
    proof (rule ccontr)
      assume "k \<noteq> n - 1"
      then have "k + 1 < n" using bounds(3) by simp
      from ring_distance [OF bounds(2) this] eq bounds(2) show False unfolding nxt [symmetric] by simp
    qed
  next
    assume "k = n - 1"
    then have "tail + (k + 1) = tail + n" using bounds(3) by simp
    then show "(head + 1) mod n = tail" unfolding nxt using bounds(2) by simp
  qed
  show "(head + 1) mod length buf = tail \<longleftrightarrow> length (ring_contents buf head tail) = length buf - 1"
    using full by (simp add: ring_contents_def n_def k_def)
  assume "(head + 1) mod length buf \<noteq> tail"
  then have k1: "k + 1 < n" using full bounds(3) by (simp add: n_def)
  have dist: "((head + 1) mod n + n - tail) mod n = k + 1" unfolding nxt by (rule ring_distance [OF bounds(2) k1])
  have "head \<noteq> (tail + i) mod n" if "i < k" for i
    using ring_distance [OF bounds(2), of i] ring_distance [OF bounds(2), of k] head that bounds(3) by auto
  moreover have "ring_contents (buf[head := e]) ((head + 1) mod length buf) tail
      = map (\<lambda>i. buf[head := e] ! ((tail + i) mod n)) [0..<k + 1]"
    using dist by (simp add: ring_contents_def n_def)
  moreover have "ring_contents buf head tail = map (\<lambda>i. buf ! ((tail + i) mod n)) [0..<k]"
    by (simp add: ring_contents_def n_def k_def)
  ultimately show "ring_contents (buf[head := e]) ((head + 1) mod length buf) tail = ring_contents buf head tail @ [e]"
    using head bounds(1) by (simp add: n_def)
qed

lemma ring_get:
  assumes "head < length buf" "tail < length buf"
  shows "head = tail \<longleftrightarrow> ring_contents buf head tail = []"
    and "head \<noteq> tail \<Longrightarrow> ring_contents buf head tail = buf ! tail # ring_contents buf head ((tail + 1) mod length buf)"
proof -
  define n k where "n = length buf" and "k = (head + n - tail) mod n"
  have bounds: "head < n" "tail < n" "k < n" using assms by (auto simp: n_def k_def intro!: mod_less_divisor)
  have head: "(tail + k) mod n = head" unfolding k_def by (rule ring_head [OF bounds(1,2)])
  have empty: "head = tail \<longleftrightarrow> k = 0"
  proof
    assume "k = 0"
    then show "head = tail" using head bounds(2) by simp
  qed (use bounds in \<open>simp add: k_def\<close>)
  then show "head = tail \<longleftrightarrow> ring_contents buf head tail = []"
    by (simp add: ring_contents_def n_def k_def)
  assume "head \<noteq> tail"
  then obtain m where m: "k = Suc m" using empty by (cases k) auto
  let ?t = "(tail + 1) mod n"
  have shift: "(?t + i) mod n = (tail + Suc i) mod n" for i by (simp add: mod_add_left_eq)
  have "?t < n" using bounds(1) by simp
  moreover have "head = (?t + m) mod n" unfolding shift using head m by simp
  ultimately have d: "(head + n - ?t) mod n = m" using ring_distance [of ?t n m] bounds(3) m by simp
  have "[0..<Suc m] = 0 # map Suc [0..<m]" by (simp add: upt_conv_Cons map_Suc_upt del: upt_Suc)
  moreover have "ring_contents buf head tail = map (\<lambda>i. buf ! ((tail + i) mod n)) [0..<Suc m]"
    unfolding m [symmetric] by (simp add: ring_contents_def n_def k_def)
  moreover have "ring_contents buf head ?t = map (\<lambda>i. buf ! ((tail + Suc i) mod n)) [0..<m]"
    unfolding ring_contents_def n_def [symmetric] d shift ..
  ultimately show "ring_contents buf head tail = buf ! tail # ring_contents buf head ((tail + 1) mod length buf)"
    using bounds(2) by (simp add: n_def del: upt_Suc)
qed

end
