(* ===== verification/Gui_Console.thy ===== *)
theory Gui_Console
  imports Gui_Draw Scheduler Ring_Buffer
begin

unbundle bit_operations_syntax

section \<open>The keyboard queue and the graphical console\<close>

text \<open>
  Models the keyboard and console part of \<open>drivers/video/vga/vga_gui.c\<close> and the keyboard interrupt of
  \<open>kernel/interrupt/idt.c\<close>. A character array is a list of fixed length, updated by index; the C string
  in it (\<open>cstr\<close>) ends before the first null character. Arguments that are only read as C strings are
  lists without the final null.

  The console is compared with an abstract one (\<open>con_step\<close>), whose state is a list of at most
  twelve lines and the line being typed.
\<close>

record gui_mouse_event =
  ev_x :: int
  ev_y :: int
  ev_buttons :: int

record gui = mouse +
  kbd_buf :: string
  kbd_head :: nat
  kbd_tail :: nat
  cons_history :: "string list"
  cons_history_start :: nat
  cons_history_count :: nat
  cons_input :: string
  cons_input_pos :: nat
  console_active :: bool
  console_win :: gui_window
  g_mouse_queue :: "gui_mouse_event list"
  g_mouse_head :: nat
  g_mouse_tail :: nat

subsection \<open>String helpers\<close>

fun kg_strcmp :: "string \<Rightarrow> string \<Rightarrow> int" where
  "kg_strcmp (a # as) (b # bs) = (if a = b then kg_strcmp as bs else of_char a - of_char b)"
| "kg_strcmp [] bs = 0 - (case bs of [] \<Rightarrow> 0 | b # _ \<Rightarrow> of_char b)"
| "kg_strcmp (a # as) [] = of_char a - 0"

fun kg_strlen :: "string \<Rightarrow> nat" where
  "kg_strlen [] = 0"
| "kg_strlen (c # cs) = Suc (kg_strlen cs)"

definition kg_strncpy :: "string \<Rightarrow> string \<Rightarrow> nat \<Rightarrow> string" where
  "kg_strncpy dst src n =
     (let k = min n (length src);
          dst = fold (\<lambda>i dst. dst[i := src ! i]) [0..<k] dst
      in fold (\<lambda>i dst. dst[i := NUL]) [k..<n] dst)"

text \<open>\<open>while (len + i + 1 < max && src[i]) { dst[len + i] = src[i]; i++; }\<close>, from \<open>i\<close> on\<close>

fun strncat_loop :: "nat \<Rightarrow> nat \<Rightarrow> nat \<Rightarrow> string \<Rightarrow> string \<Rightarrow> nat \<times> string" where
  "strncat_loop len n i [] dst = (i, dst)"
| "strncat_loop len n i (c # src) dst =
     (if len + i + 1 < n then strncat_loop len n (i + 1) src (dst[len + i := c]) else (i, dst))"

definition kg_strncat :: "string \<Rightarrow> string \<Rightarrow> nat \<Rightarrow> string" where
  "kg_strncat dst src n =
     (let len = kg_strlen (cstr dst); (i, dst) = strncat_loop len n 0 src dst
      in if len + i < n then dst[len + i := NUL] else dst)"

subsection \<open>The keyboard\<close>

definition KBD_BUF_SIZE :: nat where [const_defs]: "KBD_BUF_SIZE = 128"

definition scancode_keys :: "(nat \<times> u8) list" where
  "scancode_keys =
    [(0x02, 0x31), (0x03, 0x32), (0x04, 0x33), (0x05, 0x34), (0x06, 0x35), (0x07, 0x36), (0x08, 0x37), (0x09, 0x38),
     (0x0A, 0x39), (0x0B, 0x30),
     (0x10, 0x71), (0x11, 0x77), (0x12, 0x65), (0x13, 0x72), (0x14, 0x74), (0x15, 0x79), (0x16, 0x75), (0x17, 0x69),
     (0x18, 0x6F), (0x19, 0x70),
     (0x1E, 0x61), (0x1F, 0x73), (0x20, 0x64), (0x21, 0x66), (0x22, 0x67), (0x23, 0x68), (0x24, 0x6A), (0x25, 0x6B),
     (0x26, 0x6C),
     (0x2C, 0x7A), (0x2D, 0x78), (0x2E, 0x63), (0x2F, 0x76), (0x30, 0x62), (0x31, 0x6E), (0x32, 0x6D),
     (0x39, 0x20), (0x1C, 0x0A), (0x0E, 0x08), (0x3B, 0xF1)]"

text \<open>The entries the initialiser does not name are zero.\<close>

definition scancode_to_ascii :: "u8 list" where
  "scancode_to_ascii = map (\<lambda>i. case map_of scancode_keys i of Some c \<Rightarrow> c | None \<Rightarrow> 0) [0..<128]"

definition kbd_put :: "char \<Rightarrow> 'a gui_scheme \<Rightarrow> 'a gui_scheme" where
  "kbd_put c s =
     (let nxt = (kbd_head s + 1) mod KBD_BUF_SIZE in
      if nxt = kbd_tail s then s
      else s\<lparr>kbd_buf := (kbd_buf s)[kbd_head s := c], kbd_head := nxt\<rparr>)"

text \<open>\<open>None\<close> is the answer \<open>-1\<close>.\<close>

definition kbd_getchar :: "'a gui_scheme \<Rightarrow> char option \<times> 'a gui_scheme" where
  "kbd_getchar s =
     (if kbd_head s = kbd_tail s then (None, s)
      else (Some (kbd_buf s ! kbd_tail s), s\<lparr>kbd_tail := (kbd_tail s + 1) mod KBD_BUF_SIZE\<rparr>))"

definition GuiKeyboardHandler :: "u8 \<Rightarrow> 'a gui_scheme \<Rightarrow> 'a gui_scheme" where
  "GuiKeyboardHandler sc s =
     (if sc AND 0x80 \<noteq> 0 then s
      else if unat sc < length scancode_to_ascii \<and> scancode_to_ascii ! unat sc \<noteq> 0
      then kbd_put (char_at (scancode_to_ascii ! unat sc)) s else s)"

definition irq1_keyboard_handler :: "'a gui_scheme \<Rightarrow> 'a gui_scheme" where
  "irq1_keyboard_handler s = (let (sc, s) = ps2_inb 0x60 s; s = GuiKeyboardHandler sc s in outb 0x20 0x20 s)"

subsection \<open>The console\<close>

definition CONS_COLS :: nat where [const_defs]: "CONS_COLS = 70"
definition CONS_ROWS :: nat where [const_defs]: "CONS_ROWS = 12"

definition ConsoleRedraw :: "'a gui_scheme \<Rightarrow> 'a gui_scheme" where
  "ConsoleRedraw s =
     (if \<not> console_active s then s
      else let s = GuiDrawWindow (Some (console_win s)) s;
               s = fold (\<lambda>i s.
                     let idx = (cons_history_start s + i) mod CONS_ROWS;
                         y = win_y (console_win s) + TITLEBAR_HEIGHT + BORDER_SIZE + int i * FONT_HEIGHT
                     in VgaDrawString (win_x (console_win s) + BORDER_SIZE) y (cstr (cons_history s ! idx))
                          VGA_COLOR_BLACK GUI_COLOR_WINDOW_BG s) [0..<cons_history_count s] s;
               y = win_y (console_win s) + TITLEBAR_HEIGHT + BORDER_SIZE + int (cons_history_count s) * FONT_HEIGHT;
               s = VgaFillRect (win_x (console_win s) + BORDER_SIZE) y (int CONS_COLS * FONT_WIDTH) FONT_HEIGHT
                     GUI_COLOR_WINDOW_BG s
           in if cons_input_pos s > 0
              then VgaDrawString (win_x (console_win s) + BORDER_SIZE) y (cstr (cons_input s))
                     VGA_COLOR_BLACK GUI_COLOR_WINDOW_BG s
              else s)"

definition ConsoleClear :: "'a gui_scheme \<Rightarrow> 'a gui_scheme" where
  "ConsoleClear s =
     (let s = s\<lparr>cons_history := fold (\<lambda>i h. h[i := (h ! i)[0 := NUL]]) [0..<CONS_ROWS] (cons_history s)\<rparr>;
          s = s\<lparr>cons_history_start := 0, cons_history_count := 0\<rparr>;
          s = s\<lparr>cons_input_pos := 0\<rparr>;
          s = s\<lparr>cons_input := (cons_input s)[0 := NUL]\<rparr>
      in ConsoleRedraw s)"

definition ConsoleAddLine :: "string \<Rightarrow> 'a gui_scheme \<Rightarrow> 'a gui_scheme" where
  "ConsoleAddLine line s =
     (let (idx, s) =
        (if cons_history_count s < CONS_ROWS
         then ((cons_history_start s + cons_history_count s) mod CONS_ROWS,
               s\<lparr>cons_history_count := cons_history_count s + 1\<rparr>)
         else (cons_history_start s, s\<lparr>cons_history_start := (cons_history_start s + 1) mod CONS_ROWS\<rparr>));
          row = kg_strncpy (cons_history s ! idx) line CONS_COLS;
          row = row[CONS_COLS := NUL];
          s = s\<lparr>cons_history := (cons_history s)[idx := row]\<rparr>
      in ConsoleRedraw s)"

text \<open>The loop of \<open>ConsolePrint\<close>: \<open>buf\<close> holds its first \<open>bi\<close> characters.\<close>

fun console_print_from :: "string \<Rightarrow> string \<Rightarrow> 'a gui_scheme \<Rightarrow> 'a gui_scheme" where
  "console_print_from [] buf s = (if length buf > 0 then ConsoleAddLine buf s else s)"
| "console_print_from (c # p) buf s =
     (if c = CHR 0x0A then console_print_from p [] (ConsoleAddLine buf s)
      else if length buf < CONS_COLS - 1 then console_print_from p (buf @ [c]) s
      else console_print_from p buf s)"

definition ConsolePrint :: "string \<Rightarrow> 'a gui_scheme \<Rightarrow> 'a gui_scheme" where
  "ConsolePrint str s = console_print_from str [] s"

text \<open>The local buffer has arbitrary contents before it is written.\<close>

definition console_execute :: "string \<Rightarrow> 'a gui_scheme \<Rightarrow> 'a gui_scheme" where
  "console_execute cmd s =
     (if kg_strcmp cmd ''help'' = 0 then
        (let s = ConsolePrint (''help - lista de comandos'' @ [CHR 0x0A]) s
         in ConsolePrint (''clear - limpiar pantalla'' @ [CHR 0x0A]) s)
      else if kg_strcmp cmd ''clear'' = 0 then ConsoleClear s
      else let buf = replicate (CONS_COLS + 1) (CHR 0xCC);
               buf = kg_strncpy buf ''comando desconocido: '' CONS_COLS;
               buf = kg_strncat buf cmd (CONS_COLS + 1)
           in ConsoleAddLine (cstr buf) s)"

definition ConsoleProcessChar :: "u8 \<Rightarrow> 'a gui_scheme \<Rightarrow> 'a gui_scheme" where
  "ConsoleProcessChar ch s =
     (if ch = 0xF1 then
        (let s = s\<lparr>console_active := \<not> console_active s\<rparr>;
             s = s\<lparr>console_win := (console_win s)\<lparr>win_visible := (if console_active s then 1 else 0)\<rparr>\<rparr> in
         if console_active s then
           (let s = ConsoleClear s;
                s = GuiDrawWindow (Some (console_win s)) s
            in ConsolePrint (''Consola activa. Escribe '' @ [CHR 0x27] @ ''help'' @ [CHR 0x27] @ '' para ayuda.'' @ [CHR 0x0A]) s)
         else GuiDrawTaskbar (GuiDrawDesktop s))
      else if \<not> console_active s then s
      else if ch = 0x0A then
        (let s = s\<lparr>cons_input := (cons_input s)[cons_input_pos s := NUL]\<rparr>;
             s = ConsoleAddLine (cstr (cons_input s)) s;
             s = console_execute (cstr (cons_input s)) s;
             s = s\<lparr>cons_input_pos := 0\<rparr>
         in s\<lparr>cons_input := (cons_input s)[0 := NUL]\<rparr>)
      else if ch = 0x08 then
        (if cons_input_pos s > 0 then
           (let s = s\<lparr>cons_input_pos := cons_input_pos s - 1\<rparr>;
                s = s\<lparr>cons_input := (cons_input s)[cons_input_pos s := NUL]\<rparr>
            in ConsoleRedraw s)
         else s)
      else if cons_input_pos s < CONS_COLS - 1 then
        (let s = s\<lparr>cons_input := (cons_input s)[cons_input_pos s := char_at ch], cons_input_pos := cons_input_pos s + 1\<rparr>;
             s = s\<lparr>cons_input := (cons_input s)[cons_input_pos s := NUL]\<rparr>
         in ConsoleRedraw s)
      else s)"

partial_function (option) ConsoleProcess :: "'a gui_scheme \<Rightarrow> 'a gui_scheme option" where
  "ConsoleProcess s =
     (case kbd_getchar s of
        (None, s) \<Rightarrow> Some s
      | (Some c, s) \<Rightarrow> ConsoleProcess (ConsoleProcessChar (byte_of c) s))"

subsection \<open>What the string helpers compute\<close>

lemma kg_strlen_length [simp]: "kg_strlen s = length s"
  by (induction s) simp_all

lemma of_char_zero: "(of_char a :: int) = 0 \<longleftrightarrow> a = NUL"
  using of_char_eq_iff [of a NUL, where ?'a = int] by simp

lemma kg_strcmp_zero:
  "NUL \<notin> set a \<Longrightarrow> NUL \<notin> set b \<Longrightarrow> kg_strcmp a b = 0 \<longleftrightarrow> a = b"
proof (induction a b rule: kg_strcmp.induct)
  case (2 bs)
  then show ?case by (cases bs) (auto simp: of_char_zero)
qed (auto simp: of_char_zero)

lemma cstr_append: "NUL \<notin> set a \<Longrightarrow> cstr (a @ NUL # b) = a"
  by (simp add: cstr_def takeWhile_append)

lemma kg_strncpy_eq:
  assumes "n \<le> length dst"
  shows "kg_strncpy dst src n = take n src @ replicate (n - length src) NUL @ drop n dst"
proof -
  let ?k = "min n (length src)"
  let ?d = "fold (\<lambda>i dst. dst[i := src ! i]) [0..<?k] dst"
  have len: "length ?d = length dst" by simp
  have d: "?d ! i = (if i < ?k then src ! i else dst ! i)" if "i < length dst" for i
    using fold_update_upt_nth [where g = "\<lambda>i. src ! i" and a = 0 and b = ?k and xs = dst and k = i] that assms by simp
  have e: "kg_strncpy dst src n ! i = (if ?k \<le> i \<and> i < n then NUL else ?d ! i)" if "i < length dst" for i
    unfolding kg_strncpy_def Let_def
    using fold_update_upt_nth [where g = "\<lambda>_. NUL" and a = ?k and b = n and xs = ?d and k = i] that assms len by simp
  show ?thesis
  proof (rule nth_equalityI)
    show "length (kg_strncpy dst src n) = length (take n src @ replicate (n - length src) NUL @ drop n dst)"
      using assms by (simp add: kg_strncpy_def Let_def)
    fix i
    assume "i < length (kg_strncpy dst src n)"
    then have "i < length dst" by (simp add: kg_strncpy_def Let_def)
    then show "kg_strncpy dst src n ! i = (take n src @ replicate (n - length src) NUL @ drop n dst) ! i"
      using d e assms by (auto simp: nth_append min_def)
  qed
qed

lemma strncat_loop_eq:
  assumes "len + i < n" "n \<le> length dst"
  shows "strncat_loop len n i src dst =
    (let k = min (length src) (n - 1 - (len + i)) in (i + k, take (len + i) dst @ take k src @ drop (len + i + k) dst))"
  using assms
proof (induction src arbitrary: i dst)
  case (Cons c src)
  show ?case
  proof (cases "len + i + 1 < n")
    case True
    have "n - 1 - (len + i) = Suc (n - 1 - (len + (i + 1)))" using True by simp
    moreover have "take (len + (i + 1)) (dst[len + i := c]) = take (len + i) dst @ [c]"
      using Cons.prems by (simp add: take_Suc_conv_app_nth)
    ultimately show ?thesis using Cons.IH [of "i + 1" "dst[len + i := c]"] Cons.prems True by (simp add: Let_def)
  next
    case False
    then have "n - 1 - (len + i) = 0" by simp
    then show ?thesis using False by (simp add: Let_def)
  qed
qed (simp add: Let_def)

text \<open>A row of the history, written by \<open>ConsoleAddLine\<close>, reads back as the line cut at 70 characters.\<close>

lemma history_row:
  assumes "length row = 71" "NUL \<notin> set line"
  shows "cstr ((kg_strncpy row line 70)[70 := NUL]) = take 70 line" "length ((kg_strncpy row line 70)[70 := NUL]) = 71"
proof -
  have "length (drop 70 row) = Suc 0" using assms(1) by simp
  then obtain z where "drop 70 row = [z]" unfolding length_Suc_conv by auto
  then have "(kg_strncpy row line 70)[70 := NUL] = take 70 line @ replicate (70 - length line) NUL @ [NUL]"
  proof -
    define A where "A = take 70 line @ replicate (70 - length line) NUL"
    have "length A = 70" by (simp add: A_def)
    moreover have "kg_strncpy row line 70 = A @ [z]"
      using assms(1) \<open>drop 70 row = [z]\<close> by (simp add: kg_strncpy_eq A_def)
    ultimately have "(kg_strncpy row line 70)[70 := NUL] = A @ [NUL]"
      using list_update_length [of A z "[]" NUL] by simp
    then show ?thesis by (simp add: A_def)
  qed
  also have "\<dots> = take 70 line @ NUL # replicate (70 - length line) NUL"
    using replicate_app_Cons_same [of "70 - length line" NUL "[]"] by simp
  finally show "cstr ((kg_strncpy row line 70)[70 := NUL]) = take 70 line"
    using assms(2) cstr_append [of "take 70 line"] by (metis in_set_takeD)
  show "length ((kg_strncpy row line 70)[70 := NUL]) = 71" using assms(1) by (simp add: kg_strncpy_eq)
qed

lemma unknown_command:
  assumes "length buf = 71" "NUL \<notin> set cmd"
  shows "cstr (kg_strncat (kg_strncpy buf ''comando desconocido: '' 70) cmd 71) = take 70 (''comando desconocido: '' @ cmd)"
proof -
  define m where "m = ''comando desconocido: ''"
  have m: "length m = 21" "NUL \<notin> set m" by (simp_all add: m_def)
  let ?b = "kg_strncpy buf m 70" and ?k = "min (length cmd) 49"
  have b: "?b = m @ replicate 49 NUL @ drop 70 buf" using assms(1) m(1) by (simp add: kg_strncpy_eq)
  have "replicate 49 NUL = NUL # replicate 48 NUL" by (simp add: eval_nat_numeral)
  with b have "?b = m @ NUL # (replicate 48 NUL @ drop 70 buf)" by (simp only: append_Cons)
  then have c: "cstr ?b = m" using cstr_append [OF m(2)] by simp
  have len: "length ?b = 71" using assms(1) m(1) by (simp add: b)
  have t: "take 21 ?b = m" unfolding b using m(1) by simp
  have loop: "strncat_loop 21 71 0 cmd ?b = (?k, m @ take ?k cmd @ drop (21 + ?k) ?b)"
    using strncat_loop_eq [of 21 0 71 ?b cmd] len t by (simp add: Let_def)
  obtain z zs where z: "drop (21 + ?k) ?b = z # zs" using len by (cases "drop (21 + ?k) ?b") auto
  have "kg_strncat ?b cmd 71 = (m @ take ?k cmd @ drop (21 + ?k) ?b)[21 + ?k := NUL]"
    unfolding kg_strncat_def c kg_strlen_length m(1) Let_def loop prod.case by (simp add: min_less_iff_disj)
  also have "\<dots> = (m @ take ?k cmd) @ NUL # zs" unfolding z using m(1) by (simp add: list_update_append)
  finally have "kg_strncat ?b cmd 71 = (m @ take ?k cmd) @ NUL # zs" .
  moreover have "NUL \<notin> set (m @ take ?k cmd)" using assms(2) m(2) by (auto dest: in_set_takeD)
  moreover have "m @ take ?k cmd = take 70 (m @ cmd)" using m(1) by (simp add: min_def)
  ultimately show ?thesis unfolding m_def [symmetric] using cstr_append by metis
qed

subsection \<open>The abstract console\<close>

text \<open>At most twelve lines of at most 70 characters; a new one pushes the oldest out.\<close>

definition push_line :: "string list \<Rightarrow> string \<Rightarrow> string list" where
  "push_line ls l = (let ls = ls @ [take 70 l] in drop (length ls - 12) ls)"

definition greeting :: string where
  "greeting = ''Consola activa. Escribe '' @ [CHR 0x27] @ ''help'' @ [CHR 0x27] @ '' para ayuda.''"

fun con_step :: "u8 \<Rightarrow> bool \<times> string list \<times> string \<Rightarrow> bool \<times> string list \<times> string" where
  "con_step ch (on, ls, inp) =
     (if ch = 0xF1 then (if on then (False, ls, inp) else (True, push_line [] greeting, []))
      else if \<not> on then (on, ls, inp)
      else if ch = 0x0A then
        (let ls = push_line ls inp in
         if inp = ''help'' then (True, push_line (push_line ls ''help - lista de comandos'') ''clear - limpiar pantalla'', [])
         else if inp = ''clear'' then (True, [], [])
         else (True, push_line ls (''comando desconocido: '' @ inp), []))
      else if ch = 0x08 then (on, ls, butlast inp)
      else (on, ls, if length inp < 69 then inp @ [char_at ch] else inp))"

definition cons_lines :: "'a gui_scheme \<Rightarrow> string list" where
  "cons_lines s = map (\<lambda>i. cstr (cons_history s ! ((cons_history_start s + i) mod 12))) [0..<cons_history_count s]"

definition cons_text :: "'a gui_scheme \<Rightarrow> string" where
  "cons_text s = take (cons_input_pos s) (cons_input s)"

definition console_abs :: "'a gui_scheme \<Rightarrow> bool \<times> string list \<times> string" where
  "console_abs s = (console_active s, cons_lines s, cons_text s)"

definition console_ok :: "'a gui_scheme \<Rightarrow> bool" where
  "console_ok s \<longleftrightarrow> length (cons_history s) = 12 \<and> (\<forall>row \<in> set (cons_history s). length row = 71)
     \<and> cons_history_start s < 12 \<and> cons_history_count s \<le> 12
     \<and> length (cons_input s) = 71 \<and> cons_input_pos s \<le> 69 \<and> cons_input s ! cons_input_pos s = NUL
     \<and> NUL \<notin> set (cons_text s)"

definition kbd_contents :: "'a gui_scheme \<Rightarrow> string" where
  "kbd_contents s = ring_contents (kbd_buf s) (kbd_head s) (kbd_tail s)"

definition kbd_ok :: "'a gui_scheme \<Rightarrow> bool" where
  "kbd_ok s \<longleftrightarrow> length (kbd_buf s) = 128 \<and> kbd_head s < 128 \<and> kbd_tail s < 128"

text \<open>The rest of the input, which the console leaves alone.\<close>

definition kbd_part :: "'a gui_scheme \<Rightarrow> (string \<times> nat \<times> nat) \<times> mouse_state \<times> gui_mouse_event list \<times> nat \<times> nat" where
  "kbd_part s = ((kbd_buf s, kbd_head s, kbd_tail s), g_mouse s, g_mouse_queue s, g_mouse_head s, g_mouse_tail s)"

text \<open>Drawing changes none of this.\<close>

lemma undrawn_console:
  fixes s t :: "'a gui_scheme"
  assumes "undrawn s = undrawn t"
  shows "console_abs s = console_abs t" "console_ok s = console_ok t" "kbd_part s = kbd_part t"
    "console_active s = console_active t" "console_win s = console_win t"
proof -
  have "console_abs u = console_abs (undrawn u)" "console_ok u = console_ok (undrawn u)" "kbd_part u = kbd_part (undrawn u)"
    "console_active u = console_active (undrawn u)" "console_win u = console_win (undrawn u)"
    for u :: "'a gui_scheme"
    by (simp_all add: undrawn_def console_abs_def cons_lines_def cons_text_def console_ok_def kbd_part_def)
  then show "console_abs s = console_abs t" "console_ok s = console_ok t" "kbd_part s = kbd_part t"
    "console_active s = console_active t" "console_win s = console_win t"
    using assms by metis+
qed

lemma ConsoleRedraw_undrawn [simp]: "undrawn (ConsoleRedraw s) = undrawn s"
  by (simp add: ConsoleRedraw_def Let_def fold_keeps [where P = undrawn])

lemmas redraw_keeps [simp] = undrawn_console [OF ConsoleRedraw_undrawn]

lemma kbd_part_keeps: "kbd_part s = kbd_part t \<Longrightarrow> kbd_contents s = kbd_contents t \<and> kbd_ok s = kbd_ok t"
  by (simp add: kbd_part_def kbd_contents_def kbd_ok_def)

lemma cons_text_cstr:
  assumes "console_ok s"
  shows "cstr (cons_input s) = cons_text s" "length (cons_text s) = cons_input_pos s" "length (cons_text s) \<le> 69"
proof -
  let ?p = "cons_input_pos s"
  have p: "?p < length (cons_input s)" "cons_input s ! ?p = NUL" "NUL \<notin> set (take ?p (cons_input s))"
    using assms by (simp_all add: console_ok_def cons_text_def)
  then have "cons_input s = take ?p (cons_input s) @ NUL # drop (Suc ?p) (cons_input s)"
    using id_take_nth_drop [OF p(1)] by simp
  then show "cstr (cons_input s) = cons_text s" using cstr_append [OF p(3)] unfolding cons_text_def by metis
  show "length (cons_text s) = ?p" "length (cons_text s) \<le> 69"
    using assms by (simp_all add: console_ok_def cons_text_def)
qed

text \<open>Adding a line.\<close>

lemma rotate_index:
  "\<lbrakk>st < 12; i < 12; j < 12; (st + i) mod 12 = (st + j) mod 12\<rbrakk> \<Longrightarrow> i = j" for st i j :: nat
  by (metis ring_distance)

definition line_added :: "string \<Rightarrow> 'a gui_scheme \<Rightarrow> 'a gui_scheme" where
  "line_added line s =
     (let idx = (if cons_history_count s < 12 then (cons_history_start s + cons_history_count s) mod 12
                 else cons_history_start s);
          row = (kg_strncpy (cons_history s ! idx) line 70)[70 := NUL]
      in (if cons_history_count s < 12 then s\<lparr>cons_history_count := cons_history_count s + 1\<rparr>
          else s\<lparr>cons_history_start := (cons_history_start s + 1) mod 12\<rparr>)
           \<lparr>cons_history := (cons_history s)[idx := row]\<rparr>)"

lemma ConsoleAddLine_redraws: "ConsoleAddLine line s = ConsoleRedraw (line_added line s)"
  by (cases "cons_history_count s < 12") (simp_all add: ConsoleAddLine_def line_added_def Let_def const_defs)

lemma line_added_lines:
  assumes "console_ok s" "NUL \<notin> set line"
  shows "cons_lines (line_added line s) = push_line (cons_lines s) line"
proof -
  let ?h = "cons_history s" and ?st = "cons_history_start s" and ?n = "cons_history_count s"
  let ?old = "\<lambda>i. cstr (?h ! ((?st + i) mod 12))"
  have h: "length ?h = 12" "\<And>k. k < 12 \<Longrightarrow> length (?h ! k) = 71" and st: "?st < 12" and n: "?n \<le> 12"
    using assms(1) by (auto simp: console_ok_def)
  define row where "row k = (kg_strncpy (?h ! k) line 70)[70 := NUL]" for k
  have row: "cstr (row k) = take 70 line" if "k < 12" for k
    unfolding row_def by (rule history_row(1) [OF h(2) [OF that] assms(2)])
  have len: "length (cons_lines s) = ?n" by (simp add: cons_lines_def)
  show ?thesis
  proof (cases "?n < 12")
    case True
    let ?idx = "(?st + ?n) mod 12"
    have "cons_lines (line_added line s) = map (\<lambda>i. cstr (?h[?idx := row ?idx] ! ((?st + i) mod 12))) [0..<?n + 1]"
      using True by (simp add: cons_lines_def line_added_def Let_def row_def)
    also have "\<dots> = map ?old [0..<?n] @ [take 70 line]"
    proof -
      have "?idx \<noteq> (?st + i) mod 12" if "i < ?n" for i using rotate_index [OF st, of ?n i] that True by auto
      then show ?thesis using h(1) row [of ?idx] by simp
    qed
    also have "\<dots> = push_line (cons_lines s) line"
      using True len by (simp add: push_line_def Let_def cons_lines_def)
    finally show ?thesis .
  next
    case False
    then have n12: "?n = 12" using n by simp
    have "cons_lines (line_added line s) = map (\<lambda>i. cstr (?h[?st := row ?st] ! ((?st + 1 + i) mod 12))) [0..<12]"
      using n12 by (simp add: cons_lines_def line_added_def Let_def row_def mod_simps)
    also have "\<dots> = map (\<lambda>i. ?old (Suc i)) [0..<11] @ [take 70 line]"
    proof -
      have "?st \<noteq> (?st + 1 + i) mod 12" if "i < 11" for i using rotate_index [OF st, of 0 "Suc i"] that st by auto
      moreover have "(?st + 12) mod 12 = ?st" using st by simp
      moreover have "[0..<12] = [0..<11] @ [11 :: nat]" by (simp add: upt_conv_Cons)
      ultimately show ?thesis using h(1) row [OF st] st by simp
    qed
    also have "map (\<lambda>i. ?old (Suc i)) [0..<11] = drop 1 (map ?old [0..<12])"
      by (rule nth_equalityI) simp_all
    also have "drop 1 (map ?old [0..<12]) @ [take 70 line] = push_line (cons_lines s) line"
      using n12 len by (simp add: push_line_def Let_def cons_lines_def)
    finally show ?thesis .
  qed
qed

lemma line_added_fields [simp]:
  "cons_input (line_added line s) = cons_input s" "cons_input_pos (line_added line s) = cons_input_pos s"
  "cons_text (line_added line s) = cons_text s" "console_active (line_added line s) = console_active s"
  "console_win (line_added line s) = console_win s" "kbd_part (line_added line s) = kbd_part s"
  by (simp_all add: line_added_def Let_def cons_text_def kbd_part_def)

lemma line_added_ok:
  assumes "console_ok s"
  shows "console_ok (line_added line s)"
proof -
  have row: "length ((kg_strncpy r line 70)[70 := NUL]) = 71" if "length r = 71" for r
    using that by (simp add: kg_strncpy_eq)
  have "length (cons_history s ! k) = 71" if "k < 12" for k using assms that by (auto simp: console_ok_def)
  moreover have "(cons_history_start s + cons_history_count s) mod 12 < 12" "cons_history_start s < 12"
    using assms by (simp_all add: console_ok_def)
  ultimately have new: "length ((kg_strncpy (cons_history s ! ((cons_history_start s + cons_history_count s) mod 12)) line 70)[70 := NUL]) = 71"
    "length ((kg_strncpy (cons_history s ! cons_history_start s) line 70)[70 := NUL]) = 71"
    using row by blast+
  show ?thesis
  proof (cases "cons_history_count s < 12")
    case True
    then show ?thesis using assms new(1)
      by (auto simp: console_ok_def line_added_def Let_def cons_text_def dest!: subsetD [OF set_update_subset_insert])
  next
    case False
    then show ?thesis using assms new(2)
      by (auto simp: console_ok_def line_added_def Let_def cons_text_def dest!: subsetD [OF set_update_subset_insert])
  qed
qed

lemma ConsoleAddLine_result:
  assumes "console_ok s" "NUL \<notin> set line"
  shows "console_ok (ConsoleAddLine line s)"
    and "console_abs (ConsoleAddLine line s) = (console_active s, push_line (cons_lines s) line, cons_text s)"
    and "kbd_part (ConsoleAddLine line s) = kbd_part s"
  using line_added_ok [OF assms(1)] line_added_lines [OF assms]
  by (simp_all add: ConsoleAddLine_redraws console_abs_def [of "line_added line s"])

lemma ConsoleClear_result:
  assumes "length (cons_history s) = 12" "\<forall>row \<in> set (cons_history s). length row = 71" "length (cons_input s) = 71"
  shows "console_ok (ConsoleClear s)" "console_abs (ConsoleClear s) = (console_active s, [], [])"
    and "kbd_part (ConsoleClear s) = kbd_part s" "console_win (ConsoleClear s) = console_win s"
proof -
  let ?h = "fold (\<lambda>i h. h[i := (h ! i)[0 := NUL]]) [0..<12] (cons_history s)"
  let ?t = "s\<lparr>cons_history := ?h, cons_history_start := 0, cons_history_count := 0, cons_input_pos := 0,
      cons_input := (cons_input s)[0 := NUL]\<rparr>"
  have rows: "length h = 12 \<and> (\<forall>row \<in> set h. length row = (71 :: nat)) \<Longrightarrow>
      length (fold (\<lambda>i h. h[i := (h ! i)[0 := c]]) is h) = 12 \<and> (\<forall>row \<in> set (fold (\<lambda>i h. h[i := (h ! i)[0 := c]]) is h). length row = 71)"
    if "\<forall>i \<in> set is. i < 12" for "is" and h :: "'b list list" and c
    using that
  proof (induction "is" arbitrary: h)
    case (Cons i "is")
    have "\<forall>row \<in> set (h[i := (h ! i)[0 := c]]). length row = 71"
      using Cons.prems by (auto dest!: subsetD [OF set_update_subset_insert])
    then show ?case using Cons.IH [of "h[i := (h ! i)[0 := c]]"] Cons.prems by simp
  qed simp
  have "console_ok ?t"
    using assms(3) rows [of "[0..<12]" "cons_history s" NUL] assms(1,2) by (simp add: console_ok_def cons_text_def)
  moreover have "console_abs ?t = (console_active s, [], [])"
    by (simp add: console_abs_def cons_lines_def cons_text_def)
  moreover have "kbd_part ?t = kbd_part s" "console_win ?t = console_win s" by (simp_all add: kbd_part_def)
  moreover have "ConsoleClear s = ConsoleRedraw ?t" by (simp add: ConsoleClear_def Let_def CONS_ROWS_def)
  ultimately show "console_ok (ConsoleClear s)" "console_abs (ConsoleClear s) = (console_active s, [], [])"
    "kbd_part (ConsoleClear s) = kbd_part s" "console_win (ConsoleClear s) = console_win s" by (simp_all only: redraw_keeps)
qed

lemma ConsoleClear_active [simp]: "console_active (ConsoleClear s) = console_active s"
  by (simp add: ConsoleClear_def Let_def)

lemma ConsolePrint_line:
  assumes "CHR 0x0A \<notin> set str" "length str \<le> 69"
  shows "ConsolePrint (str @ [CHR 0x0A]) s = ConsoleAddLine str s"
proof -
  have "console_print_from (str @ [CHR 0x0A]) buf s = ConsoleAddLine (buf @ str) s"
    if "CHR 0x0A \<notin> set str" "length buf + length str \<le> 69" for str buf
    using that by (induction str arbitrary: buf) (auto simp: CONS_COLS_def)
  then show ?thesis using assms by (simp add: ConsolePrint_def)
qed

subsection \<open>One character\<close>

lemma console_execute_result:
  assumes ok: "console_ok s" and cmd: "NUL \<notin> set cmd"
  shows "console_ok (console_execute cmd s)" "kbd_part (console_execute cmd s) = kbd_part s"
    "console_active (console_execute cmd s) = console_active s"
    "cons_lines (console_execute cmd s) =
       (if cmd = ''help'' then push_line (push_line (cons_lines s) ''help - lista de comandos'') ''clear - limpiar pantalla''
        else if cmd = ''clear'' then [] else push_line (cons_lines s) (''comando desconocido: '' @ cmd))"
proof -
  have which: "kg_strcmp cmd ''help'' = 0 \<longleftrightarrow> cmd = ''help''" "kg_strcmp cmd ''clear'' = 0 \<longleftrightarrow> cmd = ''clear''"
    using cmd by (simp_all add: kg_strcmp_zero)
  consider "cmd = ''help''" | "cmd = ''clear''" | "cmd \<noteq> ''help''" "cmd \<noteq> ''clear''" by blast
  then have "console_ok (console_execute cmd s) \<and> kbd_part (console_execute cmd s) = kbd_part s
    \<and> console_active (console_execute cmd s) = console_active s \<and> cons_lines (console_execute cmd s) =
       (if cmd = ''help'' then push_line (push_line (cons_lines s) ''help - lista de comandos'') ''clear - limpiar pantalla''
        else if cmd = ''clear'' then [] else push_line (cons_lines s) (''comando desconocido: '' @ cmd))"
  proof cases
    case 1
    let ?a = "ConsoleAddLine ''help - lista de comandos'' s" and ?b = "''clear - limpiar pantalla''"
    have "kg_strcmp cmd ''help'' = 0" using which(1) 1 by simp
    then have "console_execute cmd s = ConsoleAddLine ?b ?a"
      unfolding console_execute_def Let_def
      by (simp only: simp_thms if_True ConsolePrint_line [where str = "''help - lista de comandos''", simplified]
          ConsolePrint_line [where str = ?b, simplified] append.simps)
    moreover have "console_ok ?a" "console_active ?a = console_active s" "kbd_part ?a = kbd_part s"
      "cons_lines ?a = push_line (cons_lines s) ''help - lista de comandos''"
      using ConsoleAddLine_result [OF ok, of "''help - lista de comandos''"] by (simp_all add: console_abs_def)
    ultimately show ?thesis
      using ConsoleAddLine_result [of ?a ?b] 1 by (simp add: console_abs_def)
  next
    case 2
    have "console_execute cmd s = ConsoleClear s"
      using 2 by (simp add: console_execute_def kg_strcmp_zero)
    moreover have "length (cons_history s) = 12" "\<forall>row \<in> set (cons_history s). length row = 71" "length (cons_input s) = 71"
      using ok by (simp_all add: console_ok_def)
    ultimately show ?thesis using ConsoleClear_result [of s] 2 by (simp add: console_abs_def)
  next
    case 3
    define l where "l = cstr (kg_strncat (kg_strncpy (replicate 71 (CHR 0xCC)) ''comando desconocido: '' 70) cmd 71)"
    have "console_execute cmd s = ConsoleAddLine l s"
      using 3 which by (simp add: console_execute_def CONS_COLS_def Let_def l_def)
    moreover have l: "l = take 70 (''comando desconocido: '' @ cmd)"
      unfolding l_def by (rule unknown_command) (use cmd in simp_all)
    moreover have "NUL \<notin> set l" unfolding l using cmd by (auto dest!: in_set_takeD)
    moreover have "push_line (cons_lines s) l = push_line (cons_lines s) (''comando desconocido: '' @ cmd)"
      unfolding l push_line_def by simp
    ultimately show ?thesis using ConsoleAddLine_result [OF ok, of l] 3 by (simp add: console_abs_def)
  qed
  then show "console_ok (console_execute cmd s)" "kbd_part (console_execute cmd s) = kbd_part s"
    "console_active (console_execute cmd s) = console_active s"
    "cons_lines (console_execute cmd s) =
       (if cmd = ''help'' then push_line (push_line (cons_lines s) ''help - lista de comandos'') ''clear - limpiar pantalla''
        else if cmd = ''clear'' then [] else push_line (cons_lines s) (''comando desconocido: '' @ cmd))" by blast+
qed

text \<open>Storing a character of the input line, and taking one back.\<close>

lemma butlast_take_less: "p \<le> length xs \<Longrightarrow> butlast (take p xs) = take (p - 1) xs"
  by (simp add: butlast_take)

lemma input_cleared:
  assumes "console_ok s"
  shows "console_ok (s\<lparr>cons_input_pos := 0, cons_input := (cons_input s)[0 := NUL]\<rparr>)"
    "console_abs (s\<lparr>cons_input_pos := 0, cons_input := (cons_input s)[0 := NUL]\<rparr>) = (console_active s, cons_lines s, [])"
    "kbd_part (s\<lparr>cons_input_pos := 0, cons_input := (cons_input s)[0 := NUL]\<rparr>) = kbd_part s"
  using assms by (auto simp: console_ok_def console_abs_def cons_lines_def cons_text_def kbd_part_def)

lemma ConsoleProcessChar_refines:
  assumes ok: "console_ok s" and ch: "ch \<noteq> 0"
  shows "console_ok (ConsoleProcessChar ch s)"
    and "console_abs (ConsoleProcessChar ch s) = con_step ch (console_abs s)"
    and "kbd_part (ConsoleProcessChar ch s) = kbd_part s"
proof -
  have shape: "length (cons_history s) = 12" "\<forall>row \<in> set (cons_history s). length row = 71" "length (cons_input s) = 71"
    "cons_input_pos s \<le> 69" "cons_input s ! cons_input_pos s = NUL" "NUL \<notin> set (cons_text s)"
    using ok by (simp_all add: console_ok_def)
  let ?p = "cons_input_pos s" and ?c = "ConsoleProcessChar ch s"
  have nul: "char_at ch \<noteq> NUL"
  proof
    assume "char_at ch = NUL"
    then have "ch = byte_of NUL" using byte_of_char_at [of ch] by metis
    then show False using ch by (simp add: byte_of_def)
  qed
  consider "ch = 0xF1" "console_active s" | "ch = 0xF1" "\<not> console_active s" | "ch \<noteq> 0xF1" "\<not> console_active s"
    | "ch = 0x0A" "console_active s" | "ch = 0x08" "console_active s"
    | "ch \<noteq> 0xF1" "ch \<noteq> 0x0A" "ch \<noteq> 0x08" "console_active s" by blast
  then have "console_ok ?c \<and> console_abs ?c = con_step ch (console_abs s) \<and> kbd_part ?c = kbd_part s"
  proof cases
    case 1
    let ?t = "s\<lparr>console_active := False, console_win := (console_win s)\<lparr>win_visible := 0\<rparr>\<rparr>"
    have c: "?c = GuiDrawTaskbar (GuiDrawDesktop ?t)" using 1 by (simp add: ConsoleProcessChar_def Let_def)
    have "undrawn (GuiDrawTaskbar (GuiDrawDesktop ?t)) = undrawn ?t" by simp
    note same = undrawn_console [OF this]
    have "console_ok ?t = console_ok s" "kbd_part ?t = kbd_part s" "console_abs ?t = (False, cons_lines s, cons_text s)"
      by (simp_all add: console_ok_def kbd_part_def console_abs_def cons_lines_def cons_text_def)
    then show ?thesis using 1 ok unfolding c same by (simp add: console_abs_def)
  next
    case 2
    let ?t = "s\<lparr>console_active := True, console_win := (console_win s)\<lparr>win_visible := 1\<rparr>\<rparr>"
    let ?u = "GuiDrawWindow (Some (console_win (ConsoleClear ?t))) (ConsoleClear ?t)"
    have g: "CHR 0x0A \<notin> set greeting" "length greeting \<le> 69" "NUL \<notin> set greeting" by (simp_all add: greeting_def)
    have "ConsoleProcessChar ch s = ConsolePrint (greeting @ [CHR 0x0A]) ?u"
      using 2 by (simp add: ConsoleProcessChar_def Let_def greeting_def ConsoleClear_active)
    then have c: "?c = ConsoleAddLine greeting ?u" unfolding ConsolePrint_line [OF g(1,2)] .
    have clear: "console_ok (ConsoleClear ?t)" "console_abs (ConsoleClear ?t) = (True, [], [])" "kbd_part (ConsoleClear ?t) = kbd_part s"
      using ConsoleClear_result [of ?t] shape by (simp_all add: kbd_part_def)
    have "undrawn ?u = undrawn (ConsoleClear ?t)" by simp
    note same = undrawn_console [OF this]
    show ?thesis using ConsoleAddLine_result [OF _ g(3), of ?u] clear 2 same
      unfolding c by (simp add: console_abs_def)
  next
    case 3
    then show ?thesis using ok by (simp add: ConsoleProcessChar_def console_abs_def)
  next
    case 4
    let ?a = "ConsoleAddLine (cons_text s) s"
    let ?e = "console_execute (cons_text s) ?a"
    let ?t = "?e\<lparr>cons_input_pos := 0, cons_input := (cons_input ?e)[0 := NUL]\<rparr>"
    have a: "console_ok ?a" "console_active ?a = console_active s" "cons_lines ?a = push_line (cons_lines s) (cons_text s)"
      "cons_text ?a = cons_text s" "kbd_part ?a = kbd_part s"
      using ConsoleAddLine_result [OF ok shape(6)] 4 by (simp_all add: console_abs_def)
    note e = console_execute_result [OF a(1) shape(6)]
    have "(cons_input s)[?p := NUL] = cons_input s" using shape(5) list_update_id by metis
    moreover have "cstr (cons_input s) = cons_text s" "cstr (cons_input ?a) = cons_text s"
      using cons_text_cstr(1) [OF ok] cons_text_cstr(1) [OF a(1)] a(4) by simp_all
    ultimately have c: "?c = ?t" using 4 by (simp add: ConsoleProcessChar_def Let_def)
    note cleared = input_cleared [OF e(1)]
    have step: "con_step ch (console_abs s) = (console_active s,
       (if cons_text s = ''help'' then push_line (push_line (push_line (cons_lines s) (cons_text s)) ''help - lista de comandos'')
           ''clear - limpiar pantalla''
        else if cons_text s = ''clear'' then []
        else push_line (push_line (cons_lines s) (cons_text s)) (''comando desconocido: '' @ cons_text s)), [])"
      using 4 by (simp add: console_abs_def Let_def)
    have "console_abs ?t = con_step ch (console_abs s)" unfolding cleared(2) e(3,4) a(2,3) step by (rule refl)
    moreover have "kbd_part ?t = kbd_part s" unfolding cleared(3) e(2) a(5) by (rule refl)
    ultimately show ?thesis unfolding c using cleared(1) by blast
  next
    case 5
    let ?t = "s\<lparr>cons_input_pos := ?p - 1, cons_input := (cons_input s)[?p - 1 := NUL]\<rparr>"
    show ?thesis
    proof (cases "?p > 0")
      case True
      have c: "?c = ConsoleRedraw ?t" using 5 True by (simp add: ConsoleProcessChar_def Let_def)
      have text_t: "cons_text ?t = butlast (cons_text s)"
        using shape(3,4) by (simp add: cons_text_def butlast_take_less)
      have "console_ok ?t" using shape ok text_t True
        by (auto simp: console_ok_def dest: in_set_butlastD)
      moreover have "console_abs ?t = con_step ch (console_abs s)"
        using text_t 5 by (simp add: console_abs_def cons_lines_def)
      moreover have "kbd_part ?t = kbd_part s" by (simp add: kbd_part_def)
      ultimately show ?thesis unfolding c by simp
    next
      case False
      then have "?c = s" "cons_text s = []" using 5 by (simp_all add: ConsoleProcessChar_def cons_text_def)
      then show ?thesis using 5 ok by (simp add: console_abs_def)
    qed
  next
    case 6
    let ?t = "s\<lparr>cons_input_pos := ?p + 1, cons_input := (cons_input s)[?p := char_at ch, ?p + 1 := NUL]\<rparr>"
    show ?thesis
    proof (cases "?p < 69")
      case True
      have c: "?c = ConsoleRedraw ?t"
        using 6 True by (simp add: ConsoleProcessChar_def Let_def CONS_COLS_def)
      have text_t: "cons_text ?t = cons_text s @ [char_at ch]"
        using shape(3,4) by (simp add: cons_text_def take_Suc_conv_app_nth)
      have "console_ok ?t" using shape ok text_t True nul by (auto simp: console_ok_def)
      moreover have "console_abs ?t = con_step ch (console_abs s)"
        using text_t 6 True cons_text_cstr(2) [OF ok] by (simp add: console_abs_def cons_lines_def)
      moreover have "kbd_part ?t = kbd_part s" by (simp add: kbd_part_def)
      ultimately show ?thesis unfolding c by simp
    next
      case False
      then have "?c = s" using 6 by (simp add: ConsoleProcessChar_def CONS_COLS_def)
      then show ?thesis using 6 ok False cons_text_cstr(2) [OF ok] by (simp add: console_abs_def)
    qed
  qed
  then show "console_ok ?c" "console_abs ?c = con_step ch (console_abs s)" "kbd_part ?c = kbd_part s" by blast+
qed

subsection \<open>The keyboard queue\<close>

lemma kbd_put_queue:
  assumes "kbd_ok s"
  shows "kbd_ok (kbd_put c s)"
    "kbd_contents (kbd_put c s) = (if length (kbd_contents s) < 127 then kbd_contents s @ [c] else kbd_contents s)"
proof -
  have b: "length (kbd_buf s) = 128" "kbd_head s < length (kbd_buf s)" "kbd_tail s < length (kbd_buf s)"
    using assms by (simp_all add: kbd_ok_def)
  show "kbd_ok (kbd_put c s)" using assms by (simp add: kbd_put_def Let_def kbd_ok_def KBD_BUF_SIZE_def)
  have "length (kbd_contents s) \<le> 127"
    using b(1) mod_less_divisor [of 128 "kbd_head s + 128 - kbd_tail s"]
    by (simp add: kbd_contents_def ring_contents_def)
  then show "kbd_contents (kbd_put c s) = (if length (kbd_contents s) < 127 then kbd_contents s @ [c] else kbd_contents s)"
    using ring_put(1) [OF b(2,3)] ring_put(2) [OF b(2,3), where e = c] b(1)
    by (auto simp: kbd_put_def Let_def kbd_contents_def KBD_BUF_SIZE_def)
qed

lemma kbd_getchar_queue:
  assumes "kbd_ok s"
  shows "kbd_ok (snd (kbd_getchar s))"
    "fst (kbd_getchar s) = (case kbd_contents s of [] \<Rightarrow> None | c # _ \<Rightarrow> Some c)"
    "kbd_contents (snd (kbd_getchar s)) = tl (kbd_contents s)"
proof -
  have b: "length (kbd_buf s) = 128" "kbd_head s < length (kbd_buf s)" "kbd_tail s < length (kbd_buf s)"
    using assms by (simp_all add: kbd_ok_def)
  show "kbd_ok (snd (kbd_getchar s))" using assms by (simp add: kbd_getchar_def kbd_ok_def KBD_BUF_SIZE_def)
  show "fst (kbd_getchar s) = (case kbd_contents s of [] \<Rightarrow> None | c # _ \<Rightarrow> Some c)"
    "kbd_contents (snd (kbd_getchar s)) = tl (kbd_contents s)"
    using ring_get [OF b(2,3)] b(1) by (auto simp: kbd_getchar_def kbd_contents_def KBD_BUF_SIZE_def)
qed

interpretation kbd_queue: bounded_queue kbd_put kbd_getchar kbd_contents kbd_ok 127
  by unfold_locales (simp_all add: kbd_put_queue kbd_getchar_queue)

text \<open>
  C33: The keyboard buffer is a first-in-first-out queue of 127 characters: whatever the order in which
  the interrupt handler puts characters and the console takes them, what is taken and what is left
  are the accepted characters in their order, those that find the queue full being dropped; while
  all of them fit, none is lost.
\<close>

theorem keyboard_buffer_is_queue:
  assumes "kbd_ok s" "ring_run kbd_put kbd_getchar ops s = (out, t)"
  shows "kbd_ok t \<and> (out, kbd_contents t) = queue_run 127 ops (kbd_contents s)
    \<and> subseq (out @ kbd_contents t) (kbd_contents s @ puts_of ops)
    \<and> (length (kbd_contents s) + length (puts_of ops) \<le> 127 \<longrightarrow> out @ kbd_contents t = kbd_contents s @ puts_of ops)"
  using kbd_queue.run_refines [OF assms(1), of ops] queue_run_subseq [of 127 ops "kbd_contents s"]
    queue_run_keeps [of "kbd_contents s" ops 127] assms(2)
  by (auto simp: prod_eq_iff)

lemma char_at_NUL: "char_at b = NUL \<longleftrightarrow> b = 0"
proof
  assume "char_at b = NUL"
  then have "b = byte_of NUL" using byte_of_char_at [of b] by metis
  then show "b = 0" by (simp add: byte_of_def)
qed (simp add: char_at_def char_of_def)

lemma GuiKeyboardHandler_ok:
  assumes "kbd_ok s" "NUL \<notin> set (kbd_contents s)"
  shows "kbd_ok (GuiKeyboardHandler sc s)" "NUL \<notin> set (kbd_contents (GuiKeyboardHandler sc s))"
  using assms kbd_put_queue [OF assms(1)] by (auto simp: GuiKeyboardHandler_def char_at_NUL dest: sym)

definition desktop_on :: gui where
  "desktop_on = mouse.extend mouse_on
     (gui.fields (''hi'' @ [CHR 0x0A] @ replicate 125 NUL) 3 0 (replicate 12 (replicate 71 NUL)) 0 0 (replicate 71 NUL) 0 True
       \<lparr>win_x = 10, win_y = 10, win_w = 620, win_h = 200, win_title = Some ''Console'', win_visible = 1\<rparr>
       (replicate 32 \<lparr>ev_x = 0, ev_y = 0, ev_buttons = 0\<rparr>) 0 0)"

lemma desktop_on_fields:
  "kbd_buf desktop_on = ''hi'' @ [CHR 0x0A] @ replicate 125 NUL" "kbd_head desktop_on = 3" "kbd_tail desktop_on = 0"
  "cons_history desktop_on = replicate 12 (replicate 71 NUL)" "cons_history_start desktop_on = 0"
  "cons_history_count desktop_on = 0" "cons_input desktop_on = replicate 71 NUL" "cons_input_pos desktop_on = 0"
  "console_active desktop_on" "g_mouse_head desktop_on = 0" "g_mouse_tail desktop_on = 0"
  "g_mouse_queue desktop_on = replicate 32 \<lparr>ev_x = 0, ev_y = 0, ev_buttons = 0\<rparr>"
  by (simp_all add: desktop_on_def gui.defs mouse.defs)

lemma desktop_on_ok: "kbd_ok desktop_on" "console_ok desktop_on" "kbd_contents desktop_on = ''hi'' @ [CHR 0x0A]"
  "console_abs desktop_on = (True, [], [])"
proof -
  show "kbd_ok desktop_on" "console_ok desktop_on" "console_abs desktop_on = (True, [], [])"
    by (simp_all add: kbd_ok_def console_ok_def console_abs_def cons_lines_def cons_text_def desktop_on_fields)
  show "kbd_contents desktop_on = ''hi'' @ [CHR 0x0A]"
    by (simp add: kbd_contents_def ring_contents_def desktop_on_fields upt_conv_Cons)
qed

theorem keyboard_buffer_is_queue_witness:
  "\<exists>out t. ring_run kbd_put kbd_getchar [Get, Put (CHR ''x''), Get] desktop_on = (out, t)
    \<and> out @ kbd_contents t = ''hi'' @ [CHR 0x0A, CHR ''x'']"
proof -
  obtain out t where run: "ring_run kbd_put kbd_getchar [Get, Put (CHR ''x''), Get] desktop_on = (out, t)" by fastforce
  show ?thesis using keyboard_buffer_is_queue [OF desktop_on_ok(1) run] run by (auto simp: desktop_on_ok)
qed

subsection \<open>The console\<close>

lemma ConsoleProcess_result:
  assumes "kbd_ok s" "console_ok s" "NUL \<notin> set (kbd_contents s)"
  shows "\<exists>t. ConsoleProcess s = Some t \<and> kbd_ok t \<and> console_ok t \<and> kbd_contents t = []
    \<and> console_abs t = fold con_step (map byte_of (kbd_contents s)) (console_abs s)
    \<and> snd (kbd_part t) = snd (kbd_part s)"
  using assms
proof (induction "kbd_contents s" arbitrary: s)
  case Nil
  then have "kbd_getchar s = (None, s)"
    using kbd_getchar_queue(2) [OF Nil(2)] by (simp add: kbd_getchar_def split: if_splits)
  then show ?case using Nil by (subst ConsoleProcess.simps) simp
next
  case (Cons c cs)
  obtain u where get: "kbd_getchar s = (Some c, u)"
    using kbd_getchar_queue(2) [OF Cons(3)] Cons(2) [symmetric] by (cases "kbd_getchar s") simp
  have u: "kbd_ok u" "kbd_contents u = cs"
    using kbd_getchar_queue(1,3) [OF Cons(3)] Cons(2) [symmetric] get by simp_all
  have same: "console_ok u = console_ok s" "console_abs u = console_abs s" "snd (kbd_part u) = snd (kbd_part s)"
    using get by (auto simp: kbd_getchar_def console_ok_def console_abs_def cons_lines_def cons_text_def kbd_part_def split: if_splits)
  have "byte_of c \<noteq> 0"
  proof
    assume "byte_of c = 0"
    then have "char_at (byte_of c) = NUL" by (simp only: char_at_NUL)
    then show False using Cons(2,5) by (metis char_at_byte_of list.set_intros(1))
  qed
  note step = ConsoleProcessChar_refines [OF Cons(4) [folded same(1)] this]
  let ?v = "ConsoleProcessChar (byte_of c) u"
  have v: "kbd_ok ?v" "kbd_contents ?v = cs" using kbd_part_keeps [OF step(3)] u by simp_all
  have "NUL \<notin> set cs" using Cons(2,5) by (metis list.set_intros(2))
  then obtain t where "ConsoleProcess ?v = Some t" "kbd_ok t" "console_ok t" "kbd_contents t = []"
    "console_abs t = fold con_step (map byte_of cs) (console_abs ?v)" "snd (kbd_part t) = snd (kbd_part ?v)"
    using Cons(1) [of ?v] v step(1) by auto
  moreover have "ConsoleProcess s = ConsoleProcess ?v" using get by (subst ConsoleProcess.simps) simp
  ultimately show ?case using step(2,3) same(2,3) Cons(2) [symmetric] by simp
qed

text \<open>
  C6: Emptying the keyboard queue always ends, and the console then is what an abstract one makes of
  those characters: F1 toggles it, a line is edited and cut at 69 characters, Enter runs the
  commands \<open>help\<close> and \<open>clear\<close> or reports an unknown one, and the last twelve lines stay, each cut at
  70 characters. All buffers stay well formed.
\<close>

theorem ConsoleProcess_refines_console:
  assumes "kbd_ok s" "console_ok s" "NUL \<notin> set (kbd_contents s)"
  shows "\<exists>t. ConsoleProcess s = Some t \<and> kbd_ok t \<and> console_ok t \<and> kbd_contents t = []
    \<and> console_abs t = fold con_step (map byte_of (kbd_contents s)) (console_abs s)"
  using ConsoleProcess_result [OF assms] by blast

theorem ConsoleProcess_refines_console_witness:
  "\<exists>t. ConsoleProcess desktop_on = Some t \<and> console_abs t = (True, [''hi'', ''comando desconocido: hi''], [])"
proof -
  have "fold con_step (map byte_of (''hi'' @ [CHR 0x0A])) (True, [], []) = (True, [''hi'', ''comando desconocido: hi''], [])"
    by (simp add: byte_of_def char_at_def char_of_def bit_0 push_line_def Let_def)
  then show ?thesis
    using ConsoleProcess_refines_console [OF desktop_on_ok(1,2)] by (auto simp: desktop_on_ok(3,4))
qed

end
