(* ===== verification/Gui_Loop.thy ===== *)
theory Gui_Loop
  imports Gui_Console
begin

unbundle bit_operations_syntax

section \<open>The main loop of the graphical interface\<close>

text \<open>
  Models the rest of \<open>drivers/video/vga/vga_gui.c\<close>: the queue of mouse events, the clock, the start-up
  sound and \<open>GuiMainLoop\<close>. The local variables of the loop are a record. An interrupt (\<open>gui_irq\<close>) is
  handled where the code halts to wait for one; what reaches the loop from outside is the choice of
  the interrupts and the bytes of the ports, so a statement about all of them covers every run.
  Only the tick counter and the keyboard are in an interrupt's effect here; switching to other threads
  is the scheduler's part.
\<close>

datatype gui_irq = Irq_Timer | Irq_Keyboard

definition gui_interrupt :: "gui_irq \<Rightarrow> 'a gui_scheme \<Rightarrow> 'a gui_scheme" where
  "gui_interrupt irq s = (case irq of Irq_Timer \<Rightarrow> syscall_tick_increment s | Irq_Keyboard \<Rightarrow> irq1_keyboard_handler s)"

subsection \<open>Mouse events\<close>

definition MOUSE_QUEUE_SIZE :: nat where [const_defs]: "MOUSE_QUEUE_SIZE = 32"

definition GuiInit :: "'a gui_scheme \<Rightarrow> 'a gui_scheme" where
  "GuiInit s =
     (let s = s\<lparr>g_mouse_head := 0, g_mouse_tail := 0\<rparr>;
          s = CursorInit s;
          s = s\<lparr>kbd_head := 0, kbd_tail := 0\<rparr>
      in ConsoleClear s)"

definition GuiQueueMouseEvent :: "int \<Rightarrow> int \<Rightarrow> int \<Rightarrow> 'a gui_scheme \<Rightarrow> 'a gui_scheme" where
  "GuiQueueMouseEvent x y buttons s =
     (let nxt = (g_mouse_head s + 1) mod MOUSE_QUEUE_SIZE in
      if nxt = g_mouse_tail s then s
      else s\<lparr>g_mouse_queue := (g_mouse_queue s)[g_mouse_head s := \<lparr>ev_x = x, ev_y = y, ev_buttons = buttons\<rparr>],
             g_mouse_head := nxt\<rparr>)"

text \<open>The event, or \<open>None\<close> for the answer \<open>-1\<close>, which leaves \<open>*out\<close> alone.\<close>

definition GuiGetMouseEvent :: "'a gui_scheme \<Rightarrow> gui_mouse_event option \<times> 'a gui_scheme" where
  "GuiGetMouseEvent s =
     (if g_mouse_head s = g_mouse_tail s then (None, s)
      else (Some (g_mouse_queue s ! g_mouse_tail s), s\<lparr>g_mouse_tail := (g_mouse_tail s + 1) mod MOUSE_QUEUE_SIZE\<rparr>))"

subsection \<open>Sound and clock\<close>

text \<open>
  \<open>while ((get_tick_count() - start) < ticks) hlt\<close>: \<open>irqs\<close> are the interrupts still to come, one for
  each halt; the result has those that are left.
\<close>

partial_function (option) wait_ticks ::
  "u32 \<Rightarrow> u32 \<Rightarrow> (nat \<Rightarrow> gui_irq) \<Rightarrow> 'a gui_scheme \<Rightarrow> ((nat \<Rightarrow> gui_irq) \<times> 'a gui_scheme) option" where
  "wait_ticks start ticks irqs s =
     (if get_tick_count s - start < ticks
      then wait_ticks start ticks (\<lambda>n. irqs (n + 1)) (gui_interrupt (irqs 0) s)
      else Some (irqs, s))"

definition pc_speaker_beep ::
  "u32 \<Rightarrow> u32 \<Rightarrow> (nat \<Rightarrow> gui_irq) \<Rightarrow> 'a gui_scheme \<Rightarrow> ((nat \<Rightarrow> gui_irq) \<times> 'a gui_scheme) option" where
  "pc_speaker_beep freq ticks irqs s =
     (let divisor = 1193180 div freq;
          s = outb 0x43 0xB6 s;
          s = outb 0x42 (ucast (divisor AND 0xFF)) s;
          s = outb 0x42 (ucast (drop_bit 8 divisor)) s;
          (tmp, s) = ps2_inb 0x61 s;
          s = (if tmp AND 3 \<noteq> 3 then outb 0x61 (tmp OR 3) s else s);
          start = get_tick_count s
      in Option.bind (wait_ticks start ticks irqs s) (\<lambda>(irqs, s).
           let (v, s) = ps2_inb 0x61 s; tmp = v AND NOT 3 in Some (irqs, outb 0x61 tmp s)))"

definition PlayStartupSound :: "(nat \<Rightarrow> gui_irq) \<Rightarrow> 'a gui_scheme \<Rightarrow> ((nat \<Rightarrow> gui_irq) \<times> 'a gui_scheme) option" where
  "PlayStartupSound irqs s =
     Option.bind (pc_speaker_beep 440 25 irqs s) (\<lambda>(irqs, s). pc_speaker_beep 880 25 irqs s)"

definition bcd2bin :: "u8 \<Rightarrow> u8" where
  "bcd2bin v = (v AND 0x0F) + drop_bit 4 v * 10"

text \<open>One register of the CMOS clock: \<open>outb(0x70, reg); bcd2bin(inb(0x71))\<close>.\<close>

definition rtc_field :: "u8 \<Rightarrow> 'a gui_scheme \<Rightarrow> u8 \<times> 'a gui_scheme" where
  "rtc_field reg s = (let s = outb 0x70 reg s; (v, s) = ps2_inb 0x71 s in (bcd2bin v, s))"

definition read_rtc :: "'a gui_scheme \<Rightarrow> u8 \<times> u8 \<times> u8 \<times> 'a gui_scheme" where
  "read_rtc s =
     (let (sec, s) = rtc_field 0x00 s; (m, s) = rtc_field 0x02 s; (h, s) = rtc_field 0x04 s in (h, m, sec, s))"

definition two_digits :: "u8 \<Rightarrow> string" where
  "two_digits v = [char_at (0x30 + v div 10), char_at (0x30 + v mod 10)]"

text \<open>\<open>hh:mm:ss dd/mm/yy\<close>, from the clock's registers.\<close>

definition read_clock :: "'a gui_scheme \<Rightarrow> string \<times> 'a gui_scheme" where
  "read_clock s =
     (let (h, m, sec, s) = read_rtc s;
          (d, s) = rtc_field 0x07 s; (mo, s) = rtc_field 0x08 s; (y, s) = rtc_field 0x09 s
      in (two_digits h @ '':'' @ two_digits m @ '':'' @ two_digits sec @ '' '' @
          two_digits d @ ''/'' @ two_digits mo @ ''/'' @ two_digits y, s))"

subsection \<open>The loop\<close>

record trail_point =
  trail_x :: int
  trail_y :: int
  trail_life :: int

record gui_locals =
  prev_x :: int
  prev_y :: int
  prev_buttons :: int
  last_tick :: u32
  menu_open :: bool
  trail :: "trail_point list"

definition TRAIL_MAX :: nat where [const_defs]: "TRAIL_MAX = 8"
definition TRAIL_LIFE :: int where [const_defs]: "TRAIL_LIFE = 5"

text \<open>The code before the loop. The trail's coordinates have no value yet; nothing reads them.\<close>

definition gui_loop_start :: "(nat \<Rightarrow> gui_irq) \<Rightarrow> 'a gui_scheme \<Rightarrow> (gui_locals \<times> 'a gui_scheme) option" where
  "gui_loop_start irqs s =
     Option.bind (PlayStartupSound irqs (GuiInit s)) (\<lambda>(_, s).
       let s = CursorDraw 320 240 s;
           (clock, s) = read_clock s;
           s = VgaDrawString 600 (471 + 1) clock VGA_COLOR_BLACK GUI_COLOR_BUTTON_BG s
       in Some (\<lparr>prev_x = 320, prev_y = 240, prev_buttons = 0, last_tick = get_tick_count s, menu_open = False,
            trail = replicate TRAIL_MAX \<lparr>trail_x = 0, trail_y = 0, trail_life = 0\<rparr>\<rparr>, s))"

text \<open>One point of the trail fades.\<close>

definition fade_point :: "nat \<Rightarrow> trail_point list \<times> 'a gui_scheme \<Rightarrow> trail_point list \<times> 'a gui_scheme" where
  "fade_point ti = (\<lambda>(tr, s).
     if trail_life (tr ! ti) > 0 then
       (let tr = tr[ti := (tr ! ti)\<lparr>trail_life := trail_life (tr ! ti) - 1\<rparr>]; p = tr ! ti in
        if trail_life p > 0 then
          (tr, if trail_y p < 470
               then VgaPutPixel (trail_x p) (trail_y p) (if trail_life p \<ge> 3 then VGA_COLOR_LIGHT_GRAY else VGA_COLOR_DARK_GRAY) s
               else s)
        else (tr, if trail_y p < 470 then VgaPutPixel (trail_x p) (trail_y p) GUI_COLOR_DESKTOP s else s))
     else (tr, s))"

text \<open>What the loop does when the tick counter has moved: the clock, the trail, the cursor.\<close>

definition gui_tick :: "gui_locals \<times> 'a gui_scheme \<Rightarrow> gui_locals \<times> 'a gui_scheme" where
  "gui_tick = (\<lambda>(l, s).
     let ticks = get_tick_count s in
     if ticks \<noteq> last_tick l then
       (let l = l\<lparr>last_tick := ticks\<rparr>;
            (clock, s) = read_clock s;
            s = (if prev_y l \<ge> 470 then CursorErase (prev_x l) (prev_y l) s else s);
            s = VgaFillRect 600 (471 + 1) (16 * 8) 8 GUI_COLOR_BUTTON_BG s;
            s = VgaDrawString 600 (471 + 1) clock VGA_COLOR_BLACK GUI_COLOR_BUTTON_BG s;
            (tr, s) = fold fade_point [0..<TRAIL_MAX] (trail l, s);
            l = l\<lparr>trail := tr\<rparr>;
            s = CursorToggleInvert s;
            s = (if prev_y l \<ge> 470 then CursorDraw (prev_x l) (prev_y l) s else s)
        in (l, s))
     else (l, s))"

text \<open>A left button press, with the cursor already at its new place.\<close>

definition gui_click :: "gui_locals \<times> 'a gui_scheme \<Rightarrow> gui_locals \<times> 'a gui_scheme" where
  "gui_click = (\<lambda>(l, s).
     if prev_x l \<ge> 2 \<and> prev_x l < 38 \<and> prev_y l \<ge> 471 \<and> prev_y l < 471 + 8 then
       (let l = l\<lparr>menu_open := \<not> menu_open l\<rparr> in
        if menu_open l then
          (let s = VgaFillRect 2 460 100 40 VGA_COLOR_LIGHT_GRAY s
           in (l, VgaDrawString 4 462 ''Menu Item'' VGA_COLOR_BLACK VGA_COLOR_LIGHT_GRAY s))
        else (l, GuiDrawTaskbar s))
     else if menu_open l \<and> prev_x l \<ge> 2 \<and> prev_x l < 102 \<and> prev_y l \<ge> 460 \<and> prev_y l < 500 then
       (let s = serial_puts (''[gui] menu item clicked'' @ crlf) s; s = GuiDrawTaskbar s in (l\<lparr>menu_open := False\<rparr>, s))
     else if menu_open l then (let s = GuiDrawTaskbar s in (l\<lparr>menu_open := False\<rparr>, s))
     else (l, s))"

definition gui_mouse_moved :: "mouse_state \<Rightarrow> gui_locals \<times> 'a gui_scheme \<Rightarrow> gui_locals \<times> 'a gui_scheme" where
  "gui_mouse_moved ms = (\<lambda>(l, s).
     let tr = fold (\<lambda>ti tr. tr[ti := tr ! (ti - 1)]) (rev [1..<TRAIL_MAX]) (trail l);
         tr = tr[0 := \<lparr>trail_x = prev_x l, trail_y = prev_y l, trail_life = TRAIL_LIFE\<rparr>];
         l = l\<lparr>trail := tr\<rparr>;
         s = GuiQueueMouseEvent (mouse_x ms) (mouse_y ms) (mouse_buttons ms) s;
         s = CursorToggleInvert s;
         s = CursorErase (prev_x l) (prev_y l) s;
         s = CursorDraw (mouse_x ms) (mouse_y ms) s;
         l = l\<lparr>prev_x := mouse_x ms, prev_y := mouse_y ms\<rparr> in
     if mouse_buttons ms \<noteq> prev_buttons l then
       (let (l, s) = (if mouse_buttons ms AND 1 \<noteq> 0 \<and> prev_buttons l = 0 then gui_click (l, s) else (l, s));
            s = (if mouse_buttons ms AND 2 \<noteq> 0 \<and> prev_buttons l AND 2 = 0 then
                   (let s = serial_puts ''[gui] right click at '' s;
                        s = serial_print_hex (word_of_int (prev_x l)) s;
                        s = serial_puts '','' s;
                        s = serial_print_hex (word_of_int (prev_y l)) s
                    in serial_puts crlf s)
                 else s)
        in (l, s))
     else (l, s))"

text \<open>
  The body of the loop, which wakes up from \<open>irq\<close>. \<open>ms\<close> points to the driver's own state, so what
  \<open>MouseRead\<close> copies to it is the same value again.
\<close>

definition gui_step :: "gui_irq \<Rightarrow> gui_locals \<times> 'a gui_scheme \<Rightarrow> (gui_locals \<times> 'a gui_scheme) option" where
  "gui_step irq = (\<lambda>(l, s).
     let s = gui_interrupt irq s;
         (l, s) = gui_tick (l, s);
         s = snd (MouseRead (Some (MouseGetState s)) s);
         ms = MouseGetState s;
         (l, s) = (if mouse_x ms \<noteq> prev_x l \<or> mouse_y ms \<noteq> prev_y l \<or> mouse_buttons ms \<noteq> prev_buttons l
                   then gui_mouse_moved ms (l, s) else (l, s))
     in Option.bind (ConsoleProcess s) (\<lambda>s.
          Some (l\<lparr>prev_buttons := mouse_buttons (MouseGetState s)\<rparr>, s)))"

inductive gui_run :: "gui_locals \<times> 'a gui_scheme \<Rightarrow> gui_locals \<times> 'a gui_scheme \<Rightarrow> bool" where
  gui_run_start: "gui_run c c"
| gui_run_step: "gui_run c d \<Longrightarrow> gui_step irq d = Some e \<Longrightarrow> gui_run c e"

subsection \<open>What the loop keeps\<close>

definition event_contents :: "'a gui_scheme \<Rightarrow> gui_mouse_event list" where
  "event_contents s = ring_contents (g_mouse_queue s) (g_mouse_head s) (g_mouse_tail s)"

definition events_ok :: "'a gui_scheme \<Rightarrow> bool" where
  "events_ok s \<longleftrightarrow> length (g_mouse_queue s) = 32 \<and> g_mouse_head s < 32 \<and> g_mouse_tail s < 32"

definition event_on_screen :: "gui_mouse_event \<Rightarrow> bool" where
  "event_on_screen e \<longleftrightarrow> mouse_ok \<lparr>mouse_x = ev_x e, mouse_y = ev_y e, mouse_buttons = ev_buttons e, mouse_visible = 1\<rparr>"

text \<open>Everything the interface owns but the picture, the ports and the cursor's own variables.\<close>

definition gui_frame where
  "gui_frame s = (kbd_part s, (cons_history s, cons_history_start s, cons_history_count s, cons_input s, cons_input_pos s),
     console_active s, console_win s)"

definition gui_safe :: "'a gui_scheme \<Rightarrow> bool" where
  "gui_safe s \<longleftrightarrow> kbd_ok s \<and> NUL \<notin> set (kbd_contents s) \<and> console_ok s \<and> mouse_ok (g_mouse s)
     \<and> events_ok s \<and> (\<forall>e \<in> set (event_contents s). event_on_screen e)"

lemma gui_frame_safe: "gui_frame s = gui_frame t \<Longrightarrow> gui_safe s = gui_safe t"
  by (simp add: gui_frame_def kbd_part_def gui_safe_def kbd_ok_def kbd_contents_def console_ok_def cons_text_def
      events_ok_def event_contents_def)

lemma gui_frame_mouse: "gui_frame s = gui_frame t \<Longrightarrow> g_mouse s = g_mouse t"
  by (simp add: gui_frame_def kbd_part_def)

lemma gui_frame_undrawn:
  fixes s t :: "'a gui_scheme"
  assumes "undrawn s = undrawn t"
  shows "gui_frame s = gui_frame t"
proof -
  have "gui_frame u = gui_frame (undrawn u)" for u :: "'a gui_scheme"
    by (simp add: undrawn_def gui_frame_def kbd_part_def)
  then show ?thesis using assms by metis
qed

lemma undrawn_outb [simp]: "undrawn (outb p v s) = undrawn s"
  by (simp add: undrawn_def outb_def)

lemma undrawn_print_hex [simp]: "undrawn (serial_print_hex v s) = undrawn s"
  by (simp add: serial_print_hex_def)

text \<open>Steps of the loop that leave the frame alone.\<close>

lemma gui_frame_steps [simp]:
  fixes s :: "'a gui_scheme"
  shows "gui_frame (VgaPutPixel x y c s) = gui_frame s" "gui_frame (VgaFillRect x y w h c s) = gui_frame s"
    "gui_frame (VgaDrawString x y str fg bg s) = gui_frame s" "gui_frame (GuiDrawTaskbar s) = gui_frame s"
    "gui_frame (serial_puts str s) = gui_frame s" "gui_frame (serial_print_hex v s) = gui_frame s"
    "gui_frame (outb p b s) = gui_frame s"
  by (rule gui_frame_undrawn, simp)+

lemma gui_frame_updates [simp]:
  "gui_frame (s\<lparr>g_cursor_bg := bg\<rparr>) = gui_frame s" "gui_frame (s\<lparr>g_cursor_saved_x := i\<rparr>) = gui_frame s"
  "gui_frame (s\<lparr>g_cursor_saved_y := i\<rparr>) = gui_frame s" "gui_frame (s\<lparr>g_cursor_invert := i\<rparr>) = gui_frame s"
  "gui_frame (s\<lparr>ps2_in := f\<rparr>) = gui_frame s" "gui_frame (s\<lparr>sys_ticks := n\<rparr>) = gui_frame s"
  by (simp_all add: gui_frame_def kbd_part_def)

lemma gui_frame_cursor [simp]:
  "gui_frame (CursorDraw x y s) = gui_frame s" "gui_frame (CursorErase x y s) = gui_frame s"
  "gui_frame (CursorToggleInvert s) = gui_frame s" "gui_frame (CursorInit s) = gui_frame s"
  by (simp_all add: CursorDraw_def CursorErase_def CursorToggleInvert_def CursorInit_def Let_def
      fold_keeps [where P = gui_frame])

lemma gui_frame_inb [simp]: "gui_frame (snd (ps2_inb p s)) = gui_frame s"
  by (simp add: ps2_inb_def)

lemma gui_frame_rtc [simp]: "gui_frame (snd (rtc_field r s)) = gui_frame s"
  by (simp add: rtc_field_def Let_def case_prod_unfold)

lemma gui_frame_clock [simp]: "gui_frame (snd (read_clock s)) = gui_frame s"
  by (simp add: read_clock_def read_rtc_def Let_def case_prod_unfold)

lemma gui_frame_tick_increment [simp]: "gui_frame (syscall_tick_increment s) = gui_frame s"
  by (simp add: syscall_tick_increment_def Let_def)

lemma fade_point_frame [simp]: "gui_frame (snd (fade_point i p)) = gui_frame (snd p)"
  by (simp add: fade_point_def Let_def case_prod_unfold)

lemma fade_frame [simp]: "gui_frame (snd (fold fade_point is (tr, s))) = gui_frame s"
  using fold_keeps [where P = "\<lambda>p. gui_frame (snd p)" and f = fade_point and s = "(tr, s)" and ?is = "is"] by simp

subsection \<open>The event queue\<close>

lemma GuiQueueMouseEvent_queue:
  assumes "events_ok s"
  shows "events_ok (GuiQueueMouseEvent (ev_x e) (ev_y e) (ev_buttons e) s)"
    "event_contents (GuiQueueMouseEvent (ev_x e) (ev_y e) (ev_buttons e) s)
      = (if length (event_contents s) < 31 then event_contents s @ [e] else event_contents s)"
proof -
  have b: "length (g_mouse_queue s) = 32" "g_mouse_head s < length (g_mouse_queue s)" "g_mouse_tail s < length (g_mouse_queue s)"
    using assms by (simp_all add: events_ok_def)
  show "events_ok (GuiQueueMouseEvent (ev_x e) (ev_y e) (ev_buttons e) s)"
    using assms by (simp add: GuiQueueMouseEvent_def Let_def events_ok_def MOUSE_QUEUE_SIZE_def)
  have record_e: "\<lparr>ev_x = ev_x e, ev_y = ev_y e, ev_buttons = ev_buttons e\<rparr> = e" by simp
  have "length (event_contents s) \<le> 31"
    using b(1) mod_less_divisor [of 32 "g_mouse_head s + 32 - g_mouse_tail s"]
    by (simp add: event_contents_def ring_contents_def)
  then show "event_contents (GuiQueueMouseEvent (ev_x e) (ev_y e) (ev_buttons e) s)
      = (if length (event_contents s) < 31 then event_contents s @ [e] else event_contents s)"
    using ring_put(1) [OF b(2,3)] ring_put(2) [OF b(2,3), where e = e] b(1)
    unfolding GuiQueueMouseEvent_def record_e by (auto simp: Let_def event_contents_def MOUSE_QUEUE_SIZE_def)
qed

lemma GuiGetMouseEvent_queue:
  assumes "events_ok s"
  shows "events_ok (snd (GuiGetMouseEvent s))"
    "fst (GuiGetMouseEvent s) = (case event_contents s of [] \<Rightarrow> None | e # _ \<Rightarrow> Some e)"
    "event_contents (snd (GuiGetMouseEvent s)) = tl (event_contents s)"
proof -
  have b: "length (g_mouse_queue s) = 32" "g_mouse_head s < length (g_mouse_queue s)" "g_mouse_tail s < length (g_mouse_queue s)"
    using assms by (simp_all add: events_ok_def)
  show "events_ok (snd (GuiGetMouseEvent s))" using assms by (simp add: GuiGetMouseEvent_def events_ok_def MOUSE_QUEUE_SIZE_def)
  show "fst (GuiGetMouseEvent s) = (case event_contents s of [] \<Rightarrow> None | e # _ \<Rightarrow> Some e)"
    "event_contents (snd (GuiGetMouseEvent s)) = tl (event_contents s)"
    using ring_get [OF b(2,3)] b(1) by (auto simp: GuiGetMouseEvent_def event_contents_def MOUSE_QUEUE_SIZE_def)
qed

interpretation event_queue: bounded_queue "\<lambda>e. GuiQueueMouseEvent (ev_x e) (ev_y e) (ev_buttons e)" GuiGetMouseEvent
  event_contents events_ok 31
  by unfold_locales (simp_all add: GuiQueueMouseEvent_queue GuiGetMouseEvent_queue)

subsection \<open>The loop's invariant\<close>

definition locals_ok :: "gui_locals \<Rightarrow> bool" where
  "locals_ok l \<longleftrightarrow> prev_y l \<le> 468 \<and> \<not> menu_open l"

lemma gui_safe_steps:
  assumes "gui_safe s"
  shows "gui_safe (gui_interrupt irq s)" "gui_safe (snd (MouseRead st s))"
    "mouse_ok ms \<Longrightarrow> gui_safe (GuiQueueMouseEvent (mouse_x ms) (mouse_y ms) (mouse_buttons ms) s)"
proof -
  have kbd: "kbd_ok s" "NUL \<notin> set (kbd_contents s)" and ev: "events_ok s" using assms by (simp_all add: gui_safe_def)
  show "gui_safe (gui_interrupt irq s)"
  proof (cases irq)
    case Irq_Timer
    then show ?thesis using gui_frame_safe [of "syscall_tick_increment s" s] assms by (simp add: gui_interrupt_def)
  next
    case Irq_Keyboard
    let ?i = "snd (ps2_inb 0x60 s)"
    have i: "gui_safe ?i" using gui_frame_safe [of ?i s] assms by simp
    let ?k = "GuiKeyboardHandler (fst (ps2_inb 0x60 s)) ?i"
    have k: "kbd_ok ?k" "NUL \<notin> set (kbd_contents ?k)"
      using GuiKeyboardHandler_ok [of ?i] i by (simp_all add: gui_safe_def)
    have "console_ok ?k = console_ok ?i" "g_mouse ?k = g_mouse ?i" "events_ok ?k = events_ok ?i"
      "event_contents ?k = event_contents ?i"
      by (simp_all add: GuiKeyboardHandler_def kbd_put_def Let_def console_ok_def cons_text_def events_ok_def event_contents_def)
    then have "gui_safe ?k" using k i by (simp add: gui_safe_def)
    then show ?thesis
      using Irq_Keyboard gui_frame_safe [of "outb 0x20 0x20 ?k" ?k]
      by (simp add: gui_interrupt_def irq1_keyboard_handler_def Let_def case_prod_unfold)
  qed
  let ?m = "snd (MouseRead st s)"
  have "kbd_ok ?m = kbd_ok s" "kbd_contents ?m = kbd_contents s" "console_ok ?m = console_ok s"
    "events_ok ?m = events_ok s" "event_contents ?m = event_contents s"
    by (simp_all add: MouseRead_def ps2_inb_def Let_def kbd_ok_def kbd_contents_def console_ok_def cons_text_def
        events_ok_def event_contents_def)
  moreover have "mouse_ok (g_mouse ?m)"
    using assms by (simp add: MouseRead_result moved_ok gui_safe_def)
  ultimately show "gui_safe ?m" using assms by (simp add: gui_safe_def)
  assume "mouse_ok ms"
  let ?e = "\<lparr>ev_x = mouse_x ms, ev_y = mouse_y ms, ev_buttons = mouse_buttons ms\<rparr>"
  let ?q = "GuiQueueMouseEvent (mouse_x ms) (mouse_y ms) (mouse_buttons ms) s"
  have "event_on_screen ?e" using \<open>mouse_ok ms\<close> by (simp add: event_on_screen_def mouse_ok_def)
  then have "\<forall>e \<in> set (event_contents ?q). event_on_screen e" "events_ok ?q"
    using GuiQueueMouseEvent_queue [OF ev, of ?e] assms by (auto simp: gui_safe_def)
  moreover have "kbd_ok ?q = kbd_ok s" "kbd_contents ?q = kbd_contents s" "console_ok ?q = console_ok s" "g_mouse ?q = g_mouse s"
    by (simp_all add: GuiQueueMouseEvent_def Let_def kbd_ok_def kbd_contents_def console_ok_def cons_text_def)
  ultimately show "gui_safe ?q" using assms by (simp add: gui_safe_def)
qed

lemma gui_tick_keeps:
  assumes "gui_tick (l, s) = (l', s')"
  shows "gui_frame s' = gui_frame s" "prev_x l' = prev_x l" "prev_y l' = prev_y l" "menu_open l' = menu_open l"
  using assms by (auto simp: gui_tick_def Let_def case_prod_unfold split: if_splits)

lemma gui_click_closed: "prev_y l \<le> 468 \<Longrightarrow> \<not> menu_open l \<Longrightarrow> gui_click (l, s) = (l, s)"
  by (auto simp: gui_click_def)

lemma gui_mouse_moved_keeps:
  assumes "gui_mouse_moved ms (l, s) = (l', s')" "mouse_ok ms" "locals_ok l" "gui_safe s"
  shows "gui_safe s'" "locals_ok l'" "g_mouse s' = g_mouse s"
proof -
  define q where "q = GuiQueueMouseEvent (mouse_x ms) (mouse_y ms) (mouse_buttons ms) s"
  define c where "c = CursorDraw (mouse_x ms) (mouse_y ms) (CursorErase (prev_x l) (prev_y l) (CursorToggleInvert q))"
  define tr where "tr = (fold (\<lambda>ti tr. tr[ti := tr ! (ti - 1)]) (rev [1..<TRAIL_MAX]) (trail l))
      [0 := \<lparr>trail_x = prev_x l, trail_y = prev_y l, trail_life = TRAIL_LIFE\<rparr>]"
  define m where "m = l\<lparr>trail := tr, prev_x := mouse_x ms, prev_y := mouse_y ms\<rparr>"
  have m: "prev_y m \<le> 468" "\<not> menu_open m" using assms(2,3) by (simp_all add: m_def mouse_ok_def locals_ok_def)
  have "gui_mouse_moved ms (l, s) = (if mouse_buttons ms \<noteq> prev_buttons l then
      (m, if mouse_buttons ms AND 2 \<noteq> 0 \<and> prev_buttons l AND 2 = 0 then
            serial_puts crlf (serial_print_hex (word_of_int (prev_y m)) (serial_puts '','' (serial_print_hex (word_of_int (prev_x m))
              (serial_puts ''[gui] right click at '' c))))
          else c) else (m, c))"
    unfolding gui_mouse_moved_def Let_def prod.case tr_def [symmetric] q_def [symmetric]
    by (simp add: m_def c_def gui_click_closed [OF m, unfolded m_def])
  then have res: "l' = m" "gui_frame s' = gui_frame c" using assms(1) by (auto split: if_splits)
  have "gui_frame c = gui_frame q" by (simp add: c_def)
  then have frame: "gui_frame s' = gui_frame q" using res(2) by simp
  have "gui_safe q" unfolding q_def by (rule gui_safe_steps(3) [OF assms(4,2)])
  then show "gui_safe s'" using gui_frame_safe [OF frame] by simp
  show "locals_ok l'" using m res(1) by (simp add: locals_ok_def)
  have "g_mouse q = g_mouse s" by (simp add: q_def GuiQueueMouseEvent_def Let_def)
  then show "g_mouse s' = g_mouse s" using gui_frame_mouse [OF frame] by simp
qed

lemma gui_step_safe:
  assumes "gui_safe s" "locals_ok l"
  shows "\<exists>l' s'. gui_step irq (l, s) = Some (l', s') \<and> gui_safe s' \<and> locals_ok l'"
proof -
  let ?i = "gui_interrupt irq s"
  obtain l1 s1 where tick: "gui_tick (l, ?i) = (l1, s1)" by fastforce
  have s1: "gui_safe s1" "locals_ok l1"
    using gui_tick_keeps [OF tick] gui_frame_safe [of s1 ?i] gui_safe_steps(1) [OF assms(1)] assms(2)
    by (simp_all add: locals_ok_def)
  define s2 where "s2 = snd (MouseRead (Some (MouseGetState s1)) s1)"
  have s2: "gui_safe s2" unfolding s2_def by (rule gui_safe_steps(2) [OF s1(1)])
  then have ms: "mouse_ok (MouseGetState s2)" by (simp add: gui_safe_def MouseGetState_def)
  let ?moved = "mouse_x (MouseGetState s2) \<noteq> prev_x l1 \<or> mouse_y (MouseGetState s2) \<noteq> prev_y l1
      \<or> mouse_buttons (MouseGetState s2) \<noteq> prev_buttons l1"
  obtain l3 s3 where moved: "(if ?moved then gui_mouse_moved (MouseGetState s2) (l1, s2) else (l1, s2)) = (l3, s3)" by fastforce
  have s3: "gui_safe s3" "locals_ok l3"
    using gui_mouse_moved_keeps [OF _ ms s1(2) s2, of l3 s3] moved s1(2) s2 by (auto split: if_splits)
  then obtain t where t: "ConsoleProcess s3 = Some t" "kbd_ok t" "console_ok t" "kbd_contents t = []"
    "snd (kbd_part t) = snd (kbd_part s3)"
    using ConsoleProcess_result [of s3] by (auto simp: gui_safe_def)
  then have "gui_safe t" using s3(1) by (simp add: gui_safe_def kbd_part_def events_ok_def event_contents_def)
  moreover have "gui_step irq (l, s) = Some (l3\<lparr>prev_buttons := mouse_buttons (MouseGetState t)\<rparr>, t)"
    unfolding gui_step_def Let_def prod.case tick s2_def [symmetric] moved using t(1) by simp
  ultimately show ?thesis using s3(2) by (simp add: locals_ok_def)
qed

subsection \<open>Properties\<close>

definition desktop_locals :: gui_locals where
  "desktop_locals = \<lparr>prev_x = 320, prev_y = 240, prev_buttons = 0, last_tick = 0, menu_open = False,
     trail = replicate 8 \<lparr>trail_x = 0, trail_y = 0, trail_life = 0\<rparr>\<rparr>"

lemma desktop_on_safe: "gui_safe desktop_on" "locals_ok desktop_locals"
proof -
  have "event_contents desktop_on = []" by (simp add: event_contents_def ring_contents_def desktop_on_fields)
  moreover have "events_ok desktop_on" by (simp add: events_ok_def desktop_on_fields)
  moreover have "mouse_ok (g_mouse desktop_on)"
    by (simp add: mouse_ok_def desktop_on_def mouse_on_def gui.defs mouse.defs display.defs cursor.defs)
  ultimately show "gui_safe desktop_on" using desktop_on_ok by (simp add: gui_safe_def)
qed (simp add: locals_ok_def desktop_locals_def)

text \<open>
  C7: The loop of the desktop never gets stuck and keeps its invariant: from a well-formed state,
  whatever interrupts come and whatever bytes the mouse, the keyboard and the clock give, every
  iteration returns, the mouse and every queued event stay on the screen, all queues and the console
  stay well formed. And the start menu never opens: its button is below the lowest line the
  mouse can reach.
\<close>

theorem gui_loop_safe_and_menu_never_opens:
  assumes "gui_safe s" "locals_ok l" "gui_run (l, s) (l', s')"
  shows "gui_safe s' \<and> \<not> menu_open l' \<and> prev_y l' \<le> 468 \<and> (\<exists>c. gui_step irq (l', s') = Some c)"
proof -
  have "gui_run c d \<Longrightarrow> gui_safe (snd c) \<Longrightarrow> locals_ok (fst c) \<Longrightarrow> gui_safe (snd d) \<and> locals_ok (fst d)"
    for c d :: "gui_locals \<times> 'a gui_scheme"
  proof (induction rule: gui_run.induct)
    case (gui_run_step c d irq e)
    then show ?case using gui_step_safe [of "snd d" "fst d" irq] by auto
  qed auto
  then have "gui_safe s'" "locals_ok l'" using assms by fastforce+
  moreover from gui_step_safe [OF this, of irq] have "\<exists>c. gui_step irq (l', s') = Some c" by blast
  ultimately show ?thesis by (simp add: locals_ok_def)
qed

theorem gui_loop_safe_and_menu_never_opens_witness:
  "\<exists>l' s'. gui_step Irq_Timer (desktop_locals, desktop_on) = Some (l', s') \<and> \<not> menu_open l'"
proof -
  obtain c where c: "gui_step Irq_Timer (desktop_locals, desktop_on) = Some c"
    using gui_loop_safe_and_menu_never_opens [OF desktop_on_safe gui_run_start] by blast
  then have "gui_run (desktop_locals, desktop_on) (fst c, snd c)"
    using gui_run_step [OF gui_run_start] by (metis prod.collapse)
  then show ?thesis
    using gui_loop_safe_and_menu_never_opens [OF desktop_on_safe] c by (metis prod.collapse)
qed

text \<open>
  The queue of mouse events is first in, first out and holds 31: in every order of insertions by
  the desktop and removals by programs, what programs get and what is left are the accepted events
  in their order, the ones that find it full being dropped.
\<close>

theorem mouse_event_queue_is_queue:
  assumes "events_ok s"
    "ring_run (\<lambda>e. GuiQueueMouseEvent (ev_x e) (ev_y e) (ev_buttons e)) GuiGetMouseEvent ops s = (out, t)"
  shows "events_ok t \<and> (out, event_contents t) = queue_run 31 ops (event_contents s)
    \<and> subseq (out @ event_contents t) (event_contents s @ puts_of ops)"
  using event_queue.run_refines [OF assms(1), of ops] queue_run_subseq [of 31 ops "event_contents s"] assms(2)
  by (auto simp: prod_eq_iff)

theorem mouse_event_queue_is_queue_witness:
  "\<exists>out t. ring_run (\<lambda>e. GuiQueueMouseEvent (ev_x e) (ev_y e) (ev_buttons e)) GuiGetMouseEvent
      [Put \<lparr>ev_x = 1, ev_y = 2, ev_buttons = 0\<rparr>, Get] desktop_on = (out, t)
    \<and> out = [\<lparr>ev_x = 1, ev_y = 2, ev_buttons = 0\<rparr>] \<and> event_contents t = []"
proof -
  let ?ops = "[Put \<lparr>ev_x = 1, ev_y = 2, ev_buttons = 0\<rparr>, Get]"
  obtain out t where run: "ring_run (\<lambda>e. GuiQueueMouseEvent (ev_x e) (ev_y e) (ev_buttons e)) GuiGetMouseEvent ?ops desktop_on
      = (out, t)" by fastforce
  have "event_contents desktop_on = []" by (simp add: event_contents_def ring_contents_def desktop_on_fields)
  moreover have "events_ok desktop_on" using desktop_on_safe(1) by (simp add: gui_safe_def)
  ultimately show ?thesis using mouse_event_queue_is_queue [OF _ run] run by auto
qed

subsection \<open>The start-up sound\<close>

definition ticking :: "(nat \<Rightarrow> gui_irq) \<Rightarrow> bool" where
  "ticking irqs \<longleftrightarrow> (\<forall>n. \<exists>m \<ge> n. irqs m = Irq_Timer)"

lemma ticking_next: "ticking irqs \<Longrightarrow> ticking (\<lambda>n. irqs (n + 1))"
  unfolding ticking_def by (metis Suc_eq_plus1 Suc_le_D Suc_le_mono)

lemma gui_interrupt_ticks:
  "sys_ticks (gui_interrupt irq s) = (if irq = Irq_Timer then sys_ticks s + 1 else sys_ticks s)"
  by (cases irq) (simp_all add: gui_interrupt_def syscall_tick_increment_def irq1_keyboard_handler_def ps2_inb_def outb_def
      GuiKeyboardHandler_def kbd_put_def serial_puts_eq Let_def)

lemma gui_interrupt_safe: "gui_safe s \<Longrightarrow> gui_safe (gui_interrupt irq s)"
  by (rule gui_safe_steps)

lemma wait_ticks_returns:
  assumes "ticking irqs" "gui_safe s"
  shows "\<exists>irqs' s'. wait_ticks start ticks irqs s = Some (irqs', s') \<and> ticking irqs' \<and> gui_safe s'
    \<and> ticks \<le> sys_ticks s' - start"
  using assms
proof (induction "(unat ticks - unat (sys_ticks s - start), LEAST m. irqs m = Irq_Timer)" arbitrary: irqs s
    rule: wf_induct [OF wf_lex_prod [OF wf_less wf_less], consumes 0])
  case 1
  let ?now = "sys_ticks s - start"
  show ?case
  proof (cases "?now < ticks")
    case False
    then show ?thesis using 1(2,3) by (subst wait_ticks.simps) (auto simp: get_tick_count_def)
  next
    case True
    let ?irqs = "\<lambda>n. irqs (n + 1)" and ?s = "gui_interrupt (irqs 0) s"
    have step: "wait_ticks start ticks irqs s = wait_ticks start ticks ?irqs ?s"
      using True by (subst wait_ticks.simps) (simp add: get_tick_count_def)
    have ex: "\<exists>m. irqs m = Irq_Timer" using 1(2) by (auto simp: ticking_def)
    have "((unat ticks - unat (sys_ticks ?s - start), LEAST m. ?irqs m = Irq_Timer),
        (unat ticks - unat ?now, LEAST m. irqs m = Irq_Timer)) \<in> {(a, b). a < b} <*lex*> {(a, b). a < b}"
    proof (cases "irqs 0 = Irq_Timer")
      case tick: True
      have next_tick: "sys_ticks ?s - start = ?now + 1" by (simp add: gui_interrupt_ticks tick)
      have lt: "unat ?now < unat ticks" using True by (simp add: word_less_nat_alt)
      then have "unat ?now + 1 < 4294967296" using unat_u32_less [of ticks] by linarith
      then have "unat (sys_ticks ?s - start) = unat ?now + 1"
        unfolding next_tick by (simp add: unat_word_ariths(1))
      moreover have "unat ticks - (unat ?now + 1) < unat ticks - unat ?now" using lt by linarith
      ultimately show ?thesis by simp
    next
      case no: False
      have "sys_ticks ?s = sys_ticks s" by (simp add: gui_interrupt_ticks no)
      moreover have "(LEAST m. irqs m = Irq_Timer) = Suc (LEAST m. irqs (Suc m) = Irq_Timer)"
      proof -
        obtain m where "irqs m = Irq_Timer" using ex by blast
        then show ?thesis by (rule Least_Suc) (use no in simp)
      qed
      ultimately show ?thesis by simp
    qed
    then show ?thesis unfolding step
      by (rule 1(1) [rule_format, OF _ refl ticking_next [OF 1(2)] gui_interrupt_safe [OF 1(3)]])
  qed
qed

lemma gui_frame_init: "gui_safe s \<Longrightarrow> gui_safe (GuiInit s)"
proof -
  assume safe: "gui_safe s"
  let ?t = "(CursorInit (s\<lparr>g_mouse_head := 0, g_mouse_tail := 0\<rparr>))\<lparr>kbd_head := 0, kbd_tail := 0\<rparr>"
  have fields: "cons_history ?t = cons_history s" "cons_input ?t = cons_input s" "g_mouse ?t = g_mouse s"
    "kbd_buf ?t = kbd_buf s" "g_mouse_queue ?t = g_mouse_queue s" "g_mouse_head ?t = 0" "g_mouse_tail ?t = 0"
    by (simp_all add: CursorInit_def)
  have "length (cons_history ?t) = 12" "\<forall>row \<in> set (cons_history ?t). length row = 71" "length (cons_input ?t) = 71"
    using safe by (simp_all add: fields gui_safe_def console_ok_def)
  note clear = ConsoleClear_result [OF this]
  have "kbd_ok ?t" "kbd_contents ?t = []" "events_ok ?t" "event_contents ?t = []"
    using safe by (auto simp: gui_safe_def kbd_ok_def kbd_contents_def ring_contents_def events_ok_def event_contents_def fields)
  then have "gui_safe (ConsoleClear ?t)"
    using clear safe kbd_part_keeps [OF clear(3)]
    by (simp add: gui_safe_def kbd_part_def events_ok_def event_contents_def fields)
  then show "gui_safe (GuiInit s)" by (simp add: GuiInit_def Let_def)
qed

lemma pc_speaker_beep_returns:
  assumes "ticking irqs" "gui_safe s"
  shows "\<exists>irqs' s'. pc_speaker_beep freq ticks irqs s = Some (irqs', s') \<and> ticking irqs' \<and> gui_safe s'"
proof -
  define p where "p = ps2_inb 0x61 (outb 0x42 (ucast (drop_bit 8 (1193180 div freq)))
    (outb 0x42 (ucast ((1193180 div freq) AND 0xFF)) (outb 0x43 0xB6 s)))"
  define t where "t = (if fst p AND 3 \<noteq> 3 then outb 0x61 (fst p OR 3) (snd p) else snd p)"
  have "gui_frame t = gui_frame s" by (simp add: t_def p_def)
  then have "gui_safe t" using gui_frame_safe assms(2) by blast
  from wait_ticks_returns [OF assms(1) this, of "get_tick_count t" ticks]
  obtain irqs' u where u: "wait_ticks (get_tick_count t) ticks irqs t = Some (irqs', u)" "ticking irqs'" "gui_safe u" by blast
  let ?v = "ps2_inb 0x61 u"
  have "pc_speaker_beep freq ticks irqs s = Some (irqs', outb 0x61 (fst ?v AND NOT 3) (snd ?v))"
    unfolding pc_speaker_beep_def Let_def p_def [symmetric] case_prod_unfold t_def [symmetric] u(1) by simp
  moreover have "gui_safe (outb 0x61 (fst ?v AND NOT 3) (snd ?v))"
    using gui_frame_safe [of "outb 0x61 (fst ?v AND NOT 3) (snd ?v)" u] u(3) by simp
  ultimately show ?thesis using u(2) by blast
qed

text \<open>
  C37: The desktop starts: as long as timer interrupts keep coming, in any mixture with keyboard ones,
  the start-up sound ends and \<open>GuiMainLoop\<close> reaches its loop, with its invariant established, also
  when the tick counter wraps around meanwhile.
\<close>

theorem gui_loop_starts:
  assumes "ticking irqs" "gui_safe s"
  shows "\<exists>l t. gui_loop_start irqs s = Some (l, t) \<and> gui_safe t \<and> locals_ok l"
proof -
  obtain irqs1 s1 where s1: "pc_speaker_beep 440 25 irqs (GuiInit s) = Some (irqs1, s1)" "ticking irqs1" "gui_safe s1"
    using pc_speaker_beep_returns [OF assms(1) gui_frame_init [OF assms(2)]] by blast
  obtain irqs2 s2 where s2: "pc_speaker_beep 880 25 irqs1 s1 = Some (irqs2, s2)" "gui_safe s2"
    using pc_speaker_beep_returns [OF s1(2,3)] by blast
  define c where "c = read_clock (CursorDraw 320 240 s2)"
  define t where "t = VgaDrawString 600 (471 + 1) (fst c) VGA_COLOR_BLACK GUI_COLOR_BUTTON_BG (snd c)"
  have "gui_frame t = gui_frame s2" by (simp add: t_def c_def)
  then have "gui_safe t" using gui_frame_safe s2(2) by blast
  then have "gui_safe (VgaDrawString 600 472 (fst c) VGA_COLOR_BLACK GUI_COLOR_BUTTON_BG (snd c))" by (simp add: t_def)
  moreover have "PlayStartupSound irqs (GuiInit s) = Some (irqs2, s2)" using s1(1) s2(1) by (simp add: PlayStartupSound_def)
  ultimately show ?thesis
    by (simp add: gui_loop_start_def Let_def case_prod_unfold c_def [symmetric] locals_ok_def)
qed

theorem gui_loop_starts_witness: "\<exists>l t. gui_loop_start (\<lambda>_. Irq_Timer) desktop_on = Some (l, t) \<and> \<not> menu_open l"
  using gui_loop_starts [OF _ desktop_on_safe(1), of "\<lambda>_. Irq_Timer"] by (auto simp: ticking_def locals_ok_def)

end
