(* ===== verification/Syscall.thy ===== *)
theory Syscall
  imports Gui_Loop
begin

unbundle bit_operations_syntax

section \<open>System calls\<close>

text \<open>
  Models \<open>kernel/interrupt/syscall.c\<close>: the check of user pointers, copying through it, the dispatcher
  with each of its cases, and the stub \<open>syscall_entry\<close> behind interrupt 0x30.

  The dispatcher runs in the directory of its caller, so it reads and writes through \<open>translate\<close> with
  the directory in cr3; the page tables themselves and the kernel's stack lie in the memory that every
  directory maps onto itself. What the compiler decides is the record \<open>call_frame\<close>: the address of the
  kernel's copy of the mouse state, the bytes that a string buffer and the stack above it hold before
  they are filled, and the registers at the trap inside \<open>scheduler_yield\<close>.

  A call ends in one of five ways, the datatype \<open>call_end\<close>: it returns a value; it gives the processor
  to the context that the scheduler popped (its own dispatcher returns 0 when its context is popped in
  turn); its thread has exited; the kernel touches an address that is not mapped; or the scheduler's
  search does not end.
\<close>

subsection \<open>Numbers\<close>

definition SYS_EXIT :: u32 where [const_defs]: "SYS_EXIT = 0x00"
definition SYS_YIELD :: u32 where [const_defs]: "SYS_YIELD = 0x01"
definition SYS_DRAW_PIXEL :: u32 where [const_defs]: "SYS_DRAW_PIXEL = 0x02"
definition SYS_FILL_RECT :: u32 where [const_defs]: "SYS_FILL_RECT = 0x03"
definition SYS_DRAW_STRING :: u32 where [const_defs]: "SYS_DRAW_STRING = 0x04"
definition SYS_GET_TICK :: u32 where [const_defs]: "SYS_GET_TICK = 0x05"
definition SYS_GET_MOUSE :: u32 where [const_defs]: "SYS_GET_MOUSE = 0x06"
definition SYS_GET_MOUSE_STATE :: u32 where [const_defs]: "SYS_GET_MOUSE_STATE = 0x07"
definition SYS_GET_PIXEL :: u32 where [const_defs]: "SYS_GET_PIXEL = 0x08"
definition SYS_DEBUG :: u32 where [const_defs]: "SYS_DEBUG = 0x09"
definition SYS_GET_MOUSE_EVENT :: u32 where [const_defs]: "SYS_GET_MOUSE_EVENT = 0x0B"
definition SYS_GUI_DRAW_DESKTOP :: u32 where [const_defs]: "SYS_GUI_DRAW_DESKTOP = 0x0F"
definition SYS_GUI_DRAW_TASKBAR :: u32 where [const_defs]: "SYS_GUI_DRAW_TASKBAR = 0x10"
definition SYS_GUI_DRAW_WINDOW :: u32 where [const_defs]: "SYS_GUI_DRAW_WINDOW = 0x11"
definition SYS_GUI_DRAW_WINDOW_TEXT :: u32 where [const_defs]: "SYS_GUI_DRAW_WINDOW_TEXT = 0x12"
definition SYS_GUI_DRAW_BUTTON :: u32 where [const_defs]: "SYS_GUI_DRAW_BUTTON = 0x13"
definition SYSCALL_ERR :: u32 where [const_defs]: "SYSCALL_ERR = - 1"

subsection \<open>User memory\<close>

definition is_user_ptr :: "u32 \<Rightarrow> 'a vmm_scheme \<Rightarrow> bool" where
  "is_user_ptr addr s =
     (if addr \<ge> 0x80000000 then False
      else let pde = load32 (phys_mem s) (page_base (cr3 s) + 4 * drop_bit 22 addr) in
        if pde AND PTE_PRESENT = 0 \<or> pde AND PTE_USER = 0 then False
        else let pte = load32 (phys_mem s) (page_base pde + 4 * (drop_bit 12 addr AND 0x3FF)) in
          \<not> (pte AND PTE_PRESENT = 0 \<or> pte AND PTE_USER = 0))"

text \<open>The byte at a virtual address, and a store to one; \<open>None\<close> is a page fault.\<close>

definition virt_load :: "u32 \<Rightarrow> 'a vmm_scheme \<Rightarrow> u8 option" where
  "virt_load a s = map_option (phys_mem s) (translate (phys_mem s) (page_base (cr3 s)) a)"

definition virt_store :: "u32 \<Rightarrow> u8 \<Rightarrow> 'a vmm_scheme \<Rightarrow> 'a vmm_scheme option" where
  "virt_store a v s =
     map_option (\<lambda>p. s\<lparr>phys_mem := (phys_mem s)(p := v)\<rparr>) (translate (phys_mem s) (page_base (cr3 s)) a)"

text \<open>
  \<open>copy_from_user\<close> into a variable of the dispatcher, a list of bytes: \<open>i\<close> bytes are copied, \<open>n\<close> are
  left. The load follows the check, which makes it succeed.
\<close>

primrec copy_in :: "nat \<Rightarrow> u32 \<Rightarrow> nat \<Rightarrow> 'a vmm_scheme \<Rightarrow> u8 list \<Rightarrow> bool \<times> u8 list" where
  "copy_in 0 src i s d = (True, d)"
| "copy_in (Suc n) src i s d =
     (if \<not> is_user_ptr (src + of_nat i) s then (False, d)
      else copy_in n src (i + 1) s (d[i := the (virt_load (src + of_nat i) s)]))"

definition copy_from_user :: "u8 list \<Rightarrow> u32 \<Rightarrow> nat \<Rightarrow> 'a vmm_scheme \<Rightarrow> bool \<times> u8 list" where
  "copy_from_user d src len s = copy_in len src 0 s d"

text \<open>\<open>copy_from_user\<close> to an address: \<open>Inl\<close> the address and the state of a store that faults.\<close>

primrec copy_out ::
  "nat \<Rightarrow> u32 \<Rightarrow> u32 \<Rightarrow> nat \<Rightarrow> 'a vmm_scheme \<Rightarrow> (u32 \<times> 'a vmm_scheme) + (bool \<times> 'a vmm_scheme)" where
  "copy_out 0 dest src i s = Inr (True, s)"
| "copy_out (Suc n) dest src i s =
     (if \<not> is_user_ptr (src + of_nat i) s then Inr (False, s)
      else case virt_store (dest + of_nat i) (the (virt_load (src + of_nat i) s)) s of
             None \<Rightarrow> Inl (dest + of_nat i, s)
           | Some s \<Rightarrow> copy_out n dest src (i + 1) s)"

definition copy_to_address ::
  "u32 \<Rightarrow> u32 \<Rightarrow> nat \<Rightarrow> 'a vmm_scheme \<Rightarrow> (u32 \<times> 'a vmm_scheme) + (bool \<times> 'a vmm_scheme)" where
  "copy_to_address dest src len s = copy_out len dest src 0 s"

text \<open>
  The loop of \<open>SYS_DRAW_STRING\<close>, from index \<open>i\<close> with \<open>n\<close> characters of room left: whether every pointer
  was accepted, and the buffer.
\<close>

primrec copy_chars :: "nat \<Rightarrow> u32 \<Rightarrow> nat \<Rightarrow> 'a vmm_scheme \<Rightarrow> string \<Rightarrow> bool \<times> string" where
  "copy_chars 0 c i s buf = (True, buf)"
| "copy_chars (Suc n) c i s buf =
     (if \<not> is_user_ptr (c + of_nat i) s then (False, buf)
      else let ch = char_at (the (virt_load (c + of_nat i) s)); buf = buf[i := ch]
        in if ch = NUL then (True, buf) else copy_chars n c (i + 1) s buf)"

text \<open>The same loop of the other cases, over \<open>copy_from_user\<close>; it also tells where it stopped.\<close>

primrec copy_text :: "nat \<Rightarrow> u32 \<Rightarrow> nat \<Rightarrow> 'a vmm_scheme \<Rightarrow> string \<Rightarrow> nat \<times> bool \<times> string" where
  "copy_text 0 p i s buf = (i, True, buf)"
| "copy_text (Suc n) p i s buf =
     (let (ok, b) = copy_from_user [0] (p + of_nat i) 1 s in
      if \<not> ok then (i, False, buf)
      else let ch = char_at (b ! 0); buf = buf[i := ch]
        in if ch = NUL then (i, True, buf) else copy_text n p (i + 1) s buf)"

subsection \<open>The dispatcher\<close>

record call_frame =
  cf_local :: u32
  cf_stack :: string
  cf_regs :: cpu_regs

datatype 's call_end =
    Returns u32 's
  | Goes_On cpu_regs 's
  | Exits 's
  | Faults u32 's
  | Hangs

text \<open>\<open>dump_stack\<close>: the words at \<open>sp\<close>, on the serial line.\<close>

definition dump_stack :: "u32 \<Rightarrow> nat \<Rightarrow> 'a vmm_scheme \<Rightarrow> 'a vmm_scheme" where
  "dump_stack sp count s =
     (let s = fold (\<lambda>i s. serial_puts '' '' (serial_print_hex (load32 (phys_mem s) (sp + 4 * of_nat i)) s)) [0..<count] s
      in serial_puts crlf s)"

definition syscall_trace :: "u32 \<Rightarrow> u32 \<Rightarrow> u32 \<Rightarrow> string" where
  "syscall_trace num a b =
     ''SYS:'' @ [char_at (0x30 + ucast (num div 10 mod 10)), char_at (0x30 + ucast (num mod 10))]
     @ ''(0x'' @ hex8 a @ '',0x'' @ hex8 b @ '')'' @ crlf"

definition sys_draw_string_case ::
  "call_frame \<Rightarrow> u32 \<Rightarrow> u32 \<Rightarrow> u32 \<Rightarrow> u32 \<Rightarrow> u32 \<Rightarrow> 'a vga_scheme \<Rightarrow> 'a vga_scheme call_end" where
  "sys_draw_string_case f a b c d e s =
     (if \<not> is_user_ptr c s then Returns (- 1) s
      else let (ok, buf) = copy_chars 127 c 0 s (cf_stack f) in
        if \<not> ok then Returns (- 1) s
        else let buf = buf[127 := NUL]
          in Returns 0 (VgaDrawString (sint a) (sint b) (cstr buf) (u32_to_u8 d) (u32_to_u8 e) s))"

text \<open>The mouse state as three words at \<open>p\<close>.\<close>

definition put_mouse :: "u32 \<Rightarrow> int \<Rightarrow> int \<Rightarrow> int \<Rightarrow> memory \<Rightarrow> memory" where
  "put_mouse p x y buttons m =
     store32 (store32 (store32 m p (word_of_int x)) (p + 4) (word_of_int y)) (p + 8) (word_of_int buttons)"

definition give_mouse :: "call_frame \<Rightarrow> u32 \<Rightarrow> int \<Rightarrow> int \<Rightarrow> int \<Rightarrow> 'a vmm_scheme \<Rightarrow> 'a vmm_scheme call_end" where
  "give_mouse f b x y buttons s =
     (let s = s\<lparr>phys_mem := put_mouse (cf_local f) x y buttons (phys_mem s)\<rparr> in
      case copy_to_address b (cf_local f) 12 s of
        Inl (addr, s) \<Rightarrow> Faults addr s
      | Inr (ok, s) \<Rightarrow> Returns (if ok then 0 else - 1) s)"

definition sys_get_mouse_state_case :: "call_frame \<Rightarrow> u32 \<Rightarrow> 'a gui_scheme \<Rightarrow> 'a gui_scheme call_end" where
  "sys_get_mouse_state_case f b s =
     (if \<not> is_user_ptr b s then Returns (- 1) s
      else let cur = MouseGetState s
        in give_mouse f b (mouse_x cur) (mouse_y cur) (mouse_buttons cur) s)"

definition sys_debug_case :: "call_frame \<Rightarrow> u32 \<Rightarrow> 'a vmm_scheme \<Rightarrow> 'a vmm_scheme call_end" where
  "sys_debug_case f b s =
     (if \<not> is_user_ptr b s then Returns (- 1) (serial_puts (''[debug] user ptr invalid'' @ crlf) s)
      else let (i, ok, buf) = copy_text 127 b 0 s (cf_stack f);
               s = (if ok then s else serial_puts (''[debug] copy_from_user failed'' @ crlf) s);
               buf = (if i = 127 then buf[127 := NUL] else buf)
        in Returns 0 (serial_puts (cstr buf) s))"

definition sys_get_mouse_event_case :: "call_frame \<Rightarrow> u32 \<Rightarrow> 'a gui_scheme \<Rightarrow> 'a gui_scheme call_end" where
  "sys_get_mouse_event_case f b s =
     (if \<not> is_user_ptr b s then Returns (- 1) s
      else case GuiGetMouseEvent s of
        (None, s) \<Rightarrow> Returns (- 1) s
      | (Some ev, s) \<Rightarrow> give_mouse f b (ev_x ev) (ev_y ev) (ev_buttons ev) s)"

definition sys_gui_draw_window_case ::
  "call_frame \<Rightarrow> u32 \<Rightarrow> u32 \<Rightarrow> u32 \<Rightarrow> u32 \<Rightarrow> u32 \<Rightarrow> 'a vga_scheme \<Rightarrow> 'a vga_scheme call_end" where
  "sys_gui_draw_window_case f a b c d e s =
     (if \<not> is_user_ptr e s then Returns (- 1) s
      else let (_, _, title) = copy_text 127 e 0 s (cf_stack f);
               title = title[127 := NUL];
               win = \<lparr>win_x = sint a, win_y = sint b, win_w = sint c, win_h = sint d,
                      win_title = Some (cstr title), win_visible = 1\<rparr>
        in Returns 0 (GuiDrawWindow (Some win) s))"

text \<open>
  The 24 bytes of a \<open>GUI_WINDOW\<close>; its title, a user pointer that \<open>GuiDrawWindowText\<close> does not follow,
  is left out.
\<close>

definition window_of_bytes :: "u8 list \<Rightarrow> gui_window" where
  "window_of_bytes bs =
     (let w = \<lambda>k. sint (load32 (\<lambda>i. bs ! unat i) k)
      in \<lparr>win_x = w 0, win_y = w 4, win_w = w 8, win_h = w 12, win_title = None, win_visible = w 20\<rparr>)"

definition sys_gui_draw_window_text_case ::
  "call_frame \<Rightarrow> u32 \<Rightarrow> u32 \<Rightarrow> u32 \<Rightarrow> u32 \<Rightarrow> u32 \<Rightarrow> 'a vga_scheme \<Rightarrow> 'a vga_scheme call_end" where
  "sys_gui_draw_window_text_case f a b c d e s =
     (if \<not> is_user_ptr a s \<or> \<not> is_user_ptr d s then Returns (- 1) s
      else let (ok, win) = copy_from_user (replicate 24 0) a 24 s in
        if \<not> ok then Returns (- 1) s
        else let (_, _, txt) = copy_text 127 d 0 s (cf_stack f);
                 txt = txt[127 := NUL]
          in Returns 0 (GuiDrawWindowText (Some (window_of_bytes win)) (sint b) (sint c) (Some (cstr txt)) (u32_to_u8 e) s))"

definition syscall_dispatch ::
  "call_frame \<Rightarrow> u32 \<Rightarrow> u32 \<Rightarrow> u32 \<Rightarrow> u32 \<Rightarrow> u32 \<Rightarrow> u32 \<Rightarrow> 'a gui_scheme \<Rightarrow> 'a gui_scheme call_end" where
  "syscall_dispatch f num a b c d e s =
     (let s = serial_puts (syscall_trace num a b) s in
      if num = SYS_EXIT then Exits (proc_exit a s)
      else if num = SYS_YIELD then
        (case scheduler_yield (cf_regs f) s of None \<Rightarrow> Hangs | Some (regs, s) \<Rightarrow> Goes_On regs s)
      else if num = SYS_DRAW_PIXEL then Returns 0 (VgaPutPixel (sint a) (sint b) (u32_to_u8 c) s)
      else if num = SYS_FILL_RECT then
        (let s = serial_print_hex a (serial_puts ''FILL x='' s);
             s = serial_print_hex b (serial_puts '' y='' s);
             s = serial_print_hex c (serial_puts '' w='' s);
             s = serial_print_hex d (serial_puts '' h='' s);
             s = serial_print_hex e (serial_puts '' col='' s);
             s = serial_puts crlf s
         in Returns 0 (VgaFillRect (sint a) (sint b) (sint c) (sint d) (u32_to_u8 e) s))
      else if num = SYS_DRAW_STRING then sys_draw_string_case f a b c d e s
      else if num = SYS_GET_TICK then
        (let ret = get_tick_count s;
             s = serial_print_hex ret (serial_puts ''[sys_get_tick] '' s)
         in Returns ret (serial_puts crlf s))
      else if num = SYS_GET_MOUSE_STATE then sys_get_mouse_state_case f b s
      else if num = SYS_DEBUG then sys_debug_case f b s
      else if num = SYS_GET_MOUSE_EVENT then sys_get_mouse_event_case f b s
      else if num = SYS_GUI_DRAW_DESKTOP then Returns 0 (GuiDrawDesktop s)
      else if num = SYS_GUI_DRAW_TASKBAR then Returns 0 (GuiDrawTaskbar s)
      else if num = SYS_GUI_DRAW_WINDOW then sys_gui_draw_window_case f a b c d e s
      else if num = SYS_GUI_DRAW_WINDOW_TEXT then sys_gui_draw_window_text_case f a b c d e s
      else if num = SYS_GUI_DRAW_BUTTON then
        Returns 0 (GuiDrawButton (sint a) (sint b) (sint c) (sint d) None (sint e) s)
      else Returns (- 1) s)"

subsection \<open>Pointers and strings\<close>

lemma is_user_ptr_eq:
  "is_user_ptr p s \<longleftrightarrow> p < 0x80000000 \<and> user_access (phys_mem s) (page_base (cr3 s)) p"
  by (auto simp: is_user_ptr_def user_access_def page_walk_def read_entry_def present_def pde_index_def
      pte_index_def Let_def not_le)

lemma user_access_translate: "user_access m d p \<Longrightarrow> \<exists>q. translate m d p = Some q"
  by (auto simp: user_access_def translate_def split: option.splits)

lemma virt_load_user: "is_user_ptr p s \<Longrightarrow> \<exists>b. virt_load p s = Some b"
  unfolding is_user_ptr_eq virt_load_def using user_access_translate by fastforce

text \<open>Checking and loading look at the physical memory and cr3 alone.\<close>

lemma user_memory_cong:
  assumes "phys_mem s = phys_mem t" "cr3 s = cr3 t"
  shows "is_user_ptr p s = is_user_ptr p t" "virt_load p s = virt_load p t"
  using assms by (simp_all add: is_user_ptr_eq virt_load_def)

text \<open>A string in the caller's memory that a dispatcher's buffer of \<open>n + 1\<close> characters can hold.\<close>

definition user_char :: "'a vmm_scheme \<Rightarrow> u32 \<Rightarrow> char \<Rightarrow> bool" where
  "user_char s p c \<longleftrightarrow> is_user_ptr p s \<and> virt_load p s = Some (byte_of c)"

definition user_string :: "nat \<Rightarrow> 'a vmm_scheme \<Rightarrow> u32 \<Rightarrow> string \<Rightarrow> bool" where
  "user_string n s p str \<longleftrightarrow> length str \<le> n \<and> NUL \<notin> set str
     \<and> (\<forall>k < length str. user_char s (p + of_nat k) (str ! k))
     \<and> (length str < n \<longrightarrow> user_char s (p + of_nat (length str)) NUL)"

lemma user_string_cong:
  assumes "phys_mem s = phys_mem t" "cr3 s = cr3 t"
  shows "user_string n s p str = user_string n t p str"
  using user_memory_cong [OF assms] by (simp add: user_string_def user_char_def)

lemma user_string_cases:
  assumes "user_string (Suc n) s p str"
  shows "(str = [] \<and> user_char s p NUL)
    \<or> (\<exists>c cs. str = c # cs \<and> c \<noteq> NUL \<and> user_char s p c \<and> user_string n s (p + 1) cs)"
proof (cases str)
  case Nil
  with assms show ?thesis by (simp add: user_string_def)
next
  case (Cons c cs)
  have "user_char s (p + of_nat 0) (str ! 0)" using assms unfolding user_string_def Cons by blast
  moreover have "user_char s (p + 1 + of_nat k) (cs ! k)" if "k < length cs" for k
  proof -
    have "user_char s (p + of_nat (Suc k)) (str ! Suc k)" using assms that unfolding user_string_def Cons by auto
    then show ?thesis by (simp add: Cons add.assoc)
  qed
  ultimately show ?thesis using assms unfolding user_string_def Cons by (auto simp: add.assoc)
qed

lemma copy_chars_string:
  assumes "user_string n s (p + of_nat i) str" "i + n < length buf"
  shows "\<exists>b. copy_chars n p i s buf = (True, b) \<and> length b = length buf
    \<and> take (i + length str) b = take i buf @ str \<and> (length str < n \<longrightarrow> b ! (i + length str) = NUL)"
  using assms
proof (induction n arbitrary: i str buf)
  case 0
  then show ?case by (simp add: user_string_def)
next
  case (Suc n)
  from user_string_cases [OF Suc.prems(1)] show ?case
  proof (elim disjE exE conjE)
    assume "str = []" "user_char s (p + of_nat i) NUL"
    then show ?thesis using Suc.prems(2) by (simp add: user_char_def Let_def)
  next
    fix c cs
    assume c: "str = c # cs" "c \<noteq> NUL" "user_char s (p + of_nat i) c" and "user_string n s (p + of_nat i + 1) cs"
    moreover have "p + of_nat i + 1 = p + of_nat (i + 1)" by simp
    ultimately have "user_string n s (p + of_nat (i + 1)) cs" by metis
    from Suc.IH [OF this, of "buf[i := c]"] Suc.prems(2)
    obtain b where b: "copy_chars n p (i + 1) s (buf[i := c]) = (True, b)" "length b = length buf"
      "take (i + 1 + length cs) b = take (i + 1) (buf[i := c]) @ cs" "length cs < n \<longrightarrow> b ! (i + 1 + length cs) = NUL"
      by auto
    have "take (i + 1) (buf[i := c]) = take i buf @ [c]"
      using Suc.prems(2) by (simp add: take_Suc_conv_app_nth)
    then show ?thesis using b c by (simp add: user_char_def Let_def)
  qed
qed

lemma copy_from_user_byte:
  "copy_from_user [b] p (Suc 0) s = (if is_user_ptr p s then (True, [the (virt_load p s)]) else (False, [b]))"
  by (simp add: copy_from_user_def)

lemma copy_text_chars: "copy_text n p i s buf = (j, ok, b) \<Longrightarrow> copy_chars n p i s buf = (ok, b)"
  by (induction n arbitrary: i buf) (auto simp: copy_from_user_byte Let_def split: if_splits)

lemma copy_text_stop:
  "user_string n s (p + of_nat i) str \<Longrightarrow> \<exists>ok b. copy_text n p i s buf = (i + length str, ok, b)"
proof (induction n arbitrary: i str buf)
  case 0
  then show ?case by (auto simp: user_string_def)
next
  case (Suc n)
  from user_string_cases [OF Suc.prems] show ?case
  proof (elim disjE exE conjE)
    assume "str = []" "user_char s (p + of_nat i) NUL"
    then show ?thesis by (auto simp: user_char_def copy_from_user_byte Let_def)
  next
    fix c cs
    assume c: "str = c # cs" "c \<noteq> NUL" "user_char s (p + of_nat i) c" and u: "user_string n s (p + of_nat i + 1) cs"
    have "p + of_nat i + 1 = p + of_nat (i + 1)" by simp
    with u have "user_string n s (p + of_nat (i + 1)) cs" by metis
    from Suc.IH [OF this] c show ?thesis by (simp add: user_char_def copy_from_user_byte Let_def)
  qed
qed

lemma cstr_buffer:
  assumes "take k b = str" "NUL \<notin> set str" "k < length b" "b ! k = NUL"
  shows "cstr b = str"
proof -
  have "b = str @ NUL # drop (Suc k) b" using assms id_take_nth_drop [of k b] by simp
  moreover have "takeWhile (\<lambda>c. c \<noteq> NUL) (str @ NUL # xs) = str" for xs
    using assms(2) by (induction str) auto
  ultimately show ?thesis unfolding cstr_def by metis
qed

lemma copied_string:
  assumes "user_string n s p str" "n < length buf"
  shows "\<exists>b. copy_chars n p 0 s buf = (True, b) \<and> copy_text n p 0 s buf = (length str, True, b)
    \<and> cstr (b[n := NUL]) = str \<and> (length str < n \<longrightarrow> cstr b = str)"
proof -
  have u: "user_string n s (p + of_nat 0) str" using assms(1) by simp
  from copy_chars_string [OF u, of buf] assms(2) obtain b where b: "copy_chars n p 0 s buf = (True, b)"
    "length b = length buf" "take (length str) b = str" "length str < n \<longrightarrow> b ! length str = NUL" by auto
  have t: "copy_text n p 0 s buf = (length str, True, b)"
    using copy_text_stop [OF u, of buf] copy_text_chars b(1) by fastforce
  have str: "NUL \<notin> set str" "length str \<le> n" using assms(1) by (simp_all add: user_string_def)
  have "cstr (b[n := NUL]) = str"
    using str b assms(2) by (intro cstr_buffer [of "length str"]) (auto simp: nth_list_update)
  moreover have "cstr b = str" if "length str < n"
    using that str b assms(2) by (intro cstr_buffer [of "length str"]) auto
  ultimately show ?thesis using b t by blast
qed

subsection \<open>What the cases keep\<close>

lemma undrawn_cr3:
  fixes s t :: "'a vga_scheme"
  assumes "undrawn s = undrawn t"
  shows "cr3 s = cr3 t"
proof -
  have "cr3 u = cr3 (undrawn u)" for u :: "'a vga_scheme" by (simp add: undrawn_def)
  then show ?thesis using assms by metis
qed

lemmas traced_user_memory [simp] = memory_steps(1) undrawn_cr3 [OF undrawn_steps(2)]

lemmas traced_user_ptr [simp] = user_memory_cong(1) [OF traced_user_memory]

text \<open>
  \<open>quiet s t\<close>: from \<open>s\<close> to \<open>t\<close> nothing but the picture and the output traces has changed. The memory
  is kept where the display's device is set up and what is drawn lies on the screen, as
  \<open>call_on_screen\<close> says of a call's arguments: a rectangle ends within the adapter's 64 KB, a window
  or a button between the side edges.
\<close>

definition quiet :: "'a vga_scheme \<Rightarrow> 'a vga_scheme \<Rightarrow> bool" where
  "quiet s t \<longleftrightarrow> undrawn t = undrawn s \<and> (screen_mapped s \<longrightarrow> phys_mem t = phys_mem s)"

definition call_on_screen :: "u32 \<Rightarrow> u32 \<Rightarrow> u32 \<Rightarrow> u32 \<Rightarrow> bool" where
  "call_on_screen num a c d \<longleftrightarrow>
     (num = SYS_FILL_RECT \<longrightarrow> rect_in_window (sint a) (sint c) (sint d))
   \<and> (num = SYS_GUI_DRAW_WINDOW \<longrightarrow> 0 \<le> sint a \<and> 18 \<le> sint c \<and> sint a + sint c + 3 \<le> 640)
   \<and> (num = SYS_GUI_DRAW_BUTTON \<longrightarrow> 0 \<le> sint a \<and> 0 < sint c \<and> sint a + sint c \<le> 640)"

lemma quiet_refl: "quiet s s"
  by (simp add: quiet_def)

lemma quiet_trans: "quiet s t \<Longrightarrow> quiet t u \<Longrightarrow> quiet s u"
  using undrawn_mapped [of t s] by (auto simp: quiet_def)

lemma quiet_draws: "quiet s u \<Longrightarrow> draws u t \<Longrightarrow> quiet s t"
  by (rule quiet_trans) (auto simp: draws_def quiet_def)

lemma quiet_puts: "quiet s u \<Longrightarrow> quiet s (serial_puts str u)" "quiet s u \<Longrightarrow> quiet s (serial_print_hex v u)"
  by (auto elim!: quiet_draws intro: serial_puts_draws simp: serial_print_hex_def simp del: serial_puts.simps)

lemma quiet_rect: "quiet s u \<Longrightarrow> rect_in_window x w h \<Longrightarrow> quiet s (VgaFillRect x y w h c u)"
  by (erule quiet_trans) (simp add: quiet_def)

text \<open>\<open>kept s r\<close>: the call returns, quietly.\<close>

definition kept :: "'a vga_scheme \<Rightarrow> 'a vga_scheme call_end \<Rightarrow> bool" where
  "kept s r \<longleftrightarrow> (\<exists>v t. r = Returns v t \<and> quiet s t)"

lemma keptI [intro]: "quiet s t \<Longrightarrow> kept s (Returns v t)"
  by (simp add: kept_def)

lemma kept_if: "\<lbrakk>p \<Longrightarrow> kept s r; \<not> p \<Longrightarrow> kept s q\<rbrakk> \<Longrightarrow> kept s (if p then r else q)"
  by simp

lemmas quiet_intros = quiet_refl quiet_puts
lemmas quiet_figures = VgaPutPixel_draws VgaDrawString_draws GuiDrawWindowText_draws GuiDrawDesktop_draws GuiDrawTaskbar_draws

lemma quiet_if: "quiet s t \<Longrightarrow> quiet s u \<Longrightarrow> quiet s (if p then t else u)"
  by simp

lemma string_cases_kept:
  "kept s (sys_draw_string_case f a b c d e s)" "kept s (sys_debug_case f b s)"
  "kept s (sys_gui_draw_window_text_case f a b c d e s)"
proof -
  show "kept s (sys_draw_string_case f a b c d e s)"
    unfolding sys_draw_string_case_def Let_def split_beta
    by (intro kept_if keptI quiet_refl quiet_draws [OF quiet_refl] quiet_figures)
  show "kept s (sys_debug_case f b s)"
    unfolding sys_debug_case_def Let_def split_beta by (intro kept_if keptI quiet_if quiet_intros)
  show "kept s (sys_gui_draw_window_text_case f a b c d e s)"
    unfolding sys_gui_draw_window_text_case_def Let_def split_beta
    by (intro kept_if keptI quiet_refl quiet_draws [OF quiet_refl] quiet_figures)
qed

lemma window_case_kept:
  assumes "0 \<le> sint a" "18 \<le> sint c" "sint a + sint c + 3 \<le> 640"
  shows "kept s (sys_gui_draw_window_case f a b c d e s)"
  unfolding sys_gui_draw_window_case_def Let_def split_beta
  by (intro kept_if keptI quiet_refl quiet_draws [OF quiet_refl] GuiDrawWindow_draws) (use assms in auto)

lemma syscall_dispatch_kept:
  assumes "num \<notin> {SYS_EXIT, SYS_YIELD, SYS_GET_MOUSE_STATE, SYS_GET_MOUSE_EVENT}" "call_on_screen num a c d"
  shows "kept s (syscall_dispatch f num a b c d e s)"
proof -
  let ?s = "serial_puts (syscall_trace num a b) s"
  have no: "(num = SYS_EXIT) = False" "(num = SYS_YIELD) = False" "(num = SYS_GET_MOUSE_STATE) = False"
    "(num = SYS_GET_MOUSE_EVENT) = False" using assms(1) by auto
  have on: "num = SYS_FILL_RECT \<Longrightarrow> rect_in_window (sint a) (sint c) (sint d)"
    "num = SYS_GUI_DRAW_WINDOW \<Longrightarrow> 0 \<le> sint a" "num = SYS_GUI_DRAW_WINDOW \<Longrightarrow> 18 \<le> sint c"
    "num = SYS_GUI_DRAW_WINDOW \<Longrightarrow> sint a + sint c + 3 \<le> 640"
    "num = SYS_GUI_DRAW_BUTTON \<Longrightarrow> 0 \<le> sint a" "num = SYS_GUI_DRAW_BUTTON \<Longrightarrow> 0 < sint c"
    "num = SYS_GUI_DRAW_BUTTON \<Longrightarrow> sint a + sint c \<le> 640"
    using assms(2) by (simp_all add: call_on_screen_def)
  have "kept ?s (syscall_dispatch f num a b c d e s)"
    unfolding syscall_dispatch_def Let_def no if_False
    by (intro kept_if string_cases_kept window_case_kept keptI quiet_rect quiet_intros quiet_draws [OF quiet_refl]
        quiet_figures GuiDrawButton_draws on)
  moreover have "quiet s ?s" by (intro quiet_intros)
  ultimately show ?thesis unfolding kept_def using quiet_trans by blast
qed

lemma syscall_strings:
  assumes "user_string 127 s p str" "128 \<le> length (cf_stack f)"
  shows "syscall_dispatch f SYS_DRAW_STRING a b p d e s
      = Returns 0 (VgaDrawString (sint a) (sint b) str (u32_to_u8 d) (u32_to_u8 e)
          (serial_puts (syscall_trace SYS_DRAW_STRING a b) s))
    \<and> syscall_dispatch f SYS_DEBUG a p c d e s
      = Returns 0 (serial_puts str (serial_puts (syscall_trace SYS_DEBUG a p) s))
    \<and> syscall_dispatch f SYS_GUI_DRAW_WINDOW a b c d p s
      = Returns 0 (GuiDrawWindow (Some \<lparr>win_x = sint a, win_y = sint b, win_w = sint c, win_h = sint d,
          win_title = Some str, win_visible = 1\<rparr>) (serial_puts (syscall_trace SYS_GUI_DRAW_WINDOW a b) s))"
proof -
  define t where "t = (\<lambda>num b. serial_puts (syscall_trace num a b) s)"
  have mem: "phys_mem (t n x) = phys_mem s" "cr3 (t n x) = cr3 s" for n x by (simp_all add: t_def)
  have u: "user_string 127 (t n x) p str" for n x using assms(1) user_string_cong [OF mem] by blast
  from assms(2) have "127 < length (cf_stack f)" by simp
  note cp = copied_string [OF u this]
  have ptr: "is_user_ptr p (t n x)" for n x
    using user_string_cases [of 126 "t n x" p str] u [of n x] by (auto simp: user_char_def)
  have "sys_draw_string_case f a b p d e (t SYS_DRAW_STRING b)
      = Returns 0 (VgaDrawString (sint a) (sint b) str (u32_to_u8 d) (u32_to_u8 e) (t SYS_DRAW_STRING b))"
    using ptr cp [of SYS_DRAW_STRING b] by (auto simp: sys_draw_string_case_def)
  moreover have "sys_debug_case f p (t SYS_DEBUG p) = Returns 0 (serial_puts str (t SYS_DEBUG p))"
    using ptr cp [of SYS_DEBUG p] assms(1) by (auto simp: sys_debug_case_def user_string_def)
  moreover have "sys_gui_draw_window_case f a b c d p (t SYS_GUI_DRAW_WINDOW b)
      = Returns 0 (GuiDrawWindow (Some \<lparr>win_x = sint a, win_y = sint b, win_w = sint c, win_h = sint d,
          win_title = Some str, win_visible = 1\<rparr>) (t SYS_GUI_DRAW_WINDOW b))"
    using ptr cp [of SYS_GUI_DRAW_WINDOW b] by (auto simp: sys_gui_draw_window_case_def)
  ultimately show ?thesis by (simp add: syscall_dispatch_def t_def const_defs Let_def)
qed

subsection \<open>A caller with memory\<close>

text \<open>
  The desktop's state with a directory at 0x1000 whose table at 0x2000 maps the pages 0x3000 and 0x4000
  onto themselves for ring 3; the first one starts with the string \<open>Hi\<close>.
\<close>

definition caller_memory :: memory where
  "caller_memory = (store32 (store32 (store32 (\<lambda>_. 0) 0x1000 0x2007) 0x200C 0x3007) 0x2010 0x4007)
     (0x3000 := 0x48, 0x3001 := 0x69)"

definition caller_on :: gui where
  "caller_on = desktop_on\<lparr>phys_mem := caller_memory, cr3 := 0x1000\<rparr>"

definition caller_frame :: call_frame where
  "caller_frame = \<lparr>cf_local = 0x4100, cf_stack = replicate 128 NUL, cf_regs = sample_user_regs\<rparr>"

lemma caller_on_memory: "phys_mem caller_on = caller_memory" "page_base (cr3 caller_on) = 0x1000"
  by (simp_all add: caller_on_def page_base_def)

lemma caller_on_ready: "graphics_ready caller_on"
proof -
  have "graphics_ready desktop_on"
    using vga_on_ready by (simp add: graphics_ready_def desktop_on_def mouse_on_def cursor_on_def
        gui.defs mouse.defs display.defs cursor.defs vga.defs)
  then show ?thesis by (simp add: caller_on_def graphics_ready_def)
qed

lemma caller_entries:
  "read_entry caller_memory 0x1000 0 = 0x2007" "read_entry caller_memory 0x2000 3 = 0x3007"
  "read_entry caller_memory 0x2000 4 = 0x4007"
  by (simp_all add: read_entry_def load32_def caller_memory_def store32_def)

lemma caller_walk:
  assumes "page_base p = 0x3000 \<or> page_base p = 0x4000"
  shows "translate caller_memory 0x1000 p = Some p" "user_access caller_memory 0x1000 p" "pde_index p = 0"
proof -
  have "unat (drop_bit 12 p) = unat (page_base p) div 4096" by (simp add: unat_drop_bit unat_page_base)
  then have d: "drop_bit 12 p = (if page_base p = 0x3000 then 3 else 4)"
    using assms by (auto simp: word_unat_eq_iff)
  have "drop_bit 22 p = drop_bit 10 (drop_bit 12 p)" using drop_bit_drop_bit [of 10 12 p] by simp
  then have i: "pde_index p = 0" "pte_index p = (if page_base p = 0x3000 then 3 else 4)"
    using assms by (auto simp: pde_index_def pte_index_def d)
  then show "pde_index p = 0" by simp
  have b: "page_base 0x2007 = 0x2000" by (simp add: page_base_def)
  have f: "page_base (if page_base p = 0x3000 then 0x3007 else 0x4007) = page_base p"
    using assms by (auto simp: page_base_def)
  have walk: "page_walk caller_memory 0x1000 p = Some (0x2007, if page_base p = 0x3000 then 0x3007 else 0x4007)"
    by (auto simp: page_walk_def i b caller_entries present_def PTE_PRESENT_def)
  show "translate caller_memory 0x1000 p = Some p"
    using assms page_split [of p] f by (auto simp: translate_def walk)
  show "user_access caller_memory 0x1000 p" by (auto simp: user_access_def walk PTE_USER_def)
qed

lemma caller_ptr: "page_base p = 0x3000 \<or> page_base p = 0x4000 \<Longrightarrow> is_user_ptr p caller_on"
proof -
  assume p: "page_base p = 0x3000 \<or> page_base p = 0x4000"
  have "unat (page_base p) \<le> 0x4000" using p by auto
  then have "unat p < 0x80000000" unfolding unat_page_base by simp
  then show "is_user_ptr p caller_on"
    using caller_walk [OF p] by (simp add: is_user_ptr_eq caller_on_memory word_less_nat_alt)
qed

lemma caller_string: "user_string 127 caller_on 0x3000 ''Hi''"
proof -
  have "user_char caller_on p c" if "p \<in> {0x3000, 0x3001, 0x3002}" "caller_memory p = byte_of c" for p c
  proof -
    have p: "page_base p = 0x3000" using that(1) by (auto simp: page_base_def)
    show ?thesis
      using caller_walk p caller_ptr that(2) by (simp add: user_char_def virt_load_def caller_on_memory)
  qed
  from this [of "0x3000" "CHR ''H''"] this [of "0x3001" "CHR ''i''"] this [of "0x3002" NUL]
  show ?thesis
    by (simp add: user_string_def less_Suc_eq_0_disj caller_memory_def store32_def byte_of_def)
qed

subsection \<open>Properties\<close>

text \<open>
  C11: The calls that take a string from the caller's memory use exactly that string, up to the first
  127 characters: \<open>SYS_DRAW_STRING\<close> draws it at the place and in the colours of its other arguments,
  \<open>SYS_DEBUG\<close> sends it to the serial line, \<open>SYS_GUI_DRAW_WINDOW\<close> makes it the title of the window it
  draws; each answers 0.
\<close>

theorem string_calls_use_callers_string:
  assumes "user_string 127 s p str" "128 \<le> length (cf_stack f)"
  shows "syscall_dispatch f SYS_DRAW_STRING a b p d e s
      = Returns 0 (VgaDrawString (sint a) (sint b) str (u32_to_u8 d) (u32_to_u8 e)
          (serial_puts (syscall_trace SYS_DRAW_STRING a b) s))
    \<and> syscall_dispatch f SYS_DEBUG a p c d e s
      = Returns 0 (serial_puts str (serial_puts (syscall_trace SYS_DEBUG a p) s))
    \<and> syscall_dispatch f SYS_GUI_DRAW_WINDOW a b c d p s
      = Returns 0 (GuiDrawWindow (Some \<lparr>win_x = sint a, win_y = sint b, win_w = sint c, win_h = sint d,
          win_title = Some str, win_visible = 1\<rparr>) (serial_puts (syscall_trace SYS_GUI_DRAW_WINDOW a b) s))"
  by (rule syscall_strings [OF assms])

theorem string_calls_use_callers_string_witness:
  "syscall_dispatch caller_frame SYS_DEBUG 0 0x3000 0 0 0 caller_on
    = Returns 0 (serial_puts ''Hi'' (serial_puts (syscall_trace SYS_DEBUG 0 0x3000) caller_on))"
  using string_calls_use_callers_string [OF caller_string, of caller_frame 0 0 0 0 0] by (simp add: caller_frame_def)



text \<open>
  C9: A call other than the four that end the thread, yield, or hand out mouse data, and whose
  rectangle, window or button if it draws one ends on the screen, returns to its caller with an answer
  and leaves the machine as it was: memory, page tables, processes, threads, devices and the
  interface's variables are unchanged, only the picture and the output traces may grow.
\<close>

theorem calls_leave_machine_alone:
  assumes "num \<notin> {SYS_EXIT, SYS_YIELD, SYS_GET_MOUSE_STATE, SYS_GET_MOUSE_EVENT}"
    and "screen_mapped s" "call_on_screen num a c d"
  shows "\<exists>v t. syscall_dispatch f num a b c d e s = Returns v t \<and> undrawn t = undrawn s \<and> phys_mem t = phys_mem s"
  using syscall_dispatch_kept [OF assms(1,3), of s f b e] assms(2) unfolding kept_def quiet_def by blast

theorem calls_leave_machine_alone_witness:
  "\<exists>v t. syscall_dispatch caller_frame SYS_FILL_RECT 10 10 20 20 3 caller_on = Returns v t \<and> undrawn t = undrawn caller_on
    \<and> phys_mem t = phys_mem caller_on"
proof -
  have "screen_mapped caller_on" by (rule ready_mapped [OF caller_on_ready])
  then show ?thesis
    using calls_leave_machine_alone [of SYS_FILL_RECT caller_on 10 20 20 caller_frame 10 3]
    by (simp add: call_on_screen_def rect_in_window_def const_defs)
qed



text \<open>
  C19: In the directory of a process made by \<open>proc_create_user\<close> the check of user pointers accepts every
  mapped address below 2 GB, the kernel's own memory included: at an address that the kernel maps and
  that the program, its stack and the thunk page leave alone, a call reads the kernel's byte.
\<close>

theorem user_pointer_check_admits_kernel_memory:
  fixes s :: "'a proc_scheme" and entry phys sz w :: u32 and name :: string and p :: nat
  assumes "pmm_wf s" "dir_ok (phys_mem s) (free_addrs s) (g_kernel_dir s)"
    and "find_slot (\<lambda>q. \<not> active q) (g_processes s) = Some p"
    and "\<exists>th \<in> set (g_threads s). tid th = 0"
    and "card {i. pde_at (phys_mem s) (g_kernel_dir s) i} + unat ((sz + 4095) div 4096) + 36 \<le> card (free_addrs s)"
    and "unat (page_base entry) + 4096 * unat ((sz + 4095) div 4096) < 4294967296"
  defines "r \<equiv> snd (proc_create_user name phys sz entry s)"
  defines "t \<equiv> write_cr3 (page_dir (g_processes r ! p)) r"
  shows "(is_user_ptr w t \<longleftrightarrow> w < 0x80000000 \<and> translate (phys_mem r) (page_dir (g_processes r ! p)) w \<noteq> None)
    \<and> (w < 0x80000000 \<and> translate (phys_mem s) (g_kernel_dir s) w = Some x \<and> \<not> in_stack w
        \<and> \<not> in_code (page_base entry) (unat ((sz + 4095) div 4096)) w \<and> page_base w \<noteq> 0x106000
       \<longrightarrow> is_user_ptr w t \<and> virt_load w t = Some (phys_mem r x))"
proof -
  let ?d = "page_dir (g_processes r ! p)" and ?n = "unat ((sz + 4095) div 4096)"
  note P = proc_create_user_space [OF assms(1-6), of name phys, folded r_def]
  then have "page_base ?d = ?d" by (simp add: page_def)
  then have t: "phys_mem t = phys_mem r" "page_base (cr3 t) = ?d" by (simp_all add: t_def)
  from P have "\<forall>w. translate (phys_mem r) ?d w \<noteq> None \<longrightarrow> user_access (phys_mem r) ?d w" by blast
  then have "user_access (phys_mem r) ?d w \<longleftrightarrow> translate (phys_mem r) ?d w \<noteq> None"
    by (metis option.distinct(1) user_access_translate)
  then have ptr: "is_user_ptr w t \<longleftrightarrow> w < 0x80000000 \<and> translate (phys_mem r) ?d w \<noteq> None"
    by (simp add: is_user_ptr_eq t)
  from P obtain fr where tr: "translate (phys_mem r) ?d w
      = (if page_base w = 0x106000 then Some w else user_map fr (page_base entry) (page_base phys) ?n s w)" by blast
  have "translate (phys_mem r) ?d w = Some x"
    if "translate (phys_mem s) (g_kernel_dir s) w = Some x" "\<not> in_stack w"
      "\<not> in_code (page_base entry) ?n w" "page_base w \<noteq> 0x106000"
    using that by (simp add: tr user_map_def)
  then show ?thesis using ptr by (auto simp: virt_load_def t)
qed

theorem user_pointer_check_admits_kernel_memory_witness:
  "is_user_ptr 0x100000 (write_cr3 (page_dir (g_processes (snd (proc_create_user ''gui_user'' 0x107000 0x2000 0x400000 proc_booted)) ! 1))
     (snd (proc_create_user ''gui_user'' 0x107000 0x2000 0x400000 proc_booted)))"
proof -
  have room: "2 \<le> card (free_addrs proc_paged)" by (simp add: proc_paged_ok)
  note P = proc_init_facts [OF proc_paged_ok(2,3) room, of "0x105000", folded proc_booted_def]
  have "translate (phys_mem proc_booted) (g_kernel_dir proc_booted) 0x100000
      = translate (phys_mem proc_paged) (g_kernel_dir proc_paged) 0x100000"
    using P(4,5) by (simp add: translate_def)
  also have "\<dots> = Some 0x100000" using proc_paged_ok(1) by (simp add: identity_inv_def)
  finally show ?thesis
    using user_pointer_check_admits_kernel_memory
      [OF proc_booted_ok(1,2,4,5), of "0x2000" "0x400000" "0x100000" "''gui_user''" "0x107000" "0x100000",
        THEN conjunct2] proc_booted_ok(3,6)
    by (simp add: page_base_def in_stack_def in_code_def)
qed

end
