(* ===== verification/Syscall_Events.thy ===== *)
theory Syscall_Events
  imports Syscall
begin

unbundle bit_operations_syntax

section \<open>Mouse data given to a program\<close>

text \<open>
  What \<open>give_mouse\<close> of \<open>Syscall\<close> does to the caller's memory: it builds the answer on the kernel's stack
  and copies its twelve bytes to the caller's buffer, byte by byte, each time through the page tables.
  The lemmas show that the tables are not disturbed on the way, so the caller reads the three words,
  and join the call to the queue that the desktop fills.
\<close>

subsection \<open>Translation is not disturbed\<close>

lemma page_walk_outside:
  assumes "same_outside P m m'" "page d" "d \<notin> P" "page_base (read_entry m d (pde_index w)) \<notin> P"
  shows "page_walk m' d w = page_walk m d w"
proof -
  have "read_entry m' d (pde_index w) = read_entry m d (pde_index w)"
    by (rule read_entry_outside [OF assms(1,2) index_bounds(1) assms(3)])
  moreover have "read_entry m' (page_base (read_entry m d (pde_index w))) (pte_index w)
      = read_entry m (page_base (read_entry m d (pde_index w))) (pte_index w)"
    by (rule read_entry_outside [OF assms(1) page_page_base index_bounds(2) assms(4)])
  ultimately show ?thesis by (simp add: page_walk_def Let_def)
qed

lemma page_walk_same_page: "page_base v = page_base w \<Longrightarrow> page_walk m d v = page_walk m d w"
  by (auto simp: page_walk_def same_page_iff Let_def)

lemma page_offset_bit: "bit (page_offset a) n \<longleftrightarrow> bit a n \<and> n < 12"
proof -
  have "page_offset a = a AND mask 12" by (simp add: page_offset_def mask_eq_exp_minus_1)
  then show ?thesis using bit_imp_le_length [of a n] by (auto simp: bit_and_iff bit_mask_iff)
qed

lemma page_base_composed [simp]: "page_base (page_base x OR page_offset y) = page_base x"
  by (rule bit_word_eqI) (auto simp: bit_page_base page_offset_bit bit_or_iff)

lemma page_offset_composed [simp]: "page_offset (page_base x OR page_offset y) = page_offset y"
  by (rule bit_word_eqI) (auto simp: bit_page_base page_offset_bit bit_or_iff)

lemma same_address: "page_base x = page_base y \<Longrightarrow> page_offset x = page_offset y \<Longrightarrow> x = y"
  by (metis page_split)

subsection \<open>The copying loop\<close>

lemma copy_out_copies:
  assumes dest: "\<And>m' k. \<lbrakk>same_outside P (phys_mem s) m'; k < N\<rbrakk> \<Longrightarrow>
      translate m' (page_base (cr3 s)) (b + of_nat k) = Some (at k)"
    and src: "\<And>m' k. \<lbrakk>same_outside P (phys_mem s) m'; k < N\<rbrakk> \<Longrightarrow>
      translate m' (page_base (cr3 s)) (l + of_nat k) = Some (l + of_nat k)
      \<and> user_access m' (page_base (cr3 s)) (l + of_nat k) \<and> l + of_nat k < 0x80000000"
    and "\<And>k. k < N \<Longrightarrow> page_base (at k) \<in> P"
    and "i + n \<le> N" "same_outside P (phys_mem s) m"
  shows "copy_out n b l i (s\<lparr>phys_mem := m\<rparr>)
    = Inr (True, s\<lparr>phys_mem := fold (\<lambda>k m. m(at k := m (l + of_nat k))) [i..<i + n] m\<rparr>)"
  using assms(4,5)
proof (induction n arbitrary: i m)
  case 0
  then show ?case by simp
next
  case (Suc n)
  have i: "i < N" using Suc.prems(1) by simp
  let ?m = "m(at i := m (l + of_nat i))"
  note S = src [OF Suc.prems(2) i] and D = dest [OF Suc.prems(2) i]
  have "same_outside P (phys_mem s) ?m" using Suc.prems(2) assms(3) [OF i] by (auto simp: same_outside_def)
  moreover have n: "i + 1 + n \<le> N" "i + 1 + n = i + Suc n" using Suc.prems(1) by simp_all
  ultimately have "copy_out n b l (i + 1) (s\<lparr>phys_mem := ?m\<rparr>)
      = Inr (True, s\<lparr>phys_mem := fold (\<lambda>k m. m(at k := m (l + of_nat k))) [i + 1..<i + Suc n] ?m\<rparr>)"
    using Suc.IH [of "i + 1" ?m] by (simp only: n(2) simp_thms)
  moreover have "is_user_ptr (l + of_nat i) (s\<lparr>phys_mem := m\<rparr>)"
    "virt_load (l + of_nat i) (s\<lparr>phys_mem := m\<rparr>) = Some (m (l + of_nat i))"
    "virt_store (b + of_nat i) v (s\<lparr>phys_mem := m\<rparr>) = Some (s\<lparr>phys_mem := m(at i := v)\<rparr>)" for v
    using S D by (simp_all add: is_user_ptr_eq virt_load_def virt_store_def)
  moreover have split: "[i..<i + Suc n] = i # [i + 1..<i + Suc n]" by (simp add: upt_conv_Cons)
  ultimately show ?case unfolding split by (simp only: copy_out.simps fold_simps option.case option.sel not_True_eq_False if_False)
qed

lemma fold_copies:
  assumes "inj_on at {..<n}" "\<And>j k. j < n \<Longrightarrow> k < n \<Longrightarrow> at j \<noteq> from k"
  shows "fold (\<lambda>k m. m(at k := m (from k))) [0..<n] m a
    = (case find (\<lambda>k. at k = a) [0..<n] of Some k \<Rightarrow> m (from k) | None \<Rightarrow> m a)"
  using assms
proof (induction n arbitrary: a)
  case 0
  then show ?case by simp
next
  case (Suc n)
  define g where "g = fold (\<lambda>k m. m(at k := m (from k))) [0..<n] m"
  have g: "fold (\<lambda>k m. m(at k := m (from k))) [0..<Suc n] m = g(at n := g (from n))" by (simp add: g_def)
  have inj: "inj_on at {..<n}" and sep: "\<And>j k. j < n \<Longrightarrow> k < n \<Longrightarrow> at j \<noteq> from k"
    using Suc.prems by (auto simp: inj_on_def)
  have IH: "g a = (case find (\<lambda>k. at k = a) [0..<n] of Some k \<Rightarrow> m (from k) | None \<Rightarrow> m a)" for a
    unfolding g_def by (rule Suc.IH [OF inj sep])
  have "find (\<lambda>k. at k = from n) [0..<n] = None" using Suc.prems(2) by (auto simp: find_None_iff)
  then have src: "g (from n) = m (from n)" by (simp add: IH)
  show ?case
  proof (cases "at n = a")
    case True
    then have "find (\<lambda>k. at k = a) [0..<n] = None" using Suc.prems(1) by (auto simp: find_None_iff inj_on_def)
    then show ?thesis using True src unfolding g by (simp add: find_append)
  next
    case False
    then show ?thesis unfolding g by (cases "find (\<lambda>k. at k = a) [0..<n]") (simp_all add: find_append IH)
  qed
qed

lemma fold_copies_at:
  assumes "inj_on at {..<n}" "\<And>j k. j < n \<Longrightarrow> k < n \<Longrightarrow> at j \<noteq> from k" "k < n"
  shows "fold (\<lambda>k m. m(at k := m (from k))) [0..<n] m (at k) = m (from k)"
proof -
  obtain j where j: "find (\<lambda>j. at j = at k) [0..<n] = Some j"
    using assms(3) by (cases "find (\<lambda>j. at j = at k) [0..<n]") (auto simp: find_None_iff)
  then have "j < n" "at j = at k" by (auto simp: find_Some_iff)
  then have "j = k" using assms(1,3) by (auto simp: inj_on_def)
  then show ?thesis using fold_copies [OF assms(1,2), where m = m and a = "at k"] j by (simp only: option.case)
qed

subsection \<open>A buffer apart from the tables\<close>

text \<open>
  The caller's buffer at \<open>b\<close> is open to ring 3 and lies in one page, as does the kernel's copy on its
  stack, which is mapped onto itself; the two are in different frames, and neither frame holds the
  directory or one of the two tables in use.
\<close>

definition buffer_frame :: "'a vmm_scheme \<Rightarrow> u32 \<Rightarrow> u32" where
  "buffer_frame s b = page_base (the (translate (phys_mem s) (page_base (cr3 s)) b))"

definition table_frame :: "'a vmm_scheme \<Rightarrow> u32 \<Rightarrow> u32" where
  "table_frame s b = page_base (read_entry (phys_mem s) (page_base (cr3 s)) (pde_index b))"

definition buffer_ready :: "u32 \<Rightarrow> 'a vmm_scheme \<Rightarrow> u32 \<Rightarrow> bool" where
  "buffer_ready l s b \<longleftrightarrow> is_user_ptr b s \<and> is_user_ptr l s
     \<and> translate (phys_mem s) (page_base (cr3 s)) l = Some l \<and> aligned4 l
     \<and> (\<forall>k < 12. page_base (b + of_nat k) = page_base b \<and> page_base (l + of_nat k) = page_base l)
     \<and> buffer_frame s b \<noteq> page_base l
     \<and> {buffer_frame s b, page_base l} \<inter> {page_base (cr3 s), table_frame s b, table_frame s l} = {}"

text \<open>The word at \<open>b\<close> as the caller reads it.\<close>

definition user_word :: "'a vmm_scheme \<Rightarrow> u32 \<Rightarrow> u32" where
  "user_word s b = load32 (\<lambda>a. the (virt_load a s)) b"

lemma translate_in_page:
  assumes "translate m d v = Some p" "page_base w = page_base v"
  shows "translate m d w = Some (page_base p OR page_offset w)"
  using assms(1) page_walk_same_page [OF assms(2), of m d] by (auto simp: translate_def)

lemma below_in_page: "v < 0x80000000 \<Longrightarrow> page_base w = page_base v \<Longrightarrow> w < (0x80000000 :: u32)"
  using div_less_iff_less_mult [of 4096 "unat v" 524288] div_less_iff_less_mult [of 4096 "unat w" 524288]
  by (simp add: word_less_nat_alt word_unat_eq_iff unat_page_base)

lemma put_mouse_words:
  assumes "aligned4 l"
  shows "load32 (put_mouse l x y n m) l = word_of_int x" "load32 (put_mouse l x y n m) (l + 4) = word_of_int y"
    "load32 (put_mouse l x y n m) (l + 8) = word_of_int n"
proof -
  have "aligned4 (l + 4)" "aligned4 (l + 8)" using aligned4_add [OF assms, of 1] aligned4_add [OF assms, of 2] by simp_all
  then show "load32 (put_mouse l x y n m) l = word_of_int x" "load32 (put_mouse l x y n m) (l + 4) = word_of_int y"
    "load32 (put_mouse l x y n m) (l + 8) = word_of_int n"
    using assms by (simp_all add: put_mouse_def load32_store32_other)
qed

lemma put_mouse_outside:
  assumes "\<forall>k < 12. page_base (l + of_nat k) = page_base l"
  shows "same_outside {page_base l} m (put_mouse l x y n m)"
proof -
  have "page_base (l + of_nat k) \<in> {page_base l}" if "k < 12" for k using assms that by blast
  from this [of 0] this [of 1] this [of 2] this [of 3] this [of 4] this [of 5] this [of 6] this [of 7]
    this [of 8] this [of 9] this [of 10] this [of 11]
  show ?thesis by (auto simp: same_outside_def put_mouse_def store32_def add.assoc)
qed

lemma give_mouse_delivers:
  assumes "buffer_ready (cf_local f) s b"
  shows "\<exists>m'. give_mouse f b x y n s = Returns 0 (s\<lparr>phys_mem := m'\<rparr>)
    \<and> user_word (s\<lparr>phys_mem := m'\<rparr>) b = word_of_int x \<and> user_word (s\<lparr>phys_mem := m'\<rparr>) (b + 4) = word_of_int y
    \<and> user_word (s\<lparr>phys_mem := m'\<rparr>) (b + 8) = word_of_int n
    \<and> same_outside {buffer_frame s b, page_base (cf_local f)} (phys_mem s) m'"
proof -
  let ?l = "cf_local f" and ?d = "page_base (cr3 s)" and ?m = "phys_mem s" and ?F = "buffer_frame s b"
  let ?P = "{?F, page_base ?l}"
  define at where "at k = ?F OR page_offset (b + of_nat k)" for k :: nat
  define m1 where "m1 = put_mouse ?l x y n ?m"
  define m' where "m' = fold (\<lambda>k m. m(at k := m (?l + of_nat k))) [0..<12] m1"
  obtain pb where pb: "translate ?m ?d b = Some pb" "?F = page_base pb"
    using assms user_access_translate by (fastforce simp: buffer_ready_def is_user_ptr_eq buffer_frame_def)
  have pages: "page_base (b + of_nat k) = page_base b" "page_base (?l + of_nat k) = page_base ?l" if "k < 12" for k
    using assms that by (auto simp: buffer_ready_def)
  have walk: "page_walk m d w = page_walk ?m d w"
    if "same_outside ?P ?m m" "d = ?d" "table_frame s w = table_frame s b \<or> table_frame s w = table_frame s ?l" for m d w
    using that assms unfolding table_frame_def by (intro page_walk_outside [of ?P]) (auto simp: buffer_ready_def table_frame_def)
  have tables: "table_frame s (b + of_nat k) = table_frame s b" "table_frame s (?l + of_nat k) = table_frame s ?l"
    if "k < 12" for k
    using pages [OF that] by (simp_all add: table_frame_def same_page_iff)
  have dest: "translate m ?d (b + of_nat k) = Some (at k)" if "same_outside ?P ?m m" "k < 12" for m k
    using translate_in_page [OF pb(1) pages(1) [OF that(2)]] walk [OF that(1) refl, of "b + of_nat k"] tables [OF that(2)]
    by (simp add: translate_def at_def pb(2))
  have src: "translate m ?d (?l + of_nat k) = Some (?l + of_nat k) \<and> user_access m ?d (?l + of_nat k)
      \<and> ?l + of_nat k < 0x80000000" if "same_outside ?P ?m m" "k < 12" for m k
  proof -
    have l: "translate ?m ?d ?l = Some ?l" "user_access ?m ?d ?l" "?l < 0x80000000"
      using assms by (auto simp: buffer_ready_def is_user_ptr_eq)
    have w: "page_walk m ?d (?l + of_nat k) = page_walk ?m ?d ?l"
      using walk [OF that(1) refl, of "?l + of_nat k"] tables [OF that(2)] page_walk_same_page [OF pages(2) [OF that(2)]] by simp
    have "page_base ?l OR page_offset (?l + of_nat k) = ?l + of_nat k"
      using page_split [of "?l + of_nat k"] pages(2) [OF that(2)] by simp
    then show ?thesis
      using translate_in_page [OF l(1) pages(2) [OF that(2)]] l(2) below_in_page [OF l(3) pages(2) [OF that(2)]] w
        page_walk_same_page [OF pages(2) [OF that(2)], of ?m ?d] by (simp add: translate_def user_access_def)
  qed
  have atP: "page_base (at k) = ?F" for k unfolding at_def pb(2) by simp
  have apart: "at j \<noteq> ?l + of_nat k" if "j < 12" "k < 12" for j k
    using atP [of j] pages(2) [OF that(2)] assms by (metis buffer_ready_def)
  have inj: "inj_on at {..<12}"
  proof (rule inj_onI)
    fix j k assume jk: "j \<in> {..<12}" "k \<in> {..<12}" "at j = at k"
    then have "page_offset (b + of_nat j) = page_offset (b + of_nat k)" unfolding at_def pb(2) by (metis page_offset_composed)
    then have "b + of_nat j = b + of_nat k" using same_address pages(1) jk by (metis lessThan_iff)
    then have "(of_nat j :: u32) = of_nat k" by simp
    moreover have "unat (of_nat j :: u32) = j" "unat (of_nat k :: u32) = k"
      using jk by (simp_all only: lessThan_iff unat_of_nat_u32)
    ultimately show "j = k" by metis
  qed
  have out1: "same_outside ?P ?m m1"
    unfolding m1_def using pages by (intro same_outside_mono [OF put_mouse_outside]) auto
  have out: "same_outside ?P ?m m'"
  proof -
    have "m' a = m1 a" if "page_base a \<noteq> ?F" for a
    proof -
      have "find (\<lambda>k. at k = a) [0..<12] = None" using atP that by (auto simp: find_None_iff)
      then show ?thesis using fold_copies [OF inj apart, where m = m1 and a = a] unfolding m'_def by (simp only: option.case)
    qed
    then show ?thesis using out1 by (simp add: same_outside_def)
  qed
  have copied: "m' (at k) = m1 (?l + of_nat k)" if "k < 12" for k
    unfolding m'_def by (rule fold_copies_at [OF inj apart that])
  have "copy_out 12 b ?l 0 (s\<lparr>phys_mem := m1\<rparr>) = Inr (True, s\<lparr>phys_mem := m'\<rparr>)"
    using copy_out_copies [OF dest src _ _ out1, where N = 12 and i = 0 and n = 12] atP unfolding m'_def by simp
  then have give: "give_mouse f b x y n s = Returns 0 (s\<lparr>phys_mem := m'\<rparr>)"
    by (simp add: give_mouse_def copy_to_address_def m1_def)
  have byte: "the (virt_load (b + of_nat k) (s\<lparr>phys_mem := m'\<rparr>)) = m1 (?l + of_nat k)" if "k < 12" for k
    using dest [OF out that] copied [OF that] by (simp add: virt_load_def)
  have word: "user_word (s\<lparr>phys_mem := m'\<rparr>) (b + of_nat k) = load32 m1 (?l + of_nat k)" if "k < 9" for k
    using byte [of k] byte [of "k + 1"] byte [of "k + 2"] byte [of "k + 3"] that
    by (simp add: user_word_def load32_def ac_simps)
  have "aligned4 ?l" using assms by (simp add: buffer_ready_def)
  note W = put_mouse_words [OF this, of x y n ?m, folded m1_def]
  show ?thesis using give out word [of 0] word [of 4] word [of 8] W by auto
qed

subsection \<open>Properties\<close>

text \<open>
  C14: A program that asks for the next mouse event gets the oldest one the desktop has queued: the call
  answers 0, the three words of the program's buffer are the event's position and buttons, the event is
  gone from the queue and the others stay, and memory changes in the buffer's frame and in that of
  the kernel's own copy only.
\<close>

theorem mouse_event_reaches_program:
  fixes s :: "'a gui_scheme"
  assumes "events_ok s" "event_contents s = ev # rest" "buffer_ready (cf_local f) s b"
  shows "\<exists>t. syscall_dispatch f SYS_GET_MOUSE_EVENT a b c d e s = Returns 0 t
    \<and> user_word t b = word_of_int (ev_x ev) \<and> user_word t (b + 4) = word_of_int (ev_y ev)
    \<and> user_word t (b + 8) = word_of_int (ev_buttons ev)
    \<and> event_contents t = rest \<and> events_ok t
    \<and> same_outside {buffer_frame s b, page_base (cf_local f)} (phys_mem s) (phys_mem t)"
proof -
  let ?s = "serial_puts (syscall_trace SYS_GET_MOUSE_EVENT a b) s"
  have q: "events_ok ?s" "event_contents ?s = ev # rest"
    using assms(1,2) by (simp_all add: events_ok_def event_contents_def serial_puts_eq)
  obtain u where u: "GuiGetMouseEvent ?s = (Some ev, u)"
    using GuiGetMouseEvent_queue(2) [OF q(1)] q(2) by (cases "GuiGetMouseEvent ?s") auto
  then have rest: "event_contents u = rest" "events_ok u"
    using GuiGetMouseEvent_queue(1,3) [OF q(1)] q(2) by simp_all
  from u obtain n where "u = ?s\<lparr>g_mouse_tail := n\<rparr>" by (auto simp: GuiGetMouseEvent_def split: if_splits)
  then have mem: "phys_mem u = phys_mem s" "cr3 u = cr3 s" by simp_all
  have "buffer_ready (cf_local f) u b"
    using assms(3) user_memory_cong(1) [OF mem] by (simp add: buffer_ready_def buffer_frame_def table_frame_def mem)
  from give_mouse_delivers [OF this, of "ev_x ev" "ev_y ev" "ev_buttons ev"] obtain m' where
    m': "give_mouse f b (ev_x ev) (ev_y ev) (ev_buttons ev) u = Returns 0 (u\<lparr>phys_mem := m'\<rparr>)"
      "user_word (u\<lparr>phys_mem := m'\<rparr>) b = word_of_int (ev_x ev)" "user_word (u\<lparr>phys_mem := m'\<rparr>) (b + 4) = word_of_int (ev_y ev)"
      "user_word (u\<lparr>phys_mem := m'\<rparr>) (b + 8) = word_of_int (ev_buttons ev)"
      "same_outside {buffer_frame u b, page_base (cf_local f)} (phys_mem u) m'" by blast
  have "is_user_ptr b ?s" using assms(3) by (simp add: buffer_ready_def)
  then have "syscall_dispatch f SYS_GET_MOUSE_EVENT a b c d e s = Returns 0 (u\<lparr>phys_mem := m'\<rparr>)"
    using u m'(1) by (simp add: syscall_dispatch_def const_defs Let_def sys_get_mouse_event_case_def)
  moreover have "event_contents (u\<lparr>phys_mem := m'\<rparr>) = rest" "events_ok (u\<lparr>phys_mem := m'\<rparr>)"
    using rest by (simp_all add: event_contents_def events_ok_def)
  ultimately show ?thesis using m' by (simp add: buffer_frame_def mem)
qed

definition waiting_on :: gui where
  "waiting_on = GuiQueueMouseEvent 5 7 1 caller_on"

lemma waiting_on_memory: "phys_mem waiting_on = caller_memory" "page_base (cr3 waiting_on) = 0x1000"
  by (simp_all add: waiting_on_def GuiQueueMouseEvent_def caller_on_memory Let_def)

lemma waiting_on_ready: "buffer_ready 0x4100 waiting_on 0x3200"
proof -
  have page: "page_base (0x3200 + of_nat k) = 0x3000" "page_base (0x4100 + of_nat k) = 0x4000" if "k < 12" for k
  proof -
    have "unat (of_nat k :: u32) = k" using that by (intro unat_of_nat_u32) simp
    then show "page_base (0x3200 + of_nat k) = 0x3000" "page_base (0x4100 + of_nat k) = 0x4000"
      using that by (simp_all add: word_unat_eq_iff unat_page_base unat_word_ariths)
  qed
  from this [of 0] have p: "page_base 0x3200 = 0x3000" "page_base 0x4100 = 0x4000" by simp_all
  then have "is_user_ptr 0x3200 waiting_on" "is_user_ptr 0x4100 waiting_on"
    using caller_ptr by (simp_all add: is_user_ptr_eq caller_on_memory waiting_on_memory)
  moreover have "table_frame waiting_on w = 0x2000" if "page_base w = 0x3000 \<or> page_base w = 0x4000" for w
  proof -
    have "page_base 0x2007 = 0x2000" by (simp add: page_base_def)
    then show ?thesis using caller_walk(3) [OF that] by (simp add: table_frame_def waiting_on_memory caller_entries)
  qed
  ultimately show ?thesis
    using page p caller_walk(1) by (simp add: buffer_ready_def buffer_frame_def waiting_on_memory aligned4_def)
qed

theorem mouse_event_reaches_program_witness:
  "\<exists>t. syscall_dispatch caller_frame SYS_GET_MOUSE_EVENT 0 0x3200 0 0 0 waiting_on = Returns 0 t
    \<and> user_word t 0x3200 = 5 \<and> user_word t 0x3204 = 7 \<and> user_word t 0x3208 = 1"
proof -
  let ?ev = "\<lparr>ev_x = 5, ev_y = 7, ev_buttons = 1\<rparr>"
  have "events_ok caller_on" "event_contents caller_on = []"
    using desktop_on_safe(1) by (simp_all add: gui_safe_def caller_on_def events_ok_def event_contents_def ring_contents_def
        desktop_on_fields)
  then have "events_ok waiting_on" "event_contents waiting_on = ?ev # []"
    using GuiQueueMouseEvent_queue [of caller_on ?ev] by (simp_all add: waiting_on_def)
  from mouse_event_reaches_program [OF this, of caller_frame "0x3200" 0 0 0 0] waiting_on_ready
  show ?thesis by (auto simp: caller_frame_def)
qed

end
