(* ===== verification/Syscall_Entry.thy ===== *)
theory Syscall_Entry
  imports Syscall_Events
begin

unbundle bit_operations_syntax

section \<open>The call stub and the library of user programs\<close>

text \<open>
  Models \<open>syscall_entry\<close> of \<open>kernel/interrupt/syscall.c\<close> and the wrappers of \<open>include/libsys.h\<close>. A wrapper
  is what it leaves in the registers at \<open>int $0x30\<close>. The stub saves the program's registers on the
  kernel stack as the processor and its \<open>push\<close> instructions do, passes them to the dispatcher on that
  stack, pops them, and prints five words of the frame before \<open>iret\<close>; \<open>left\<close> is what that last C call
  leaves in \<open>eax\<close>, \<open>ecx\<close> and \<open>edx\<close>, which the calling convention lets it change.

  \<open>sys_gui_draw_button\<close> asks the compiler for two values in one register, so it has no code to model.
\<close>

subsection \<open>The stub\<close>

definition syscall_save :: "u32 \<Rightarrow> cpu_regs \<Rightarrow> memory \<Rightarrow> u32 \<times> memory" where
  "syscall_save esp0 r m =
     (let c = (if from_ring3 r then push_all [r_ss r, r_esp r] (esp0, m) else (r_esp r, m));
          c = push_all [r_eflags r, r_cs r, r_eip r] c;
          c = push_all [r_ebp r, r_edi r, r_esi r, r_edx r, r_ecx r, r_ebx r] c
      in push_all [r_ds r, r_es r, r_fs r, r_gs r] c)"

definition syscall_restore :: "u32 \<times> u32 \<times> u32 \<Rightarrow> u32 \<Rightarrow> memory \<Rightarrow> cpu_regs" where
  "syscall_restore left esp m =
     (let w = (\<lambda>k. load32 m (esp + 4 * of_nat k)); cs = w 11; (eax, ecx, edx) = left
      in \<lparr>r_eax = eax, r_ecx = ecx, r_edx = edx, r_ebx = w 4,
          r_esp = (if cs AND 3 = 3 then w 13 else esp + 4 * 13),
          r_ebp = w 9, r_esi = w 7, r_edi = w 8,
          r_ds = w 3, r_es = w 2, r_fs = w 1, r_gs = w 0,
          r_ss = (if cs AND 3 = 3 then w 14 else 0x10),
          r_eip = w 10, r_cs = cs, r_eflags = w 12\<rparr>)"

text \<open>
  \<open>push $5; push %esp\<close> below the frame's return address, and the call with these two as arguments: the
  first word dumped is the 5 itself.
\<close>

definition syscall_dump :: "u32 \<Rightarrow> 'a vmm_scheme \<Rightarrow> 'a vmm_scheme" where
  "syscall_dump base s =
     (let (sp, m) = push_all [5, base - 4] (base, phys_mem s)
      in dump_stack (load32 m sp) (unat (load32 m (sp + 4))) (s\<lparr>phys_mem := m\<rparr>))"

definition syscall_entry :: "call_frame \<Rightarrow> u32 \<times> u32 \<times> u32 \<Rightarrow> cpu_regs \<Rightarrow> 'a gui_scheme \<Rightarrow> 'a gui_scheme call_end" where
  "syscall_entry f left r s =
     (let (esp, m) = syscall_save (tss_esp0 (g_tss s)) r (phys_mem s);
          (sp, m) = push_all [r_edi r, r_esi r, r_edx r, r_ecx r, r_ebx r, r_eax r] (esp, m);
          s = s\<lparr>phys_mem := m\<rparr>;
          w = (\<lambda>k. load32 m (sp + 4 * of_nat k))
      in case syscall_dispatch f (w 0) (w 1) (w 2) (w 3) (w 4) (w 5) s of
           Returns ret s \<Rightarrow> Goes_On (syscall_restore left esp (phys_mem s)) (syscall_dump (esp + 40) s)
         | Goes_On regs s \<Rightarrow> Goes_On regs s
         | Exits s \<Rightarrow> Exits s
         | Faults addr s \<Rightarrow> Faults addr s
         | Hangs \<Rightarrow> Hangs)"

subsection \<open>The wrappers\<close>

definition sys_exit :: "u32 \<Rightarrow> cpu_regs \<Rightarrow> cpu_regs" where
  "sys_exit code r = r\<lparr>r_eax := SYS_EXIT, r_ebx := code\<rparr>"

definition sys_yield :: "cpu_regs \<Rightarrow> cpu_regs" where
  "sys_yield r = r\<lparr>r_eax := SYS_YIELD\<rparr>"

definition sys_draw_pixel :: "int \<Rightarrow> int \<Rightarrow> u8 \<Rightarrow> cpu_regs \<Rightarrow> cpu_regs" where
  "sys_draw_pixel x y color r =
     r\<lparr>r_eax := SYS_DRAW_PIXEL, r_ebx := word_of_int x, r_ecx := word_of_int y, r_edx := ucast color\<rparr>"

definition sys_fill_rect :: "int \<Rightarrow> int \<Rightarrow> int \<Rightarrow> int \<Rightarrow> u8 \<Rightarrow> cpu_regs \<Rightarrow> cpu_regs" where
  "sys_fill_rect x y w h color r =
     r\<lparr>r_eax := SYS_FILL_RECT, r_ebx := word_of_int x, r_ecx := word_of_int y, r_edx := word_of_int w,
       r_esi := word_of_int h, r_edi := ucast color\<rparr>"

definition sys_draw_string :: "int \<Rightarrow> int \<Rightarrow> u32 \<Rightarrow> u8 \<Rightarrow> u8 \<Rightarrow> cpu_regs \<Rightarrow> cpu_regs" where
  "sys_draw_string x y str fg bg r =
     r\<lparr>r_eax := SYS_DRAW_STRING, r_ebx := word_of_int x, r_ecx := word_of_int y, r_edx := str,
       r_esi := ucast fg, r_edi := ucast bg\<rparr>"

definition sys_get_tick :: "cpu_regs \<Rightarrow> cpu_regs" where
  "sys_get_tick r = r\<lparr>r_eax := SYS_GET_TICK\<rparr>"

definition sys_get_mouse :: "cpu_regs \<Rightarrow> cpu_regs" where
  "sys_get_mouse r = r\<lparr>r_eax := SYS_GET_MOUSE\<rparr>"

definition sys_get_mouse_state :: "u32 \<Rightarrow> cpu_regs \<Rightarrow> cpu_regs" where
  "sys_get_mouse_state out r = r\<lparr>r_eax := SYS_GET_MOUSE_STATE, r_ebx := out\<rparr>"

definition sys_get_mouse_event :: "u32 \<Rightarrow> cpu_regs \<Rightarrow> cpu_regs" where
  "sys_get_mouse_event out r = r\<lparr>r_eax := SYS_GET_MOUSE_EVENT, r_ebx := out\<rparr>"

definition sys_debug :: "u32 \<Rightarrow> cpu_regs \<Rightarrow> cpu_regs" where
  "sys_debug str r = r\<lparr>r_eax := SYS_DEBUG, r_ebx := str\<rparr>"

definition sys_gui_draw_desktop :: "cpu_regs \<Rightarrow> cpu_regs" where
  "sys_gui_draw_desktop r = r\<lparr>r_eax := SYS_GUI_DRAW_DESKTOP\<rparr>"

definition sys_gui_draw_taskbar :: "cpu_regs \<Rightarrow> cpu_regs" where
  "sys_gui_draw_taskbar r = r\<lparr>r_eax := SYS_GUI_DRAW_TASKBAR\<rparr>"

definition sys_gui_draw_window :: "int \<Rightarrow> int \<Rightarrow> int \<Rightarrow> int \<Rightarrow> u32 \<Rightarrow> cpu_regs \<Rightarrow> cpu_regs" where
  "sys_gui_draw_window x y w h title r =
     r\<lparr>r_eax := SYS_GUI_DRAW_WINDOW, r_ebx := word_of_int x, r_ecx := word_of_int y, r_edx := word_of_int w,
       r_esi := word_of_int h, r_edi := title\<rparr>"

definition sys_gui_draw_window_text :: "u32 \<Rightarrow> int \<Rightarrow> int \<Rightarrow> u32 \<Rightarrow> u8 \<Rightarrow> cpu_regs \<Rightarrow> cpu_regs" where
  "sys_gui_draw_window_text win rx ry txt fg r =
     r\<lparr>r_eax := SYS_GUI_DRAW_WINDOW_TEXT, r_ebx := win, r_ecx := word_of_int rx, r_edx := word_of_int ry,
       r_esi := txt, r_edi := ucast fg\<rparr>"

definition sys_get_pixel :: "int \<Rightarrow> int \<Rightarrow> cpu_regs \<Rightarrow> cpu_regs" where
  "sys_get_pixel x y r = r\<lparr>r_eax := SYS_GET_PIXEL, r_ebx := word_of_int x, r_ecx := word_of_int y\<rparr>"

subsection \<open>What is pushed and popped\<close>

definition call_of :: "call_frame \<Rightarrow> cpu_regs \<Rightarrow> 'a gui_scheme \<Rightarrow> 'a gui_scheme call_end" where
  "call_of f r s = syscall_dispatch f (r_eax r) (r_ebx r) (r_ecx r) (r_edx r) (r_esi r) (r_edi r) s"

definition call_words :: "cpu_regs \<Rightarrow> u32 list" where
  "call_words r = [r_ss r, r_esp r, r_eflags r, r_cs r, r_eip r, r_ebp r, r_edi r, r_esi r, r_edx r, r_ecx r, r_ebx r,
     r_ds r, r_es r, r_fs r, r_gs r, r_edi r, r_esi r, r_edx r, r_ecx r, r_ebx r, r_eax r]"

lemma call_words_length [simp]: "length (call_words r) = 21"
  by (simp add: call_words_def)

lemma call_words_load:
  "aligned4 stk \<Longrightarrow> k < 21 \<Longrightarrow>
    load32 (snd (push_all (call_words r) (stk, m))) (stk - 84 + 4 * of_nat k) = rev (call_words r) ! k"
  using push_all_load [of stk "call_words r" k m] by simp

lemma syscall_save_frame:
  assumes "from_ring3 r"
  shows "syscall_save esp0 r m = push_all (take 15 (call_words r)) (esp0, m)"
  using assms by (simp add: syscall_save_def call_words_def push_all_def push32_def split_beta Let_def)

lemma syscall_restore_frame:
  assumes "aligned4 stk" "from_ring3 r"
  shows "syscall_restore (a, c, d) (stk - 60) (snd (push_all (call_words r) (stk, m)))
    = r\<lparr>r_eax := a, r_ecx := c, r_edx := d\<rparr>"
proof -
  have w: "load32 (snd (push_all (call_words r) (stk, m))) (stk - 60 + 4 * of_nat k) = rev (call_words r) ! (k + 6)"
    if "k < 15" for k
  proof -
    have e: "stk - 60 + 4 * of_nat k = stk - 84 + 4 * of_nat (k + 6)" by simp
    show ?thesis unfolding e by (rule call_words_load [OF assms(1)]) (use that in simp)
  qed
  have cs: "rev (call_words r) ! (11 + 6) = r_cs r" by (simp add: call_words_def)
  show ?thesis
    unfolding syscall_restore_def Let_def prod.case
    using assms(2) by (simp only: w cs from_ring3_def rel_simps if_True) (simp add: call_words_def)
qed

lemma syscall_entry_calls:
  fixes s :: "'a gui_scheme"
  assumes "aligned4 (tss_esp0 (g_tss s))" "from_ring3 r" "call_of f r (s\<lparr>phys_mem := m\<rparr>) = Returns v u"
    and m: "m = snd (push_all (call_words r) (tss_esp0 (g_tss s), phys_mem s))" and "phys_mem u = m"
  shows "syscall_entry f (a, c, d) r s
    = Goes_On (r\<lparr>r_eax := a, r_ecx := c, r_edx := d\<rparr>) (syscall_dump (tss_esp0 (g_tss s) - 20) u)"
proof -
  let ?e = "tss_esp0 (g_tss s)"
  let ?c = "push_all (take 15 (call_words r)) (?e, phys_mem s)"
  obtain m0 where c: "?c = (?e - 60, m0)" using push_all_esp [of "take 15 (call_words r)" ?e "phys_mem s"]
    by (cases ?c) simp
  have args: "[r_edi r, r_esi r, r_edx r, r_ecx r, r_ebx r, r_eax r] = drop 15 (call_words r)" by (simp add: call_words_def)
  have "push_all (drop 15 (call_words r)) ?c = (?e - 84, m)"
    unfolding push_all_append [symmetric] append_take_drop_id m using push_all_esp [of "call_words r" ?e "phys_mem s"]
    by (simp add: prod_eq_iff)
  then have p: "push_all (drop 15 (call_words r)) (?e - 60, m0) = (?e - 84, m)" unfolding c .
  have w: "load32 m (?e - 84 + 4 * of_nat k) = rev (call_words r) ! k" if "k < 21" for k
    unfolding m by (rule call_words_load [OF assms(1) that])
  have "syscall_dispatch f (load32 m (?e - 84 + 4 * of_nat 0)) (load32 m (?e - 84 + 4 * of_nat 1)) (load32 m (?e - 84 + 4 * of_nat 2))
     (load32 m (?e - 84 + 4 * of_nat 3)) (load32 m (?e - 84 + 4 * of_nat 4)) (load32 m (?e - 84 + 4 * of_nat 5)) (s\<lparr>phys_mem := m\<rparr>)
     = Returns v u"
    using assms(3) by (simp only: w rel_simps) (simp add: call_words_def call_of_def)
  moreover have "syscall_restore (a, c, d) (?e - 60) (phys_mem u) = r\<lparr>r_eax := a, r_ecx := c, r_edx := d\<rparr>" for a c d
    unfolding assms(5) m by (rule syscall_restore_frame [OF assms(1,2)])
  moreover have "?e - 60 + 40 = ?e - 20" by simp
  ultimately show ?thesis
    unfolding syscall_entry_def syscall_save_frame [OF assms(2)] args c Let_def prod.case p by (simp only: call_end.case)
qed

lemma undrawn_dump_stack [simp]: "undrawn (dump_stack sp n s) = undrawn s" "phys_mem (dump_stack sp n s) = phys_mem s"
  by (simp_all add: dump_stack_def Let_def serial_print_hex_def fold_keeps [where P = undrawn] fold_keeps [where P = phys_mem]
      del: serial_puts.simps)

lemma syscall_dump_keeps:
  assumes "page k"
  shows "same_outside {k} (phys_mem s) (phys_mem (syscall_dump (k + PAGE_SIZE - 20) s))"
    and "undrawn (syscall_dump (k + PAGE_SIZE - 20) s) = undrawn s"
proof -
  have a: "k + PAGE_SIZE - 20 - 4 = k + 4 * of_nat 1018" "k + 4 * of_nat 1018 - 4 = k + 4 * of_nat 1017"
    by (simp_all add: const_defs)
  let ?m1 = "store32 (phys_mem s) (k + 4 * of_nat 1018) 5"
  let ?m2 = "store32 ?m1 (k + 4 * of_nat 1017) (k + 4 * of_nat 1018)"
  have "same_outside {k} (phys_mem s) ?m1" "same_outside {k} ?m1 ?m2" by (rule store32_outside [OF assms]; simp)+
  then have "same_outside {k} (phys_mem s) ?m2" by (simp add: same_outside_def)
  moreover have "push_all [5, k + PAGE_SIZE - 20 - 4] (k + PAGE_SIZE - 20, phys_mem s) = (k + 4 * of_nat 1017, ?m2)"
    unfolding push_all_def push32_def fold_simps id_apply prod.case a ..
  ultimately show "same_outside {k} (phys_mem s) (phys_mem (syscall_dump (k + PAGE_SIZE - 20) s))"
    unfolding syscall_dump_def Let_def by simp
  show "undrawn (syscall_dump (k + PAGE_SIZE - 20) s) = undrawn s"
    by (simp add: syscall_dump_def split_beta)
qed

lemma shadow_print_hex [simp]: "g_shadow (serial_print_hex v s) = g_shadow s"
  by (simp add: serial_print_hex_def)

lemma shadow_dump [simp]: "g_shadow (syscall_dump base s) = g_shadow s"
  by (simp add: syscall_dump_def dump_stack_def Let_def split_beta fold_keeps [where P = g_shadow])

text \<open>A call of a program in ring 3, with what the picture owes to the dispatcher alone.\<close>

lemma ring3_call:
  fixes s :: "'a gui_scheme"
  assumes "page k" "tss_esp0 (g_tss s) = k + PAGE_SIZE" "from_ring3 r"
    and "r_eax r \<notin> {SYS_EXIT, SYS_YIELD, SYS_GET_MOUSE_STATE, SYS_GET_MOUSE_EVENT}"
    and "screen_mapped s" "call_on_screen (r_eax r) (r_ebx r) (r_edx r) (r_esi r)"
  obtains m v u t where "same_outside {k} (phys_mem s) m" "call_of f r (s\<lparr>phys_mem := m\<rparr>) = Returns v u"
    "undrawn u = undrawn s" "phys_mem u = m"
    "syscall_entry f (eax, ecx, edx) r s = Goes_On (r\<lparr>r_eax := eax, r_ecx := ecx, r_edx := edx\<rparr>) t"
    "undrawn t = undrawn s" "same_outside {k} (phys_mem s) (phys_mem t)" "g_shadow t = g_shadow u"
proof -
  let ?m = "snd (push_all (call_words r) (tss_esp0 (g_tss s), phys_mem s))"
  have al: "aligned4 (tss_esp0 (g_tss s))" using assms(1,2) aligned4_page by simp
  have "kept (s\<lparr>phys_mem := ?m\<rparr>) (call_of f r (s\<lparr>phys_mem := ?m\<rparr>))"
    unfolding call_of_def by (rule syscall_dispatch_kept [OF assms(4,6)])
  then obtain v u where u: "call_of f r (s\<lparr>phys_mem := ?m\<rparr>) = Returns v u" "undrawn u = undrawn s" "phys_mem u = ?m"
    using assms(5) unfolding kept_def quiet_def by auto
  have out: "same_outside {k} (phys_mem s) ?m" unfolding assms(2) by (rule push_all_outside [OF assms(1)]) simp
  let ?t = "syscall_dump (tss_esp0 (g_tss s) - 20) u"
  note dump = syscall_dump_keeps [OF assms(1), of u, folded assms(2)]
  have "undrawn ?t = undrawn s" using dump(2) u(2) by simp
  moreover have "same_outside {k} (phys_mem s) (phys_mem ?t)"
    using out dump(1) unfolding u(3) by (simp add: same_outside_def)
  ultimately show ?thesis
    using that [OF out u(1-3) syscall_entry_calls [OF al assms(3) u(1) refl u(3), of eax ecx edx]] by simp
qed

subsection \<open>Properties\<close>


definition ring3_on :: gui where
  "ring3_on = caller_on\<lparr>g_tss := (g_tss caller_on)\<lparr>tss_esp0 := 0x801000\<rparr>\<rparr>"

lemma ring3_on_mapped: "screen_mapped ring3_on"
  by (rule ready_mapped) (use caller_on_ready in \<open>simp add: ring3_on_def graphics_ready_def\<close>)


text \<open>
  C13: What the library's wrappers reach. With arguments in the range of \<open>int\<close>, \<open>sys_draw_pixel\<close> and
  \<open>sys_fill_rect\<close> run \<open>VgaPutPixel\<close> and \<open>VgaFillRect\<close> with exactly these arguments, and a rectangle
  between the side edges of the screen is filled; \<open>sys_draw_string\<close> draws the program's string. But
  \<open>sys_get_mouse_state\<close>, \<open>sys_get_mouse_event\<close> and \<open>sys_debug\<close> put their pointer in \<open>ebx\<close> while the
  dispatcher takes it from \<open>ecx\<close>: unless that register happens to hold a user pointer they are refused,
  whatever the pointer given, and a queued mouse event stays where it is.
\<close>

theorem library_calls_reach_kernel:
  assumes "x \<in> {- (2 ^ 31)..<2 ^ 31}" "y \<in> {- (2 ^ 31)..<2 ^ 31}" "w \<in> {- (2 ^ 31)..<2 ^ 31}" "h \<in> {- (2 ^ 31)..<2 ^ 31}"
    and "user_string 127 s p str" "128 \<le> length (cf_stack f)" "\<not> is_user_ptr (r_ecx r) s"
  shows "(\<exists>log. call_of f (sys_draw_pixel x y col r) s = Returns 0 (VgaPutPixel x y col (serial_puts log s)))
    \<and> (\<exists>log. call_of f (sys_fill_rect x y w h col r) s = Returns 0 (VgaFillRect x y w h col (serial_puts log s))
        \<and> (graphics_ready s \<and> 0 \<le> x \<and> 0 < w \<and> x + w \<le> 640 \<and> 0 < h \<and> on_screen u v
            \<longrightarrow> VgaGetPixel u v (VgaFillRect x y w h col (serial_puts log s))
                = (if x \<le> u \<and> u < x + w \<and> y \<le> v \<and> v < y + h then col else VgaGetPixel u v s)))
    \<and> (\<exists>log. call_of f (sys_draw_string x y p fg bg r) s = Returns 0 (VgaDrawString x y str fg bg (serial_puts log s)))
    \<and> (\<exists>log. call_of f (sys_get_mouse_event out r) s = Returns SYSCALL_ERR (serial_puts log s))
    \<and> (\<exists>log. call_of f (sys_get_mouse_state out r) s = Returns SYSCALL_ERR (serial_puts log s))
    \<and> (\<exists>log. call_of f (sys_debug out r) s = Returns SYSCALL_ERR (serial_puts log s))"
proof -
  have i: "sint (word_of_int x :: u32) = x" "sint (word_of_int y :: u32) = y" "sint (word_of_int w :: u32) = w"
    "sint (word_of_int h :: u32) = h"
    using assms(1-4) by (simp_all add: Word.signed_of_int signed_take_bit_int_eq_self_iff)
  have b: "u32_to_u8 (ucast c) = c" for c :: u8 by (rule bit_word_eqI) (simp add: bit_unsigned_iff)
  have log: "serial_puts a (serial_puts b t) = serial_puts (b @ a) t" for a b and t :: "'b console_scheme"
    by (simp add: serial_puts_eq)
  have hex: "serial_print_hex v t = serial_puts (''0x'' @ hex8 v) t" for v and t :: "'b console_scheme"
    by (simp add: serial_print_hex_def)
  have "call_of f (sys_draw_string x y p fg bg r) s = Returns 0 (VgaDrawString x y str fg bg
      (serial_puts (syscall_trace SYS_DRAW_STRING (word_of_int x) (word_of_int y)) s))"
    using syscall_strings [OF assms(5,6), of "word_of_int x" "word_of_int y" "ucast fg" "ucast bg", THEN conjunct1]
    by (simp add: call_of_def sys_draw_string_def i b)
  moreover have "\<exists>log. call_of f (sys_fill_rect x y w h col r) s = Returns 0 (VgaFillRect x y w h col (serial_puts log s))"
    unfolding call_of_def sys_fill_rect_def syscall_dispatch_def Let_def by (simp add: const_defs i b log hex) blast
  moreover have "VgaGetPixel u v (VgaFillRect x y w h col (serial_puts log s))
      = (if x \<le> u \<and> u < x + w \<and> y \<le> v \<and> v < y + h then col else VgaGetPixel u v s)"
    if "graphics_ready s \<and> 0 \<le> x \<and> 0 < w \<and> x + w \<le> 640 \<and> 0 < h \<and> on_screen u v" for log
    using that VgaFillRect_get [of "serial_puts log s" x w h u v y col]
    by (simp add: int_span_screen del: serial_puts.simps) (simp add: VgaGetPixel_def)
  moreover have "\<exists>log. call_of f (sys_draw_pixel x y col r) s = Returns 0 (VgaPutPixel x y col (serial_puts log s))"
    unfolding call_of_def sys_draw_pixel_def syscall_dispatch_def Let_def by (simp add: const_defs i b) blast
  moreover have "\<exists>log. call_of f (sys_get_mouse_event out r) s = Returns SYSCALL_ERR (serial_puts log s)"
    "\<exists>log. call_of f (sys_get_mouse_state out r) s = Returns SYSCALL_ERR (serial_puts log s)"
    "\<exists>log. call_of f (sys_debug out r) s = Returns SYSCALL_ERR (serial_puts log s)"
    using assms(7) unfolding call_of_def sys_get_mouse_event_def sys_get_mouse_state_def sys_debug_def
      syscall_dispatch_def Let_def sys_get_mouse_event_case_def sys_get_mouse_state_case_def sys_debug_case_def
    by (simp_all add: const_defs log) blast+
  ultimately show ?thesis by blast
qed

theorem library_calls_reach_kernel_witness:
  "\<exists>log. call_of caller_frame (sys_get_mouse_event 0x3200 sample_user_regs) caller_on = Returns SYSCALL_ERR (serial_puts log caller_on)"
proof -
  have "\<not> is_user_ptr (r_ecx sample_user_regs) caller_on"
  proof -
    have "pde_index (r_ecx sample_user_regs) = 0" "pte_index (r_ecx sample_user_regs) = 0"
      by (simp_all add: sample_user_regs_def pde_index_def pte_index_def)
    moreover have "page_base 0x2007 = 0x2000" by (simp add: page_base_def)
    moreover have "read_entry caller_memory 0x2000 0 = 0" by (simp add: read_entry_def load32_def caller_memory_def store32_def)
    ultimately show ?thesis
      by (simp add: is_user_ptr_eq user_access_def page_walk_def caller_on_memory caller_entries present_def Let_def)
  qed
  then show ?thesis
    using library_calls_reach_kernel [OF _ _ _ _ caller_string, of 0 0 0 0 caller_frame sample_user_regs 0 0 0 "0x3200"]
    by (simp add: caller_frame_def)
qed

end
