(* ===== verification/Boot_Fonts.thy ===== *)
theory Boot_Fonts
  imports Vga_Text
begin

section \<open>The fonts of the boot screen\<close>

text \<open>
  The two character tables of \<open>kernel/boot_splash.c\<close>: \<open>EMBEDDED_FONT_8X16\<close>, sixteen bytes for each of
  the 256 characters, which the kernel loads into plane 2 for the text mode, and \<open>FONT8X8\<close>, which draws
  the characters 32 to 122 on the boot picture.
\<close>

text \<open>The control characters and those from 128 on are blank.\<close>

definition EMBEDDED_FONT_8X16 :: "u8 list list" where
  "EMBEDDED_FONT_8X16 = replicate 32 (replicate 16 0) @
    [[0, 0, 0, 0, 0, 0, 0, 0, 0, 0, 0, 0, 0, 0, 0, 0],
     [0, 0, 0x18, 0x3C, 0x3C, 0x3C, 0x18, 0x18, 0x18, 0, 0x18, 0x18, 0, 0, 0, 0],
     [0, 0x63, 0x63, 0x63, 0x22, 0, 0, 0, 0, 0, 0, 0, 0, 0, 0, 0],
     [0, 0, 0x36, 0x36, 0x7F, 0x36, 0x36, 0x36, 0x7F, 0x36, 0x36, 0, 0, 0, 0, 0],
     [0x0C, 0x0C, 0x3E, 0x63, 0x61, 0x60, 0x3E, 0x03, 0x03, 0x43, 0x63, 0x3E, 0x0C, 0x0C, 0, 0],
     [0, 0, 0, 0, 0x61, 0x63, 0x06, 0x0C, 0x18, 0x30, 0x63, 0x43, 0, 0, 0, 0],
     [0, 0, 0x1C, 0x36, 0x36, 0x1C, 0x38, 0x6F, 0x66, 0x66, 0x3B, 0, 0, 0, 0, 0],
     [0, 0x30, 0x30, 0x30, 0x60, 0, 0, 0, 0, 0, 0, 0, 0, 0, 0, 0],
     [0, 0, 0x0C, 0x18, 0x30, 0x30, 0x30, 0x30, 0x30, 0x30, 0x18, 0x0C, 0, 0, 0, 0],
     [0, 0, 0x18, 0x0C, 0x06, 0x06, 0x06, 0x06, 0x06, 0x06, 0x0C, 0x18, 0, 0, 0, 0],
     [0, 0, 0, 0, 0, 0x36, 0x1C, 0x7F, 0x1C, 0x36, 0, 0, 0, 0, 0, 0],
     [0, 0, 0, 0, 0, 0x18, 0x18, 0x7E, 0x18, 0x18, 0, 0, 0, 0, 0, 0],
     [0, 0, 0, 0, 0, 0, 0, 0, 0, 0x18, 0x18, 0x18, 0x30, 0, 0, 0],
     [0, 0, 0, 0, 0, 0, 0, 0x7E, 0, 0, 0, 0, 0, 0, 0, 0],
     [0, 0, 0, 0, 0, 0, 0, 0, 0, 0, 0x18, 0x18, 0, 0, 0, 0],
     [0, 0, 0, 0, 0x01, 0x03, 0x06, 0x0C, 0x18, 0x30, 0x60, 0x40, 0, 0, 0, 0],
     [0, 0, 0x3E, 0x63, 0x63, 0x63, 0x6B, 0x63, 0x63, 0x63, 0x63, 0x3E, 0, 0, 0, 0],
     [0, 0, 0x18, 0x38, 0x58, 0x18, 0x18, 0x18, 0x18, 0x18, 0x18, 0x7E, 0, 0, 0, 0],
     [0, 0, 0x3E, 0x63, 0x03, 0x06, 0x0C, 0x18, 0x30, 0x63, 0x63, 0x7F, 0, 0, 0, 0],
     [0, 0, 0x3E, 0x63, 0x03, 0x03, 0x1E, 0x03, 0x03, 0x03, 0x63, 0x3E, 0, 0, 0, 0],
     [0, 0, 0x06, 0x0E, 0x1E, 0x36, 0x66, 0x66, 0x7F, 0x06, 0x06, 0x0F, 0, 0, 0, 0],
     [0, 0, 0x7F, 0x63, 0x60, 0x60, 0x7E, 0x03, 0x03, 0x03, 0x63, 0x3E, 0, 0, 0, 0],
     [0, 0, 0x1C, 0x30, 0x60, 0x60, 0x7E, 0x63, 0x63, 0x63, 0x63, 0x3E, 0, 0, 0, 0],
     [0, 0, 0x7F, 0x63, 0x03, 0x06, 0x0C, 0x18, 0x18, 0x18, 0x18, 0x18, 0, 0, 0, 0],
     [0, 0, 0x3E, 0x63, 0x63, 0x63, 0x3E, 0x63, 0x63, 0x63, 0x63, 0x3E, 0, 0, 0, 0],
     [0, 0, 0x3E, 0x63, 0x63, 0x63, 0x3F, 0x03, 0x03, 0x06, 0x0C, 0x38, 0, 0, 0, 0],
     [0, 0, 0, 0, 0x18, 0x18, 0, 0, 0, 0x18, 0x18, 0, 0, 0, 0, 0],
     [0, 0, 0, 0, 0x18, 0x18, 0, 0, 0, 0x18, 0x18, 0x30, 0, 0, 0, 0],
     [0, 0, 0, 0x06, 0x0C, 0x18, 0x30, 0x60, 0x30, 0x18, 0x0C, 0x06, 0, 0, 0, 0],
     [0, 0, 0, 0, 0, 0x7E, 0, 0, 0x7E, 0, 0, 0, 0, 0, 0, 0],
     [0, 0, 0, 0x60, 0x30, 0x18, 0x0C, 0x06, 0x0C, 0x18, 0x30, 0x60, 0, 0, 0, 0],
     [0, 0, 0x3E, 0x63, 0x03, 0x06, 0x0C, 0x0C, 0x0C, 0, 0x0C, 0x0C, 0, 0, 0, 0],
     [0, 0, 0x3E, 0x63, 0x63, 0x6F, 0x6B, 0x6B, 0x6E, 0x60, 0x60, 0x3E, 0, 0, 0, 0],
     [0, 0, 0x08, 0x1C, 0x36, 0x63, 0x63, 0x7F, 0x63, 0x63, 0x63, 0x63, 0, 0, 0, 0],
     [0, 0, 0x7E, 0x33, 0x33, 0x33, 0x3E, 0x33, 0x33, 0x33, 0x33, 0x7E, 0, 0, 0, 0],
     [0, 0, 0x1E, 0x33, 0x61, 0x60, 0x60, 0x60, 0x60, 0x61, 0x33, 0x1E, 0, 0, 0, 0],
     [0, 0, 0x7C, 0x36, 0x33, 0x33, 0x33, 0x33, 0x33, 0x33, 0x36, 0x7C, 0, 0, 0, 0],
     [0, 0, 0x7F, 0x33, 0x31, 0x34, 0x3C, 0x34, 0x30, 0x31, 0x33, 0x7F, 0, 0, 0, 0],
     [0, 0, 0x7F, 0x33, 0x31, 0x34, 0x3C, 0x34, 0x30, 0x30, 0x30, 0x78, 0, 0, 0, 0],
     [0, 0, 0x1E, 0x33, 0x61, 0x60, 0x60, 0x6F, 0x63, 0x63, 0x37, 0x1D, 0, 0, 0, 0],
     [0, 0, 0x63, 0x63, 0x63, 0x63, 0x7F, 0x63, 0x63, 0x63, 0x63, 0x63, 0, 0, 0, 0],
     [0, 0, 0x3C, 0x18, 0x18, 0x18, 0x18, 0x18, 0x18, 0x18, 0x18, 0x3C, 0, 0, 0, 0],
     [0, 0, 0x1E, 0x0C, 0x0C, 0x0C, 0x0C, 0x0C, 0x0C, 0x6C, 0x6C, 0x38, 0, 0, 0, 0],
     [0, 0, 0x67, 0x33, 0x36, 0x36, 0x3C, 0x36, 0x36, 0x33, 0x33, 0x67, 0, 0, 0, 0],
     [0, 0, 0x78, 0x30, 0x30, 0x30, 0x30, 0x30, 0x30, 0x31, 0x33, 0x7F, 0, 0, 0, 0],
     [0, 0, 0x41, 0x63, 0x77, 0x7F, 0x6B, 0x63, 0x63, 0x63, 0x63, 0x63, 0, 0, 0, 0],
     [0, 0, 0x63, 0x63, 0x73, 0x7B, 0x6F, 0x67, 0x63, 0x63, 0x63, 0x63, 0, 0, 0, 0],
     [0, 0, 0x1C, 0x36, 0x63, 0x63, 0x63, 0x63, 0x63, 0x63, 0x36, 0x1C, 0, 0, 0, 0],
     [0, 0, 0x7E, 0x33, 0x33, 0x33, 0x3E, 0x30, 0x30, 0x30, 0x30, 0x78, 0, 0, 0, 0],
     [0, 0, 0x1C, 0x36, 0x63, 0x63, 0x63, 0x63, 0x6B, 0x6B, 0x36, 0x1D, 0, 0, 0, 0],
     [0, 0, 0x7E, 0x33, 0x33, 0x33, 0x3E, 0x36, 0x33, 0x33, 0x33, 0x73, 0, 0, 0, 0],
     [0, 0, 0x1E, 0x33, 0x33, 0x30, 0x18, 0x0C, 0x06, 0x33, 0x33, 0x1E, 0, 0, 0, 0],
     [0, 0, 0x7E, 0x5A, 0x18, 0x18, 0x18, 0x18, 0x18, 0x18, 0x18, 0x3C, 0, 0, 0, 0],
     [0, 0, 0x63, 0x63, 0x63, 0x63, 0x63, 0x63, 0x63, 0x63, 0x63, 0x3E, 0, 0, 0, 0],
     [0, 0, 0x63, 0x63, 0x63, 0x63, 0x63, 0x36, 0x36, 0x1C, 0x1C, 0x08, 0, 0, 0, 0],
     [0, 0, 0x63, 0x63, 0x63, 0x63, 0x6B, 0x6B, 0x7F, 0x77, 0x36, 0x22, 0, 0, 0, 0],
     [0, 0, 0x63, 0x63, 0x36, 0x36, 0x1C, 0x1C, 0x36, 0x36, 0x63, 0x63, 0, 0, 0, 0],
     [0, 0, 0x66, 0x66, 0x66, 0x66, 0x3C, 0x18, 0x18, 0x18, 0x18, 0x3C, 0, 0, 0, 0],
     [0, 0, 0x7F, 0x63, 0x43, 0x06, 0x0C, 0x18, 0x30, 0x61, 0x63, 0x7F, 0, 0, 0, 0],
     [0, 0, 0x1E, 0x18, 0x18, 0x18, 0x18, 0x18, 0x18, 0x18, 0x18, 0x1E, 0, 0, 0, 0],
     [0, 0, 0, 0x40, 0x60, 0x30, 0x18, 0x0C, 0x06, 0x03, 0x01, 0, 0, 0, 0, 0],
     [0, 0, 0x1E, 0x06, 0x06, 0x06, 0x06, 0x06, 0x06, 0x06, 0x06, 0x1E, 0, 0, 0, 0],
     [0x08, 0x1C, 0x36, 0x63, 0, 0, 0, 0, 0, 0, 0, 0, 0, 0, 0, 0],
     [0, 0, 0, 0, 0, 0, 0, 0, 0, 0, 0, 0, 0xFF, 0, 0, 0],
     [0, 0x70, 0x30, 0x18, 0, 0, 0, 0, 0, 0, 0, 0, 0, 0, 0, 0],
     [0, 0, 0, 0, 0, 0x3E, 0x63, 0x03, 0x3F, 0x63, 0x63, 0x3F, 0, 0, 0, 0],
     [0, 0, 0x70, 0x30, 0x30, 0x3E, 0x33, 0x33, 0x33, 0x33, 0x33, 0x6E, 0, 0, 0, 0],
     [0, 0, 0, 0, 0, 0x1E, 0x33, 0x60, 0x60, 0x60, 0x33, 0x1E, 0, 0, 0, 0],
     [0, 0, 0x0E, 0x06, 0x06, 0x3E, 0x66, 0x66, 0x66, 0x66, 0x66, 0x3B, 0, 0, 0, 0],
     [0, 0, 0, 0, 0, 0x3E, 0x63, 0x63, 0x7F, 0x60, 0x63, 0x3E, 0, 0, 0, 0],
     [0, 0, 0x1C, 0x36, 0x30, 0x30, 0x7C, 0x30, 0x30, 0x30, 0x30, 0x78, 0, 0, 0, 0],
     [0, 0, 0, 0, 0, 0x3B, 0x66, 0x66, 0x66, 0x66, 0x3E, 0x06, 0x66, 0x3C, 0, 0],
     [0, 0, 0x70, 0x30, 0x30, 0x36, 0x3B, 0x33, 0x33, 0x33, 0x33, 0x73, 0, 0, 0, 0],
     [0, 0, 0x18, 0x18, 0, 0x38, 0x18, 0x18, 0x18, 0x18, 0x18, 0x3C, 0, 0, 0, 0],
     [0, 0, 0x06, 0x06, 0, 0x0E, 0x06, 0x06, 0x06, 0x06, 0x06, 0x66, 0x66, 0x3C, 0, 0],
     [0, 0, 0x70, 0x30, 0x30, 0x33, 0x36, 0x3C, 0x36, 0x33, 0x33, 0x73, 0, 0, 0, 0],
     [0, 0, 0x38, 0x18, 0x18, 0x18, 0x18, 0x18, 0x18, 0x18, 0x18, 0x3C, 0, 0, 0, 0],
     [0, 0, 0, 0, 0, 0x66, 0x7F, 0x6B, 0x6B, 0x6B, 0x6B, 0x63, 0, 0, 0, 0],
     [0, 0, 0, 0, 0, 0x6E, 0x33, 0x33, 0x33, 0x33, 0x33, 0x33, 0, 0, 0, 0],
     [0, 0, 0, 0, 0, 0x3E, 0x63, 0x63, 0x63, 0x63, 0x63, 0x3E, 0, 0, 0, 0],
     [0, 0, 0, 0, 0, 0x6E, 0x33, 0x33, 0x33, 0x33, 0x3E, 0x30, 0x30, 0x78, 0, 0],
     [0, 0, 0, 0, 0, 0x3B, 0x66, 0x66, 0x66, 0x66, 0x3E, 0x06, 0x06, 0x0F, 0, 0],
     [0, 0, 0, 0, 0, 0x6E, 0x3B, 0x33, 0x30, 0x30, 0x30, 0x78, 0, 0, 0, 0],
     [0, 0, 0, 0, 0, 0x3E, 0x63, 0x38, 0x0E, 0x03, 0x63, 0x3E, 0, 0, 0, 0],
     [0, 0, 0x08, 0x18, 0x18, 0x7E, 0x18, 0x18, 0x18, 0x18, 0x1A, 0x0C, 0, 0, 0, 0],
     [0, 0, 0, 0, 0, 0x63, 0x63, 0x63, 0x63, 0x63, 0x63, 0x3F, 0, 0, 0, 0],
     [0, 0, 0, 0, 0, 0x63, 0x63, 0x63, 0x36, 0x36, 0x1C, 0x08, 0, 0, 0, 0],
     [0, 0, 0, 0, 0, 0x63, 0x63, 0x6B, 0x6B, 0x7F, 0x77, 0x36, 0, 0, 0, 0],
     [0, 0, 0, 0, 0, 0x63, 0x36, 0x1C, 0x1C, 0x1C, 0x36, 0x63, 0, 0, 0, 0],
     [0, 0, 0, 0, 0, 0x63, 0x63, 0x63, 0x63, 0x63, 0x3F, 0x03, 0x06, 0x3C, 0, 0],
     [0, 0, 0, 0, 0, 0x7F, 0x66, 0x0C, 0x18, 0x30, 0x63, 0x7F, 0, 0, 0, 0],
     [0, 0, 0x0E, 0x18, 0x18, 0x18, 0x70, 0x18, 0x18, 0x18, 0x18, 0x0E, 0, 0, 0, 0],
     [0, 0x18, 0x18, 0x18, 0x18, 0x18, 0x18, 0, 0x18, 0x18, 0x18, 0x18, 0x18, 0x18, 0, 0],
     [0, 0, 0x70, 0x18, 0x18, 0x18, 0x0E, 0x18, 0x18, 0x18, 0x18, 0x70, 0, 0, 0, 0],
     [0, 0, 0x76, 0xDC, 0, 0, 0, 0, 0, 0, 0, 0, 0, 0, 0, 0],
     [0, 0x10, 0x38, 0x6C, 0xC6, 0xC6, 0xFE, 0xC6, 0xC6, 0xC6, 0xC6, 0, 0, 0, 0, 0]] @
    replicate 128 (replicate 16 0)"

definition FONT8X8 :: "u8 list list" where
  "FONT8X8 =
    [[0, 0, 0, 0, 0, 0, 0, 0],
     [0x18, 0x3C, 0x3C, 0x18, 0x18, 0, 0x18, 0],
     [0x36, 0x36, 0, 0, 0, 0, 0, 0],
     [0x36, 0x7F, 0x36, 0x36, 0x7F, 0x36, 0x36, 0],
     [0x0C, 0x3E, 0x03, 0x1E, 0x30, 0x1F, 0x0C, 0],
     [0, 0x63, 0x33, 0x18, 0x0C, 0x66, 0x63, 0],
     [0x1C, 0x36, 0x1C, 0x6E, 0x3B, 0x33, 0x6E, 0],
     [0x06, 0x06, 0x03, 0, 0, 0, 0, 0],
     [0x18, 0x0C, 0x06, 0x06, 0x06, 0x0C, 0x18, 0],
     [0x06, 0x0C, 0x18, 0x18, 0x18, 0x0C, 0x06, 0],
     [0, 0x66, 0x3C, 0xFF, 0x3C, 0x66, 0, 0],
     [0, 0x0C, 0x0C, 0x3F, 0x0C, 0x0C, 0, 0],
     [0, 0, 0, 0, 0, 0x0C, 0x0C, 0x06],
     [0, 0, 0, 0x3F, 0, 0, 0, 0],
     [0, 0, 0, 0, 0, 0x0C, 0x0C, 0],
     [0x60, 0x30, 0x18, 0x0C, 0x06, 0x03, 0x01, 0],
     [0x3E, 0x63, 0x73, 0x7B, 0x6F, 0x67, 0x3E, 0],
     [0x0C, 0x0E, 0x0C, 0x0C, 0x0C, 0x0C, 0x3F, 0],
     [0x1E, 0x33, 0x30, 0x1C, 0x06, 0x33, 0x3F, 0],
     [0x1E, 0x33, 0x30, 0x1C, 0x30, 0x33, 0x1E, 0],
     [0x38, 0x3C, 0x36, 0x33, 0x7F, 0x30, 0x78, 0],
     [0x3F, 0x03, 0x1F, 0x30, 0x30, 0x33, 0x1E, 0],
     [0x1C, 0x06, 0x03, 0x1F, 0x33, 0x33, 0x1E, 0],
     [0x3F, 0x33, 0x30, 0x18, 0x0C, 0x0C, 0x0C, 0],
     [0x1E, 0x33, 0x33, 0x1E, 0x33, 0x33, 0x1E, 0],
     [0x1E, 0x33, 0x33, 0x3E, 0x30, 0x18, 0x0E, 0],
     [0, 0x0C, 0x0C, 0, 0, 0x0C, 0x0C, 0],
     [0, 0x0C, 0x0C, 0, 0, 0x0C, 0x0C, 0x06],
     [0x18, 0x0C, 0x06, 0x03, 0x06, 0x0C, 0x18, 0],
     [0, 0, 0x3F, 0, 0, 0x3F, 0, 0],
     [0x06, 0x0C, 0x18, 0x30, 0x18, 0x0C, 0x06, 0],
     [0x1E, 0x33, 0x30, 0x18, 0x0C, 0, 0x0C, 0],
     [0x3E, 0x63, 0x7B, 0x7B, 0x7B, 0x03, 0x1E, 0],
     [0x0C, 0x1E, 0x33, 0x33, 0x3F, 0x33, 0x33, 0],
     [0x3F, 0x66, 0x66, 0x3E, 0x66, 0x66, 0x3F, 0],
     [0x3C, 0x66, 0x03, 0x03, 0x03, 0x66, 0x3C, 0],
     [0x1F, 0x36, 0x66, 0x66, 0x66, 0x36, 0x1F, 0],
     [0x7F, 0x46, 0x16, 0x1E, 0x16, 0x46, 0x7F, 0],
     [0x7F, 0x46, 0x16, 0x1E, 0x16, 0x06, 0x0F, 0],
     [0x3C, 0x66, 0x03, 0x03, 0x73, 0x66, 0x7C, 0],
     [0x33, 0x33, 0x33, 0x3F, 0x33, 0x33, 0x33, 0],
     [0x1E, 0x0C, 0x0C, 0x0C, 0x0C, 0x0C, 0x1E, 0],
     [0x78, 0x30, 0x30, 0x30, 0x33, 0x33, 0x1E, 0],
     [0x67, 0x66, 0x36, 0x1E, 0x36, 0x66, 0x67, 0],
     [0x0F, 0x06, 0x06, 0x06, 0x46, 0x66, 0x7F, 0],
     [0x63, 0x77, 0x7F, 0x7F, 0x6B, 0x63, 0x63, 0],
     [0x63, 0x67, 0x6F, 0x7B, 0x73, 0x63, 0x63, 0],
     [0x1C, 0x36, 0x63, 0x63, 0x63, 0x36, 0x1C, 0],
     [0x3F, 0x66, 0x66, 0x3E, 0x06, 0x06, 0x0F, 0],
     [0x1E, 0x33, 0x33, 0x33, 0x3B, 0x1E, 0x38, 0],
     [0x3F, 0x66, 0x66, 0x3E, 0x36, 0x66, 0x67, 0],
     [0x1E, 0x33, 0x07, 0x0E, 0x38, 0x33, 0x1E, 0],
     [0x3F, 0x2D, 0x0C, 0x0C, 0x0C, 0x0C, 0x1E, 0],
     [0x33, 0x33, 0x33, 0x33, 0x33, 0x33, 0x3F, 0],
     [0x33, 0x33, 0x33, 0x33, 0x33, 0x1E, 0x0C, 0],
     [0x63, 0x63, 0x63, 0x6B, 0x7F, 0x77, 0x63, 0],
     [0x63, 0x63, 0x36, 0x1C, 0x1C, 0x36, 0x63, 0],
     [0x33, 0x33, 0x33, 0x1E, 0x0C, 0x0C, 0x1E, 0],
     [0x7F, 0x63, 0x31, 0x18, 0x4C, 0x66, 0x7F, 0],
     [0x1E, 0x06, 0x06, 0x06, 0x06, 0x06, 0x1E, 0],
     [0x03, 0x06, 0x0C, 0x18, 0x30, 0x60, 0x40, 0],
     [0x1E, 0x18, 0x18, 0x18, 0x18, 0x18, 0x1E, 0],
     [0x08, 0x1C, 0x36, 0x63, 0, 0, 0, 0],
     [0, 0, 0, 0, 0, 0, 0, 0xFF],
     [0x0C, 0x0C, 0x18, 0, 0, 0, 0, 0],
     [0, 0, 0x1E, 0x30, 0x3E, 0x33, 0x6E, 0],
     [0x07, 0x06, 0x06, 0x3E, 0x66, 0x66, 0x3B, 0],
     [0, 0, 0x1E, 0x33, 0x03, 0x33, 0x1E, 0],
     [0x38, 0x30, 0x30, 0x3E, 0x33, 0x33, 0x6E, 0],
     [0, 0, 0x1E, 0x33, 0x3F, 0x03, 0x1E, 0],
     [0x1C, 0x36, 0x06, 0x0F, 0x06, 0x06, 0x0F, 0],
     [0, 0, 0x6E, 0x33, 0x33, 0x3E, 0x30, 0x1F],
     [0x07, 0x06, 0x36, 0x6E, 0x66, 0x66, 0x67, 0],
     [0x0C, 0, 0x0E, 0x0C, 0x0C, 0x0C, 0x1E, 0],
     [0x30, 0, 0x30, 0x30, 0x30, 0x33, 0x33, 0x1E],
     [0x07, 0x06, 0x66, 0x36, 0x1E, 0x36, 0x67, 0],
     [0x0E, 0x0C, 0x0C, 0x0C, 0x0C, 0x0C, 0x1E, 0],
     [0, 0, 0x33, 0x7F, 0x7F, 0x6B, 0x63, 0],
     [0, 0, 0x1F, 0x33, 0x33, 0x33, 0x33, 0],
     [0, 0, 0x1E, 0x33, 0x33, 0x33, 0x1E, 0],
     [0, 0, 0x3B, 0x66, 0x66, 0x3E, 0x06, 0x0F],
     [0, 0, 0x6E, 0x33, 0x33, 0x3E, 0x30, 0x78],
     [0, 0, 0x3B, 0x6E, 0x66, 0x06, 0x0F, 0],
     [0, 0, 0x3E, 0x03, 0x1E, 0x30, 0x1F, 0],
     [0x08, 0x0C, 0x3E, 0x0C, 0x0C, 0x2C, 0x18, 0],
     [0, 0, 0x33, 0x33, 0x33, 0x33, 0x6E, 0],
     [0, 0, 0x33, 0x33, 0x33, 0x1E, 0x0C, 0],
     [0, 0, 0x63, 0x6B, 0x7F, 0x7F, 0x36, 0],
     [0, 0, 0x63, 0x36, 0x1C, 0x36, 0x63, 0],
     [0, 0, 0x33, 0x33, 0x33, 0x3E, 0x30, 0x1F],
     [0, 0, 0x3F, 0x19, 0x0C, 0x26, 0x3F, 0]]"

definition of_shape :: "nat \<Rightarrow> nat \<Rightarrow> 'a list list \<Rightarrow> bool" where
  "of_shape n w t \<longleftrightarrow> length t = n \<and> list_all (\<lambda>g. length g = w) t"

lemma font_8x8_shape: "of_shape 91 8 FONT8X8"
  unfolding of_shape_def FONT8X8_def list.size list.pred_inject by simp

lemma embedded_font_shape: "of_shape 256 16 EMBEDDED_FONT_8X16"
  unfolding of_shape_def EMBEDDED_FONT_8X16_def length_append list_all_append list.size list.pred_inject length_replicate
  by (simp add: list_all_iff)

end
