(* ===== verification/Boot_Picture.thy ===== *)
theory Boot_Picture
  imports Boot_Fonts "HOL-Library.Signed_Division"
begin

unbundle bit_operations_syntax

section \<open>Drawing on the boot picture\<close>

text \<open>
  Models the drawing routines of \<open>kernel/boot_splash.c\<close>, sections 5 to 10: pixels, rectangles,
  characters, the integer square root, ellipses, the logo and the progress bar, in the mode of 320 by
  200 pixels with one byte each from address \<open>0xA0000\<close> on. \<open>pixel13\<close> is the picture, what the trace of
  stores leaves at the address of a pixel.

  Values of type \<open>int\<close> are integers; where the ellipses and the progress bar multiply them or add what
  they multiplied, \<open>INT32\<close> keeps the 32 bits. Divisions round towards zero, as \<open>sdiv\<close> does. The loop of
  \<open>isqrt\<close> has no bound, a loop \<open>i <= b\<close> never ends when \<open>b\<close> is the largest \<open>int\<close>, and a half axis of
  zero divides by zero, so \<open>isqrt\<close> and the ellipses return an option. \<open>draw_uint\<close> does not fill its
  buffer; \<open>junk\<close> is what the stack holds there.
\<close>

subsection \<open>Operations\<close>

definition VGA13_W :: int where [const_defs]: "VGA13_W = 320"
definition VGA13_H :: int where [const_defs]: "VGA13_H = 200"

definition px :: "int \<Rightarrow> int \<Rightarrow> u8 \<Rightarrow> 'a vga_scheme \<Rightarrow> 'a vga_scheme" where
  "px x y c s =
     (if 0 \<le> x \<and> x < VGA13_W \<and> 0 \<le> y \<and> y < VGA13_H then fb_store (0xA0000 + word_of_int (y * VGA13_W + x)) c s
      else s)"

definition fill_rect :: "int \<Rightarrow> int \<Rightarrow> int \<Rightarrow> int \<Rightarrow> u8 \<Rightarrow> 'a vga_scheme \<Rightarrow> 'a vga_scheme" where
  "fill_rect x y w h c s =
     fold (\<lambda>dy. fold (\<lambda>dx. px (x + int dx) (y + int dy) c) [0..<nat w]) [0..<nat h] s"

definition fb_clear :: "u8 \<Rightarrow> 'a vga_scheme \<Rightarrow> 'a vga_scheme" where
  "fb_clear c s = fold (\<lambda>i. fb_store (0xA0000 + of_nat i) c) [0..<nat (VGA13_W * VGA13_H)] s"

definition rect_outline :: "int \<Rightarrow> int \<Rightarrow> int \<Rightarrow> int \<Rightarrow> u8 \<Rightarrow> 'a vga_scheme \<Rightarrow> 'a vga_scheme" where
  "rect_outline x y w h c s =
     (let s = fold (\<lambda>i s. px (x + int i) (y + h - 1) c (px (x + int i) y c s)) [0..<nat w] s
      in fold (\<lambda>i s. px (x + w - 1) (y + int i) c (px x (y + int i) c s)) [0..<nat h] s)"

definition boot_glyph :: "char \<Rightarrow> u8 list" where
  "boot_glyph c =
     (let k = sint (byte_of c); k = (if k < 32 \<or> k > 122 then 63 else k) in FONT8X8 ! nat (k - 32))"

definition draw_char :: "int \<Rightarrow> int \<Rightarrow> char \<Rightarrow> u8 \<Rightarrow> int \<Rightarrow> 'a vga_scheme \<Rightarrow> 'a vga_scheme" where
  "draw_char sx sy c color scale s =
     fold (\<lambda>row. let bits = boot_glyph c ! row in
         fold (\<lambda>col s.
             if bits AND push_bit col 1 \<noteq> 0 then
               fold (\<lambda>by. fold (\<lambda>bx. px (sx + int col * scale + int bx) (sy + int row * scale + int by) color)
                   [0..<nat scale]) [0..<nat scale] s
             else s) [0..<8]) [0..<8] s"

fun draw_str :: "int \<Rightarrow> int \<Rightarrow> string \<Rightarrow> u8 \<Rightarrow> int \<Rightarrow> 'a vga_scheme \<Rightarrow> 'a vga_scheme" where
  "draw_str x y [] color scale s = s"
| "draw_str x y (c # cs) color scale s = draw_str (x + 8 * scale) y cs color scale (draw_char x y c color scale s)"

definition slen :: "string \<Rightarrow> int" where
  "slen str = int (length str)"

definition draw_str_c :: "int \<Rightarrow> string \<Rightarrow> u8 \<Rightarrow> int \<Rightarrow> 'a vga_scheme \<Rightarrow> 'a vga_scheme" where
  "draw_str_c y str color scale s =
     (let w = slen str * 8 * scale in draw_str ((VGA13_W - w) sdiv 2) y str color scale s)"

text \<open>\<open>while (q * q > n) q = (q + n/q) >> 1\<close>\<close>

partial_function (option) isqrt_loop :: "int \<Rightarrow> int \<Rightarrow> int option" where
  "isqrt_loop n q =
     (if INT32 (q * q) > n then isqrt_loop n (drop_bit 1 (INT32 (q + n sdiv q))) else Some q)"

definition isqrt :: "int \<Rightarrow> int option" where
  "isqrt n = (if n \<le> 0 then Some 0 else isqrt_loop n (INT32 (drop_bit 1 n + 1)))"

text \<open>Half the width of row \<open>r\<close> of an ellipse.\<close>

definition half_width :: "int \<Rightarrow> int \<Rightarrow> int \<Rightarrow> int option" where
  "half_width rx ry r =
     Option.bind (isqrt (INT32 (INT32 (ry * ry) - INT32 (r * r)))) (\<lambda>k.
       if ry = 0 then None else Some (INT32 (rx * k) sdiv ry))"

text \<open>The values of \<open>i\<close> in \<open>for (i = a; i <= b; i++)\<close>.\<close>

definition up_to :: "int \<Rightarrow> int \<Rightarrow> int list option" where
  "up_to a b = (if b = 0x7FFFFFFF then None else Some [a..b])"

definition fill_ellipse :: "int \<Rightarrow> int \<Rightarrow> int \<Rightarrow> int \<Rightarrow> u8 \<Rightarrow> 'a vga_scheme \<Rightarrow> 'a vga_scheme option" where
  "fill_ellipse cx cy rx ry c s =
     Option.bind (up_to (INT32 (- ry)) ry) (\<lambda>rows. fold_opt (\<lambda>r s.
       Option.bind (half_width rx ry r) (\<lambda>hw.
         map_option (\<lambda>xs. fold (\<lambda>x. px x (INT32 (cy + r)) c) xs s) (up_to (INT32 (cx - hw)) (INT32 (cx + hw))))) rows s)"

definition stroke_ellipse :: "int \<Rightarrow> int \<Rightarrow> int \<Rightarrow> int \<Rightarrow> u8 \<Rightarrow> 'a vga_scheme \<Rightarrow> 'a vga_scheme option" where
  "stroke_ellipse cx cy rx ry c s =
     Option.bind (up_to (INT32 (- ry)) ry) (\<lambda>rows. fold_opt (\<lambda>r s. map_option (\<lambda>hw.
         let y = INT32 (cy + r);
             s = px (INT32 (cx - hw)) y c s; s = px (INT32 (INT32 (cx - hw) + 1)) y c s;
             s = px (INT32 (cx + hw)) y c s
         in px (INT32 (INT32 (cx + hw) - 1)) y c s) (half_width rx ry r)) rows s)"

definition draw_logo :: "'a vga_scheme \<Rightarrow> 'a vga_scheme option" where
  "draw_logo s =
     (let s = fold (\<lambda>row. fill_rect 0 (int row) VGA13_W 1 (if row < 100 then 1 else 20)) [0..<nat VGA13_H] s in
      Option.bind (stroke_ellipse 160 68 55 44 3 s) (\<lambda>s.
      Option.bind (fill_ellipse 160 68 52 41 2 s) (\<lambda>s.
      let s = draw_char (160 - 20) (68 - 8) (CHR ''U'') 3 2 s;
          s = draw_char (160 + 4) (68 - 8) (CHR ''G'') 3 2 s;
          s = fill_rect 35 122 250 2 3 s;
          s = fill_rect 35 125 250 1 4 s;
          s = draw_str_c 130 ''UNIVERSIDAD DE GUAYAQUIL'' 15 1 s;
          s = draw_str_c 141 ''System Operative Edit  v0.4'' 7 1 s
      in Some (fill_rect 35 153 250 2 3 s))))"

definition BAR_X :: int where [const_defs]: "BAR_X = 60"
definition BAR_Y :: int where [const_defs]: "BAR_Y = 163"
definition BAR_W :: int where [const_defs]: "BAR_W = 200"
definition BAR_H :: int where [const_defs]: "BAR_H = 9"

text \<open>\<open>while (n > 0) { buf[--i] = '0' + (n % 10); n /= 10; }\<close>\<close>

function uint_digits :: "nat \<Rightarrow> nat \<Rightarrow> string \<Rightarrow> nat \<times> string" where
  "uint_digits n i buf =
     (if n > 0 then uint_digits (n div 10) (i - 1) (buf[i - 1 := char_at (0x30 + of_nat (n mod 10))]) else (i, buf))"
  by pat_completeness auto
termination by (relation "measure fst") auto

declare uint_digits.simps [simp del]

definition draw_uint :: "string \<Rightarrow> int \<Rightarrow> int \<Rightarrow> u32 \<Rightarrow> u8 \<Rightarrow> 'a vga_scheme \<Rightarrow> 'a vga_scheme" where
  "draw_uint junk x y n c s =
     (let buf = junk[11 := NUL];
          (i, buf) = (if n = 0 then (9, buf[9 := CHR ''0'']) else uint_digits (unat n) 10 buf)
      in draw_str x y (cstr (drop i buf)) c 1 s)"

definition draw_progress :: "string \<Rightarrow> int \<Rightarrow> int \<Rightarrow> string \<Rightarrow> 'a vga_scheme \<Rightarrow> 'a vga_scheme" where
  "draw_progress junk step steps label s =
     (let s = fill_rect (BAR_X - 2) (BAR_Y - 2) (BAR_W + 4) (BAR_H + 4) 8 s;
          s = fill_rect BAR_X BAR_Y BAR_W BAR_H 1 s;
          filled = INT32 (BAR_W * step) sdiv steps;
          s = (if filled > 0 then fill_rect BAR_X BAR_Y filled BAR_H 10 s else s);
          s = (if filled < BAR_W then fill_rect (INT32 (BAR_X + filled)) BAR_Y 2 BAR_H 3 s else s);
          s = rect_outline (BAR_X - 1) (BAR_Y - 1) (BAR_W + 2) (BAR_H + 2) 15 s;
          pct = INT32 (step * 100) sdiv steps;
          s = fill_rect (BAR_X + BAR_W + 5) BAR_Y 28 9 1 s;
          s = draw_uint junk (BAR_X + BAR_W + 5) BAR_Y (word_of_int pct) 15 s;
          s = draw_str (BAR_X + BAR_W + 5 + (if pct < 10 then 8 else if pct < 100 then 16 else 24)) BAR_Y ''%'' 15 1 s;
          s = fill_rect 35 (BAR_Y + BAR_H + 5) 250 10 1 s
      in draw_str_c (BAR_Y + BAR_H + 5) label 7 1 s)"

subsection \<open>The integer square root\<close>

text \<open>The mean of \<open>q\<close> and \<open>n div q\<close> is never below the root, and below \<open>q\<close> while \<open>q\<close> is above it.\<close>

lemma mean_above_root:
  fixes n q r :: int
  assumes "0 < q" "0 \<le> r" "r * r \<le> n"
  shows "r \<le> (q + n div q) div 2"
proof -
  have "q * (2 * r - q) \<le> r * r"
    using zero_le_square [of "q - r"] by (simp add: algebra_simps)
  then have "q * (2 * r - q) \<le> n" using assms(3) by linarith
  then have "q * (2 * r - q) div q \<le> n div q" using assms(1) by (rule zdiv_mono1)
  then have "2 * r - q \<le> n div q" using assms(1) by simp
  then show ?thesis by linarith
qed

lemma root_exists: "\<exists>r::int. 0 \<le> r \<and> r * r \<le> int n \<and> int n < (r + 1) * (r + 1)"
proof (induction n)
  case 0
  show ?case by (rule exI [of _ 0]) simp
next
  case (Suc n)
  then obtain r :: int where r: "0 \<le> r" "r * r \<le> int n" "int n < (r + 1) * (r + 1)" by blast
  show ?case
  proof (cases "int (Suc n) < (r + 1) * (r + 1)")
    case True
    then show ?thesis using r by (intro exI [of _ r]) simp
  next
    case False
    moreover have "(r + 1) * (r + 1) < (r + 1 + 1) * (r + 1 + 1)" using r(1) by (simp add: algebra_simps)
    ultimately show ?thesis using r by (intro exI [of _ "r + 1"]) linarith
  qed
qed

lemma sdiv_div: "0 \<le> (a::int) \<Longrightarrow> 0 < b \<Longrightarrow> a sdiv b = a div b"
  by (cases "a = 0") (auto simp: signed_divide_int_def sgn_if)

lemma isqrt_loop_root:
  fixes n q r :: int
  assumes "0 < r" "r * r \<le> n" "n < (r + 1) * (r + 1)" "n < 2000000000" "r \<le> q" "q \<le> 46340"
  shows "isqrt_loop n q = Some r"
  using assms(5,6)
proof (induction "nat q" arbitrary: q rule: less_induct)
  case less
  have "0 < q" using less.prems assms(1) by simp
  have "q * q \<le> 46340 * 46340" using less.prems \<open>0 < q\<close> by (intro mult_mono) auto
  then have square: "INT32 (q * q) = q * q" by (intro INT32_id) (use zero_le_square [of q] in linarith)+
  have "0 \<le> n" using assms(2) zero_le_square [of r] by linarith
  have quotient: "0 \<le> n div q" "n div q \<le> n"
    using \<open>0 \<le> n\<close> \<open>0 < q\<close> zdiv_mono2 [of n 1 q] by (simp_all add: pos_imp_zdiv_nonneg_iff)
  have sum: "INT32 (q + n div q) = q + n div q"
    by (rule INT32_id) (use quotient less.prems assms(4) \<open>0 < q\<close> in linarith)+
  show ?case
  proof (cases "q * q > n")
    case True
    have "r < q"
    proof (rule ccontr)
      assume "\<not> r < q"
      then have "q = r" using less.prems by simp
      then show False using True assms(2) by simp
    qed
    have "n div q < q"
    proof (rule ccontr)
      assume "\<not> n div q < q"
      then have "q * q \<le> q * (n div q)" using \<open>0 < r\<close> less.prems by (intro mult_left_mono) auto
      moreover have "q * (n div q) \<le> n"
        using mult_div_mod_eq [of q n] pos_mod_sign [of q n] \<open>0 < r\<close> less.prems by linarith
      ultimately show False using True by linarith
    qed
    then have d: "(q + n div q) div 2 < q" by linarith
    have "r \<le> (q + n div q) div 2" using mean_above_root [of q r n] assms less.prems by simp
    moreover have "nat ((q + n div q) div 2) < nat q" using d \<open>r < q\<close> \<open>0 < r\<close> by simp
    moreover have "(q + n div q) div 2 \<le> 46340" using d less.prems(2) by simp
    ultimately have "isqrt_loop n ((q + n div q) div 2) = Some r" by (intro less.hyps)
    moreover have "n sdiv q = n div q" using assms(1,2) less.prems by (intro sdiv_div) (auto intro: order_trans [OF zero_le_square])
    ultimately show ?thesis using True by (subst isqrt_loop.simps) (simp add: drop_bit_eq_div square sum)
  next
    case False
    have "q \<le> r"
    proof (rule ccontr)
      assume "\<not> q \<le> r"
      then have "(r + 1) * (r + 1) \<le> q * q" using assms(1) by (intro mult_mono) auto
      then show False using False assms(3) by simp
    qed
    then show ?thesis using False less.prems using square by (subst isqrt_loop.simps) simp
  qed
qed

text \<open>304 squared: the first \<open>q * q\<close> still fits.\<close>

lemma isqrt_root:
  assumes "n \<le> 92416"
  shows "\<exists>r. isqrt n = Some r \<and> 0 \<le> r \<and> (0 \<le> n \<longrightarrow> r * r \<le> n) \<and> n < (r + 1) * (r + 1)"
proof (cases "n \<le> 0")
  case True
  then show ?thesis by (simp add: isqrt_def)
next
  case False
  then obtain r where r: "0 \<le> r" "r * r \<le> n" "n < (r + 1) * (r + 1)" using root_exists [of "nat n"] by auto
  have "0 < r" using r False by (cases "r = 0") auto
  have "r * 2 \<le> r * r + 1" using zero_le_square [of "r - 1"] by (simp add: algebra_simps)
  then have "r \<le> n div 2 + 1" using r(2) by linarith
  moreover have "n div 2 + 1 \<le> 46340" using assms by linarith
  ultimately have "isqrt_loop n (n div 2 + 1) = Some r"
    using isqrt_loop_root [OF \<open>0 < r\<close> r(2,3)] assms by simp
  moreover have "INT32 (drop_bit 1 n + 1) = n div 2 + 1"
    using assms False by (subst INT32_id) (simp_all add: drop_bit_eq_div)
  ultimately show ?thesis using r False by (simp add: isqrt_def)
qed

subsection \<open>The picture\<close>

definition fb_memory :: "vga_event list \<Rightarrow> u32 \<Rightarrow> u8" where
  "fb_memory es = fold (\<lambda>e m. case e of Mem_Store a v \<Rightarrow> m(a := v) | _ \<Rightarrow> m) es (\<lambda>_. 0)"

definition inside13 :: "int \<Rightarrow> int \<Rightarrow> bool" where
  "inside13 x y \<longleftrightarrow> 0 \<le> x \<and> x < VGA13_W \<and> 0 \<le> y \<and> y < VGA13_H"

definition address13 :: "int \<Rightarrow> int \<Rightarrow> u32" where
  "address13 x y = 0xA0000 + word_of_int (y * VGA13_W + x)"

definition pixel13 :: "'a vga_scheme \<Rightarrow> int \<Rightarrow> int \<Rightarrow> u8" where
  "pixel13 s x y = (if inside13 x y then fb_memory (vga_io s) (address13 x y) else 0)"

lemma fb_memory_snoc: "fb_memory (es @ [Mem_Store a v]) = (fb_memory es)(a := v)"
  by (simp add: fb_memory_def)

lemma unat_word_of_int_u32: "0 \<le> k \<Longrightarrow> k < 4294967296 \<Longrightarrow> unat (word_of_int k :: u32) = nat k"
proof -
  assume k: "0 \<le> k" "k < 4294967296"
  have e: "(word_of_int k :: u32) = of_nat (nat k)" using k(1) by (metis of_int_of_nat_eq int_nat_eq)
  show ?thesis unfolding e by (rule unat_of_nat_u32) (use k in linarith)
qed

lemma address13_range:
  assumes "inside13 x y"
  shows "unat (address13 x y - 0xA0000) = nat (y * 320 + x)" "y * 320 + x < 64000" "0 \<le> y * 320 + x"
proof -
  show r: "y * 320 + x < 64000" "0 \<le> y * 320 + x" using assms by (auto simp: inside13_def const_defs)
  then show "unat (address13 x y - 0xA0000) = nat (y * 320 + x)"
    using unat_word_of_int_u32 [of "y * 320 + x"] unfolding address13_def const_defs by simp
qed

lemma address13_inj: "inside13 x y \<Longrightarrow> inside13 u v \<Longrightarrow> address13 x y = address13 u v \<longleftrightarrow> x = u \<and> y = v"
proof -
  assume i: "inside13 x y" "inside13 u v"
  have "x = u \<and> y = v" if "address13 x y = address13 u v"
  proof -
    have "y * 320 + x = v * 320 + u"
      using that address13_range [OF i(1)] address13_range [OF i(2)] by (metis eq_nat_nat_iff)
    then show ?thesis using i unfolding inside13_def const_defs by (cases y v rule: linorder_cases) auto
  qed
  then show ?thesis by blast
qed

lemma inside13_window: "unat (a - 0xA0000) < 64000 \<Longrightarrow> in_window a"
  by (simp add: in_window_def VGA_BASE_ADDRESS_def)

lemma store13: "inside13 x y \<Longrightarrow> fb_store (address13 x y) c s = vga_event (Mem_Store (address13 x y) c) s"
  using address13_range [of x y] by (intro fb_store_window inside13_window) simp

lemma px_store: "px x y c s = (if inside13 x y then fb_store (address13 x y) c s else s)"
  by (simp add: px_def inside13_def address13_def)

lemma pixel13_px:
  "inside13 x y \<Longrightarrow> pixel13 (px x y c s) u v = (if u = x \<and> v = y then c else pixel13 s u v)"
  by (auto simp: pixel13_def px_store store13 vga_event_def fb_memory_snoc address13_inj)

interpretation boot_canvas: canvas pixel13 px "\<lambda>_. True" inside13
  by unfold_locales (simp_all add: pixel13_px, simp add: px_store)

text \<open>\<open>painted s t\<close>: between \<open>s\<close> and \<open>t\<close> there were stores into the picture, nothing else.\<close>

definition painted :: "'a vga_scheme \<Rightarrow> 'a vga_scheme \<Rightarrow> bool" where
  "painted s t \<longleftrightarrow> (\<exists>es. t = s\<lparr>vga_io := vga_io s @ es\<rparr>
     \<and> (\<forall>e \<in> set es. \<exists>a v. e = Mem_Store a v \<and> unat (a - 0xA0000) < 64000))"

lemma painted_refl [simp]: "painted s s"
  unfolding painted_def by (rule exI [of _ "[]"]) simp

lemma painted_trans: "painted s t \<Longrightarrow> painted t u \<Longrightarrow> painted s u"
  unfolding painted_def by (elim exE, rename_tac xs ys, rule_tac x = "xs @ ys" in exI) auto

lemma painted_store:
  assumes "unat (a - 0xA0000) < 64000"
  shows "painted s (fb_store a c s)"
  unfolding painted_def fb_store_window [OF inside13_window [OF assms]] vga_event_def
  by (rule exI [of _ "[Mem_Store a c]"]) (use assms in simp)

text \<open>\<open>paints c A s t\<close>: and the picture differs by the colour \<open>c\<close> on the area \<open>A\<close>.\<close>

definition paints :: "u8 \<Rightarrow> (int \<times> int) set \<Rightarrow> 'a vga_scheme \<Rightarrow> 'a vga_scheme \<Rightarrow> bool" where
  "paints c A s t \<longleftrightarrow> painted s t
     \<and> (\<forall>u v. inside13 u v \<longrightarrow> pixel13 t u v = (if (u, v) \<in> A then c else pixel13 s u v))"

lemma paints_none [simp]: "paints c {} s s"
  by (simp add: paints_def)

lemma paints_px: "paints c {(x, y)} s (px x y c s)"
proof (cases "inside13 x y")
  case True
  then have "painted s (px x y c s)"
    using address13_range [OF True] by (simp add: px_store painted_store)
  then show ?thesis using boot_canvas.get_put [where s = s and x = x and y = y and c = c] True by (simp add: paints_def)
next
  case False
  then show ?thesis using boot_canvas.put_outside [where s = s and x = x and y = y and c = c] by (auto simp: paints_def)
qed

lemma paints_seq: "paints c A s t \<Longrightarrow> paints c B t u \<Longrightarrow> paints c (A \<union> B) s u"
  unfolding paints_def using painted_trans by auto

lemma paints_fold:
  "(\<And>i s. i \<in> set is \<Longrightarrow> paints c (A i) s (f i s)) \<Longrightarrow> paints c (\<Union>i \<in> set is. A i) s (fold f is s)"
proof (induction "is" arbitrary: s)
  case (Cons i "is")
  have "paints c (A i) s (f i s)" by (rule Cons.prems) simp
  moreover have "paints c (\<Union>i \<in> set is. A i) (f i s) (fold f is (f i s))" by (rule Cons.IH) (simp add: Cons.prems)
  ultimately show ?case using paints_seq by fastforce
qed simp

lemma paints_area: "paints c A s t \<Longrightarrow> A = B \<Longrightarrow> paints c B s t"
  by simp

lemma paints_painted: "paints c A s t \<Longrightarrow> painted s t"
  by (simp add: paints_def)

lemma paints_pixel: "paints c A s t \<Longrightarrow> inside13 u v \<Longrightarrow> pixel13 t u v = (if (u, v) \<in> A then c else pixel13 s u v)"
  by (simp add: paints_def)

subsection \<open>The areas of the figures\<close>

text \<open>Whole cells of a grid, counted from a corner.\<close>

lemma cells_area:
  "(\<Union>j \<in> set [0..<nat h]. \<Union>i \<in> set [0..<nat w]. {(x + int i, y + int j)}) = {x..<x + w} \<times> {y..<y + h}"
proof (rule set_eqI, clarify)
  fix u v
  have "(\<exists>k < nat n. z + int k = t) \<longleftrightarrow> z \<le> t \<and> t < z + n" for n z t :: int
    by (auto intro!: exI [of _ "nat (t - z)"])
  then show "(u, v) \<in> (\<Union>j \<in> set [0..<nat h]. \<Union>i \<in> set [0..<nat w]. {(x + int i, y + int j)})
      \<longleftrightarrow> (u, v) \<in> {x..<x + w} \<times> {y..<y + h}"
    by (auto simp: Bex_def) (metis add.commute)+
qed

lemma fill_rect_paints: "paints c ({x..<x + w} \<times> {y..<y + h}) s (fill_rect x y w h c s)"
  unfolding fill_rect_def cells_area [symmetric] by (intro paints_fold paints_px)

lemma rect_outline_paints:
  "\<exists>A. paints c A s (rect_outline x y w h c s)
    \<and> A \<subseteq> {x..<x + w} \<times> {y, y + h - 1} \<union> {x, x + w - 1} \<times> {y..<y + h}"
proof -
  have row: "paints c ({(x + int i, y)} \<union> {(x + int i, y + h - 1)}) s (px (x + int i) (y + h - 1) c (px (x + int i) y c s))"
    and col: "paints c ({(x, y + int i)} \<union> {(x + w - 1, y + int i)}) s (px (x + w - 1) (y + int i) c (px x (y + int i) c s))"
    for i and s :: "'a vga_scheme"
    by (rule paints_seq [OF paints_px paints_px])+
  have "paints c ((\<Union>i \<in> set [0..<nat w]. {(x + int i, y)} \<union> {(x + int i, y + h - 1)})
      \<union> (\<Union>i \<in> set [0..<nat h]. {(x, y + int i)} \<union> {(x + w - 1, y + int i)})) s (rect_outline x y w h c s)"
    unfolding rect_outline_def Let_def by (rule paints_seq [OF paints_fold [OF row] paints_fold [OF col]])
  then show ?thesis by (intro exI conjI) auto
qed

lemma fb_clear_paints: "paints c UNIV s (fb_clear c s)"
proof -
  let ?at = "\<lambda>i. (int i mod 320, int i div 320)"
  have step: "paints c {?at i} s (fb_store (0xA0000 + of_nat i) c s)" if "i \<in> set [0..<nat (VGA13_W * VGA13_H)]"
    for i and s :: "'a vga_scheme"
  proof -
    have i: "i < 64000" using that by (simp add: const_defs)
    then have "inside13 (int i mod 320) (int i div 320)" by (auto simp: inside13_def const_defs)
    moreover have "int i div 320 * 320 + int i mod 320 = int i" by simp
    then have "address13 (int i mod 320) (int i div 320) = 0xA0000 + of_nat i"
      unfolding address13_def VGA13_W_def by (simp only: of_int_of_nat_eq)
    ultimately show ?thesis using paints_px [of c "int i mod 320" "int i div 320" s] by (simp add: px_store)
  qed
  have all: "(u, v) \<in> (\<Union>i \<in> set [0..<nat (VGA13_W * VGA13_H)]. {?at i})" if "inside13 u v" for u v
  proof -
    have "nat (v * 320 + u) \<in> set [0..<nat (VGA13_W * VGA13_H)]" "?at (nat (v * 320 + u)) = (u, v)"
      using address13_range [OF that] that by (auto simp: inside13_def const_defs)
    then show ?thesis by (metis (no_types, lifting) UN_iff singletonI)
  qed
  have "paints c (\<Union>i \<in> set [0..<nat (VGA13_W * VGA13_H)]. {?at i}) s (fb_clear c s)"
    unfolding fb_clear_def by (rule paints_fold [OF step])
  then show ?thesis using all unfolding paints_def by auto
qed

lemma block_in_square:
  "\<lbrakk>0 \<le> p; p + k \<le> n; 0 \<le> q; q + k \<le> n\<rbrakk> \<Longrightarrow>
    {x + q..<x + q + k} \<times> {y + p..<y + p + k} \<subseteq> {x..<x + n} \<times> {y..<y + n}" for n :: int
  by auto

lemma draw_char_paints:
  "\<exists>A. paints c A s (draw_char x y ch c scale s) \<and> A \<subseteq> {x..<x + 8 * scale} \<times> {y..<y + 8 * scale}"
proof -
  let ?cell = "\<lambda>row col. {x + int col * scale..<x + int col * scale + scale} \<times> {y + int row * scale..<y + int row * scale + scale}"
  let ?bit = "\<lambda>row col. boot_glyph ch ! row AND push_bit col 1 \<noteq> 0"
  have cell: "paints c (if ?bit row col then ?cell row col else {}) s
     (if ?bit row col then
        fold (\<lambda>by. fold (\<lambda>bx. px (x + int col * scale + int bx) (y + int row * scale + int by) c) [0..<nat scale]) [0..<nat scale] s
      else s)" for row col and s :: "'a vga_scheme"
    using fill_rect_paints [of c "x + int col * scale" scale "y + int row * scale" scale s] by (simp add: fill_rect_def)
  have sub: "?cell row col \<subseteq> {x..<x + 8 * scale} \<times> {y..<y + 8 * scale}" if "row < 8" "col < 8" for row col
  proof (cases "0 < scale")
    case True
    have "int k * scale + scale \<le> 8 * scale" "0 \<le> int k * scale" if "k < 8" for k
    proof -
      have "(int k + 1) * scale \<le> 8 * scale" using that True by (intro mult_right_mono) auto
      then show "int k * scale + scale \<le> 8 * scale" by (simp add: algebra_simps)
    qed (use True in simp)
    from block_in_square [OF this(2,1) [OF that(1)] this(2,1) [OF that(2)]] show ?thesis .
  qed simp
  have "paints c (\<Union>row \<in> set [0..<8]. \<Union>col \<in> set [0..<8]. if ?bit row col then ?cell row col else {}) s
      (draw_char x y ch c scale s)"
    unfolding draw_char_def Let_def by (rule paints_fold, rule paints_fold, rule cell)
  moreover have "(\<Union>row \<in> set [0..<8]. \<Union>col \<in> set [0..<8]. if ?bit row col then ?cell row col else {})
      \<subseteq> {x..<x + 8 * scale} \<times> {y..<y + 8 * scale}"
    by (intro UN_least) (use sub in \<open>simp split: if_split\<close>)
  ultimately show ?thesis by blast
qed

text \<open>\<open>paints_in c B s t\<close>: some part of \<open>B\<close> takes the colour \<open>c\<close>, the rest of the picture stays.\<close>

definition paints_in :: "u8 \<Rightarrow> (int \<times> int) set \<Rightarrow> 'a vga_scheme \<Rightarrow> 'a vga_scheme \<Rightarrow> bool" where
  "paints_in c B s t \<longleftrightarrow> (\<exists>A. paints c A s t \<and> A \<subseteq> B)"

lemma paints_in_char: "paints_in c ({x..<x + 8 * scale} \<times> {y..<y + 8 * scale}) s (draw_char x y ch c scale s)"
  unfolding paints_in_def by (rule draw_char_paints)

lemma paints_in_seq: "paints_in c A s t \<Longrightarrow> paints_in c B t u \<Longrightarrow> A \<subseteq> D \<Longrightarrow> B \<subseteq> D \<Longrightarrow> paints_in c D s u"
  unfolding paints_in_def by (meson paints_seq le_sup_iff subset_trans)

lemma paints_in_weaken: "paints_in c A s t \<Longrightarrow> A \<subseteq> B \<Longrightarrow> paints_in c B s t"
  unfolding paints_in_def by blast

lemma paints_in_painted: "paints_in c B s t \<Longrightarrow> painted s t"
  unfolding paints_in_def using paints_painted by blast

lemma paints_in_pixel: "paints_in c B s t \<Longrightarrow> inside13 u v \<Longrightarrow> (u, v) \<notin> B \<Longrightarrow> pixel13 t u v = pixel13 s u v"
  unfolding paints_in_def using paints_pixel by (metis subsetD)

lemma draw_str_paints:
  assumes "0 \<le> scale"
  shows "paints_in c ({x..} \<times> {y..<y + 8 * scale}) s (draw_str x y str c scale s)"
proof (induction str arbitrary: x s)
  case Nil
  show ?case unfolding paints_in_def by (rule exI [of _ "{}"]) simp
next
  case (Cons ch str)
  show ?case unfolding draw_str.simps
    by (rule paints_in_seq [OF paints_in_char Cons.IH]) (use assms in auto)
qed

lemma draw_str_c_paints:
  "0 \<le> scale \<Longrightarrow> paints_in c (UNIV \<times> {y..<y + 8 * scale}) s (draw_str_c y str c scale s)"
  unfolding draw_str_c_def Let_def by (rule paints_in_weaken [OF draw_str_paints]) auto

lemma draw_uint_paints: "paints_in c ({x..} \<times> {y..<y + 8}) s (draw_uint junk x y n c s)"
  using draw_str_paints [of 1 c x y s] by (simp add: draw_uint_def Let_def split_beta)

subsection \<open>Ellipses\<close>

lemma le_div_pos:
  fixes a b d :: int
  assumes "0 < b"
  shows "d \<le> a div b \<longleftrightarrow> d * b \<le> a"
proof -
  have a: "b * (a div b) \<le> a" "a < b * (a div b) + b"
    using mult_div_mod_eq [of b a] pos_mod_bound [OF assms, of a] pos_mod_sign [OF assms, of a] by linarith+
  have "b * d \<le> b * (a div b)" if "d \<le> a div b" using that assms by (intro mult_left_mono) auto
  moreover have "b * (a div b) + b \<le> b * d" if "\<not> d \<le> a div b"
  proof -
    have "b * (a div b + 1) \<le> b * d" using that assms by (intro mult_left_mono) auto
    then show ?thesis by (simp add: algebra_simps)
  qed
  ultimately show ?thesis using a by (smt (verit) mult.commute)
qed

lemma half_width_bound:
  assumes "0 < ry" "ry \<le> 304" "0 \<le> rx" "rx \<le> 7000000" "\<bar>r\<bar> \<le> ry"
  shows "\<exists>hw. half_width rx ry r = Some hw \<and> 0 \<le> hw \<and> hw \<le> rx
    \<and> (\<forall>d. \<bar>d\<bar> \<le> hw \<longleftrightarrow> (\<exists>k \<ge> 0. k * k + r * r \<le> ry * ry \<and> ry * \<bar>d\<bar> \<le> rx * k))"
proof -
  have le_square: "r * r \<le> ry * ry" using assms(5) by (metis abs_ge_zero abs_mult_self_eq mult_mono')
  have "ry * ry \<le> 304 * 304" using assms(1,2) by (intro mult_mono) auto
  then have squares: "0 \<le> r * r" "r * r \<le> ry * ry" "ry * ry \<le> 92416" using le_square by simp_all
  have "INT32 (ry * ry) = ry * ry" "INT32 (r * r) = r * r" "INT32 (ry * ry - r * r) = ry * ry - r * r"
    by (rule INT32_id; use squares in linarith)+
  then have n: "INT32 (INT32 (ry * ry) - INT32 (r * r)) = ry * ry - r * r" by simp
  have small: "ry * ry - r * r \<le> 92416" using squares by linarith
  then obtain k0 where k0: "isqrt (ry * ry - r * r) = Some k0" "0 \<le> k0" "k0 * k0 \<le> ry * ry - r * r"
    "ry * ry - r * r < (k0 + 1) * (k0 + 1)" using isqrt_root [OF small] le_square by auto
  have le: "k \<le> k0" if "0 \<le> k" "k * k + r * r \<le> ry * ry" for k
  proof (rule ccontr)
    assume "\<not> k \<le> k0"
    then have "(k0 + 1) * (k0 + 1) \<le> k * k" using k0(2) by (intro mult_mono) auto
    then show False using that k0(4) by linarith
  qed
  have "k0 \<le> ry"
  proof (rule ccontr)
    assume "\<not> k0 \<le> ry"
    then have "ry * ry < k0 * k0" using assms(1) by (intro mult_strict_mono) auto
    then show False using k0(3) zero_le_square [of r] by linarith
  qed
  have "0 \<le> rx * k0" using assms(3) k0(2) by simp
  moreover have "rx * k0 \<le> rx * ry" using \<open>k0 \<le> ry\<close> assms(3) by (rule mult_left_mono)
  moreover have "rx * ry \<le> 7000000 * 304" using assms(1-4) by (intro mult_mono) auto
  ultimately have "INT32 (rx * k0) = rx * k0" by (intro INT32_id) linarith+
  then have hw: "half_width rx ry r = Some (rx * k0 div ry)" "0 \<le> rx * k0 div ry"
    using assms(1) \<open>0 \<le> rx * k0\<close> by (simp_all add: half_width_def n k0(1) sdiv_div pos_imp_zdiv_nonneg_iff)
  have "rx * k0 div ry \<le> rx * ry div ry" using \<open>rx * k0 \<le> rx * ry\<close> assms(1) by (rule zdiv_mono1)
  then have wide: "rx * k0 div ry \<le> rx" using assms(1) by simp
  have "\<bar>d\<bar> \<le> rx * k0 div ry \<longleftrightarrow> (\<exists>k \<ge> 0. k * k + r * r \<le> ry * ry \<and> ry * \<bar>d\<bar> \<le> rx * k)" for d
  proof
    assume "\<bar>d\<bar> \<le> rx * k0 div ry"
    then have "ry * \<bar>d\<bar> \<le> rx * k0" using le_div_pos [OF assms(1)] by (simp add: mult.commute)
    then show "\<exists>k \<ge> 0. k * k + r * r \<le> ry * ry \<and> ry * \<bar>d\<bar> \<le> rx * k" using k0 by (intro exI [of _ k0]) auto
  next
    assume "\<exists>k \<ge> 0. k * k + r * r \<le> ry * ry \<and> ry * \<bar>d\<bar> \<le> rx * k"
    then obtain k where k: "0 \<le> k" "k * k + r * r \<le> ry * ry" "ry * \<bar>d\<bar> \<le> rx * k" by blast
    have "rx * k \<le> rx * k0" using le [OF k(1,2)] assms(3) by (rule mult_left_mono)
    then show "\<bar>d\<bar> \<le> rx * k0 div ry" using k(3) le_div_pos [OF assms(1)] by (simp add: mult.commute)
  qed
  with hw wide show ?thesis by blast
qed

text \<open>Within these half axes and centres nothing overflows.\<close>

definition ellipse_fits :: "int \<Rightarrow> int \<Rightarrow> int \<Rightarrow> int \<Rightarrow> bool" where
  "ellipse_fits cx cy rx ry \<longleftrightarrow> 0 < ry \<and> ry \<le> 304 \<and> 0 \<le> rx \<and> rx \<le> 7000000
     \<and> \<bar>cx\<bar> \<le> 2000000000 \<and> \<bar>cy\<bar> \<le> 2000000000"

lemma ellipse_ints:
  assumes "ellipse_fits cx cy rx ry" "\<bar>r\<bar> \<le> ry" "0 \<le> hw" "hw \<le> rx"
  shows "INT32 (cy + r) = cy + r" "INT32 (cx - hw) = cx - hw" "INT32 (cx + hw) = cx + hw"
    "up_to (cx - hw) (cx + hw) = Some [cx - hw..cx + hw]"
proof -
  have b: "\<bar>cx\<bar> \<le> 2000000000" "\<bar>cy\<bar> \<le> 2000000000" "rx \<le> 7000000" "ry \<le> 304"
    using assms(1) by (simp_all add: ellipse_fits_def)
  show "INT32 (cy + r) = cy + r" "INT32 (cx - hw) = cx - hw" "INT32 (cx + hw) = cx + hw"
    by (rule INT32_id; use b assms(2-4) in linarith)+
  show "up_to (cx - hw) (cx + hw) = Some [cx - hw..cx + hw]"
    unfolding up_to_def by (rule if_not_P) (use b assms(2-4) in linarith)
qed

lemma ellipse_rows: "ellipse_fits cx cy rx ry \<Longrightarrow> up_to (INT32 (- ry)) ry = Some [- ry..ry]"
  by (simp add: ellipse_fits_def INT32_id up_to_def)

lemma fill_ellipse_paints:
  assumes "ellipse_fits cx cy rx ry"
  shows "\<exists>t A. fill_ellipse cx cy rx ry c s = Some t \<and> paints c A s t
    \<and> (\<forall>u v. (u, v) \<in> A \<longleftrightarrow> (\<exists>k \<ge> 0. k * k + (v - cy) * (v - cy) \<le> ry * ry \<and> ry * \<bar>u - cx\<bar> \<le> rx * k))"
proof -
  define hw where "hw r = the (half_width rx ry r)" for r
  have ry: "0 < ry" using assms by (simp add: ellipse_fits_def)
  have hw: "half_width rx ry r = Some (hw r)" "0 \<le> hw r" "hw r \<le> rx"
    "\<bar>d\<bar> \<le> hw r \<longleftrightarrow> (\<exists>k \<ge> 0. k * k + r * r \<le> ry * ry \<and> ry * \<bar>d\<bar> \<le> rx * k)" if "\<bar>r\<bar> \<le> ry" for r d
    using half_width_bound [of ry rx r] assms that by (auto simp: hw_def ellipse_fits_def)
  let ?row = "\<lambda>r. fold (\<lambda>x. px x (cy + r) c) [cx - hw r..cx + hw r]"
  have "fill_ellipse cx cy rx ry c s = Some (fold ?row [- ry..ry] s)"
    unfolding fill_ellipse_def ellipse_rows [OF assms] Option.bind.bind_lunit
  proof (rule fold_opt_total)
    fix r and s :: "'a vga_scheme"
    assume "r \<in> set [- ry..ry]"
    then have "\<bar>r\<bar> \<le> ry" by auto
    then show "Option.bind (half_width rx ry r) (\<lambda>hw. map_option (\<lambda>xs. fold (\<lambda>x. px x (INT32 (cy + r)) c) xs s)
        (up_to (INT32 (cx - hw)) (INT32 (cx + hw)))) = Some (?row r s)"
      using ellipse_ints [OF assms \<open>\<bar>r\<bar> \<le> ry\<close> hw(2,3)] by (simp add: hw(1))
  qed
  moreover have "paints c (\<Union>r \<in> set [- ry..ry]. \<Union>x \<in> set [cx - hw r..cx + hw r]. {(x, cy + r)}) s (fold ?row [- ry..ry] s)"
    by (intro paints_fold paints_px)
  moreover have "(u, v) \<in> (\<Union>r \<in> set [- ry..ry]. \<Union>x \<in> set [cx - hw r..cx + hw r]. {(x, cy + r)})
      \<longleftrightarrow> (\<exists>k \<ge> 0. k * k + (v - cy) * (v - cy) \<le> ry * ry \<and> ry * \<bar>u - cx\<bar> \<le> rx * k)" (is "?in \<longleftrightarrow> ?k") for u v
  proof -
    have "?in \<longleftrightarrow> \<bar>v - cy\<bar> \<le> ry \<and> \<bar>u - cx\<bar> \<le> hw (v - cy)"
      by (auto intro!: bexI [of _ "v - cy"])
    moreover have "\<bar>v - cy\<bar> \<le> ry" if "?k"
    proof -
      from that obtain k where "k * k + (v - cy) * (v - cy) \<le> ry * ry" by blast
      then have "(v - cy) * (v - cy) \<le> ry * ry" using zero_le_square [of k] by linarith
      then show ?thesis using abs_le_square_iff [of "v - cy" ry] ry by (simp add: power2_eq_square)
    qed
    ultimately show ?thesis using hw(4) [of "v - cy" "u - cx"] by blast
  qed
  ultimately show ?thesis by blast
qed

lemma stroke_ellipse_painted:
  assumes "ellipse_fits cx cy rx ry"
  shows "\<exists>t. stroke_ellipse cx cy rx ry c s = Some t \<and> painted s t"
proof -
  define g where "g r s = (let hw = the (half_width rx ry r); y = INT32 (cy + r); s = px (INT32 (cx - hw)) y c s;
    s = px (INT32 (INT32 (cx - hw) + 1)) y c s; s = px (INT32 (cx + hw)) y c s
    in px (INT32 (INT32 (cx + hw) - 1)) y c s)" for r and s :: "'a vga_scheme"
  have "painted s (g r s)" for r and s :: "'a vga_scheme"
    unfolding g_def Let_def by (meson paints_px paints_painted painted_trans)
  then have "painted s (fold g is s)" for "is" and s :: "'a vga_scheme"
    by (induction "is" arbitrary: s) (auto intro: painted_trans)
  moreover have "stroke_ellipse cx cy rx ry c s = Some (fold g [- ry..ry] s)"
    unfolding stroke_ellipse_def ellipse_rows [OF assms] Option.bind.bind_lunit
  proof (rule fold_opt_total)
    fix r and s :: "'a vga_scheme"
    assume "r \<in> set [- ry..ry]"
    then have "\<bar>r\<bar> \<le> ry" by auto
    then obtain hw where "half_width rx ry r = Some hw"
      using half_width_bound [of ry rx r] assms by (auto simp: ellipse_fits_def)
    then show "map_option (\<lambda>hw. let y = INT32 (cy + r); s = px (INT32 (cx - hw)) y c s;
        s = px (INT32 (INT32 (cx - hw) + 1)) y c s; s = px (INT32 (cx + hw)) y c s
      in px (INT32 (INT32 (cx + hw) - 1)) y c s) (half_width rx ry r) = Some (g r s)" by (simp add: g_def)
  qed
  ultimately show ?thesis by blast
qed

subsection \<open>What drawing on the boot picture keeps\<close>

named_theorems painted_intros "operations that only store into the boot picture"

lemmas [painted_intros] = painted_refl paints_painted [OF fill_rect_paints] paints_painted [OF fb_clear_paints]
  paints_in_painted [OF paints_in_char] paints_in_painted [OF draw_uint_paints]

lemma rect_outline_painted [painted_intros]: "painted s (rect_outline x y w h c s)"
  using rect_outline_paints paints_painted by blast

lemma draw_str_painted [painted_intros]: "painted s (draw_str x y str c 1 s)" "painted s (draw_str_c y str c 1 s)"
  by (rule paints_in_painted [OF draw_str_paints], simp, rule paints_in_painted [OF draw_str_c_paints], simp)

lemma painted_fold: "(\<And>i s. i \<in> set is \<Longrightarrow> painted s (f i s)) \<Longrightarrow> painted s (fold f is s)"
proof (induction "is" arbitrary: s)
  case (Cons i "is")
  have "painted s (f i s)" by (rule Cons.prems) simp
  moreover have "painted (f i s) (fold f is (f i s))" by (rule Cons.IH) (simp add: Cons.prems)
  ultimately show ?case using painted_trans by simp
qed simp

lemma draw_logo_painted: "\<exists>t. draw_logo s = Some t \<and> painted s t"
proof -
  let ?s1 = "fold (\<lambda>row. fill_rect 0 (int row) VGA13_W 1 (if row < 100 then 1 else 20)) [0..<nat VGA13_H] s"
  obtain s2 where s2: "stroke_ellipse 160 68 55 44 3 ?s1 = Some s2" "painted ?s1 s2"
    using stroke_ellipse_painted [of 160 68 55 44 3 ?s1] by (auto simp: ellipse_fits_def)
  obtain s3 where s3: "fill_ellipse 160 68 52 41 2 s2 = Some s3" "painted s2 s3"
    using fill_ellipse_paints [of 160 68 52 41 2 s2] paints_painted by (fastforce simp: ellipse_fits_def)
  have "painted s ?s1" by (intro painted_fold painted_intros)
  then have s: "painted s s3" using s2(2) s3(2) painted_trans by blast
  show ?thesis unfolding draw_logo_def Let_def s2(1) s3(1) Option.bind.bind_lunit
    by (rule exI, rule conjI, rule refl) (intro painted_trans [OF _ paints_painted [OF fill_rect_paints]]
        painted_trans [OF _ draw_str_painted(2)] painted_trans [OF _ paints_in_painted [OF paints_in_char]] s)
qed

subsection \<open>The progress bar\<close>

lemma draw_progress_painted [painted_intros]: "painted s (draw_progress junk step steps label s)"
proof -
  have cond: "painted t (if b then f t else t)" if "painted t (f t)" for b f and t :: "'a vga_scheme"
    using that by simp
  show ?thesis unfolding draw_progress_def Let_def
    by (intro painted_trans [OF _ draw_str_painted(2)] painted_trans [OF _ paints_painted [OF fill_rect_paints]]
        painted_trans [OF _ draw_str_painted(1)] painted_trans [OF _ paints_in_painted [OF draw_uint_paints]]
        painted_trans [OF _ rect_outline_painted] painted_trans [OF _ cond] painted_intros)
qed

text \<open>The colour of the bar \<open>d\<close> pixels from its left end.\<close>

definition bar_colour :: "int \<Rightarrow> int \<Rightarrow> u8" where
  "bar_colour filled d = (if d < filled then 10 else if d < filled + 2 then 3 else 1)"

lemma draw_progress_bar:
  assumes "0 \<le> step" "step \<le> steps" "0 < steps" "0 \<le> d" "d < BAR_W" "0 \<le> j" "j < BAR_H" "steps \<le> 10000000"
  shows "pixel13 (draw_progress junk step steps label s) (BAR_X + d) (BAR_Y + j) = bar_colour (BAR_W * step div steps) d"
proof -
  let ?u = "BAR_X + d" and ?v = "BAR_Y + j" and ?f = "INT32 (BAR_W * step) sdiv steps"
  have "INT32 (BAR_W * step) = BAR_W * step" using assms(1,2,8) by (simp add: INT32_id const_defs)
  then have f: "?f = BAR_W * step div steps" using assms(1,3) by (simp add: sdiv_div const_defs)
  have "BAR_W * step div steps \<le> BAR_W * steps div steps"
    using assms(1-3) by (intro zdiv_mono1 mult_left_mono) (auto simp: const_defs)
  then have f_le: "?f \<le> 200" unfolding f using assms(3) by (simp add: const_defs)
  have f_ge: "0 \<le> ?f" unfolding f using assms(1,3) by (simp add: pos_imp_zdiv_nonneg_iff const_defs)
  have right: "INT32 (BAR_X + ?f) = BAR_X + ?f" using f_le f_ge by (simp add: INT32_id const_defs)
  have "inside13 ?u ?v" using assms(4-7) by (auto simp: inside13_def const_defs)
  note pixel = paints_pixel [OF fill_rect_paints this] and other = paints_in_pixel [OF _ this]
  have outline: "paints_in c ({x..<x + w} \<times> {y, y + h - 1} \<union> {x, x + w - 1} \<times> {y..<y + h}) t (rect_outline x y w h c t)"
    for c x y w h and t :: "'a vga_scheme"
    unfolding paints_in_def by (rule rect_outline_paints)
  define s2 where "s2 = fill_rect BAR_X BAR_Y BAR_W BAR_H 1 (fill_rect (BAR_X - 2) (BAR_Y - 2) (BAR_W + 4) (BAR_H + 4) 8 s)"
  define s3 where "s3 = (if ?f > 0 then fill_rect BAR_X BAR_Y ?f BAR_H 10 s2 else s2)"
  define s4 where "s4 = (if ?f < BAR_W then fill_rect (INT32 (BAR_X + ?f)) BAR_Y 2 BAR_H 3 s3 else s3)"
  define s5 where "s5 = rect_outline (BAR_X - 1) (BAR_Y - 1) (BAR_W + 2) (BAR_H + 2) 15 s4"
  define s6 where "s6 = fill_rect (BAR_X + BAR_W + 5) BAR_Y 28 9 1 s5"
  define s7 where "s7 = draw_uint junk (BAR_X + BAR_W + 5) BAR_Y (word_of_int (INT32 (step * 100) sdiv steps)) 15 s6"
  define s8 where "s8 = draw_str (BAR_X + BAR_W + 5 + (if INT32 (step * 100) sdiv steps < 10 then 8
      else if INT32 (step * 100) sdiv steps < 100 then 16 else 24)) BAR_Y ''%'' 15 1 s7"
  define s9 where "s9 = fill_rect 35 (BAR_Y + BAR_H + 5) 250 10 1 s8"
  have p2: "pixel13 s2 ?u ?v = 1" unfolding s2_def by (subst pixel) (use assms(4-7) in \<open>auto simp: const_defs\<close>)
  have p3: "pixel13 s3 ?u ?v = (if d < ?f then 10 else 1)"
    unfolding s3_def using p2 assms(4-7) f_ge by (auto simp: pixel [unfolded BAR_X_def BAR_Y_def] const_defs)
  have p4: "pixel13 s4 ?u ?v = bar_colour ?f d"
    unfolding s4_def right bar_colour_def using p3 assms(4-7) f_ge f_le by (auto simp: pixel [unfolded BAR_X_def BAR_Y_def] const_defs)
  have p5: "pixel13 s5 ?u ?v = pixel13 s4 ?u ?v"
    unfolding s5_def by (rule other [OF outline]) (use assms(4-7) in \<open>auto simp: const_defs\<close>)
  have p6: "pixel13 s6 ?u ?v = pixel13 s5 ?u ?v" unfolding s6_def by (subst pixel) (use assms(4-7) in \<open>auto simp: const_defs\<close>)
  have p7: "pixel13 s7 ?u ?v = pixel13 s6 ?u ?v"
    unfolding s7_def by (rule other [OF draw_uint_paints]) (use assms(4-7) in \<open>auto simp: const_defs\<close>)
  have p8: "pixel13 s8 ?u ?v = pixel13 s7 ?u ?v"
    unfolding s8_def by (rule other [OF draw_str_paints]) (use assms(4-7) in \<open>auto simp: const_defs split: if_splits\<close>)
  have p9: "pixel13 s9 ?u ?v = pixel13 s8 ?u ?v" unfolding s9_def by (subst pixel) (use assms(4-7) in \<open>auto simp: const_defs\<close>)
  have "draw_progress junk step steps label s = draw_str_c (BAR_Y + BAR_H + 5) label 7 1 s9"
    unfolding draw_progress_def Let_def s9_def s8_def s7_def s6_def s5_def s4_def s3_def s2_def ..
  moreover have "pixel13 (draw_str_c (BAR_Y + BAR_H + 5) label 7 1 s9) ?u ?v = pixel13 s9 ?u ?v"
    by (rule other [OF draw_str_c_paints]) (use assms(4-7) in \<open>auto simp: const_defs\<close>)
  ultimately show ?thesis using p9 p8 p7 p6 p5 p4 f by simp
qed

subsection \<open>Decimal numbers\<close>

lemma digit_char: "d < 10 \<Longrightarrow> (of_char (char_at (0x30 + of_nat d)) :: int) = 48 + int d"
proof -
  assume d: "d < 10"
  have "(of_char (char_at (0x30 + of_nat d)) :: nat) = unat (byte_of (char_at (0x30 + of_nat d)))"
    by (rule unat_byte_of [symmetric])
  also have "\<dots> = unat (0x30 + of_nat d :: u8)" by (simp only: byte_of_char_at)
  also have "\<dots> = 48 + d"
    using d by (subst unat_add_lem [THEN iffD1]) (simp_all add: unat_of_nat_u8)
  finally show ?thesis by (metis of_nat_of_char of_nat_add of_nat_numeral)
qed

text \<open>Characters of a decimal number, with the number they denote.\<close>

definition decimal :: "nat \<Rightarrow> string \<Rightarrow> bool" where
  "decimal n ds \<longleftrightarrow> dec_value ds 0 = Some (int n) \<and> NUL \<notin> set ds"

lemma decimal_snoc:
  assumes "decimal (n div 10) ds"
  shows "decimal n (ds @ [char_at (0x30 + of_nat (n mod 10))])"
proof -
  let ?c = "char_at (0x30 + of_nat (n mod 10))"
  have c: "(of_char ?c :: int) = 48 + int (n mod 10)" by (rule digit_char) simp
  then have "?c \<noteq> NUL" by auto
  moreover have "int n = 10 * int (n div 10) + int (n mod 10)" by presburger
  moreover have "int (n mod 10) < 10" by simp
  ultimately show ?thesis using assms c by (auto simp: decimal_def dec_value_append Let_def simp del: of_nat_mod)
qed

lemma uint_digits_decimal:
  assumes "n < 10 ^ i" "i \<le> length buf"
  shows "\<exists>j ds. uint_digits n i buf = (j, take j buf @ ds @ drop i buf) \<and> j + length ds = i
    \<and> (0 < n \<longrightarrow> decimal n ds) \<and> (n = 0 \<longrightarrow> ds = [])"
  using assms
proof (induction n i buf rule: uint_digits.induct)
  case (1 n i buf)
  show ?case
  proof (cases "n = 0")
    case True
    then show ?thesis by (subst uint_digits.simps) auto
  next
    case False
    let ?c = "char_at (0x30 + of_nat (n mod 10))"
    have i: "0 < i" using "1.prems"(1) False by (cases i) auto
    then have less: "n div 10 < 10 ^ (i - 1)"
      using "1.prems"(1) by (cases i) (auto simp: less_mult_imp_div_less mult.commute)
    have len: "i - 1 \<le> length (buf[i - 1 := ?c])" using "1.prems"(2) by simp
    from "1.IH" [OF neq0_conv [THEN iffD1, OF False] less len] obtain j ds where
      r: "uint_digits (n div 10) (i - 1) (buf[i - 1 := ?c])
        = (j, take j (buf[i - 1 := ?c]) @ ds @ drop (i - 1) (buf[i - 1 := ?c]))"
      "j + length ds = i - 1" "0 < n div 10 \<longrightarrow> decimal (n div 10) ds" "n div 10 = 0 \<longrightarrow> ds = []"
      by (elim exE conjE)
    have "drop (i - 1) (buf[i - 1 := ?c]) = ?c # drop i buf"
      using i "1.prems"(2) by (simp add: drop_update_swap Cons_nth_drop_Suc [symmetric] flip: Cons_nth_drop_Suc)
    moreover have "take j (buf[i - 1 := ?c]) = take j buf" using r(2) by simp
    moreover have "decimal (n div 10) ds" using r(3,4) by (cases "n div 10 = 0") (auto simp: decimal_def)
    from decimal_snoc [OF this] have "decimal n (ds @ [?c])" .
    ultimately show ?thesis using r(1,2) i False
      by (subst uint_digits.simps) (intro exI [of _ j] exI [of _ "ds @ [?c]"], simp)
  qed
qed

text \<open>The buffer's eleventh character, which nothing writes, follows the digits.\<close>

lemma draw_uint_text:
  assumes "length junk = 12"
  shows "\<exists>ds. decimal (unat n) ds
    \<and> draw_uint junk x y n c s = draw_str x y (ds @ (if junk ! 10 = NUL then [] else [junk ! 10])) c 1 s"
proof -
  let ?buf = "junk[11 := NUL]"
  have rest: "drop 10 ?buf = [junk ! 10, NUL]"
    using assms by (auto simp: numeral_eq_Suc length_Suc_conv)
  have str: "cstr (ds @ [junk ! 10, NUL]) = ds @ (if junk ! 10 = NUL then [] else [junk ! 10])" if "NUL \<notin> set ds" for ds
    using that unfolding cstr_def by (induction ds) auto
  show ?thesis
  proof (cases "n = 0")
    case True
    have "drop 9 (?buf[9 := CHR ''0'']) = ''0'' @ [junk ! 10, NUL]"
      using assms by (auto simp: numeral_eq_Suc length_Suc_conv)
    moreover have "decimal 0 ''0''" by (simp add: decimal_def)
    ultimately show ?thesis using True str [of "''0''"] by (intro exI [of _ "''0''"]) (simp add: draw_uint_def)
  next
    case False
    have "unat n < 10 ^ 10" by (rule less_trans [OF unat_u32_less]) simp
    from uint_digits_decimal [OF this, of ?buf] assms obtain j ds where d:
      "uint_digits (unat n) 10 ?buf = (j, take j ?buf @ ds @ drop 10 ?buf)" "j + length ds = 10"
      "0 < unat n \<longrightarrow> decimal (unat n) ds" by auto
    have dec: "decimal (unat n) ds" using d(3) False by (simp add: unat_gt_0)
    have "drop j (take j ?buf @ ds @ drop 10 ?buf) = ds @ [junk ! 10, NUL]" using rest d(2) assms by simp
    then show ?thesis using dec str [of ds] d(1) False unfolding decimal_def
      by (intro exI [of _ ds]) (simp add: draw_uint_def)
  qed
qed

subsection \<open>Properties\<close>

text \<open>
  C32: The ellipses of the logo: for a vertical half axis of 1 to 304, a horizontal one of up to seven
  million and a centre within two thousand million of the corner, where no operation on \<open>int\<close> overflows
  (from 305 on \<open>q * q\<close> does), \<open>fill_ellipse\<close> returns, for Newton's iteration in
  \<open>isqrt\<close> ends on every row; it only stores into the picture; and it colours exactly the points within
  the ellipse as whole numbers allow, those \<open>(u, v)\<close> for which some \<open>k\<close> has
  \<open>k\<^sup>2 + (v - cy)\<^sup>2 \<le> ry\<^sup>2\<close> and \<open>ry \<bar>u - cx\<bar> \<le> rx k\<close>, as far as they are on the screen.
\<close>

theorem ellipse_is_filled:
  assumes "0 < ry" "ry \<le> 304" "0 \<le> rx" "rx \<le> 7000000" "\<bar>cx\<bar> \<le> 2000000000" "\<bar>cy\<bar> \<le> 2000000000"
  shows "\<exists>t. fill_ellipse cx cy rx ry c s = Some t \<and> painted s t
    \<and> (\<forall>u v. inside13 u v \<longrightarrow> pixel13 t u v =
        (if \<exists>k \<ge> 0. k * k + (v - cy) * (v - cy) \<le> ry * ry \<and> ry * \<bar>u - cx\<bar> \<le> rx * k then c else pixel13 s u v))"
proof -
  have "ellipse_fits cx cy rx ry" using assms by (simp add: ellipse_fits_def)
  from fill_ellipse_paints [OF this, of c s] show ?thesis by (auto simp: paints_def)
qed

text \<open>The first product in \<open>isqrt\<close> for a row of a half axis of 305 is negative, and the loop stops at once.\<close>

lemma isqrt_305: "isqrt (305 * 305) = Some 46513"
  unfolding isqrt_def by (subst isqrt_loop.simps) (simp add: INT32_def drop_bit_eq_div)

theorem ellipse_is_filled_witness:
  "\<exists>t. fill_ellipse 160 68 52 41 2 vga_on = Some t \<and> pixel13 t 212 68 = 2 \<and> pixel13 t 160 110 = pixel13 vga_on 160 110"
proof -
  obtain t where t: "fill_ellipse 160 68 52 41 2 vga_on = Some t" "inside13 u v \<longrightarrow> pixel13 t u v =
      (if \<exists>k \<ge> 0. k * k + (v - 68) * (v - 68) \<le> 41 * 41 \<and> 41 * \<bar>u - 160\<bar> \<le> 52 * k then 2 else pixel13 vga_on u v)" for u v
    using ellipse_is_filled [of 41 52 160 68 2 vga_on] by auto
  have "\<exists>k::int \<ge> 0. k * k + (68 - 68) * (68 - 68) \<le> 41 * 41 \<and> 41 * \<bar>212 - 160\<bar> \<le> 52 * k" by (rule exI [of _ 41]) simp
  note in_ellipse = this
  have out: "\<not> (\<exists>k::int \<ge> 0. k * k + (110 - 68) * (110 - 68) \<le> 41 * 41 \<and> 41 * \<bar>160 - 160\<bar> \<le> 52 * k)"
    using zero_le_square by (auto simp: not_le) (smt (verit) zero_le_square)
  have i: "inside13 212 68" "inside13 160 110" by (simp_all add: inside13_def const_defs)
  show ?thesis
    using t(1) mp [OF t(2) i(1), unfolded if_P [OF in_ellipse]] mp [OF t(2) i(2), unfolded if_not_P [OF out]] by blast
qed

text \<open>
  With \<open>step\<close> of \<open>steps\<close> done, \<open>draw_progress\<close> shows exactly that share of the 200 pixels of its bar
  in green, then a marker of two pixels, then the background: neither the frame nor the percentage nor
  the label, whatever its text and whatever the stack holds, touches the bar, and nothing is stored
  outside the picture.
\<close>

theorem progress_bar_shows_share:
  assumes "0 \<le> step" "step \<le> steps" "0 < steps" "0 \<le> d" "d < BAR_W" "0 \<le> j" "j < BAR_H" "steps \<le> 10000000"
  shows "painted s (draw_progress junk step steps label s)
    \<and> pixel13 (draw_progress junk step steps label s) (BAR_X + d) (BAR_Y + j) = bar_colour (BAR_W * step div steps) d"
  using draw_progress_painted draw_progress_bar [OF assms] by (rule conjI)

theorem progress_bar_shows_share_witness:
  "let t = draw_progress (replicate 12 NUL) 2 5 ''Configurando memoria...'' vga_on in
     pixel13 t (BAR_X + 79) (BAR_Y + 8) = 10 \<and> pixel13 t (BAR_X + 81) BAR_Y = 3 \<and> pixel13 t (BAR_X + 199) BAR_Y = 1"
  using progress_bar_shows_share [of 2 5 79 8 vga_on "replicate 12 NUL" "''Configurando memoria...''"]
    progress_bar_shows_share [of 2 5 81 0 vga_on "replicate 12 NUL" "''Configurando memoria...''"]
    progress_bar_shows_share [of 2 5 199 0 vga_on "replicate 12 NUL" "''Configurando memoria...''"]
  by (simp add: const_defs bar_colour_def)

text \<open>
  The percentage beside the bar is the number's decimal digits, and after them the character that
  the stack happened to hold: \<open>draw_uint\<close> leaves the eleventh character of its buffer unwritten, so the
  text ends with the number only if that byte was zero.
\<close>

theorem number_is_followed_by_stack_byte:
  assumes "length junk = 12"
  shows "\<exists>ds. decimal (unat n) ds
    \<and> draw_uint junk x y n c s = draw_str x y (ds @ (if junk ! 10 = NUL then [] else [junk ! 10])) c 1 s"
  using assms by (rule draw_uint_text)

theorem number_is_followed_by_stack_byte_witness:
  "\<exists>ds. decimal 40 ds \<and> draw_uint (replicate 12 (CHR ''x'')) 265 163 40 15 vga_on = draw_str 265 163 (ds @ ''x'') 15 1 vga_on"
  using number_is_followed_by_stack_byte [of "replicate 12 (CHR ''x'')" 40 265 163 15 vga_on] by simp

end
