(* ===== verification/Boot_Splash.thy ===== *)
theory Boot_Splash
  imports Boot_Picture
begin

unbundle bit_operations_syntax

section \<open>The boot screen\<close>

text \<open>
  Models the mode switching and the entry point of \<open>kernel/boot_splash.c\<close>: the mode of 320 by 200
  pixels, the text mode with its font, the palette, and \<open>KernelShowBootSplash\<close>. The bytes read back from
  CRTC register \<open>0x11\<close> are arguments, and so is \<open>junk\<close>, for each progress bar drawn what the stack holds
  in the buffer of its number. The busy wait of \<open>delay_ms\<close> counts and changes nothing.
\<close>

subsection \<open>Registers\<close>

definition seq_w :: "u8 \<Rightarrow> u8 \<Rightarrow> 'a vga_scheme \<Rightarrow> 'a vga_scheme" where
  "seq_w idx v s = vga_outb VGA_SEQ_DATA v (vga_outb VGA_SEQ_INDEX idx s)"

definition crtc_w :: "u8 \<Rightarrow> u8 \<Rightarrow> 'a vga_scheme \<Rightarrow> 'a vga_scheme" where
  "crtc_w idx v s = vga_outb VGA_CRTC_DATA v (vga_outb VGA_CRTC_INDEX idx s)"

definition crtc_r :: "u8 \<Rightarrow> u8 \<Rightarrow> 'a vga_scheme \<Rightarrow> u8 \<times> 'a vga_scheme" where
  "crtc_r val idx s = (val, vga_inb VGA_CRTC_DATA (vga_outb VGA_CRTC_INDEX idx s))"

definition gc_w :: "u8 \<Rightarrow> u8 \<Rightarrow> 'a vga_scheme \<Rightarrow> 'a vga_scheme" where
  "gc_w idx v s = vga_outb VGA_GC_DATA v (vga_outb VGA_GC_INDEX idx s)"

definition dac_set :: "u8 \<Rightarrow> u8 \<Rightarrow> u8 \<Rightarrow> u8 \<Rightarrow> 'a vga_scheme \<Rightarrow> 'a vga_scheme" where
  "dac_set idx r g b s =
     (let s = vga_outb 0x3C8 idx s; s = vga_outb 0x3C9 r s; s = vga_outb 0x3C9 g s in vga_outb 0x3C9 b s)"

text \<open>A table of values for the registers from 0 on, in their order.\<close>

definition crtc13_regs :: "u8 list" where
  "crtc13_regs = [0x5F, 0x4F, 0x50, 0x82, 0x54, 0x80, 0xBF, 0x1F, 0x00, 0x41, 0x00, 0x00, 0x00, 0x00, 0x00, 0x00,
     0x9C, 0x8E, 0x8F, 0x28, 0x40, 0x96, 0xB9, 0xA3, 0xFF]"

definition gc13_regs :: "u8 list" where
  "gc13_regs = [0x00, 0x00, 0x00, 0x00, 0x00, 0x40, 0x05, 0x0F, 0xFF]"

definition ac13_regs :: "u8 list" where
  "ac13_regs = [0x00, 0x01, 0x02, 0x03, 0x04, 0x05, 0x06, 0x07, 0x08, 0x09, 0x0A, 0x0B, 0x0C, 0x0D, 0x0E, 0x0F,
     0x41, 0x00, 0x0F, 0x00, 0x00]"

definition crtc3_regs :: "u8 list" where
  "crtc3_regs = [0x5F, 0x4F, 0x50, 0x82, 0x55, 0x81, 0xBF, 0x1F, 0x00, 0x4F, 0x0D, 0x0E, 0x00, 0x00, 0x00, 0x00,
     0x9C, 0x8E, 0x8F, 0x28, 0x1F, 0x96, 0xB9, 0xA3, 0xFF]"

definition gc3_regs :: "u8 list" where
  "gc3_regs = [0x00, 0x00, 0x00, 0x00, 0x00, 0x10, 0x0E, 0x00, 0xFF]"

definition ac3_regs :: "u8 list" where
  "ac3_regs = [0x00, 0x01, 0x02, 0x03, 0x04, 0x05, 0x14, 0x07, 0x38, 0x39, 0x3A, 0x3B, 0x3C, 0x3D, 0x3E, 0x3F,
     0x0C, 0x00, 0x0F, 0x08, 0x00]"

subsection \<open>Modes\<close>

text \<open>The attribute controller: reset its flip-flop, load the 21 registers, enable the display.\<close>

definition load_ac :: "u8 list \<Rightarrow> 'a vga_scheme \<Rightarrow> 'a vga_scheme" where
  "load_ac regs s =
     (let s = vga_inb VGA_INPUT_STATUS_1 s;
          s = fold (\<lambda>i s. vga_outb VGA_AC_WRITE (regs ! i) (vga_outb VGA_AC_INDEX (of_nat i) s)) [0..<21] s;
          s = vga_inb VGA_INPUT_STATUS_1 s
      in vga_outb VGA_AC_INDEX 0x20 s)"

definition set_mode13h :: "u8 \<Rightarrow> 'a vga_scheme \<Rightarrow> 'a vga_scheme" where
  "set_mode13h crtc17 s =
     (let s = vga_outb VGA_MISC_WRITE 0x63 s;
          s = seq_w 0x00 0x01 s; s = seq_w 0x01 0x01 s; s = seq_w 0x02 0x0F s;
          s = seq_w 0x03 0x00 s; s = seq_w 0x04 0x0E s; s = seq_w 0x00 0x03 s;
          (v, s) = crtc_r crtc17 0x11 s;
          s = crtc_w 0x11 (v AND 0x7F) s;
          s = fold (\<lambda>i. crtc_w (of_nat i) (crtc13_regs ! i)) [0..<25] s;
          s = fold (\<lambda>i. gc_w (of_nat i) (gc13_regs ! i)) [0..<9] s
      in load_ac ac13_regs s)"

definition load_font_from_bios :: "'a vga_scheme \<Rightarrow> 'a vga_scheme" where
  "load_font_from_bios s =
     (let s = gc_w 0x04 0x02 s; s = gc_w 0x05 0x00 s; s = gc_w 0x06 0x04 s; s = gc_w 0x07 0x00 s; s = gc_w 0x08 0xFF s;
          s = seq_w 0x00 0x01 s; s = seq_w 0x02 0x04 s; s = seq_w 0x04 0x06 s; s = seq_w 0x00 0x03 s
      in fold (\<lambda>ch s.
           let s = fold (\<lambda>row. fb_store (0xA0000 + of_nat (ch * 32 + row)) (EMBEDDED_FONT_8X16 ! ch ! row)) [0..<16] s
           in fold (\<lambda>row. fb_store (0xA0000 + of_nat (ch * 32 + row)) 0x00) [16..<32] s) [0..<256] s)"

definition set_mode3 :: "u8 \<Rightarrow> 'a vga_scheme \<Rightarrow> 'a vga_scheme" where
  "set_mode3 crtc17 s =
     (let s = vga_outb VGA_MISC_WRITE 0x67 s;
          s = seq_w 0x00 0x01 s; s = seq_w 0x01 0x00 s; s = seq_w 0x02 0x03 s;
          s = seq_w 0x03 0x00 s; s = seq_w 0x04 0x02 s; s = seq_w 0x00 0x03 s;
          s = load_font_from_bios s;
          s = seq_w 0x00 0x01 s; s = seq_w 0x02 0x03 s; s = seq_w 0x04 0x02 s; s = seq_w 0x00 0x03 s;
          (v, s) = crtc_r crtc17 0x11 s;
          s = crtc_w 0x11 (v AND 0x7F) s;
          s = fold (\<lambda>i. crtc_w (of_nat i) (crtc3_regs ! i)) [0..<25] s;
          s = fold (\<lambda>i. gc_w (of_nat i) (gc3_regs ! i)) [0..<9] s;
          s = load_ac ac3_regs s;
          s = s\<lparr>vga_text := fold (\<lambda>i fb. fb(i := 0x0720)) [0..<80 * 25] (vga_text s)\<rparr>;
          s = crtc_w 0x0F 0x00 s
      in crtc_w 0x0E 0x00 s)"

definition setup_palette :: "'a vga_scheme \<Rightarrow> 'a vga_scheme" where
  "setup_palette s =
     (let s = dac_set 0 0 0 0 s; s = dac_set 1 0 7 37 s; s = dac_set 2 0 15 47 s; s = dac_set 3 63 54 0 s;
          s = dac_set 4 63 62 30 s; s = dac_set 7 40 40 40 s; s = dac_set 8 15 15 15 s; s = dac_set 10 0 48 0 s;
          s = dac_set 11 20 60 20 s; s = dac_set 15 63 63 63 s; s = dac_set 20 0 20 40 s
      in dac_set 21 0 25 50 s)"

subsection \<open>The entry point\<close>

definition delay_ms :: "u32 \<Rightarrow> 'a vga_scheme \<Rightarrow> 'a vga_scheme" where
  "delay_ms ms s = fold (\<lambda>i s. s) [0..<unat (ms * 2000)] s"

definition splash_labels :: "string list" where
  "splash_labels = [''Inicializando hardware...'', ''Cargando modulos del kernel...'', ''Configurando memoria...'',
     ''Preparando drivers VGA...'', ''Iniciando interfaz grafica...'']"

definition KernelShowBootSplash :: "u8 \<Rightarrow> u8 \<Rightarrow> (nat \<Rightarrow> string) \<Rightarrow> 'a vga_scheme \<Rightarrow> 'a vga_scheme option" where
  "KernelShowBootSplash crtc17 crtc17' junk s =
     (let s = set_mode13h crtc17 s;
          s = setup_palette s;
          s = fb_clear 0 s;
          s = delay_ms 80 s in
      Option.bind (draw_logo s) (\<lambda>s.
      let s = fill_rect 0 158 VGA13_W (VGA13_H - 158) 1 s;
          s = draw_progress (junk 0) 0 5 ''Iniciando...'' s;
          s = delay_ms 250 s;
          s = fold (\<lambda>i s. delay_ms 420 (draw_progress (junk (i + 1)) (int i + 1) 5 (splash_labels ! i) s)) [0..<5] s;
          s = fill_rect BAR_X BAR_Y BAR_W BAR_H 11 s;
          s = delay_ms 120 s;
          s = draw_progress (junk 6) 5 5 ''Sistema listo!'' s;
          s = delay_ms 380 s;
          s = delay_ms 20000 s;
          s = set_mode3 crtc17' s
      in Some (delay_ms 30 s)))"

subsection \<open>Registers and stores\<close>

lemma delay_ms_id [simp]: "delay_ms ms s = s"
  unfolding delay_ms_def by (rule fold_keeps [where P = id, simplified]) simp

lemma register_writers:
  "seq_w = VgaWriteSequencer" "gc_w = VgaWriteGraphicsController" "crtc_w = VgaWriteCrtc" "dac_set = VgaSetPalette"
  by (intro ext; simp add: seq_w_def VgaWriteSequencer_def gc_w_def VgaWriteGraphicsController_def crtc_w_def
      VgaWriteCrtc_def dac_set_def VgaSetPalette_def)+

text \<open>The byte at offset \<open>i\<close> of plane 2: the glyphs, in slots of 32 bytes.\<close>

definition font_byte :: "nat \<Rightarrow> u8" where
  "font_byte i = (if i mod 32 < 16 then EMBEDDED_FONT_8X16 ! (i div 32) ! (i mod 32) else 0)"

lemma store_plane2:
  assumes "plain_write (adapter_run other h s)" "seq (adapter_run other h s) 2 = 4" "n \<le> 8192"
  shows "adapter_run other h (fold (\<lambda>i. fb_store (0xA0000 + of_nat i) (f i)) [0..<n] s)
    = (adapter_run other h s)\<lparr>planes := (planes (adapter_run other h s))(2 := \<lambda>p. if unat p < n then f (unat p)
        else planes (adapter_run other h s) 2 p)\<rparr>"
  using assms(3)
proof (induction n)
  case 0
  show ?case by (rule adapter.equality) (auto simp: fun_eq_iff)
next
  case (Suc n)
  let ?a = "adapter_run other h s"
  let ?p = "\<lambda>n p. if unat p < n then f (unat p) else planes ?a 2 p"
  have "adapter_run other h (fold (\<lambda>i. fb_store (0xA0000 + of_nat i) (f i)) [0..<Suc n] s)
    = adapter_store other (0xA0000 + of_nat n) (f n) (?a\<lparr>planes := (planes ?a)(2 := ?p n)\<rparr>)"
    using Suc by (simp add: fun_upd_def)
  also have "\<dots> = ?a\<lparr>planes := (planes ?a)(2 := (?p n)(of_nat n := f n))\<rparr>"
  proof -
    have four: "(4 :: int) = 2 ^ 2" by simp
    have b: "bit (4 :: int) p \<longleftrightarrow> p = 2" for p unfolding four bit_exp_iff by auto
    have "plain_write (?a\<lparr>planes := q\<rparr>)" for q using assms(1) by (simp add: plain_write_def)
    note plain = this
    have window: "in_window (0xA0000 + of_nat n)" using Suc.prems by (intro inside13_window) (simp add: unat_of_nat_u32)
    show ?thesis unfolding adapter_store_def if_P [OF plain]
      using window by (simp add: const_defs) (rule adapter.equality; auto simp: fun_eq_iff const_defs assms(2) b)
  qed
  also have "(?p n)(of_nat n := f n) = ?p (Suc n)"
  proof (rule ext)
    fix p :: u32
    have "p = of_nat n \<longleftrightarrow> unat p = n"
      using unat_of_nat_u32 [of n] Suc.prems by (auto simp: word_unat_eq_iff)
    then show "((?p n)(of_nat n := f n)) p = ?p (Suc n) p" by auto
  qed
  finally show ?case .
qed

lemma font_loop:
  "fold (\<lambda>ch s.
      let s = fold (\<lambda>row. fb_store (0xA0000 + of_nat (ch * 32 + row)) (EMBEDDED_FONT_8X16 ! ch ! row)) [0..<16] s
      in fold (\<lambda>row. fb_store (0xA0000 + of_nat (ch * 32 + row)) 0x00) [16..<32] s) [0..<256] s
   = fold (\<lambda>i. fb_store (0xA0000 + of_nat i) (font_byte i)) [0..<8192] s"
proof -
  let ?put = "\<lambda>i. fb_store (0xA0000 + of_nat i) (font_byte i)"
  have slot: "fold (\<lambda>row. fb_store (0xA0000 + of_nat (ch * 32 + row)) 0x00) [16..<32]
      (fold (\<lambda>row. fb_store (0xA0000 + of_nat (ch * 32 + row)) (EMBEDDED_FONT_8X16 ! ch ! row)) [0..<16] s)
    = fold (\<lambda>row. ?put (ch * 32 + row)) [0..<32] s" for ch and s :: "'b vga_scheme"
  proof -
    have "[0..<32] = [0..<16] @ [16..<32]" using upt_add_eq_append [of 0 16 16] by simp
    moreover have "fold (\<lambda>row. ?put (ch * 32 + row)) [0..<16] s
        = fold (\<lambda>row. fb_store (0xA0000 + of_nat (ch * 32 + row)) (EMBEDDED_FONT_8X16 ! ch ! row)) [0..<16] s"
      by (rule fold_cong) (auto simp: font_byte_def)
    moreover have "fold (\<lambda>row. ?put (ch * 32 + row)) [16..<32] t
        = fold (\<lambda>row. fb_store (0xA0000 + of_nat (ch * 32 + row)) 0x00) [16..<32] t" for t :: "'b vga_scheme"
      by (rule fold_cong) (auto simp: font_byte_def)
    ultimately show ?thesis by (simp only: fold_append comp_apply)
  qed
  have "fold (\<lambda>ch. fold (\<lambda>row. ?put (ch * 32 + row)) [0..<32]) [0..<256] s = fold ?put [0..<256 * 32] s"
    by (rule fold_rows)
  then show ?thesis unfolding Let_def slot by simp
qed

subsection \<open>What the adapter ends up with\<close>

lemma load_ac_bank:
  "adapter_run other h (load_ac regs s)
    = (adapter_run other h s)\<lparr>ac_index := 0x20, ac_data_next := True, ac := bank 21 regs (ac (adapter_run other h s))\<rparr>"
proof -
  let ?s = "vga_inb VGA_INPUT_STATUS_1 s"
  have "\<not> ac_data_next (adapter_run other h ?s)" by (simp add: const_defs)
  from write_ac_bank [OF _ this, of 21 regs] obtain i where
    "adapter_run other h (fold (\<lambda>i s. vga_outb VGA_AC_WRITE (regs ! i) (vga_outb VGA_AC_INDEX (of_nat i) s)) [0..<21] ?s)
      = (adapter_run other h ?s)\<lparr>ac_index := i, ac := bank 21 regs (ac (adapter_run other h ?s))\<rparr>" by auto
  then show ?thesis
    unfolding load_ac_def Let_def by (simp add: adapter_out_def ac_write_def const_defs)
qed

lemma crtc_unlocked_bank:
  assumes "s' = (let (v, s) = crtc_r c 0x11 s in crtc_w 0x11 (v AND 0x7F) s)"
  shows "\<exists>i. adapter_run other h (fold (\<lambda>i. crtc_w (of_nat i) (rs ! i)) [0..<25] s') = (adapter_run other h s)\<lparr>crtc_index := i,
    crtc := bank 25 rs ((crtc (adapter_run other h s))(0x11 := c AND 0x7F))\<rparr>"
proof -
  have a: "adapter_run other h s' = (adapter_run other h s)\<lparr>crtc_index := 0x11,
      crtc := (crtc (adapter_run other h s))(0x11 := c AND 0x7F)\<rparr>"
    unfolding assms crtc_r_def register_writers by (simp add: adapter_out_def crtc_write_def const_defs)
  have low: "c AND 0x7F = take_bit 7 c" by (simp add: take_bit_eq_mask mask_eq_exp_minus_1)
  have "\<not> bit (crtc (adapter_run other h s') 0x11) 7" unfolding a low by (simp add: bit_take_bit_iff)
  from write_crtc_bank [OF _ this, of 25 rs] show ?thesis unfolding register_writers by (auto simp: a)
qed

lemma load_font_plane2:
  assumes "gc (adapter_run other h s) 1 = 0" "gc (adapter_run other h s) 3 = 0"
  shows "\<exists>a. adapter_run other h (load_font_from_bios s) = a \<and> misc_output a = misc_output (adapter_run other h s)
    \<and> crtc a = crtc (adapter_run other h s) \<and> seq a = (seq (adapter_run other h s))(2 := 4, 4 := 6, 0 := 3)
    \<and> dac a = dac (adapter_run other h s)
    \<and> planes a = (planes (adapter_run other h s))(2 := \<lambda>p. if unat p < 8192 then font_byte (unat p)
        else planes (adapter_run other h s) 2 p)"
proof -
  let ?a = "adapter_run other h s"
  define s1 where "s1 = (let s = gc_w 0x04 0x02 s; s = gc_w 0x05 0x00 s; s = gc_w 0x06 0x04 s; s = gc_w 0x07 0x00 s;
    s = gc_w 0x08 0xFF s; s = seq_w 0x00 0x01 s; s = seq_w 0x02 0x04 s; s = seq_w 0x04 0x06 s in seq_w 0x00 0x03 s)"
  have a1: "adapter_run other h s1 = ?a\<lparr>gc_index := 8, gc := (gc ?a)(4 := 2, 5 := 0, 6 := 4, 7 := 0, 8 := 0xFF),
      seq_index := 0, seq := (seq ?a)(0 := 1, 2 := 4, 4 := 6, 0 := 3)\<rparr>"
    unfolding s1_def Let_def register_writers by simp
  have plain: "plain_write (adapter_run other h s1)" "seq (adapter_run other h s1) 2 = 4"
    unfolding plain_write_def a1 using assms by simp_all
  have "load_font_from_bios s = fold (\<lambda>i. fb_store (0xA0000 + of_nat i) (font_byte i)) [0..<8192] s1"
    unfolding load_font_from_bios_def s1_def Let_def using font_loop [unfolded Let_def] by blast
  then show ?thesis
    using store_plane2 [OF plain order_refl, of font_byte, unfolded a1] by (simp add: fun_upd_twist cong: if_cong)
qed

lemma set_mode3_adapter:
  assumes "gc (adapter_run other h s) 1 = 0" "gc (adapter_run other h s) 3 = 0"
  shows "\<exists>a. adapter_run other h (set_mode3 c s) = a \<and> misc_output a = 0x67 \<and> ac_index a = 0x20
    \<and> dac a = dac (adapter_run other h s)
    \<and> seq a = (seq (adapter_run other h s))(0 := 3, 1 := 0, 2 := 3, 3 := 0, 4 := 2)
    \<and> (\<exists>f. crtc a = bank 25 crtc3_regs f) \<and> (\<exists>f. gc a = bank 9 gc3_regs f) \<and> (\<exists>f. ac a = bank 21 ac3_regs f)
    \<and> (\<forall>i < 8192. planes a 2 (of_nat i) = font_byte i)"
proof -
  let ?a = "adapter_run other h s"
  define s1 where "s1 = (let s = vga_outb VGA_MISC_WRITE 0x67 s; s = seq_w 0x00 0x01 s; s = seq_w 0x01 0x00 s;
    s = seq_w 0x02 0x03 s; s = seq_w 0x03 0x00 s; s = seq_w 0x04 0x02 s in seq_w 0x00 0x03 s)"
  define s2 where "s2 = load_font_from_bios s1"
  define s3 where "s3 = (let s = seq_w 0x00 0x01 s2; s = seq_w 0x02 0x03 s; s = seq_w 0x04 0x02 s in seq_w 0x00 0x03 s)"
  define s4 where "s4 = (let (v, s) = crtc_r c 0x11 s3 in crtc_w 0x11 (v AND 0x7F) s)"
  define s5 where "s5 = fold (\<lambda>i. crtc_w (of_nat i) (crtc3_regs ! i)) [0..<25] s4"
  define s6 where "s6 = fold (\<lambda>i. gc_w (of_nat i) (gc3_regs ! i)) [0..<9] s5"
  define s7 where "s7 = load_ac ac3_regs s6"
  define s8 where "s8 = s7\<lparr>vga_text := fold (\<lambda>i fb. fb(i := 0x0720)) [0..<80 * 25] (vga_text s7)\<rparr>"
  have res: "set_mode3 c s = crtc_w 0x0E 0x00 (crtc_w 0x0F 0x00 s8)"
    unfolding set_mode3_def Let_def s8_def s7_def s6_def s5_def s4_def s3_def s2_def s1_def by (simp add: split_beta)
  have a1: "misc_output (adapter_run other h s1) = 0x67" "gc (adapter_run other h s1) = gc ?a"
    "dac (adapter_run other h s1) = dac ?a"
    "seq (adapter_run other h s1) = (seq ?a)(0 := 1, 1 := 0, 2 := 3, 3 := 0, 4 := 2, 0 := 3)"
    unfolding s1_def Let_def register_writers by (simp_all add: adapter_out_def const_defs)
  obtain a2 where a2: "adapter_run other h s2 = a2" "misc_output a2 = 0x67" "dac a2 = dac ?a"
    "seq a2 = (seq ?a)(0 := 1, 1 := 0, 2 := 3, 3 := 0, 4 := 2, 0 := 3, 2 := 4, 4 := 6, 0 := 3)"
    "\<forall>i < 8192. planes a2 2 (of_nat i) = font_byte i"
    using load_font_plane2 [of other h s1] assms unfolding s2_def [symmetric] a1 by (auto simp: unat_of_nat_u32)
  have a3: "adapter_run other h s3 = a2\<lparr>seq_index := 0, seq := (seq ?a)(0 := 3, 1 := 0, 2 := 3, 3 := 0, 4 := 2)\<rparr>"
    unfolding s3_def Let_def register_writers by (simp add: a2(1,4) fun_upd_twist)
  obtain i5 f5 where a5: "adapter_run other h s5 = (adapter_run other h s3)\<lparr>crtc_index := i5, crtc := bank 25 crtc3_regs f5\<rparr>"
    using crtc_unlocked_bank [OF s4_def, of other h crtc3_regs] unfolding s5_def by blast
  obtain i6 f6 where a6: "adapter_run other h s6 = (adapter_run other h s5)\<lparr>gc_index := i6, gc := bank 9 gc3_regs f6\<rparr>"
    using write_gc_bank [of 9 other h gc3_regs s5] unfolding s6_def register_writers by auto
  have "adapter_run other h s8 = adapter_run other h s7" unfolding s8_def by (rule adapter_run_cong) simp
  then have a8: "adapter_run other h s8 = (adapter_run other h s6)\<lparr>ac_index := 0x20, ac_data_next := True,
      ac := bank 21 ac3_regs (ac (adapter_run other h s6))\<rparr>"
    unfolding s7_def load_ac_bank .
  have zero: "(bank 25 crtc3_regs f5)(0x0F := 0, 0x0E := 0) = bank 25 crtc3_regs f5"
    by (rule ext) (simp add: bank_def crtc3_regs_def)
  have "adapter_run other h (set_mode3 c s) = (adapter_run other h s8)\<lparr>crtc_index := 0x0E, crtc := bank 25 crtc3_regs f5\<rparr>"
    unfolding res register_writers by (simp add: crtc_write_def a8 a6 a5 zero)
  then show ?thesis using a2(2,3,5) by (auto simp: a8 a6 a5 a3)
qed

lemma mode13h_gc: "\<exists>f. gc (adapter_run other h (set_mode13h c s)) = bank 9 gc13_regs f"
proof -
  have "\<exists>t. set_mode13h c s = load_ac ac13_regs (fold (\<lambda>i. gc_w (of_nat i) (gc13_regs ! i)) [0..<9] t)"
    unfolding set_mode13h_def Let_def by (auto simp: split_beta)
  then obtain t where t: "set_mode13h c s = load_ac ac13_regs (fold (\<lambda>i. gc_w (of_nat i) (gc13_regs ! i)) [0..<9] t)" by blast
  have "\<exists>i. adapter_run other h (fold (\<lambda>i. gc_w (of_nat i) (gc13_regs ! i)) [0..<9] t)
      = (adapter_run other h t)\<lparr>gc_index := i, gc := bank 9 gc13_regs (gc (adapter_run other h t))\<rparr>"
    unfolding register_writers by (rule write_gc_bank) simp
  then show ?thesis unfolding t load_ac_bank by auto
qed

lemma painted_adapter:
  assumes "painted s t"
  shows "gc (adapter_run other h t) = gc (adapter_run other h s)" "dac (adapter_run other h t) = dac (adapter_run other h s)"
    "seq (adapter_run other h t) = seq (adapter_run other h s)"
proof -
  obtain es where es: "t = s\<lparr>vga_io := vga_io s @ es\<rparr>" "\<forall>e \<in> set es. \<exists>a v. e = Mem_Store a v"
    using assms unfolding painted_def by blast
  have "gc (fold (adapter_step other) es a) = gc a \<and> dac (fold (adapter_step other) es a) = dac a
      \<and> seq (fold (adapter_step other) es a) = seq a" for a
    using es(2) by (induction es arbitrary: a) (auto simp: adapter_store_def)
  then show "gc (adapter_run other h t) = gc (adapter_run other h s)" "dac (adapter_run other h t) = dac (adapter_run other h s)"
    "seq (adapter_run other h t) = seq (adapter_run other h s)"
    by (simp_all add: adapter_run_def es(1))
qed

text \<open>The colours that \<open>setup_palette\<close> loads, and what loading them keeps.\<close>

definition boot_palette :: "(u8 \<times> u8 list) list" where
  "boot_palette = [(0, [0, 0, 0]), (1, [0, 7, 37]), (2, [0, 15, 47]), (3, [63, 54, 0]), (4, [63, 62, 30]),
     (7, [40, 40, 40]), (8, [15, 15, 15]), (10, [0, 48, 0]), (11, [20, 60, 20]), (15, [63, 63, 63]),
     (20, [0, 20, 40]), (21, [0, 25, 50])]"

lemma setup_palette_adapter:
  "gc (adapter_run other h (setup_palette s)) = gc (adapter_run other h s)"
  "\<forall>(i, rgb) \<in> set boot_palette. dac (adapter_run other h (setup_palette s)) i = rgb"
proof -
  let ?a = "adapter_run other h s"
  note step = set_palette_6bit [where a = ?a]
  have "adapter_run other h (VgaSetPalette 0 0 0 0 s) = ?a\<lparr>dac_index := 1, dac_pending := [], dac := (dac ?a)(0 := [0, 0, 0])\<rparr>"
    by (simp add: set_palette_entry)
  note step [OF this, of 0 7 37 1, simplified]
  note step [OF this, of 0 15 47 2, simplified]
  note step [OF this, of 63 54 0 3, simplified]
  note step [OF this, of 63 62 30 4, simplified]
  note step [OF this, of 40 40 40 7, simplified]
  note step [OF this, of 15 15 15 8, simplified]
  note step [OF this, of 0 48 0 10, simplified]
  note step [OF this, of 20 60 20 11, simplified]
  note step [OF this, of 63 63 63 15, simplified]
  note step [OF this, of 0 20 40 20, simplified]
  note step [OF this, of 0 25 50 21, simplified]
  note loaded = this
  show "gc (adapter_run other h (setup_palette s)) = gc (adapter_run other h s)"
    "\<forall>(i, rgb) \<in> set boot_palette. dac (adapter_run other h (setup_palette s)) i = rgb"
    unfolding setup_palette_def Let_def register_writers loaded by (simp_all add: boot_palette_def)
qed

subsection \<open>What the boot screen touches\<close>

definition boot_event :: "vga_event \<Rightarrow> bool" where
  "boot_event e = (case e of Port_Out p v \<Rightarrow> 0x3C0 \<le> p \<and> p \<le> 0x3DA | Port_In p \<Rightarrow> 0x3C0 \<le> p \<and> p \<le> 0x3DA
     | Mem_Store a v \<Rightarrow> unat (a - 0xA0000) < 64000)"

definition booting :: "'a vga_scheme \<Rightarrow> 'a vga_scheme \<Rightarrow> bool" where
  "booting s t \<longleftrightarrow> (\<exists>ps es. t = s\<lparr>port_out := port_out s @ ps, vga_io := vga_io s @ es\<rparr> \<and> list_all boot_event es)"

named_theorems booting_intros "operations that use the display's ports and memory only"

lemma booting_refl [booting_intros]: "booting s s"
  unfolding booting_def by (intro exI [of _ "[]"]) simp

lemma booting_trans: "booting s t \<Longrightarrow> booting t u \<Longrightarrow> booting s u"
proof -
  assume "booting s t" "booting t u"
  then obtain ps es ps' es' where "t = s\<lparr>port_out := port_out s @ ps, vga_io := vga_io s @ es\<rparr>" "list_all boot_event es"
    "u = t\<lparr>port_out := port_out t @ ps', vga_io := vga_io t @ es'\<rparr>" "list_all boot_event es'"
    unfolding booting_def by blast
  then show ?thesis unfolding booting_def by (intro exI [of _ "ps @ ps'"] exI [of _ "es @ es'"]) simp
qed

lemma booting_painted: "painted s t \<Longrightarrow> booting s t"
  unfolding painted_def booting_def
  by (elim exE, rename_tac es, rule_tac x = "[]" in exI, rule_tac x = es in exI) (auto simp: list_all_iff boot_event_def)

lemma booting_out: "0x3C0 \<le> p \<Longrightarrow> p \<le> 0x3DA \<Longrightarrow> booting s (vga_outb p v s)"
  unfolding booting_def
  by (intro exI [of _ "[(p, v)]"] exI [of _ "[Port_Out p v]"]) (simp add: vga_outb_def vga_event_def outb_def boot_event_def)

lemma booting_in: "0x3C0 \<le> p \<Longrightarrow> p \<le> 0x3DA \<Longrightarrow> booting s (vga_inb p s)"
  unfolding booting_def
  by (intro exI [of _ "[]"] exI [of _ "[Port_In p]"]) (simp add: vga_inb_def vga_event_def boot_event_def)

lemma booting_store: "unat (a - 0xA0000) < 64000 \<Longrightarrow> booting s (fb_store a v s)"
  by (rule booting_painted [OF painted_store])

lemma booting_fold: "(\<And>i s. i \<in> set is \<Longrightarrow> booting s (f i s)) \<Longrightarrow> booting s (fold f is s)"
proof (induction "is" arbitrary: s)
  case (Cons i "is")
  have "booting s (f i s)" by (rule Cons.prems) simp
  moreover have "booting (f i s) (fold f is (f i s))" by (rule Cons.IH) (simp add: Cons.prems)
  ultimately show ?case using booting_trans by simp
qed (simp add: booting_refl)

lemma booting_registers:
  "booting s (seq_w i v s)" "booting s (gc_w i v s)" "booting s (crtc_w i v s)" "booting s (dac_set i r g b s)"
  "booting s (snd (crtc_r c i s))" "booting s (load_ac regs s)"
proof -
  note out = booting_trans [OF _ booting_out]
  show "booting s (seq_w i v s)" "booting s (gc_w i v s)" "booting s (crtc_w i v s)"
    unfolding seq_w_def gc_w_def crtc_w_def by (intro out booting_refl; simp add: const_defs)+
  show "booting s (dac_set i r g b s)" unfolding dac_set_def Let_def by (intro out booting_refl; simp)
  show "booting s (snd (crtc_r c i s))"
    unfolding crtc_r_def by simp (intro booting_trans [OF _ booting_in] out booting_refl; simp add: const_defs)
  have step: "booting t (vga_outb VGA_AC_WRITE (regs ! k) (vga_outb VGA_AC_INDEX (of_nat k) t))" for k and t :: "'a vga_scheme"
    by (intro out booting_refl; simp add: const_defs)
  show "booting s (load_ac regs s)"
    unfolding load_ac_def Let_def
    by (intro out booting_trans [OF _ booting_in] booting_trans [OF _ booting_fold [OF step]] booting_refl; simp add: const_defs)
qed

lemmas after_register = booting_registers [THEN booting_trans [rotated]]

lemma booting_set_mode13h: "booting s (set_mode13h c s)"
proof -
  have "set_mode13h c s = load_ac ac13_regs (fold (\<lambda>i. gc_w (of_nat i) (gc13_regs ! i)) [0..<9]
      (fold (\<lambda>i. crtc_w (of_nat i) (crtc13_regs ! i)) [0..<25] (crtc_w 0x11 (c AND 0x7F) (snd (crtc_r c 0x11
      (seq_w 0x00 0x03 (seq_w 0x04 0x0E (seq_w 0x03 0x00 (seq_w 0x02 0x0F (seq_w 0x01 0x01 (seq_w 0x00 0x01
      (vga_outb VGA_MISC_WRITE 0x63 s))))))))))))"
    unfolding set_mode13h_def Let_def by (simp add: crtc_r_def)
  then show ?thesis
    by (simp only:) (intro after_register booting_trans [OF _ booting_fold] booting_refl booting_out; simp add: const_defs)
qed

lemma booting_setup_palette: "booting s (setup_palette s)"
  unfolding setup_palette_def Let_def by (intro after_register booting_refl)

lemma booting_load_font: "booting s (load_font_from_bios s)"
proof -
  let ?s1 = "seq_w 0x00 0x03 (seq_w 0x04 0x06 (seq_w 0x02 0x04 (seq_w 0x00 0x01 (gc_w 0x08 0xFF (gc_w 0x07 0x00
    (gc_w 0x06 0x04 (gc_w 0x05 0x00 (gc_w 0x04 0x02 s))))))))"
  have "booting ?s1 (fold (\<lambda>i. fb_store (0xA0000 + of_nat i) (font_byte i)) [0..<8192] ?s1)"
    by (rule booting_fold, rule booting_store) (simp add: unat_of_nat_u32)
  then have "booting ?s1 (load_font_from_bios s)"
    unfolding load_font_from_bios_def Let_def font_loop [unfolded Let_def] .
  moreover have "booting s ?s1" by (intro after_register booting_refl)
  ultimately show ?thesis using booting_trans by blast
qed

lemma booting_text: "booting s t \<Longrightarrow> booting (s\<lparr>vga_text := x\<rparr>) (t\<lparr>vga_text := x\<rparr>)"
  unfolding booting_def by (elim exE, rename_tac ps es, rule_tac x = ps in exI, rule_tac x = es in exI) simp

lemma booting_keeps_text: "booting s t \<Longrightarrow> vga_text t = vga_text s"
  unfolding booting_def by auto

lemma booting_set_mode3:
  "booting (s\<lparr>vga_text := fold (\<lambda>i fb. fb(i := 0x0720)) [0..<80 * 25] (vga_text s)\<rparr>) (set_mode3 c s)"
proof -
  let ?s1 = "seq_w 0x00 0x03 (seq_w 0x04 0x02 (seq_w 0x03 0x00 (seq_w 0x02 0x03 (seq_w 0x01 0x00 (seq_w 0x00 0x01
    (vga_outb VGA_MISC_WRITE 0x67 s))))))"
  let ?s3 = "seq_w 0x00 0x03 (seq_w 0x04 0x02 (seq_w 0x02 0x03 (seq_w 0x00 0x01 (load_font_from_bios ?s1))))"
  define u where "u = load_ac ac3_regs (fold (\<lambda>i. gc_w (of_nat i) (gc3_regs ! i)) [0..<9]
      (fold (\<lambda>i. crtc_w (of_nat i) (crtc3_regs ! i)) [0..<25] (crtc_w 0x11 (c AND 0x7F) (snd (crtc_r c 0x11 ?s3)))))"
  have mode: "set_mode3 c s = crtc_w 0x0E 0x00 (crtc_w 0x0F 0x00 (u\<lparr>vga_text := fold (\<lambda>i fb. fb(i := 0x0720)) [0..<80 * 25] (vga_text u)\<rparr>))"
    unfolding set_mode3_def Let_def u_def by (simp add: crtc_r_def)
  have u: "booting s u"
    unfolding u_def by (intro after_register booting_trans [OF _ booting_fold] booting_trans [OF _ booting_load_font]
        booting_out booting_refl; simp add: const_defs)
  show ?thesis unfolding mode booting_keeps_text [OF u]
    by (intro after_register booting_text [OF u])
qed

subsection \<open>Properties\<close>

lemma boot_picture_painted:
  "\<exists>t. painted (setup_palette (set_mode13h c s)) t \<and> KernelShowBootSplash c c' junk s = Some (set_mode3 c' t)"
proof -
  let ?s1 = "fb_clear 0 (setup_palette (set_mode13h c s))"
  obtain s2 where s2: "draw_logo ?s1 = Some s2" "painted ?s1 s2" using draw_logo_painted by blast
  note progress = painted_trans [OF _ draw_progress_painted] and filled = painted_trans [OF _ paints_painted [OF fill_rect_paints]]
  let ?s3 = "draw_progress (junk 0) 0 5 ''Iniciando...'' (fill_rect 0 158 VGA13_W (VGA13_H - 158) 1 s2)"
  let ?s4 = "fold (\<lambda>i s. draw_progress (junk (i + 1)) (int i + 1) 5 (splash_labels ! i) s) [0..<5] ?s3"
  let ?t = "draw_progress (junk 6) 5 5 ''Sistema listo!'' (fill_rect BAR_X BAR_Y BAR_W BAR_H 11 ?s4)"
  have "painted (setup_palette (set_mode13h c s)) s2"
    by (rule painted_trans [OF paints_painted [OF fb_clear_paints] s2(2)])
  then have "painted (setup_palette (set_mode13h c s)) ?t"
    by (intro progress filled painted_trans [OF _ painted_fold [OF draw_progress_painted]])
  moreover have "KernelShowBootSplash c c' junk s = Some (set_mode3 c' ?t)"
    unfolding KernelShowBootSplash_def Let_def delay_ms_id s2(1) Option.bind.bind_lunit ..
  ultimately show ?thesis by blast
qed

text \<open>
  C31: Whatever the boot loader left in the display adapter and whatever the ports and the stack hold,
  the boot screen returns, and leaves the adapter in text mode: every register of the tables holds the
  text mode's value, plane 2 holds the whole font, the 2000 cells of the text buffer are blank. It has
  used no ports but the display's and stored nowhere but in the 64000 bytes of the picture, and nothing
  else of the machine has changed. But it leaves its own colours behind: the colour table still holds
  the boot palette, so that red, the colour of a panic, shows as the light yellow of the logo.
\<close>

theorem boot_splash_leaves_text_mode:
  "\<exists>t. KernelShowBootSplash c c' junk s = Some t
    \<and> booting (s\<lparr>vga_text := (\<lambda>i. if i < 2000 then 0x0720 else vga_text s i)\<rparr>) t
    \<and> (let a = adapter_run other h t in
        map (\<lambda>i. seq a (of_nat i)) [0..<5] = [0x03, 0x00, 0x03, 0x00, 0x02]
      \<and> map (\<lambda>i. crtc a (of_nat i)) [0..<25] = crtc3_regs \<and> map (\<lambda>i. gc a (of_nat i)) [0..<9] = gc3_regs
      \<and> map (\<lambda>i. ac a (of_nat i)) [0..<21] = ac3_regs \<and> misc_output a = 0x67 \<and> ac_index a = 0x20
      \<and> (\<forall>i < 8192. planes a 2 (of_nat i) = font_byte i)
      \<and> (\<forall>(i, rgb) \<in> set boot_palette. dac a i = rgb))"
proof -
  let ?s1 = "setup_palette (set_mode13h c s)"
  obtain t where t: "painted ?s1 t" "KernelShowBootSplash c c' junk s = Some (set_mode3 c' t)"
    using boot_picture_painted by blast
  obtain f where "gc (adapter_run other h (set_mode13h c s)) = bank 9 gc13_regs f" using mode13h_gc by blast
  then have gc: "gc (adapter_run other h t) = bank 9 gc13_regs f" by (simp add: painted_adapter(1) [OF t(1)] setup_palette_adapter(1))
  have "gc (adapter_run other h t) 1 = 0" "gc (adapter_run other h t) 3 = 0" unfolding gc by (simp_all add: bank_def gc13_regs_def)
  from set_mode3_adapter [OF this, of c'] obtain a where a: "adapter_run other h (set_mode3 c' t) = a" "misc_output a = 0x67"
    "ac_index a = 0x20" "dac a = dac (adapter_run other h t)" "seq a = (seq (adapter_run other h t))(0 := 3, 1 := 0, 2 := 3, 3 := 0, 4 := 2)"
    "\<exists>f. crtc a = bank 25 crtc3_regs f" "\<exists>f. gc a = bank 9 gc3_regs f" "\<exists>f. ac a = bank 21 ac3_regs f"
    "\<forall>i < 8192. planes a 2 (of_nat i) = font_byte i" by blast
  have regs: "map (\<lambda>i. bank (length rs) rs f (of_nat i)) [0..<length rs] = rs" if "length rs \<le> 256" for rs f
    using that by (intro nth_equalityI) (simp_all add: bank_reg)
  have len: "length crtc3_regs = 25" "length gc3_regs = 9" "length ac3_regs = 21"
    by (simp_all add: crtc3_regs_def gc3_regs_def ac3_regs_def)
  have tables: "map (\<lambda>i. crtc a (of_nat i)) [0..<25] = crtc3_regs" "map (\<lambda>i. gc a (of_nat i)) [0..<9] = gc3_regs"
    "map (\<lambda>i. ac a (of_nat i)) [0..<21] = ac3_regs"
    using a(6-8) regs [of crtc3_regs] regs [of gc3_regs] regs [of ac3_regs] unfolding len by auto
  have seq: "map (\<lambda>i. seq a (of_nat i)) [0..<5] = [0x03, 0x00, 0x03, 0x00, 0x02]"
    unfolding a(5) by (simp add: upt_conv_Cons)
  have colours: "\<forall>(i, rgb) \<in> set boot_palette. dac a i = rgb"
    unfolding a(4) painted_adapter(2) [OF t(1)] by (rule setup_palette_adapter(2))
  have "booting s t"
    using booting_trans [OF booting_set_mode13h booting_trans [OF booting_setup_palette booting_painted [OF t(1)]]] .
  then have "booting (s\<lparr>vga_text := blank_screen 0x0720 (vga_text s)\<rparr>) (set_mode3 c' t)"
    using booting_trans [OF booting_text booting_set_mode3 [of t c', unfolded blank_screen_loop]]
      booting_keeps_text [OF \<open>booting s t\<close>] by metis
  then show ?thesis using t(2) a(1-3,9) tables seq colours by (auto simp: Let_def blank_screen_def)
qed

theorem boot_splash_leaves_text_mode_witness:
  "\<exists>t. KernelShowBootSplash 0x8E 0x0E (\<lambda>_. replicate 12 NUL) vga_on = Some t
    \<and> dac (adapter_run (\<lambda>a _ _. planes a) adapter_on t) 4 = [63, 62, 30]
    \<and> misc_output (adapter_run (\<lambda>a _ _. planes a) adapter_on t) = 0x67"
  using boot_splash_leaves_text_mode [of "0x8E" "0x0E" "\<lambda>_. replicate 12 NUL" vga_on
      "\<lambda>a _ _. planes a" adapter_on]
  by (auto simp: Let_def boot_palette_def)

end
