(* ===== verification/Kernel_Main.thy ===== *)
theory Kernel_Main
  imports Process_Start Syscall_Entry Boot_Splash
begin

unbundle bit_operations_syntax

section \<open>The kernel's start\<close>

text \<open>
  Models \<open>kernel/main.c\<close>, and \<open>serial_init\<close> of \<open>kernel/interrupt/idt.c\<close>: the order in which the
  kernel brings its components up, its checks, its panics, and the two processes it starts before it
  becomes the idle thread. \<open>kernel_main\<close> never returns: it ends in the idle loop, in a halted machine
  or, where a callee does not return, in \<open>Stuck\<close>.

  A \<open>boot_env\<close> holds what the linker and the hardware decide: the addresses of the image, the static
  tables and the routines, the byte each read of the CRTC gives, what the stack holds when the boot
  screen starts, and the bytes that the two dumps of display memory read. No interrupt comes before
  the idle loop, where the kernel turns them on.

  The lemmas follow the parts of the state through the start: \<open>proc_part\<close> and \<open>mem_part\<close> of the
  processes, and below \<open>fixed_part\<close> and \<open>core_part\<close> of the processor and the devices. Each step changes
  few of them, and the theorem \<open>kernel_boots\<close> composes what the component theories prove of the steps.
  The driver's life under the I/O manager is proved where it is loaded.
\<close>

subsection \<open>Data\<close>

record multiboot_info =
  mb_flags :: u32
  mem_lower :: u32
  mem_upper :: u32
  boot_device :: u32
  cmdline :: u32
  mods_count :: u32
  mods_addr :: u32
  mb_syms :: "u32 list"
  mmap_length :: u32
  mmap_addr :: u32

definition MULTIBOOT_BOOTLOADER_MAGIC :: u32 where "MULTIBOOT_BOOTLOADER_MAGIC = 0x2BADB002"

record boot_env =
  at_kernel_end :: u32
  at_gdt :: u32
  at_idt :: u32
  at_tss :: u32
  at_handlers :: handlers
  at_kernel_idle :: u32
  at_VgaDriverEntry :: u32
  at_VgaDriverUnload :: u32
  at_GuiMainLoop :: u32
  at_user_start :: u32
  at_user_end :: u32
  at_user_entry :: u32
  crtc_splash :: u8
  crtc_text :: u8
  crtc_graphics :: u8
  stack_junk :: "nat \<Rightarrow> string"
  shown_A0000 :: "nat \<Rightarrow> u8"
  shown_B8000 :: "nat \<Rightarrow> u8"

datatype 's boot = Idles 's | Halts 's | Stuck

text \<open>A phase of the start and, unless it stopped the machine, the next one.\<close>

fun next_phase :: "'s boot \<Rightarrow> ('s \<Rightarrow> 's boot) \<Rightarrow> 's boot" where
  "next_phase (Idles s) f = f s"
| "next_phase (Halts s) f = Halts s"
| "next_phase Stuck f = Stuck"

subsection \<open>Small operations\<close>

definition serial_init :: "'a intr_scheme \<Rightarrow> 'a intr_scheme" where
  "serial_init s =
     (let s = outb (0x3F8 + 1) 0x00 s;
          s = outb (0x3F8 + 3) 0x80 s;
          s = outb (0x3F8 + 0) 0x01 s;
          s = outb (0x3F8 + 1) 0x00 s;
          s = outb (0x3F8 + 3) 0x03 s;
          s = outb (0x3F8 + 2) 0xC7 s
      in outb (0x3F8 + 4) 0x0B s)"

definition kernel_halt :: "'a intr_scheme \<Rightarrow> 'a intr_scheme" where
  "kernel_halt s = s\<lparr>halted := True\<rparr>"

definition kernel_panic :: "string \<Rightarrow> 'a intr_scheme \<Rightarrow> 'a intr_scheme" where
  "kernel_panic message s =
     (let s = screen_set_color 15 4 s;
          s = screen_writeln ''KERNEL PANIC!'' s;
          s = screen_write ''Error: '' s;
          s = screen_writeln message s
      in kernel_halt s)"

text \<open>\<open>for (volatile int _delay = 0; _delay < 0xC000000; _delay++) nop;\<close>\<close>

definition nop_loop :: "'s \<Rightarrow> 's" where
  "nop_loop s = fold (\<lambda>i s. s) [0..<0xC000000] s"

text \<open>A page fault found in \<open>g_last_pf_addr\<close> is shown, and the machine stopped.\<close>

definition show_fault :: "string \<Rightarrow> 'a intr_scheme \<Rightarrow> 'a intr_scheme" where
  "show_fault label s =
     (let s = screen_set_color 12 0 s;
          s = screen_write label s;
          v = g_last_pf_addr s;
          s = screen_writeln (hex8 v) s
      in kernel_halt s)"

definition ok_line :: "string \<Rightarrow> 'a console_scheme \<Rightarrow> 'a console_scheme" where
  "ok_line str s = screen_writeln str (screen_set_color 10 0 s)"

text \<open>The four bytes \<open>buf[0]\<close> to \<open>buf[3]\<close> of one byte's dump, and the dump of sixteen.\<close>

definition dump_byte :: "u8 \<Rightarrow> string" where
  "dump_byte b = [CHR '' '', hex_digit (u8_to_u32 b) 4, hex_digit (u8_to_u32 b) 0, CHR '' '']"

definition dump_bytes :: "(nat \<Rightarrow> u8) \<Rightarrow> 'a console_scheme \<Rightarrow> 'a console_scheme" where
  "dump_bytes shown s = fold (\<lambda>i s. serial_puts (dump_byte (shown i)) s) [0..<16] s"

subsection \<open>The phases\<close>

text \<open>The heap, the serial line, the segments and gates, the boot screen, the first page fault.\<close>

definition start_machine :: "boot_env \<Rightarrow> 'a mouse_scheme \<Rightarrow> 'a mouse_scheme boot" where
  "start_machine e s =
     (let s = heap_init (at_kernel_end e) s;
          s = serial_init s;
          s = serial_puts (''[boot] serial init'' @ crlf) s;
          s = gdt_init (at_gdt e) s;
          s = idt_init (at_handlers e) (at_idt e) s
      in case KernelShowBootSplash (crtc_splash e) (crtc_text e) (stack_junk e) s of
           None \<Rightarrow> Stuck
         | Some s \<Rightarrow>
             (let s = nop_loop s;
                  s = screen_clear s;
                  s = screen_set_color 11 0 s
              in if g_last_pf_addr s \<noteq> 0 then Halts (show_fault ''EARLY PF @ 0x'' s) else Idles s))"

definition header_rule :: string where
  "header_rule = replicate 80 (CHR ''='')"

definition show_header :: "'a console_scheme \<Rightarrow> 'a console_scheme" where
  "show_header s =
     (let s = screen_writeln header_rule s;
          s = screen_set_color 14 0 s;
          s = screen_writeln ''                       UNIVERSIDAD DE GUAYAQUIL'' s;
          s = screen_writeln ''                    System Operative Edit v0.1'' s;
          s = screen_writeln ''                  Edicion Universidad de Guayaquil'' s;
          s = screen_writeln ''                         Based on ReactOS'' s;
          s = screen_set_color 11 0 s;
          s = screen_writeln header_rule s
      in screen_writeln [] s)"

text \<open>The test of the boot loader's magic number; a pointer that is null is \<open>None\<close>.\<close>

definition check_magic ::
  "u32 \<Rightarrow> multiboot_info option \<Rightarrow> (multiboot_info option \<Rightarrow> 'a mouse_scheme \<Rightarrow> 'a mouse_scheme boot)
    \<Rightarrow> 'a mouse_scheme \<Rightarrow> 'a mouse_scheme boot" where
  "check_magic magic mbi rest s =
     (if magic \<noteq> MULTIBOOT_BOOTLOADER_MAGIC then
        if magic \<noteq> 0x2BADB002 then Halts (kernel_panic ''Invalid multiboot magic number'' s)
        else rest None s
      else rest mbi s)"

definition memory_of :: "multiboot_info option \<Rightarrow> u32" where
  "memory_of mbi =
     (case mbi of
        Some m \<Rightarrow> (if mb_flags m AND 0x01 \<noteq> 0 then mem_upper m else 32768)
      | None \<Rightarrow> 32768)"

text \<open>The timer, the I/O system, memory, the task state, the idle process.\<close>

definition start_kernel :: "boot_env \<Rightarrow> multiboot_info option \<Rightarrow> 'a mouse_scheme \<Rightarrow> 'a mouse_scheme boot" where
  "start_kernel e mbi s =
     (let s = ok_line ''[OK] GDT/IDT inicializados'' s;
          s = hal_init s;
          s = ok_line ''[OK] HAL inicializado'' s;
          (status, s) = IoInitSystem s
      in if \<not> NT_SUCCESS status then Halts (kernel_panic ''Failed to initialize I/O system'' s)
         else let s = ok_line ''[OK] Sistema de I/O inicializado'' s;
                  s = pmm_init (memory_of mbi) s;
                  s = ok_line ''[OK] PMM inicializado'' s;
                  s = vmm_init s;
                  s = ok_line ''[OK] VMM + paginacion activada'' s;
                  s = tss_init (at_tss e) s;
                  s = ok_line ''[OK] TSS inicializado (selector 0x28)'' s;
                  s = proc_init (at_kernel_idle e) s;
                  s = (case proc_current_thread s of
                         Some idle \<Rightarrow> tss_set_esp0 (kernel_stack_top (g_threads s ! idle)) s
                       | None \<Rightarrow> s)
              in Idles (ok_line ''[OK] Gestor de procesos inicializado'' s))"

definition show_progress :: "'a console_scheme \<Rightarrow> 'a console_scheme" where
  "show_progress s =
     (let s = screen_set_color 14 0 s;
          s = screen_writeln [] s;
          s = screen_write ''    Iniciando modo grafico  ['' s;
          s = screen_set_color 10 0 s;
          s = screen_write ''####################'' s;
          s = screen_set_color 14 0 s;
          s = screen_writeln ''] 100%'' s;
          s = screen_set_color 15 0 s;
          s = screen_writeln [] s;
          s = screen_writeln ''    Cargando interfaz grafica...'' s
      in screen_writeln ''    (La pantalla cambiara a modo grafico en un momento)'' s)"

text \<open>The display, the late page fault, the mouse, the VGA driver, the dumps of display memory.\<close>

definition start_devices :: "boot_env \<Rightarrow> 'a mouse_scheme \<Rightarrow> 'a mouse_scheme boot" where
  "start_devices e s =
     (let (status, s) = HalInitializeDisplay s in
      if \<not> NT_SUCCESS status then Halts (kernel_panic ''Failed to initialize display'' s)
      else if g_last_pf_addr s \<noteq> 0 then Halts (show_fault ''LATE PF @ 0x'' s)
      else let s = MouseInit s;
               s = show_progress s;
               s = nop_loop s;
               driver_name = \<lparr>us_Length = 0, us_MaximumLength = 0, us_Buffer = None\<rparr>
           in case IoCreateDriver (vga_init_at (crtc_graphics e) (at_VgaDriverEntry e) (at_VgaDriverUnload e))
                     (Some driver_name) (at_VgaDriverEntry e) s of
                None \<Rightarrow> Stuck
              | Some (status, s) \<Rightarrow>
                  if \<not> NT_SUCCESS status then Halts (kernel_panic ''Failed to load VGA driver'' s)
                  else let s = serial_puts ''[VGA] buffer @A0000:'' s;
                           s = dump_bytes (shown_A0000 e) s;
                           s = serial_puts (crlf @ ''[VGA] buffer @B8000:'') s;
                           s = dump_bytes (shown_B8000 e) s
                       in Idles (serial_puts crlf s))"

text \<open>The two processes, whose creation is not checked, and the scheduler.\<close>

definition start_processes :: "boot_env \<Rightarrow> 'a mouse_scheme \<Rightarrow> 'a mouse_scheme" where
  "start_processes e s =
     (let s = snd (proc_create_kernel ''gui_server'' (at_GuiMainLoop e) s);
          s = snd (proc_create_user ''gui_user'' (at_user_start e) (at_user_end e - at_user_start e) (at_user_entry e) s);
          s = serial_puts (''[boot] scheduler init'' @ crlf) s
      in scheduler_init s)"

definition kernel_main :: "boot_env \<Rightarrow> u32 \<Rightarrow> multiboot_info option \<Rightarrow> 'a mouse_scheme \<Rightarrow> 'a mouse_scheme boot" where
  "kernel_main e magic mbi s =
     next_phase (start_machine e s) (\<lambda>s.
       check_magic magic mbi (\<lambda>mbi s.
         next_phase (start_kernel e mbi s) (\<lambda>s.
           next_phase (start_devices e s) (\<lambda>s.
             Idles (start_processes e s)))) (show_header s))"

subsection \<open>The parts of the state\<close>

text \<open>
  What the operations on processes and memory leave alone: the segments and gates, the processor's
  control registers, the heap's bounds, and everything of the I/O manager and the drivers.
\<close>

definition rest_part where
  "rest_part s = (gdt s, gdtr s, idt s, idtr s, task_register s, g_tss s, g_last_pf_addr s, halted s,
     heap_current s, heap_end s, proc.more s)"

definition fixed_part where
  "fixed_part s = (cr0 s, cr3 s, rest_part s)"

lemma fixed_rest: "fixed_part s = fixed_part t \<Longrightarrow> rest_part s = rest_part t"
  by (simp add: fixed_part_def)

lemma fixed_part_fold: "(\<And>x s. fixed_part (f x s) = fixed_part s) \<Longrightarrow> fixed_part (fold f xs s) = fixed_part s"
  by (induction xs arbitrary: s) simp_all

lemma fixed_part_memory [simp]:
  "fixed_part (snd (pmm_alloc_frame s)) = fixed_part s" "fixed_part (s\<lparr>phys_mem := m\<rparr>) = fixed_part s"
  "fixed_part (set_entry t i v s) = fixed_part s" "fixed_part (clear_table t s) = fixed_part s"
  "fixed_part (tlb_flush v s) = fixed_part s" "fixed_part (pmm_init kb s) = fixed_part s"
  by (simp_all add: fixed_part_def rest_part_def pmm_alloc_frame_def set_entry_def clear_table_def tlb_flush_def
      pmm_init_def Let_def split: option.split)

lemma fixed_part_map_page [simp]: "fixed_part (vmm_map_page d v p f s) = fixed_part s"
  by (auto simp: vmm_map_page_def get_or_create_table_def Let_def split_beta)

lemma fixed_part_clone [simp]: "fixed_part (clone_pde d i s) = fixed_part s"
  by (auto simp: clone_pde_def Let_def split_beta)

lemma fixed_part_create_directory [simp]: "fixed_part (snd (vmm_create_directory s)) = fixed_part s"
  by (auto simp: vmm_create_directory_def Let_def split_beta fixed_part_fold)

lemma rest_part_vmm_init [simp]: "rest_part (vmm_init s) = rest_part s"
proof -
  have "fixed_part (identity_map d n t) = fixed_part t" for d n and t :: "'a proc_scheme"
    by (simp add: identity_map_def fixed_part_fold)
  then have "rest_part (identity_map d n t) = rest_part t" for d n and t :: "'a proc_scheme" by (rule fixed_rest)
  moreover have "rest_part (write_cr3 d t) = rest_part t" "rest_part (enable_paging t) = rest_part t"
    "rest_part (t\<lparr>g_kernel_dir := d\<rparr>) = rest_part t" "rest_part (clear_table d t) = rest_part t"
    "rest_part (snd (pmm_alloc_frame t)) = rest_part t" for d and t :: "'a proc_scheme"
    by (simp_all add: write_cr3_def enable_paging_def rest_part_def clear_table_def pmm_alloc_frame_def split: option.split)
  ultimately show ?thesis by (simp add: vmm_init_def Let_def split_beta)
qed

lemma fixed_part_console [simp]:
  "fixed_part (screen_putchar c s) = fixed_part s" "fixed_part (serial_puts str s) = fixed_part s"
  "fixed_part (screen_set_color f b s) = fixed_part s"
  by (simp_all add: fixed_part_def rest_part_def screen_putchar_def screen_scroll_def serial_puts_eq
      screen_set_color_def Let_def)

lemma fixed_part_write [simp]:
  "fixed_part (screen_write str s) = fixed_part s" "fixed_part (screen_writeln str s) = fixed_part s"
proof -
  have "fixed_part (screen_write str t) = fixed_part t" for t by (induction str arbitrary: t) simp_all
  then show "fixed_part (screen_write str s) = fixed_part s" "fixed_part (screen_writeln str s) = fixed_part s"
    by (simp_all add: screen_writeln_def)
qed

lemma fixed_part_print_image [simp]: "fixed_part (print_image a b c s) = fixed_part s"
proof -
  have "fixed_part (print_hex_digits v t) = fixed_part t" for v and t :: "'a proc_scheme"
    unfolding print_hex_digits_def Let_def
    by (simp add: fixed_part_fold del: screen_write.simps serial_puts.simps)
  then show ?thesis by (simp add: print_image_def print_both_def del: screen_write.simps serial_puts.simps)
qed

lemma fixed_part_tables [simp]:
  "fixed_part (upd_thread i f s) = fixed_part s" "fixed_part (upd_process i g s) = fixed_part s"
  "fixed_part (snd (alloc_process s)) = fixed_part s" "fixed_part (snd (alloc_thread s)) = fixed_part s"
  "fixed_part (scheduler_add_thread t s) = fixed_part s" "fixed_part (s\<lparr>g_current_thread := x\<rparr>) = fixed_part s"
  by (auto simp: fixed_part_def rest_part_def upd_thread_def upd_process_def alloc_process_def alloc_thread_def
      take_thread_slot_def scheduler_add_thread_def queue_insert_def set_next_def Let_def split: option.split)

lemma fixed_part_kernel_stack [simp]: "fixed_part (give_kernel_stack t f s) = fixed_part s"
  by (simp add: give_kernel_stack_def Let_def split_beta)

lemma fixed_part_map_stack [simp]: "fixed_part (snd (map_stack d v p n s)) = fixed_part s"
  by (induction d v p n s rule: map_stack.induct) (auto simp: Let_def split_beta)

lemma fixed_part_proc_init [simp]: "fixed_part (proc_init entry s) = fixed_part s"
  unfolding proc_init_unfold Let_def by simp (simp add: fixed_part_def rest_part_def idle_slots_def)

lemma fixed_part_create_kernel [simp]: "fixed_part (snd (proc_create_kernel name entry s)) = fixed_part s"
proof -
  have p: "alloc_process s = (r, t) \<Longrightarrow> fixed_part t = fixed_part s" for r t and s :: "'a proc_scheme"
    using fixed_part_tables(3) [of s] by simp
  have t: "alloc_thread s = (r, t) \<Longrightarrow> fixed_part t = fixed_part s" for r t and s :: "'a proc_scheme"
    using fixed_part_tables(4) [of s] by simp
  show ?thesis by (auto simp: proc_create_kernel_def Let_def dest!: p t split: prod.split option.split)
qed

lemma fixed_part_create_user [simp]: "fixed_part (snd (proc_create_user name phys sz entry s)) = fixed_part s"
proof -
  have p: "alloc_process s = (r, t) \<Longrightarrow> fixed_part t = fixed_part s" for r t and s :: "'a proc_scheme"
    using fixed_part_tables(3) [of s] by simp
  have t: "alloc_thread s = (r, t) \<Longrightarrow> fixed_part t = fixed_part s" for r t and s :: "'a proc_scheme"
    using fixed_part_tables(4) [of s] by simp
  have d: "vmm_create_directory s = (r, t) \<Longrightarrow> fixed_part t = fixed_part s" for r t and s :: "'a proc_scheme"
    using fixed_part_create_directory [of s] by simp
  have m: "map_stack d v k n s = (r, t) \<Longrightarrow> fixed_part t = fixed_part s" for d v k n r t and s :: "'a proc_scheme"
    using fixed_part_map_stack [of d v k n s] by simp
  have c: "fixed_part (map_code d v p n s) = fixed_part s" "fixed_part (map_thunk d s) = fixed_part s" for d v p n and s :: "'a proc_scheme"
    by (simp_all add: map_code_def map_thunk_def Let_def fixed_part_fold)
  show ?thesis
    by (auto simp: proc_create_user_def Let_def c dest!: p t d m split: prod.split option.split)
qed

lemma fixed_part_scheduler_init [simp]: "fixed_part (scheduler_init s) = fixed_part s"
  by (auto simp: scheduler_init_def fixed_part_def rest_part_def queue_insert_def set_next_def upd_thread_def Let_def
      split: option.split)

lemma rest_part_fields:
  fixes s t :: "'a vga_scheme"
  assumes "rest_part s = rest_part t"
  shows "gdt s = gdt t" "gdtr s = gdtr t" "idt s = idt t" "idtr s = idtr t" "task_register s = task_register t"
    "g_tss s = g_tss t" "g_last_pf_addr s = g_last_pf_addr t" "halted s = halted t"
    "heap_current s = heap_current t" "heap_end s = heap_end t" "io_drivers s = io_drivers t"
    "io_devices s = io_devices t" "io_exts s = io_exts t" "g_DriverList s = g_DriverList t"
    "g_DriverCount s = g_DriverCount t" "g_IoInitialized s = g_IoInitialized t" "g_VgaDevice s = g_VgaDevice t"
proof -
  have "proc.more s = proc.more t" using assms by (simp add: rest_part_def)
  then show "io_drivers s = io_drivers t" "io_devices s = io_devices t" "io_exts s = io_exts t"
    "g_DriverList s = g_DriverList t" "g_DriverCount s = g_DriverCount t" "g_IoInitialized s = g_IoInitialized t"
    "g_VgaDevice s = g_VgaDevice t"
    by (cases s; cases t; simp)+
qed (use assms in \<open>simp_all add: rest_part_def\<close>)

subsection \<open>The first phase\<close>

lemma nop_loop_id [simp]: "nop_loop s = s"
  unfolding nop_loop_def by (rule fold_keeps [where P = id, simplified]) simp

definition heap_start :: "u32 \<Rightarrow> u32" where
  "heap_start kernel_end = heap_current (heap_init kernel_end kmem_reset)"

lemma heap_init_bounds: "heap_init k s = s\<lparr>heap_current := heap_start k, heap_end := heap_start k + HEAP_SIZE\<rparr>"
  by (simp add: heap_start_def heap_init_def Let_def)

lemma idt_init_frame:
  "idt_init h a s = s\<lparr>idt := idt (idt_init h a s), idtp_limit := 2047, idtp_base := a, idtr := (2047, a),
     port_out := port_out (idt_init h a s)\<rparr>"
  by (cases s) (simp add: idt_init_def Let_def outb_def pic_remap_def io_wait_def idt_fill idt_set_gate_def)

lemma gdt_init_frame: "gdt_init a s = s\<lparr>gdt := gdt (gdt_init a s), gdtp_limit := 47, gdtp_base := a, gdtr := (47, a),
    seg_ds := 0x10, seg_es := 0x10, seg_fs := 0x10, seg_gs := 0x10, seg_ss := 0x10, seg_cs := 0x08\<rparr>"
  by (cases s) (simp add: gdt_init_def gdt_set_gate_def Let_def)

lemma clear_parts [simp]:
  "proc_part (screen_set_color f b s) = proc_part s" "mem_part (screen_set_color f b s) = mem_part s"
  "proc_part (screen_clear s) = proc_part s" "mem_part (screen_clear s) = mem_part s"
  "fixed_part (screen_clear s) = fixed_part s"
  by (simp_all add: proc_part_def mem_part_def fixed_part_def rest_part_def screen_set_color_def screen_clear_def Let_def)

lemma boot_splash_returns:
  obtains t where "KernelShowBootSplash c c' junk s = Some t"
    "booting (s\<lparr>vga_text := blank_screen 0x0720 (vga_text s)\<rparr>) t"
proof -
  obtain t where t: "painted (setup_palette (set_mode13h c s)) t" "KernelShowBootSplash c c' junk s = Some (set_mode3 c' t)"
    using boot_picture_painted by blast
  have b: "booting s t"
    using booting_trans [OF booting_set_mode13h booting_trans [OF booting_setup_palette booting_painted [OF t(1)]]] .
  have "booting (s\<lparr>vga_text := blank_screen 0x0720 (vga_text s)\<rparr>) (set_mode3 c' t)"
    using booting_trans [OF booting_text [OF b] booting_set_mode3 [of t c', unfolded blank_screen_loop]]
      booting_keeps_text [OF b] by metis
  with t(2) show ?thesis by (rule that)
qed

lemma start_machine_result:
  fixes s :: "'a mouse_scheme"
  assumes "g_last_pf_addr s = 0" "length (gdt s) = 6" "length (idt s) = 256"
  obtains t where "start_machine e s = Idles t" "proc_part t = proc_part s" "mem_part t = mem_part s"
    "heap_current t = heap_start (at_kernel_end e)" "heap_end t = heap_start (at_kernel_end e) + HEAP_SIZE"
    "gdt t = gdt (gdt_init (at_gdt e) s)" "gdtr t = (47, at_gdt e)" "idtr t = (2047, at_idt e)"
    "\<forall>i < 256. idt t ! i = idt_entry_of (handler_of (at_handlers e) i) 0x08 (if i = 0x30 then 0xEE else 0x8E)"
    "g_last_pf_addr t = 0" "halted t = halted s" "g_IoInitialized t = g_IoInitialized s" "g_VgaDevice t = g_VgaDevice s"
    "screen_row t = 0" "screen_col t = 0" "screen_color t = 11"
proof -
  define s1 where "s1 = serial_puts (''[boot] serial init'' @ crlf) (serial_init (heap_init (at_kernel_end e) s))"
  define s2 where "s2 = gdt_init (at_gdt e) s1"
  define s3 where "s3 = idt_init (at_handlers e) (at_idt e) s2"
  have "s1 = s\<lparr>heap_current := heap_start (at_kernel_end e), heap_end := heap_start (at_kernel_end e) + HEAP_SIZE,
      serial_out := serial_out s1, port_out := port_out s1\<rparr>"
    by (cases s) (simp add: s1_def heap_init_bounds serial_init_def outb_def serial_puts_eq Let_def)
  then obtain so po where s1: "s1 = s\<lparr>heap_current := heap_start (at_kernel_end e),
      heap_end := heap_start (at_kernel_end e) + HEAP_SIZE, serial_out := so, port_out := po\<rparr>" by blast
  have s2: "s2 = s1\<lparr>gdt := gdt s2, gdtp_limit := 47, gdtp_base := at_gdt e, gdtr := (47, at_gdt e),
      seg_ds := 0x10, seg_es := 0x10, seg_fs := 0x10, seg_gs := 0x10, seg_ss := 0x10, seg_cs := 0x08\<rparr>"
    unfolding s2_def by (rule gdt_init_frame)
  have s3: "s3 = s2\<lparr>idt := idt s3, idtp_limit := 2047, idtp_base := at_idt e, idtr := (2047, at_idt e),
      port_out := port_out s3\<rparr>"
    unfolding s3_def by (rule idt_init_frame)
  have g: "gdt s2 = gdt (gdt_init (at_gdt e) s)"
    using gdt_init_table [of s1 "at_gdt e"] gdt_init_table [of s "at_gdt e"] assms(2) by (simp add: s2_def s1)
  have i: "idt s3 ! i = idt_entry_of (handler_of (at_handlers e) i) 0x08 (if i = 0x30 then 0xEE else 0x8E)" if "i < 256" for i
  proof -
    have "idt s2 = idt s" by (subst s2) (simp add: s1)
    then show ?thesis unfolding s3_def using idt_init_gate [of s2 i "at_handlers e" "at_idt e"] assms(3) that by simp
  qed
  obtain t0 where t0: "KernelShowBootSplash (crtc_splash e) (crtc_text e) (stack_junk e) s3 = Some t0"
    "booting (s3\<lparr>vga_text := blank_screen 0x0720 (vga_text s3)\<rparr>) t0"
    by (rule boot_splash_returns)
  then obtain ps' es where t0': "t0 = s3\<lparr>vga_text := blank_screen 0x0720 (vga_text s3), port_out := ps', vga_io := es\<rparr>"
    by (auto simp: booting_def)
  define t where "t = screen_set_color 11 0 (screen_clear t0)"
  have parts: "fixed_part t = fixed_part t0" "proc_part t = proc_part t0" "mem_part t = mem_part t0" by (simp_all add: t_def)
  note r = rest_part_fields [OF fixed_rest [OF parts(1)]]
  have t0_fields: "proc_part t0 = proc_part s" "mem_part t0 = mem_part s" "heap_current t0 = heap_start (at_kernel_end e)"
    "heap_end t0 = heap_start (at_kernel_end e) + HEAP_SIZE" "gdt t0 = gdt s2" "gdtr t0 = (47, at_gdt e)"
    "idtr t0 = (2047, at_idt e)" "idt t0 = idt s3" "g_last_pf_addr t0 = 0" "halted t0 = halted s"
    "g_IoInitialized t0 = g_IoInitialized s" "g_VgaDevice t0 = g_VgaDevice s"
    using assms(1) unfolding t0' by (subst s3, subst s2, simp add: s1 proc_part_def mem_part_def)+
  have "start_machine e s = Idles t"
    using r(7) t0_fields(9)
    unfolding start_machine_def Let_def s1_def [symmetric] s2_def [symmetric] s3_def [symmetric] t0(1)
    by (simp add: t_def)
  moreover have "screen_row t = 0" "screen_col t = 0" "screen_color t = 11"
    by (simp_all add: t_def screen_clear_eq screen_set_color_def vga_entry_color_def)
  ultimately show ?thesis
    using that [of t] r t0_fields g i parts by simp
qed

subsection \<open>The second phase\<close>

lemma line_parts [simp]:
  "proc_part (ok_line str s) = proc_part s" "mem_part (ok_line str s) = mem_part s" "fixed_part (ok_line str s) = fixed_part s"
  "proc_part (show_header s) = proc_part s" "mem_part (show_header s) = mem_part s" "fixed_part (show_header s) = fixed_part s"
  "proc_part (show_progress s) = proc_part s" "mem_part (show_progress s) = mem_part s" "fixed_part (show_progress s) = fixed_part s"
  by (simp_all add: ok_line_def show_header_def show_progress_def Let_def del: screen_write.simps)

lemma small_parts [simp]:
  "proc_part (hal_init s) = proc_part s" "mem_part (hal_init s) = mem_part s" "fixed_part (hal_init s) = fixed_part s"
  "proc_part (tss_init a s) = proc_part s" "mem_part (tss_init a s) = mem_part s"
  "proc_part (tss_set_esp0 v s) = proc_part s" "mem_part (tss_set_esp0 v s) = mem_part s"
  by (simp_all add: hal_init_def pit_set_frequency_def outb_def tss_init_def gdt_install_tss_def gdt_set_gate_def
      tss_set_esp0_def proc_part_def mem_part_def fixed_part_def rest_part_def Let_def)

lemma pde_at_outside:
  assumes ok: "dir_ok m F d" and out: "same_outside P m m'" and P: "P \<subseteq> F"
  shows "pde_at m' d i = pde_at m d i"
proof (cases "unat i < 1024")
  case True
  have "page d" "d \<notin> P" using ok P by (auto simp: dir_ok_def)
  from read_entry_outside [OF out this(1) True this(2)] show ?thesis by (simp add: pde_at_def)
qed (simp add: pde_at_def)

text \<open>The memory after paging is on and the idle process has its stack.\<close>

lemma memory_comes_up:
  fixes s u :: "'a proc_scheme" and v :: "'b proc_scheme" and entry w :: u32
  assumes wf: "pmm_wf s" and room: "35 \<le> unat (pmm_end_frame kb)"
    and u: "mem_part u = mem_part (pmm_init kb s)"
    and v: "mem_part v = mem_part (vmm_init u)" "cr0 v = cr0 (vmm_init u)" "cr3 v = cr3 (vmm_init u)"
  defines "t \<equiv> proc_init entry v"
  shows "pmm_wf v" "dir_ok (phys_mem v) (free_addrs v) (g_kernel_dir v)" "2 \<le> card (free_addrs v)"
    "cr3 v = g_kernel_dir v" "bit (cr0 v) 31"
    "card (free_addrs t) = unat (pmm_end_frame kb) - 34"
    "card {i. pde_at (phys_mem t) (g_kernel_dir t) i} \<le> 32"
    "translate (phys_mem t) (g_kernel_dir t) w = (if unat w < 0x08000000 then Some w else None)"
proof -
  note f = pmm_init_free_set [OF wf, of kb] and mu = mem_part_fields [OF u] and mv = mem_part_fields [OF v(1)]
  have wfu: "pmm_wf u" using f mu by simp
  have "inj_on frame_addr {0..<unat (pmm_end_frame kb)}"
    using pmm_end_frame_le [of kb] by (intro inj_onI) (simp add: frame_addr_inject const_defs)
  then have c: "card (free_addrs u) = unat (pmm_end_frame kb)" using f mu by (simp add: free_addrs_def card_image)
  define d where "d = g_kernel_dir (vmm_init u)"
  have I: "identity_inv d (unat (pmm_end_frame kb) - 1) 32768 (vmm_init u)" "cr3 (vmm_init u) = d" "bit (cr0 (vmm_init u)) 31"
    using vmm_init_inv [OF wfu] c room by (simp_all add: d_def)
  have d: "g_kernel_dir v = d" using mv by (simp add: d_def)
  have "card (free_addrs v) + 32 = unat (pmm_end_frame kb) - 1" using I(1) mv by (simp add: identity_inv_def)
  then have free: "card (free_addrs v) = unat (pmm_end_frame kb) - 33" using room by linarith
  show base: "pmm_wf v" "dir_ok (phys_mem v) (free_addrs v) (g_kernel_dir v)" "2 \<le> card (free_addrs v)"
    using I(1) mv free room unfolding d by (simp_all add: identity_inv_def)
  show "cr3 v = g_kernel_dir v" "bit (cr0 v) 31" using I v d by simp_all
  note P = proc_init_facts [OF base, of entry, folded t_def]
  have kd: "g_kernel_dir t = d" using P(4) d by simp
  show "card (free_addrs t) = unat (pmm_end_frame kb) - 34" using P(4) free pmm_alloc.finite_free [of v] by simp
  have tr: "translate (phys_mem (vmm_init u)) d x = (if unat x < 4096 * 32768 then Some x else None)" for x
    using I(1) by (simp add: identity_inv_def)
  show "translate (phys_mem t) (g_kernel_dir t) w = (if unat w < 0x08000000 then Some w else None)"
    using tr [of w] P(5) [of w] mv d unfolding kd by (simp add: translate_def)
  have out: "same_outside {fst (pmm_alloc_frame v)} (phys_mem v) (phys_mem t)"
    using P(6) push_all_outside by (simp add: setup_kernel_stack_def)
  have "pde_at (phys_mem t) d i = pde_at (phys_mem v) d i" for i
    using pde_at_outside [OF base(2) out] P(4) d by simp
  then show "card {i. pde_at (phys_mem t) (g_kernel_dir t) i} \<le> 32"
    unfolding kd using identity_tables [OF I(1)] mv by simp
qed

lemma proc_init_queue [simp]:
  "sched_queue_head (proc_init entry s) = sched_queue_head s" "sched_queue_tail (proc_init entry s) = sched_queue_tail s"
proof -
  have "proc_part (snd (pmm_alloc_frame t)) = proc_part t" for t :: "'a proc_scheme" by simp
  from proc_part_fields [OF this]
  have q: "sched_queue_head (snd (pmm_alloc_frame t)) = sched_queue_head t"
    "sched_queue_tail (snd (pmm_alloc_frame t)) = sched_queue_tail t" for t :: "'a proc_scheme" by simp_all
  show "sched_queue_head (proc_init entry s) = sched_queue_head s" "sched_queue_tail (proc_init entry s) = sched_queue_tail s"
    by (simp_all add: proc_init_unfold Let_def give_kernel_stack_def split_beta upd_thread_def upd_process_def q)
      (simp_all add: idle_slots_def)
qed

lemma idle_ids:
  assumes "g_processes s = idle_process r # replicate 15 process_zero" "g_threads s = idle_thread 1 k # replicate 31 thread_zero"
    and "g_next_pid s = 1" "g_next_tid s = 2"
  shows "ids_ok s"
proof -
  have ps: "map (\<lambda>p. (active p, pid p)) (g_processes s) = (True, 0) # replicate 15 (False, 0)"
    unfolding assms by (simp add: idle_process_def process_zero_def)
  have ts: "map tid (g_threads s) = 1 # replicate 31 0" unfolding assms by (simp add: idle_thread_def thread_zero_def)
  have cell: "i \<le> n \<Longrightarrow> (x # replicate n y) ! i = (if i = 0 then x else y)" for i n and x y :: 'z by (simp add: nth_Cons')
  show ?thesis unfolding ids_ok_def ids_view_def ps ts assms(3,4) by (simp add: cell)
qed

text \<open>Paging on over the identity map with \<open>n\<close> frames left; the idle process and thread, alone.\<close>

definition memory_up :: "nat \<Rightarrow> 'a vmm_scheme \<Rightarrow> bool" where
  "memory_up n s \<longleftrightarrow> pmm_wf s \<and> dir_ok (phys_mem s) (free_addrs s) (g_kernel_dir s) \<and> card (free_addrs s) = n
     \<and> card {i. pde_at (phys_mem s) (g_kernel_dir s) i} \<le> 32
     \<and> (\<forall>w. translate (phys_mem s) (g_kernel_dir s) w = (if unat w < 0x08000000 then Some w else None))
     \<and> cr3 s = g_kernel_dir s \<and> bit (cr0 s) 31"

definition idle_up :: "'a proc_scheme \<Rightarrow> bool" where
  "idle_up s \<longleftrightarrow> g_processes s = idle_process s # replicate 15 process_zero
     \<and> (\<exists>k. g_threads s = idle_thread 1 k # replicate 31 thread_zero)
     \<and> g_current_thread s = Some 0 \<and> g_next_pid s = 1 \<and> g_next_tid s = 2
     \<and> sched_queue_head s = None \<and> sched_queue_tail s = None"

lemma up_cong:
  assumes "mem_part s = mem_part t" "proc_part s = proc_part t"
  shows "cr0 s = cr0 t \<Longrightarrow> cr3 s = cr3 t \<Longrightarrow> memory_up n s = memory_up n t" and "idle_up s = idle_up t"
  using mem_part_fields [OF assms(1)] proc_part_fields [OF assms(2)]
  by (simp_all add: memory_up_def idle_up_def idle_process_def)

lemma start_kernel_result:
  fixes s :: "'a mouse_scheme"
  assumes wf: "pmm_wf s" and room: "35 \<le> unat (pmm_end_frame (memory_of mbi))"
    and reset: "g_next_tid s = 1" "sched_queue_head s = None" "sched_queue_tail s = None" "\<not> g_IoInitialized s"
  obtains t where "start_kernel e mbi s = Idles t"
    "memory_up (unat (pmm_end_frame (memory_of mbi)) - 34) t" "idle_up t"
    "gdt t = (gdt s)[5 := gdt_entry_of (at_tss e) 103 0x89 0x40]" "gdtr t = gdtr s" "idt t = idt s" "idtr t = idtr s"
    "task_register t = 0x28" "g_tss t = tss_zero\<lparr>tss_ss0 := 0x10, tss_esp0 := kernel_stack_top (g_threads t ! 0)\<rparr>"
    "heap_current t = heap_current s" "heap_end t = heap_end s" "g_DriverList t = 0" "g_DriverCount t = 0"
    "g_VgaDevice t = g_VgaDevice s" "g_last_pf_addr t = g_last_pf_addr s" "halted t = halted s"
proof -
  let ?kb = "memory_of mbi"
  define s1 where "s1 = ok_line ''[OK] HAL inicializado'' (hal_init (ok_line ''[OK] GDT/IDT inicializados'' s))"
  have p1: "proc_part s1 = proc_part s" "mem_part s1 = mem_part s" "fixed_part s1 = fixed_part s" by (simp_all add: s1_def)
  note r1 = rest_part_fields [OF fixed_rest [OF p1(3)]]
  define s2 where "s2 = s1\<lparr>g_DriverList := 0, g_DriverCount := 0, g_IoInitialized := True\<rparr>"
  have io: "IoInitSystem s1 = (STATUS_SUCCESS, s2)" using reset(4) r1(16) by (simp add: IoInitSystem_def s2_def)
  define u where "u = ok_line ''[OK] PMM inicializado'' (pmm_init ?kb (ok_line ''[OK] Sistema de I/O inicializado'' s2))"
  define s3 where "s3 = ok_line ''[OK] VMM + paginacion activada'' (vmm_init u)"
  define s4 where "s4 = tss_init (at_tss e) s3"
  define v where "v = ok_line ''[OK] TSS inicializado (selector 0x28)'' s4"
  define s5 where "s5 = proc_init (at_kernel_idle e) v"
  define s6 where "s6 = (case proc_current_thread s5 of
      Some idle \<Rightarrow> tss_set_esp0 (kernel_stack_top (g_threads s5 ! idle)) s5 | None \<Rightarrow> s5)"
  define t where "t = ok_line ''[OK] Gestor de procesos inicializado'' s6"
  have run: "start_kernel e mbi s = Idles t"
    unfolding start_kernel_def Let_def s1_def [symmetric] io prod.case u_def [symmetric] s3_def [symmetric] s4_def [symmetric]
      v_def [symmetric] s5_def [symmetric] s6_def [symmetric] t_def [symmetric] by simp
  have two: "mem_part s2 = mem_part s1" "proc_part s2 = proc_part s1" by (simp_all add: s2_def mem_part_def proc_part_def)
  have cong: "mem_part (pmm_init ?kb x) = mem_part (pmm_init ?kb y)" if "mem_part x = mem_part y" for x y :: "'a mouse_scheme"
    using that by (simp add: mem_part_def pmm_init_def Let_def)
  have "mem_part u = mem_part (pmm_init ?kb (ok_line ''[OK] Sistema de I/O inicializado'' s2))" by (simp add: u_def)
  also have "\<dots> = mem_part (pmm_init ?kb s)" by (rule cong) (simp only: line_parts two p1)
  finally have mu: "mem_part u = mem_part (pmm_init ?kb s)" .
  have mv: "mem_part v = mem_part (vmm_init u)" "fixed_part v = fixed_part s4" "fixed_part s3 = fixed_part (vmm_init u)"
    by (simp_all add: v_def s4_def s3_def)
  have cr: "cr0 v = cr0 (vmm_init u)" "cr3 v = cr3 (vmm_init u)"
    using mv(2,3) by (simp_all add: fixed_part_def s4_def tss_init_def gdt_install_tss_def gdt_set_gate_def Let_def)
  note M = memory_comes_up(1-5) [OF wf room mu mv(1) cr]
    and M5 = memory_comes_up(6-8) [OF wf room mu mv(1) cr, where entry = "at_kernel_idle e", folded s5_def]
  have pv: "proc_part v = proc_part s" using two(2) p1(1) by (simp add: v_def s4_def s3_def u_def)
  note qv = proc_part_fields [OF pv]
  note P = proc_init_facts [OF M(1-3), of "at_kernel_idle e", folded s5_def]
  have s6: "s6 = tss_set_esp0 (kernel_stack_top (g_threads s5 ! 0)) s5"
    using P(3) by (simp add: s6_def proc_current_thread_def)
  have p5: "mem_part t = mem_part s5" "proc_part t = proc_part s5" by (simp_all add: t_def s6)
  have c5: "cr0 t = cr0 s5" "cr3 t = cr3 s5" "cr0 s5 = cr0 v" "cr3 s5 = cr3 v"
  proof -
    have "fixed_part t = fixed_part s6" "fixed_part s5 = fixed_part v" by (simp_all add: t_def s5_def)
    then show "cr0 t = cr0 s5" "cr3 t = cr3 s5" "cr0 s5 = cr0 v" "cr3 s5 = cr3 v"
      by (simp_all add: fixed_part_def s6 tss_set_esp0_def)
  qed
  have "memory_up (unat (pmm_end_frame ?kb) - 34) s5"
  proof -
    have k: "g_kernel_dir s5 = g_kernel_dir v" "pmm_wf s5" "dir_ok (phys_mem s5) (free_addrs s5) (g_kernel_dir v)"
      using P(4) by blast+
    then have "dir_ok (phys_mem s5) (free_addrs s5) (g_kernel_dir s5)" by (simp only:)
    moreover have "cr3 s5 = g_kernel_dir s5" "bit (cr0 s5) 31" using k(1) M(4,5) c5(3,4) by simp_all
    ultimately show ?thesis unfolding memory_up_def using M5 k(2) by blast
  qed
  moreover have "idle_up s5"
    using P(1-4) qv reset by (auto simp: idle_up_def idle_process_def s5_def)
  ultimately have up: "memory_up (unat (pmm_end_frame ?kb) - 34) t" "idle_up t" using up_cong [OF p5] c5 by simp_all
  have "fixed_part t = fixed_part s6" by (simp add: t_def)
  note rt = rest_part_fields [OF fixed_rest [OF this]]
  have "fixed_part s5 = fixed_part s4" using mv(2) by (simp add: s5_def)
  note r5 = rest_part_fields [OF fixed_rest [OF this]]
  have "fixed_part u = fixed_part s2" by (simp add: u_def)
  then have "rest_part s3 = rest_part s2" using fixed_rest [OF mv(3)] fixed_rest [of u s2] by simp
  note r3 = rest_part_fields [OF this]
  have six: "gdt s6 = gdt s5" "gdtr s6 = gdtr s5" "idt s6 = idt s5" "idtr s6 = idtr s5" "task_register s6 = task_register s5"
    "heap_current s6 = heap_current s5" "heap_end s6 = heap_end s5" "g_DriverList s6 = g_DriverList s5"
    "g_DriverCount s6 = g_DriverCount s5" "g_VgaDevice s6 = g_VgaDevice s5" "g_last_pf_addr s6 = g_last_pf_addr s5"
    "halted s6 = halted s5" "g_tss s6 = (g_tss s5)\<lparr>tss_esp0 := kernel_stack_top (g_threads s5 ! 0)\<rparr>"
    by (simp_all add: s6 tss_set_esp0_def)
  have four: "gdt s4 = (gdt s3)[5 := gdt_entry_of (at_tss e) 103 0x89 0x40]" "gdtr s4 = gdtr s3" "idt s4 = idt s3"
    "idtr s4 = idtr s3" "task_register s4 = 0x28" "heap_current s4 = heap_current s3" "heap_end s4 = heap_end s3"
    "g_DriverList s4 = g_DriverList s3" "g_DriverCount s4 = g_DriverCount s3" "g_VgaDevice s4 = g_VgaDevice s3"
    "g_last_pf_addr s4 = g_last_pf_addr s3" "halted s4 = halted s3" "g_tss s4 = tss_zero\<lparr>tss_ss0 := 0x10\<rparr>"
    by (simp_all add: s4_def tss_init_def gdt_install_tss_def gdt_set_gate_def TSS_SIZE_def Let_def)
  have two': "gdt s2 = gdt s1" "gdtr s2 = gdtr s1" "idt s2 = idt s1" "idtr s2 = idtr s1" "heap_current s2 = heap_current s1"
    "heap_end s2 = heap_end s1" "g_DriverList s2 = 0" "g_DriverCount s2 = 0" "g_VgaDevice s2 = g_VgaDevice s1"
    "g_last_pf_addr s2 = g_last_pf_addr s1" "halted s2 = halted s1"
    by (simp_all add: s2_def)
  have th: "g_threads t = g_threads s5" using proc_part_fields [OF p5(2)] by simp
  show ?thesis
    by (rule that [OF run up]) (simp_all add: rt six r5 four r3 two' r1 th)
qed

subsection \<open>The third phase\<close>

text \<open>Setting up the mouse uses ports only, and ends with the pointer in the middle.\<close>

definition polled :: "'a mouse_scheme \<Rightarrow> 'a mouse_scheme \<Rightarrow> bool" where
  "polled s t \<longleftrightarrow> t = s\<lparr>port_out := port_out t, ps2_in := ps2_in t\<rparr>"

named_theorems polled_intros "steps of the mouse's initialisation"

lemma polled_refl [polled_intros]: "polled s s"
  by (simp add: polled_def)

lemma polled_outb [polled_intros]: "polled s t \<Longrightarrow> polled s (outb p v t)"
  by (cases s; cases t) (simp add: polled_def outb_def)

lemma polled_inb [polled_intros]: "polled s t \<Longrightarrow> polled s (snd (ps2_inb p t))"
  by (cases s; cases t) (simp add: polled_def ps2_inb_def)

lemma polled_wait [polled_intros]:
  "polled s t \<Longrightarrow> polled s (ps2_wait_write t)" "polled s t \<Longrightarrow> polled s (ps2_wait_read t)"
proof -
  have "polled s t \<Longrightarrow> polled s (wait_write n t)" "polled s t \<Longrightarrow> polled s (wait_read n t)" for n t
    by (induction n arbitrary: t) (simp_all add: Let_def case_prod_unfold polled_inb)
  then show "polled s t \<Longrightarrow> polled s (ps2_wait_write t)" "polled s t \<Longrightarrow> polled s (ps2_wait_read t)"
    by (simp_all add: ps2_wait_write_def ps2_wait_read_def)
qed

lemma polled_mouse [polled_intros]:
  "polled s t \<Longrightarrow> polled s (mouse_write v t)" "polled s t \<Longrightarrow> polled s (snd (mouse_read t))"
  unfolding mouse_write_def mouse_read_def Let_def by (intro polled_intros; assumption)+

lemma MouseInit_frame:
  "\<exists>ps bytes. MouseInit s = s\<lparr>port_out := ps, ps2_in := bytes,
     g_mouse := \<lparr>mouse_x = 320, mouse_y = 240, mouse_buttons = 0, mouse_visible = 1\<rparr>\<rparr>"
proof -
  have "\<exists>t. polled s t \<and> MouseInit s = t\<lparr>g_mouse := \<lparr>mouse_x = 320, mouse_y = 240, mouse_buttons = 0, mouse_visible = 1\<rparr>\<rparr>"
    unfolding MouseInit_def Let_def case_prod_unfold by (intro exI conjI, rule_tac [2] refl) (intro polled_intros)
  then show ?thesis unfolding polled_def by metis
qed

text \<open>A heap with room for the driver, its device and the extension.\<close>

lemma malloc_room:
  assumes "heap_fits s" "0 < unat n" "unat n \<le> 0x10000000" "unat (heap_current s) + round4 (unat n) \<le> unat (heap_end s)"
  obtains c where "malloc n s = (heap_current s, s\<lparr>heap_current := c\<rparr>)" "heap_current s \<noteq> 0" "heap_current s < c"
    "unat c = unat (heap_current s) + round4 (unat n)" "heap_fits (s\<lparr>heap_current := c\<rparr>)"
proof -
  have ok: "heap_ok s" "unat (heap_end s) \<le> 0xE0000000" using assms(1) by (simp_all add: heap_fits_def)
  have n: "unat n < 4294967293" "unat (heap_current s) + round4 (unat n) < 4294967296" using assms(3,4) ok(2) by linarith+
  note m = malloc_no_wrap [OF ok(1) n]
  define c where "c = heap_current s + word_base (n + 3)"
  have e: "malloc n s = (heap_current s, s\<lparr>heap_current := c\<rparr>)" unfolding c_def m(1) using assms(4) by simp
  moreover have c: "unat c = unat (heap_current s) + round4 (unat n)" unfolding c_def by (rule m(2))
  moreover have "heap_fits (s\<lparr>heap_current := c\<rparr>)"
    using malloc_heap_ok [OF ok(1) n] ok(2) by (simp add: e heap_fits_def)
  moreover have "heap_current s < c" using c round4_ge [of "unat n"] assms(2) by (simp add: word_less_nat_alt)
  ultimately show ?thesis using that ok(1) by (simp add: heap_ok_def)
qed

text \<open>What the devices leave alone.\<close>

definition core_part where
  "core_part s = (proc_part s, mem_part s, cr0 s, cr3 s, gdt s, gdtr s, idt s, idtr s, task_register s, g_tss s, halted s)"

lemma undrawn_core: "undrawn s = undrawn t \<Longrightarrow> phys_mem s = phys_mem t \<Longrightarrow> core_part s = core_part t"
proof -
  have "core_part u = core_part ((undrawn u)\<lparr>phys_mem := phys_mem u\<rparr>)" for u :: "'a vga_scheme"
    by (simp add: core_part_def proc_part_def mem_part_def undrawn_def)
  then show "undrawn s = undrawn t \<Longrightarrow> phys_mem s = phys_mem t \<Longrightarrow> core_part s = core_part t" by metis
qed

lemma core_part_drivers [simp]:
  "core_part (s\<lparr>heap_current := c\<rparr>) = core_part s" "core_part (upd_driver p f s) = core_part s"
  "core_part (upd_device p g s) = core_part s" "core_part (s\<lparr>io_exts := x\<rparr>) = core_part s"
  "core_part (s\<lparr>g_DriverList := l, g_DriverCount := n\<rparr>) = core_part s"
  by (simp_all add: core_part_def proc_part_def mem_part_def upd_driver_def upd_device_def)

lemma round4_sizes: "round4 (unat sizeof_DRIVER_OBJECT) = 140" "round4 (unat sizeof_DEVICE_OBJECT) = 36"
  "round4 (unat sizeof_VGA_DEVICE_EXTENSION) = 36"
  by (simp_all add: round4_def const_defs)

text \<open>With 212 bytes of heap left the driver loads.\<close>

lemma VgaDriverEntry_loads:
  fixes s :: "'a vga_scheme"
  assumes fits: "heap_fits s" and driver: "driver \<noteq> 0"
    and room: "unat (heap_current s) + 72 \<le> unat (heap_end s)"
  obtains t where "VgaDriverEntry crtc17 unload_addr driver registry s = Some (STATUS_SUCCESS, t)"
    "graphics_ready t" "g_VgaDevice s = 0 \<Longrightarrow> core_part t = core_part s" "g_last_pf_addr t = g_last_pf_addr s"
proof -
  obtain c where c: "malloc sizeof_DEVICE_OBJECT s = (heap_current s, s\<lparr>heap_current := c\<rparr>)" "heap_current s \<noteq> 0"
    "unat c = unat (heap_current s) + 36" "heap_fits (s\<lparr>heap_current := c\<rparr>)"
    using malloc_room [OF fits, of sizeof_DEVICE_OBJECT] room by (auto simp: round4_sizes) (auto simp: const_defs)
  let ?d = "heap_current s"
  define s1 where "s1 = upd_device ?d (\<lambda>_. zero_device) (s\<lparr>heap_current := c\<rparr>)"
  have fits1: "heap_fits s1" and cur1: "heap_current s1 = c" "heap_end s1 = heap_end s"
    using c(4) by (simp_all add: s1_def upd_device_def heap_fits_def heap_ok_def)
  obtain c' where c': "malloc sizeof_VGA_DEVICE_EXTENSION s1 = (c, s1\<lparr>heap_current := c'\<rparr>)" "c \<noteq> 0"
    using malloc_room [OF fits1, of sizeof_VGA_DEVICE_EXTENSION] room cur1 c(3) by (auto simp: round4_sizes) (auto simp: const_defs)
  obtain s2 where s2: "IoCreateDevice driver sizeof_VGA_DEVICE_EXTENSION (Some vga_device_name) FILE_DEVICE_VIDEO 0 False
      (Some 0) s = (STATUS_SUCCESS, Some ?d, s2)" "core_part s2 = core_part s" "DeviceExtension (io_devices s2 ?d) = c"
    "io_exts s2 c = zero_extension" "g_last_pf_addr s2 = g_last_pf_addr s" "g_VgaDevice s2 = g_VgaDevice s"
    using driver c(1,2) c'
    by (simp add: IoCreateDevice_def Let_def s1_def [symmetric])
      (simp add: s1_def core_part_def proc_part_def mem_part_def upd_device_def upd_driver_def const_defs)
  have pal: "length (CurrentPalette (io_exts s2 c)) = 16" by (simp add: s2(4) zero_extension_def)
  obtain t where t: "VgaInitializeDevice crtc17 c s2 = (STATUS_SUCCESS, t)"
    "undrawn t = undrawn (s2\<lparr>io_exts := (io_exts s2)(c := graphics_extension)\<rparr>)"
    "screen_mapped s2 \<Longrightarrow> phys_mem t = phys_mem s2"
    by (rule VgaInitializeDevice_result [OF c'(2) pal]) blast
  note parts = undrawn_parts [OF t(2)]
  define u where "u = VgaSetDeviceObject ?d (upd_driver driver (\<lambda>d. d\<lparr>DriverUnload := unload_addr\<rparr>) t)"
  have last: "g_last_pf_addr t = g_last_pf_addr s2"
  proof -
    have "g_last_pf_addr w = g_last_pf_addr (undrawn w)" for w :: "'a vga_scheme" by (simp add: undrawn_def)
    from this [of t] show ?thesis unfolding t(2) by (simp add: undrawn_def)
  qed
  show ?thesis
  proof (rule that)
    show "VgaDriverEntry crtc17 unload_addr driver registry s = Some (STATUS_SUCCESS, u)"
      by (simp add: VgaDriverEntry_def s2(1,3) t(1) Let_def u_def)
    show "graphics_ready u"
      using parts(1-3) c(2) c'(2) s2(3) by (simp add: graphics_ready_def u_def VgaSetDeviceObject_def upd_driver_def
          graphics_extension_def)
    have "core_part u = core_part t"
      by (simp add: u_def VgaSetDeviceObject_def core_part_def proc_part_def mem_part_def upd_driver_def)
    moreover have "core_part t = core_part s2" if "g_VgaDevice s = 0"
      using undrawn_core [OF t(2)] t(3) that s2(6) by (simp add: screen_mapped_def)
    ultimately show "core_part u = core_part s" if "g_VgaDevice s = 0" using that s2(2) by simp
    show "g_last_pf_addr u = g_last_pf_addr s"
      using last s2(5) by (simp add: u_def VgaSetDeviceObject_def upd_driver_def)
  qed
qed

lemma vga_driver_loads:
  fixes s :: "'a vga_scheme"
  assumes fits: "heap_fits s" and room: "unat (heap_current s) + 212 \<le> unat (heap_end s)" and entry: "entry \<noteq> 0"
    and list: "driver_list s ps"
  obtains t p where "IoCreateDriver (vga_init_at crtc17 entry exit) (Some name) entry s = Some (STATUS_SUCCESS, t)"
    "graphics_ready t" "g_VgaDevice s = 0 \<Longrightarrow> core_part t = core_part s" "g_last_pf_addr t = g_last_pf_addr s"
    "p \<notin> set ps" "driver_list t (p # ps)" "device_list t p [g_VgaDevice t]" "DriverUnload (io_drivers t p) = exit"
proof -
  obtain c where c: "malloc sizeof_DRIVER_OBJECT s = (heap_current s, s\<lparr>heap_current := c\<rparr>)" "heap_current s \<noteq> 0"
    "unat c = unat (heap_current s) + 140" "heap_fits (s\<lparr>heap_current := c\<rparr>)"
    using malloc_room [OF fits, of sizeof_DRIVER_OBJECT] room by (auto simp: round4_sizes) (auto simp: const_defs)
  let ?p = "heap_current s"
  define s1 where "s1 = upd_driver ?p (\<lambda>d. d\<lparr>DriverName := name, DriverInit := entry, DeviceObject := 0, NextDriver := 0,
      DriverUnload := 0\<rparr>) (upd_driver ?p (\<lambda>_. zero_driver) (s\<lparr>heap_current := c\<rparr>))"
  have s1: "heap_fits s1" "unat (heap_current s1) + 72 \<le> unat (heap_end s1)" "core_part s1 = core_part s"
    "g_last_pf_addr s1 = g_last_pf_addr s" "g_VgaDevice s1 = g_VgaDevice s" "device_list s1 ?p []" "?p < heap_current s1"
    using c(3,4) room by (simp_all add: s1_def heap_fits_def heap_ok_def)
      (simp_all add: upd_driver_def heap_ok_def device_list_def word_less_nat_alt)
  obtain t where t: "VgaDriverEntry crtc17 exit ?p name s1 = Some (STATUS_SUCCESS, t)" "graphics_ready t"
    "g_VgaDevice s1 = 0 \<Longrightarrow> core_part t = core_part s1" "g_last_pf_addr t = g_last_pf_addr s1"
    using VgaDriverEntry_loads [OF s1(1) c(2) s1(2), of crtc17 exit name] by metis
  have dev: "device_list t ?p [g_VgaDevice t]" "DriverUnload (io_drivers t ?p) = exit"
    by (rule VgaDriverEntry_result [OF s1(1) c(2) s1(7,6), of crtc17 exit name _ "\<lambda>h _ _. planes h" adapter_on];
        use t(1) in \<open>simp add: const_defs\<close>)+
  define u where "u = (upd_driver ?p (\<lambda>d. d\<lparr>NextDriver := g_DriverList t\<rparr>) t)
      \<lparr>g_DriverList := ?p, g_DriverCount := g_DriverCount t + 1\<rparr>"
  have run: "IoCreateDriver (vga_init_at crtc17 entry exit) (Some name) entry s = Some (STATUS_SUCCESS, u)"
    using entry c(1,2) t(1) by (simp add: IoCreateDriver_def Let_def s1_def [symmetric] vga_init_at_def u_def)
      (simp add: upd_driver_def)
  have "NT_SUCCESS STATUS_SUCCESS" by (simp add: NT_SUCCESS_def const_defs)
  with vga_code.create_driver [OF list fits entry, of crtc17 exit name] run
  obtain p where p: "p \<notin> set ps" "driver_list u (p # ps)" by auto
  have "p = ?p" using p(2) by (simp add: driver_list_def u_def)
  moreover have "device_list u ?p [g_VgaDevice u]" "DriverUnload (io_drivers u ?p) = exit"
    using dev by (simp_all add: u_def device_list_def upd_driver_def)
  moreover have "graphics_ready u" using t(2) by (simp add: u_def graphics_ready_def upd_driver_def)
  moreover have "g_VgaDevice s = 0 \<Longrightarrow> core_part u = core_part s" "g_last_pf_addr u = g_last_pf_addr s"
    using t(3,4) s1(3-5) by (simp_all add: u_def) (simp add: upd_driver_def)
  ultimately show ?thesis using that run p by blast
qed

text \<open>
  C38: The display driver's life: with 212 bytes of heap left below 3.5 GB and a well-formed list of
  drivers, \<open>IoCreateDriver\<close> on \<open>VgaDriverEntry\<close> succeeds: the new driver is first in the list, has
  \<open>VgaDriverUnload\<close> as its unload routine and one device, on which the display is ready for drawing.
  \<open>IoDeleteDriver\<close> of that driver deletes its device and unlinks the driver, which restores the list,
  and then ends in exactly what the unload routine, whichever it is, does to that state:
  \<open>VgaDriverUnload\<close> finds no device left and changes nothing. The drawing code is not told: it goes on
  using the deleted device.
\<close>

theorem vga_driver_created_and_deleted:
  fixes s :: "'a vga_scheme"
  assumes "driver_list s ps" "heap_fits s" "entry \<noteq> 0" "exit \<noteq> 0"
    and "unat (heap_current s) + 212 \<le> unat (heap_end s)"
  shows "\<exists>t p v. IoCreateDriver (vga_init_at crtc17 entry exit) (Some name) entry s = Some (STATUS_SUCCESS, t)
    \<and> p \<notin> set ps \<and> driver_list t (p # ps) \<and> device_list t p [g_VgaDevice t] \<and> graphics_ready t
    \<and> DriverUnload (io_drivers t p) = exit
    \<and> driver_list v ps \<and> device_list v p []
    \<and> (\<forall>unload. IoDeleteDriver unload p t = unload exit p v)
    \<and> VgaDriverUnload p v = Some v \<and> IoDeleteDriver (vga_unload_at exit) p t = Some v
    \<and> g_VgaDevice v = g_VgaDevice t"
proof -
  obtain t p where t: "IoCreateDriver (vga_init_at crtc17 entry exit) (Some name) entry s = Some (STATUS_SUCCESS, t)"
    "graphics_ready t" "p \<notin> set ps" "driver_list t (p # ps)" "device_list t p [g_VgaDevice t]"
    "DriverUnload (io_drivers t p) = exit"
    by (rule vga_driver_loads [OF assms(2,5,3,1)])
  obtain v where v: "driver_list v ps" "device_list v p []" "io.more v = io.more t"
    "\<And>unload. IoDeleteDriver unload p t = unload exit p v"
    using delete_driver_steps [of t "[]" p ps "[g_VgaDevice t]"] t(4-6) assms(4) by auto
  have none: "VgaDriverUnload p v = Some v"
    unfolding VgaDriverUnload_def using v(2) by (subst delete_devices.simps) (simp add: device_list_def)
  moreover have "IoDeleteDriver (vga_unload_at exit) p t = Some v" unfolding v(4) using none by (simp add: vga_unload_at_def)
  moreover have "g_VgaDevice v = g_VgaDevice t" using v(3) by (cases v; cases t) simp
  ultimately show ?thesis using t v by blast
qed

theorem vga_driver_created_and_deleted_witness:
  "\<exists>t p v. IoCreateDriver (vga_init_at 0 0x10400 0x10500) (Some vga_device_name) 0x10400 vga_boot = Some (STATUS_SUCCESS, t)
    \<and> driver_list t [p, 0x200000] \<and> IoDeleteDriver (vga_unload_at 0x10500) p t = Some v \<and> driver_list v [0x200000]"
proof -
  have "unat (heap_current vga_boot) + 212 \<le> unat (heap_end vga_boot)"
    by (simp add: vga_boot_def one_device_def io_reset_def upd_device_def upd_driver_def io.defs proc.defs vga.defs)
  from vga_driver_created_and_deleted [OF vga_boot_ready(2,1) _ _ this, of "0x10400" "0x10500" 0 vga_device_name]
  show ?thesis by auto
qed

lemma core_cong:
  fixes s t :: "'a vga_scheme"
  assumes "proc_part s = proc_part t" "mem_part s = mem_part t" "fixed_part s = fixed_part t"
  shows "core_part s = core_part t"
  using assms by (simp add: core_part_def fixed_part_def rest_part_def)

lemma graphics_ready_cong:
  fixes s t :: "'a vga_scheme"
  assumes "rest_part s = rest_part t"
  shows "graphics_ready s = graphics_ready t" "driver_list s ps = driver_list t ps"
proof -
  note r = rest_part_fields [OF assms]
  show "graphics_ready s = graphics_ready t" using r by (simp add: graphics_ready_def)
  have "get_slot s c = get_slot t c" for c using r by (cases c) simp_all
  then have "get_slot s = get_slot t" by blast
  then show "driver_list s ps = driver_list t ps" using r by (simp add: driver_list_def)
qed

lemma dump_parts [simp]:
  "proc_part (dump_bytes f s) = proc_part s" "mem_part (dump_bytes f s) = mem_part s" "fixed_part (dump_bytes f s) = fixed_part s"
  unfolding dump_bytes_def by (simp_all add: fold_keeps [where P = proc_part] fold_keeps [where P = mem_part]
      fold_keeps [where P = fixed_part] del: serial_puts.simps)

lemma start_devices_result:
  fixes s :: "'a mouse_scheme"
  assumes fits: "heap_fits s" and room: "unat (heap_current s) + 212 \<le> unat (heap_end s)"
    and entry: "at_VgaDriverEntry e \<noteq> 0"
    and none: "g_DriverList s = 0" "g_DriverCount s = 0" "g_last_pf_addr s = 0" "g_VgaDevice s = 0"
  obtains t p where "start_devices e s = Idles t" "graphics_ready t" "core_part t = core_part s" "driver_list t [p]"
    "g_last_pf_addr t = 0"
proof -
  obtain s1 where s1: "HalInitializeDisplay s = (STATUS_SUCCESS, s1)" "core_part s1 = core_part s" "heap_fits s1"
    "heap_current s1 = heap_current s" "heap_end s1 = heap_end s" "g_DriverList s1 = 0" "g_DriverCount s1 = 0" "g_last_pf_addr s1 = 0"
    "g_VgaDevice s1 = 0"
  proof (cases "g_DisplayInitialized s")
    case True
    then show ?thesis using that [of s] fits none by (simp add: HalInitializeDisplay_def)
  next
    case False
    then show ?thesis using that [of "s\<lparr>g_DisplayInitialized := True\<rparr>"] fits none
      by (simp add: HalInitializeDisplay_def core_part_def proc_part_def mem_part_def heap_fits_def heap_ok_def)
  qed
  obtain ps bytes where m: "MouseInit s1 = s1\<lparr>port_out := ps, ps2_in := bytes,
      g_mouse := \<lparr>mouse_x = 320, mouse_y = 240, mouse_buttons = 0, mouse_visible = 1\<rparr>\<rparr>"
    using MouseInit_frame [of s1] by blast
  define s2 where "s2 = show_progress (MouseInit s1)"
  have p2: "proc_part s2 = proc_part (MouseInit s1)" "mem_part s2 = mem_part (MouseInit s1)"
    "fixed_part s2 = fixed_part (MouseInit s1)" by (simp_all add: s2_def)
  have c2: "core_part s2 = core_part s"
  proof -
    have "core_part (MouseInit s1) = core_part s1" unfolding m by (simp add: core_part_def proc_part_def mem_part_def)
    then show ?thesis using core_cong [OF p2] s1(2) by simp
  qed
  note r = rest_part_fields [OF fixed_rest [OF p2(3)]]
  have h: "heap_fits s2" "unat (heap_current s2) + 212 \<le> unat (heap_end s2)" "g_DriverList s2 = 0" "g_DriverCount s2 = 0"
    "g_last_pf_addr s2 = 0" "g_VgaDevice s2 = 0"
    using s1 room r by (simp_all add: heap_fits_def heap_ok_def m)
  let ?name = "\<lparr>us_Length = 0, us_MaximumLength = 0, us_Buffer = None\<rparr>"
  obtain u p where u: "IoCreateDriver (vga_init_at (crtc_graphics e) (at_VgaDriverEntry e) (at_VgaDriverUnload e))
      (Some ?name) (at_VgaDriverEntry e) s2 = Some (STATUS_SUCCESS, u)" "graphics_ready u" "core_part u = core_part s2"
    "g_last_pf_addr u = g_last_pf_addr s2" "driver_list u [p]"
  proof -
    have "driver_list s2 []" using h(3,4) by (simp add: driver_list_def)
    from vga_driver_loads [OF h(1,2) entry this] h(6) show ?thesis using that by metis
  qed
  define t where "t = serial_puts crlf (dump_bytes (shown_B8000 e) (serial_puts (crlf @ ''[VGA] buffer @B8000:'')
      (dump_bytes (shown_A0000 e) (serial_puts ''[VGA] buffer @A0000:'' u))))"
  have pt: "proc_part t = proc_part u" "mem_part t = mem_part u" "fixed_part t = fixed_part u"
    by (simp_all add: t_def del: serial_puts.simps)
  have "start_devices e s = Idles t"
    unfolding start_devices_def s1(1) Let_def prod.case s2_def [symmetric] nop_loop_id u(1) option.case t_def [symmetric]
    using s1(8) by simp
  moreover have "graphics_ready t" "driver_list t [p]"
    using graphics_ready_cong [OF fixed_rest [OF pt(3)]] u(2,5) by simp_all
  moreover have "core_part t = core_part s" using core_cong [OF pt] u(3) c2 by simp
  moreover have "g_last_pf_addr t = 0" using rest_part_fields(7) [OF fixed_rest [OF pt(3)]] u(4) h(5) by simp
  ultimately show ?thesis using that by blast
qed

subsection \<open>The last phase\<close>

lemma scheduler_init_parts [simp]:
  "mem_part (scheduler_init s) = mem_part s" "g_processes (scheduler_init s) = g_processes s"
  "map thread_core (g_threads (scheduler_init s)) = map thread_core (g_threads s)"
  "map tid (g_threads (scheduler_init s)) = map tid (g_threads s)"
  "g_next_pid (scheduler_init s) = g_next_pid s" "g_next_tid (scheduler_init s) = g_next_tid s"
proof -
  have core: "map thread_core (g_threads (queue_insert t s)) = map thread_core (g_threads s)" for t and s :: "'a proc_scheme"
    by (auto simp: queue_insert_def Let_def split: option.split)
  show c: "map thread_core (g_threads (scheduler_init s)) = map thread_core (g_threads s)"
    by (auto simp: scheduler_init_def Let_def thread_core_upd thread_core_def core split: option.split)
  have "map tid xs = map fst (map thread_core xs)" for xs by (simp add: thread_core_def comp_def)
  then show "map tid (g_threads (scheduler_init s)) = map tid (g_threads s)" using c by metis
qed (auto simp: scheduler_init_def mem_part_def queue_insert_def set_next_def upd_thread_def Let_def split: option.split)

text \<open>What the user process maps: the compiler's thunk, its stack, its image, and the kernel's memory.\<close>

definition user_space :: "boot_env \<Rightarrow> (nat \<Rightarrow> u32) \<Rightarrow> u32 \<Rightarrow> u32 option" where
  "user_space e fr w =
     (let pages = unat ((at_user_end e - at_user_start e + 4095) div 4096); virt = page_base (at_user_entry e) in
      if page_base w = 0x106000 then Some w
      else if in_stack w then Some (fr ((unat w - 0x7FFE0000) div 4096) + page_offset w)
      else if in_code virt pages w then Some (page_base (at_user_start e) + (w - virt))
      else if unat w < 0x08000000 then Some w else None)"

lemma server_started:
  fixes s :: "'a proc_scheme" and entry :: u32
  assumes mem: "memory_up n s" and idle: "idle_up s" and n: "2 \<le> n"
  defines "a \<equiv> snd (proc_create_kernel ''gui_server'' entry s)"
  obtains g k where "queue_rep a [g]" "g \<noteq> 0" "g < 32" "length (g_threads a) = 32" "g_current_thread a = Some 0"
    "\<forall>j < 32. tid (g_threads a ! j) = (if j = 0 then 1 else if j = g then 2 else 0)"
    "\<forall>j < 32. tstate (g_threads a ! j) = THREAD_READY" "quantum (g_threads a ! g) = 5"
    "thread_core (g_threads a ! 0) = thread_core (g_threads s ! 0)"
    "g_processes a = idle_process s # \<lparr>pid = 1, pname = ''gui_server'', p_privilege = PRIVILEGE_KERNEL,
       page_dir = g_kernel_dir s, main_thread = Some g, active = True\<rparr> # replicate 14 process_zero"
    "ids_ok a" "g_next_pid a = 2" "g_next_tid a = 3" "pmm_wf a" "g_kernel_dir a = g_kernel_dir s"
    "dir_ok (phys_mem a) (free_addrs a) (g_kernel_dir s)" "card (free_addrs a) = n - 1"
    "card {i. pde_at (phys_mem a) (g_kernel_dir s) i} \<le> 32"
    "\<And>w. translate (phys_mem a) (g_kernel_dir s) w = (if unat w < 0x08000000 then Some w else None)"
    "saved_context (g_threads a ! g) = k + PAGE_SIZE - 68" "page k" "k \<notin> free_addrs a"
    "phys_mem a = snd (setup_kernel_stack (k + PAGE_SIZE) entry (phys_mem s))"
proof -
  from idle obtain k0 where up: "g_processes s = idle_process s # replicate 15 process_zero"
    "g_threads s = idle_thread 1 k0 # replicate 31 thread_zero" "g_current_thread s = Some 0" "g_next_pid s = 1" "g_next_tid s = 2"
    "sched_queue_head s = None" "sched_queue_tail s = None" by (auto simp: idle_up_def)
  have M: "pmm_wf s" "dir_ok (phys_mem s) (free_addrs s) (g_kernel_dir s)" "2 \<le> card (free_addrs s)" "card (free_addrs s) = n"
    "card {i. pde_at (phys_mem s) (g_kernel_dir s) i} \<le> 32"
    "\<And>w. translate (phys_mem s) (g_kernel_dir s) w = (if unat w < 0x08000000 then Some w else None)"
    using mem n by (simp_all add: memory_up_def)
  have ps: "replicate 15 process_zero = process_zero # replicate 14 process_zero" by (simp add: replicate_slot [of 15])
  have slot: "find_slot (\<lambda>q. \<not> active q) (g_processes s) = Some 1" "\<exists>th \<in> set (g_threads s). tid th = 0"
    unfolding up(1,2) ps by (simp_all add: idle_process_def process_zero_def thread_zero_def)
  obtain g f k where run: "proc_create_kernel ''gui_server'' entry s = (Some 1, scheduler_add_thread (Some g) f)"
    and A: "thread_added s g f"
    and fp: "g_processes f = (g_processes s)[1 := \<lparr>pid = g_next_pid s, pname = copy_name ''gui_server'',
       p_privilege = PRIVILEGE_KERNEL, page_dir = g_kernel_dir s, main_thread = Some g, active = True\<rparr>]"
    and fm: "saved_context (g_threads f ! g) = k + PAGE_SIZE - 68" "page k" "k \<in> free_addrs s" "free_addrs f = free_addrs s - {k}"
    "pmm_wf f" "g_kernel_dir f = g_kernel_dir s" "phys_mem f = snd (setup_kernel_stack (k + PAGE_SIZE) entry (phys_mem s))"
    "dir_ok (phys_mem f) (free_addrs f) (g_kernel_dir f)"
    "\<And>w. page_walk (phys_mem f) (g_kernel_dir f) w = page_walk (phys_mem s) (g_kernel_dir f) w"
    by (rule proc_create_kernel_result [OF M(1-3) slot, of "''gui_server''" entry]) blast
  have a: "a = scheduler_add_thread (Some g) f" by (simp add: a_def run)
  have "queue_rep s []" using up by (simp add: queue_rep_def)
  note Q = thread_added_queued [OF A this, folded a, simplified]
  have len: "length (g_threads s) = 32" using up(2) by simp
  have cell: "j < 32 \<Longrightarrow> g_threads s ! j = (if j = 0 then idle_thread 1 k0 else thread_zero)" for j
    unfolding up(2) by (simp add: nth_Cons')
  have g: "g < 32" "g \<noteq> 0" using A cell [of g] len by (auto simp: thread_added_def idle_thread_def split: if_splits)
  have core: "tid (g_threads a ! j) = tid (g_threads s ! j) \<and> tstate (g_threads a ! j) = tstate (g_threads s ! j)"
    if "j < 32" "j \<noteq> g" for j
    using Q(7) [of j] that len by (simp add: thread_core_def)
  have "mem_part a = mem_part f" unfolding a by simp
  note m = mem_part_fields [OF this]
  have out: "same_outside {k} (phys_mem s) (phys_mem a)"
    using fm(7) m push_all_outside [OF fm(2)] by (simp add: setup_kernel_stack_def)
  have pde: "pde_at (phys_mem a) (g_kernel_dir s) i = pde_at (phys_mem s) (g_kernel_dir s) i" for i
    using pde_at_outside [OF M(2) out] fm(3) by simp
  show ?thesis
  proof (rule that [of g k])
    show "queue_rep a [g]" "g \<noteq> 0" "g < 32" "length (g_threads a) = 32" "g_current_thread a = Some 0"
      "quantum (g_threads a ! g) = 5" using Q g len up(3) by simp_all
    show "\<forall>j < 32. tid (g_threads a ! j) = (if j = 0 then 1 else if j = g then 2 else 0)"
      using core cell Q(4) up(5) g by (auto simp: idle_thread_def thread_zero_def)
    have "tstate (g_threads a ! j) = THREAD_READY" if "j < 32" for j
      using that Q(6) core [of j] cell [of j] by (cases "j = g") (auto simp: idle_thread_def thread_zero_def split: if_splits)
    then show "\<forall>j < 32. tstate (g_threads a ! j) = THREAD_READY" by blast
    show "thread_core (g_threads a ! 0) = thread_core (g_threads s ! 0)" using Q(7) [of 0] g len by simp
    show "g_processes a = idle_process s # \<lparr>pid = 1, pname = ''gui_server'', p_privilege = PRIVILEGE_KERNEL,
       page_dir = g_kernel_dir s, main_thread = Some g, active = True\<rparr> # replicate 14 process_zero"
      unfolding Q(11) fp up(4) up(1) ps by (simp add: copy_name_def)
    show "ids_ok a" unfolding a_def by (rule ids_ok_create_kernel [OF idle_ids [OF up(1,2,4,5)]]) (simp_all add: up)
    show "g_next_pid a = 2" "g_next_tid a = 3" using Q(9,10) up(4,5) by simp_all
    show "pmm_wf a" "g_kernel_dir a = g_kernel_dir s" "dir_ok (phys_mem a) (free_addrs a) (g_kernel_dir s)" using fm m by simp_all
    show "card (free_addrs a) = n - 1" "k \<notin> free_addrs a" using fm(3,4) m M(4) pmm_alloc.finite_free [of s] by simp_all
    show "card {i. pde_at (phys_mem a) (g_kernel_dir s) i} \<le> 32" using pde M(5) by simp
    show "translate (phys_mem a) (g_kernel_dir s) w = (if unat w < 0x08000000 then Some w else None)" for w
      using M(6) [of w] fm(6,9) m by (simp add: translate_def)
    show "saved_context (g_threads a ! g) = k + PAGE_SIZE - 68" using Q(8) fm(1) by (simp add: thread_core_def)
  qed (use fm m in simp_all)
qed

lemma user_started:
  fixes a :: "'a proc_scheme" and str :: string
  assumes q: "queue_rep a [g]" "g \<noteq> 0" "g < 32" "length (g_threads a) = 32" "g_current_thread a = Some 0"
    and tids: "\<forall>j < 32. tid (g_threads a ! j) = (if j = 0 then 1 else if j = g then 2 else 0)"
    and ready: "\<forall>j < 32. tstate (g_threads a ! j) = THREAD_READY" "quantum (g_threads a ! g) = 5"
    and ps: "find_slot (\<lambda>q. \<not> active q) (g_processes a) = Some 2"
    and ids: "ids_ok a" "g_next_pid a = 2" "g_next_tid a = 3"
    and mem: "pmm_wf a" "dir_ok (phys_mem a) (free_addrs a) (g_kernel_dir a)"
    and room: "card {i. pde_at (phys_mem a) (g_kernel_dir a) i} + unat ((at_user_end e - at_user_start e + 4095) div 4096) + 36
      \<le> card (free_addrs a)"
    and fit: "unat (page_base (at_user_entry e)) + 4096 * unat ((at_user_end e - at_user_start e + 4095) div 4096) < 4294967296"
    and identity: "\<And>w. translate (phys_mem a) (g_kernel_dir a) w = (if unat w < 0x08000000 then Some w else None)"
  defines "r \<equiv> snd (proc_create_user ''gui_user'' (at_user_start e) (at_user_end e - at_user_start e) (at_user_entry e) a)"
  defines "t \<equiv> scheduler_init (serial_puts str r)"
  obtains u fr where "u < 32" "u \<noteq> 0" "u \<noteq> g" "sched_ok t [g, u, 0] 2" "main_thread (g_processes t ! 2) = Some u"
    "g_processes t ! 1 = g_processes a ! 1" "ids_ok t" "pmm_wf t" "g_kernel_dir t = g_kernel_dir a"
    "same_outside (free_addrs a) (phys_mem a) (phys_mem t)"
    "\<And>j. j < 32 \<Longrightarrow> j \<noteq> u \<Longrightarrow> thread_core (g_threads t ! j) = thread_core (g_threads a ! j)"
    "irq0_restore 0x10 (saved_context (g_threads t ! u)) (phys_mem t) = user_start (at_user_entry e)"
    "inj_on fr {..<16}" "\<And>w. translate (phys_mem t) (page_dir (g_processes t ! 2)) w = user_space e fr w"
    "\<And>w. user_space e fr w \<noteq> None \<Longrightarrow> user_access (phys_mem t) (page_dir (g_processes t ! 2)) w"
    "p_privilege (g_processes t ! 2) = PRIVILEGE_USER" "pname (g_processes t ! 2) = ''gui_user''"
proof -
  have free_thread: "\<exists>th \<in> set (g_threads a). tid th = 0"
  proof -
    define j :: nat where "j = (if g = 1 then 2 else 1)"
    have "j < 32" "j \<noteq> 0" "j \<noteq> g" by (simp_all add: j_def)
    then show ?thesis using tids q(4) by (intro bexI [of _ "g_threads a ! j"]) simp_all
  qed
  note S = proc_create_user_space [OF mem ps free_thread room fit, of "''gui_user''" "at_user_start e", folded r_def]
  obtain u f where r: "r = scheduler_add_thread (Some u) f" and A: "thread_added a u f"
    and pf: "main_thread (g_processes f ! 2) = Some u" "\<And>j. j \<noteq> 2 \<Longrightarrow> g_processes f ! j = g_processes a ! j"
    using proc_create_user_added [OF conjunct1 [OF S], folded r_def] by metis
  have "u < 32" "tid (g_threads a ! u) = 0" using A q(4) by (simp_all add: thread_added_def)
  then have u: "u < 32" "u \<noteq> 0" "u \<noteq> g" using tids by (auto split: if_splits)
  note Q = thread_added_queued [OF A q(1), folded r, simplified]
  have u': "u \<notin> {g}" using u by simp
  note Q = Q [OF u(3)]
  let ?v = "serial_puts str r"
  have v: "g_threads ?v = g_threads r" "g_current_thread ?v = Some 0" "g_processes ?v = g_processes r" "mem_part ?v = mem_part r"
    using proc_part_fields [OF proc_part_console(2), of str r] Q(3) q(5) by simp_all
  have "queue_rep ?v [g, u] = queue_rep r [g, u]" by (rule queue_rep_cong) (simp_all add: serial_puts_eq)
  then have qv: "queue_rep ?v [g, u]" using Q(1) by simp
  have st: "tstate (g_threads r ! j) = THREAD_READY" if "j < 32" for j
    using that Q(6) Q(7) [of j] ready(1) q(4) by (cases "j = u") simp_all
  have ok: "sched_ok t ([g, u] @ [0]) (length [g, u])"
    unfolding t_def
  proof (rule scheduler_init_ok [OF qv v(2)])
    show "0 < length (g_threads ?v)" "0 \<notin> set [g, u]" using Q(2) q(2,4) u(2) by (simp_all add: v(1))
    show "\<forall>j < length (g_threads ?v). tstate (g_threads ?v ! j) \<noteq> THREAD_RUNNING" using st Q(2) q(4) by (simp add: v(1))
    show "\<forall>j \<in> set [g, u]. 0 \<le> quantum (g_threads ?v ! j) \<and> quantum (g_threads ?v ! j) \<le> SCHEDULER_QUANTUM"
      using Q(5) Q(7) [of g] q(3,4) u(3) ready(2) by (simp add: v(1) SCHEDULER_QUANTUM_def)
  qed
  have mt: "mem_part t = mem_part r" "g_processes t = g_processes r" using v(3,4) by (simp_all add: t_def)
  note m = mem_part_fields [OF mt(1)]
  have len: "length (g_threads r) = 32" using Q(2) q(4) by simp
  have core: "map thread_core (g_threads t) = map thread_core (g_threads r)" by (simp add: t_def v(1))
  have lt: "length (g_threads t) = 32" using map_eq_imp_length_eq [OF core] len by simp
  have core': "thread_core (g_threads t ! j) = thread_core (g_threads r ! j)" if "j < 32" for j
    using arg_cong [OF core, of "\<lambda>xs. xs ! j"] that len lt by simp
  have p2: "g_processes t ! 2 = g_processes r ! 2" "main_thread (g_processes r ! 2) = Some u" using mt(2) Q(11) pf(1) by simp_all
  from S obtain u2 where "main_thread (g_processes r ! 2) = Some u2"
    "irq0_restore 0x10 (saved_context (g_threads r ! u2)) (phys_mem r) = user_start (at_user_entry e)" by blast
  then have start: "irq0_restore 0x10 (saved_context (g_threads t ! u)) (phys_mem t) = user_start (at_user_entry e)"
    using p2(2) core' [OF u(1)] m by (simp add: thread_core_def)
  from S obtain fr where fr: "inj_on fr {..<16}" "\<forall>w. translate (phys_mem r) (page_dir (g_processes r ! 2)) w = (if page_base w = 0x106000
      then Some w else user_map fr (page_base (at_user_entry e)) (page_base (at_user_start e))
        (unat ((at_user_end e - at_user_start e + 4095) div 4096)) a w)" by blast
  have um: "translate (phys_mem t) (page_dir (g_processes t ! 2)) w = user_space e fr w" for w
    using fr(2) m p2(1) identity by (simp add: user_map_def user_space_def Let_def)
  have "ids_view t = ids_view r"
    using v by (simp add: ids_view_def t_def) (simp add: serial_puts_eq)
  then have ids_t: "ids_ok t"
    using ids_ok_create_user [OF ids(1), of "''gui_user''"] ids(2,3) ids_ok_cong by (simp add: r_def) blast
  have other: "g_processes t ! 1 = g_processes a ! 1" using mt(2) Q(11) pf(2) [of 1] by simp
  have core_t: "thread_core (g_threads t ! j) = thread_core (g_threads a ! j)" if "j < 32" "j \<noteq> u" for j
    using core' [OF that(1)] Q(7) [of j] that q(4) by simp
  have acc: "user_access (phys_mem t) (page_dir (g_processes t ! 2)) w" if "user_space e fr w \<noteq> None" for w
    using S m p2(1) um that by metis
  from S have rest: "p_privilege (g_processes t ! 2) = PRIVILEGE_USER" "pname (g_processes t ! 2) = ''gui_user''"
    "same_outside (free_addrs a) (phys_mem a) (phys_mem t)" "pmm_wf t" "g_kernel_dir t = g_kernel_dir a"
    using p2(1) m by (simp_all add: copy_name_def)
  have ok2: "sched_ok t [g, u, 0] 2" using ok by (simp add: numeral_2_eq_2)
  show ?thesis
    by (rule that [OF u ok2 _ other ids_t rest(4,5,3) core_t start fr(1) um acc rest(1,2)]) (simp_all add: p2)
qed

subsection \<open>The whole start\<close>

lemma heap_start_bounds:
  assumes "unat k \<le> 0xD0000000"
  shows "unat (heap_start k) \<le> 0xD0001000" "heap_start k \<noteq> 0" "aligned4 (heap_start k)"
    "unat (heap_start k + HEAP_SIZE) = unat (heap_start k) + 0x600000"
proof -
  have u: "unat (k + 0xFFF) = unat k + 0xFFF" using unat_add_u32 [of k "0xFFF"] assms by simp
  let ?p = "page_base (k + 0xFFF)"
  have p: "unat ?p \<le> unat k + 0xFFF" "4 dvd unat ?p" unfolding unat_page_base u by (simp_all add: dvd_mult)
  have h: "heap_start k = (if ?p < 0x200000 then 0x200000 else ?p)"
    by (simp add: heap_start_def heap_init_def Let_def PAGE_ALIGN_UP_def)
  show b: "unat (heap_start k) \<le> 0xD0001000" using p(1) assms by (simp add: h)
  have "0x200000 \<le> unat (heap_start k)" by (simp add: h word_less_nat_alt)
  then show "heap_start k \<noteq> 0" by auto
  show "aligned4 (heap_start k)" using p(2) by (simp add: h aligned4_def)
  show "unat (heap_start k + HEAP_SIZE) = unat (heap_start k) + 0x600000"
    using unat_add_u32 [of "heap_start k" HEAP_SIZE] b by (simp add: HEAP_SIZE_def)
qed

text \<open>The static variables as loaded, and an image and a memory that leave room.\<close>

definition powered_on :: "'a mouse_scheme \<Rightarrow> bool" where
  "powered_on s \<longleftrightarrow> pmm_wf s \<and> length (gdt s) = 6 \<and> length (idt s) = 256
     \<and> g_last_pf_addr s = 0 \<and> g_next_tid s = 1 \<and> sched_queue_head s = None \<and> sched_queue_tail s = None
     \<and> \<not> g_IoInitialized s \<and> g_VgaDevice s = 0"

definition boot_fits :: "boot_env \<Rightarrow> multiboot_info option \<Rightarrow> bool" where
  "boot_fits e mbi \<longleftrightarrow>
     (let pages = unat ((at_user_end e - at_user_start e + 4095) div 4096) in
      unat (at_kernel_end e) \<le> 0xD0000000 \<and> at_VgaDriverEntry e \<noteq> 0
      \<and> pages + 103 \<le> unat (pmm_end_frame (memory_of mbi))
      \<and> unat (page_base (at_user_entry e)) + 4096 * pages < 4294967296)"

text \<open>The machine up to the idle loop's processes: after the third phase.\<close>

lemma machine_comes_up:
  fixes s :: "'a mouse_scheme"
  assumes on: "powered_on s" and fits: "boot_fits e mbi"
  obtains t where "kernel_main e MULTIBOOT_BOOTLOADER_MAGIC mbi s = Idles (start_processes e t)"
    "memory_up (unat (pmm_end_frame (memory_of mbi)) - 34) t" "idle_up t" "graphics_ready t"
    "gdt t = (gdt (gdt_init (at_gdt e) s))[5 := gdt_entry_of (at_tss e) 103 0x89 0x40]"
    "gdtr t = (47, at_gdt e)" "idtr t = (2047, at_idt e)" "task_register t = 0x28"
    "\<forall>i < 256. idt t ! i = idt_entry_of (handler_of (at_handlers e) i) 0x08 (if i = 0x30 then 0xEE else 0x8E)"
    "g_tss t = tss_zero\<lparr>tss_ss0 := 0x10, tss_esp0 := kernel_stack_top (g_threads t ! 0)\<rparr>" "halted t = halted s"
proof -
  have s: "g_last_pf_addr s = 0" "length (gdt s) = 6" "length (idt s) = 256" "pmm_wf s"
    "g_next_tid s = 1" "sched_queue_head s = None" "sched_queue_tail s = None" "\<not> g_IoInitialized s" "g_VgaDevice s = 0"
    using on by (simp_all add: powered_on_def)
  have b: "unat (at_kernel_end e) \<le> 0xD0000000" "at_VgaDriverEntry e \<noteq> 0" "35 \<le> unat (pmm_end_frame (memory_of mbi))"
    using fits by (auto simp: boot_fits_def Let_def)
  obtain s1 where s1: "start_machine e s = Idles s1" "proc_part s1 = proc_part s" "mem_part s1 = mem_part s"
    "heap_current s1 = heap_start (at_kernel_end e)" "heap_end s1 = heap_start (at_kernel_end e) + HEAP_SIZE"
    "gdt s1 = gdt (gdt_init (at_gdt e) s)" "gdtr s1 = (47, at_gdt e)" "idtr s1 = (2047, at_idt e)"
    "\<forall>i < 256. idt s1 ! i = idt_entry_of (handler_of (at_handlers e) i) 0x08 (if i = 0x30 then 0xEE else 0x8E)"
    "g_last_pf_addr s1 = 0" "halted s1 = halted s" "g_IoInitialized s1 = g_IoInitialized s" "g_VgaDevice s1 = g_VgaDevice s"
    by (rule start_machine_result [OF s(1-3)])
  define s2 where "s2 = show_header s1"
  have p2: "proc_part s2 = proc_part s1" "mem_part s2 = mem_part s1" "fixed_part s2 = fixed_part s1" by (simp_all add: s2_def)
  note r2 = rest_part_fields [OF fixed_rest [OF p2(3)]]
  have in2: "pmm_wf s2" "g_next_tid s2 = 1" "sched_queue_head s2 = None" "sched_queue_tail s2 = None" "\<not> g_IoInitialized s2"
    using mem_part_fields [OF p2(2)] proc_part_fields [OF p2(1)] mem_part_fields [OF s1(3)] proc_part_fields [OF s1(2)] s r2 s1(12)
    by simp_all
  obtain s3 where s3: "start_kernel e mbi s2 = Idles s3" "memory_up (unat (pmm_end_frame (memory_of mbi)) - 34) s3" "idle_up s3"
    "gdt s3 = (gdt s2)[5 := gdt_entry_of (at_tss e) 103 0x89 0x40]" "gdtr s3 = gdtr s2" "idt s3 = idt s2" "idtr s3 = idtr s2"
    "task_register s3 = 0x28" "g_tss s3 = tss_zero\<lparr>tss_ss0 := 0x10, tss_esp0 := kernel_stack_top (g_threads s3 ! 0)\<rparr>"
    "heap_current s3 = heap_current s2" "heap_end s3 = heap_end s2" "g_DriverList s3 = 0" "g_DriverCount s3 = 0"
    "g_VgaDevice s3 = g_VgaDevice s2" "g_last_pf_addr s3 = g_last_pf_addr s2" "halted s3 = halted s2"
    by (rule start_kernel_result [OF in2(1) b(3) in2(2-5)])
  note h = heap_start_bounds [OF b(1)]
  have h3: "heap_fits s3" "unat (heap_current s3) + 212 \<le> unat (heap_end s3)" "g_last_pf_addr s3 = 0" "g_VgaDevice s3 = 0"
    using s3 r2 s1 s(9) h by (simp_all add: heap_fits_def heap_ok_def word_le_nat_alt) (simp add: aligned4_def)
  obtain t where t: "start_devices e s3 = Idles t" "graphics_ready t" "core_part t = core_part s3"
    by (rule start_devices_result [OF h3(1,2) b(2) s3(12,13) h3(3,4)])
  have run: "kernel_main e MULTIBOOT_BOOTLOADER_MAGIC mbi s = Idles (start_processes e t)"
    by (simp add: kernel_main_def s1(1) check_magic_def s2_def [symmetric] s3(1) t(1))
  have c: "proc_part t = proc_part s3" "mem_part t = mem_part s3" "cr0 t = cr0 s3" "cr3 t = cr3 s3" "gdt t = gdt s3"
    "gdtr t = gdtr s3" "idt t = idt s3" "idtr t = idtr s3" "task_register t = task_register s3" "g_tss t = g_tss s3" "halted t = halted s3"
    using t(3) by (simp_all add: core_part_def)
  note up = up_cong [OF c(2,1)]
  show ?thesis
    by (rule that [OF run _ _ t(2)]) (use up c s3 r2 s1 proc_part_fields [OF c(1)] in simp_all)
qed

text \<open>What the idle loop starts with: \<open>g\<close> and \<open>u\<close> are the threads of the server and of the user's process.\<close>

lemma processes_come_up:
  fixes s :: "'a mouse_scheme"
  assumes mem: "memory_up n s" and idle: "idle_up s" and gr: "graphics_ready s"
    and room: "unat ((at_user_end e - at_user_start e + 4095) div 4096) + 69 \<le> n"
    and fit: "unat (page_base (at_user_entry e)) + 4096 * unat ((at_user_end e - at_user_start e + 4095) div 4096) < 4294967296"
  defines "t \<equiv> start_processes e s"
  obtains g u fr where "sched_ok t [g, u, 0] 2" "ids_ok t" "pmm_wf t" "graphics_ready t" "fixed_part t = fixed_part s"
    "cr3 t = g_kernel_dir t" "bit (cr0 t) 31" "kernel_stack_top (g_threads t ! 0) = kernel_stack_top (g_threads s ! 0)"
    "\<And>w. translate (phys_mem t) (g_kernel_dir t) w = (if unat w < 0x08000000 then Some w else None)"
    "main_thread (g_processes t ! 1) = Some g" "r_cs (irq0_restore 0x10 (saved_context (g_threads t ! g)) (phys_mem t)) = 0x08"
    "r_eip (irq0_restore 0x10 (saved_context (g_threads t ! g)) (phys_mem t)) = at_GuiMainLoop e"
    "main_thread (g_processes t ! 2) = Some u"
    "irq0_restore 0x10 (saved_context (g_threads t ! u)) (phys_mem t) = user_start (at_user_entry e)"
    "inj_on fr {..<16}" "\<And>w. translate (phys_mem t) (page_dir (g_processes t ! 2)) w = user_space e fr w"
proof -
  define a where "a = snd (proc_create_kernel ''gui_server'' (at_GuiMainLoop e) s)"
  have n: "2 \<le> n" using room by simp
  obtain g k where A: "queue_rep a [g]" "g \<noteq> 0" "g < 32" "length (g_threads a) = 32" "g_current_thread a = Some 0"
    "\<forall>j < 32. tid (g_threads a ! j) = (if j = 0 then 1 else if j = g then 2 else 0)"
    "\<forall>j < 32. tstate (g_threads a ! j) = THREAD_READY" "quantum (g_threads a ! g) = 5"
    and core0: "thread_core (g_threads a ! 0) = thread_core (g_threads s ! 0)"
    and ps: "g_processes a = idle_process s # \<lparr>pid = 1, pname = ''gui_server'', p_privilege = PRIVILEGE_KERNEL,
       page_dir = g_kernel_dir s, main_thread = Some g, active = True\<rparr> # replicate 14 process_zero"
    and ids: "ids_ok a" "g_next_pid a = 2" "g_next_tid a = 3" and wf: "pmm_wf a" "g_kernel_dir a = g_kernel_dir s"
    and M: "dir_ok (phys_mem a) (free_addrs a) (g_kernel_dir s)" "card (free_addrs a) = n - 1"
    "card {i. pde_at (phys_mem a) (g_kernel_dir s) i} \<le> 32"
    and tr: "\<And>w. translate (phys_mem a) (g_kernel_dir s) w = (if unat w < 0x08000000 then Some w else None)"
    and k: "saved_context (g_threads a ! g) = k + PAGE_SIZE - 68" "page k" "k \<notin> free_addrs a"
    "phys_mem a = snd (setup_kernel_stack (k + PAGE_SIZE) (at_GuiMainLoop e) (phys_mem s))"
    by (rule server_started [OF mem idle n, of "at_GuiMainLoop e", folded a_def]) blast
  have slot: "find_slot (\<lambda>q. \<not> active q) (g_processes a) = Some 2"
    unfolding ps by (simp add: replicate_slot [of 14] idle_process_def process_zero_def)
  have room': "card {i. pde_at (phys_mem a) (g_kernel_dir a) i} + unat ((at_user_end e - at_user_start e + 4095) div 4096) + 36
      \<le> card (free_addrs a)" using M(2,3) room wf(2) by simp
  let ?str = "''[boot] scheduler init'' @ crlf"
  have t: "t = scheduler_init (serial_puts ?str (snd (proc_create_user ''gui_user'' (at_user_start e)
      (at_user_end e - at_user_start e) (at_user_entry e) a)))"
    by (simp add: t_def start_processes_def a_def Let_def del: append.simps)
  note M1 = M(1) [folded wf(2)] and tr' = tr [folded wf(2)]
  obtain u fr where U: "u < 32" "u \<noteq> 0" "u \<noteq> g" "sched_ok t [g, u, 0] 2" "main_thread (g_processes t ! 2) = Some u"
    "g_processes t ! 1 = g_processes a ! 1" "ids_ok t" "pmm_wf t" "g_kernel_dir t = g_kernel_dir a"
    "same_outside (free_addrs a) (phys_mem a) (phys_mem t)"
    "\<And>j. j < 32 \<Longrightarrow> j \<noteq> u \<Longrightarrow> thread_core (g_threads t ! j) = thread_core (g_threads a ! j)"
    "irq0_restore 0x10 (saved_context (g_threads t ! u)) (phys_mem t) = user_start (at_user_entry e)"
    "inj_on fr {..<16}" "\<And>w. translate (phys_mem t) (page_dir (g_processes t ! 2)) w = user_space e fr w"
    by (rule user_started [OF A(1-8) slot ids wf(1) M1 room' fit tr', of ?str, folded t]) blast
  have fixed: "fixed_part t = fixed_part s" unfolding t by (simp add: a_def del: append.simps)
  have cr: "cr3 t = cr3 s" "cr0 t = cr0 s" using fixed by (simp_all add: fixed_part_def)
  have ctx: "saved_context (g_threads t ! g) = k + PAGE_SIZE - 68" "kernel_stack_top (g_threads t ! 0) = kernel_stack_top (g_threads s ! 0)"
    using U(11) [of g] U(11) [of 0] U(2,3) A(3) k(1) core0 by (simp_all add: thread_core_def)
  note R = kernel_restore_same_page [OF k(2) U(10) k(3), of "0x10", folded ctx(1)]
  have "fst (setup_kernel_stack (k + PAGE_SIZE) (at_GuiMainLoop e) (phys_mem s)) = k + PAGE_SIZE - 68"
    by (simp add: setup_kernel_stack_def push_all_esp)
  note F = kernel_frame_starts [OF aligned4_page [OF k(2)], of "at_GuiMainLoop e" "phys_mem s", unfolded this, folded k(4)]
  have kd: "translate (phys_mem t) (g_kernel_dir t) w = (if unat w < 0x08000000 then Some w else None)" for w
    using dir_ok_outside(1) [OF M1 U(10) subset_refl, of w] tr' [of w] unfolding U(9) by (simp add: translate_def)
  show ?thesis
  proof (rule that [OF U(4,7,8) _ fixed _ _ ctx(2) kd _ _ _ U(5,12,13,14)])
    show "graphics_ready t" using gr graphics_ready_cong(1) [OF fixed_rest [OF fixed]] by simp
    show "cr3 t = g_kernel_dir t" "bit (cr0 t) 31" using cr mem U(9) wf(2) by (simp_all add: memory_up_def)
    show "main_thread (g_processes t ! 1) = Some g" unfolding U(6) ps by simp
    show "r_cs (irq0_restore 0x10 (saved_context (g_threads t ! g)) (phys_mem t)) = 0x08"
      "r_eip (irq0_restore 0x10 (saved_context (g_threads t ! g)) (phys_mem t)) = at_GuiMainLoop e"
      unfolding R using F(1,2) by (simp_all add: ctx(1))
  qed
qed

subsection \<open>A panic\<close>

lemma panic_parts: "proc_part (kernel_panic str s) = proc_part s" "mem_part (kernel_panic str s) = mem_part s"
proof -
  have "proc_part (kernel_halt t) = proc_part t" "mem_part (kernel_halt t) = mem_part t" for t :: "'a proc_scheme"
    by (simp_all add: kernel_halt_def proc_part_def mem_part_def)
  then show "proc_part (kernel_panic str s) = proc_part s" "mem_part (kernel_panic str s) = mem_part s"
    by (simp_all add: kernel_panic_def Let_def del: screen_write.simps)
qed

text \<open>A line of fewer than 80 characters, written at the start of a line above the last.\<close>

lemma screen_write_line:
  fixes s :: "'a console_scheme"
  assumes "screen_row s < 25" "screen_col s + length str < 80" "list_all (\<lambda>c. c \<noteq> CHR 0x0A) str"
  shows "screen_row (screen_write str s) = screen_row s" "screen_col (screen_write str s) = screen_col s + length str"
    "screen_color (screen_write str s) = screen_color s"
    "vga_text (screen_write str s) = (\<lambda>i.
        if screen_row s * 80 + screen_col s \<le> i \<and> i < screen_row s * 80 + screen_col s + length str
        then vga_entry (str ! (i - (screen_row s * 80 + screen_col s))) (screen_color s) else vga_text s i)"
proof -
  have ok: "screen_ok s" using assms(1,2) by (simp add: screen_ok_def)
  note w = ts.write_line [OF ok assms(3,2), folded screen_write_fold]
  show "screen_row (screen_write str s) = screen_row s" "screen_col (screen_write str s) = screen_col s + length str"
    "vga_text (screen_write str s) = (\<lambda>i.
        if screen_row s * 80 + screen_col s \<le> i \<and> i < screen_row s * 80 + screen_col s + length str
        then vga_entry (str ! (i - (screen_row s * 80 + screen_col s))) (screen_color s) else vga_text s i)"
    using w by blast+
  have "screen_color (screen_putchar c t) = screen_color t" for c and t :: "'a console_scheme"
    by (auto simp: screen_putchar_def Let_def screen_scroll_def)
  then show "screen_color (screen_write str s) = screen_color s" by (induction str arbitrary: s) simp_all
qed

lemma screen_newline:
  assumes "screen_row s < 24"
  shows "screen_row (screen_putchar (CHR 0x0A) s) = screen_row s + 1" "screen_col (screen_putchar (CHR 0x0A) s) = 0"
    "screen_color (screen_putchar (CHR 0x0A) s) = screen_color s" "vga_text (screen_putchar (CHR 0x0A) s) = vga_text s"
  using assms by (simp_all add: screen_putchar_def Let_def const_defs)

lemma screen_writeln_at:
  assumes "screen_row s < 24" "screen_col s = 0" "length str < 80" "list_all (\<lambda>c. c \<noteq> CHR 0x0A) str"
  shows "screen_row (screen_writeln str s) = screen_row s + 1 \<and> screen_col (screen_writeln str s) = 0"
  using assms screen_write_line [of s str] by (simp add: screen_writeln_def screen_newline)

text \<open>A rule of 80 characters goes on to the next line by itself, before its line break.\<close>

lemma header_rule_at:
  fixes s :: "'a console_scheme"
  assumes "screen_row s < 23" "screen_col s = 0"
  shows "screen_row (screen_writeln header_rule s) = screen_row s + 2 \<and> screen_col (screen_writeln header_rule s) = 0"
proof -
  let ?str = "replicate 79 (CHR ''='')"
  have rule: "header_rule = ?str @ [CHR ''='']" by (simp add: header_rule_def numeral_eq_Suc)
  have "screen_write header_rule s = screen_putchar (CHR ''='') (screen_write ?str s)"
    unfolding rule screen_write_fold fold_append by simp
  moreover have "screen_row (screen_write ?str s) = screen_row s" "screen_col (screen_write ?str s) = 79"
    using screen_write_line [of s ?str] assms by (simp_all add: list_all_iff)
  ultimately have "screen_row (screen_write header_rule s) = screen_row s + 1" "screen_col (screen_write header_rule s) = 0"
    using assms(1) by (simp_all add: screen_putchar_def Let_def const_defs)
  then show ?thesis using assms(1) by (simp add: screen_writeln_def screen_newline)
qed

lemma set_color_at [simp]: "screen_row (screen_set_color f b s) = screen_row s" "screen_col (screen_set_color f b s) = screen_col s"
  "vga_text (screen_set_color f b s) = vga_text s"
  by (simp_all add: screen_set_color_def)

lemma show_header_at:
  assumes "screen_row s = 0" "screen_col s = 0"
  shows "screen_row (show_header s) = 9 \<and> screen_col (show_header s) = 0"
  using assms by (simp add: show_header_def Let_def screen_writeln_at header_rule_at del: screen_write.simps)

lemma panic_lines:
  assumes "screen_row s < 22" "screen_col s = 0" "length str < 70" "list_all (\<lambda>c. c \<noteq> CHR 0x0A) str"
  defines "k \<equiv> screen_row s * 80"
  shows "map (vga_text (kernel_panic str s)) [k..<k + 13] = map (\<lambda>c. vga_entry c 0x4F) ''KERNEL PANIC!''"
    "map (vga_text (kernel_panic str s)) [k + 80..<k + 87 + length str] = map (\<lambda>c. vga_entry c 0x4F) (''Error: '' @ str)"
proof -
  obtain p e where p: "p = ''KERNEL PANIC!''" "length p = 13" "list_all (\<lambda>c. c \<noteq> CHR 0x0A) p"
    and e: "e = ''Error: ''" "length e = 7" "list_all (\<lambda>c. c \<noteq> CHR 0x0A) e" by simp
  let ?a = "screen_write p (screen_set_color 15 4 s)"
  let ?b = "screen_write e (screen_putchar (CHR 0x0A) ?a)"
  let ?c = "screen_write str ?b"
  have color: "screen_color (screen_set_color 15 4 s) = 0x4F" by (simp add: screen_set_color_def vga_entry_color_def)
  note A = screen_write_line [of "screen_set_color 15 4 s" p, unfolded set_color_at color p(2), OF _ _ p(3)]
  have a: "screen_row ?a = screen_row s" "screen_color ?a = 0x4F"
    "vga_text ?a = (\<lambda>i. if k \<le> i \<and> i < k + 13 then vga_entry (p ! (i - k)) 0x4F else vga_text s i)"
    using A assms(1,2) by (simp_all add: k_def cong: if_cong)
  note B = screen_write_line [of "screen_putchar (CHR 0x0A) ?a" e, unfolded e(2), OF _ _ e(3)]
  have b: "screen_row ?b = screen_row s + 1" "screen_col ?b = 7" "screen_color ?b = 0x4F"
    "vga_text ?b = (\<lambda>i. if k + 80 \<le> i \<and> i < k + 87 then vga_entry (e ! (i - (k + 80))) 0x4F else vga_text ?a i)"
    using B a(1,2) assms(1) by (simp_all add: screen_newline k_def add.commute cong: if_cong)
  note C = screen_write_line [of ?b str]
  have c: "screen_row ?c = screen_row s + 1"
    "vga_text ?c = (\<lambda>i. if k + 87 \<le> i \<and> i < k + 87 + length str then vga_entry (str ! (i - (k + 87))) 0x4F else vga_text ?b i)"
    using C b(1-3) assms(1,3,4) by (simp_all add: k_def add.commute add.left_commute cong: if_cong)
  have shown: "vga_text (kernel_panic str s) = vga_text ?c"
    unfolding kernel_panic_def p(1) [symmetric] e(1) [symmetric] screen_writeln_def Let_def
    using c(1) assms(1) by (simp add: kernel_halt_def screen_newline)
  show "map (vga_text (kernel_panic str s)) [k..<k + 13] = map (\<lambda>c. vga_entry c 0x4F) ''KERNEL PANIC!''"
    unfolding p(1) [symmetric] by (rule nth_equalityI) (simp_all add: shown c(2) b(4) a(3) p(2))
  show "map (vga_text (kernel_panic str s)) [k + 80..<k + 87 + length str] = map (\<lambda>c. vga_entry c 0x4F) (''Error: '' @ str)"
    unfolding e(1) [symmetric] by (rule nth_equalityI) (auto simp: shown c(2) b(4) nth_append e(2))
qed

subsection \<open>Properties\<close>

text \<open>
  C1: The kernel boots. From the static variables as loaded and the boot loader's magic number, with an
  image and a memory that leave room, \<open>kernel_main\<close> reaches its idle loop, without a panic, with every
  component up: paging over the identity map of 128 MB; the descriptor tables, the gates of all 256
  vectors and the task register loaded, \<open>esp0\<close> the idle thread's stack; the display ready for drawing;
  distinct identifiers; and the scheduler's invariant for three threads of which the idle thread runs:
  the graphical server's starts in ring 0 at \<open>GuiMainLoop\<close>, the user's in ring 3 at its entry point, in
  an address space with its stack, its image and the kernel's memory.
\<close>

theorem kernel_boots:
  fixes s :: "'a mouse_scheme"
  assumes "powered_on s" "boot_fits e mbi"
  shows "\<exists>t g u fr. kernel_main e MULTIBOOT_BOOTLOADER_MAGIC mbi s = Idles t \<and> halted t = halted s
    \<and> sched_ok t [g, u, 0] 2 \<and> ids_ok t \<and> pmm_wf t \<and> graphics_ready t
    \<and> cr3 t = g_kernel_dir t \<and> bit (cr0 t) 31
    \<and> (\<forall>w. translate (phys_mem t) (g_kernel_dir t) w = (if unat w < 0x08000000 then Some w else None))
    \<and> gdtr t = (47, at_gdt e) \<and> idtr t = (2047, at_idt e) \<and> task_register t = 0x28 \<and> desc_base (gdt t ! 5) = at_tss e
    \<and> (\<forall>i < 256. gate_offset (idt t ! i) = handler_of (at_handlers e) i)
    \<and> tss_esp0 (g_tss t) = kernel_stack_top (g_threads t ! 0)
    \<and> main_thread (g_processes t ! 1) = Some g
    \<and> r_eip (irq0_restore 0x10 (saved_context (g_threads t ! g)) (phys_mem t)) = at_GuiMainLoop e
    \<and> r_cs (irq0_restore 0x10 (saved_context (g_threads t ! g)) (phys_mem t)) = 0x08
    \<and> main_thread (g_processes t ! 2) = Some u
    \<and> irq0_restore 0x10 (saved_context (g_threads t ! u)) (phys_mem t) = user_start (at_user_entry e)
    \<and> inj_on fr {..<16} \<and> (\<forall>w. translate (phys_mem t) (page_dir (g_processes t ! 2)) w = user_space e fr w)"
proof -
  have len: "length (gdt s) = 6" using assms(1) by (simp add: powered_on_def)
  obtain m where m: "kernel_main e MULTIBOOT_BOOTLOADER_MAGIC mbi s = Idles (start_processes e m)"
    "memory_up (unat (pmm_end_frame (memory_of mbi)) - 34) m" "idle_up m" "graphics_ready m"
    "gdt m = (gdt (gdt_init (at_gdt e) s))[5 := gdt_entry_of (at_tss e) 103 0x89 0x40]"
    "gdtr m = (47, at_gdt e)" "idtr m = (2047, at_idt e)" "task_register m = 0x28"
    "\<forall>i < 256. idt m ! i = idt_entry_of (handler_of (at_handlers e) i) 0x08 (if i = 0x30 then 0xEE else 0x8E)"
    "g_tss m = tss_zero\<lparr>tss_ss0 := 0x10, tss_esp0 := kernel_stack_top (g_threads m ! 0)\<rparr>" "halted m = halted s"
    by (rule machine_comes_up [OF assms])
  let ?t = "start_processes e m"
  have room: "unat ((at_user_end e - at_user_start e + 4095) div 4096) + 69 \<le> unat (pmm_end_frame (memory_of mbi)) - 34"
    and fit: "unat (page_base (at_user_entry e)) + 4096 * unat ((at_user_end e - at_user_start e + 4095) div 4096) < 4294967296"
    using assms(2) by (auto simp: boot_fits_def Let_def)
  obtain g u fr where P: "sched_ok ?t [g, u, 0] 2" "ids_ok ?t" "pmm_wf ?t" "graphics_ready ?t" "fixed_part ?t = fixed_part m"
    "cr3 ?t = g_kernel_dir ?t" "bit (cr0 ?t) 31" "kernel_stack_top (g_threads ?t ! 0) = kernel_stack_top (g_threads m ! 0)"
    "\<And>w. translate (phys_mem ?t) (g_kernel_dir ?t) w = (if unat w < 0x08000000 then Some w else None)"
    "main_thread (g_processes ?t ! 1) = Some g" "r_cs (irq0_restore 0x10 (saved_context (g_threads ?t ! g)) (phys_mem ?t)) = 0x08"
    "r_eip (irq0_restore 0x10 (saved_context (g_threads ?t ! g)) (phys_mem ?t)) = at_GuiMainLoop e"
    "main_thread (g_processes ?t ! 2) = Some u"
    "irq0_restore 0x10 (saved_context (g_threads ?t ! u)) (phys_mem ?t) = user_start (at_user_entry e)"
    "inj_on fr {..<16}" "\<And>w. translate (phys_mem ?t) (page_dir (g_processes ?t ! 2)) w = user_space e fr w"
    by (rule processes_come_up [OF m(2,3,4) room fit]) blast
  note r = rest_part_fields [OF fixed_rest [OF P(5)]]
  have gates: "\<forall>i < 256. gate_offset (idt ?t ! i) = handler_of (at_handlers e) i" using m(9) r(3) by (simp add: gate_offset_of)
  have "desc_base (gdt ?t ! 5) = at_tss e" using gdt_init_table [OF len, of "at_gdt e"] by (simp add: r(1) m(5) desc_base_of)
  moreover have "gdtr ?t = (47, at_gdt e)" "idtr ?t = (2047, at_idt e)" "task_register ?t = 0x28" "halted ?t = halted s"
    "tss_esp0 (g_tss ?t) = kernel_stack_top (g_threads ?t ! 0)"
    using m(6-8,10,11) r P(8) by simp_all
  ultimately show ?thesis using m(1) P gates by blast
qed

text \<open>A machine at power-on, and one placement of the image as \<open>linker.ld\<close> orders it: the user
  program follows \<open>_kernel_end\<close>.\<close>

definition machine_off :: mouse where
  "machine_off = mouse_on\<lparr>g_VgaDevice := 0, pmm_bitmap := replicate 2048 0, gdt := replicate 6 gdt_entry_zero,
     idt := replicate 256 (idt_entry_of 0 0 0), g_last_pf_addr := 0, g_next_tid := 1, sched_queue_head := None,
     sched_queue_tail := None, g_IoInitialized := False\<rparr>"

definition linked_image :: boot_env where
  "linked_image = \<lparr>at_kernel_end = 0x11A800, at_gdt = 0x110000, at_idt = 0x112000, at_tss = 0x114000,
     at_handlers = linked_handlers, at_kernel_idle = 0x105000, at_VgaDriverEntry = 0x104000, at_VgaDriverUnload = 0x104200,
     at_GuiMainLoop = 0x106000, at_user_start = 0x11B000, at_user_end = 0x11D400, at_user_entry = 0x11B000,
     crtc_splash = 0x8E, crtc_text = 0x0E, crtc_graphics = 0x8E, stack_junk = (\<lambda>_. replicate 12 NUL),
     shown_A0000 = (\<lambda>_. 0), shown_B8000 = (\<lambda>_. 0x20)\<rparr>"

lemma machine_off_ready: "powered_on machine_off" "boot_fits linked_image None"
proof -
  show "powered_on machine_off" by (simp add: powered_on_def machine_off_def pmm_wf_def const_defs)
  have "unat (pmm_end_frame 32768) = 6400" using pmm_end_frame_normal [of 32768] by simp
  then show "boot_fits linked_image None" by (simp add: boot_fits_def linked_image_def memory_of_def page_base_def Let_def)
qed

theorem kernel_boots_witness:
  "\<exists>t g u. kernel_main linked_image MULTIBOOT_BOOTLOADER_MAGIC None machine_off = Idles t
    \<and> sched_ok t [g, u, 0] 2 \<and> graphics_ready t \<and> desc_base (gdt t ! 5) = 0x114000"
  using kernel_boots [OF machine_off_ready] by (auto simp: linked_image_def)

text \<open>
  C17: With any other magic number the kernel stops: below its header, in the tenth and eleventh line of
  the screen, it shows the panic and its reason in white on red, halts, and has
  touched neither the frames, nor memory, nor the process tables.
\<close>

theorem kernel_main_rejects_magic:
  fixes s :: "'a mouse_scheme"
  assumes "powered_on s" "magic \<noteq> 0x2BADB002"
  shows "\<exists>t. kernel_main e magic mbi s = Halts t \<and> halted t
    \<and> map (vga_text t) [720..<733] = map (\<lambda>c. vga_entry c 0x4F) ''KERNEL PANIC!''
    \<and> map (vga_text t) [800..<837] = map (\<lambda>c. vga_entry c 0x4F) ''Error: Invalid multiboot magic number''
    \<and> proc_part t = proc_part s \<and> mem_part t = mem_part s"
proof -
  have s: "g_last_pf_addr s = 0" "length (gdt s) = 6" "length (idt s) = 256"
    using assms(1) by (simp_all add: powered_on_def)
  obtain s1 where s1: "start_machine e s = Idles s1" "proc_part s1 = proc_part s" "mem_part s1 = mem_part s"
    "screen_row s1 = 0" "screen_col s1 = 0"
    by (rule start_machine_result [OF s])
  let ?m = "''Invalid multiboot magic number''" let ?t = "kernel_panic ?m (show_header s1)"
  have "kernel_main e magic mbi s = Halts ?t"
    using assms(2) by (simp add: kernel_main_def s1(1) check_magic_def MULTIBOOT_BOOTLOADER_MAGIC_def)
  moreover have "halted ?t" by (simp add: kernel_panic_def kernel_halt_def Let_def)
  moreover have "proc_part ?t = proc_part s" "mem_part ?t = mem_part s"
    using panic_parts [of ?m "show_header s1"] s1(2,3) by simp_all
  moreover have "list_all (\<lambda>c. c \<noteq> CHR 0x0A) ?m" "length ?m = 30" by simp_all
  note panic_lines [OF _ _ _ this(1), unfolded this(2), of "show_header s1"]
  ultimately show ?thesis using show_header_at [OF s1(4,5)] by simp
qed

theorem kernel_main_rejects_magic_witness:
  "\<exists>t. kernel_main linked_image 0x1BADB002 None machine_off = Halts t \<and> halted t
    \<and> vga_text t 720 = vga_entry (CHR ''K'') 0x4F"
  using kernel_main_rejects_magic [OF machine_off_ready(1), of "0x1BADB002" linked_image None] by (auto simp: upt_conv_Cons)

end
