(* ===== verification/User_Program.thy ===== *)
theory User_Program
  imports Syscall_Entry
begin

unbundle bit_operations_syntax

section \<open>The user program\<close>

text \<open>
  Models \<open>user/gui_user.c\<close>, the program of the process that the kernel starts in ring 3. The program is
  the list of the library calls it makes: \<open>user_opening\<close> up to its loop, and one \<open>user_turn\<close> for every
  answer of \<open>sys_get_mouse_event\<close>. A call carries its strings themselves; \<open>user_data\<close> says where the
  program keeps them, and \<open>library_call\<close> loads the registers for the kernel.

  The lemmas show what the log lines say and that they fit their buffers, how the loop follows the
  start button, and, with the model of the kernel's side, what the opening puts on the screen.
\<close>

subsection \<open>The log of an event\<close>

record sys_mouse =
  ms_x :: u32
  ms_y :: u32
  ms_buttons :: u32

text \<open>\<open>while (v) { dec[di++] = '0' + (v % 10); v /= 10; }\<close>, where C divides towards zero.\<close>

function put_decimal :: "int \<Rightarrow> string \<Rightarrow> string" where
  "put_decimal v dec =
     (if v \<noteq> 0 then put_decimal (v sdiv 10) (dec @ [char_at (of_int (0x30 + v smod 10))]) else dec)"
  by pat_completeness auto
termination
proof (relation "measure (\<lambda>(v, _). nat \<bar>v\<bar>)")
  show "((v sdiv 10, dec @ [char_at (of_int (0x30 + v smod 10))]), v, dec) \<in> measure (\<lambda>(v, _). nat \<bar>v\<bar>)"
    if "v \<noteq> 0" for v dec
    using that by (auto simp: signed_divide_int_def sgn_mult abs_mult)
qed simp

declare put_decimal.simps [simp del]

definition log_int :: "u32 \<Rightarrow> string \<Rightarrow> string" where
  "log_int v buf =
     (let (buf, v) = (if sint v < 0 then (buf @ ''-'', - v) else (buf, v));
          dec = (if v = 0 then ''0'' else []);
          dec = put_decimal (sint v) dec
      in buf @ rev dec)"

definition event_line :: "sys_mouse \<Rightarrow> string" where
  "event_line ms =
     (let buf = ''[user event] '';
          buf = log_int (ms_x ms) buf;
          buf = buf @ '' '' @ ''y='';
          buf = log_int (ms_y ms) buf;
          buf = buf @ '' '' @ ''btn='';
          buf = log_int (ms_buttons ms) buf
      in buf @ crlf)"

text \<open>The digits of an address, from the last to the first, into nine bytes of the stack.\<close>

definition user_hex :: "string \<Rightarrow> u32 \<Rightarrow> string" where
  "user_hex hex ptr =
     (let hex = fold (\<lambda>i hex. hex[7 - i := hex_digit ptr (i * 4)]) [0..<8] hex
      in cstr (hex[8 := NUL]))"

subsection \<open>The calls\<close>

datatype user_call =
    Debug string
  | Draw_Desktop
  | Draw_Taskbar
  | Draw_Window int int int int string
  | Draw_Window_Text int int string u8
  | Get_Mouse_Event
  | Yield

text \<open>Where the program's strings, its window, its mouse buffer and \<open>hex\<close> lie; what the stack held in \<open>hex\<close>.\<close>

record user_data =
  at_text :: "string \<Rightarrow> u32"
  at_welcome :: u32
  at_ms :: u32
  hex_junk :: string

fun library_call :: "user_data \<Rightarrow> user_call \<Rightarrow> cpu_regs \<Rightarrow> cpu_regs" where
  "library_call d (Debug str) = sys_debug (at_text d str)"
| "library_call d Draw_Desktop = sys_gui_draw_desktop"
| "library_call d Draw_Taskbar = sys_gui_draw_taskbar"
| "library_call d (Draw_Window x y w h title) = sys_gui_draw_window x y w h (at_text d title)"
| "library_call d (Draw_Window_Text rx ry txt fg) = sys_gui_draw_window_text (at_welcome d) rx ry (at_text d txt) fg"
| "library_call d Get_Mouse_Event = sys_get_mouse_event (at_ms d)"
| "library_call d Yield = sys_yield"

definition welcome_title :: string where
  "welcome_title = ''Bienvenido - System Operative Edit''"

definition welcome_window :: gui_window where
  "welcome_window = \<lparr>win_x = 150, win_y = 80, win_w = 340, win_h = 120, win_title = Some welcome_title, win_visible = 1\<rparr>"

definition user_opening :: "user_data \<Rightarrow> user_call list" where
  "user_opening d =
     [Debug (''[user] entered Ring3'' @ crlf),
      Debug (''about to draw desktop'' @ crlf), Draw_Desktop, Debug (''desktop done'' @ crlf),
      Debug (''about to draw taskbar'' @ crlf), Draw_Taskbar, Debug (''taskbar done'' @ crlf),
      Debug ''welcome addr=0x'', Debug (user_hex (hex_junk d) (at_welcome d)), Debug crlf,
      Debug (''about to draw welcome window'' @ crlf),
      Draw_Window (win_x welcome_window) (win_y welcome_window) (win_w welcome_window) (win_h welcome_window) welcome_title,
      Debug (''window done'' @ crlf),
      Debug (''about to draw window text'' @ crlf),
      Draw_Window_Text 10 10 ''Sistema iniciado correctamente.'' VGA_COLOR_BLACK,
      Draw_Window_Text 10 22 ''Universidad de Guayaquil v0.1'' VGA_COLOR_DARK_GRAY,
      Debug (''window text done'' @ crlf),
      Draw_Taskbar]"

text \<open>One turn of the loop once \<open>sys_get_mouse_event\<close> has answered \<open>ret\<close>, with \<open>ms\<close> in the buffer.\<close>

definition user_turn :: "bool \<Rightarrow> u32 \<Rightarrow> sys_mouse \<Rightarrow> bool \<times> user_call list" where
  "user_turn start_pressed ret ms =
     (if ret = 0 then
        let left = (ms_buttons ms AND 1 \<noteq> 0); x = sint (ms_x ms); y = sint (ms_y ms);
            (start_pressed, draw) =
              (if left \<and> \<not> start_pressed \<and> x \<ge> 2 \<and> x < 38 \<and> y \<ge> 471 \<and> y < 471 + 8 then (True, [Draw_Taskbar])
               else if \<not> left \<and> start_pressed then (False, [Draw_Taskbar])
               else (start_pressed, []))
        in (start_pressed, [Debug (event_line ms)] @ draw
              @ (if left then [Debug (''[user] left click'' @ crlf)] else [])
              @ (if ms_buttons ms AND 2 \<noteq> 0 then [Debug (''[user] right click'' @ crlf)] else [])
              @ [Yield])
      else (start_pressed, [Yield]))"

primrec user_loop :: "bool \<Rightarrow> (u32 \<times> sys_mouse) list \<Rightarrow> bool \<times> user_call list" where
  "user_loop start_pressed [] = (start_pressed, [])"
| "user_loop start_pressed (a # as) =
     (let (start_pressed, calls) = user_turn start_pressed (fst a) (snd a);
          (start_pressed, rest) = user_loop start_pressed as
      in (start_pressed, Get_Mouse_Event # calls @ rest))"

definition user_entry :: "user_data \<Rightarrow> (u32 \<times> sys_mouse) list \<Rightarrow> user_call list" where
  "user_entry d answers = user_opening d @ snd (user_loop False answers)"

subsection \<open>What the lines say\<close>

lemma put_decimal_nonneg: "0 \<le> v \<Longrightarrow> put_decimal v dec = put_digits v dec"
proof (induction v dec rule: put_digits.induct)
  case (1 v dec)
  have d: "v sdiv 10 = v div 10" "v smod 10 = v mod 10"
    using 1(2) by (auto simp: signed_divide_int_def signed_modulo_int_def sgn_if minus_div_mult_eq_mod)
  show ?case
  proof (cases "v = 0")
    case True
    then show ?thesis by (simp add: put_decimal.simps put_digits.simps)
  next
    case False
    then show ?thesis using 1 by (subst put_decimal.simps, subst put_digits.simps) (simp add: d)
  qed
qed

lemma put_decimal_zero [simp]: "put_decimal 0 dec = dec"
  by (simp add: put_decimal.simps)

lemma put_decimal_append: "put_decimal v dec = dec @ put_decimal v []"
proof (induction "nat \<bar>v\<bar>" arbitrary: v dec rule: less_induct)
  case less
  show ?case
  proof (cases "v = 0")
    case False
    then have smaller: "nat \<bar>v sdiv 10\<bar> < nat \<bar>v\<bar>" by (auto simp: signed_divide_int_def sgn_mult abs_mult)
    let ?d = "[char_at (of_int (48 + v smod 10))]"
    have "put_decimal v dec = put_decimal (v sdiv 10) (dec @ ?d)" for dec
      using False by (subst put_decimal.simps) simp
    then show ?thesis using less [OF smaller, of "dec @ ?d"] less [OF smaller, of ?d] by simp
  qed simp
qed

lemma put_decimal_step:
  "v \<noteq> 0 \<Longrightarrow> put_decimal v [] = char_at (of_int (48 + v smod 10)) # put_decimal (v sdiv 10) []"
  using put_decimal_append [of "v sdiv 10" "[char_at (of_int (48 + v smod 10))]"]
  by (subst put_decimal.simps) simp

lemma put_decimal_length: "\<bar>v\<bar> < 10 ^ k \<Longrightarrow> length (put_decimal v []) \<le> k"
proof (induction k arbitrary: v)
  case 0
  then show ?case by (simp add: put_decimal.simps)
next
  case (Suc k)
  then have "\<bar>v sdiv 10\<bar> < 10 ^ k" by (auto simp: signed_divide_int_def abs_mult sgn_mult)
  then show ?case using Suc.IH [of "v sdiv 10"] by (cases "v = 0") (simp_all add: put_decimal_step)
qed

lemma digit_not_NUL: "char_at (of_int (48 + v smod 10)) \<noteq> NUL"
proof
  assume "char_at (of_int (48 + v smod 10)) = NUL"
  then have "(of_int (48 + v smod 10) :: u8) = 0" using byte_of_char_at [of "of_int (48 + v smod 10)"] by (simp add: byte_of_def)
  moreover have "- 10 < v smod 10" "v smod 10 < 10" using smod_int_range [of 10 v] by auto
  ultimately show False
    using zdvd_imp_le [of 256 "48 + v smod 10"] by (simp add: word_of_int_eq_0_iff del: of_int_add)
qed

lemma put_decimal_no_NUL: "NUL \<notin> set (put_decimal v [])"
proof (induction "nat \<bar>v\<bar>" arbitrary: v rule: less_induct)
  case less
  show ?case
  proof (cases "v = 0")
    case False
    then have "nat \<bar>v sdiv 10\<bar> < nat \<bar>v\<bar>" by (auto simp: signed_divide_int_def sgn_mult abs_mult)
    then show ?thesis using less digit_not_NUL [of v] False by (simp add: put_decimal_step)
  qed simp
qed

text \<open>But for the most negative number, whose digits come out below \<open>'0'\<close>, it is the text of \<open>VgaDrawInt\<close>.\<close>

lemma log_int_eq: "log_int v buf = buf @ log_int v []"
  by (simp add: log_int_def)

lemma log_int_cons: "log_int v (c # buf) = c # buf @ log_int v []"
  using log_int_eq [of v "c # buf"] by simp

lemma log_int_text:
  assumes "v \<noteq> 0x80000000"
  shows "log_int v [] = int_text v"
proof -
  define m where "m = (if sint v < 0 then - v else v)"
  have "sint m \<ge> 0"
  proof (cases "sint v < 0")
    case True
    have v: "of_int (sint v) = v" "- 2147483648 \<le> sint v" using sint_range_size [of v] by (simp_all add: word_size)
    then have "sint v \<noteq> - 2147483648" using assms by fastforce
    moreover have "- v = of_int (- sint v)" using v(1) by simp
    ultimately have "sint (- v) = - sint v"
      using v(2) True by (simp add: signed_of_int signed_take_bit_int_eq_self del: of_int_minus)
    then show ?thesis using True by (simp add: m_def)
  qed (simp add: m_def)
  then have digits: "put_decimal (sint m) dec = dec @ put_digits (sint m) []" for dec
    using put_decimal_nonneg put_digits_append by metis
  have "log_int v [] = (if sint v < 0 then ''-'' else []) @ rev (put_decimal (sint m) (if m = 0 then ''0'' else []))"
    by (simp add: log_int_def m_def)
  then show ?thesis unfolding digits int_text_eq m_def [symmetric] by (simp add: Let_def m_def)
qed

lemma log_int_fits: "length (log_int v []) \<le> 11" "NUL \<notin> set (log_int v [])"
proof -
  define m where "m = (if sint v < 0 then - v else v)"
  define dec where "dec = put_decimal (sint m) (if m = 0 then ''0'' else [])"
  have l: "log_int v [] = (if sint v < 0 then ''-'' else []) @ rev dec" by (simp add: log_int_def m_def dec_def)
  have "- 2147483648 \<le> sint m" "sint m < 2147483648" using sint_range_size [of m] by (simp_all add: word_size)
  then have "length (put_decimal (sint m) []) \<le> 10" by (intro put_decimal_length) simp
  moreover have "dec = (if m = 0 then ''0'' else put_decimal (sint m) [])" by (simp add: dec_def)
  ultimately have "length dec \<le> 10" "NUL \<notin> set dec" using put_decimal_no_NUL by auto
  then show "length (log_int v []) \<le> 11" "NUL \<notin> set (log_int v [])" by (simp_all add: l)
qed

lemma hex_digit_not_NUL: "hex_digit v i \<noteq> NUL"
proof -
  have "unat (drop_bit i v AND 0xF) < length hex_digits"
    by (simp add: unat_nibble hex_digits_def)
  then have "hex_digit v i \<in> set hex_digits" unfolding hex_digit_def by (rule nth_mem)
  moreover have "NUL \<notin> set hex_digits" by (simp add: hex_digits_def)
  ultimately show ?thesis by metis
qed

lemma user_hex_digits:
  assumes "length hex = 9"
  shows "user_hex hex v = hex8 v"
proof -
  obtain a b c d e f g h i where h: "hex = [a, b, c, d, e, f, g, h, i]"
    using assms by (auto simp: length_Suc_conv numeral_eq_Suc)
  have "user_hex hex v = cstr (hex8 v @ [NUL])" by (simp add: h user_hex_def hex8_digits upt_rec)
  then show ?thesis
    using cstr_append [of "hex8 v" "[]"] by (simp add: hex8_digits hex_digit_not_NUL [symmetric])
qed

text \<open>
  C16: Each event the program gets is logged as its three numbers, in decimal and with their signs (the
  most negative number apart, whose digits the code gets wrong). For every event the line with its
  final zero fits the 64 bytes of \<open>buf\<close>, no number takes more than 11 of the 12 bytes of \<open>dec\<close>, and
  the kernel shows the line as a whole: it has no zero in it and fits the kernel's own buffer.
\<close>

theorem event_line_denotes_event:
  "(\<exists>dx dy db. event_line ms = ''[user event] '' @ dx @ '' y='' @ dy @ '' btn='' @ db @ crlf
      \<and> (ms_x ms \<noteq> 0x80000000 \<longrightarrow> int_value dx = Some (sint (ms_x ms)))
      \<and> (ms_y ms \<noteq> 0x80000000 \<longrightarrow> int_value dy = Some (sint (ms_y ms)))
      \<and> (ms_buttons ms \<noteq> 0x80000000 \<longrightarrow> int_value db = Some (sint (ms_buttons ms)))
      \<and> length dx \<le> 11 \<and> length dy \<le> 11 \<and> length db \<le> 11)
    \<and> length (event_line ms) + 1 \<le> 64 \<and> cstr (event_line ms) = event_line ms"
proof -
  let ?t = "\<lambda>v. log_int v []"
  have e: "event_line ms = ''[user event] '' @ ?t (ms_x ms) @ '' y='' @ ?t (ms_y ms) @ '' btn='' @ ?t (ms_buttons ms) @ crlf"
    by (simp add: event_line_def log_int_cons)
  have v: "v \<noteq> 0x80000000 \<longrightarrow> int_value (?t v) = Some (sint v)" for v
    using int_text_denotes log_int_text by simp
  have fits: "length (event_line ms) + 1 \<le> 64"
    using log_int_fits(1) [of "ms_x ms"] log_int_fits(1) [of "ms_y ms"] log_int_fits(1) [of "ms_buttons ms"]
    by (simp add: e crlf_def)
  have "\<forall>c \<in> set (event_line ms). c \<noteq> NUL" using log_int_fits(2) by (auto simp: e crlf_def)
  then have whole: "cstr (event_line ms) = event_line ms" by (simp add: cstr_def)
  show ?thesis
  proof (intro conjI exI)
    show "event_line ms = ''[user event] '' @ ?t (ms_x ms) @ '' y='' @ ?t (ms_y ms) @ '' btn='' @ ?t (ms_buttons ms) @ crlf"
      by (rule e)
  qed (rule v log_int_fits fits whole)+
qed

theorem event_line_denotes_event_witness:
  "\<exists>dx dy db. event_line \<lparr>ms_x = - 7, ms_y = 479, ms_buttons = 1\<rparr> = ''[user event] '' @ dx @ '' y='' @ dy @ '' btn='' @ db @ crlf
    \<and> int_value dx = Some (- 7) \<and> int_value dy = Some 479 \<and> int_value db = Some 1"
  using event_line_denotes_event [of "\<lparr>ms_x = - 7, ms_y = 479, ms_buttons = 1\<rparr>", THEN conjunct1] by simp blast

subsection \<open>The start button\<close>

text \<open>What the loop is to remember: the button is down from a press inside it until the release.\<close>

definition start_button :: "sys_mouse \<Rightarrow> bool \<Rightarrow> bool" where
  "start_button ms pressed \<longleftrightarrow> ms_buttons ms AND 1 \<noteq> 0
     \<and> (pressed \<or> GuiHitTest (sint (ms_x ms)) (sint (ms_y ms)) 2 471 36 8)"

primrec toggles :: "bool \<Rightarrow> sys_mouse list \<Rightarrow> nat" where
  "toggles p [] = 0"
| "toggles p (ms # es) = (if start_button ms p = p then 0 else 1) + toggles (start_button ms p) es"

definition events_of :: "(u32 \<times> sys_mouse) list \<Rightarrow> sys_mouse list" where
  "events_of as = map snd (filter (\<lambda>a. fst a = 0) as)"

definition event_texts :: "sys_mouse \<Rightarrow> string list" where
  "event_texts ms = [event_line ms]
     @ (if ms_buttons ms AND 1 \<noteq> 0 then [''[user] left click'' @ crlf] else [])
     @ (if ms_buttons ms AND 2 \<noteq> 0 then [''[user] right click'' @ crlf] else [])"

fun texts_of :: "user_call list \<Rightarrow> string list" where
  "texts_of [] = []"
| "texts_of (Debug str # cs) = str # texts_of cs"
| "texts_of (c # cs) = texts_of cs"

lemma texts_of_append [simp]: "texts_of (cs @ ds) = texts_of cs @ texts_of ds"
  by (induction cs rule: texts_of.induct) simp_all

lemma user_turn_follows:
  "fst (user_turn p ret ms) = (if ret = 0 then start_button ms p else p)"
  "count_list (snd (user_turn p ret ms)) Draw_Taskbar = (if ret = 0 \<and> start_button ms p \<noteq> p then 1 else 0)"
  "texts_of (snd (user_turn p ret ms)) = (if ret = 0 then event_texts ms else [])"
  "\<exists>cs. snd (user_turn p ret ms) = cs @ [Yield] \<and> set cs \<subseteq> insert Draw_Taskbar (range Debug)"
  by (auto simp: user_turn_def start_button_def GuiHitTest_def INT32_id event_texts_def Let_def split_beta)

text \<open>
  C15: The loop follows the start button. Over any answers of the kernel it asks for an event and yields
  once a turn; the task bar is drawn once for every press inside the button and every release after
  one, and nothing else is drawn; the lines it logs are those of the events it got, each event's line
  first and its clicks after, in the order of the events.
\<close>

theorem user_loop_follows_start_button:
  "fst (user_loop p as) = fold start_button (events_of as) p
    \<and> count_list (snd (user_loop p as)) Draw_Taskbar = toggles p (events_of as)
    \<and> texts_of (snd (user_loop p as)) = concat (map event_texts (events_of as))
    \<and> count_list (snd (user_loop p as)) Get_Mouse_Event = length as
    \<and> count_list (snd (user_loop p as)) Yield = length as
    \<and> set (snd (user_loop p as)) \<subseteq> {Draw_Taskbar, Get_Mouse_Event, Yield} \<union> range Debug"
proof (induction as arbitrary: p)
  case Nil
  then show ?case by (simp add: events_of_def)
next
  case (Cons a as)
  obtain q cs where q: "user_turn p (fst a) (snd a) = (q, cs)" by fastforce
  note T = user_turn_follows [of p "fst a" "snd a", unfolded q fst_conv snd_conv]
  from T(4) obtain ds where ds: "cs = ds @ [Yield]" "set ds \<subseteq> insert Draw_Taskbar (range Debug)" by blast
  then have "count_list ds Get_Mouse_Event = 0" "count_list ds Yield = 0" by (auto simp: count_list_0_iff)
  then show ?case
    using Cons.IH [of q] T(1-3) ds by (auto simp: q split_beta events_of_def)
qed

subsection \<open>Memory that a call leaves alone\<close>

text \<open>
  A call changes the frame \<open>k\<close> of the thread's kernel stack only. An address of the program is \<open>apart\<close>
  from it when neither the directory, nor its table, nor its own frame is \<open>k\<close>.
\<close>

definition apart :: "u32 \<Rightarrow> 'a vmm_scheme \<Rightarrow> u32 \<Rightarrow> bool" where
  "apart k s w \<longleftrightarrow> k \<notin> {page_base (cr3 s), table_frame s w, buffer_frame s w}"

lemma apart_same:
  assumes "apart k s w" "same_outside {k} (phys_mem s) (phys_mem t)" "cr3 t = cr3 s"
  shows "is_user_ptr w t = is_user_ptr w s" "virt_load w t = virt_load w s" "apart k t w"
proof -
  let ?d = "page_base (cr3 s)"
  have k: "?d \<notin> {k}" "table_frame s w \<notin> {k}" "buffer_frame s w \<noteq> k" using assms(1) by (auto simp: apart_def)
  have walk: "page_walk (phys_mem t) ?d w = page_walk (phys_mem s) ?d w"
    by (rule page_walk_outside [OF assms(2) page_page_base k(1)]) (use k(2) in \<open>simp add: table_frame_def\<close>)
  then have tr: "translate (phys_mem t) ?d w = translate (phys_mem s) ?d w" by (simp add: translate_def)
  show "is_user_ptr w t = is_user_ptr w s" using walk by (simp add: is_user_ptr_eq user_access_def assms(3))
  have "phys_mem t q = phys_mem s q" if "translate (phys_mem s) ?d w = Some q" for q
    using assms(2) k(3) that by (simp add: same_outside_def buffer_frame_def)
  then show "virt_load w t = virt_load w s"
    by (cases "translate (phys_mem s) ?d w") (simp_all add: virt_load_def tr assms(3))
  have "read_entry (phys_mem t) ?d (pde_index w) = read_entry (phys_mem s) ?d (pde_index w)"
    by (rule read_entry_outside [OF assms(2) page_page_base index_bounds(1) k(1)])
  then show "apart k t w" using assms(1) tr by (simp add: apart_def table_frame_def buffer_frame_def assms(3))
qed

definition text_ready :: "u32 \<Rightarrow> 'a vmm_scheme \<Rightarrow> u32 \<Rightarrow> string \<Rightarrow> bool" where
  "text_ready k s p str \<longleftrightarrow> user_string 127 s p str \<and> (\<forall>j \<le> length str. apart k s (p + of_nat j))"

lemma text_ready_same:
  assumes "text_ready k s p str" "same_outside {k} (phys_mem s) (phys_mem t)" "cr3 t = cr3 s"
  shows "text_ready k t p str"
proof -
  have "user_char t (p + of_nat j) c = user_char s (p + of_nat j) c" "apart k t (p + of_nat j)" if "j \<le> length str" for j c
    using apart_same [OF _ assms(2,3), of "p + of_nat j"] assms(1) that by (simp_all add: text_ready_def user_char_def)
  then show ?thesis using assms(1) by (simp add: text_ready_def user_string_def)
qed

text \<open>The six words of a \<open>GUI_WINDOW\<close> with its title at \<open>title\<close>.\<close>

definition welcome_words :: "u32 \<Rightarrow> u32 list" where
  "welcome_words title = [150, 80, 340, 120, title, 1]"

definition window_ready :: "u32 \<Rightarrow> 'a vmm_scheme \<Rightarrow> user_data \<Rightarrow> bool" where
  "window_ready k s d \<longleftrightarrow>
     (\<forall>j < 24. is_user_ptr (at_welcome d + of_nat j) s \<and> apart k s (at_welcome d + of_nat j))
     \<and> (\<forall>j < 6. user_word s (at_welcome d + 4 * of_nat j) = welcome_words (at_text d welcome_title) ! j)"

lemma window_ready_same:
  assumes "window_ready k s d" "same_outside {k} (phys_mem s) (phys_mem t)" "cr3 t = cr3 s"
  shows "window_ready k t d"
proof -
  let ?p = "at_welcome d"
  have byte: "is_user_ptr (?p + of_nat j) t" "virt_load (?p + of_nat j) t = virt_load (?p + of_nat j) s"
    "apart k t (?p + of_nat j)" if "j < 24" for j
    using apart_same [OF _ assms(2,3), of "?p + of_nat j"] assms(1) that by (simp_all add: window_ready_def)
  have "user_word t (?p + 4 * of_nat j) = user_word s (?p + 4 * of_nat j)" if "j < 6" for j
    using byte(2) [of "4 * j"] byte(2) [of "4 * j + 1"] byte(2) [of "4 * j + 2"] byte(2) [of "4 * j + 3"] that
    by (simp add: user_word_def load32_def ac_simps)
  then show ?thesis using byte assms(1) by (simp add: window_ready_def)
qed

lemma copy_in_all:
  assumes "\<forall>j < i + n. is_user_ptr (p + of_nat j) s" "i + n \<le> length d"
  shows "copy_in n p i s d = (True, take i d @ map (\<lambda>j. the (virt_load (p + of_nat j) s)) [i..<i + n] @ drop (i + n) d)"
  using assms
proof (induction n arbitrary: i d)
  case 0
  then show ?case by simp
next
  case (Suc n)
  let ?b = "the (virt_load (p + of_nat i) s)"
  have "copy_in n p (i + 1) s (d[i := ?b])
      = (True, take (i + 1) (d[i := ?b]) @ map (\<lambda>j. the (virt_load (p + of_nat j) s)) [i + 1..<i + 1 + n] @ drop (i + 1 + n) (d[i := ?b]))"
    by (rule Suc.IH) (use Suc.prems in auto)
  moreover have "take (i + 1) (d[i := ?b]) = take i d @ [?b]" using Suc.prems(2) by (simp add: take_Suc_conv_app_nth)
  moreover have split: "[i..<i + Suc n] = i # [i + 1..<i + 1 + n]" by (simp add: upt_conv_Cons)
  ultimately show ?case using Suc.prems(1) unfolding split by simp
qed

lemma window_copied:
  assumes "window_ready k s d"
  shows "\<exists>bs. copy_from_user (replicate 24 0) (at_welcome d) 24 s = (True, bs)
    \<and> win_x (window_of_bytes bs) = win_x welcome_window \<and> win_y (window_of_bytes bs) = win_y welcome_window"
proof -
  let ?p = "at_welcome d"
  define bs where "bs = map (\<lambda>j. the (virt_load (?p + of_nat j) s)) [0..<24]"
  have "copy_from_user (replicate 24 0) ?p 24 s = (True, bs)"
    unfolding copy_from_user_def bs_def by (subst copy_in_all) (use assms in \<open>simp_all add: window_ready_def\<close>)
  moreover have "load32 (\<lambda>i. bs ! unat i) 0 = user_word s (?p + 4 * of_nat 0)"
    "load32 (\<lambda>i. bs ! unat i) 4 = user_word s (?p + 4 * of_nat 1)"
    by (simp_all add: bs_def load32_def user_word_def add.assoc)
  moreover have "user_word s (?p + 4 * of_nat 0) = 150" "user_word s (?p + 4 * of_nat 1) = 80"
    using assms unfolding window_ready_def welcome_words_def by (metis nth_Cons_0 nth_Cons_Suc One_nat_def zero_less_numeral
        one_less_numeral_iff semiring_norm(76))+
  ultimately show ?thesis by (simp add: window_of_bytes_def welcome_window_def)
qed

subsection \<open>What the calls show\<close>

lemma same_picture_silent:
  assumes "undrawn s' = undrawn s" "g_shadow s' = g_shadow s"
  shows "same_picture A s' t = same_picture A s t" "same_picture A t s' = same_picture A t s"
  using undrawn_ready [OF assms(1)] assms(2) by (auto simp: same_picture_def VgaGetPixel_def)

lemma same_picture_serial [simp]:
  "same_picture A (serial_puts a s) t = same_picture A s t" "same_picture A t (serial_puts a s) = same_picture A t s"
  by (rule same_picture_silent; simp)+

abbreviation int_range :: "int set" where
  "int_range \<equiv> {- (2 ^ 31)..<2 ^ 31}"

lemma same_picture_rect:
  assumes "same_picture A s t" "x \<in> int_range" "w \<in> int_range"
  shows "same_picture A (VgaFillRect x y w h c s) (VgaFillRect x y w h c t)"
proof (cases "0 < w \<and> 0 < h")
  case True
  then have "int_span x w" "0 < h" using assms(2,3) by (simp_all add: int_span_def)
  then show ?thesis by (rule same_picture_again [OF assms(1)])
next
  case False
  then have "VgaFillRect x y w h c s = serial_puts (''[vga] VgaFillRect start'' @ [CHR 0x0A]) s"
    "VgaFillRect x y w h c t = serial_puts (''[vga] VgaFillRect start'' @ [CHR 0x0A]) t"
    by (auto simp: VgaFillRect_def Let_def not_less)
  then show ?thesis using assms(1) by simp
qed

lemma wrapped_int_range: "INT32 z \<in> int_range"
  using INT32_bounds [of z] by simp

lemma same_picture_window:
  assumes "same_picture A s t" "win_x win \<in> int_range" "win_w win \<in> int_range"
  shows "same_picture A (GuiDrawWindow (Some win) s) (GuiDrawWindow (Some win) t)"
proof (cases "win_visible win = 0")
  case True
  then show ?thesis using assms by (simp add: GuiDrawWindow_def)
next
  case False
  have bar: "same_picture A u v \<Longrightarrow> same_picture A
      (case win_title win of None \<Rightarrow> u | Some str \<Rightarrow> VgaDrawString x y str f b u)
      (case win_title win of None \<Rightarrow> v | Some str \<Rightarrow> VgaDrawString x y str f b v)" for u v x y f b
    by (simp add: same_picture_string split: option.split)
  show ?thesis
    unfolding GuiDrawWindow_def option.case Let_def GuiDrawHLine_def GuiDrawVLine_def
    by (simp only: False if_False, intro same_picture_rect same_picture_button bar wrapped_int_range assms)
      (use INT32_bounds in \<open>simp_all add: BUTTON_W_def BUTTON_H_def int_span_def\<close>)
qed

text \<open>What each call is for.\<close>

primrec call_effect :: "user_call \<Rightarrow> 'a vga_scheme \<Rightarrow> 'a vga_scheme" where
  "call_effect (Debug str) s = s"
| "call_effect Draw_Desktop s = GuiDrawDesktop s"
| "call_effect Draw_Taskbar s = GuiDrawTaskbar s"
| "call_effect (Draw_Window x y w h title) s =
     GuiDrawWindow (Some \<lparr>win_x = x, win_y = y, win_w = w, win_h = h, win_title = Some title, win_visible = 1\<rparr>) s"
| "call_effect (Draw_Window_Text rx ry txt fg) s = GuiDrawWindowText (Some welcome_window) rx ry (Some txt) fg s"
| "call_effect Get_Mouse_Event s = s"
| "call_effect Yield s = s"

definition call_ints :: "user_call \<Rightarrow> bool" where
  "call_ints c \<longleftrightarrow> (case c of Draw_Window x y w h title \<Rightarrow> x \<in> int_range \<and> w \<in> int_range | _ \<Rightarrow> True)"

lemma call_effect_picture:
  assumes "same_picture A s t" "call_ints c"
  shows "same_picture A (call_effect c s) (call_effect c t)"
proof (cases c)
  case Draw_Desktop
  then show ?thesis unfolding call_effect.simps GuiDrawDesktop_def Let_def Draw_Desktop
    by (intro same_picture_string same_picture_rect assms(1)) simp_all
next
  case Draw_Taskbar
  then show ?thesis unfolding call_effect.simps GuiDrawTaskbar_def Let_def GuiDrawHLine_def Draw_Taskbar
    by (intro same_picture_string same_picture_rect same_picture_button assms(1)) (simp_all add: int_span_def)
next
  case (Draw_Window x y w h title)
  then show ?thesis using same_picture_window [OF assms(1)] assms(2) by (simp add: call_ints_def)
next
  case (Draw_Window_Text rx ry str fg)
  then show ?thesis using same_picture_string [OF assms(1)] by (simp add: GuiDrawWindowText_def)
qed (simp_all add: assms)

primrec call_ready :: "u32 \<Rightarrow> user_data \<Rightarrow> 'a vmm_scheme \<Rightarrow> user_call \<Rightarrow> bool" where
  "call_ready k d s (Debug str) = True"
| "call_ready k d s Draw_Desktop = True"
| "call_ready k d s Draw_Taskbar = True"
| "call_ready k d s (Draw_Window x y w h title) =
     ({x, y, w, h} \<subseteq> int_range \<and> 0 \<le> x \<and> 18 \<le> w \<and> x + w + 3 \<le> 640 \<and> text_ready k s (at_text d title) title)"
| "call_ready k d s (Draw_Window_Text rx ry txt fg) =
     ({rx, ry} \<subseteq> int_range \<and> text_ready k s (at_text d txt) txt \<and> window_ready k s d)"
| "call_ready k d s Get_Mouse_Event = False"
| "call_ready k d s Yield = False"

lemma call_ready_ints: "call_ready k d s c \<Longrightarrow> call_ints c"
  by (cases c) (simp_all add: call_ints_def)

lemma call_ready_same:
  "\<lbrakk>call_ready k d s c; same_outside {k} (phys_mem s) (phys_mem t); cr3 t = cr3 s\<rbrakk> \<Longrightarrow> call_ready k d t c"
  by (cases c) (auto intro: text_ready_same window_ready_same)

lemma sint_int_range: "x \<in> int_range \<Longrightarrow> sint (word_of_int x :: u32) = x"
  by (simp add: Word.signed_of_int signed_take_bit_int_eq_self_iff)

lemma u32_to_u8_ucast: "u32_to_u8 (ucast c) = c"
  by (rule bit_word_eqI) (simp add: bit_unsigned_iff)

lemma debug_shows: "\<exists>v log. sys_debug_case f b s = Returns v (serial_puts log s)"
proof -
  have "serial_puts p (serial_puts q s) = serial_puts (q @ p) s" for p q by (simp add: serial_puts_eq)
  then show ?thesis unfolding sys_debug_case_def Let_def split_beta by (simp split: if_split) blast
qed

lemma window_text_shows:
  assumes "text_ready k s p str" "window_ready k s d" "128 \<le> length (cf_stack f)" "b \<in> int_range" "c \<in> int_range"
  shows "sys_gui_draw_window_text_case f (at_welcome d) (word_of_int b) (word_of_int c) p (ucast fg) s
    = Returns 0 (GuiDrawWindowText (Some welcome_window) b c (Some str) fg s)"
proof -
  from window_copied [OF assms(2)] obtain bs where bs: "copy_from_user (replicate 24 0) (at_welcome d) 24 s = (True, bs)"
    "win_x (window_of_bytes bs) = win_x welcome_window" "win_y (window_of_bytes bs) = win_y welcome_window" by blast
  have u: "user_string 127 s p str" "127 < length (cf_stack f)" using assms(1,3) by (simp_all add: text_ready_def)
  have "is_user_ptr p s" using user_string_cases [of 126 s p str] u(1) by (auto simp: user_char_def)
  moreover have "is_user_ptr (at_welcome d) s"
  proof -
    have "is_user_ptr (at_welcome d + of_nat 0) s" using assms(2) unfolding window_ready_def by (metis zero_less_numeral)
    then show ?thesis by simp
  qed
  moreover obtain t where "copy_text 127 p 0 s (cf_stack f) = (length str, True, t)" "cstr (t[127 := NUL]) = str"
    using copied_string [OF u] by blast
  ultimately show ?thesis
    using bs assms(4,5) by (simp add: sys_gui_draw_window_text_case_def GuiDrawWindowText_def sint_int_range u32_to_u8_ucast)
qed

lemma call_shows:
  fixes s :: "'a gui_scheme"
  assumes "call_ready k d s c" "graphics_ready s" "128 \<le> length (cf_stack f)"
  obtains v u where "call_of f (library_call d c r) s = Returns v u" "same_picture (\<lambda>_ _. True) u (call_effect c s)"
proof -
  define t where "t = (\<lambda>num a b. serial_puts (syscall_trace num a b) s)"
  have mem: "phys_mem s = phys_mem (t n a b)" "cr3 (t n a b) = cr3 s" for n a b by (simp_all add: t_def)
  have out: "same_outside {k} (phys_mem s) (phys_mem (t n a b))" for n a b unfolding mem(1) [symmetric] by simp
  note ready = call_ready_same [OF assms(1) out mem(2)]
  have pic: "same_picture (\<lambda>_ _. True) (t n a b) s" for n a b using assms(2) by (simp add: t_def) (simp add: same_picture_def)
  note shown = call_effect_picture [OF pic call_ready_ints [OF assms(1)]]
  show ?thesis
  proof (cases c)
    case (Debug str)
    have "call_of f (library_call d c r) s = sys_debug_case f (r_ecx r) (t SYS_DEBUG (at_text d str) (r_ecx r))"
      by (simp add: Debug call_of_def sys_debug_def syscall_dispatch_def t_def Let_def const_defs)
    moreover obtain v log where "sys_debug_case f (r_ecx r) (t SYS_DEBUG (at_text d str) (r_ecx r))
        = Returns v (serial_puts log (t SYS_DEBUG (at_text d str) (r_ecx r)))" using debug_shows by blast
    ultimately show ?thesis using that shown by (simp add: Debug)
  next
    case Draw_Desktop
    have "call_of f (library_call d c r) s = Returns 0 (call_effect c (t SYS_GUI_DRAW_DESKTOP (r_ebx r) (r_ecx r)))"
      by (simp add: Draw_Desktop call_of_def sys_gui_draw_desktop_def syscall_dispatch_def t_def Let_def const_defs)
    then show ?thesis using that shown by blast
  next
    case Draw_Taskbar
    have "call_of f (library_call d c r) s = Returns 0 (call_effect c (t SYS_GUI_DRAW_TASKBAR (r_ebx r) (r_ecx r)))"
      by (simp add: Draw_Taskbar call_of_def sys_gui_draw_taskbar_def syscall_dispatch_def t_def Let_def const_defs)
    then show ?thesis using that shown by blast
  next
    case (Draw_Window x y w h title)
    have "call_of f (library_call d c r) s = Returns 0 (call_effect c (t SYS_GUI_DRAW_WINDOW (word_of_int x) (word_of_int y)))"
      using syscall_strings [of s "at_text d title" title f "word_of_int x" "word_of_int y"] assms(1,3)
      by (simp add: Draw_Window call_of_def sys_gui_draw_window_def t_def text_ready_def sint_int_range)
    then show ?thesis using that shown by blast
  next
    case (Draw_Window_Text rx ry str fg)
    let ?t = "t SYS_GUI_DRAW_WINDOW_TEXT (at_welcome d) (word_of_int rx)"
    have "call_of f (library_call d c r) s
        = sys_gui_draw_window_text_case f (at_welcome d) (word_of_int rx) (word_of_int ry) (at_text d str) (ucast fg) ?t"
      by (simp add: Draw_Window_Text call_of_def sys_gui_draw_window_text_def syscall_dispatch_def t_def Let_def const_defs)
    also have "\<dots> = Returns 0 (call_effect c ?t)"
      using ready [of SYS_GUI_DRAW_WINDOW_TEXT "at_welcome d" "word_of_int rx"] assms(3)
      unfolding call_effect.simps Draw_Window_Text by (intro window_text_shows) auto
    finally show ?thesis using that shown by blast
  qed (use assms(1) in simp_all)
qed

subsection \<open>The program against the kernel\<close>

text \<open>
  A place in the program where it calls: the call, what the program's own code before it does to the
  registers, and what the compiler and the kernel's debug output decide about the call.
\<close>

record call_site =
  cs_call :: user_call
  cs_regs :: "cpu_regs \<Rightarrow> cpu_regs"
  cs_frame :: call_frame
  cs_left :: "u32 \<times> u32 \<times> u32"

primrec run_calls :: "user_data \<Rightarrow> call_site list \<Rightarrow> cpu_regs \<Rightarrow> 'a gui_scheme \<Rightarrow> 'a gui_scheme call_end" where
  "run_calls d [] r s = Goes_On r s"
| "run_calls d (c # cs) r s =
     (case syscall_entry (cs_frame c) (cs_left c) (library_call d (cs_call c) (cs_regs c r)) s of
        Goes_On r s \<Rightarrow> run_calls d cs r s
      | e \<Rightarrow> e)"

definition site_ok :: "call_site \<Rightarrow> bool" where
  "site_ok c \<longleftrightarrow> 128 \<le> length (cf_stack (cs_frame c)) \<and> (\<forall>r. from_ring3 r \<longrightarrow> from_ring3 (cs_regs c r))"

lemma library_call_keeps:
  "from_ring3 (library_call d c r) = from_ring3 r"
  "call_ready k d s c \<Longrightarrow> r_eax (library_call d c r) \<notin> {SYS_EXIT, SYS_YIELD, SYS_GET_MOUSE_STATE, SYS_GET_MOUSE_EVENT}"
  by (cases c; simp add: from_ring3_def sys_debug_def sys_gui_draw_desktop_def sys_gui_draw_taskbar_def
      sys_gui_draw_window_def sys_gui_draw_window_text_def sys_get_mouse_event_def sys_yield_def const_defs)+

lemma library_call_on_screen:
  assumes "call_ready k d s c"
  shows "call_on_screen (r_eax (library_call d c r)) (r_ebx (library_call d c r)) (r_edx (library_call d c r)) (r_esi (library_call d c r))"
proof (cases c)
  case (Draw_Window x y w h title)
  with assms show ?thesis by (simp add: call_on_screen_def sys_gui_draw_window_def sint_int_range const_defs)
qed (use assms in \<open>simp_all add: call_on_screen_def sys_debug_def sys_gui_draw_desktop_def sys_gui_draw_taskbar_def
      sys_gui_draw_window_text_def const_defs\<close>)

lemma same_picture_trans: "same_picture A s t \<Longrightarrow> same_picture A t u \<Longrightarrow> same_picture A s u"
  by (auto simp: same_picture_def)

lemma fold_effect_picture:
  "same_picture A s t \<Longrightarrow> \<forall>c \<in> set cs. call_ints c \<Longrightarrow> same_picture A (fold call_effect cs s) (fold call_effect cs t)"
  by (induction cs arbitrary: s t) (simp_all add: call_effect_picture)

lemma undrawn_task:
  fixes s t :: "'a gui_scheme"
  assumes "undrawn t = undrawn s"
  shows "cr3 t = cr3 s" "g_tss t = g_tss s" "graphics_ready t = graphics_ready s"
proof -
  have "g_tss u = g_tss (undrawn u)" for u :: "'a gui_scheme" by (simp add: undrawn_def)
  then show "g_tss t = g_tss s" using assms by metis
  show "cr3 t = cr3 s" "graphics_ready t = graphics_ready s" by (rule undrawn_cr3 [OF assms], rule undrawn_ready [OF assms])
qed

lemma site_shows:
  fixes s :: "'a gui_scheme"
  assumes "page k" "tss_esp0 (g_tss s) = k + PAGE_SIZE" "graphics_ready s" "from_ring3 r"
    and "site_ok c" "call_ready k d s (cs_call c)"
  obtains r' t where "syscall_entry (cs_frame c) (cs_left c) (library_call d (cs_call c) (cs_regs c r)) s = Goes_On r' t"
    "from_ring3 r'" "same_picture (\<lambda>_ _. True) t (call_effect (cs_call c) s)"
    "undrawn t = undrawn s" "same_outside {k} (phys_mem s) (phys_mem t)"
proof -
  let ?r = "library_call d (cs_call c) (cs_regs c r)"
  obtain eax ecx edx where l: "cs_left c = (eax, ecx, edx)" by (cases "cs_left c")
  have ring3: "from_ring3 ?r" using assms(4,5) by (simp add: library_call_keeps site_ok_def)
  from ring3_call [OF assms(1,2) ring3 library_call_keeps(2) [OF assms(6)] ready_mapped [OF assms(3)]
      library_call_on_screen [OF assms(6)], of "cs_frame c" eax ecx edx]
  obtain m v u t where R: "same_outside {k} (phys_mem s) m" "call_of (cs_frame c) ?r (s\<lparr>phys_mem := m\<rparr>) = Returns v u"
    "syscall_entry (cs_frame c) (eax, ecx, edx) ?r s = Goes_On (?r\<lparr>r_eax := eax, r_ecx := ecx, r_edx := edx\<rparr>) t"
    "undrawn t = undrawn s" "same_outside {k} (phys_mem s) (phys_mem t)" "g_shadow t = g_shadow u"
    by metis
  let ?s = "s\<lparr>phys_mem := m\<rparr>"
  have ready: "graphics_ready ?s = graphics_ready s" by (simp add: graphics_ready_def)
  have now: "call_ready k d ?s (cs_call c)" by (rule call_ready_same [OF assms(6)]) (simp_all add: R(1))
  have g: "graphics_ready ?s" "128 \<le> length (cf_stack (cs_frame c))" using ready assms(3,5) by (simp_all add: site_ok_def)
  obtain w x where "call_of (cs_frame c) ?r ?s = Returns w x" "same_picture (\<lambda>_ _. True) x (call_effect (cs_call c) ?s)"
    by (rule call_shows [OF now g])
  then have "same_picture (\<lambda>_ _. True) u (call_effect (cs_call c) ?s)" using R(2) by simp
  moreover have "same_picture (\<lambda>_ _. True) ?s s" using ready assms(3) by (simp add: same_picture_def VgaGetPixel_def)
  ultimately have "same_picture (\<lambda>_ _. True) u (call_effect (cs_call c) s)"
    using call_effect_picture [OF _ call_ready_ints [OF assms(6)]] same_picture_trans by blast
  moreover have "VgaGetPixel a b t = VgaGetPixel a b u" for a b by (simp add: VgaGetPixel_def R(6))
  ultimately have "same_picture (\<lambda>_ _. True) t (call_effect (cs_call c) s)"
    using undrawn_task(3) [OF R(4)] assms(3) by (simp add: same_picture_def)
  then show ?thesis using that R(3-5) ring3 by (simp add: l from_ring3_def)
qed

lemma run_calls_shows:
  fixes s :: "'a gui_scheme"
  assumes "page k" "tss_esp0 (g_tss s) = k + PAGE_SIZE" "graphics_ready s" "from_ring3 r"
    and "\<forall>c \<in> set cs. site_ok c \<and> call_ready k d s (cs_call c)"
  shows "\<exists>r' t. run_calls d cs r s = Goes_On r' t
    \<and> same_picture (\<lambda>_ _. True) t (fold call_effect (map cs_call cs) s)
    \<and> undrawn t = undrawn s \<and> same_outside {k} (phys_mem s) (phys_mem t)"
  using assms(2-5)
proof (induction cs arbitrary: r s)
  case Nil
  then show ?case by (simp add: same_picture_def)
next
  case (Cons c cs)
  from Cons.prems have c: "site_ok c" "call_ready k d s (cs_call c)" by simp_all
  obtain r1 t1 where S: "syscall_entry (cs_frame c) (cs_left c) (library_call d (cs_call c) (cs_regs c r)) s = Goes_On r1 t1"
    "from_ring3 r1" "same_picture (\<lambda>_ _. True) t1 (call_effect (cs_call c) s)"
    "undrawn t1 = undrawn s" "same_outside {k} (phys_mem s) (phys_mem t1)"
    by (rule site_shows [OF assms(1) Cons.prems(1-3) c])
  note U = undrawn_task [OF S(4)]
  have "\<forall>c \<in> set cs. site_ok c \<and> call_ready k d t1 (cs_call c)"
    using Cons.prems(4) call_ready_same [OF _ S(5) U(1)] by simp
  from Cons.IH [OF _ _ S(2) this] Cons.prems(1,2) U(2,3)
  obtain r2 t2 where T: "run_calls d cs r1 t1 = Goes_On r2 t2"
    "same_picture (\<lambda>_ _. True) t2 (fold call_effect (map cs_call cs) t1)"
    "undrawn t2 = undrawn t1" "same_outside {k} (phys_mem t1) (phys_mem t2)" by auto
  have "same_picture (\<lambda>_ _. True) t2 (fold call_effect (map cs_call (c # cs)) s)"
  proof -
    have "\<forall>c \<in> set (map cs_call cs). call_ints c" using Cons.prems(4) by (auto intro: call_ready_ints)
    from same_picture_trans [OF T(2) fold_effect_picture [OF S(3) this]] show ?thesis by simp
  qed
  moreover have "undrawn t2 = undrawn s" using T(3) S(4) by simp
  moreover have "same_outside {k} (phys_mem s) (phys_mem t2)" using S(5) T(4) by (simp add: same_outside_def)
  ultimately show ?case using S(1) T(1) by simp
qed

text \<open>The picture that the opening is to leave.\<close>

definition welcome_screen :: "'a vga_scheme \<Rightarrow> 'a vga_scheme" where
  "welcome_screen s =
     (let s = GuiDrawTaskbar (GuiDrawDesktop s);
          s = GuiDrawWindow (Some welcome_window) s;
          s = GuiDrawWindowText (Some welcome_window) 10 10 (Some ''Sistema iniciado correctamente.'') VGA_COLOR_BLACK s;
          s = GuiDrawWindowText (Some welcome_window) 10 22 (Some ''Universidad de Guayaquil v0.1'') VGA_COLOR_DARK_GRAY s
      in GuiDrawTaskbar s)"

lemma opening_effect: "fold call_effect (user_opening d) s = welcome_screen s"
  by (simp add: user_opening_def welcome_screen_def welcome_window_def Let_def)

lemma opening_ready:
  assumes "text_ready k s (at_text d welcome_title) welcome_title"
    and "text_ready k s (at_text d ''Sistema iniciado correctamente.'') ''Sistema iniciado correctamente.''"
    and "text_ready k s (at_text d ''Universidad de Guayaquil v0.1'') ''Universidad de Guayaquil v0.1''"
    and "window_ready k s d"
  shows "\<forall>c \<in> set (user_opening d). call_ready k d s c"
  using assms by (simp add: user_opening_def welcome_window_def)

lemma welcome_screen_picture:
  assumes "graphics_ready s" "graphics_ready t" "on_screen u v"
  shows "VgaGetPixel u v (welcome_screen s) = VgaGetPixel u v (welcome_screen t)"
proof -
  from fold_effect_picture [OF desktop_and_taskbar_picture [OF assms(1,2)], of "drop 11 (user_opening undefined)"]
  have "same_picture (\<lambda>_ _. True) (welcome_screen s) (welcome_screen t)"
    by (simp add: user_opening_def welcome_screen_def welcome_window_def call_ints_def Let_def)
  then show ?thesis using assms(3) by (simp add: same_picture_def)
qed

text \<open>
  C12: The program's opening, run against the kernel's entry stub and dispatcher, comes back to the
  program with the picture it is to leave: desktop, task bar, the welcome window at its place with its
  title and its two lines. Every pixel of the screen is that of \<open>welcome_screen\<close>, from whatever picture
  that starts, whether or not the debug lines came through. Memory has changed in the frame of the
  thread's kernel stack only, and the rest of the kernel's state is as it was.
\<close>

theorem user_opening_paints_welcome:
  fixes s :: "'a gui_scheme"
  assumes "page k" "tss_esp0 (g_tss s) = k + PAGE_SIZE" "graphics_ready s" "from_ring3 r"
    and "map cs_call cs = user_opening d" "\<forall>c \<in> set cs. site_ok c"
    and "text_ready k s (at_text d welcome_title) welcome_title"
    and "text_ready k s (at_text d ''Sistema iniciado correctamente.'') ''Sistema iniciado correctamente.''"
    and "text_ready k s (at_text d ''Universidad de Guayaquil v0.1'') ''Universidad de Guayaquil v0.1''"
    and "window_ready k s d"
  shows "\<exists>r' t. run_calls d cs r s = Goes_On r' t
    \<and> (\<forall>z u v. graphics_ready z \<and> on_screen u v \<longrightarrow> VgaGetPixel u v t = VgaGetPixel u v (welcome_screen (z :: 'a gui_scheme)))
    \<and> undrawn t = undrawn s \<and> same_outside {k} (phys_mem s) (phys_mem t)"
proof -
  have "\<forall>c \<in> set (map cs_call cs). call_ready k d s c" unfolding assms(5) by (rule opening_ready [OF assms(7-10)])
  then have "\<forall>c \<in> set cs. site_ok c \<and> call_ready k d s (cs_call c)" using assms(6) by simp
  from run_calls_shows [OF assms(1-4) this] obtain r' t where R: "run_calls d cs r s = Goes_On r' t"
    "same_picture (\<lambda>_ _. True) t (welcome_screen s)"
    "undrawn t = undrawn s" "same_outside {k} (phys_mem s) (phys_mem t)"
    unfolding assms(5) opening_effect by blast
  then have "VgaGetPixel u v t = VgaGetPixel u v (welcome_screen z)"
    if "graphics_ready z" "on_screen u v" for z :: "'a gui_scheme" and u v
    using welcome_screen_picture [OF assms(3) that] that(2) by (simp add: same_picture_def)
  then show ?thesis using R by blast
qed

text \<open>The caller of \<open>Syscall\<close> with the program's strings in its first page and its window in the second.\<close>

definition place :: "u32 \<Rightarrow> string \<Rightarrow> memory \<Rightarrow> memory" where
  "place p str m = (\<lambda>a. if unat (a - p) < length str then byte_of (str ! unat (a - p)) else m a)"

lemma same_page_step:
  assumes "unat p mod 4096 + j < 4096"
  shows "page_base (p + of_nat j) = page_base p"
proof -
  let ?q = "unat p div 4096" and ?r = "unat p mod 4096"
  have p: "unat p = ?q * 4096 + ?r" by simp
  have "unat p < 1048576 * 4096" using unsigned_less [of p, where 'a = nat] by simp
  then have "?q < 1048576" by (rule less_mult_imp_div_less)
  then have "unat p + j < 1048576 * 4096" using assms p by linarith
  then have "unat p + j < 2 ^ 32" by simp
  moreover have j: "unat (of_nat j :: u32) = j" using assms by (intro unat_of_nat_u32) simp
  ultimately have "unat (p + of_nat j) = ?q * 4096 + (?r + j)"
    using unat_add_lem [of p "of_nat j"] by simp
  then have "unat (p + of_nat j) div 4096 = ?q" using assms by (simp add: div_add1_eq [of "unat p" j])
  then show ?thesis by (simp add: word_unat_eq_iff unat_page_base)
qed

lemma place_outside:
  assumes "unat p mod 4096 + length str \<le> 4096"
  shows "same_outside {page_base p} m (place p str m)"
  unfolding same_outside_def
proof (intro allI impI)
  fix a assume a: "page_base a \<notin> {page_base p}"
  have "p + of_nat (unat (a - p)) = a" by simp
  then have "\<not> unat (a - p) < length str" using a same_page_step [of p "unat (a - p)"] assms by auto
  then show "place p str m a = m a" by (simp add: place_def)
qed

definition program_data :: user_data where
  "program_data = \<lparr>at_text = (\<lambda>str. if str = welcome_title then 0x3000
       else if str = ''Sistema iniciado correctamente.'' then 0x3040 else 0x3080),
     at_welcome = 0x4000, at_ms = 0x4200, hex_junk = replicate 9 NUL\<rparr>"

definition window_memory :: memory where
  "window_memory = fold (\<lambda>j m. store32 m (0x4000 + 4 * of_nat j) (welcome_words 0x3000 ! j)) [0..<6] caller_memory"

definition program_memory :: memory where
  "program_memory = place 0x3000 (welcome_title @ [NUL]) (place 0x3040 (''Sistema iniciado correctamente.'' @ [NUL])
     (place 0x3080 (''Universidad de Guayaquil v0.1'' @ [NUL]) window_memory))"

definition program_on :: gui where
  "program_on = ring3_on\<lparr>phys_mem := program_memory\<rparr>"

lemma program_on_memory: "phys_mem program_on = program_memory" "page_base (cr3 program_on) = 0x1000"
  using caller_on_memory by (simp_all add: program_on_def ring3_on_def)

lemma store_words_outside:
  assumes "page p" "same_outside {p} m m'" "\<forall>j \<in> set js. j < 1024"
  shows "same_outside {p} m (fold (\<lambda>j m. store32 m (p + 4 * of_nat j) (g j)) js m')"
  using assms(2,3)
proof (induction js arbitrary: m')
  case (Cons j js)
  have "same_outside {p} m (store32 m' (p + 4 * of_nat j) (g j))"
    using same_outside_trans [OF Cons.prems(1) store32_outside [OF assms(1), of j m' "g j"]] Cons.prems(2) by simp
  from Cons.IH [OF this] Cons.prems(2) show ?case by simp
qed simp

lemma program_memory_outside: "same_outside {0x3000, 0x4000} caller_memory program_memory"
proof -
  have "page 0x4000" by (simp add: page_def page_base_def)
  from store_words_outside [OF this, of caller_memory caller_memory "[0..<6]" "\<lambda>j. welcome_words 0x3000 ! j"]
  have "same_outside {0x4000} caller_memory window_memory" unfolding window_memory_def by simp
  moreover have b: "page_base 0x3000 = 0x3000" "page_base 0x3040 = 0x3000" "page_base 0x3080 = 0x3000" by (simp_all add: page_base_def)
  have "same_outside {0x3000} m (place 0x3000 (welcome_title @ [NUL]) m)"
    "same_outside {0x3000} m (place 0x3040 (''Sistema iniciado correctamente.'' @ [NUL]) m)"
    "same_outside {0x3000} m (place 0x3080 (''Universidad de Guayaquil v0.1'' @ [NUL]) m)" for m
    using place_outside [of "0x3000" "welcome_title @ [NUL]" m] place_outside [of "0x3040" "''Sistema iniciado correctamente.'' @ [NUL]" m]
      place_outside [of "0x3080" "''Universidad de Guayaquil v0.1'' @ [NUL]" m]
    by (simp_all add: b welcome_title_def)
  ultimately show ?thesis unfolding program_memory_def same_outside_def by simp
qed

lemma program_ptr:
  assumes "page_base p = 0x3000 \<or> page_base p = 0x4000"
  shows "is_user_ptr p program_on" "virt_load p program_on = Some (program_memory p)" "apart 0x800000 program_on p"
proof -
  have t: "pde_index p = 0" "page_base (read_entry caller_memory 0x1000 0) = 0x2000"
    using caller_walk(3) [OF assms] by (simp_all add: caller_entries page_base_def)
  have d: "page 0x1000" by (simp add: page_def page_base_def)
  have walk: "page_walk program_memory 0x1000 p = page_walk caller_memory 0x1000 p"
    by (rule page_walk_outside [OF program_memory_outside d]) (simp_all add: t)
  then have tr: "translate program_memory 0x1000 p = Some p" using caller_walk(1) [OF assms] by (simp add: translate_def)
  show "is_user_ptr p program_on" using caller_ptr [OF assms] walk
    by (simp add: is_user_ptr_eq user_access_def caller_on_memory program_on_memory)
  show "virt_load p program_on = Some (program_memory p)" by (simp add: virt_load_def program_on_memory tr)
  have "read_entry program_memory 0x1000 0 = read_entry caller_memory 0x1000 0"
    using read_entry_outside [OF program_memory_outside d, of 0] by simp
  then have "table_frame program_on p = 0x2000" using t by (simp add: table_frame_def program_on_memory)
  moreover have "buffer_frame program_on p = page_base p" by (simp add: buffer_frame_def program_on_memory tr)
  ultimately show "apart 0x800000 program_on p" using assms by (auto simp: apart_def program_on_memory)
qed

lemma placed_text:
  assumes "page_base p = 0x3000" "unat p mod 4096 + length str < 4096" "length str \<le> 127" "NUL \<notin> set str"
    and "\<And>j. j \<le> length str \<Longrightarrow> program_memory (p + of_nat j) = byte_of ((str @ [NUL]) ! j)"
  shows "text_ready 0x800000 program_on p str"
proof -
  have page: "page_base (p + of_nat j) = 0x3000" if "j \<le> length str" for j
    using same_page_step [of p j] assms(1,2) that by simp
  have "user_char program_on (p + of_nat j) ((str @ [NUL]) ! j)" if "j \<le> length str" for j
    using program_ptr(1,2) [of "p + of_nat j"] page [OF that] assms(5) [OF that] by (simp add: user_char_def)
  then show ?thesis
    using assms(3,4) program_ptr(3) page unfolding text_ready_def user_string_def
    by (metis less_imp_le nth_append nth_append_length order_refl)
qed

lemma place_at: "j < length str \<Longrightarrow> length str < 2 ^ 32 \<Longrightarrow> place p str m (p + of_nat j) = byte_of (str ! j)"
  by (simp add: place_def unat_of_nat_u32)

lemma place_before: "length str \<le> n \<Longrightarrow> n + j < 2 ^ 32 \<Longrightarrow> place p str m (p + of_nat n + of_nat j) = m (p + of_nat n + of_nat j)"
  by (simp add: place_def unat_of_nat_u32 del: of_nat_add flip: of_nat_add)

lemma program_texts:
  "text_ready 0x800000 program_on 0x3000 welcome_title"
  "text_ready 0x800000 program_on 0x3040 ''Sistema iniciado correctamente.''"
  "text_ready 0x800000 program_on 0x3080 ''Universidad de Guayaquil v0.1''"
proof -
  show "text_ready 0x800000 program_on 0x3000 welcome_title"
  proof (rule placed_text)
    show "program_memory (0x3000 + of_nat j) = byte_of ((welcome_title @ [NUL]) ! j)" if "j \<le> length welcome_title" for j
      unfolding program_memory_def by (rule place_at) (use that in \<open>simp_all add: welcome_title_def\<close>)
  qed (simp_all add: welcome_title_def page_base_def)
  show "text_ready 0x800000 program_on 0x3040 ''Sistema iniciado correctamente.''" (is "text_ready _ _ _ ?str")
  proof (rule placed_text)
    show "program_memory (0x3040 + of_nat j) = byte_of ((?str @ [NUL]) ! j)" if "j \<le> length ?str" for j
    proof -
      have "program_memory (0x3040 + of_nat j) = place 0x3040 (?str @ [NUL]) (place 0x3080 (''Universidad de Guayaquil v0.1'' @ [NUL])
          window_memory) (0x3040 + of_nat j)"
        unfolding program_memory_def using that place_before [of "welcome_title @ [NUL]" 64 j "0x3000"]
        by (simp add: welcome_title_def)
      also have "\<dots> = byte_of ((?str @ [NUL]) ! j)" by (rule place_at) (use that in simp_all)
      finally show ?thesis .
    qed
  qed (simp_all add: page_base_def)
  show "text_ready 0x800000 program_on 0x3080 ''Universidad de Guayaquil v0.1''" (is "text_ready _ _ _ ?str")
  proof (rule placed_text)
    show "program_memory (0x3080 + of_nat j) = byte_of ((?str @ [NUL]) ! j)" if "j \<le> length ?str" for j
    proof -
      have "program_memory (0x3080 + of_nat j) = place 0x3080 (?str @ [NUL]) window_memory (0x3080 + of_nat j)"
        unfolding program_memory_def
        using that place_before [of "welcome_title @ [NUL]" 128 j "0x3000"]
          place_before [of "''Sistema iniciado correctamente.'' @ [NUL]" 64 j "0x3040"]
        by (simp add: welcome_title_def)
      also have "\<dots> = byte_of ((?str @ [NUL]) ! j)" by (rule place_at) (use that in simp_all)
      finally show ?thesis .
    qed
  qed (simp_all add: page_base_def)
qed

lemma program_window: "window_ready 0x800000 program_on program_data"
proof -
  have page: "page_base (0x4000 + of_nat j) = 0x4000" if "j < 24" for j
    using same_page_step [of "0x4000" j] that by (simp add: page_base_def)
  note ptr = program_ptr [OF disjI2, OF page]
  have "user_word program_on (0x4000 + 4 * of_nat j) = load32 window_memory (0x4000 + 4 * of_nat j)" if "j < 6" for j
  proof -
    have "program_memory (0x4000 + of_nat i) = window_memory (0x4000 + of_nat i)" if "i < 24" for i
      unfolding program_memory_def
      using that place_before [of "welcome_title @ [NUL]" 4096 i "0x3000"]
        place_before [of "''Sistema iniciado correctamente.'' @ [NUL]" 4032 i "0x3040"]
        place_before [of "''Universidad de Guayaquil v0.1'' @ [NUL]" 3968 i "0x3080"]
      by (simp add: welcome_title_def)
    then have "virt_load (0x4000 + of_nat i) program_on = Some (window_memory (0x4000 + of_nat i))" if "i < 24" for i
      using ptr(2) that by simp
    from this [of "4 * j"] this [of "4 * j + 1"] this [of "4 * j + 2"] this [of "4 * j + 3"] that
    show ?thesis by (simp add: user_word_def load32_def ac_simps)
  qed
  moreover have "load32 window_memory (0x4000 + 4 * of_nat j) = welcome_words 0x3000 ! j" if "j < 6" for j
  proof -
    from that have "j \<in> {0, 1, 2, 3, 4, 5}" by auto
    moreover have "aligned4 0x4000" "aligned4 0x4004" "aligned4 0x4008" "aligned4 0x400C" "aligned4 0x4010" "aligned4 0x4014"
      by (simp_all add: aligned4_def)
    ultimately show ?thesis
      by (auto simp: window_memory_def upt_rec welcome_words_def load32_store32_other)
  qed
  ultimately show ?thesis
    using ptr by (simp add: window_ready_def program_data_def)
qed

definition program_sites :: "call_site list" where
  "program_sites = map (\<lambda>c. \<lparr>cs_call = c, cs_regs = (\<lambda>r. r), cs_frame = caller_frame, cs_left = (0, 0, 0)\<rparr>)
     (user_opening program_data)"

theorem user_opening_paints_welcome_witness:
  "\<exists>r' t. run_calls program_data program_sites sample_user_regs program_on = Goes_On r' t
    \<and> VgaGetPixel 200 85 t = VgaGetPixel 200 85 (welcome_screen desktop_on)"
proof -
  have "map cs_call program_sites = user_opening program_data" by (simp add: program_sites_def o_def)
  moreover have "\<forall>c \<in> set program_sites. site_ok c" by (simp add: program_sites_def site_ok_def caller_frame_def)
  moreover have "page 0x800000" "from_ring3 sample_user_regs" by (simp_all add: page_def page_base_def sample_user_regs_def from_ring3_def)
  moreover have "tss_esp0 (g_tss program_on) = 0x800000 + PAGE_SIZE" by (simp add: program_on_def ring3_on_def PAGE_SIZE_def)
  moreover have "graphics_ready desktop_on" 
    using vga_on_ready by (simp add: graphics_ready_def desktop_on_def mouse_on_def cursor_on_def
        gui.defs mouse.defs display.defs cursor.defs vga.defs)
  moreover from this have "graphics_ready program_on"
    by (simp add: program_on_def ring3_on_def caller_on_def graphics_ready_def)
  ultimately show ?thesis
    using user_opening_paints_welcome [of "0x800000" program_on sample_user_regs program_sites program_data]
      program_texts program_window by (auto simp: program_data_def on_screen_def welcome_title_def)
qed

end
