(* ===== verification/Spec2Isabelle.thy ===== *)
theory Spec2Isabelle
  imports Kernel_Main User_Program
begin

text \<open>
  \<^bold>\<open>The verification library of System_Operative_Edit\<close>, a 32-bit x86 kernel in C: physical and
  virtual memory, interrupts, preemptive processes in ring 0 and ring 3, a small driver framework with
  one VGA driver, a PS/2 mouse, and a graphical interface with a console.

  \<^bold>\<open>How the program is put together.\<close> The kernel starts with a bump heap and a bitmap of physical
  frames; page tables live in frames, the kernel directory maps the first 128 MB onto themselves, and
  every process gets a directory that clones those entries. Threads wait in a circular list; the timer
  interrupt pushes the registers of the thread it stops, calls \<open>scheduler_tick\<close> and pops whatever
  frame that call returns. The I/O manager allocates driver and device objects from the heap; the VGA
  driver creates one device whose extension says where the display memory is. Drawing goes to a shadow
  buffer and, once a device is registered, to the four planes behind the VGA ports. The interface draws
  through those routines; its interrupt handlers only fill ring buffers, which its loop empties.

  \<^bold>\<open>The state\<close> is one record that each component extends with its own variables, so an operation is a
  function from states to states and calls compose as in the code:
  \<open>console\<close> (text screen, serial log), \<open>pmm\<close>, \<open>kmem\<close> (heap and byte memory), \<open>vmm\<close> (cr3, the kernel
  directory), \<open>segs\<close>, \<open>intr\<close>, \<open>proc\<close> (tables, queue, dispatcher), \<open>io\<close>, \<open>vga\<close> (shadow buffer, the bus
  trace), \<open>cursor\<close>, \<open>display\<close>, \<open>mouse\<close>, \<open>gui\<close>. Memory is a function from 32-bit addresses to bytes, and
  the text buffer one from cells to values, so that no store gets lost; a store through the frame
  buffer's pointer that misses the adapter's 64 KB changes memory. Pointers to table entries are
  indices; machine integers are words, or integers for \<open>int\<close>, where \<open>INT32\<close> keeps the 32 bits of every
  sum and product of the drawing code that a caller can drive out of range; the properties of such
  code say for which arguments nothing overflows. Undefined allocations return 0 or None as in the code. Bytes read from devices
  and the order of interrupts are arguments or input streams of the state.

  \<^bold>\<open>The theories\<close>, in the order they build on each other:
  \<^item> \<open>Prelude\<close>: word, list and memory lemmas, the collections \<open>frame_simps\<close>, \<open>state_inv\<close>, \<open>const_defs\<close>.
  \<^item> \<open>Console\<close> (\<open>kernel/screen.c\<close>): writing never leaves the 80 by 25 screen; what a line shows.
  \<^item> \<open>Pmm\<close> (\<open>kernel/mm/pmm.c\<close>): the allocator returns the least free frame, never one twice, and its
    counters are exact.
  \<^item> \<open>Kmem\<close> (\<open>lib/memory.c\<close>): blocks of \<open>malloc\<close> are disjoint while the heap does not wrap around.
  \<^item> \<open>Vmm\<close>, \<open>Vmm_Range\<close> (\<open>kernel/mm/vmm.c\<close>): mapping and unmapping change one page of one directory;
    \<open>translate\<close> is the two-level walk of the processor; the identity map and the cloned directories.
  \<^item> \<open>Gdt\<close>, \<open>Interrupts\<close> (\<open>gdt.c\<close>, \<open>tss.c\<close>, \<open>idt.c\<close>, \<open>hal.c\<close>): descriptors, gates, the 8259 protocol, reports.
  \<^item> \<open>Threads\<close>, \<open>Run_Queue\<close>, \<open>Process\<close>, \<open>User_Space\<close> (\<open>process.c\<close>, \<open>scheduler.c\<close>): the frames that
    contexts are saved in, the circular queue as a list, process creation, the address space of a user
    process, distinct identifiers, and that a new process is built from free frames only.
  \<^item> \<open>Round_Robin\<close>, \<open>Scheduler\<close> (\<open>scheduler.c\<close>, the timer handler of \<open>idt.c\<close>): an abstract round robin
    on lists, the simulation by \<open>scheduler_tick\<close>, fairness, and that an interrupted thread resumes with
    its registers.
  \<^item> \<open>Io_Manager\<close> (\<open>drivers/framework\<close>): object lists, lookup by name; the locale \<open>driver_code\<close> is the
    contract between the manager and a driver's entry and unload routines.
  \<^item> \<open>Vga_Hardware\<close>, \<open>Canvas\<close>, \<open>Vga_Screen\<close>, \<open>Vga_Draw\<close>, \<open>Vga_Text\<close>, \<open>Vga_Cursor\<close> (\<open>drivers/video/vga\<close>):
    registers and mode; a machine that executes the bus trace and holds the four planes, against which
    pixels and rectangles are proved; lines, characters, numbers, the arrow. The locale \<open>canvas\<close> is what
    a drawing surface promises.
  \<^item> \<open>Vga_Driver\<close> (\<open>vga_driver.c\<close>, \<open>vga_init.c\<close>, \<open>drivers/hal/display.c\<close>): the driver under the manager;
    that it loads, and what deleting it does, is in \<open>Kernel_Main\<close> beside the start that loads it.
  \<^item> \<open>Ps2_Mouse\<close> (\<open>drivers/input\<close>), \<open>Gui_Draw\<close>, \<open>Ring_Buffer\<close>, \<open>Gui_Console\<close>, \<open>Gui_Loop\<close>
    (\<open>vga_gui.c\<close>, \<open>include/gui.h\<close>): the pointer, the pictures, the two ring buffers as instances of one
    queue contract, the console refining a line editor with a bounded history, and the loop.
  \<^item> \<open>Syscall\<close>, \<open>Syscall_Events\<close>, \<open>Syscall_Entry\<close> (\<open>kernel/interrupt/syscall.c\<close>, \<open>include/libsys.h\<close>): the
    dispatcher runs in the directory of its caller and reads its strings through \<open>translate\<close>; which
    calls are refused and what the others leave alone, as long as a rectangle stays in the adapter's
    window, and that a wider one overwrites the kernel; the path of a mouse event into the program's
    buffer; the stub behind interrupt 0x30, and what the wrappers of user programs reach through it.
  \<^item> \<open>User_Program\<close> (\<open>user/gui_user.c\<close>): the program as the list of its library calls; its opening, run
    against the stub and the dispatcher, leaves the welcome screen from whatever was shown before; its
    loop follows the start button and logs each event once.
  \<^item> \<open>Boot_Fonts\<close>, \<open>Boot_Picture\<close>, \<open>Boot_Splash\<close> (\<open>kernel/boot_splash.c\<close>): the boot picture as another
    instance of the \<open>canvas\<close> contract, the integer square root and the ellipses it draws, the progress
    bar, and the way back to text mode, register by register.
  \<^item> \<open>Process_Start\<close> (\<open>process.c\<close>): what starting a process adds to the tables and the queue, and that it
    leaves the address spaces of the other processes as they were.
  \<^item> \<open>Kernel_Main\<close> (\<open>kernel/main.c\<close>): the phases \<open>start_machine\<close>, \<open>start_kernel\<close>, \<open>start_devices\<close> and
    \<open>start_processes\<close> over one \<open>boot_env\<close>, the addresses and bytes that the linker and the hardware decide.
    A run ends in \<open>Idles\<close>, \<open>Halts\<close> or \<open>Stuck\<close>; from power-on it ends in \<open>Idles\<close> with two runnable
    processes, and with a wrong magic number in \<open>Halts\<close>.

  \<^bold>\<open>Bounds and fuel.\<close> Loops with a static bound are folds over their index range. The searches that
  follow \<open>next\<close> pointers, the line-drawing loop and the busy wait on the tick counter may run for ever in
  C; they are \<open>partial_function (option)\<close>, and the properties prove that they return under the stated
  invariant. The controller waits of the mouse have the code's own bound of 100000 polls.

  \<^bold>\<open>Not modelled.\<close> The boot loader under \<open>boot/\<close> with its animation, a separate program around BIOS
  calls (the kernel is started by GRUB through its multiboot header); the mouse stub and
  \<open>mm_init\<close>, which are empty. The system calls of the user program are taken one after the other: what
  other threads and interrupts do between two of them is the scheduler's and the interface's part.
  Timing, caches and the translation of the kernel's own accesses are outside the model: the kernel runs
  on identity-mapped memory.
\<close>

end
